(* ===== verification/Prelude.thy ===== *)
theory Prelude
  imports Main "HOL-Library.Word" "HOL-Library.Sublist"
begin

text \<open>
  Shared vocabulary of the development.

  A JavaScript string is a sequence of UTF-16 code units; here it is a list of integers, as
  \<open>charCodeAt\<close> reads them, so \<open>length\<close> counts code units exactly as the source does. The
  literal \<open>js ''abc''\<close> is the string \<open>abc\<close>. JavaScript numbers that the code only uses as
  integers are \<open>int\<close>, positions that cannot be negative are \<open>nat\<close>.

  The string methods the sources call (\<open>includes\<close>, here \<open>hasChar\<close>, \<open>startsWith\<close>, \<open>endsWith\<close>,
  \<open>indexOf\<close>, \<open>lastIndexOf\<close>, \<open>slice\<close>, \<open>split\<close>, \<open>join\<close>, \<open>replaceAll\<close>, \<open>trim\<close>) are
  defined here together with the facts about them that the component theories share. A thrown
  exception is the left side of a sum; \<open>bindE\<close> sequences such results.
\<close>

named_theorems guards \<open>inversion facts for checks that may throw\<close>
named_theorems path_simps \<open>facts about segment lists and joined paths\<close>

type_synonym jchar = int
type_synonym jstr = "jchar list"

definition js :: "string \<Rightarrow> jstr" where
  "js s = map of_char s"

lemma js_Nil [simp]: "js [] = []"
  by (simp add: js_def)

lemma js_Cons [simp]: "js (c # s) = of_char c # js s"
  by (simp add: js_def)

subsection \<open>Results that may be an exception\<close>

fun bindE :: "'e + 'a \<Rightarrow> ('a \<Rightarrow> 'e + 'b) \<Rightarrow> 'e + 'b" where
  "bindE (Inl e) f = Inl e"
| "bindE (Inr x) f = f x"

lemma bindE_Inr_iff [guards]: "bindE m f = Inr y \<longleftrightarrow> (\<exists>x. m = Inr x \<and> f x = Inr y)"
  by (cases m) auto

lemma bindE_Inl_iff [guards]:
  "bindE m f = Inl e \<longleftrightarrow> m = Inl e \<or> (\<exists>x. m = Inr x \<and> f x = Inl e)"
  by (cases m) auto

lemma bindE_assoc: "bindE (bindE m f) g = bindE m (\<lambda>x. bindE (f x) g)"
  by (cases m) auto

definition throwIf :: "bool \<Rightarrow> 'e \<Rightarrow> 'e + unit" where
  "throwIf b e = (if b then Inl e else Inr ())"

lemma throwIf_Inr_iff [simp, guards]: "throwIf b e = Inr u \<longleftrightarrow> \<not> b"
  by (simp add: throwIf_def)

lemma throwIf_Inl_iff [simp, guards]: "throwIf b e = Inl e' \<longleftrightarrow> b \<and> e' = e"
  by (auto simp: throwIf_def)

definition isOk :: "'e + 'a \<Rightarrow> bool" where
  "isOk r = (case r of Inl _ \<Rightarrow> False | Inr _ \<Rightarrow> True)"

lemma isOk_simps [simp]: "isOk (Inl e) = False" "isOk (Inr x) = True"
  by (simp_all add: isOk_def)

lemma isOk_iff: "isOk r \<longleftrightarrow> (\<exists>x. r = Inr x)"
  by (cases r) auto

fun mapE :: "('a \<Rightarrow> 'e + 'b) \<Rightarrow> 'a list \<Rightarrow> 'e + 'b list" where
  "mapE f [] = Inr []"
| "mapE f (x # xs) = bindE (f x) (\<lambda>y. bindE (mapE f xs) (\<lambda>ys. Inr (y # ys)))"

lemma mapE_length: "mapE f xs = Inr ys \<Longrightarrow> length ys = length xs"
  by (induction xs arbitrary: ys) (auto simp: bindE_Inr_iff)

subsection \<open>String methods\<close>

definition hasChar :: "jstr \<Rightarrow> jchar \<Rightarrow> bool" where
  "hasChar s c = (c \<in> set s)"

definition startsWith :: "jstr \<Rightarrow> jstr \<Rightarrow> bool" where
  "startsWith s p = (take (length p) s = p)"

definition endsWith :: "jstr \<Rightarrow> jstr \<Rightarrow> bool" where
  "endsWith s p = (length p \<le> length s \<and> drop (length s - length p) s = p)"

text \<open>\<open>charCodeAt\<close> answers \<open>NaN\<close> out of range, which is \<open>None\<close> here.\<close>

definition charCodeAt :: "jstr \<Rightarrow> nat \<Rightarrow> jchar option" where
  "charCodeAt s i = (if i < length s then Some (s ! i) else None)"

definition slice :: "jstr \<Rightarrow> nat \<Rightarrow> nat \<Rightarrow> jstr" where
  "slice s a b = take (b - a) (drop a s)"

fun indexOf :: "jstr \<Rightarrow> jchar \<Rightarrow> int" where
  "indexOf [] c = -1"
| "indexOf (x # xs) c =
     (if x = c then 0 else (let i = indexOf xs c in if i < 0 then -1 else i + 1))"

definition indexOfFrom :: "jstr \<Rightarrow> jchar \<Rightarrow> nat \<Rightarrow> int" where
  "indexOfFrom s c n = (let i = indexOf (drop n s) c in if i < 0 then -1 else i + int n)"

fun lastIndexOf :: "jstr \<Rightarrow> jchar \<Rightarrow> int" where
  "lastIndexOf [] c = -1"
| "lastIndexOf (x # xs) c =
     (let i = lastIndexOf xs c in if i \<ge> 0 then i + 1 else if x = c then 0 else -1)"

fun splitOn :: "jchar \<Rightarrow> jstr \<Rightarrow> jstr list" where
  "splitOn c [] = [[]]"
| "splitOn c (x # xs) =
     (if x = c then [] # splitOn c xs
      else (case splitOn c xs of [] \<Rightarrow> [[x]] | y # ys \<Rightarrow> (x # y) # ys))"

fun joinOn :: "jchar \<Rightarrow> jstr list \<Rightarrow> jstr" where
  "joinOn c [] = []"
| "joinOn c [x] = x"
| "joinOn c (x # y # ys) = x @ c # joinOn c (y # ys)"

definition replaceChar :: "jchar \<Rightarrow> jchar \<Rightarrow> jstr \<Rightarrow> jstr" where
  "replaceChar a b s = map (\<lambda>x. if x = a then b else x) s"

definition dropEndWhile :: "(jchar \<Rightarrow> bool) \<Rightarrow> jstr \<Rightarrow> jstr" where
  "dropEndWhile p s = rev (dropWhile p (rev s))"

text \<open>The white space and line terminators of ECMAScript, as \<open>trim\<close> and \<open>\s\<close> read them.\<close>

definition isJsSpace :: "jchar \<Rightarrow> bool" where
  "isJsSpace c \<longleftrightarrow> (9 \<le> c \<and> c \<le> 13) \<or> c = 32 \<or> c = 0xa0 \<or> c = 0x1680 \<or>
     (0x2000 \<le> c \<and> c \<le> 0x200a) \<or> c = 0x2028 \<or> c = 0x2029 \<or> c = 0x202f \<or> c = 0x205f \<or>
     c = 0x3000 \<or> c = 0xfeff"

definition trim :: "jstr \<Rightarrow> jstr" where
  "trim s = dropEndWhile isJsSpace (dropWhile isJsSpace s)"

definition asciiLower :: "jchar \<Rightarrow> jchar" where
  "asciiLower c = (if 65 \<le> c \<and> c \<le> 90 then c + 32 else c)"

definition asciiUpper :: "jchar \<Rightarrow> jchar" where
  "asciiUpper c = (if 97 \<le> c \<and> c \<le> 122 then c - 32 else c)"

definition isAsciiLetter :: "jchar \<Rightarrow> bool" where
  "isAsciiLetter c \<longleftrightarrow> (65 \<le> c \<and> c \<le> 90) \<or> (97 \<le> c \<and> c \<le> 122)"

definition isAsciiDigit :: "jchar \<Rightarrow> bool" where
  "isAsciiDigit c \<longleftrightarrow> 48 \<le> c \<and> c \<le> 57"

definition isAscii :: "jstr \<Rightarrow> bool" where
  "isAscii s \<longleftrightarrow> (\<forall>c \<in> set s. 0 \<le> c \<and> c \<le> 127)"

subsection \<open>Facts about the string methods\<close>

lemma startsWith_iff_prefix: "startsWith s p \<longleftrightarrow> prefix p s"
  unfolding startsWith_def by (metis append_eq_conv_conj prefix_def)

lemma startsWith_append [simp]: "startsWith (p @ s) p"
  by (simp add: startsWith_def)

lemma startsWithE: "startsWith s p \<Longrightarrow> (\<And>r. s = p @ r \<Longrightarrow> P) \<Longrightarrow> P"
  by (metis append_take_drop_id startsWith_def)

lemma endsWithE: "endsWith s p \<Longrightarrow> (\<And>r. s = r @ p \<Longrightarrow> P) \<Longrightarrow> P"
  unfolding endsWith_def by (metis append_take_drop_id)

lemma endsWith_append [simp]: "endsWith (s @ p) p"
  by (simp add: endsWith_def)

lemma endsWith_single: "endsWith s [c] \<longleftrightarrow> s \<noteq> [] \<and> last s = c"
  by (cases s rule: rev_cases) (auto simp: endsWith_def)

lemma indexOf_ge: "-1 \<le> indexOf s c"
  by (induction s) (auto simp: Let_def)

lemma indexOf_neg_iff: "indexOf s c < 0 \<longleftrightarrow> c \<notin> set s"
  by (induction s) (auto simp: Let_def)

lemma indexOf_eq_neg1_iff: "indexOf s c = -1 \<longleftrightarrow> c \<notin> set s"
  using indexOf_neg_iff [of s c] indexOf_ge [of s c] by linarith

lemma indexOf_less: "indexOf s c < int (length s) \<or> s = []"
  by (induction s) (auto simp: Let_def)

lemma indexOf_nth:
  "0 \<le> indexOf s c \<Longrightarrow> nat (indexOf s c) < length s \<and> s ! nat (indexOf s c) = c"
  by (induction s) (auto simp: Let_def nat_add_distrib split: if_splits)

lemma indexOf_first: "i < length s \<Longrightarrow> s ! i = c \<Longrightarrow> 0 \<le> indexOf s c \<and> indexOf s c \<le> int i"
proof (induction s arbitrary: i)
  case Nil
  then show ?case by simp
next
  case (Cons x xs)
  then show ?case
    by (cases i) (fastforce simp: Let_def indexOf_neg_iff)+
qed

lemma splitOn_nonempty [simp]: "splitOn c s \<noteq> []"
  by (cases s) (auto split: list.splits)

lemma splitOn_no_sep: "seg \<in> set (splitOn c s) \<Longrightarrow> c \<notin> set seg"
  by (induction s arbitrary: seg) (auto split: if_splits list.splits)

lemma joinOn_Cons_hd [simp]: "joinOn c ((x # a) # l) = x # joinOn c (a # l)"
  by (cases l) auto

lemma joinOn_Nil_hd: "l \<noteq> [] \<Longrightarrow> joinOn c ([] # l) = c # joinOn c l"
  by (cases l) auto

lemma joinOn_splitOn [path_simps, simp]: "joinOn c (splitOn c s) = s"
proof (induction s)
  case Nil
  then show ?case by simp
next
  case (Cons x xs)
  then show ?case
    by (cases "splitOn c xs") (auto simp: joinOn_Nil_hd)
qed

lemma splitOn_id [path_simps]: "c \<notin> set s \<Longrightarrow> splitOn c s = [s]"
  by (induction s) auto

lemma splitOn_append_sep [path_simps]: "c \<notin> set a \<Longrightarrow> splitOn c (a @ c # b) = a # splitOn c b"
  by (induction a) auto

lemma splitOn_joinOn [path_simps]:
  "xs \<noteq> [] \<Longrightarrow> (\<forall>x \<in> set xs. c \<notin> set x) \<Longrightarrow> splitOn c (joinOn c xs) = xs"
  by (induction c xs rule: joinOn.induct) (auto simp: splitOn_id splitOn_append_sep)

lemma set_splitOn: "seg \<in> set (splitOn c s) \<Longrightarrow> set seg \<subseteq> set s"
  by (induction s arbitrary: seg) (fastforce split: if_splits list.splits)+

lemma splitOn_append:
  "splitOn c (a @ b) =
     butlast (splitOn c a) @ (last (splitOn c a) @ hd (splitOn c b)) # tl (splitOn c b)"
proof (induction a)
  case Nil
  then show ?case by (cases "splitOn c b") auto
next
  case (Cons x xs)
  then show ?case by (cases "splitOn c xs") (auto split: list.splits)
qed

lemma splitOn_sep [path_simps]: "splitOn c (a @ c # b) = splitOn c a @ splitOn c b"
proof (induction a)
  case Nil
  then show ?case by simp
next
  case (Cons x xs)
  then show ?case by (cases "splitOn c xs") (auto split: list.splits)
qed

lemma set_joinOn: "set (joinOn c xs) \<subseteq> insert c (\<Union> (set ` set xs))"
  by (induction c xs rule: joinOn.induct) auto

lemma joinOn_append: "xs \<noteq> [] \<Longrightarrow> ys \<noteq> [] \<Longrightarrow> joinOn c (xs @ ys) = joinOn c xs @ c # joinOn c ys"
proof (induction c xs rule: joinOn.induct)
  case (2 c x)
  then show ?case by (cases ys) auto
qed auto

lemma length_replaceChar [simp]: "length (replaceChar a b s) = length s"
  by (simp add: replaceChar_def)

lemma replaceChar_not_in [simp]: "a \<noteq> b \<Longrightarrow> a \<notin> set (replaceChar a b s)"
  by (auto simp: replaceChar_def)

lemma replaceChar_idem: "a \<noteq> b \<Longrightarrow> replaceChar a b (replaceChar a b s) = replaceChar a b s"
  by (simp add: replaceChar_def comp_def)

lemma replaceChar_id: "a \<notin> set s \<Longrightarrow> replaceChar a b s = s"
  by (induction s) (auto simp: replaceChar_def)

lemma set_replaceChar: "set (replaceChar a b s) = (\<lambda>x. if x = a then b else x) ` set s"
  by (simp add: replaceChar_def)

lemma dropEndWhile_append_not: "\<not> p x \<Longrightarrow> dropEndWhile p (s @ [x]) = s @ [x]"
  by (simp add: dropEndWhile_def)

lemma dropEndWhile_last: "dropEndWhile p s \<noteq> [] \<Longrightarrow> \<not> p (last (dropEndWhile p s))"
  by (simp add: dropEndWhile_def last_rev hd_dropWhile)

lemma dropEndWhile_prefix: "prefix (dropEndWhile p s) s"
proof -
  have "rev s = takeWhile p (rev s) @ dropWhile p (rev s)" by simp
  then have "s = rev (dropWhile p (rev s)) @ rev (takeWhile p (rev s))"
    by (metis rev_append rev_rev_ident)
  then show ?thesis by (metis dropEndWhile_def prefixI)
qed

lemma length_dropEndWhile: "length (dropEndWhile p s) \<le> length s"
  by (simp add: dropEndWhile_prefix prefix_length_le)

lemma set_dropEndWhile: "set (dropEndWhile p s) \<subseteq> set s"
  by (simp add: dropEndWhile_prefix set_mono_prefix)

lemma hd_dropEndWhile: "dropEndWhile p s \<noteq> [] \<Longrightarrow> s \<noteq> [] \<and> hd (dropEndWhile p s) = hd s"
  using dropEndWhile_prefix [of p s] unfolding prefix_def by (metis Nil_is_append_conv hd_append2)

lemma set_trim: "set (trim s) \<subseteq> set s"
  unfolding trim_def using set_dropEndWhile set_dropWhileD by fastforce

lemma trim_last: "trim s \<noteq> [] \<Longrightarrow> \<not> isJsSpace (last (trim s))"
  unfolding trim_def by (rule dropEndWhile_last)

lemma trim_hd: "trim s \<noteq> [] \<Longrightarrow> \<not> isJsSpace (hd (trim s))"
  unfolding trim_def
  using hd_dropEndWhile [of isJsSpace "dropWhile isJsSpace s"] hd_dropWhile [of isJsSpace s] by simp

lemma dropEndWhile_fixed: "(s \<noteq> [] \<Longrightarrow> \<not> p (last s)) \<Longrightarrow> dropEndWhile p s = s"
  by (cases s rule: rev_cases) (auto simp: dropEndWhile_def)

lemma dropWhile_fixed: "(s \<noteq> [] \<Longrightarrow> \<not> p (hd s)) \<Longrightarrow> dropWhile p s = s"
  by (cases s) auto

lemma trim_fixed:
  "(s \<noteq> [] \<Longrightarrow> \<not> isJsSpace (hd s) \<and> \<not> isJsSpace (last s)) \<Longrightarrow> trim s = s"
  by (cases "s = []") (simp_all add: trim_def dropWhile_fixed dropEndWhile_fixed)

lemma trim_idem: "trim (trim s) = trim s"
  by (rule trim_fixed) (simp add: trim_hd trim_last)

lemma lastIndexOf_ge: "-1 \<le> lastIndexOf s c"
  by (induction s) (auto simp: Let_def)

lemma lastIndexOf_neg_iff: "lastIndexOf s c < 0 \<longleftrightarrow> c \<notin> set s"
  by (induction s) (auto simp: Let_def)

lemma lastIndexOf_less: "lastIndexOf s c < int (length s)"
  by (induction s) (auto simp: Let_def)

lemma drop_lastIndexOf:
  "drop (nat (lastIndexOf s c + 1)) s = rev (takeWhile (\<lambda>x. x \<noteq> c) (rev s))"
proof (induction s)
  case Nil
  then show ?case by simp
next
  case (Cons x xs)
  show ?case
  proof (cases "c \<in> set xs")
    case True
    then have i: "0 \<le> lastIndexOf xs c" using lastIndexOf_neg_iff [of xs c] by linarith
    then have "nat (lastIndexOf xs c + 1 + 1) = Suc (nat (lastIndexOf xs c + 1))" by linarith
    with i True Cons show ?thesis by (simp add: Let_def takeWhile_append1)
  next
    case False
    then have i: "lastIndexOf xs c < 0" by (simp add: lastIndexOf_neg_iff)
    have all: "\<forall>y \<in> set (rev xs). y \<noteq> c" using False by auto
    have neg: "lastIndexOf xs c = -1" using i lastIndexOf_ge [of xs c] by linarith
    show ?thesis
      using all False by (simp add: neg Let_def takeWhile_append2 takeWhile_eq_all_conv [THEN iffD2] takeWhile_append)
  qed
qed

lemma nat_indexOf:
  "nat (if indexOf s c < 0 then int (length s) else indexOf s c)
     = length (takeWhile (\<lambda>x. x \<noteq> c) s)"
proof (induction s)
  case Nil
  then show ?case by simp
next
  case (Cons x xs)
  then show ?case by (auto simp: Let_def nat_add_distrib split: if_splits)
qed

lemma take_min_takeWhile:
  "take (min (length (takeWhile p xs)) (length (takeWhile q xs))) xs = takeWhile (\<lambda>x. p x \<and> q x) xs"
  by (induction xs) auto

lemma slice_until_either:
  assumes "a \<le> length s"
  shows "slice s a (nat (min (if indexOfFrom s c a < 0 then int (length s) else indexOfFrom s c a)
                             (if indexOfFrom s d a < 0 then int (length s) else indexOfFrom s d a)))
         = takeWhile (\<lambda>x. x \<noteq> c \<and> x \<noteq> d) (drop a s)"
proof -
  let ?t = "drop a s"
  let ?e = "\<lambda>z. if indexOf ?t z < 0 then int (length ?t) else indexOf ?t z"
  have e: "(if indexOfFrom s z a < 0 then int (length s) else indexOfFrom s z a) = ?e z + int a" for z
    using assms indexOf_ge [of ?t z] by (auto simp: indexOfFrom_def Let_def of_nat_diff)
  have nn: "0 \<le> ?e z" for z by auto
  have m: "nat (min (?e c + int a) (?e d + int a)) - a = min (nat (?e c)) (nat (?e d))"
    using nn [of c] nn [of d] by (simp add: min_def nat_add_distrib)
  show ?thesis
    unfolding slice_def e m nat_indexOf by (rule take_min_takeWhile)
qed

lemma asciiLower_idem [simp]: "asciiLower (asciiLower c) = asciiLower c"
  by (simp add: asciiLower_def)

lemma asciiUpper_idem [simp]: "asciiUpper (asciiUpper c) = asciiUpper c"
  by (simp add: asciiUpper_def)

lemma isAscii_append [simp]: "isAscii (a @ b) \<longleftrightarrow> isAscii a \<and> isAscii b"
  by (auto simp: isAscii_def)

end
