(* ===== verification/NodePath.thy ===== *)
theory NodePath
  imports Prelude
begin

text \<open>
  The part of Node's standard \<open>path\<close> module that the sources call. The POSIX functions are
  pure string functions of their arguments and of the current directory; a path is handled as the
  list of its slash-separated segments, which is how \<open>normalizeString\<close> of Node treats it. Of
  the \<open>win32\<close> variant the purely syntactic functions (\<open>isAbsolute\<close>, the root found by
  \<open>parse\<close>, \<open>basename\<close>) are defined here. \<open>win32.resolve\<close>, \<open>win32.normalize\<close> and
  \<open>win32.relative\<close> depend on the per-drive current directories of the Windows process and on
  Unicode case folding; they are fields of the \<open>host\<close> record, beside \<open>process.platform\<close> and
  \<open>process.cwd()\<close>.
\<close>

datatype platform = Win32 | Posix

record host =
  platform :: platform
  cwd :: jstr
  win32Resolve :: "jstr list \<Rightarrow> jstr"
  win32Normalize :: "jstr \<Rightarrow> jstr"
  win32Relative :: "jstr \<Rightarrow> jstr \<Rightarrow> jstr"

abbreviation SLASH :: jchar where "SLASH \<equiv> 47"
abbreviation BACKSLASH :: jchar where "BACKSLASH \<equiv> 92"
abbreviation COLON :: jchar where "COLON \<equiv> 58"
abbreviation DOT :: jchar where "DOT \<equiv> 46"
abbreviation dotdot :: jstr where "dotdot \<equiv> [46, 46]"

subsection \<open>Normalising a segment list\<close>

text \<open>
  \<open>normalizeString\<close>: empty and \<open>.\<close> segments vanish, \<open>..\<close> removes the segment before it,
  and a \<open>..\<close> with nothing left to remove stays only when climbing above the start is allowed.
  The stack holds the segments kept so far, last one first.
\<close>

fun normSegs :: "bool \<Rightarrow> jstr list \<Rightarrow> jstr list \<Rightarrow> jstr list" where
  "normSegs up st [] = rev st"
| "normSegs up st (s # ss) =
     (if s = [] \<or> s = [DOT] then normSegs up st ss
      else if s = dotdot then
        (if st \<noteq> [] \<and> hd st \<noteq> dotdot then normSegs up (tl st) ss
         else if up then normSegs up (dotdot # st) ss
         else normSegs up st ss)
      else normSegs up (s # st) ss)"

definition normalizeString :: "jstr \<Rightarrow> bool \<Rightarrow> jstr" where
  "normalizeString s up = joinOn SLASH (normSegs up [] (splitOn SLASH s))"

definition posixIsAbsolute :: "jstr \<Rightarrow> bool" where
  "posixIsAbsolute p = (p \<noteq> [] \<and> hd p = SLASH)"

definition posixNormalize :: "jstr \<Rightarrow> jstr" where
  "posixNormalize p =
     (if p = [] then [DOT]
      else let isAbs = posixIsAbsolute p;
               trailing = endsWith p [SLASH];
               n = normalizeString p (\<not> isAbs)
           in if n = [] then (if isAbs then [SLASH] else if trailing then [DOT, SLASH] else [DOT])
              else (if isAbs then [SLASH] else []) @ n @ (if trailing then [SLASH] else []))"

fun resolveRaw :: "jstr list \<Rightarrow> jstr \<Rightarrow> jstr \<times> bool" where
  "resolveRaw [] acc = (acc, False)"
| "resolveRaw (p # ps) acc =
     (if p = [] then resolveRaw ps acc
      else if hd p = SLASH then (p @ SLASH # acc, True)
      else resolveRaw ps (p @ SLASH # acc))"

definition posixResolve :: "jstr \<Rightarrow> jstr list \<Rightarrow> jstr" where
  "posixResolve wd args =
     (case resolveRaw (rev args @ [wd]) [] of (r, isAbs) \<Rightarrow>
        let n = normalizeString r (\<not> isAbs)
        in if isAbs then SLASH # n else if n \<noteq> [] then n else [DOT])"

definition posixJoin :: "jstr list \<Rightarrow> jstr" where
  "posixJoin args =
     (let ps = filter (\<lambda>p. p \<noteq> []) args
      in if ps = [] then [DOT] else posixNormalize (joinOn SLASH ps))"

text \<open>\<open>path.relative\<close> after both arguments have been resolved to absolute normal form.\<close>

fun commonPrefix :: "jstr list \<Rightarrow> jstr list \<Rightarrow> nat" where
  "commonPrefix (x # xs) (y # ys) = (if x = y then Suc (commonPrefix xs ys) else 0)"
| "commonPrefix _ _ = 0"

definition absSegs :: "jstr \<Rightarrow> jstr list" where
  "absSegs p = filter (\<lambda>s. s \<noteq> []) (splitOn SLASH p)"

definition posixRelative :: "jstr \<Rightarrow> jstr \<Rightarrow> jstr \<Rightarrow> jstr" where
  "posixRelative wd from_path to_path =
     (let f = absSegs (posixResolve wd [from_path]);
          t = absSegs (posixResolve wd [to_path]);
          k = commonPrefix f t
      in joinOn SLASH (replicate (length f - k) dotdot @ drop k t))"

definition posixDirname :: "jstr \<Rightarrow> jstr" where
  "posixDirname p =
     (if p = [] then [DOT]
      else let hasRoot = (hd p = SLASH);
               r = dropEndWhile (\<lambda>c. c \<noteq> SLASH) (dropEndWhile (\<lambda>c. c = SLASH) p)
           in if length r \<le> 1 then (if hasRoot then [SLASH] else [DOT])
              else if hasRoot \<and> length r = 2 then [SLASH, SLASH]
              else butlast r)"

definition lastPart :: "(jchar \<Rightarrow> bool) \<Rightarrow> jstr \<Rightarrow> jstr" where
  "lastPart sep p = rev (takeWhile (\<lambda>c. \<not> sep c) (rev (dropEndWhile sep p)))"

definition posixBasename :: "jstr \<Rightarrow> jstr" where
  "posixBasename p = lastPart (\<lambda>c. c = SLASH) p"

definition extensionOf :: "jstr \<Rightarrow> jstr" where
  "extensionOf b =
     (let i = lastIndexOf b DOT in if i \<le> 0 \<or> b = dotdot then [] else drop (nat i) b)"

definition posixExtname :: "jstr \<Rightarrow> jstr" where
  "posixExtname p = extensionOf (posixBasename p)"

subsection \<open>Syntactic functions of the Windows variant\<close>

definition isWinSep :: "jchar \<Rightarrow> bool" where
  "isWinSep c \<longleftrightarrow> c = SLASH \<or> c = BACKSLASH"

definition win32IsAbsolute :: "jstr \<Rightarrow> bool" where
  "win32IsAbsolute p =
     (p \<noteq> [] \<and> (isWinSep (hd p) \<or>
        (length p > 2 \<and> isAsciiLetter (hd p) \<and> p ! 1 = COLON \<and> isWinSep (p ! 2))))"

definition uncRootLength :: "jstr \<Rightarrow> nat" where
  "uncRootLength p =
     (let host_part = takeWhile (\<lambda>c. \<not> isWinSep c) (drop 2 p);
          j1 = 2 + length host_part;
          seps = takeWhile isWinSep (drop j1 p);
          j2 = j1 + length seps;
          share = takeWhile (\<lambda>c. \<not> isWinSep c) (drop j2 p);
          j3 = j2 + length share
      in if host_part = [] \<or> j1 \<ge> length p \<or> j2 \<ge> length p then 1
         else if j3 = length p then j3 else j3 + 1)"

definition win32ParseRoot :: "jstr \<Rightarrow> jstr" where
  "win32ParseRoot p =
     (if p = [] then []
      else if isWinSep (hd p) then
        (if length p > 1 \<and> isWinSep (p ! 1) then take (uncRootLength p) p else take 1 p)
      else if length p > 1 \<and> isAsciiLetter (hd p) \<and> p ! 1 = COLON then
        (if length p > 2 \<and> isWinSep (p ! 2) then take 3 p else take 2 p)
      else [])"

definition win32Basename :: "jstr \<Rightarrow> jstr" where
  "win32Basename p =
     (let q = (if length p \<ge> 2 \<and> isAsciiLetter (hd p) \<and> p ! 1 = COLON then drop 2 p else p)
      in lastPart isWinSep q)"

subsection \<open>The functions selected by the running platform\<close>

definition pathSep :: "host \<Rightarrow> jchar" where
  "pathSep h = (case platform h of Win32 \<Rightarrow> BACKSLASH | Posix \<Rightarrow> SLASH)"

definition pathResolve :: "host \<Rightarrow> jstr list \<Rightarrow> jstr" where
  "pathResolve h args =
     (case platform h of Win32 \<Rightarrow> win32Resolve h args | Posix \<Rightarrow> posixResolve (cwd h) args)"

definition pathRelative :: "host \<Rightarrow> jstr \<Rightarrow> jstr \<Rightarrow> jstr" where
  "pathRelative h a b =
     (case platform h of Win32 \<Rightarrow> win32Relative h a b | Posix \<Rightarrow> posixRelative (cwd h) a b)"

definition pathExtname :: "host \<Rightarrow> jstr \<Rightarrow> jstr" where
  "pathExtname h p =
     extensionOf (case platform h of Win32 \<Rightarrow> win32Basename p | Posix \<Rightarrow> posixBasename p)"

definition pathIsAbsolute :: "host \<Rightarrow> jstr \<Rightarrow> bool" where
  "pathIsAbsolute h p =
     (case platform h of Win32 \<Rightarrow> win32IsAbsolute p | Posix \<Rightarrow> posixIsAbsolute p)"

text \<open>The process contract: on POSIX the current directory is an absolute path.\<close>

definition wfHost :: "host \<Rightarrow> bool" where
  "wfHost h \<longleftrightarrow> platform h = Posix \<longrightarrow> posixIsAbsolute (cwd h)"

subsection \<open>Segment lists in normal form\<close>

definition plainSeg :: "jstr \<Rightarrow> bool" where
  "plainSeg s \<longleftrightarrow> s \<noteq> [] \<and> s \<noteq> [DOT] \<and> s \<noteq> dotdot"

definition keptSeg :: "jstr \<Rightarrow> bool" where
  "keptSeg s \<longleftrightarrow> s \<noteq> [] \<and> s \<noteq> [DOT]"

lemma normSegs_drop_empty:
  "normSegs up st (filter keptSeg ss) = normSegs up st ss"
  by (induction up st ss rule: normSegs.induct) (auto simp: keptSeg_def)

lemma normSegs_plain:
  "\<forall>s \<in> set ss. s \<noteq> dotdot \<Longrightarrow> normSegs up st ss = rev st @ filter keptSeg ss"
  by (induction up st ss rule: normSegs.induct) (auto simp: keptSeg_def)

lemma normSegs_set:
  "s \<in> set (normSegs up st ss) \<Longrightarrow> s \<in> set st \<or> (s \<in> set ss \<and> s \<noteq> [] \<and> s \<noteq> [DOT])"
  by (induction up st ss rule: normSegs.induct)
     (auto split: if_splits dest: list.set_sel(2))

lemma normSegs_Cons_no_up:
  "list_all plainSeg st \<Longrightarrow>
   normSegs False st (s # ss) =
     normSegs False (if s = [] \<or> s = [DOT] then st else if s = dotdot then tl st else s # st) ss"
  by (cases st) (auto simp: plainSeg_def)

lemma list_all_plain_step:
  "list_all plainSeg st \<Longrightarrow>
   list_all plainSeg (if s = [] \<or> s = [DOT] then st else if s = dotdot then tl st else s # st)"
  by (cases st) (auto simp: plainSeg_def)

lemma normSegs_no_up: "list_all plainSeg st \<Longrightarrow> list_all plainSeg (normSegs False st ss)"
proof (induction ss arbitrary: st)
  case Nil
  then show ?case by simp
next
  case (Cons s ss)
  show ?case
    unfolding normSegs_Cons_no_up [OF Cons.prems]
    by (rule Cons.IH) (rule list_all_plain_step [OF Cons.prems])
qed

lemma normSegs_append:
  "list_all plainSeg st \<Longrightarrow>
   normSegs False st (xs @ ys) = normSegs False (rev (normSegs False st xs)) ys"
proof (induction xs arbitrary: st)
  case Nil
  then show ?case by simp
next
  case (Cons s ss)
  show ?case
    unfolding append_Cons normSegs_Cons_no_up [OF Cons.prems]
    by (rule Cons.IH) (rule list_all_plain_step [OF Cons.prems])
qed

lemma normSegs_id: "\<forall>s \<in> set ss. plainSeg s \<Longrightarrow> normSegs up [] ss = ss"
  by (subst normSegs_plain) (auto simp: plainSeg_def keptSeg_def filter_id_conv)

text \<open>The segments an absolute path denotes once dots are resolved.\<close>

definition pathSegs :: "jstr \<Rightarrow> jstr list" where
  "pathSegs p = normSegs False [] (splitOn SLASH p)"

lemma pathSegs_plain: "s \<in> set (pathSegs p) \<Longrightarrow> plainSeg s"
  unfolding pathSegs_def using normSegs_no_up [of "[]" "splitOn SLASH p"] by (simp add: list_all_iff)

lemma pathSegs_no_slash:
  assumes "s \<in> set (pathSegs p)"
  shows "SLASH \<notin> set s"
proof -
  have "s \<in> set (splitOn SLASH p)"
    using assms normSegs_set [of s False "[]" "splitOn SLASH p"] by (auto simp: pathSegs_def)
  then show ?thesis by (rule splitOn_no_sep)
qed

definition absPath :: "jstr list \<Rightarrow> jstr" where
  "absPath segs = SLASH # joinOn SLASH segs"

definition wfSegs :: "jstr list \<Rightarrow> bool" where
  "wfSegs segs \<longleftrightarrow> (\<forall>s \<in> set segs. plainSeg s \<and> SLASH \<notin> set s)"

lemma wfSegs_pathSegs [simp]: "wfSegs (pathSegs p)"
  by (auto simp: wfSegs_def dest: pathSegs_plain pathSegs_no_slash)

lemma splitOn_absPath:
  "wfSegs segs \<Longrightarrow> splitOn SLASH (absPath segs) = [] # (if segs = [] then [[]] else segs)"
  by (auto simp: absPath_def wfSegs_def splitOn_joinOn)

lemma pathSegs_absPath [simp]:
  assumes "wfSegs segs"
  shows "pathSegs (absPath segs) = segs"
proof -
  have "\<forall>s \<in> set segs. plainSeg s" using assms by (simp add: wfSegs_def)
  then show ?thesis
    using splitOn_absPath [OF assms] normSegs_id [of segs False] by (simp add: pathSegs_def)
qed

lemma absSegs_absPath [simp]:
  assumes "wfSegs segs"
  shows "absSegs (absPath segs) = segs"
proof -
  have "filter (\<lambda>s. s \<noteq> []) segs = segs"
    using assms by (auto simp: wfSegs_def plainSeg_def filter_id_conv)
  then show ?thesis by (simp add: absSegs_def splitOn_absPath [OF assms])
qed

lemma posixIsAbsolute_absPath [simp]: "posixIsAbsolute (absPath segs)"
  by (simp add: absPath_def posixIsAbsolute_def)

lemma joinOn_eq_Nil: "wfSegs segs \<Longrightarrow> joinOn SLASH segs = [] \<longleftrightarrow> segs = []"
  by (cases segs; cases "tl segs") (auto simp: wfSegs_def plainSeg_def)

lemma hd_joinOn: "wfSegs (s # ss) \<Longrightarrow> hd (joinOn SLASH (s # ss)) \<noteq> SLASH"
  by (cases s; cases ss) (simp_all add: wfSegs_def plainSeg_def)

subsection \<open>Resolution in terms of segments\<close>

lemma normSegs_trailing_empty:
  "normSegs False [] (ss @ [[]]) = normSegs False [] ss"
  by (subst normSegs_append) simp_all

lemma posixResolve_raw:
  "resolveRaw (rev args @ [wd]) [] = (r, True) \<Longrightarrow>
   posixResolve wd args = absPath (normSegs False [] (splitOn SLASH r))"
  by (simp add: posixResolve_def normalizeString_def absPath_def)

lemma posixResolve_absolute:
  assumes "posixIsAbsolute p"
  shows "posixResolve wd [p] = absPath (pathSegs p)"
proof -
  have raw: "resolveRaw (rev [p] @ [wd]) [] = (p @ [SLASH], True)"
    using assms by (simp add: posixIsAbsolute_def)
  have "splitOn SLASH (p @ [SLASH]) = splitOn SLASH p @ [[]]"
    using splitOn_sep [of SLASH p "[]"] by simp
  then show ?thesis
    using posixResolve_raw [OF raw] by (simp only: normSegs_trailing_empty pathSegs_def)
qed

lemma normSegs_from_pathSegs:
  "normSegs False [] (splitOn SLASH a @ ss) = normSegs False (rev (pathSegs a)) ss"
  unfolding pathSegs_def by (rule normSegs_append) simp

lemma posixResolve_from_base:
  assumes "posixIsAbsolute a" "\<not> posixIsAbsolute b"
  shows "posixResolve wd [a, b] =
     absPath (normSegs False (rev (pathSegs a)) (splitOn SLASH b))"
proof (cases "b = []")
  case True
  have raw: "resolveRaw (rev [a, b] @ [wd]) [] = (a @ [SLASH], True)"
    using assms True by (simp add: posixIsAbsolute_def)
  have "splitOn SLASH (a @ [SLASH]) = splitOn SLASH a @ [[]]"
    using splitOn_sep [of SLASH a "[]"] by simp
  then show ?thesis
    using posixResolve_raw [OF raw] True by (simp only: normSegs_from_pathSegs splitOn.simps)
next
  case False
  have raw: "resolveRaw (rev [a, b] @ [wd]) [] = (a @ SLASH # b @ [SLASH], True)"
    using assms False by (simp add: posixIsAbsolute_def)
  have seg: "splitOn SLASH (a @ SLASH # b @ [SLASH]) = (splitOn SLASH a @ splitOn SLASH b) @ [[]]"
    using splitOn_sep [of SLASH a "b @ [SLASH]"] splitOn_sep [of SLASH b "[]"] by simp
  show ?thesis
    using posixResolve_raw [OF raw]
    by (simp only: seg normSegs_trailing_empty normSegs_from_pathSegs)
qed

lemma posixResolve_base_absolute:
  assumes "posixIsAbsolute b"
  shows "posixResolve wd [a, b] = absPath (pathSegs b)"
proof -
  have "resolveRaw (rev [a, b] @ [wd]) [] = resolveRaw (rev [b] @ [wd]) []"
    using assms by (simp add: posixIsAbsolute_def)
  then have "posixResolve wd [a, b] = posixResolve wd [b]" by (simp only: posixResolve_def)
  then show ?thesis using posixResolve_absolute [OF assms, of wd] by simp
qed

lemma resolveRaw_relative:
  "p = [] \<or> hd p \<noteq> SLASH \<Longrightarrow> wd \<noteq> [] \<Longrightarrow> hd wd = SLASH \<Longrightarrow>
   resolveRaw [p, wd] [] = resolveRaw [p, wd, wd] []"
  by simp

lemma posixResolve_relative:
  assumes "posixIsAbsolute wd" "\<not> posixIsAbsolute p"
  shows "posixResolve wd [p] = absPath (normSegs False (rev (pathSegs wd)) (splitOn SLASH p))"
proof -
  have "resolveRaw (rev [p] @ [wd]) [] = resolveRaw (rev [wd, p] @ [wd]) []"
    using assms resolveRaw_relative [of p wd] unfolding posixIsAbsolute_def by auto
  then have "posixResolve wd [p] = posixResolve wd [wd, p]" by (simp only: posixResolve_def)
  then show ?thesis using posixResolve_from_base [OF assms] by simp
qed

lemma wfSegs_normSegs:
  assumes "wfSegs st"
  shows "wfSegs (normSegs False (rev st) (splitOn SLASH p))"
  unfolding wfSegs_def
proof
  fix s
  assume s: "s \<in> set (normSegs False (rev st) (splitOn SLASH p))"
  have "list_all plainSeg (rev st)" using assms by (simp add: wfSegs_def list_all_iff)
  then have "list_all plainSeg (normSegs False (rev st) (splitOn SLASH p))"
    by (rule normSegs_no_up)
  then have "plainSeg s" using s by (simp add: list_all_iff)
  moreover have "SLASH \<notin> set s"
    using normSegs_set [OF s] assms by (auto simp: wfSegs_def dest: splitOn_no_sep)
  ultimately show "plainSeg s \<and> SLASH \<notin> set s" ..
qed

text \<open>The segments of the absolute path an argument resolves to.\<close>

definition resolvedSegs :: "jstr \<Rightarrow> jstr \<Rightarrow> jstr list" where
  "resolvedSegs wd p = pathSegs (posixResolve wd [p])"

lemma posixResolve_resolvedSegs:
  assumes "posixIsAbsolute wd"
  shows "posixResolve wd [p] = absPath (resolvedSegs wd p)"
proof (cases "posixIsAbsolute p")
  case True
  then show ?thesis by (simp add: resolvedSegs_def posixResolve_absolute)
next
  case False
  then show ?thesis
    using assms by (simp add: resolvedSegs_def posixResolve_relative wfSegs_normSegs)
qed

lemma resolvedSegs_absolute: "posixIsAbsolute p \<Longrightarrow> resolvedSegs wd p = pathSegs p"
  by (simp add: resolvedSegs_def posixResolve_absolute)

lemma resolvedSegs_absPath [simp]: "wfSegs segs \<Longrightarrow> resolvedSegs wd (absPath segs) = segs"
  by (simp add: resolvedSegs_absolute)

lemma wfSegs_resolvedSegs [simp]: "wfSegs (resolvedSegs wd p)"
  by (simp add: resolvedSegs_def)

subsection \<open>Relative paths\<close>

lemma commonPrefix_le: "commonPrefix xs ys \<le> length xs \<and> commonPrefix xs ys \<le> length ys"
  by (induction xs ys rule: commonPrefix.induct) auto

lemma commonPrefix_full_iff: "commonPrefix xs ys = length xs \<longleftrightarrow> prefix xs ys"
  by (induction xs ys rule: commonPrefix.induct) auto

lemma posixRelative_segs:
  assumes "posixIsAbsolute wd"
  shows "posixRelative wd a b =
     (let f = resolvedSegs wd a; t = resolvedSegs wd b; k = commonPrefix f t
      in joinOn SLASH (replicate (length f - k) dotdot @ drop k t))"
  using assms by (simp add: posixRelative_def posixResolve_resolvedSegs)

lemma posixRelative_inside:
  assumes "posixIsAbsolute wd" "prefix (resolvedSegs wd a) (resolvedSegs wd b)"
  shows "posixRelative wd a b =
     joinOn SLASH (drop (length (resolvedSegs wd a)) (resolvedSegs wd b))"
  using assms commonPrefix_full_iff [of "resolvedSegs wd a" "resolvedSegs wd b"]
  by (simp add: posixRelative_segs Let_def)

lemma posixRelative_outside:
  assumes "posixIsAbsolute wd" "\<not> prefix (resolvedSegs wd a) (resolvedSegs wd b)"
  shows "hd (splitOn SLASH (posixRelative wd a b)) = dotdot"
proof -
  let ?f = "resolvedSegs wd a" and ?t = "resolvedSegs wd b"
  let ?k = "commonPrefix ?f ?t"
  have "?k < length ?f"
    using assms(2) commonPrefix_full_iff [of ?f ?t] commonPrefix_le [of ?f ?t] by linarith
  then obtain n where n: "length ?f - ?k = Suc n" by (metis Suc_diff_Suc)
  let ?l = "replicate (length ?f - ?k) dotdot @ drop ?k ?t"
  have l: "?l = dotdot # replicate n dotdot @ drop ?k ?t" by (simp add: n)
  have "\<forall>x \<in> set ?l. SLASH \<notin> set x"
    using wfSegs_resolvedSegs [of wd b] set_drop_subset [of ?k ?t]
    by (auto simp: wfSegs_def)
  then have "splitOn SLASH (joinOn SLASH ?l) = ?l"
    by (intro splitOn_joinOn) (simp_all add: l)
  then show ?thesis using assms(1) by (simp add: posixRelative_segs Let_def l)
qed

subsection \<open>Resolution of a pair\<close>

lemma normSegs_empty_segment [simp]: "normSegs False (rev st) [[]] = st"
  by simp

lemma posixResolve_skip_empty:
  "posixResolve wd [a, []] = posixResolve wd [a]" "posixResolve wd [[], b] = posixResolve wd [b]"
  by (simp_all add: posixResolve_def)

lemma posixResolve_pair:
  assumes "posixIsAbsolute wd" "\<not> posixIsAbsolute b"
  shows "posixResolve wd [a, b] = absPath (normSegs False (rev (resolvedSegs wd a)) (splitOn SLASH b))"
proof (cases "posixIsAbsolute a")
  case True
  then show ?thesis using posixResolve_from_base [OF True assms(2)] by (simp add: resolvedSegs_absolute)
next
  case a: False
  have res: "resolvedSegs wd a = normSegs False (rev (pathSegs wd)) (splitOn SLASH a)"
    by (simp add: resolvedSegs_def posixResolve_relative [OF assms(1) a] wfSegs_normSegs)
  show ?thesis
  proof (cases "a = [] \<or> b = []")
    case True
    then show ?thesis
    proof
      assume "a = []"
      then show ?thesis using posixResolve_relative [OF assms] res by (simp add: posixResolve_skip_empty)
    next
      assume "b = []"
      then show ?thesis
        using posixResolve_resolvedSegs [OF assms(1), of a] by (simp add: posixResolve_skip_empty)
    qed
  next
    case False
    have raw: "resolveRaw (rev [a, b] @ [wd]) [] = (wd @ SLASH # a @ SLASH # b @ [SLASH], True)"
      using assms a False by (simp add: posixIsAbsolute_def)
    have seg: "splitOn SLASH (wd @ SLASH # a @ SLASH # b @ [SLASH])
        = (splitOn SLASH wd @ splitOn SLASH a @ splitOn SLASH b) @ [[]]"
      using splitOn_sep [of SLASH wd "a @ SLASH # b @ [SLASH]"]
        splitOn_sep [of SLASH a "b @ [SLASH]"] splitOn_sep [of SLASH b "[]"] by simp
    have wf: "list_all plainSeg (rev (pathSegs wd))"
      using wfSegs_pathSegs [of wd] by (simp add: wfSegs_def list_all_iff)
    show ?thesis
      using posixResolve_raw [OF raw] normSegs_append [OF wf, of "splitOn SLASH a" "splitOn SLASH b"]
      by (simp only: seg normSegs_trailing_empty normSegs_from_pathSegs res)
  qed
qed

lemma last_joinOn:
  "segs \<noteq> [] \<Longrightarrow> last segs \<noteq> [] \<Longrightarrow>
     joinOn c segs \<noteq> [] \<and> last (joinOn c segs) = last (last segs)"
  by (induction c segs rule: joinOn.induct) auto

lemma posixNormalize_join:
  assumes "wfSegs segs" "segs \<noteq> []"
  shows "posixNormalize (joinOn SLASH segs) = joinOn SLASH segs"
proof -
  obtain s ss where s: "segs = s # ss" using assms(2) by (cases segs) auto
  have ne: "joinOn SLASH segs \<noteq> []" using assms joinOn_eq_Nil by blast
  have abs: "\<not> posixIsAbsolute (joinOn SLASH segs)"
    using hd_joinOn assms(1) by (simp add: posixIsAbsolute_def s)
  have split: "splitOn SLASH (joinOn SLASH segs) = segs"
    using assms by (intro splitOn_joinOn) (auto simp: wfSegs_def)
  have n: "normalizeString (joinOn SLASH segs) True = joinOn SLASH segs"
    using assms(1) by (simp add: normalizeString_def split normSegs_id wfSegs_def)
  have "last segs \<noteq> [] \<and> SLASH \<notin> set (last segs)"
    using assms last_in_set [of segs] by (auto simp: wfSegs_def plainSeg_def)
  then have "\<not> endsWith (joinOn SLASH segs) [SLASH]"
    using last_joinOn [of segs SLASH] assms(2) ne by (auto simp: endsWith_single dest: last_in_set)
  then show ?thesis using ne abs n by (simp add: posixNormalize_def Let_def)
qed

end
