(* ===== verification/Errors.thy ===== *)
theory Errors
  imports NodePath
begin

text \<open>
  The errors of the library (\<open>src/errors.ts\<close>, \<open>src/archive-errors.ts\<close>, the limit codes of
  \<open>src/archive-limits.ts\<close>) as values. A constructor carries the code and the fixed part of the
  message; the interpolated detail of a message (an escaped path) is left out. \<open>formatErrorDetail\<close>
  of \<open>src/error-detail.ts\<close>, which escapes such details, is modelled on its own.
\<close>

datatype fs_code =
    Helper_failed | Helper_unavailable | Not_empty | Not_found | Not_removable
  | Permission_denied | Permission_unverified | Read_failed | Timeout | Unsupported_platform
  | Already_exists | Denied_path | Device_path | Hardlink | Invalid_path | Insecure_permissions
  | Not_file | Not_owned | Outside_workspace | Path_alias | Path_mismatch | Secret_exists
  | Store_reentrant_update | Symlink | Too_large

datatype fs_category = Policy | Operational

definition OPERATIONAL_CODES :: "fs_code list" where
  "OPERATIONAL_CODES =
     [Helper_failed, Helper_unavailable, Not_empty, Not_found, Not_removable, Permission_denied,
      Permission_unverified, Read_failed, Timeout, Unsupported_platform]"

definition categorizeFsSafeError :: "fs_code \<Rightarrow> fs_category" where
  "categorizeFsSafeError code =
     (if code \<in> set OPERATIONAL_CODES then Operational else Policy)"

type_synonym details = "(string \<times> string) list"

record fs_safe_error =
  err_code :: fs_code
  err_message :: string
  err_category :: fs_category
  err_details :: details

definition newFsSafeError :: "fs_code \<Rightarrow> string \<Rightarrow> details \<Rightarrow> fs_safe_error" where
  "newFsSafeError code message details =
     \<lparr>err_code = code, err_message = message, err_category = categorizeFsSafeError code,
      err_details = details\<rparr>"

datatype archive_security_code =
    Destination_not_directory | Destination_symlink | Destination_symlink_traversal
  | Entry_filtered | Entry_link | Entry_path

datatype archive_limit_code =
    ARCHIVE_SIZE_EXCEEDS_LIMIT | ENTRY_COUNT_EXCEEDS_LIMIT | ENTRY_EXTRACTED_SIZE_EXCEEDS_LIMIT
  | EXTRACTED_SIZE_EXCEEDS_LIMIT | DECODED_SIZE_EXCEEDS_LIMIT | META_ENTRY_SIZE_EXCEEDS_LIMIT
  | MANIFEST_SIZE_EXCEEDS_LIMIT | ENTRY_PATH_COMPONENTS_EXCEEDS_LIMIT

datatype error =
    FsSafe fs_safe_error
  | ArchiveSecurity archive_security_code string
  | ArchiveFormat string
  | ArchiveLimit archive_limit_code
  | RangeErr string
  | NodeErr string
  | PlainErr string

abbreviation throwFs :: "fs_code \<Rightarrow> string \<Rightarrow> error" where
  "throwFs code message \<equiv> FsSafe (newFsSafeError code message [])"

definition isNoReplaceUnsupported :: "error \<Rightarrow> bool" where
  "isNoReplaceUnsupported e =
     (case e of
        FsSafe f \<Rightarrow> err_code f = Helper_unavailable \<and>
          map_of (err_details f) ''capability'' = Some ''rename-noreplace''
      | _ \<Rightarrow> False)"

text \<open>\<open>isArchiveFormatErrorMessage\<close> and \<open>isArchiveTarPathErrorMessage\<close> search a message.\<close>

definition isArchiveFormatErrorMessage :: "string \<Rightarrow> bool" where
  "isArchiveFormatErrorMessage message =
     (sublist ''archive-header-invalid'' message \<or>
      sublist ''archive entry size did not match its manifest'' message)"

definition isArchiveTarPathErrorMessage :: "string \<Rightarrow> bool" where
  "isArchiveTarPathErrorMessage message =
     (sublist ''archive-gnu-path-invalid'' message \<or>
      sublist ''archive-entry-path-invalid'' message)"

subsection \<open>Escaping untrusted text in messages\<close>

definition isUnsafeDetailChar :: "jchar \<Rightarrow> bool" where
  "isUnsafeDetailChar c \<longleftrightarrow>
     (0 \<le> c \<and> c \<le> 0x1f) \<or> (0x7f \<le> c \<and> c \<le> 0x9f) \<or> c = 0x2028 \<or> c = 0x2029"

definition hexDigit :: "int \<Rightarrow> jchar" where
  "hexDigit d = (if d < 10 then 48 + d else 87 + d)"

definition hex4 :: "int \<Rightarrow> jstr" where
  "hex4 n = [hexDigit (n div 4096 mod 16), hexDigit (n div 256 mod 16),
             hexDigit (n div 16 mod 16), hexDigit (n mod 16)]"

definition formatErrorDetail :: "jstr \<Rightarrow> jstr" where
  "formatErrorDetail s =
     concat (map (\<lambda>c. if isUnsafeDetailChar c then BACKSLASH # 117 # hex4 c else [c]) s)"

subsection \<open>Facts\<close>

lemma hexDigit_safe: "0 \<le> d \<Longrightarrow> d < 16 \<Longrightarrow> 48 \<le> hexDigit d \<and> hexDigit d \<le> 102"
  by (simp add: hexDigit_def)

lemma hex4_safe: "c \<in> set (hex4 n) \<Longrightarrow> \<not> isUnsafeDetailChar c"
  using hexDigit_safe [of "n div 4096 mod 16"] hexDigit_safe [of "n div 256 mod 16"]
    hexDigit_safe [of "n div 16 mod 16"] hexDigit_safe [of "n mod 16"]
  by (auto simp: hex4_def isUnsafeDetailChar_def)

lemma formatErrorDetail_append:
  "formatErrorDetail (a @ b) = formatErrorDetail a @ formatErrorDetail b"
  by (simp add: formatErrorDetail_def)

lemma formatErrorDetail_id: "(\<forall>c \<in> set s. \<not> isUnsafeDetailChar c) \<Longrightarrow> formatErrorDetail s = s"
  by (induction s) (auto simp: formatErrorDetail_def)

lemma formatErrorDetail_Cons:
  "formatErrorDetail (x # s) =
     (if isUnsafeDetailChar x then BACKSLASH # 117 # hex4 x else [x]) @ formatErrorDetail s"
  by (simp add: formatErrorDetail_def)

lemma formatErrorDetail_safe_char: "c \<in> set (formatErrorDetail s) \<Longrightarrow> \<not> isUnsafeDetailChar c"
proof (induction s)
  case Nil
  then show ?case by (simp add: formatErrorDetail_def)
next
  case (Cons x s)
  have "\<not> isUnsafeDetailChar BACKSLASH" "\<not> isUnsafeDetailChar 117"
    by (simp_all add: isUnsafeDetailChar_def)
  then show ?case
    using Cons hex4_safe by (auto simp: formatErrorDetail_Cons split: if_splits)
qed

lemma categorize_policy_iff:
  "categorizeFsSafeError code = Policy \<longleftrightarrow> code \<notin> set OPERATIONAL_CODES"
  by (simp add: categorizeFsSafeError_def)

subsection \<open>Properties\<close>

text \<open>No control character or line separator of a hostile name survives the formatting of an
  error detail, clean text passes unchanged, and formatting twice is formatting once.\<close>

lemma formatErrorDetail_clean:
  "list_all (\<lambda>c. \<not> isUnsafeDetailChar c) (formatErrorDetail s) \<and>
   formatErrorDetail (formatErrorDetail s) = formatErrorDetail s"
proof -
  have "\<forall>c \<in> set (formatErrorDetail s). \<not> isUnsafeDetailChar c"
    using formatErrorDetail_safe_char by blast
  then show ?thesis using formatErrorDetail_id by (auto simp: list_all_iff)
qed

end
