(* ===== verification/WindowsPath.thy ===== *)
theory WindowsPath
  imports Errors
begin

text \<open>
  Windows path syntax and the namespace-alias admission built on it
  (\<open>src/windows-path-syntax.ts\<close>, \<open>src/windows-path-alias.ts\<close>). Every function takes the raw
  string; nothing here touches a filesystem. The platform is an argument, as in the source,
  and the host record supplies \<open>path.resolve\<close>.
\<close>

subsection \<open>Raw syntax\<close>

definition isWindowsSeparator :: "jstr \<Rightarrow> nat \<Rightarrow> bool" where
  "isWindowsSeparator value offset =
     (case charCodeAt value offset of None \<Rightarrow> False | Some code \<Rightarrow> code = 0x2f \<or> code = 0x5c)"

text \<open>
  \<open>charCodeAt\<close> out of range is \<open>NaN\<close>, and \<open>NaN | 0x20\<close> is \<open>0x20\<close>: not a letter. The bit
  \<open>0x20\<close> separates the two cases of an ASCII letter.
\<close>

definition foldLetter :: "jchar option \<Rightarrow> int" where
  "foldLetter c = (case c of None \<Rightarrow> 0x20 | Some x \<Rightarrow> or x 0x20)"

definition hasWindowsDrivePrefix :: "jstr \<Rightarrow> nat \<Rightarrow> bool" where
  "hasWindowsDrivePrefix value offset =
     (let letter = foldLetter (charCodeAt value offset)
      in 0x61 \<le> letter \<and> letter \<le> 0x7a \<and> charCodeAt value (offset + 1) = Some 0x3a)"

datatype namespace_marker = DotMarker | QuestionMarker

definition windowsNamespaceMarker :: "jstr \<Rightarrow> namespace_marker option" where
  "windowsNamespaceMarker value =
     (if isWindowsSeparator value 0 \<and> isWindowsSeparator value 1 \<and> isWindowsSeparator value 3
      then (if charCodeAt value 2 = Some DOT then Some DotMarker
            else if charCodeAt value 2 = Some 63 then Some QuestionMarker else None)
      else None)"

definition rootedWindowsDriveColonIndex :: "jstr \<Rightarrow> int" where
  "rootedWindowsDriveColonIndex value =
     (let colon = (if hasWindowsDrivePrefix value 0 then 1
                   else if windowsNamespaceMarker value \<noteq> None \<and> hasWindowsDrivePrefix value 4
                   then 5 else -1)
      in if colon \<ge> 0 \<and> isWindowsSeparator value (nat (colon + 1)) then colon else -1)"

definition asciiLowercase :: "jstr \<Rightarrow> jstr" where
  "asciiLowercase value = map asciiLower value"

text \<open>The regular expression \<open>^[. ]+$\<close>: every code unit is a dot or a space, at least one.\<close>

definition isDotLike :: "jstr \<Rightarrow> bool" where
  "isDotLike segment \<longleftrightarrow> segment \<noteq> [] \<and> (\<forall>c \<in> set segment. c = DOT \<or> c = 32)"

fun climbs :: "int \<Rightarrow> jstr list \<Rightarrow> bool" where
  "climbs depth [] = False"
| "climbs depth (segment # rest) =
     (if segment = [] \<or> segment = [DOT] then climbs depth rest
      else let depth' = depth + (if isDotLike segment then -1 else 1)
           in if depth' < 0 then True else climbs depth' rest)"

definition windowsSegmentsClimbAbove :: "jstr list \<Rightarrow> bool" where
  "windowsSegmentsClimbAbove segments = climbs 0 segments"

text \<open>
  The three answers of \<open>windowsShareOrDeviceRoot\<close>: \<open>undefined\<close> for drive, rooted and
  relative spellings, \<open>null\<close> when the spelling cannot identify a share or device, else a key.
\<close>

datatype share_root = NotShare | Unidentified | ShareKey jstr

definition endsDotOrSpace :: "jstr \<Rightarrow> bool" where
  "endsDotOrSpace s \<longleftrightarrow> s \<noteq> [] \<and> (last s = DOT \<or> last s = 32)"

definition windowsShareOrDeviceRoot :: "jstr \<Rightarrow> share_root" where
  "windowsShareOrDeviceRoot value =
     (if \<not> isWindowsSeparator value 0 \<or> \<not> isWindowsSeparator value 1 then NotShare
      else let spelled = replaceChar SLASH BACKSLASH value in
        if windowsNamespaceMarker spelled = None then
          ShareKey (asciiLowercase (dropEndWhile (\<lambda>c. c = BACKSLASH) (win32ParseRoot spelled)))
        else let segments = splitOn BACKSLASH (drop 4 spelled);
                 head = asciiLowercase (hd segments);
                 need = (if head = js ''unc'' then 3 else 1);
                 authority = take need segments
             in if head = js ''globalroot'' \<or> head = js ''global'' \<or> length authority < need \<or>
                   (\<exists>segment \<in> set authority. segment = [] \<or> endsDotOrSpace segment) \<or>
                   windowsSegmentsClimbAbove (drop (length authority) segments)
                then Unidentified
                else if rootedWindowsDriveColonIndex value = 5 then NotShare
                else ShareKey (asciiLowercase
                       (if head = js ''unc''
                        then BACKSLASH # BACKSLASH # (authority ! 1) @ BACKSLASH # (authority ! 2)
                        else take 4 spelled @ authority ! 0)))"

subsection \<open>Namespace aliases\<close>

datatype alias_kind = Filesystem | Relative

text \<open>
  \<open>hasWindowsPathAlias\<close>: a colon anywhere but in the rooted drive prefix can name an alternate
  data stream, a drive-relative path or a device.
\<close>

definition hasWindowsPathAlias :: "jstr \<Rightarrow> alias_kind \<Rightarrow> platform \<Rightarrow> bool" where
  "hasWindowsPathAlias value kind p =
     (if p \<noteq> Win32 then False
      else let firstColon = indexOf value COLON
           in if firstColon = -1 then False
              else if kind = Relative then True
              else firstColon \<noteq> rootedWindowsDriveColonIndex value \<or>
                   indexOfFrom value COLON (nat (firstColon + 1)) \<noteq> -1)"

definition windowsPathAliasError :: "string \<Rightarrow> error" where
  "windowsPathAliasError message =
     FsSafe (newFsSafeError Invalid_path message [(''reason'', ''windows-path-alias'')])"

definition assertNoWindowsPathAlias :: "jstr \<Rightarrow> alias_kind \<Rightarrow> string \<Rightarrow> platform \<Rightarrow> error + unit" where
  "assertNoWindowsPathAlias value kind message p =
     throwIf (hasWindowsPathAlias value kind p) (windowsPathAliasError message)"

definition isWindowsPathAliasError :: "error \<Rightarrow> bool" where
  "isWindowsPathAliasError e =
     (case e of FsSafe f \<Rightarrow> map_of (err_details f) ''reason'' = Some ''windows-path-alias''
      | _ \<Rightarrow> False)"

text \<open>
  \<open>(?<=.)\\+$\<close> removes the trailing backslashes that have a character other than a line
  terminator before them, so a root of backslashes only keeps one.
\<close>

definition isLineTerminator :: "jchar \<Rightarrow> bool" where
  "isLineTerminator c \<longleftrightarrow> c = 10 \<or> c = 13 \<or> c = 0x2028 \<or> c = 0x2029"

definition trimTrustedRoot :: "jstr \<Rightarrow> jstr" where
  "trimTrustedRoot s =
     (let r = dropEndWhile (\<lambda>c. c = BACKSLASH) s
      in if r \<noteq> s \<and> (r = [] \<or> isLineTerminator (last r)) then r @ [BACKSLASH] else r)"

definition isExactlyUnderWindowsPath :: "jstr \<Rightarrow> jstr \<Rightarrow> bool" where
  "isExactlyUnderWindowsPath trusted value =
     (let root = trimTrustedRoot (replaceChar SLASH BACKSLASH trusted);
          candidate = replaceChar SLASH BACKSLASH value
      in if candidate \<noteq> root \<and>
            \<not> startsWith candidate (if endsWith root [BACKSLASH] then root else root @ [BACKSLASH])
         then False
         else \<not> windowsSegmentsClimbAbove (splitOn BACKSLASH (drop (length root) candidate)))"

definition isForeignWindowsShareOrDevicePath :: "jstr \<Rightarrow> jstr option list \<Rightarrow> platform \<Rightarrow> bool" where
  "isForeignWindowsShareOrDevicePath value trustedPaths p =
     (if p \<noteq> Win32 then False
      else case windowsShareOrDeviceRoot value of
        NotShare \<Rightarrow> False
      | key \<Rightarrow> \<not> (\<exists>trusted \<in> set trustedPaths. case trusted of
            None \<Rightarrow> False
          | Some t \<Rightarrow> (key \<noteq> Unidentified \<and> windowsShareOrDeviceRoot t = key) \<or>
                       isExactlyUnderWindowsPath t value))"

definition isBareWindowsNamespaceDrive :: "jstr \<Rightarrow> bool" where
  "isBareWindowsNamespaceDrive value =
     (length value = 6 \<and> windowsNamespaceMarker value \<noteq> None \<and> hasWindowsDrivePrefix value 4)"

subsection \<open>Resolving without losing a namespaced drive root\<close>

definition anchorWindowsDriveRelativePath :: "host \<Rightarrow> jstr \<Rightarrow> jstr" where
  "anchorWindowsDriveRelativePath h value =
     (if platform h \<noteq> Win32 \<or> pathIsAbsolute h value then value
      else if \<not> hasWindowsDrivePrefix value 0 then value
      else pathResolve h [take 2 value] @ [pathSep h] @ drop 2 value)"

definition repairResolvedWindowsRoot :: "host \<Rightarrow> jstr \<Rightarrow> jstr \<Rightarrow> jstr" where
  "repairResolvedWindowsRoot h value resolved =
     (if length resolved = 6 \<and> platform h = Win32 \<and> isBareWindowsNamespaceDrive resolved \<and>
         \<not> hasWindowsPathAlias value Filesystem (platform h)
      then resolved @ [BACKSLASH] else resolved)"

definition resolvePathPreservingWindowsRoot :: "host \<Rightarrow> jstr \<Rightarrow> jstr" where
  "resolvePathPreservingWindowsRoot h value =
     (if length value = 7 \<and> platform h = Win32 \<and> rootedWindowsDriveColonIndex value = 5
      then (if hasChar value SLASH then replaceChar SLASH BACKSLASH value else value)
      else repairResolvedWindowsRoot h value (pathResolve h [value]))"

definition resolvePathFromBasePreservingWindowsRoot :: "host \<Rightarrow> jstr \<Rightarrow> jstr list \<Rightarrow> jstr" where
  "resolvePathFromBasePreservingWindowsRoot h base segments =
     (let resolved = pathResolve h (base # segments)
      in if length resolved \<noteq> 6 \<or> platform h \<noteq> Win32 \<or> \<not> isBareWindowsNamespaceDrive resolved
         then resolved
         else if hasWindowsPathAlias base Filesystem (platform h) \<or>
                 (\<exists>segment \<in> set segments. hasWindowsPathAlias segment Filesystem (platform h))
         then resolved
         else resolved @ [BACKSLASH])"

definition pathForWindowsFilesystem :: "host \<Rightarrow> jstr \<Rightarrow> jstr" where
  "pathForWindowsFilesystem h value =
     (if platform h \<noteq> Win32 \<or> rootedWindowsDriveColonIndex value \<noteq> 5 then value
      else if length value = 7 then [value ! 4, COLON, BACKSLASH]
      else let resolved = pathResolve h [value]
           in if isBareWindowsNamespaceDrive resolved \<and>
                 \<not> hasWindowsPathAlias value Filesystem (platform h)
              then [resolved ! 4, COLON, BACKSLASH] else value)"

definition admitStandalonePublicationPath :: "host \<Rightarrow> jstr \<Rightarrow> string \<Rightarrow> error + jstr" where
  "admitStandalonePublicationPath h value message =
     (let admittedPath = anchorWindowsDriveRelativePath h value
      in bindE (assertNoWindowsPathAlias admittedPath Filesystem message (platform h))
           (\<lambda>_. Inr admittedPath))"

subsection \<open>Properties\<close>

lemma rootedDrive_range: "rootedWindowsDriveColonIndex v = -1 \<or> 0 \<le> rootedWindowsDriveColonIndex v"
  by (simp add: rootedWindowsDriveColonIndex_def Let_def)

lemma indexOfFrom_none_iff: "indexOfFrom s c n = -1 \<longleftrightarrow> c \<notin> set (drop n s)"
  using indexOf_ge [of "drop n s" c] indexOf_neg_iff [of "drop n s" c]
  by (auto simp: indexOfFrom_def Let_def)

text \<open>A filesystem path is a Windows alias exactly when some colon sits anywhere but at the
  position of its rooted drive letter; a relative path exactly when it has a colon at all.\<close>

theorem hasWindowsPathAlias_iff_stray_colon:
  "hasWindowsPathAlias v kind p \<longleftrightarrow>
     p = Win32 \<and> (\<exists>i. i < length v \<and> v ! i = COLON \<and>
                      \<not> (kind = Filesystem \<and> int i = rootedWindowsDriveColonIndex v))"
proof (cases "p = Win32 \<and> COLON \<in> set v")
  case False
  then show ?thesis
    by (auto simp: hasWindowsPathAlias_def Let_def indexOf_eq_neg1_iff in_set_conv_nth)
next
  case True
  define k where "k = nat (indexOf v COLON)"
  have k: "indexOf v COLON = int k" "k < length v" "v ! k = COLON"
    using True indexOf_neg_iff [of v COLON] indexOf_nth [of v COLON] by (auto simp: k_def)
  have first: "k \<le> i" if "i < length v" "v ! i = COLON" for i
    using indexOf_first [OF that] k(1) by simp
  have later: "COLON \<in> set (drop (k + 1) v) \<longleftrightarrow> (\<exists>i. k < i \<and> i < length v \<and> v ! i = COLON)"
  proof
    assume "COLON \<in> set (drop (k + 1) v)"
    then obtain j where "j < length (drop (k + 1) v)" "drop (k + 1) v ! j = COLON"
      by (auto simp: in_set_conv_nth)
    then show "\<exists>i. k < i \<and> i < length v \<and> v ! i = COLON"
      by (intro exI [of _ "k + 1 + j"]) simp
  next
    assume "\<exists>i. k < i \<and> i < length v \<and> v ! i = COLON"
    then obtain i where "k < i" "i < length v" "v ! i = COLON" by blast
    then have "drop (k + 1) v ! (i - (k + 1)) = COLON" "i - (k + 1) < length (drop (k + 1) v)"
      by auto
    then show "COLON \<in> set (drop (k + 1) v)" by (metis nth_mem)
  qed
  have "hasWindowsPathAlias v kind p \<longleftrightarrow>
      kind = Relative \<or> int k \<noteq> rootedWindowsDriveColonIndex v \<or>
      (\<exists>i. k < i \<and> i < length v \<and> v ! i = COLON)"
    using True k(1) later
    by (cases "int k = rootedWindowsDriveColonIndex v")
      (auto simp: hasWindowsPathAlias_def indexOfFrom_none_iff nat_add_distrib dest: sym)
  moreover have "(\<exists>i. i < length v \<and> v ! i = COLON \<and>
                   \<not> (kind = Filesystem \<and> int i = rootedWindowsDriveColonIndex v)) \<longleftrightarrow>
      kind = Relative \<or> int k \<noteq> rootedWindowsDriveColonIndex v \<or>
      (\<exists>i. k < i \<and> i < length v \<and> v ! i = COLON)"
  proof
    assume "\<exists>i. i < length v \<and> v ! i = COLON \<and>
              \<not> (kind = Filesystem \<and> int i = rootedWindowsDriveColonIndex v)"
    then obtain i where i: "i < length v" "v ! i = COLON"
      "kind = Relative \<or> int i \<noteq> rootedWindowsDriveColonIndex v"
      by (cases kind) auto
    from first [OF i(1,2)] have "i = k \<or> k < i" by auto
    with i show "kind = Relative \<or> int k \<noteq> rootedWindowsDriveColonIndex v \<or>
      (\<exists>i. k < i \<and> i < length v \<and> v ! i = COLON)" by blast
  next
    assume "kind = Relative \<or> int k \<noteq> rootedWindowsDriveColonIndex v \<or>
      (\<exists>i. k < i \<and> i < length v \<and> v ! i = COLON)"
    then consider "kind = Relative" | "int k \<noteq> rootedWindowsDriveColonIndex v"
      | i where "int k = rootedWindowsDriveColonIndex v" "k < i" "i < length v" "v ! i = COLON"
      by blast
    then show "\<exists>i. i < length v \<and> v ! i = COLON \<and>
              \<not> (kind = Filesystem \<and> int i = rootedWindowsDriveColonIndex v)"
    proof cases
      case (3 i)
      then have "int i \<noteq> rootedWindowsDriveColonIndex v" by linarith
      with 3 show ?thesis by blast
    qed (use k(2,3) in auto)
  qed
  ultimately show ?thesis using True by simp
qed

end
