(* ===== verification/UnicodePath.thy ===== *)
theory UnicodePath
  imports Prelude
begin

text \<open>
  Unicode as the sources use it (\<open>src/unicode-path.ts\<close>). Case mapping and normalisation forms
  are tables of the JavaScript engine: the \<open>unicode\<close> record carries them, and \<open>wfUnicode\<close>
  states the part of the Unicode standard the code relies on: ASCII text is its own normal form
  and maps case letter by letter, decomposing the composed form is the decomposed form, and
  composing yields code units again. \<open>asciiUnicode\<close> is a concrete record with these laws.
  UTF-8 lengths are computed here from the code units, lone surrogates counting as the three
  bytes of the replacement character.
\<close>

record unicode =
  toUpperCase :: "jstr \<Rightarrow> jstr"
  toLowerCase :: "jstr \<Rightarrow> jstr"
  nfc :: "jstr \<Rightarrow> jstr"
  nfd :: "jstr \<Rightarrow> jstr"

definition codeUnits :: "jstr \<Rightarrow> bool" where
  "codeUnits s \<longleftrightarrow> (\<forall>c \<in> set s. 0 \<le> c \<and> c \<le> 0xffff)"

definition wfUnicode :: "unicode \<Rightarrow> bool" where
  "wfUnicode u \<longleftrightarrow>
     (\<forall>s. isAscii s \<longrightarrow> toUpperCase u s = map asciiUpper s \<and>
        toLowerCase u s = map asciiLower s \<and> nfc u s = s \<and> nfd u s = s) \<and>
     (\<forall>s. nfd u (nfc u s) = nfd u s) \<and>
     (\<forall>s. codeUnits s \<longrightarrow> codeUnits (nfc u s))"

definition asciiUnicode :: unicode where
  "asciiUnicode = \<lparr>toUpperCase = map asciiUpper, toLowerCase = map asciiLower,
     nfc = (\<lambda>s. s), nfd = (\<lambda>s. s)\<rparr>"

lemma wfUnicode_ascii [simp]: "wfUnicode asciiUnicode"
  by (simp add: wfUnicode_def asciiUnicode_def)

fun utf8Length :: "jstr \<Rightarrow> nat" where
  "utf8Length [] = 0"
| "utf8Length (c # cs) =
     (if c < 0x80 then 1 + utf8Length cs
      else if c < 0x800 then 2 + utf8Length cs
      else if 0xd800 \<le> c \<and> c \<le> 0xdbff \<and> cs \<noteq> [] \<and> 0xdc00 \<le> hd cs \<and> hd cs \<le> 0xdfff
      then 4 + utf8Length (tl cs)
      else 3 + utf8Length cs)"

definition hasNonAscii :: "jstr \<Rightarrow> bool" where
  "hasNonAscii s \<longleftrightarrow> (\<exists>c \<in> set s. c < 0 \<or> c > 0x7f)"

definition lowerCaseNfc :: "unicode \<Rightarrow> jstr \<Rightarrow> jstr" where
  "lowerCaseNfc u value =
     (if hasNonAscii value then nfc u (toLowerCase u (nfc u value)) else toLowerCase u value)"

definition maxNormalizedUtf8Bytes :: "unicode \<Rightarrow> jstr \<Rightarrow> bool \<Rightarrow> nat" where
  "maxNormalizedUtf8Bytes u value includeRaw =
     (if \<not> hasNonAscii value then length value
      else let c = nfc u value;
               bytes = utf8Length c;
               maximum = (if includeRaw \<and> c \<noteq> value then max bytes (utf8Length value) else bytes)
           in if bytes = length c then maximum
              else max maximum (utf8Length (nfd u value)))"

lemma hasNonAscii_iff: "hasNonAscii s \<longleftrightarrow> \<not> isAscii s"
  unfolding hasNonAscii_def isAscii_def by (meson not_le)

lemma utf8Length_ascii: "isAscii s \<Longrightarrow> utf8Length s = length s"
  by (induction s) (auto simp: isAscii_def)

lemma utf8Length_ge: "length s \<le> utf8Length s"
proof (induction s rule: utf8Length.induct)
  case 1
  then show ?case by simp
next
  case (2 c cs)
  then show ?case by (cases cs) auto
qed

lemma utf8Length_eq_length:
  "codeUnits s \<Longrightarrow> utf8Length s = length s \<Longrightarrow> isAscii s"
proof (induction s)
  case Nil
  then show ?case by (simp add: isAscii_def)
next
  case (Cons c cs)
  have ge: "length cs \<le> utf8Length cs" by (rule utf8Length_ge)
  have ge': "length (tl cs) \<le> utf8Length (tl cs)" by (rule utf8Length_ge)
  have "c < 0x80"
  proof (rule ccontr)
    assume "\<not> c < 0x80"
    then have "length (c # cs) < utf8Length (c # cs)" using ge ge' by (cases cs) auto
    then show False using Cons.prems(2) by simp
  qed
  then show ?case using Cons by (auto simp: codeUnits_def isAscii_def)
qed

text \<open>
  The ASCII shortcut of \<open>maxNormalizedUtf8Bytes\<close> and the reuse of the NFC length when it is
  ASCII agree with taking the maximum over every normal form.
\<close>

definition allFormsUtf8Bytes :: "unicode \<Rightarrow> jstr \<Rightarrow> bool \<Rightarrow> nat" where
  "allFormsUtf8Bytes u value includeRaw =
     max (if includeRaw then utf8Length value else 0)
         (max (utf8Length (nfc u value)) (utf8Length (nfd u value)))"

lemma maxNormalizedUtf8Bytes_eq:
  assumes "wfUnicode u" "codeUnits value"
  shows "maxNormalizedUtf8Bytes u value includeRaw = allFormsUtf8Bytes u value includeRaw"
proof (cases "hasNonAscii value")
  case False
  then show ?thesis
    using assms(1) by (simp add: maxNormalizedUtf8Bytes_def allFormsUtf8Bytes_def hasNonAscii_iff
        wfUnicode_def utf8Length_ascii)
next
  case True
  have comp: "nfd u (nfc u value) = nfd u value" and units: "codeUnits (nfc u value)"
    using assms by (auto simp: wfUnicode_def)
  have short: "utf8Length (nfd u value) = utf8Length (nfc u value)"
    if "utf8Length (nfc u value) = length (nfc u value)"
  proof -
    have "isAscii (nfc u value)" using units that by (rule utf8Length_eq_length)
    then have "nfd u (nfc u value) = nfc u value"
      using assms(1) unfolding wfUnicode_def by blast
    then show ?thesis using comp by simp
  qed
  show ?thesis
    using True short by (auto simp: maxNormalizedUtf8Bytes_def allFormsUtf8Bytes_def Let_def)
qed

lemma maxNormalizedUtf8Bytes_ascii [simp]:
  "isAscii s \<Longrightarrow> maxNormalizedUtf8Bytes u s r = length s"
  by (simp add: maxNormalizedUtf8Bytes_def hasNonAscii_iff)

lemma lowerCaseNfc_ascii:
  "wfUnicode u \<Longrightarrow> isAscii s \<Longrightarrow> lowerCaseNfc u s = map asciiLower s"
  by (simp add: lowerCaseNfc_def hasNonAscii_iff wfUnicode_def)

subsection \<open>Properties\<close>

text \<open>The byte bound used for temporary names is the largest UTF-8 length over the raw name and
  all its normal forms, although the code computes only the forms that can still matter.\<close>

theorem maxNormalizedUtf8Bytes_all_forms:
  assumes "wfUnicode u" "codeUnits value"
  shows "maxNormalizedUtf8Bytes u value includeRaw = allFormsUtf8Bytes u value includeRaw"
  by (rule maxNormalizedUtf8Bytes_eq [OF assms])

theorem maxNormalizedUtf8Bytes_all_forms_witness:
  "maxNormalizedUtf8Bytes asciiUnicode [97, 0xe9, 0xd83d, 0xde00] True = 7 \<and>
   allFormsUtf8Bytes asciiUnicode [97, 0xe9, 0xd83d, 0xde00] True = 7"
proof -
  have "codeUnits [97, 0xe9, 0xd83d, 0xde00]" by (simp add: codeUnits_def)
  moreover have "allFormsUtf8Bytes asciiUnicode [97, 0xe9, 0xd83d, 0xde00] True = 7"
    by (simp add: allFormsUtf8Bytes_def asciiUnicode_def)
  ultimately show ?thesis
    using maxNormalizedUtf8Bytes_all_forms [OF wfUnicode_ascii, of "[97, 0xe9, 0xd83d, 0xde00]" True]
    by simp
qed

end
