(* ===== verification/DevicePath.thy ===== *)
theory DevicePath
  imports WindowsPath UnicodePath
begin

text \<open>
  Device-name admission (\<open>src/device-path.ts\<close>) with the file-URL parsing it relies on
  (\<open>src/local-file-access.ts\<close>). The WHATWG \<open>URL\<close> parser and \<open>fileURLToPath\<close> of the runtime
  are the fields of the \<open>urlLib\<close> record.
\<close>

subsection \<open>File URLs\<close>

record url =
  url_protocol :: jstr
  url_hostname :: jstr
  url_pathname :: jstr

record urlLib =
  newURL :: "jstr \<Rightarrow> url option"
  fileURLToPath :: "url \<Rightarrow> bool \<Rightarrow> jstr option"

definition isFileUrl :: "jstr \<Rightarrow> bool" where
  "isFileUrl input = startsWith (map asciiLower input) (js ''file://'')"

fun hasEncodedFileUrlSeparator :: "jstr \<Rightarrow> bool" where
  "hasEncodedFileUrlSeparator (a # b # c # rest) =
     ((a = 37 \<and> (b = 50 \<and> asciiLower c = 102 \<or> b = 53 \<and> asciiLower c = 99)) \<or>
      hasEncodedFileUrlSeparator (b # c # rest))"
| "hasEncodedFileUrlSeparator _ = False"

definition isWindowsNetworkPath :: "jstr \<Rightarrow> platform \<Rightarrow> bool" where
  "isWindowsNetworkPath filePath p =
     (if p \<noteq> Win32 then False
      else isWindowsSeparator filePath 0 \<and> isWindowsSeparator filePath 1 \<and>
           \<not> (windowsNamespaceMarker filePath = Some QuestionMarker \<and>
              rootedWindowsDriveColonIndex filePath = 5))"

definition isWindowsDriveLetterPath :: "jstr \<Rightarrow> platform \<Rightarrow> bool" where
  "isWindowsDriveLetterPath filePath p =
     (p = Win32 \<and> (case filePath of
        a # b # c # _ \<Rightarrow> isAsciiLetter a \<and> b = COLON \<and> isWinSep c | _ \<Rightarrow> False))"

definition assertNoWindowsNetworkPath :: "jstr \<Rightarrow> platform \<Rightarrow> error + unit" where
  "assertNoWindowsNetworkPath filePath p =
     throwIf (isWindowsNetworkPath filePath p) (PlainErr ''cannot use Windows network paths'')"

definition normalizeLowercaseStringOrEmpty :: "unicode \<Rightarrow> jstr \<Rightarrow> jstr" where
  "normalizeLowercaseStringOrEmpty u value =
     (let trimmed = trim value in if trimmed = [] then [] else toLowerCase u trimmed)"

definition safeFileURLToPath :: "unicode \<Rightarrow> urlLib \<Rightarrow> jstr \<Rightarrow> platform \<Rightarrow> error + jstr" where
  "safeFileURLToPath u lib fileUrl p =
     (case newURL lib fileUrl of
        None \<Rightarrow> Inl (PlainErr ''Invalid file:// URL'')
      | Some parsed \<Rightarrow>
          if url_protocol parsed \<noteq> js ''file:'' then Inl (PlainErr ''Invalid file:// URL'')
          else let normalizedHost = normalizeLowercaseStringOrEmpty u (url_hostname parsed) in
          if \<not> (normalizedHost = [] \<or> normalizedHost = js ''localhost'')
          then Inl (PlainErr ''file:// URLs with remote hosts are not allowed'')
          else if hasEncodedFileUrlSeparator (url_pathname parsed)
          then Inl (PlainErr ''file:// URLs cannot encode path separators'')
          else case fileURLToPath lib parsed (p = Win32) of
            None \<Rightarrow> Inl (NodeErr ''ERR_INVALID_FILE_URL_PATH'')
          | Some filePath \<Rightarrow>
              if hasWindowsPathAlias filePath Filesystem p
              then Inl (PlainErr ''Local file URL cannot use Windows filesystem namespace aliases'')
              else if isWindowsNetworkPath filePath p
              then Inl (PlainErr ''Local file URL cannot use Windows network paths'')
              else Inr filePath)"

definition trySafeFileURLToPath :: "unicode \<Rightarrow> urlLib \<Rightarrow> jstr \<Rightarrow> platform \<Rightarrow> jstr option" where
  "trySafeFileURLToPath u lib fileUrl p =
     (case safeFileURLToPath u lib fileUrl p of Inl _ \<Rightarrow> None | Inr q \<Rightarrow> Some q)"

subsection \<open>Device names\<close>

datatype device_reason = Posix_device | Posix_fd | Windows_device

record device_match =
  match_path :: jstr
  match_reason :: device_reason

definition POSIX_BLOCKED_DEVICE_PATHS :: "jstr list" where
  "POSIX_BLOCKED_DEVICE_PATHS =
     [js ''/dev/zero'', js ''/dev/random'', js ''/dev/urandom'', js ''/dev/full'',
      js ''/dev/stdin'', js ''/dev/stdout'', js ''/dev/stderr'', js ''/dev/tty'',
      js ''/dev/console'']"

text \<open>The superscript digits one, two and three are the code units b9, b2 and b3.\<close>

definition WINDOWS_RESERVED_DEVICE_NAMES :: "jstr list" where
  "WINDOWS_RESERVED_DEVICE_NAMES =
     [js ''CON'', js ''PRN'', js ''AUX'', js ''NUL'', js ''CLOCK$'', js ''CONIN$'', js ''CONOUT$'',
      js ''COM1'', js ''COM2'', js ''COM3'', js ''COM4'', js ''COM5'', js ''COM6'', js ''COM7'',
      js ''COM8'', js ''COM9'', js ''COM'' @ [0xb9], js ''COM'' @ [0xb2], js ''COM'' @ [0xb3],
      js ''LPT1'', js ''LPT2'', js ''LPT3'', js ''LPT4'', js ''LPT5'', js ''LPT6'', js ''LPT7'',
      js ''LPT8'', js ''LPT9'', js ''LPT'' @ [0xb9], js ''LPT'' @ [0xb2], js ''LPT'' @ [0xb3]]"

definition trimTrailingWindowsSeparators :: "jstr \<Rightarrow> jstr" where
  "trimTrailingWindowsSeparators value = dropEndWhile (\<lambda>c. c = BACKSLASH) value"

definition trimTrailingWindowsIgnoredChars :: "jstr \<Rightarrow> jstr" where
  "trimTrailingWindowsIgnoredChars value = dropEndWhile (\<lambda>c. c = 0x20 \<or> c = 0x2e) value"

definition candidateReadPaths :: "unicode \<Rightarrow> urlLib \<Rightarrow> jstr \<Rightarrow> platform \<Rightarrow> jstr list" where
  "candidateReadPaths u lib filePath p =
     (if \<not> isFileUrl filePath then [filePath]
      else case trySafeFileURLToPath u lib filePath p of
             None \<Rightarrow> [filePath] | Some parsed \<Rightarrow> [filePath, parsed])"

definition normalizePosixPath :: "host \<Rightarrow> jstr \<Rightarrow> jstr option \<Rightarrow> jstr" where
  "normalizePosixPath h filePath wd =
     (if posixIsAbsolute filePath then posixNormalize filePath
      else let base = (case wd of Some c \<Rightarrow> if c \<noteq> [] \<and> posixIsAbsolute c then c else cwd h
                       | None \<Rightarrow> cwd h)
           in posixResolve (cwd h) [base, filePath])"

text \<open>\<open>/^\/proc\/(?:self|thread-self|\d+)\/fd(?:\/|$)/\<close> on the segments of the path.\<close>

definition isProcFdPath :: "jstr \<Rightarrow> bool" where
  "isProcFdPath s =
     (case splitOn SLASH s of
        e # p # who # f # _ \<Rightarrow> e = [] \<and> p = js ''proc'' \<and>
          (who = js ''self'' \<or> who = js ''thread-self'' \<or>
           (who \<noteq> [] \<and> (\<forall>c \<in> set who. isAsciiDigit c))) \<and> f = js ''fd''
      | _ \<Rightarrow> False)"

definition matchPosixDeviceReadPath :: "host \<Rightarrow> jstr \<Rightarrow> jstr option \<Rightarrow> device_match option" where
  "matchPosixDeviceReadPath h filePath wd =
     (let normalized = normalizePosixPath h filePath wd
      in if normalized \<in> set POSIX_BLOCKED_DEVICE_PATHS
         then Some \<lparr>match_path = normalized, match_reason = Posix_device\<rparr>
         else if normalized = js ''/dev/fd'' \<or> startsWith normalized (js ''/dev/fd/'')
         then Some \<lparr>match_path = normalized, match_reason = Posix_fd\<rparr>
         else if isProcFdPath normalized
         then Some \<lparr>match_path = normalized, match_reason = Posix_fd\<rparr>
         else None)"

definition normalizeWindowsDeviceBaseName :: "unicode \<Rightarrow> jstr \<Rightarrow> jstr" where
  "normalizeWindowsDeviceBaseName u filePath =
     (let normalized = trimTrailingWindowsSeparators (replaceChar SLASH BACKSLASH filePath);
          start = nat (lastIndexOf normalized BACKSLASH + 1);
          stream = indexOfFrom normalized COLON start;
          extension = indexOfFrom normalized DOT start;
          n = int (length normalized);
          end_at = min (if stream < 0 then n else stream) (if extension < 0 then n else extension)
      in toUpperCase u (trimTrailingWindowsIgnoredChars (slice normalized start (nat end_at))))"

definition isWindowsReservedDeviceName :: "unicode \<Rightarrow> jstr \<Rightarrow> bool" where
  "isWindowsReservedDeviceName u name =
     (length name > 0 \<and>
      normalizeWindowsDeviceBaseName u name \<in> set WINDOWS_RESERVED_DEVICE_NAMES)"

definition matchWindowsDeviceReadPath :: "unicode \<Rightarrow> jstr \<Rightarrow> device_match option" where
  "matchWindowsDeviceReadPath u filePath =
     (let normalized = replaceChar SLASH BACKSLASH filePath
      in if startsWith normalized [BACKSLASH, BACKSLASH, DOT, BACKSLASH] \<or>
            startsWith (map asciiLower normalized)
              ([BACKSLASH, BACKSLASH, 63, BACKSLASH] @ js ''globalroot'' @ [BACKSLASH] @
               js ''device'' @ [BACKSLASH])
         then Some \<lparr>match_path = normalized, match_reason = Windows_device\<rparr>
         else if normalizeWindowsDeviceBaseName u filePath \<in> set WINDOWS_RESERVED_DEVICE_NAMES
         then Some \<lparr>match_path = normalized, match_reason = Windows_device\<rparr>
         else None)"

fun firstMatch :: "('a \<Rightarrow> 'b option) \<Rightarrow> 'a list \<Rightarrow> 'b option" where
  "firstMatch f [] = None"
| "firstMatch f (x # xs) = (case f x of Some y \<Rightarrow> Some y | None \<Rightarrow> firstMatch f xs)"

definition matchUnsafeDeviceReadPath ::
    "unicode \<Rightarrow> urlLib \<Rightarrow> host \<Rightarrow> jstr \<Rightarrow> jstr option \<Rightarrow> platform option \<Rightarrow> device_match option" where
  "matchUnsafeDeviceReadPath u lib h filePath opt_cwd opt_platform =
     (let p = (case opt_platform of Some q \<Rightarrow> q | None \<Rightarrow> platform h)
      in firstMatch (\<lambda>candidate. if p = Win32 then matchWindowsDeviceReadPath u candidate
                       else matchPosixDeviceReadPath h candidate opt_cwd)
           (candidateReadPaths u lib filePath p))"

definition isUnsafeDeviceReadPath ::
    "unicode \<Rightarrow> urlLib \<Rightarrow> host \<Rightarrow> jstr \<Rightarrow> jstr option \<Rightarrow> platform option \<Rightarrow> bool" where
  "isUnsafeDeviceReadPath u lib h filePath opt_cwd opt_platform =
     (matchUnsafeDeviceReadPath u lib h filePath opt_cwd opt_platform \<noteq> None)"

definition assertNoUnsafeDeviceReadPath ::
    "unicode \<Rightarrow> urlLib \<Rightarrow> host \<Rightarrow> jstr \<Rightarrow> jstr option \<Rightarrow> platform option \<Rightarrow> error + unit" where
  "assertNoUnsafeDeviceReadPath u lib h filePath opt_cwd opt_platform =
     throwIf (matchUnsafeDeviceReadPath u lib h filePath opt_cwd opt_platform \<noteq> None)
       (throwFs Device_path ''file reads from unsafe device paths are not allowed'')"

subsection \<open>Properties\<close>

lemma normalizeWindowsDeviceBaseName_eq:
  "normalizeWindowsDeviceBaseName u p =
     (let n = trimTrailingWindowsSeparators (replaceChar SLASH BACKSLASH p);
          component = rev (takeWhile (\<lambda>x. x \<noteq> BACKSLASH) (rev n))
      in toUpperCase u (trimTrailingWindowsIgnoredChars
           (takeWhile (\<lambda>x. x \<noteq> COLON \<and> x \<noteq> DOT) component)))"
proof -
  define n where "n = trimTrailingWindowsSeparators (replaceChar SLASH BACKSLASH p)"
  define start where "start = nat (lastIndexOf n BACKSLASH + 1)"
  have comp: "drop start n = rev (takeWhile (\<lambda>x. x \<noteq> BACKSLASH) (rev n))"
    unfolding start_def by (rule drop_lastIndexOf)
  have "start \<le> length n"
    using lastIndexOf_less [of n BACKSLASH] by (simp add: start_def)
  from slice_until_either [OF this, of COLON DOT] show ?thesis
    unfolding normalizeWindowsDeviceBaseName_def Let_def n_def [symmetric] start_def [symmetric] comp
    by simp
qed

lemma last_component:
  assumes "pre = [] \<or> isWinSep (last pre)" "body \<noteq> []" "\<forall>c \<in> set body. \<not> isWinSep c"
  shows "trimTrailingWindowsSeparators (replaceChar SLASH BACKSLASH (pre @ body))
           = replaceChar SLASH BACKSLASH pre @ body"
    and "rev (takeWhile (\<lambda>x. x \<noteq> BACKSLASH) (rev (replaceChar SLASH BACKSLASH pre @ body))) = body"
proof -
  have no: "SLASH \<notin> set body" "BACKSLASH \<notin> set body"
    using assms(3) by (auto simp: isWinSep_def)
  have b: "replaceChar SLASH BACKSLASH (pre @ body) = replaceChar SLASH BACKSLASH pre @ body"
    using no(1) replaceChar_id [of SLASH body] by (simp add: replaceChar_def)
  have "last body \<noteq> BACKSLASH" using no(2) assms(2) last_in_set by metis
  then show "trimTrailingWindowsSeparators (replaceChar SLASH BACKSLASH (pre @ body))
           = replaceChar SLASH BACKSLASH pre @ body"
    unfolding trimTrailingWindowsSeparators_def b using assms(2) by (simp add: dropEndWhile_fixed)
  have all: "\<And>x. x \<in> set (rev body) \<Longrightarrow> x \<noteq> BACKSLASH" using no(2) by auto
  have "takeWhile (\<lambda>x. x \<noteq> BACKSLASH) (rev (replaceChar SLASH BACKSLASH pre)) = []"
    using assms(1) by (cases pre rule: rev_cases) (auto simp: replaceChar_def isWinSep_def)
  moreover have "takeWhile (\<lambda>x. x \<noteq> BACKSLASH) (rev body @ rev (replaceChar SLASH BACKSLASH pre))
      = rev body @ takeWhile (\<lambda>x. x \<noteq> BACKSLASH) (rev (replaceChar SLASH BACKSLASH pre))"
    by (rule takeWhile_append2 [OF all])
  ultimately show "rev (takeWhile (\<lambda>x. x \<noteq> BACKSLASH) (rev (replaceChar SLASH BACKSLASH pre @ body))) = body"
    by simp
qed

lemma dropEndWhile_pad:
  assumes "\<forall>c \<in> set pad. p c" "s \<noteq> []" "\<not> p (last s)"
  shows "dropEndWhile p (s @ pad) = s"
proof -
  have "dropWhile p (rev pad @ rev s) = dropWhile p (rev s)"
    using assms(1) by (intro dropWhile_append2) simp
  also have "\<dots> = rev s" using assms(2,3) by (intro dropWhile_fixed) (simp add: hd_rev)
  finally show ?thesis by (simp add: dropEndWhile_def)
qed

text \<open>C30: no directory in front, no case, no trailing spaces, no extension and no stream name
  disguises a Windows device: every path whose last component starts with a reserved stem, then
  only spaces until its end, a dot or a colon, matches.\<close>

theorem windows_device_not_disguised:
  assumes "pre = [] \<or> isWinSep (last pre)" "\<forall>c \<in> set rest. \<not> isWinSep c"
    "rest = [] \<or> hd rest \<in> {DOT, COLON}" "\<forall>c \<in> set pad. c = 32"
    "toUpperCase u stem \<in> set WINDOWS_RESERVED_DEVICE_NAMES" "stem \<noteq> []" "last stem \<noteq> 32"
    "\<forall>c \<in> set stem. \<not> isWinSep c \<and> c \<notin> {DOT, COLON}"
  shows "matchWindowsDeviceReadPath u (pre @ stem @ pad @ rest) =
           Some \<lparr>match_path = replaceChar SLASH BACKSLASH (pre @ stem @ pad @ rest),
                 match_reason = Windows_device\<rparr>"
proof -
  let ?body = "stem @ pad @ rest"
  have "\<forall>c \<in> set pad. \<not> isWinSep c" using assms(4) by (auto simp: isWinSep_def)
  then have body: "?body \<noteq> []" "\<forall>c \<in> set ?body. \<not> isWinSep c"
    using assms(2,6,8) unfolding set_append by blast+
  have "\<forall>c \<in> set (stem @ pad). c \<noteq> COLON \<and> c \<noteq> DOT" using assms(4,8) by auto
  then have "takeWhile (\<lambda>x. x \<noteq> COLON \<and> x \<noteq> DOT) ((stem @ pad) @ rest)
      = (stem @ pad) @ takeWhile (\<lambda>x. x \<noteq> COLON \<and> x \<noteq> DOT) rest"
    by (intro takeWhile_append2) blast
  moreover have "takeWhile (\<lambda>x. x \<noteq> COLON \<and> x \<noteq> DOT) rest = []"
    using assms(3) by (cases rest) auto
  ultimately have t: "takeWhile (\<lambda>x. x \<noteq> COLON \<and> x \<noteq> DOT) ?body = stem @ pad" by simp
  have "last stem \<noteq> DOT" using assms(6,8) last_in_set by blast
  then have "trimTrailingWindowsIgnoredChars (stem @ pad) = stem"
    unfolding trimTrailingWindowsIgnoredChars_def using assms(4,6,7)
    by (intro dropEndWhile_pad) auto
  then have "normalizeWindowsDeviceBaseName u (pre @ ?body) = toUpperCase u stem"
    unfolding normalizeWindowsDeviceBaseName_eq Let_def last_component [OF assms(1) body] t by simp
  then show ?thesis using assms(5) by (simp add: matchWindowsDeviceReadPath_def Let_def)
qed

theorem windows_device_not_disguised_witness:
  "matchWindowsDeviceReadPath asciiUnicode (js ''C:/tmp/'' @ js ''nul'' @ [32, 32] @ js ''.txt:s'') \<noteq> None"
proof -
  have "toUpperCase asciiUnicode (js ''nul'') \<in> set WINDOWS_RESERVED_DEVICE_NAMES"
    by (simp add: asciiUnicode_def asciiUpper_def WINDOWS_RESERVED_DEVICE_NAMES_def)
  moreover have "isWinSep (last (js ''C:/tmp/''))" "\<forall>c \<in> set (js ''.txt:s''). \<not> isWinSep c"
    "hd (js ''.txt:s'') \<in> {DOT, COLON}" "\<forall>c \<in> set [32, 32 :: int]. c = 32" "js ''nul'' \<noteq> []"
    "last (js ''nul'') \<noteq> 32" "\<forall>c \<in> set (js ''nul''). \<not> isWinSep c \<and> c \<notin> {DOT, COLON}"
    by (simp_all add: isWinSep_def)
  ultimately show ?thesis
    using windows_device_not_disguised [of "js ''C:/tmp/''" "js ''.txt:s''" "[32, 32]" asciiUnicode "js ''nul''"]
    by simp
qed

end
