(* ===== verification/SafeSegment.thy ===== *)
theory SafeSegment
  imports DevicePath
begin

text \<open>
  Safe path segments (\<open>src/safe-path-segment.ts\<close>): portable identifiers that stay one plain
  component of any path they are joined into. The regular expressions of the source are predicates
  on code units; a replacement of runs by one character is \<open>collapse\<close>.
\<close>

definition isSegChar :: "jchar \<Rightarrow> bool" where
  "isSegChar c \<longleftrightarrow> isAsciiLetter c \<or> isAsciiDigit c \<or> c = 46 \<or> c = 95 \<or> c = 45"

definition matchesSafeSegment :: "jstr \<Rightarrow> bool" where
  "matchesSafeSegment s \<longleftrightarrow> s \<noteq> [] \<and> hd s \<noteq> 46 \<and> (\<forall>c \<in> set s. isSegChar c)"

definition matchesDotPrefixSegment :: "jstr \<Rightarrow> bool" where
  "matchesDotPrefixSegment s \<longleftrightarrow> s \<noteq> [] \<and> (\<forall>c \<in> set s. isSegChar c)"

text \<open>\<open>/^[A-Za-z]:(?![\\/])/\<close>\<close>

definition isDriveRelativePath :: "jstr \<Rightarrow> bool" where
  "isDriveRelativePath value =
     (case value of
        a # b # rest \<Rightarrow> isAsciiLetter a \<and> b = COLON \<and> (rest = [] \<or> \<not> isWinSep (hd rest))
      | _ \<Rightarrow> False)"

text \<open>\<open>/(?:^|\/)[A-Za-z]:(?!\\)/\<close>: the flag says whether a segment starts here.\<close>

fun hasDriveRelativeSegment :: "bool \<Rightarrow> jstr \<Rightarrow> bool" where
  "hasDriveRelativeSegment atStart [] = False"
| "hasDriveRelativeSegment atStart (a # rest) =
     ((atStart \<and> isAsciiLetter a \<and> rest \<noteq> [] \<and> hd rest = COLON \<and>
        (tl rest = [] \<or> hd (tl rest) \<noteq> BACKSLASH)) \<or>
      hasDriveRelativeSegment (a = SLASH) rest)"

definition assertNoDriveRelativePathSegments :: "jstr \<Rightarrow> error + jstr" where
  "assertNoDriveRelativePathSegments value =
     (if hasDriveRelativeSegment True value
      then Inl (throwFs Invalid_path ''must not contain a drive letter'')
      else Inr value)"

text \<open>\<open>trimHyphenEdges\<close> moves both ends inwards over hyphens.\<close>

definition trimHyphenEdges :: "jstr \<Rightarrow> jstr" where
  "trimHyphenEdges value = dropEndWhile (\<lambda>c. c = 45) (dropWhile (\<lambda>c. c = 45) value)"

record segment_options =
  allowDotPrefix :: bool

definition isSafePathSegment :: "unicode \<Rightarrow> jstr \<Rightarrow> segment_options \<Rightarrow> bool" where
  "isSafePathSegment u segment options =
     (segment \<noteq> [] \<and> segment \<noteq> [DOT] \<and> segment \<noteq> dotdot \<and>
      \<not> hasChar segment SLASH \<and> \<not> hasChar segment BACKSLASH \<and> \<not> hasChar segment 0 \<and>
      \<not> isWindowsReservedDeviceName u segment \<and>
      (allowDotPrefix options \<or> \<not> startsWith segment [DOT]) \<and>
      (if allowDotPrefix options then matchesDotPrefixSegment segment
       else matchesSafeSegment segment))"

definition assertSafePathSegment :: "unicode \<Rightarrow> jstr \<Rightarrow> segment_options \<Rightarrow> error + jstr" where
  "assertSafePathSegment u segment options =
     (if \<not> isSafePathSegment u segment options
      then Inl (throwFs Invalid_path ''must be a safe path segment'')
      else Inr segment)"

function collapse :: "(jchar \<Rightarrow> bool) \<Rightarrow> jchar \<Rightarrow> jstr \<Rightarrow> jstr" where
  "collapse p r [] = []"
| "collapse p r (x # xs) =
     (if p x then r # collapse p r (dropWhile p xs) else x # collapse p r xs)"
  by pat_completeness auto
termination
  by (relation "measure (\<lambda>(p, r, s). length s)") (auto simp: length_dropWhile_le le_imp_less_Suc)

definition normalizeSafePathSegment :: "jstr \<Rightarrow> jstr" where
  "normalizeSafePathSegment value =
     trimHyphenEdges
       (collapse (\<lambda>c. \<not> isSegChar c) 45
         (filter (\<lambda>c. c \<noteq> 0) (collapse isWinSep 45 (trim value))))"

text \<open>
  A prefix with path-control bytes is checked as it is; any other is normalised first. The
  spread order lets the caller's \<open>allowDotPrefix\<close> override the default.
\<close>

definition assertSafePathPrefix :: "unicode \<Rightarrow> jstr \<Rightarrow> bool option \<Rightarrow> error + jstr" where
  "assertSafePathPrefix u prefx callerAllowDotPrefix =
     (let options = \<lparr>allowDotPrefix = (case callerAllowDotPrefix of None \<Rightarrow> True | Some b \<Rightarrow> b)\<rparr>
      in if hasChar prefx SLASH \<or> hasChar prefx BACKSLASH \<or> hasChar prefx 0
         then assertSafePathSegment u prefx options
         else assertSafePathSegment u (collapse (\<lambda>c. \<not> isSegChar c) 45 prefx) options)"

subsection \<open>Facts\<close>

lemma isSegChar_not_control:
  "isSegChar c \<Longrightarrow> c \<noteq> SLASH \<and> c \<noteq> BACKSLASH \<and> c \<noteq> 0 \<and> c \<noteq> COLON"
  by (auto simp: isSegChar_def isAsciiLetter_def isAsciiDigit_def)

lemma matchesSafeSegment_dotPrefix: "matchesSafeSegment s \<Longrightarrow> matchesDotPrefixSegment s"
  by (simp add: matchesSafeSegment_def matchesDotPrefixSegment_def)

lemma isSafePathSegment_chars:
  "isSafePathSegment u s opts \<Longrightarrow> \<forall>c \<in> set s. isSegChar c"
  by (auto simp: isSafePathSegment_def matchesSafeSegment_def matchesDotPrefixSegment_def
      split: if_splits)

lemma isSafePathSegment_plain: "isSafePathSegment u s opts \<Longrightarrow> plainSeg s"
  by (simp add: isSafePathSegment_def plainSeg_def)

lemma isSafePathSegment_no_slash: "isSafePathSegment u s opts \<Longrightarrow> SLASH \<notin> set s"
  by (simp add: isSafePathSegment_def hasChar_def)

lemma set_collapse: "set (collapse p r s) \<subseteq> insert r {c \<in> set s. \<not> p c}"
proof (induction p r s rule: collapse.induct)
  case (1 p r)
  then show ?case by simp
next
  case (2 p r x xs)
  have d: "set (dropWhile p xs) \<subseteq> set xs" using set_dropWhileD by fastforce
  show ?case
  proof (cases "p x")
    case True
    then show ?thesis using "2.IH"(1) d by auto
  next
    case False
    then show ?thesis using "2.IH"(2) by auto
  qed
qed

lemma collapse_id: "\<forall>c \<in> set s. \<not> p c \<Longrightarrow> collapse p r s = s"
  by (induction s) simp_all

lemma collapse_all_kept:
  "\<not> p r \<Longrightarrow> c \<in> set (collapse p r s) \<Longrightarrow> \<not> p c"
  using set_collapse [of p r s] by auto

lemma set_trimHyphenEdges: "set (trimHyphenEdges s) \<subseteq> set s"
  unfolding trimHyphenEdges_def using set_dropEndWhile set_dropWhileD by fastforce

lemma trimHyphenEdges_fixed:
  "(s \<noteq> [] \<Longrightarrow> hd s \<noteq> 45 \<and> last s \<noteq> 45) \<Longrightarrow> trimHyphenEdges s = s"
  by (cases "s = []") (simp_all add: trimHyphenEdges_def dropWhile_fixed dropEndWhile_fixed)

lemma trimHyphenEdges_last: "trimHyphenEdges s \<noteq> [] \<Longrightarrow> last (trimHyphenEdges s) \<noteq> 45"
  unfolding trimHyphenEdges_def by (rule dropEndWhile_last)

lemma trimHyphenEdges_hd: "trimHyphenEdges s \<noteq> [] \<Longrightarrow> hd (trimHyphenEdges s) \<noteq> 45"
  unfolding trimHyphenEdges_def
  using hd_dropEndWhile [of "\<lambda>c. c = 45" "dropWhile (\<lambda>c. c = 45) s"]
    hd_dropWhile [of "\<lambda>c. c = 45" s] by simp

lemma isSegChar_45 [simp]: "isSegChar 45"
  by (simp add: isSegChar_def)

lemma normalizeSafePathSegment_chars:
  assumes "c \<in> set (normalizeSafePathSegment value)"
  shows "isSegChar c"
proof -
  have "c \<in> set (collapse (\<lambda>c. \<not> isSegChar c) 45
              (filter (\<lambda>c. c \<noteq> 0) (collapse isWinSep 45 (trim value))))"
    using assms set_trimHyphenEdges unfolding normalizeSafePathSegment_def by blast
  then show ?thesis using collapse_all_kept [of "\<lambda>c. \<not> isSegChar c" 45] by simp
qed

lemma isSegChar_not_space: "isSegChar c \<Longrightarrow> \<not> isJsSpace c \<and> \<not> isWinSep c"
  by (auto simp: isSegChar_def isJsSpace_def isWinSep_def isAsciiLetter_def isAsciiDigit_def)

lemma normalizeSafePathSegment_fixed:
  assumes "\<forall>c \<in> set s. isSegChar c" "s \<noteq> [] \<Longrightarrow> hd s \<noteq> 45 \<and> last s \<noteq> 45"
  shows "normalizeSafePathSegment s = s"
proof -
  have t: "trim s = s"
    using assms(1) isSegChar_not_space by (intro trim_fixed) (meson hd_in_set last_in_set)
  have w: "collapse isWinSep 45 s = s"
    using assms(1) isSegChar_not_space by (intro collapse_id) blast
  have z: "filter (\<lambda>c. c \<noteq> 0) s = s"
    using assms(1) isSegChar_not_control by (auto simp: filter_id_conv)
  have k: "collapse (\<lambda>c. \<not> isSegChar c) 45 s = s"
    using assms(1) by (intro collapse_id) blast
  show ?thesis
    using assms(2) by (simp add: normalizeSafePathSegment_def t w z k trimHyphenEdges_fixed)
qed

lemma normalizeSafePathSegment_idem:
  "normalizeSafePathSegment (normalizeSafePathSegment v) = normalizeSafePathSegment v"
proof (rule normalizeSafePathSegment_fixed)
  show "\<forall>c \<in> set (normalizeSafePathSegment v). isSegChar c"
    using normalizeSafePathSegment_chars by blast
next
  assume "normalizeSafePathSegment v \<noteq> []"
  then show "hd (normalizeSafePathSegment v) \<noteq> 45 \<and> last (normalizeSafePathSegment v) \<noteq> 45"
    unfolding normalizeSafePathSegment_def using trimHyphenEdges_hd trimHyphenEdges_last by blast
qed

subsection \<open>Properties\<close>

text \<open>C31: normalising an identifier leaves only portable segment characters with no hyphen at
  either end, and normalising again changes nothing.\<close>

theorem normalizeSafePathSegment_normal_form:
  "list_all isSegChar (normalizeSafePathSegment value) \<and>
   (normalizeSafePathSegment value = [] \<or>
      hd (normalizeSafePathSegment value) \<noteq> 45 \<and> last (normalizeSafePathSegment value) \<noteq> 45) \<and>
   normalizeSafePathSegment (normalizeSafePathSegment value) = normalizeSafePathSegment value"
proof (intro conjI)
  show "list_all isSegChar (normalizeSafePathSegment value)"
    using normalizeSafePathSegment_chars by (auto simp: list_all_iff)
  show "normalizeSafePathSegment value = [] \<or>
      hd (normalizeSafePathSegment value) \<noteq> 45 \<and> last (normalizeSafePathSegment value) \<noteq> 45"
    using trimHyphenEdges_hd trimHyphenEdges_last unfolding normalizeSafePathSegment_def by blast
qed (rule normalizeSafePathSegment_idem)

end
