(* ===== verification/PathLexical.thy ===== *)
theory PathLexical
  imports SafeSegment
begin

text \<open>
  Lexical containment (\<open>src/path.ts\<close>, \<open>src/path-scope-lexical.ts\<close>,
  \<open>src/root-paths-lexical.ts\<close>, \<open>src/path-segment-route.ts\<close>): whether a path string stays
  inside a root string, and the resolution of relative input under a root. The realpath calls of
  \<open>isPathInsideWithRealpath\<close> go through a filesystem argument, with the cache of the source as
  explicit state.
\<close>

subsection \<open>Errors and NUL bytes\<close>

definition NOT_FOUND_CODES :: "string list" where
  "NOT_FOUND_CODES = [''ENOENT'', ''ENOTDIR'']"

definition SYMLINK_OPEN_CODES :: "string list" where
  "SYMLINK_OPEN_CODES = [''ELOOP'', ''EINVAL'', ''ENOTSUP'']"

definition hasNodeErrorCode :: "error \<Rightarrow> string \<Rightarrow> bool" where
  "hasNodeErrorCode e code = (case e of NodeErr c \<Rightarrow> c = code | _ \<Rightarrow> False)"

definition isNotFoundPathError :: "error \<Rightarrow> bool" where
  "isNotFoundPathError e = (case e of NodeErr c \<Rightarrow> c \<in> set NOT_FOUND_CODES | _ \<Rightarrow> False)"

definition isSymlinkOpenError :: "error \<Rightarrow> bool" where
  "isSymlinkOpenError e = (case e of NodeErr c \<Rightarrow> c \<in> set SYMLINK_OPEN_CODES | _ \<Rightarrow> False)"

definition assertNoNulPathInput :: "jstr \<Rightarrow> string \<Rightarrow> error + unit" where
  "assertNoNulPathInput filePath message =
     throwIf (hasChar filePath 0) (throwFs Invalid_path message)"

subsection \<open>Containment\<close>

definition normalizeWindowsPathForComparison :: "unicode \<Rightarrow> host \<Rightarrow> jstr \<Rightarrow> jstr" where
  "normalizeWindowsPathForComparison u h input =
     (let normalized = win32Normalize h input;
          stripped =
            (if startsWith normalized [BACKSLASH, BACKSLASH, 63, BACKSLASH]
             then let n = drop 4 normalized
                  in if startsWith (toUpperCase u n) (js ''UNC'' @ [BACKSLASH])
                     then BACKSLASH # BACKSLASH # drop 4 n else n
             else normalized)
      in toLowerCase u (replaceChar SLASH BACKSLASH stripped))"

definition resolveWindowsPathForComparison :: "unicode \<Rightarrow> host \<Rightarrow> jstr \<Rightarrow> jstr" where
  "resolveWindowsPathForComparison u h input =
     (let resolved = win32Resolve h [input]
      in if charCodeAt resolved 1 = Some COLON \<and> win32IsAbsolute resolved
         then toLowerCase u resolved
         else normalizeWindowsPathForComparison u h
                (if length resolved = 6 then resolvePathPreservingWindowsRoot h input
                 else resolved))"

definition insideWin32 :: "unicode \<Rightarrow> host \<Rightarrow> jstr \<Rightarrow> jstr \<Rightarrow> bool" where
  "insideWin32 u h root target =
     (if isForeignWindowsShareOrDevicePath target [Some root] Win32 then False
      else let r = resolveWindowsPathForComparison u h root;
               t = resolveWindowsPathForComparison u h target
           in if charCodeAt r 1 = Some COLON \<and> win32IsAbsolute r \<and> COLON \<notin> set (drop 2 t) \<and>
                 (t = r \<or> (startsWith t r \<and>
                    (endsWith r [BACKSLASH] \<or> charCodeAt t (length r) = Some BACKSLASH)))
              then True
              else let relative = win32Relative h r t
                   in relative = [] \<or>
                      (hd (splitOn BACKSLASH relative) \<noteq> dotdot \<and> \<not> win32IsAbsolute relative))"

text \<open>The string prefix test that answers most POSIX queries without resolving anything.\<close>

fun hasSlashDotDot :: "jstr \<Rightarrow> bool" where
  "hasSlashDotDot (a # b # c # rest) =
     ((a = SLASH \<and> b = DOT \<and> c = DOT) \<or> hasSlashDotDot (b # c # rest))"
| "hasSlashDotDot _ = False"

definition insidePosixFast :: "jstr \<Rightarrow> jstr \<Rightarrow> bool" where
  "insidePosixFast root target =
     (root \<noteq> [] \<and> hd root = SLASH \<and> length root \<le> length target \<and>
      charCodeAt target 0 = Some SLASH \<and> \<not> hasSlashDotDot target \<and>
      (target = root \<or>
        (startsWith target root \<and>
          (last root = SLASH \<or> charCodeAt target (length root) = Some SLASH))))"

definition insidePosixSlow :: "jstr \<Rightarrow> jstr \<Rightarrow> jstr \<Rightarrow> bool" where
  "insidePosixSlow wd root target =
     (let relative = posixRelative wd (posixResolve wd [root]) (posixResolve wd [target])
      in relative = [] \<or>
         (hd (splitOn SLASH relative) \<noteq> dotdot \<and> \<not> posixIsAbsolute relative))"

definition isPathInside :: "unicode \<Rightarrow> host \<Rightarrow> jstr \<Rightarrow> jstr \<Rightarrow> bool" where
  "isPathInside u h root target =
     (case platform h of
        Win32 \<Rightarrow> insideWin32 u h root target
      | Posix \<Rightarrow> insidePosixFast root target \<or> insidePosixSlow (cwd h) root target)"

fun escapes :: "nat \<Rightarrow> jstr list \<Rightarrow> bool" where
  "escapes depth [] = False"
| "escapes depth (segment # rest) =
     (if segment = dotdot then (if depth = 0 then True else escapes (depth - 1) rest)
      else if segment \<noteq> [] \<and> segment \<noteq> [DOT] then escapes (depth + 1) rest
      else escapes depth rest)"

definition isPathRelativeEscape :: "host \<Rightarrow> jstr \<Rightarrow> bool" where
  "isPathRelativeEscape h relativePath =
     (pathIsAbsolute h relativePath \<or>
      escapes 0 (splitOn SLASH
        (if platform h = Win32 then replaceChar BACKSLASH SLASH relativePath else relativePath)))"

definition resolveSafeBaseDir :: "host \<Rightarrow> jstr \<Rightarrow> jstr" where
  "resolveSafeBaseDir h rootDir =
     (let resolved = pathResolve h [rootDir]
      in if endsWith resolved [pathSep h] then resolved else resolved @ [pathSep h])"

definition isWithinDir :: "unicode \<Rightarrow> host \<Rightarrow> jstr \<Rightarrow> jstr \<Rightarrow> bool" where
  "isWithinDir u h rootDir targetPath = isPathInside u h rootDir targetPath"

subsection \<open>Containment after resolving symbolic links\<close>

record realpaths =
  realpathSync :: "jstr \<Rightarrow> jstr option"
  realpathNative :: "jstr \<Rightarrow> jstr option"

type_synonym realpath_cache = "jstr \<rightharpoonup> jstr"

definition safeRealpathSync ::
    "host \<Rightarrow> realpaths \<Rightarrow> jstr \<Rightarrow> realpath_cache option
       \<Rightarrow> jstr option \<times> realpath_cache option" where
  "safeRealpathSync h fs targetPath cache =
     (case Option.bind cache (\<lambda>m. m targetPath) of
        Some (c # cached) \<Rightarrow> (Some (c # cached), cache)
      | _ \<Rightarrow>
          (case realpathSync fs (pathForWindowsFilesystem h targetPath) of
             None \<Rightarrow> (None, cache)
           | Some ordinary \<Rightarrow>
               (case (if platform h = Win32 then Some ordinary else realpathNative fs ordinary) of
                  None \<Rightarrow> (None, cache)
                | Some resolved \<Rightarrow>
                    (Some resolved,
                     map_option (\<lambda>m. m(targetPath \<mapsto> resolved, resolved \<mapsto> resolved)) cache))))"

definition isPathInsideWithRealpath ::
    "unicode \<Rightarrow> host \<Rightarrow> realpaths \<Rightarrow> jstr \<Rightarrow> jstr \<Rightarrow> bool option
       \<Rightarrow> realpath_cache option \<Rightarrow> bool \<times> realpath_cache option" where
  "isPathInsideWithRealpath u h fs basePath candidatePath requireRealpath cache =
     (if hasWindowsPathAlias basePath Filesystem (platform h) \<or>
         hasWindowsPathAlias candidatePath Filesystem (platform h) then (False, cache)
      else if \<not> isPathInside u h basePath candidatePath then (False, cache)
      else
        let (baseReal, cache1) = safeRealpathSync h fs basePath cache;
            (candidateReal, cache2) = safeRealpathSync h fs candidatePath cache1;
            aliased = (\<lambda>r. case r of None \<Rightarrow> False
                        | Some p \<Rightarrow> hasWindowsPathAlias p Filesystem (platform h))
        in if aliased baseReal \<or> aliased candidateReal then (False, cache2)
           else (case (baseReal, candidateReal) of
                   (Some b, Some c) \<Rightarrow>
                     if b = [] \<or> c = [] then (requireRealpath = Some False, cache2)
                     else (isPathInside u h b c, cache2)
                 | _ \<Rightarrow> (requireRealpath = Some False, cache2)))"

subsection \<open>Safe relative paths\<close>

fun checkSegments :: "jstr list \<Rightarrow> error + unit" where
  "checkSegments [] = Inr ()"
| "checkSegments (segment # rest) =
     (if segment = dotdot
      then Inl (throwFs Invalid_path ''relative path must not contain ..'')
      else if isDriveRelativePath segment
      then Inl (throwFs Invalid_path ''relative path must not contain a drive letter'')
      else checkSegments rest)"

definition splitSafeRelativePath :: "host \<Rightarrow> jstr \<Rightarrow> error + jstr list" where
  "splitSafeRelativePath h relativePath =
     (if relativePath = [] \<or> relativePath = [DOT] then Inr []
      else bindE (assertNoNulPathInput relativePath ''relative path contains a NUL byte'') (\<lambda>_.
        if hasChar relativePath BACKSLASH
        then Inl (throwFs Invalid_path ''relative path must use forward slashes'')
        else if posixIsAbsolute relativePath \<or> win32IsAbsolute relativePath \<or>
                startsWith relativePath [SLASH, SLASH]
        then Inl (throwFs Invalid_path ''relative path must not be absolute'')
        else let segments = filter (\<lambda>s. s \<noteq> [] \<and> s \<noteq> [DOT]) (splitOn SLASH relativePath)
             in bindE (checkSegments segments) (\<lambda>_.
                bindE (assertNoWindowsPathAlias relativePath Relative
                         ''relative path uses a Windows filesystem namespace alias''
                         (platform h)) (\<lambda>_. Inr segments))))"

definition resolveSafeRelativePath :: "unicode \<Rightarrow> host \<Rightarrow> jstr \<Rightarrow> jstr \<Rightarrow> error + jstr" where
  "resolveSafeRelativePath u h rootDir relativePath =
     bindE (assertNoWindowsPathAlias rootDir Filesystem
              ''root dir uses a Windows filesystem namespace alias'' (platform h)) (\<lambda>_.
       let root = resolvePathPreservingWindowsRoot h rootDir
       in bindE (splitSafeRelativePath h relativePath) (\<lambda>_.
            let target = resolvePathFromBasePreservingWindowsRoot h root [relativePath]
            in if \<not> isPathInside u h root target
               then Inl (throwFs Outside_workspace ''relative path escapes root'')
               else Inr target))"

subsection \<open>Scoped resolution\<close>

record scope_params =
  rootDir :: jstr
  requestedPath :: jstr
  defaultFileName :: "jstr option"

datatype scope_error = StayWithin | PathRequired

definition pathStaysWithinRoot :: "unicode \<Rightarrow> host \<Rightarrow> jstr \<Rightarrow> jstr \<Rightarrow> bool" where
  "pathStaysWithinRoot u h root candidatePath =
     (if platform h \<noteq> Win32 then candidatePath \<noteq> root \<and> isPathInside u h root candidatePath
      else if isForeignWindowsShareOrDevicePath candidatePath [Some root] Win32 then False
      else let relative = pathRelative h root candidatePath
           in relative \<noteq> [] \<and> \<not> isPathRelativeEscape h relative)"

definition resolvePathWithinNormalizedRoot ::
    "unicode \<Rightarrow> host \<Rightarrow> scope_params \<Rightarrow> jstr \<Rightarrow> scope_error + jstr" where
  "resolvePathWithinNormalizedRoot u h params root =
     (let alias = (\<lambda>v. hasWindowsPathAlias v Filesystem (platform h));
          admit = (\<lambda>p. if alias p \<or> \<not> pathStaysWithinRoot u h root p then Inl StayWithin
                       else Inr p)
      in if alias (rootDir params) \<or> alias root \<or> alias (requestedPath params) \<or>
            (case defaultFileName params of None \<Rightarrow> False | Some d \<Rightarrow> alias d)
         then Inl StayWithin
         else let raw = trim (requestedPath params)
              in if raw = [] then
                   (case defaultFileName params of
                      None \<Rightarrow> Inl PathRequired
                    | Some d \<Rightarrow> if d = [] then Inl PathRequired
                        else admit (resolvePathFromBasePreservingWindowsRoot h root [d]))
                 else admit (resolvePathFromBasePreservingWindowsRoot h root [raw]))"

definition resolvePathWithinRoot :: "unicode \<Rightarrow> host \<Rightarrow> scope_params \<Rightarrow> scope_error + jstr" where
  "resolvePathWithinRoot u h params =
     (let alias = (\<lambda>v. hasWindowsPathAlias v Filesystem (platform h))
      in if alias (rootDir params) \<or> alias (requestedPath params) \<or>
            (case defaultFileName params of None \<Rightarrow> False | Some d \<Rightarrow> alias d)
         then Inl StayWithin
         else resolvePathWithinNormalizedRoot u h params
                (resolvePathPreservingWindowsRoot h (rootDir params)))"

subsection \<open>Segment routes\<close>

record segment_route =
  joined :: jstr
  offsets :: "nat list"

fun routeOffsets :: "nat \<Rightarrow> jstr list \<Rightarrow> nat list" where
  "routeOffsets cursor [] = [cursor]"
| "routeOffsets cursor (s # rest) =
     cursor # routeOffsets (cursor + length s + (if rest = [] then 0 else 1)) rest"

definition createPathSegmentRoute :: "host \<Rightarrow> jstr list \<Rightarrow> segment_route" where
  "createPathSegmentRoute h segments =
     \<lparr>joined = joinOn (pathSep h) segments, offsets = routeOffsets 0 segments\<rparr>"

definition joinPathSegmentRoute ::
    "(jstr list \<Rightarrow> jstr) \<Rightarrow> jstr \<Rightarrow> segment_route \<Rightarrow> nat \<Rightarrow> jstr option \<Rightarrow> error + jstr" where
  "joinPathSegmentRoute pathJoin base route offset tail =
     (if offset \<ge> length (offsets route)
      then Inl (RangeErr ''path segment offset is outside the route'')
      else let suffx = drop (offsets route ! offset) (joined route)
           in if suffx \<noteq> [] then
                Inr (case tail of None \<Rightarrow> pathJoin [base, suffx] | Some t \<Rightarrow> pathJoin [base, suffx, t])
              else Inr (case tail of None \<Rightarrow> base | Some t \<Rightarrow> pathJoin [base, t]))"

definition sameAbsolutePath :: "host \<Rightarrow> jstr \<Rightarrow> jstr \<Rightarrow> bool" where
  "sameAbsolutePath h left right =
     (pathRelative h (pathResolve h [left]) (pathResolve h [right]) = [])"

end
