(* ===== verification/Containment.thy ===== *)
theory Containment
  imports PathLexical
begin

text \<open>
  What POSIX containment means and what rests on it. Every path denotes the list of segments of
  the absolute path it resolves to; \<open>isPathInside\<close> decides the prefix order on these lists,
  whichever of its two routes answers. The locale \<open>containment\<close> states this contract for the
  callers: it is interpreted on the code's own \<open>isPathInside\<close>, and the scoped resolvers are
  proved through it.
\<close>

subsection \<open>The fast route\<close>

lemma hasSlashDotDot_iff: "hasSlashDotDot s \<longleftrightarrow> sublist [SLASH, DOT, DOT] s"
proof (induction s rule: hasSlashDotDot.induct)
  case (1 a b c rest)
  then show ?case by (auto simp: sublist_Cons_right)
qed (auto simp: sublist_def Cons_eq_append_conv)

lemma dotdot_segment_sublist:
  assumes "dotdot \<in> set (splitOn SLASH r)"
  shows "sublist [SLASH, DOT, DOT] (SLASH # r)"
proof -
  obtain xs ys where xy: "splitOn SLASH r = xs @ dotdot # ys"
    using assms by (meson split_list)
  then have r: "r = joinOn SLASH (xs @ dotdot # ys)"
    using joinOn_splitOn [of SLASH r] by simp
  obtain z where z: "joinOn SLASH (dotdot # ys) = dotdot @ z"
    by (cases ys) auto
  show ?thesis
  proof (cases "xs = []")
    case True
    then have "SLASH # r = [] @ [SLASH, DOT, DOT] @ z" using r z by simp
    then show ?thesis by (metis sublist_appendI)
  next
    case False
    then have "SLASH # r = (SLASH # joinOn SLASH xs) @ [SLASH, DOT, DOT] @ z"
      using r z by (simp add: joinOn_append)
    then show ?thesis by (metis sublist_appendI)
  qed
qed

lemma pathSegs_extend:
  assumes "\<not> hasSlashDotDot (a @ SLASH # r)"
  shows "pathSegs (a @ SLASH # r) = pathSegs a @ filter keptSeg (splitOn SLASH r)"
proof -
  have "dotdot \<notin> set (splitOn SLASH r)"
  proof
    assume "dotdot \<in> set (splitOn SLASH r)"
    then have "sublist [SLASH, DOT, DOT] (a @ SLASH # r)"
      using dotdot_segment_sublist sublist_order.order_trans sublist_append_leftI by blast
    then show False using assms by (simp add: hasSlashDotDot_iff)
  qed
  then have "\<forall>s \<in> set (splitOn SLASH r). s \<noteq> dotdot" by blast
  then show ?thesis
    using normSegs_from_pathSegs [of a "splitOn SLASH r"] normSegs_plain
    by (simp add: pathSegs_def splitOn_sep)
qed

lemma pathSegs_trailing_slash: "pathSegs (a @ [SLASH]) = pathSegs a"
  using splitOn_sep [of SLASH a "[]"] by (simp add: pathSegs_def normSegs_trailing_empty)

lemma insidePosixFast_prefix:
  assumes "insidePosixFast root target"
  shows "prefix (pathSegs root) (pathSegs target)"
proof (cases "target = root")
  case True
  then show ?thesis by simp
next
  case False
  then obtain r where r: "target = root @ r"
    using assms by (auto simp: insidePosixFast_def elim: startsWithE)
  have clean: "\<not> hasSlashDotDot target" and ne: "root \<noteq> []"
    using assms by (simp_all add: insidePosixFast_def)
  have "last root = SLASH \<or> charCodeAt target (length root) = Some SLASH"
    using assms False by (simp add: insidePosixFast_def)
  then show ?thesis
  proof
    assume "last root = SLASH"
    then have root: "root = butlast root @ [SLASH]"
      using ne append_butlast_last_id by metis
    then have "target = butlast root @ SLASH # r" using r by simp
    then have "pathSegs target = pathSegs (butlast root) @ filter keptSeg (splitOn SLASH r)"
      using clean pathSegs_extend by metis
    moreover have "pathSegs root = pathSegs (butlast root)"
      using root pathSegs_trailing_slash by metis
    ultimately show ?thesis by simp
  next
    assume "charCodeAt target (length root) = Some SLASH"
    then obtain r' where "r = SLASH # r'"
      using r by (cases r) (auto simp: charCodeAt_def split: if_splits)
    then show ?thesis using clean r pathSegs_extend [of root r'] by simp
  qed
qed

subsection \<open>The general route\<close>

lemma insidePosixSlow_iff:
  assumes "posixIsAbsolute wd"
  shows "insidePosixSlow wd root target \<longleftrightarrow>
           prefix (resolvedSegs wd root) (resolvedSegs wd target)"
proof -
  let ?f = "resolvedSegs wd root" and ?t = "resolvedSegs wd target"
  let ?R = "posixResolve wd [root]" and ?T = "posixResolve wd [target]"
  have R: "resolvedSegs wd ?R = ?f" and T: "resolvedSegs wd ?T = ?t"
    using assms by (simp_all add: posixResolve_resolvedSegs)
  show ?thesis
  proof (cases "prefix ?f ?t")
    case True
    let ?d = "drop (length ?f) ?t"
    have rel: "posixRelative wd ?R ?T = joinOn SLASH ?d"
      using posixRelative_inside [OF assms, of ?R ?T] True by (simp add: R T)
    have wf: "wfSegs ?d"
      using wfSegs_resolvedSegs [of wd target] set_drop_subset [of "length ?f" ?t]
      by (auto simp: wfSegs_def)
    show ?thesis
    proof (cases ?d)
      case Nil
      then show ?thesis using True by (simp add: insidePosixSlow_def rel)
    next
      case (Cons s ss)
      have "splitOn SLASH (joinOn SLASH ?d) = ?d"
        using wf Cons by (intro splitOn_joinOn) (auto simp: wfSegs_def)
      moreover have "s \<noteq> dotdot" using wf Cons by (simp add: wfSegs_def plainSeg_def)
      moreover have "\<not> posixIsAbsolute (joinOn SLASH ?d)"
        using wf hd_joinOn Cons by (simp add: posixIsAbsolute_def)
      ultimately show ?thesis using True Cons by (simp add: insidePosixSlow_def Let_def rel)
    qed
  next
    case False
    then have "hd (splitOn SLASH (posixRelative wd ?R ?T)) = dotdot"
      using posixRelative_outside [OF assms, of ?R ?T] by (simp add: R T)
    moreover have "posixRelative wd ?R ?T \<noteq> []" using calculation by auto
    ultimately show ?thesis using False by (simp add: insidePosixSlow_def Let_def)
  qed
qed

lemma insidePosixFast_slow:
  assumes "posixIsAbsolute wd" "insidePosixFast root target"
  shows "insidePosixSlow wd root target"
proof -
  have "posixIsAbsolute root" "posixIsAbsolute target"
    using assms(2)
    by (auto simp: insidePosixFast_def posixIsAbsolute_def charCodeAt_def hd_conv_nth split: if_splits)
  then show ?thesis
    using insidePosixFast_prefix [OF assms(2)] assms(1)
    by (simp add: insidePosixSlow_iff resolvedSegs_absolute)
qed

subsection \<open>The contract\<close>

definition posixHost :: "host \<Rightarrow> bool" where
  "posixHost h \<longleftrightarrow> platform h = Posix \<and> posixIsAbsolute (cwd h)"

definition hostSegs :: "host \<Rightarrow> jstr \<Rightarrow> jstr list" where
  "hostSegs h p = resolvedSegs (cwd h) p"

definition hostResolve :: "host \<Rightarrow> jstr \<Rightarrow> jstr \<Rightarrow> jstr" where
  "hostResolve h base rel = resolvePathFromBasePreservingWindowsRoot h base [rel]"

locale containment =
  fixes ok :: "'h \<Rightarrow> bool"
    and inside :: "'h \<Rightarrow> jstr \<Rightarrow> jstr \<Rightarrow> bool"
    and segs :: "'h \<Rightarrow> jstr \<Rightarrow> jstr list"
    and under :: "'h \<Rightarrow> jstr \<Rightarrow> jstr \<Rightarrow> jstr"
  assumes inside_iff: "ok h \<Longrightarrow> inside h a b \<longleftrightarrow> prefix (segs h a) (segs h b)"
    and under_relative: "ok h \<Longrightarrow> posixIsAbsolute a \<Longrightarrow> \<not> posixIsAbsolute r \<Longrightarrow>
           segs h (under h a r) = normSegs False (rev (segs h a)) (splitOn SLASH r)"
begin

lemma inside_refl: "ok h \<Longrightarrow> inside h a a"
  by (simp add: inside_iff)

lemma inside_trans: "ok h \<Longrightarrow> inside h a b \<Longrightarrow> inside h b c \<Longrightarrow> inside h a c"
  by (auto simp: inside_iff intro: prefix_order.trans)

lemma inside_antisym: "ok h \<Longrightarrow> inside h a b \<Longrightarrow> inside h b a \<Longrightarrow> segs h a = segs h b"
  by (auto simp: inside_iff intro: prefix_order.antisym)

lemma inside_linear:
  "ok h \<Longrightarrow> inside h a c \<Longrightarrow> inside h b c \<Longrightarrow> inside h a b \<or> inside h b a"
  by (auto simp: inside_iff dest: prefix_same_cases)

lemma under_plain:
  assumes "ok h" "posixIsAbsolute a" "\<not> posixIsAbsolute r" "dotdot \<notin> set (splitOn SLASH r)"
  shows "segs h (under h a r) = segs h a @ filter keptSeg (splitOn SLASH r)"
proof -
  have "\<forall>s \<in> set (splitOn SLASH r). s \<noteq> dotdot" using assms(4) by blast
  then show ?thesis using assms(1-3) by (simp add: under_relative normSegs_plain)
qed

lemma under_plain_inside:
  "ok h \<Longrightarrow> posixIsAbsolute a \<Longrightarrow> \<not> posixIsAbsolute r \<Longrightarrow> dotdot \<notin> set (splitOn SLASH r) \<Longrightarrow>
   inside h a (under h a r)"
  by (simp add: inside_iff under_plain)

end

lemma pathResolve_posix: "posixHost h \<Longrightarrow> pathResolve h args = posixResolve (cwd h) args"
  by (simp add: posixHost_def pathResolve_def)

lemma hostResolve_posix:
  "posixHost h \<Longrightarrow> hostResolve h base rel = posixResolve (cwd h) [base, rel]"
  by (simp add: hostResolve_def resolvePathFromBasePreservingWindowsRoot_def posixHost_def
      pathResolve_def Let_def)

lemma isPathInside_prefix:
  assumes "posixHost h"
  shows "isPathInside u h root target \<longleftrightarrow> prefix (hostSegs h root) (hostSegs h target)"
  using assms insidePosixFast_slow insidePosixSlow_iff
  by (auto simp: isPathInside_def posixHost_def hostSegs_def)

lemma hostSegs_resolve_relative:
  assumes "posixHost h" "posixIsAbsolute a" "\<not> posixIsAbsolute r"
  shows "hostSegs h (hostResolve h a r) = normSegs False (rev (hostSegs h a)) (splitOn SLASH r)"
  using assms
  by (simp add: hostResolve_posix posixResolve_from_base hostSegs_def resolvedSegs_absolute
      wfSegs_normSegs)

interpretation inside: containment posixHost "isPathInside u" hostSegs hostResolve for u
  by unfold_locales (simp_all add: isPathInside_prefix hostSegs_resolve_relative)

subsection \<open>Climbing out of the root\<close>

lemma escapes_normSegs:
  "list_all plainSeg (st @ rev base) \<Longrightarrow> \<not> escapes (length st) ss \<Longrightarrow>
   prefix base (normSegs False (st @ rev base) ss)"
proof (induction ss arbitrary: st)
  case Nil
  then show ?case by simp
next
  case (Cons s ss)
  note step = normSegs_Cons_no_up [OF Cons.prems(1)]
  consider (skip) "s = [] \<or> s = [DOT]" | (up) "s = dotdot" | (down) "plainSeg s"
    by (auto simp: plainSeg_def)
  then show ?case
  proof cases
    case skip
    then have "\<not> escapes (length st) ss" using Cons.prems(2) by auto
    then show ?thesis using Cons.IH [OF Cons.prems(1)] skip by (auto simp: step)
  next
    case up
    then obtain t st' where st: "st = t # st'" using Cons.prems(2) by (cases st) auto
    then have "prefix base (normSegs False (st' @ rev base) ss)"
      using Cons.prems up by (intro Cons.IH) auto
    then show ?thesis using up st Cons.prems(1) by (simp add: step plainSeg_def)
  next
    case down
    then have "prefix base (normSegs False ((s # st) @ rev base) ss)"
      using Cons.prems by (intro Cons.IH) (auto simp: plainSeg_def)
    then show ?thesis using down by (auto simp: step plainSeg_def)
  qed
qed

lemma isPathRelativeEscape_posix:
  "posixHost h \<Longrightarrow>
   isPathRelativeEscape h r \<longleftrightarrow> posixIsAbsolute r \<or> escapes 0 (splitOn SLASH r)"
  by (simp add: isPathRelativeEscape_def posixHost_def pathIsAbsolute_def)

lemma not_escape_inside:
  assumes "posixHost h" "posixIsAbsolute root" "\<not> isPathRelativeEscape h r"
  shows "isPathInside u h root (hostResolve h root r)"
proof -
  have r: "\<not> posixIsAbsolute r" "\<not> escapes 0 (splitOn SLASH r)"
    using assms by (simp_all add: isPathRelativeEscape_posix)
  have "wfSegs (hostSegs h root)" by (simp add: hostSegs_def)
  then have "list_all plainSeg ([] @ rev (hostSegs h root))" by (simp add: wfSegs_def list_all_iff)
  then have "prefix (hostSegs h root) (normSegs False (rev (hostSegs h root)) (splitOn SLASH r))"
    using escapes_normSegs [of "[]" "hostSegs h root" "splitOn SLASH r"] r(2) by simp
  then show ?thesis
    using assms(1,2) r(1) by (simp add: isPathInside_prefix hostSegs_resolve_relative)
qed

subsection \<open>Safe relative paths\<close>

lemma checkSegments_ok_iff [guards]:
  "checkSegments segments = Inr x \<longleftrightarrow>
     (\<forall>s \<in> set segments. s \<noteq> dotdot \<and> \<not> isDriveRelativePath s)"
  by (induction segments) auto

lemma splitSafeRelativePath_ok:
  assumes "splitSafeRelativePath h r = Inr segments"
  shows "\<not> posixIsAbsolute r \<and> segments = filter keptSeg (splitOn SLASH r) \<and>
         dotdot \<notin> set (splitOn SLASH r)"
proof (cases "r = [] \<or> r = [DOT]")
  case True
  then show ?thesis
    using assms by (auto simp: splitSafeRelativePath_def posixIsAbsolute_def keptSeg_def)
next
  case False
  have keep: "filter (\<lambda>s. s \<noteq> [] \<and> s \<noteq> [DOT]) ss = filter keptSeg ss" for ss
    by (rule filter_cong) (simp_all add: keptSeg_def)
  have "dotdot \<in> set (filter keptSeg (splitOn SLASH r))" if "dotdot \<in> set (splitOn SLASH r)"
    using that by (simp add: keptSeg_def)
  then show ?thesis
    using assms False
    by (auto simp: splitSafeRelativePath_def Let_def bindE_Inr_iff checkSegments_ok_iff keep
        split: if_splits)
qed

lemma splitSafeRelativePath_segments:
  assumes "splitSafeRelativePath h r = Inr segments"
  shows "wfSegs segments"
  using splitSafeRelativePath_ok [OF assms] splitOn_no_sep [of _ SLASH r]
  by (auto simp: wfSegs_def plainSeg_def keptSeg_def)

lemma resolvePathPreserving_posix:
  "posixHost h \<Longrightarrow> resolvePathPreservingWindowsRoot h p = posixResolve (cwd h) [p]"
  by (simp add: resolvePathPreservingWindowsRoot_def repairResolvedWindowsRoot_def posixHost_def
      pathResolve_def)

lemma posixHost_no_alias [simp]: "posixHost h \<Longrightarrow> \<not> hasWindowsPathAlias p k (platform h)"
  by (simp add: hasWindowsPathAlias_def posixHost_def)

lemma posixIsAbsolute_resolve: "posixHost h \<Longrightarrow> posixIsAbsolute (posixResolve (cwd h) [p])"
  by (simp add: posixHost_def posixResolve_resolvedSegs)

lemma hostSegs_resolve: "posixHost h \<Longrightarrow> hostSegs h (posixResolve (cwd h) [p]) = hostSegs h p"
  by (simp add: posixHost_def hostSegs_def posixResolve_resolvedSegs)

lemma resolveSafeRelativePath_posix:
  assumes h: "posixHost h" and ok: "splitSafeRelativePath h r = Inr segments"
  shows "\<exists>p. resolveSafeRelativePath u h base r = Inr p \<and>
             hostSegs h p = hostSegs h base @ segments"
proof -
  let ?root = "posixResolve (cwd h) [base]"
  let ?p = "hostResolve h ?root r"
  have abs: "posixIsAbsolute ?root" using h by (rule posixIsAbsolute_resolve)
  note r = splitSafeRelativePath_ok [OF ok]
  have segs: "hostSegs h ?p = hostSegs h base @ segments"
    using inside.under_plain [OF h abs, of r] r h by (simp add: hostSegs_resolve)
  have "isPathInside u h ?root ?p"
    using inside.under_plain_inside [OF h abs, of r] r by simp
  then have "resolveSafeRelativePath u h base r = Inr ?p"
    using h ok by (simp add: resolveSafeRelativePath_def assertNoWindowsPathAlias_def throwIf_def
        resolvePathPreserving_posix Let_def hostResolve_def)
  then show ?thesis using segs by blast
qed

subsection \<open>Scoped resolution\<close>

lemma pathStaysWithinRoot_posix:
  "posixHost h \<Longrightarrow>
   pathStaysWithinRoot u h root p \<longleftrightarrow> p \<noteq> root \<and> prefix (hostSegs h root) (hostSegs h p)"
  by (simp add: pathStaysWithinRoot_def posixHost_def isPathInside_prefix)

lemma resolvePathWithinRoot_posix:
  assumes "posixHost h" "resolvePathWithinRoot u h params = Inr p"
  shows "strict_prefix (hostSegs h (rootDir params)) (hostSegs h p)"
proof -
  let ?root = "posixResolve (cwd h) [rootDir params]"
  have adm: "pathStaysWithinRoot u h ?root p" and "\<exists>x. p = hostResolve h ?root x"
    using assms
    by (auto simp: resolvePathWithinRoot_def resolvePathWithinNormalizedRoot_def Let_def
        resolvePathPreserving_posix hostResolve_def split: if_splits option.splits)
  then obtain x where p: "p = hostResolve h ?root x" by blast
  have root: "?root = absPath (hostSegs h (rootDir params))"
    using assms(1) by (simp add: posixHost_def hostSegs_def posixResolve_resolvedSegs)
  have "\<exists>segs. wfSegs segs \<and> p = absPath segs"
  proof (cases "posixIsAbsolute x")
    case True
    then show ?thesis
      using p assms(1) wfSegs_pathSegs [of x]
      by (metis hostResolve_posix posixResolve_base_absolute)
  next
    case False
    then show ?thesis
      using p assms(1) posixIsAbsolute_resolve [OF assms(1), of "rootDir params"]
        wfSegs_normSegs [OF wfSegs_pathSegs]
      by (metis hostResolve_posix posixResolve_from_base)
  qed
  then obtain segs where segs: "wfSegs segs" "p = absPath segs" by blast
  then have "hostSegs h p = segs" by (simp add: hostSegs_def)
  then show ?thesis
    using adm assms(1) root segs hostSegs_resolve [OF assms(1), of "rootDir params"]
    by (auto simp: pathStaysWithinRoot_posix strict_prefix_def)
qed

subsection \<open>Safe segments\<close>

lemma safe_segment_child:
  assumes "posixHost h" "posixIsAbsolute root" "isSafePathSegment u s opts"
  shows "hostSegs h (hostResolve h root s) = hostSegs h root @ [s]"
proof -
  have s: "plainSeg s" "SLASH \<notin> set s"
    using assms(3) isSafePathSegment_plain isSafePathSegment_no_slash by blast+
  have one: "splitOn SLASH s = [s]" using s(2) by (rule splitOn_id)
  have "\<not> posixIsAbsolute s" using s by (cases s) (auto simp: posixIsAbsolute_def)
  then show ?thesis
    using inside.under_plain [OF assms(1,2), of s] s(1) by (auto simp: one plainSeg_def keptSeg_def)
qed

subsection \<open>Segment routes\<close>

lemma routeOffsets_length [simp]: "length (routeOffsets k segs) = length segs + 1"
  by (induction k segs rule: routeOffsets.induct) auto

lemma routeOffsets_shift: "routeOffsets (k + m) segs = map (\<lambda>x. x + k) (routeOffsets m segs)"
proof (induction segs arbitrary: m)
  case Nil
  then show ?case by simp
next
  case (Cons s rest)
  let ?d = "length s + (if rest = [] then 0 else 1)"
  have "routeOffsets (k + (m + ?d)) rest = map (\<lambda>x. x + k) (routeOffsets (m + ?d) rest)"
    by (rule Cons.IH)
  then show ?case by (simp only: routeOffsets.simps list.map add.assoc add.commute [of m k])
qed

lemma route_suffix:
  "i \<le> length segs \<Longrightarrow>
   drop (routeOffsets 0 segs ! i) (joinOn c segs) = joinOn c (drop i segs)"
proof (induction segs arbitrary: i)
  case Nil
  then show ?case by simp
next
  case (Cons s rest)
  show ?case
  proof (cases i)
    case 0
    then show ?thesis by simp
  next
    case (Suc j)
    let ?k = "length s + (if rest = [] then 0 else 1)"
    have "routeOffsets 0 (s # rest) ! i = routeOffsets 0 rest ! j + ?k"
      using Suc Cons.prems routeOffsets_shift [of ?k 0 rest] by simp
    moreover have "drop ?k (joinOn c (s # rest)) = joinOn c rest"
      by (cases rest) auto
    ultimately have "drop (routeOffsets 0 (s # rest) ! i) (joinOn c (s # rest))
        = drop (routeOffsets 0 rest ! j) (joinOn c rest)"
      by (metis drop_drop)
    then show ?thesis using Suc Cons by simp
  qed
qed

subsection \<open>Properties\<close>

text \<open>C1: on a POSIX host the containment test answers exactly whether the resolved segments of
  the root are a prefix of the resolved segments of the target, so neither spelling, dot segments
  nor the string shortcut change the answer.\<close>

theorem isPathInside_iff_segment_prefix:
  assumes "posixHost h"
  shows "isPathInside u h root target \<longleftrightarrow> prefix (hostSegs h root) (hostSegs h target)"
  by (rule inside.inside_iff [OF assms])

definition demoHost :: host where
  "demoHost = \<lparr>platform = Posix, cwd = js ''/home/me'', win32Resolve = \<lambda>_. [],
     win32Normalize = \<lambda>p. p, win32Relative = \<lambda>a b. b\<rparr>"

lemma posixHost_demo [simp]: "posixHost demoHost"
  by (simp add: posixHost_def demoHost_def posixIsAbsolute_def)

theorem isPathInside_iff_segment_prefix_witness:
  "posixHost demoHost \<and> isPathInside asciiUnicode demoHost (js ''/a/b'') (js ''/a/./b/../b/c'') \<and>
   prefix (hostSegs demoHost (js ''/a/b'')) (hostSegs demoHost (js ''/a/./b/../b/c'')) \<and>
   \<not> isPathInside asciiUnicode demoHost (js ''/a/b'') (js ''/a/bc'')"
proof -
  have "prefix (hostSegs demoHost (js ''/a/b'')) (hostSegs demoHost (js ''/a/./b/../b/c''))"
    "\<not> prefix (hostSegs demoHost (js ''/a/b'')) (hostSegs demoHost (js ''/a/bc''))"
    by code_simp+
  then show ?thesis
    using isPathInside_iff_segment_prefix [OF posixHost_demo, of asciiUnicode "js ''/a/b''"] by simp
qed

text \<open>C14: a relative path that the escape test admits resolves inside the root it is resolved
  against.\<close>

theorem admitted_relative_stays_inside:
  assumes "posixHost h" "posixIsAbsolute root" "\<not> isPathRelativeEscape h relativePath"
  shows "isPathInside u h root (hostResolve h root relativePath)"
  by (rule not_escape_inside [OF assms])

theorem admitted_relative_stays_inside_witness:
  "\<not> isPathRelativeEscape demoHost (js ''x/../y'') \<and>
   isPathInside asciiUnicode demoHost (js ''/srv'') (hostResolve demoHost (js ''/srv'') (js ''x/../y''))"
proof -
  have "\<not> isPathRelativeEscape demoHost (js ''x/../y'')" "posixIsAbsolute (js ''/srv'')"
    by code_simp+
  then show ?thesis
    using admitted_relative_stays_inside [OF posixHost_demo, of "js ''/srv''" "js ''x/../y''"] by blast
qed

text \<open>C2: resolving a relative path under a root fails exactly with the error of splitting it, and
  otherwise answers the absolute path of the root's segments followed by the split segments; the
  containment check after the resolution never rejects what the splitter admits.\<close>

theorem resolveSafeRelativePath_complete:
  assumes "posixHost h"
  shows "resolveSafeRelativePath u h base r =
           map_sum id (\<lambda>segments. absPath (hostSegs h base @ segments)) (splitSafeRelativePath h r)"
proof (cases "splitSafeRelativePath h r")
  case (Inl e)
  then show ?thesis
    using assms by (simp add: resolveSafeRelativePath_def assertNoWindowsPathAlias_def throwIf_def Let_def)
next
  case (Inr segments)
  then obtain p where p: "resolveSafeRelativePath u h base r = Inr p"
      "hostSegs h p = hostSegs h base @ segments"
    using resolveSafeRelativePath_posix [OF assms] by blast
  have "p = hostResolve h (posixResolve (cwd h) [base]) r"
    using p(1) assms by (auto simp: resolveSafeRelativePath_def Let_def guards
        resolvePathPreserving_posix hostResolve_def split: if_splits)
  then have "p = absPath (normSegs False (rev (hostSegs h (posixResolve (cwd h) [base]))) (splitOn SLASH r))"
    using assms posixIsAbsolute_resolve [OF assms, of base] splitSafeRelativePath_ok [OF Inr]
    by (simp add: hostResolve_posix posixResolve_from_base hostSegs_def resolvedSegs_absolute)
  moreover have "hostSegs h p = normSegs False (rev (hostSegs h (posixResolve (cwd h) [base]))) (splitOn SLASH r)"
    using calculation assms by (simp add: hostSegs_def wfSegs_normSegs)
  ultimately show ?thesis using p Inr by simp
qed

theorem resolveSafeRelativePath_complete_witness:
  "resolveSafeRelativePath asciiUnicode demoHost (js ''data'') (js ''a//b'') =
     Inr (js ''/home/me/data/a/b'')"
proof -
  have "splitSafeRelativePath demoHost (js ''a//b'') = Inr [js ''a'', js ''b'']"
    "absPath (hostSegs demoHost (js ''data'') @ [js ''a'', js ''b'']) = js ''/home/me/data/a/b''"
    by code_simp+
  then show ?thesis
    using resolveSafeRelativePath_complete [OF posixHost_demo, of asciiUnicode "js ''data''" "js ''a//b''"]
    by simp
qed

text \<open>C13: a scoped resolution answers only paths strictly below the scope's root, also for the
  default file name.\<close>

theorem resolvePathWithinRoot_strictly_below:
  assumes "posixHost h" "resolvePathWithinRoot u h params = Inr p"
  shows "strict_prefix (hostSegs h (rootDir params)) (hostSegs h p)"
  by (rule resolvePathWithinRoot_posix [OF assms])

theorem resolvePathWithinRoot_strictly_below_witness:
  "resolvePathWithinRoot asciiUnicode demoHost
     \<lparr>rootDir = js ''/srv'', requestedPath = js '' '', defaultFileName = Some (js ''index'')\<rparr>
     = Inr (js ''/srv/index'') \<and>
   strict_prefix (hostSegs demoHost (js ''/srv'')) (hostSegs demoHost (js ''/srv/index''))"
proof -
  have "resolvePathWithinRoot asciiUnicode demoHost
     \<lparr>rootDir = js ''/srv'', requestedPath = js '' '', defaultFileName = Some (js ''index'')\<rparr>
     = Inr (js ''/srv/index'')" by code_simp
  then show ?thesis using resolvePathWithinRoot_strictly_below [OF posixHost_demo] by fastforce
qed

text \<open>A safe path segment resolved against an absolute directory names one direct child of it,
  and two different segments name two different children.\<close>

theorem safe_segments_name_children:
  assumes "posixHost h" "posixIsAbsolute root"
    "isSafePathSegment u s opts" "isSafePathSegment u t opts'"
  shows "hostSegs h (hostResolve h root s) = hostSegs h root @ [s] \<and>
         (hostSegs h (hostResolve h root s) = hostSegs h (hostResolve h root t) \<longleftrightarrow> s = t)"
  using safe_segment_child [OF assms(1,2)] assms(3,4) by simp

theorem safe_segments_name_children_witness:
  "hostSegs demoHost (hostResolve demoHost (js ''/srv'') (js ''a.b'')) \<noteq>
   hostSegs demoHost (hostResolve demoHost (js ''/srv'') (js ''.x''))"
proof -
  have "isSafePathSegment asciiUnicode (js ''a.b'') \<lparr>allowDotPrefix = False\<rparr>"
    "isSafePathSegment asciiUnicode (js ''.x'') \<lparr>allowDotPrefix = True\<rparr>"
    "posixIsAbsolute (js ''/srv'')" "js ''a.b'' \<noteq> js ''.x''" by code_simp+
  then show ?thesis using safe_segments_name_children [OF posixHost_demo] by blast
qed

text \<open>Joining a segment route at an offset joins exactly the segments from that offset on, and
  an offset outside the route is a range error.\<close>

lemma route_join_is_suffix:
  "joinPathSegmentRoute pathJoin base (createPathSegmentRoute h segments) offset tail =
     (if length segments < offset then Inl (RangeErr ''path segment offset is outside the route'')
      else let suffx = joinOn (pathSep h) (drop offset segments);
               rest = (case tail of None \<Rightarrow> [] | Some t \<Rightarrow> [t])
           in Inr (if suffx = [] \<and> tail = None then base
                   else pathJoin (base # (if suffx = [] then [] else [suffx]) @ rest)))"
  by (simp add: joinPathSegmentRoute_def createPathSegmentRoute_def route_suffix Let_def
      split: option.split)

end
