(* ===== verification/FileName.thy ===== *)
theory FileName
  imports Containment
begin

text \<open>
  Untrusted file names (\<open>src/filename.ts\<close>): the sanitizer that reduces a name to one portable
  component, the suffix that keeps a name from being a Windows device, and the fitting of a name
  between a prefix and a suffix under the 255-byte component limit.
\<close>

definition isInvalidFileNameChar :: "jchar \<Rightarrow> bool" where
  "isInvalidFileNameChar c \<longleftrightarrow> (0 \<le> c \<and> c \<le> 0x1f) \<or> (0x7f \<le> c \<and> c \<le> 0x9f) \<or>
     c = 60 \<or> c = 62 \<or> c = COLON \<or> c = 34 \<or> c = SLASH \<or> c = BACKSLASH \<or> c = 124 \<or> c = 63 \<or> c = 42"

definition hasInvalidFileNameChar :: "jstr \<Rightarrow> bool" where
  "hasInvalidFileNameChar s \<longleftrightarrow> (\<exists>c \<in> set s. isInvalidFileNameChar c)"

definition hasRetainedFileNameChar :: "jstr \<Rightarrow> bool" where
  "hasRetainedFileNameChar s \<longleftrightarrow> (\<exists>c \<in> set s. \<not> isInvalidFileNameChar c \<and> \<not> isJsSpace c)"

definition canStartWindowsDeviceName :: "jchar option \<Rightarrow> bool" where
  "canStartWindowsDeviceName character =
     (let folded = foldLetter character
      in folded = 0x61 \<or> folded = 0x63 \<or> folded = 0x6c \<or> folded = 0x6e \<or> folded = 0x70)"

definition windowsDeviceStemEnd :: "jstr \<Rightarrow> nat \<Rightarrow> nat" where
  "windowsDeviceStemEnd value stemEnd =
     length (dropEndWhile (\<lambda>c. c = 0x20 \<or> c = 0x2e) (take stemEnd value))"

definition suffixWindowsReservedDeviceName :: "unicode \<Rightarrow> jstr \<Rightarrow> jstr" where
  "suffixWindowsReservedDeviceName u fileName =
     (if \<not> canStartWindowsDeviceName (charCodeAt fileName 0) then fileName
      else let extensionIndex = indexOf fileName DOT;
               baseNameEnd = (if extensionIndex < 0 then length fileName else nat extensionIndex);
               deviceBaseNameEnd = windowsDeviceStemEnd fileName baseNameEnd
           in if deviceBaseNameEnd = 0 \<or> deviceBaseNameEnd > 7 \<or>
                 toUpperCase u (take deviceBaseNameEnd fileName)
                   \<notin> set WINDOWS_RESERVED_DEVICE_NAMES
              then fileName
              else take baseNameEnd fileName @ 95 # drop baseNameEnd fileName)"

definition PORTABLE_FILE_NAME_BYTES :: nat where
  "PORTABLE_FILE_NAME_BYTES = 255"

definition SANITIZED_FILE_NAME_CODE_UNITS :: nat where
  "SANITIZED_FILE_NAME_CODE_UNITS = 200"

definition SAFE_FALLBACK_FILE_NAME :: jstr where
  "SAFE_FALLBACK_FILE_NAME = js ''file''"

definition isBoundedSanitizedFileName :: "unicode \<Rightarrow> jstr \<Rightarrow> jstr \<Rightarrow> bool" where
  "isBoundedSanitizedFileName u fileName trimmedFileName =
     (length fileName > 0 \<and> length fileName \<le> SANITIZED_FILE_NAME_CODE_UNITS \<and>
      fileName \<noteq> [DOT] \<and> fileName \<noteq> dotdot \<and> trimmedFileName = fileName \<and>
      \<not> hasInvalidFileNameChar fileName \<and>
      suffixWindowsReservedDeviceName u fileName = fileName)"

definition normalizedFileNameBytes :: "unicode \<Rightarrow> jstr \<Rightarrow> nat" where
  "normalizedFileNameBytes u value = maxNormalizedUtf8Bytes u value True"

definition truncateCodeUnitsWithoutSplittingSurrogate :: "jstr \<Rightarrow> nat \<Rightarrow> jstr" where
  "truncateCodeUnitsWithoutSplittingSurrogate value limit =
     (if length value \<le> limit then value
      else let truncated = take limit value
           in if truncated \<noteq> [] \<and> 0xd800 \<le> last truncated \<and> last truncated \<le> 0xdbff
              then butlast truncated else truncated)"

text \<open>\<open>Array.from\<close> splits a string into code points: a surrogate pair stays together.\<close>

fun codePoints :: "jstr \<Rightarrow> jstr list" where
  "codePoints [] = []"
| "codePoints (c # cs) =
     (if 0xd800 \<le> c \<and> c \<le> 0xdbff \<and> cs \<noteq> [] \<and> 0xdc00 \<le> hd cs \<and> hd cs \<le> 0xdfff
      then [c, hd cs] # codePoints (tl cs)
      else [c] # codePoints cs)"

text \<open>The binary search for the longest fitting stem; \<open>Math.ceil((low + high) / 2)\<close>.\<close>

function fitSearch :: "(nat \<Rightarrow> bool) \<Rightarrow> nat \<Rightarrow> nat \<Rightarrow> nat" where
  "fitSearch fits low high =
     (if low < high then
        let len = (low + high + 1) div 2
        in if fits len then fitSearch fits len high else fitSearch fits low (len - 1)
      else low)"
  by pat_completeness auto
termination
  by (relation "measure (\<lambda>(fits, low, high). high - low)") auto

declare fitSearch.simps [simp del]

definition fitFileNameToPortableComponent :: "host \<Rightarrow> unicode \<Rightarrow> jstr \<Rightarrow> jstr \<Rightarrow> jstr \<Rightarrow> jstr" where
  "fitFileNameToPortableComponent h u prefx fileName suffx =
     (if normalizedFileNameBytes u (prefx @ fileName @ suffx) \<le> PORTABLE_FILE_NAME_BYTES
      then fileName
      else if normalizedFileNameBytes u (prefx @ suffx) > PORTABLE_FILE_NAME_BYTES then fileName
      else let extension = pathExtname h fileName;
               preserveExtension =
                 (normalizedFileNameBytes u (prefx @ extension @ suffx)
                    \<le> PORTABLE_FILE_NAME_BYTES);
               tailSuffix = (if preserveExtension then extension else []);
               stem = (if preserveExtension
                       then take (length fileName - length extension) fileName else fileName);
               points = codePoints stem;
               fits = (\<lambda>n. normalizedFileNameBytes u
                         (prefx @ concat (take n points) @ tailSuffix @ suffx)
                           \<le> PORTABLE_FILE_NAME_BYTES)
           in concat (take (fitSearch fits 0 (length points)) points) @ tailSuffix)"

text \<open>The part of the sanitizer after its two shortcuts.\<close>

definition sanitizeTrimmed :: "unicode \<Rightarrow> jstr \<Rightarrow> jstr option" where
  "sanitizeTrimmed u trimmed =
     (let base1 = (if hasChar trimmed SLASH then posixBasename trimmed else trimmed);
          base2 = (if hasChar base1 BACKSLASH \<or> hasWindowsDrivePrefix base1 0
                   then win32Basename base1 else base1);
          base3 = trim (filter (\<lambda>c. \<not> isInvalidFileNameChar c) base2)
      in if base3 = [] \<or> base3 = [DOT] \<or> base3 = dotdot then None
         else let base = truncateCodeUnitsWithoutSplittingSurrogate base3
                           SANITIZED_FILE_NAME_CODE_UNITS;
                  safeBase = suffixWindowsReservedDeviceName u base
              in Some (if length safeBase > SANITIZED_FILE_NAME_CODE_UNITS
                       then suffixWindowsReservedDeviceName u
                              (truncateCodeUnitsWithoutSplittingSurrogate base
                                 (SANITIZED_FILE_NAME_CODE_UNITS - 1))
                       else safeBase))"

definition sanitizeFileNameCandidate :: "unicode \<Rightarrow> jstr \<Rightarrow> jstr option" where
  "sanitizeFileNameCandidate u fileName =
     (let trimmed = trim fileName
      in if trimmed = [] then None
         else if isBoundedSanitizedFileName u fileName trimmed then Some fileName
         else if \<not> hasRetainedFileNameChar trimmed then None
         else sanitizeTrimmed u trimmed)"

definition sanitizeUntrustedFileName :: "unicode \<Rightarrow> jstr \<Rightarrow> jstr \<Rightarrow> jstr" where
  "sanitizeUntrustedFileName u fileName fallbackName =
     (case sanitizeFileNameCandidate u fileName of
        Some s \<Rightarrow> s
      | None \<Rightarrow> (case sanitizeFileNameCandidate u fallbackName of
                   Some s \<Rightarrow> s | None \<Rightarrow> SAFE_FALLBACK_FILE_NAME))"

subsection \<open>Truncation and the device suffix\<close>

lemma truncate_prefix: "prefix (truncateCodeUnitsWithoutSplittingSurrogate v n) v"
proof -
  have "prefix (take n v) v" by (rule take_is_prefix)
  moreover have "prefix (butlast (take n v)) (take n v)" by (rule prefixeq_butlast)
  ultimately show ?thesis
    by (auto simp: truncateCodeUnitsWithoutSplittingSurrogate_def Let_def
        intro: prefix_order.trans)
qed

lemma truncate_length: "length (truncateCodeUnitsWithoutSplittingSurrogate v n) \<le> n"
  by (auto simp: truncateCodeUnitsWithoutSplittingSurrogate_def Let_def)

lemma truncate_nonempty:
  "v \<noteq> [] \<Longrightarrow> 1 < n \<Longrightarrow> truncateCodeUnitsWithoutSplittingSurrogate v n \<noteq> []"
  by (cases v; cases "tl v"; cases n; cases "n - 1")
     (auto simp: truncateCodeUnitsWithoutSplittingSurrogate_def Let_def)

lemma truncate_long:
  "n < length v \<Longrightarrow> n - 1 \<le> length (truncateCodeUnitsWithoutSplittingSurrogate v n)"
  by (auto simp: truncateCodeUnitsWithoutSplittingSurrogate_def Let_def)

lemma suffix_cases:
  "suffixWindowsReservedDeviceName u s = s \<or>
   (\<exists>k \<le> length s. suffixWindowsReservedDeviceName u s = take k s @ 95 # drop k s)"
proof -
  have "nat (indexOf s DOT) \<le> length s" if "\<not> indexOf s DOT < 0"
    using indexOf_nth [of s DOT] that by simp
  then show ?thesis
    by (auto simp: suffixWindowsReservedDeviceName_def Let_def)
qed

lemma suffix_length: "length (suffixWindowsReservedDeviceName u s) \<le> length s + 1"
  using suffix_cases [of u s] by auto

lemma suffix_length_ge: "length s \<le> length (suffixWindowsReservedDeviceName u s)"
  using suffix_cases [of u s] by auto

lemma suffix_set: "set (suffixWindowsReservedDeviceName u s) \<subseteq> insert 95 (set s)"
  using suffix_cases [of u s] by (auto dest: in_set_takeD in_set_dropD)

lemma suffix_nonempty: "s \<noteq> [] \<Longrightarrow> suffixWindowsReservedDeviceName u s \<noteq> []"
  using suffix_length_ge [of s u] by auto

text \<open>Positions of the suffix, named after the variables of the source.\<close>

definition baseEnd :: "jstr \<Rightarrow> nat" where
  "baseEnd s = (if indexOf s DOT < 0 then length s else nat (indexOf s DOT))"

definition deviceStem :: "jstr \<Rightarrow> jstr" where
  "deviceStem s = dropEndWhile (\<lambda>c. c = 0x20 \<or> c = 0x2e) (take (baseEnd s) s)"

lemma baseEnd_length: "baseEnd s = length (takeWhile (\<lambda>x. x \<noteq> DOT) s)"
  using nat_indexOf [of s DOT] by (auto simp: baseEnd_def split: if_splits)

lemma take_baseEnd: "take (baseEnd s) s = takeWhile (\<lambda>c. c \<noteq> DOT) s"
  unfolding baseEnd_length by (rule takeWhile_eq_take [symmetric])

lemma deviceStem_prefix: "take (length (deviceStem s)) s = deviceStem s"
proof -
  have "prefix (deviceStem s) (take (baseEnd s) s)"
    unfolding deviceStem_def by (rule dropEndWhile_prefix)
  then have "prefix (deviceStem s) s" using take_is_prefix prefix_order.trans by blast
  then obtain zs where zs: "s = deviceStem s @ zs" unfolding prefix_def by blast
  have "take (length (deviceStem s)) (deviceStem s @ zs) = deviceStem s" by simp
  with zs show ?thesis by metis
qed

lemma suffix_eq:
  "suffixWindowsReservedDeviceName u s =
     (if canStartWindowsDeviceName (charCodeAt s 0) \<and> deviceStem s \<noteq> [] \<and>
         length (deviceStem s) \<le> 7 \<and> toUpperCase u (deviceStem s) \<in> set WINDOWS_RESERVED_DEVICE_NAMES
      then take (baseEnd s) s @ 95 # drop (baseEnd s) s else s)"
  unfolding suffixWindowsReservedDeviceName_def Let_def windowsDeviceStemEnd_def
    baseEnd_def [symmetric] deviceStem_def [symmetric] deviceStem_prefix by auto

lemma reserved_names_shape:
  "r \<in> set WINDOWS_RESERVED_DEVICE_NAMES \<Longrightarrow>
     r \<noteq> [] \<and> length r \<le> 7 \<and> last r \<noteq> 95 \<and> hd r \<in> {65, 67, 76, 78, 80}"
  unfolding WINDOWS_RESERVED_DEVICE_NAMES_def by (simp, elim disjE) simp_all

text \<open>
  Upper-casing maps a final underscore to itself, whatever precedes it: the documented behaviour
  of \<open>toUpperCase\<close>, whose mappings never look across an ASCII punctuation character.
\<close>

definition upperKeepsUnderscore :: "unicode \<Rightarrow> bool" where
  "upperKeepsUnderscore u \<longleftrightarrow> (\<forall>s. toUpperCase u (s @ [95]) = toUpperCase u s @ [95])"

lemma upperKeepsUnderscore_ascii [simp]: "upperKeepsUnderscore asciiUnicode"
  by (simp add: upperKeepsUnderscore_def asciiUnicode_def asciiUpper_def)

lemma suffix_idem:
  assumes "upperKeepsUnderscore u"
  shows "suffixWindowsReservedDeviceName u (suffixWindowsReservedDeviceName u s)
           = suffixWindowsReservedDeviceName u s"
proof (cases "suffixWindowsReservedDeviceName u s = s")
  case True
  then show ?thesis by simp
next
  case False
  let ?stem = "takeWhile (\<lambda>c. c \<noteq> DOT) s" and ?ext = "dropWhile (\<lambda>c. c \<noteq> DOT) s"
  let ?y = "?stem @ 95 # ?ext"
  have "drop (baseEnd s) s = ?ext"
    by (simp add: baseEnd_length dropWhile_eq_drop)
  then have y: "suffixWindowsReservedDeviceName u s = ?y"
    using False by (simp add: suffix_eq [of u s] take_baseEnd split: if_splits)
  have stem: "\<forall>c \<in> set ?stem. c \<noteq> DOT" by (auto dest: set_takeWhileD)
  have "takeWhile (\<lambda>c. c \<noteq> DOT) ?y = ?stem @ [95]"
  proof (cases ?ext)
    case Nil
    have "takeWhile (\<lambda>c. c \<noteq> DOT) (?stem @ [95]) = ?stem @ takeWhile (\<lambda>c. c \<noteq> DOT) [95]"
      using stem by (intro takeWhile_append2) blast
    then show ?thesis unfolding Nil by simp
  next
    case (Cons e es)
    then have "e = DOT" using hd_dropWhile [of "\<lambda>c. c \<noteq> DOT" s] by simp
    with Cons stem show ?thesis by (simp add: takeWhile_append2)
  qed
  then have "deviceStem ?y = ?stem @ [95]"
    unfolding deviceStem_def take_baseEnd by (simp add: dropEndWhile_fixed)
  moreover have "toUpperCase u (?stem @ [95]) \<notin> set WINDOWS_RESERVED_DEVICE_NAMES"
    using reserved_names_shape [of "toUpperCase u ?stem @ [95]"] assms
    by (auto simp: upperKeepsUnderscore_def)
  ultimately have "suffixWindowsReservedDeviceName u ?y = ?y" by (simp add: suffix_eq [of u ?y])
  then show ?thesis by (simp add: y)
qed

text \<open>On names without separators or colons, the reserved-name test of \<open>device-path\<close> looks at
  the same stem.\<close>

lemma device_base_name_plain:
  assumes "\<forall>c \<in> set s. \<not> isWinSep c \<and> c \<noteq> COLON"
  shows "normalizeWindowsDeviceBaseName u s = toUpperCase u (deviceStem s)"
proof -
  have no: "SLASH \<notin> set s" "BACKSLASH \<notin> set s" "COLON \<notin> set s"
    using assms by (auto simp: isWinSep_def)
  have "trimTrailingWindowsSeparators s = s"
    using no(2) by (auto simp: trimTrailingWindowsSeparators_def intro!: dropEndWhile_fixed)
      (metis last_in_set)
  then have n: "trimTrailingWindowsSeparators (replaceChar SLASH BACKSLASH s) = s"
    using no(1) by (simp add: replaceChar_id)
  have "lastIndexOf s BACKSLASH = -1"
    using no(2) lastIndexOf_neg_iff [of s BACKSLASH] lastIndexOf_ge [of s BACKSLASH] by linarith
  moreover have "slice s 0 (nat (min (if indexOfFrom s COLON 0 < 0 then int (length s)
                       else indexOfFrom s COLON 0)
                     (if indexOfFrom s DOT 0 < 0 then int (length s) else indexOfFrom s DOT 0)))
        = takeWhile (\<lambda>x. x \<noteq> COLON \<and> x \<noteq> DOT) s"
    using slice_until_either [of 0 s COLON DOT] by simp
  moreover have "takeWhile (\<lambda>x. x \<noteq> COLON \<and> x \<noteq> DOT) s = takeWhile (\<lambda>x. x \<noteq> DOT) s"
    using no(3) by (intro takeWhile_cong) auto
  ultimately show ?thesis
    unfolding normalizeWindowsDeviceBaseName_def n Let_def deviceStem_def take_baseEnd
      trimTrailingWindowsIgnoredChars_def by (simp only: nat_0 add.left_inverse)
qed

subsection \<open>Sanitized names\<close>

text \<open>What a consumer of a sanitized name may rely on.\<close>

definition sanitizedName :: "unicode \<Rightarrow> jstr \<Rightarrow> bool" where
  "sanitizedName u s \<longleftrightarrow> s \<noteq> [] \<and> length s \<le> SANITIZED_FILE_NAME_CODE_UNITS \<and>
     s \<noteq> [DOT] \<and> s \<noteq> dotdot \<and> \<not> hasInvalidFileNameChar s \<and>
     suffixWindowsReservedDeviceName u s = s"

lemma bounded_sanitized: "isBoundedSanitizedFileName u s t \<longleftrightarrow> sanitizedName u s \<and> t = s"
  by (auto simp: isBoundedSanitizedFileName_def sanitizedName_def)

lemma set_truncate: "set (truncateCodeUnitsWithoutSplittingSurrogate v n) \<subseteq> set v"
  by (rule set_mono_prefix [OF truncate_prefix])

lemma not_dots_by_char:
  "c \<in> set s \<Longrightarrow> c \<noteq> DOT \<Longrightarrow> s \<noteq> [DOT] \<and> s \<noteq> dotdot"
  by auto

lemma not_dots_by_length: "3 \<le> length s \<Longrightarrow> s \<noteq> [DOT] \<and> s \<noteq> dotdot"
  by auto

lemma suffix_changed:
  "suffixWindowsReservedDeviceName u s \<noteq> s \<Longrightarrow>
     95 \<in> set (suffixWindowsReservedDeviceName u s)"
  using suffix_cases [of u s] by auto

lemma suffix_not_dots:
  "s \<noteq> [DOT] \<Longrightarrow> s \<noteq> dotdot \<Longrightarrow>
     suffixWindowsReservedDeviceName u s \<noteq> [DOT] \<and>
     suffixWindowsReservedDeviceName u s \<noteq> dotdot"
  by (cases "suffixWindowsReservedDeviceName u s = s")
     (use suffix_changed [of u s] not_dots_by_char [of 95] in auto)

lemma suffix_no_invalid:
  "\<not> hasInvalidFileNameChar s \<Longrightarrow> \<not> hasInvalidFileNameChar (suffixWindowsReservedDeviceName u s)"
proof -
  have "\<not> isInvalidFileNameChar 95" by (simp add: isInvalidFileNameChar_def)
  then show "\<not> hasInvalidFileNameChar s \<Longrightarrow> ?thesis"
    using suffix_set [of u s] by (auto simp: hasInvalidFileNameChar_def)
qed

lemma truncate_no_invalid:
  "\<not> hasInvalidFileNameChar s \<Longrightarrow>
     \<not> hasInvalidFileNameChar (truncateCodeUnitsWithoutSplittingSurrogate s n)"
  using set_truncate [of s n] by (auto simp: hasInvalidFileNameChar_def)

lemma truncate_not_dots:
  assumes "s \<noteq> [DOT]" "s \<noteq> dotdot" "3 < n"
  shows "truncateCodeUnitsWithoutSplittingSurrogate s n \<noteq> [DOT] \<and>
         truncateCodeUnitsWithoutSplittingSurrogate s n \<noteq> dotdot"
proof (cases "length s \<le> n")
  case True
  with assms show ?thesis by (simp add: truncateCodeUnitsWithoutSplittingSurrogate_def)
next
  case False
  then have "3 \<le> length (truncateCodeUnitsWithoutSplittingSurrogate s n)"
    using truncate_long [of n s] assms by simp
  then show ?thesis by (rule not_dots_by_length)
qed

lemma suffix_sanitized:
  assumes "upperKeepsUnderscore u" "s \<noteq> []" "s \<noteq> [DOT]" "s \<noteq> dotdot"
    "\<not> hasInvalidFileNameChar s" "length (suffixWindowsReservedDeviceName u s) \<le> 200"
  shows "sanitizedName u (suffixWindowsReservedDeviceName u s)"
  unfolding sanitizedName_def SANITIZED_FILE_NAME_CODE_UNITS_def
  using assms suffix_nonempty suffix_not_dots suffix_no_invalid suffix_idem by blast

lemma sanitizeTrimmed_sanitized:
  assumes u: "upperKeepsUnderscore u" and r: "sanitizeTrimmed u t = Some s"
  shows "sanitizedName u s"
proof -
  define base1 where "base1 = (if hasChar t SLASH then posixBasename t else t)"
  define base2 where "base2 = (if hasChar base1 BACKSLASH \<or> hasWindowsDrivePrefix base1 0
                               then win32Basename base1 else base1)"
  define base3 where "base3 = trim (filter (\<lambda>c. \<not> isInvalidFileNameChar c) base2)"
  define base where "base = truncateCodeUnitsWithoutSplittingSurrogate base3 200"
  define shorter where "shorter = truncateCodeUnitsWithoutSplittingSurrogate base 199"
  have r': "base3 \<noteq> [] \<and> base3 \<noteq> [DOT] \<and> base3 \<noteq> dotdot"
    "s = (if length (suffixWindowsReservedDeviceName u base) > 200
          then suffixWindowsReservedDeviceName u shorter
          else suffixWindowsReservedDeviceName u base)"
    using r unfolding sanitizeTrimmed_def Let_def base1_def [symmetric] base2_def [symmetric]
      base3_def [symmetric] SANITIZED_FILE_NAME_CODE_UNITS_def base_def [symmetric]
    by (auto simp: shorter_def split: if_splits)
  have clean: "\<not> hasInvalidFileNameChar base3"
    using set_trim [of "filter (\<lambda>c. \<not> isInvalidFileNameChar c) base2"]
    by (auto simp: base3_def hasInvalidFileNameChar_def)
  have b: "base \<noteq> [] \<and> base \<noteq> [DOT] \<and> base \<noteq> dotdot" "\<not> hasInvalidFileNameChar base"
    using r'(1) clean truncate_nonempty [of base3 200] truncate_not_dots [of base3 200]
    by (auto simp: base_def truncate_no_invalid)
  have sh: "shorter \<noteq> [] \<and> shorter \<noteq> [DOT] \<and> shorter \<noteq> dotdot" "\<not> hasInvalidFileNameChar shorter"
    using b truncate_nonempty [of base 199] truncate_not_dots [of base 199]
    by (auto simp: shorter_def truncate_no_invalid)
  have "length (suffixWindowsReservedDeviceName u shorter) \<le> 200"
    using suffix_length [of u shorter] truncate_length [of base 199] by (simp add: shorter_def)
  then have "sanitizedName u (suffixWindowsReservedDeviceName u shorter)"
    using sh by (intro suffix_sanitized [OF u]) auto
  moreover have "sanitizedName u (suffixWindowsReservedDeviceName u base)"
    if "length (suffixWindowsReservedDeviceName u base) \<le> 200"
    using b that by (intro suffix_sanitized [OF u]) auto
  ultimately show ?thesis by (simp add: r'(2))
qed

lemma sanitizeFileNameCandidate_sanitized:
  assumes "upperKeepsUnderscore u" "sanitizeFileNameCandidate u f = Some s"
  shows "sanitizedName u s"
  using assms sanitizeTrimmed_sanitized [of u "trim f" s]
  by (auto simp: sanitizeFileNameCandidate_def Let_def bounded_sanitized split: if_splits)

lemma fallback_sanitized: "sanitizedName u SAFE_FALLBACK_FILE_NAME"
proof -
  have "suffixWindowsReservedDeviceName u SAFE_FALLBACK_FILE_NAME = SAFE_FALLBACK_FILE_NAME"
    by (simp add: suffix_eq canStartWindowsDeviceName_def foldLetter_def charCodeAt_def
        SAFE_FALLBACK_FILE_NAME_def Let_def)
  then show ?thesis
    by (simp add: sanitizedName_def SAFE_FALLBACK_FILE_NAME_def hasInvalidFileNameChar_def
        isInvalidFileNameChar_def SANITIZED_FILE_NAME_CODE_UNITS_def)
qed

lemma lastPart_set: "set (lastPart sep p) \<subseteq> set p"
  using set_dropEndWhile [of sep p] by (auto simp: lastPart_def dest!: set_takeWhileD)

lemma posixBasename_set: "set (posixBasename p) \<subseteq> set p"
  unfolding posixBasename_def by (rule lastPart_set)

lemma win32Basename_set: "set (win32Basename p) \<subseteq> set p"
proof -
  have "set (lastPart isWinSep (drop 2 p)) \<subseteq> set p"
    using lastPart_set [of isWinSep "drop 2 p"] set_drop_subset [of 2 p] by blast
  then show ?thesis
    using lastPart_set [of isWinSep p] by (simp add: win32Basename_def)
qed

lemma no_retained_trimmed:
  assumes "\<not> hasRetainedFileNameChar t" "set b \<subseteq> set t"
  shows "trim (filter (\<lambda>c. \<not> isInvalidFileNameChar c) b) = []"
proof -
  have "\<forall>c \<in> set (filter (\<lambda>c. \<not> isInvalidFileNameChar c) b). isJsSpace c"
    using assms by (auto simp: hasRetainedFileNameChar_def)
  then have "dropWhile isJsSpace (filter (\<lambda>c. \<not> isInvalidFileNameChar c) b) = []"
    unfolding dropWhile_eq_Nil_conv .
  moreover have "dropEndWhile isJsSpace [] = []" by (simp add: dropEndWhile_def)
  ultimately show ?thesis unfolding trim_def by (rule subst [OF sym])
qed

lemma sanitized_no_separators:
  assumes "sanitizedName u s"
  shows "\<not> hasChar s SLASH \<and> \<not> hasChar s BACKSLASH \<and> COLON \<notin> set s"
  using assms by (auto simp: sanitizedName_def hasInvalidFileNameChar_def isInvalidFileNameChar_def
      hasChar_def)

lemma no_colon_no_drive: "COLON \<notin> set s \<Longrightarrow> \<not> hasWindowsDrivePrefix s 0"
  by (auto simp: hasWindowsDrivePrefix_def Let_def charCodeAt_def split: if_splits)
    (metis nth_mem)

lemma sanitizeTrimmed_fixed:
  assumes "sanitizedName u s" "trim s = s"
  shows "sanitizeTrimmed u s = Some s"
proof -
  have "filter (\<lambda>c. \<not> isInvalidFileNameChar c) s = s"
    using assms(1) by (intro filter_True) (auto simp: sanitizedName_def hasInvalidFileNameChar_def)
  then show ?thesis
    using assms sanitized_no_separators [OF assms(1)] no_colon_no_drive [of s]
    by (simp add: sanitizeTrimmed_def sanitizedName_def Let_def
        truncateCodeUnitsWithoutSplittingSurrogate_def)
qed

lemma sanitizeTrimmed_no_retained:
  assumes "\<not> hasRetainedFileNameChar t"
  shows "sanitizeTrimmed u t = None"
proof -
  define base1 where "base1 = (if hasChar t SLASH then posixBasename t else t)"
  define base2 where "base2 = (if hasChar base1 BACKSLASH \<or> hasWindowsDrivePrefix base1 0
                               then win32Basename base1 else base1)"
  have "set base2 \<subseteq> set t"
    using posixBasename_set [of t] win32Basename_set [of base1]
    by (auto simp: base1_def base2_def split: if_splits)
  from no_retained_trimmed [OF assms this] show ?thesis
    unfolding sanitizeTrimmed_def Let_def base1_def [symmetric] base2_def [symmetric] by simp
qed

subsection \<open>Fitting a name between a prefix and a suffix\<close>

lemma fitSearch_step:
  "low < high \<Longrightarrow> fitSearch fits low high =
     (if fits ((low + high + 1) div 2) then fitSearch fits ((low + high + 1) div 2) high
      else fitSearch fits low ((low + high + 1) div 2 - 1))"
  by (subst fitSearch.simps) (simp add: Let_def)

lemma fitSearch_done: "\<not> low < high \<Longrightarrow> fitSearch fits low high = low"
  by (simp add: fitSearch.simps)

lemma fitSearch_range:
  "low \<le> high \<Longrightarrow> low \<le> fitSearch fits low high \<and> fitSearch fits low high \<le> high"
proof (induction fits low high rule: fitSearch.induct)
  case (1 fits low high)
  let ?len = "(low + high + 1) div 2"
  show ?case
  proof (cases "low < high")
    case True
    then have len: "low < ?len" "?len \<le> high" by auto
    show ?thesis
    proof (cases "fits ?len")
      case fit: True
      have "?len \<le> fitSearch fits ?len high \<and> fitSearch fits ?len high \<le> high"
        using "1.IH"(1) [OF True refl fit len(2)] .
      then show ?thesis unfolding fitSearch_step [OF True] if_P [OF fit] using len by linarith
    next
      case unfit: False
      have "low \<le> fitSearch fits low (?len - 1) \<and> fitSearch fits low (?len - 1) \<le> ?len - 1"
        using "1.IH"(2) [OF True refl unfit] len by simp
      then show ?thesis unfolding fitSearch_step [OF True] if_not_P [OF unfit] using len by linarith
    qed
  next
    case False
    then show ?thesis using "1.prems" by (simp add: fitSearch_done)
  qed
qed

lemma fitSearch_fits: "fits low \<Longrightarrow> fits (fitSearch fits low high)"
proof (induction fits low high rule: fitSearch.induct)
  case (1 fits low high)
  then show ?case by (cases "low < high") (simp_all add: fitSearch_step fitSearch_done Let_def)
qed

lemma fitSearch_maximal:
  "low \<le> high \<Longrightarrow> fitSearch fits low high < high \<Longrightarrow> \<not> fits (fitSearch fits low high + 1)"
proof (induction fits low high rule: fitSearch.induct)
  case (1 fits low high)
  let ?len = "(low + high + 1) div 2"
  show ?case
  proof (cases "low < high \<and> fits ?len")
    case True
    then have "fitSearch fits low high = fitSearch fits ?len high" "?len \<le> high"
      by (simp_all add: fitSearch_step)
        linarith
    then show ?thesis using 1 True by (simp add: Let_def)
  next
    case False
    show ?thesis
    proof (cases "low < high")
      case True
      then have step: "fitSearch fits low high = fitSearch fits low (?len - 1)" "low \<le> ?len - 1" "0 < ?len"
        using False by (auto simp: fitSearch_step)
      show ?thesis
      proof (cases "fitSearch fits low (?len - 1) < ?len - 1")
        case True
        then show ?thesis using 1 False \<open>low < high\<close> step by (simp add: Let_def)
      next
        case at_top: False
        then have "fitSearch fits low (?len - 1) + 1 = ?len"
          using fitSearch_range [OF step(2), of fits] step(3) by linarith
        then show ?thesis using False \<open>low < high\<close> step(1) by simp
      qed
    next
      case False
      then show ?thesis using "1.prems" by (simp add: fitSearch_done)
    qed
  qed
qed

lemma concat_codePoints: "concat (codePoints s) = s"
  by (induction s rule: codePoints.induct) (auto simp: neq_Nil_conv)

lemma concat_take_codePoints: "prefix (concat (take n (codePoints s))) s"
  by (metis append_take_drop_id concat_append concat_codePoints prefixI)

subsection \<open>Properties\<close>

text \<open>C29: whatever untrusted name and fallback come in, the sanitizer answers a nonempty component
  of at most 200 code units that is neither a dot name nor contains a separator, colon, control
  or other invalid character, and that the device suffix leaves as it is.\<close>

theorem sanitizeUntrustedFileName_safe:
  assumes "upperKeepsUnderscore u"
  shows "sanitizedName u (sanitizeUntrustedFileName u fileName fallbackName)"
  using sanitizeFileNameCandidate_sanitized [OF assms] fallback_sanitized
  by (simp add: sanitizeUntrustedFileName_def split: option.split)

theorem sanitizeUntrustedFileName_safe_witness:
  "upperKeepsUnderscore asciiUnicode \<and>
   sanitizedName asciiUnicode (sanitizeUntrustedFileName asciiUnicode (js ''../con.txt'') []) \<and>
   sanitizeUntrustedFileName asciiUnicode (js ''../con.txt'') [] = js ''con_.txt''"
  using sanitizeUntrustedFileName_safe [of asciiUnicode "js ''../con.txt''" "[]"]
  by (simp add: sanitizeUntrustedFileName_def) code_simp

text \<open>The two shortcuts of the sanitizer, for names that are already clean and for names with
  nothing to keep, answer what the complete pipeline answers.\<close>

theorem sanitizer_shortcuts_agree:
  "sanitizeFileNameCandidate u fileName =
     (if trim fileName = [] then None else sanitizeTrimmed u (trim fileName))"
  using sanitizeTrimmed_fixed [of u fileName] sanitizeTrimmed_no_retained [of "trim fileName" u]
  by (auto simp: sanitizeFileNameCandidate_def Let_def bounded_sanitized)

text \<open>When prefix and suffix leave room, the fitted name gives a complete component of at most
  255 bytes in every normal form; it keeps the extension when that fits, and no longer stem
  (counted in code points) would fit at the next step.\<close>

theorem fitFileName_fits:
  assumes "normalizedFileNameBytes u (prefx @ suffx) \<le> PORTABLE_FILE_NAME_BYTES"
  shows "normalizedFileNameBytes u (prefx @ fitFileNameToPortableComponent h u prefx f suffx @ suffx)
           \<le> PORTABLE_FILE_NAME_BYTES \<and>
         (fitFileNameToPortableComponent h u prefx f suffx = f \<or>
          (\<exists>ext points n. ext \<in> {pathExtname h f, []} \<and>
             points = codePoints (take (length f - length ext) f) \<and> n \<le> length points \<and>
             fitFileNameToPortableComponent h u prefx f suffx = concat (take n points) @ ext \<and>
             \<not> (n < length points \<and>
                normalizedFileNameBytes u (prefx @ concat (take (n + 1) points) @ ext @ suffx)
                  \<le> PORTABLE_FILE_NAME_BYTES)))"
proof (cases "normalizedFileNameBytes u (prefx @ f @ suffx) \<le> PORTABLE_FILE_NAME_BYTES")
  case True
  then show ?thesis by (simp add: fitFileNameToPortableComponent_def)
next
  case False
  define keep where "keep \<longleftrightarrow> normalizedFileNameBytes u (prefx @ pathExtname h f @ suffx)
    \<le> PORTABLE_FILE_NAME_BYTES"
  define tl_s where "tl_s = (if keep then pathExtname h f else [])"
  define pts where "pts = codePoints (if keep then take (length f - length (pathExtname h f)) f else f)"
  have pts: "pts = codePoints (take (length f - length tl_s) f)" by (simp add: pts_def tl_s_def)
  define fits where "fits = (\<lambda>n. normalizedFileNameBytes u (prefx @ concat (take n pts) @ tl_s @ suffx)
    \<le> PORTABLE_FILE_NAME_BYTES)"
  define n where "n = fitSearch fits 0 (length pts)"
  have "fits 0" using assms by (simp add: fits_def tl_s_def keep_def)
  then have fit: "fits n" unfolding n_def by (rule fitSearch_fits)
  have r: "fitFileNameToPortableComponent h u prefx f suffx = concat (take n pts) @ tl_s"
    using False assms unfolding fitFileNameToPortableComponent_def Let_def keep_def [symmetric]
      tl_s_def [symmetric] pts_def [symmetric] fits_def [symmetric] n_def [symmetric] by simp
  have le: "n \<le> length pts"
    using fitSearch_range [of 0 "length pts" fits] by (simp add: n_def)
  have max: "\<not> (n < length pts \<and> fits (n + 1))"
    using fitSearch_maximal [of 0 "length pts" fits] unfolding n_def by blast
  have "tl_s \<in> {pathExtname h f, []}" by (simp add: tl_s_def)
  with r le max pts have "\<exists>ext points n. ext \<in> {pathExtname h f, []} \<and>
             points = codePoints (take (length f - length ext) f) \<and> n \<le> length points \<and>
             fitFileNameToPortableComponent h u prefx f suffx = concat (take n points) @ ext \<and>
             \<not> (n < length points \<and>
                normalizedFileNameBytes u (prefx @ concat (take (n + 1) points) @ ext @ suffx)
                  \<le> PORTABLE_FILE_NAME_BYTES)"
    unfolding fits_def by (intro exI conjI) (assumption | rule refl)+
  moreover have "normalizedFileNameBytes u
      (prefx @ fitFileNameToPortableComponent h u prefx f suffx @ suffx) \<le> PORTABLE_FILE_NAME_BYTES"
    using fit by (simp add: r fits_def)
  ultimately show ?thesis by (intro conjI disjI2)
qed

theorem fitFileName_fits_witness:
  "normalizedFileNameBytes asciiUnicode (js ''.tmp-'' @ js ''.part'') \<le> PORTABLE_FILE_NAME_BYTES \<and>
   normalizedFileNameBytes asciiUnicode (js ''.tmp-'' @
     fitFileNameToPortableComponent \<lparr>platform = Posix, cwd = js ''/'', win32Resolve = \<lambda>_. [],
         win32Normalize = \<lambda>p. p, win32Relative = \<lambda>a b. b\<rparr> asciiUnicode
       (js ''.tmp-'') (replicate 300 97 @ js ''.txt'') (js ''.part'') @ js ''.part'')
     \<le> PORTABLE_FILE_NAME_BYTES"
proof -
  have room: "normalizedFileNameBytes asciiUnicode (js ''.tmp-'' @ js ''.part'')
      \<le> PORTABLE_FILE_NAME_BYTES"
    by code_simp
  show ?thesis using fitFileName_fits [OF room] room by blast
qed

end
