(* ===== verification/Effects.thy ===== *)
theory Effects
  imports Prelude Complex_Main
begin

text \<open>
  JavaScript numbers and stateful operations.

  An option value that a caller supplies may be any number: \<open>jsnum\<close> has the two infinities,
  \<open>NaN\<close> and the finite values. Once the code has floored and range-checked such a value it is an
  \<open>int\<close>.

  A closure that keeps state between calls (a tracker, a budget, a planner) is a function from its
  state to a result and the next state. A thrown exception keeps the state as it was when it was
  thrown, as the variables of a closure keep theirs: that is what distinguishes \<open>bindS\<close> from a
  state update that is rolled back.
\<close>

subsection \<open>Numbers\<close>

datatype jsnum = NaN | PosInfinity | NegInfinity | Finite rat

definition isFiniteNum :: "jsnum \<Rightarrow> bool" where
  "isFiniteNum v = (case v of Finite _ \<Rightarrow> True | _ \<Rightarrow> False)"

definition MAX_SAFE_INTEGER :: int where
  "MAX_SAFE_INTEGER = 9007199254740991"

definition isSafeInteger :: "jsnum \<Rightarrow> bool" where
  "isSafeInteger v =
     (case v of Finite r \<Rightarrow> of_int \<lfloor>r\<rfloor> = r \<and> \<bar>r\<bar> \<le> of_int MAX_SAFE_INTEGER | _ \<Rightarrow> False)"

definition floorNum :: "jsnum \<Rightarrow> int" where
  "floorNum v = (case v of Finite r \<Rightarrow> \<lfloor>r\<rfloor> | _ \<Rightarrow> 0)"

text \<open>\<open>Math.max(0, Math.floor(v))\<close> as the number of leading elements that \<open>slice\<close> skips:
  \<open>None\<close> skips everything, and \<open>NaN\<close> skips nothing.\<close>

definition skipCount :: "jsnum \<Rightarrow> nat option" where
  "skipCount v =
     (case v of NaN \<Rightarrow> Some 0 | NegInfinity \<Rightarrow> Some 0 | PosInfinity \<Rightarrow> None
      | Finite r \<Rightarrow> Some (nat \<lfloor>r\<rfloor>))"

definition skipFirst :: "nat option \<Rightarrow> 'a list \<Rightarrow> 'a list" where
  "skipFirst n xs = (case n of None \<Rightarrow> [] | Some k \<Rightarrow> drop k xs)"

lemma skipFirst_suffix: "suffix (skipFirst n xs) xs"
  by (simp add: skipFirst_def suffix_drop split: option.split)

lemma set_skipFirst: "set (skipFirst n xs) \<subseteq> set xs"
  by (auto simp: skipFirst_def split: option.splits dest: in_set_dropD)

lemma isSafeInteger_int [simp]: "isSafeInteger (Finite (of_int n)) \<longleftrightarrow> \<bar>n\<bar> \<le> MAX_SAFE_INTEGER"
proof -
  have "\<bar>of_int n :: rat\<bar> = of_int \<bar>n\<bar>" by simp
  then show ?thesis by (simp only: isSafeInteger_def jsnum.case floor_of_int of_int_le_iff simp_thms)
qed

lemma floorNum_int [simp]: "floorNum (Finite (of_int n)) = n"
  by (simp add: floorNum_def)

subsection \<open>Operations on a state that may throw\<close>

type_synonym ('s, 'e, 'a) op = "'s \<Rightarrow> ('e + 'a) \<times> 's"

definition returnS :: "'a \<Rightarrow> ('s, 'e, 'a) op" where
  "returnS x = (\<lambda>s. (Inr x, s))"

definition liftS :: "'e + 'a \<Rightarrow> ('s, 'e, 'a) op" where
  "liftS r = (\<lambda>s. (r, s))"

definition updateS :: "('s \<Rightarrow> 's) \<Rightarrow> ('s, 'e, unit) op" where
  "updateS f = (\<lambda>s. (Inr (), f s))"

definition throwWhen :: "('s \<Rightarrow> bool) \<Rightarrow> 'e \<Rightarrow> ('s, 'e, unit) op" where
  "throwWhen b e = (\<lambda>s. (if b s then Inl e else Inr (), s))"

definition bindS :: "('s, 'e, 'a) op \<Rightarrow> ('a \<Rightarrow> ('s, 'e, 'b) op) \<Rightarrow> ('s, 'e, 'b) op" where
  "bindS m f = (\<lambda>s. case m s of (Inl e, s') \<Rightarrow> (Inl e, s') | (Inr x, s') \<Rightarrow> f x s')"

text \<open>An operation on one part of a larger state.\<close>

definition zoomS :: "('t \<Rightarrow> 's) \<Rightarrow> ('s \<Rightarrow> 't \<Rightarrow> 't) \<Rightarrow> ('s, 'e, 'a) op \<Rightarrow> ('t, 'e, 'a) op" where
  "zoomS get put m = (\<lambda>t. case m (get t) of (r, s) \<Rightarrow> (r, put s t))"

lemma zoomS_ok [simp, guards]:
  "zoomS get put m s = (Inr y, t) \<longleftrightarrow> (\<exists>s'. m (get s) = (Inr y, s') \<and> t = put s' s)"
  by (auto simp: zoomS_def split: prod.splits)

lemma bindS_ok [guards]:
  "bindS m f s = (Inr y, t) \<longleftrightarrow> (\<exists>x s'. m s = (Inr x, s') \<and> f x s' = (Inr y, t))"
  by (auto simp: bindS_def split: prod.splits sum.splits)

lemma returnS_ok [simp, guards]: "returnS x s = (Inr y, t) \<longleftrightarrow> y = x \<and> t = s"
  by (auto simp: returnS_def)

lemma liftS_ok [simp, guards]: "liftS r s = (Inr y, t) \<longleftrightarrow> r = Inr y \<and> t = s"
  by (auto simp: liftS_def)

lemma updateS_ok [simp, guards]: "updateS f s = (Inr u, t) \<longleftrightarrow> t = f s"
  by (auto simp: updateS_def)

lemma throwWhen_ok [simp, guards]: "throwWhen b e s = (Inr u, t) \<longleftrightarrow> \<not> b s \<and> t = s"
  by (auto simp: throwWhen_def)

text \<open>Running an operation from a state of its own: the result and the last state, or the error.\<close>

definition execS :: "('s, 'e, 'a) op \<Rightarrow> 's \<Rightarrow> 'e + ('a \<times> 's)" where
  "execS m s = (case m s of (Inl e, _) \<Rightarrow> Inl e | (Inr x, t) \<Rightarrow> Inr (x, t))"

lemma execS_ok [simp, guards]: "execS m s = Inr r \<longleftrightarrow> m s = (Inr (fst r), snd r)"
  by (cases r) (auto simp: execS_def split: prod.splits sum.splits)

text \<open>A caller that applies an operation to one item after another and stops at a throw.\<close>

fun runAll :: "('x \<Rightarrow> ('s, 'e, 'a) op) \<Rightarrow> 'x list \<Rightarrow> ('s, 'e, 'a list) op" where
  "runAll step [] = returnS []"
| "runAll step (x # xs) = bindS (step x) (\<lambda>y. bindS (runAll step xs) (\<lambda>ys. returnS (y # ys)))"

lemma runAll_Cons_ok [simp, guards]:
  "runAll step (x # xs) s = (Inr zs, t) \<longleftrightarrow>
     (\<exists>y ys s'. step x s = (Inr y, s') \<and> runAll step xs s' = (Inr ys, t) \<and> zs = y # ys)"
  by (auto simp: bindS_ok)

declare runAll.simps(2) [simp del]

lemma runAll_length: "runAll step xs s = (Inr ys, t) \<Longrightarrow> length ys = length xs"
  by (induction xs arbitrary: s ys) auto

lemma runAll_invariant:
  "runAll step xs s = (Inr ys, t) \<Longrightarrow> P s \<Longrightarrow>
   (\<And>x s y t. step x s = (Inr y, t) \<Longrightarrow> P s \<Longrightarrow> P t) \<Longrightarrow> P t"
proof (induction xs arbitrary: s ys)
  case (Cons x xs)
  then obtain y s' zs where "step x s = (Inr y, s')" "runAll step xs s' = (Inr zs, t)" by auto
  with Cons show ?case by blast
qed simp

subsection \<open>Exceptions and what an operation keeps\<close>

text \<open>\<open>tryS m h k\<close> runs \<open>m\<close>, then \<open>k\<close> on its value or \<open>h\<close> on what it threw: a \<open>try\<close> whose
  \<open>catch\<close> returns from the function. \<open>finallyS\<close> runs its second operation in both cases, and what that
  one throws wins.\<close>

definition throwS :: "'e \<Rightarrow> ('s, 'e, 'a) op" where
  "throwS e = liftS (Inl e)"

lemma throwS_not_ok [simp, guards]: "throwS e s \<noteq> (Inr x, t)"
  by (simp add: throwS_def)

definition tryS :: "('s, 'e, 'a) op \<Rightarrow> ('e \<Rightarrow> ('s, 'e, 'b) op) \<Rightarrow> ('a \<Rightarrow> ('s, 'e, 'b) op) \<Rightarrow> ('s, 'e, 'b) op" where
  "tryS m h k = (\<lambda>s. case m s of (Inl e, t) \<Rightarrow> h e t | (Inr x, t) \<Rightarrow> k x t)"

definition finallyS :: "('s, 'e, 'a) op \<Rightarrow> ('s, 'e, unit) op \<Rightarrow> ('s, 'e, 'a) op" where
  "finallyS m f = (\<lambda>s. case m s of (r, t) \<Rightarrow> (case f t of (Inl e, u) \<Rightarrow> (Inl e, u) | (Inr _, u) \<Rightarrow> (r, u)))"

text \<open>A triple: from a state in \<open>P\<close>, a value and its state are in \<open>Q\<close>, a throw and its state in \<open>E\<close>.\<close>

definition triple ::
    "('s \<Rightarrow> bool) \<Rightarrow> ('s, 'e, 'a) op \<Rightarrow> ('a \<Rightarrow> 's \<Rightarrow> bool) \<Rightarrow> ('e \<Rightarrow> 's \<Rightarrow> bool) \<Rightarrow> bool" where
  "triple P m Q E \<longleftrightarrow> (\<forall>s. P s \<longrightarrow> (case m s of (Inl e, t) \<Rightarrow> E e t | (Inr x, t) \<Rightarrow> Q x t))"

definition keeps :: "('s \<Rightarrow> bool) \<Rightarrow> ('s, 'e, 'a) op \<Rightarrow> bool" where
  "keeps I m \<longleftrightarrow> triple I m (\<lambda>_. I) (\<lambda>_. I)"

lemma triple_run:
  assumes "triple P m Q E" "P s" "m s = (r, t)"
  shows "case r of Inl e \<Rightarrow> E e t | Inr x \<Rightarrow> Q x t"
  using assms by (fastforce simp: triple_def split: sum.splits)

lemma triple_weaken:
  "triple P m Q E \<Longrightarrow> (\<And>s. P' s \<Longrightarrow> P s) \<Longrightarrow> (\<And>x s. Q x s \<Longrightarrow> Q' x s) \<Longrightarrow> (\<And>e s. E e s \<Longrightarrow> E' e s) \<Longrightarrow>
   triple P' m Q' E'"
  by (fastforce simp: triple_def split: prod.splits sum.splits)

lemma triple_bind:
  "triple P m R E \<Longrightarrow> (\<And>x. triple (R x) (f x) Q E) \<Longrightarrow> triple P (bindS m f) Q E"
  by (fastforce simp: triple_def bindS_def split: prod.splits sum.splits)

lemma triple_try:
  "triple P m R F \<Longrightarrow> (\<And>e. triple (F e) (h e) Q E) \<Longrightarrow> (\<And>x. triple (R x) (k x) Q E) \<Longrightarrow> triple P (tryS m h k) Q E"
  by (fastforce simp: triple_def tryS_def split: prod.splits sum.splits)

lemma triple_finally:
  "triple P m R F \<Longrightarrow> (\<And>x. triple (R x) f (\<lambda>_. Q x) E) \<Longrightarrow> (\<And>e. triple (F e) f (\<lambda>_. E e) E) \<Longrightarrow>
   triple P (finallyS m f) Q E"
  by (fastforce simp: triple_def finallyS_def split: prod.splits sum.splits)

lemma triple_return: "(\<And>s. P s \<Longrightarrow> Q x s) \<Longrightarrow> triple P (returnS x) Q E"
  by (simp add: triple_def returnS_def)

lemma triple_throw: "(\<And>s. P s \<Longrightarrow> E e s) \<Longrightarrow> triple P (throwS e) Q E"
  by (simp add: triple_def throwS_def liftS_def)

lemma triple_update: "(\<And>s. P s \<Longrightarrow> Q () (f s)) \<Longrightarrow> triple P (updateS f) Q E"
  by (simp add: triple_def updateS_def)

lemma triple_throwWhen:
  "(\<And>s. P s \<Longrightarrow> b s \<Longrightarrow> E e s) \<Longrightarrow> (\<And>s. P s \<Longrightarrow> \<not> b s \<Longrightarrow> Q () s) \<Longrightarrow> triple P (throwWhen b e) Q E"
  by (simp add: triple_def throwWhen_def)

lemma triple_lift:
  "(\<And>s x. P s \<Longrightarrow> r = Inr x \<Longrightarrow> Q x s) \<Longrightarrow> (\<And>s e. P s \<Longrightarrow> r = Inl e \<Longrightarrow> E e s) \<Longrightarrow> triple P (liftS r) Q E"
  by (cases r) (simp_all add: triple_def liftS_def)

named_theorems keeping \<open>what keeps an invariant\<close>

lemma keeps_basic [keeping, intro]:
  "keeps I (returnS x)" "keeps I (throwS e)" "keeps I (throwWhen b e)" "keeps I (liftS r)"
  by (auto simp: keeps_def triple_def returnS_def throwS_def throwWhen_def liftS_def split: sum.splits)

lemma keeps_update [intro]: "(\<And>s. I s \<Longrightarrow> I (f s)) \<Longrightarrow> keeps I (updateS f)"
  by (auto simp: keeps_def triple_def updateS_def)

lemma keeps_bind [keeping, intro]: "keeps I m \<Longrightarrow> (\<And>x. keeps I (f x)) \<Longrightarrow> keeps I (bindS m f)"
  by (auto simp: keeps_def intro: triple_bind)

lemma keeps_try [keeping, intro]:
  "keeps I m \<Longrightarrow> (\<And>e. keeps I (h e)) \<Longrightarrow> (\<And>x. keeps I (k x)) \<Longrightarrow> keeps I (tryS m h k)"
  by (auto simp: keeps_def intro: triple_try)

lemma keeps_finally [keeping, intro]: "keeps I m \<Longrightarrow> keeps I f \<Longrightarrow> keeps I (finallyS m f)"
  by (auto simp: keeps_def intro: triple_finally)

lemma keeps_if [keeping, intro]: "keeps I m \<Longrightarrow> keeps I n \<Longrightarrow> keeps I (if b then m else n)"
  by simp

lemma keeps_case_option [keeping, intro]:
  "keeps I m \<Longrightarrow> (\<And>x. keeps I (f x)) \<Longrightarrow> keeps I (case v of None \<Rightarrow> m | Some x \<Rightarrow> f x)"
  by (cases v) auto

lemma keeps_triple: "keeps I m \<Longrightarrow> triple I m (\<lambda>_. I) (\<lambda>_. I)"
  by (simp add: keeps_def)

subsection \<open>Contract of a tracker\<close>

text \<open>
  A tracker admits items one by one. What it guarantees of everything admitted so far is a
  relation between the admitted history and its state, kept by every call that does not throw.
  The history pairs every item with the answer it got.
\<close>

locale tracker =
  fixes step :: "'x \<Rightarrow> ('s, 'e, 'a) op"
    and start :: 's
    and history :: "('x \<times> 'a) list \<Rightarrow> 's \<Rightarrow> bool"
  assumes history_start: "history [] start"
    and history_step: "history h s \<Longrightarrow> step x s = (Inr y, t) \<Longrightarrow> history (h @ [(x, y)]) t"
begin

lemma history_run_from:
  "history h s \<Longrightarrow> runAll step xs s = (Inr ys, t) \<Longrightarrow> history (h @ zip xs ys) t"
proof (induction xs arbitrary: h s ys)
  case Nil
  then show ?case by simp
next
  case (Cons x xs)
  then obtain y zs s' where s: "step x s = (Inr y, s')" "runAll step xs s' = (Inr zs, t)" "ys = y # zs"
    unfolding runAll_Cons_ok by blast
  have "history ((h @ [(x, y)]) @ zip xs zs) t"
    using Cons.IH [OF history_step [OF Cons.prems(1) s(1)] s(2)] .
  then show ?case by (simp add: s(3))
qed

lemma history_run: "runAll step xs start = (Inr ys, t) \<Longrightarrow> history (zip xs ys) t"
  using history_run_from [OF history_start] by simp

end

end
