(* ===== verification/ArchiveLimits.thy ===== *)
theory ArchiveLimits
  imports Effects Errors
begin

text \<open>
  Archive resource limits (\<open>src/archive-limits.ts\<close>): the options a caller may give, their
  defaults, the limits of the TAR meter derived from them, and the byte budget that extraction
  charges. Byte counts that reach the budget are integers: buffer lengths, or declared sizes that
  were checked to be safe integers. Sums of such counts are exact below \<open>2 ^ 53\<close>, where every
  budget that can be exceeded at all is decided.
\<close>

record archive_limits =
  maxArchiveBytes :: "jsnum option"
  maxEntries :: "jsnum option"
  maxExtractedBytes :: "jsnum option"
  maxEntryBytes :: "jsnum option"
  maxMetaEntryBytes :: "jsnum option"
  maxEntryPathComponents :: "jsnum option"

record resolved_limits =
  limArchiveBytes :: int
  limEntries :: int
  limExtractedBytes :: int
  limEntryBytes :: int
  limMetaEntryBytes :: int
  limEntryPathComponents :: int

definition DEFAULT_MAX_ARCHIVE_BYTES_ZIP :: int where
  "DEFAULT_MAX_ARCHIVE_BYTES_ZIP = 256 * 1024 * 1024"

definition DEFAULT_MAX_ENTRIES :: int where
  "DEFAULT_MAX_ENTRIES = 50000"

definition DEFAULT_MAX_EXTRACTED_BYTES :: int where
  "DEFAULT_MAX_EXTRACTED_BYTES = 512 * 1024 * 1024"

definition DEFAULT_MAX_ENTRY_BYTES :: int where
  "DEFAULT_MAX_ENTRY_BYTES = 256 * 1024 * 1024"

definition DEFAULT_MAX_META_ENTRY_BYTES :: int where
  "DEFAULT_MAX_META_ENTRY_BYTES = 1024 * 1024"

definition DEFAULT_MAX_ENTRY_PATH_COMPONENTS :: int where
  "DEFAULT_MAX_ENTRY_PATH_COMPONENTS = 256"

definition MAX_TAR_MANIFEST_BYTES :: int where
  "MAX_TAR_MANIFEST_BYTES = 64 * 1024 * 1024"

fun archiveLimitMessage :: "archive_limit_code \<Rightarrow> string" where
  "archiveLimitMessage ARCHIVE_SIZE_EXCEEDS_LIMIT = ''archive size exceeds limit''"
| "archiveLimitMessage ENTRY_COUNT_EXCEEDS_LIMIT = ''archive entry count exceeds limit''"
| "archiveLimitMessage ENTRY_EXTRACTED_SIZE_EXCEEDS_LIMIT =
     ''archive entry extracted size exceeds limit''"
| "archiveLimitMessage EXTRACTED_SIZE_EXCEEDS_LIMIT = ''archive extracted size exceeds limit''"
| "archiveLimitMessage DECODED_SIZE_EXCEEDS_LIMIT = ''archive decoded size exceeds limit''"
| "archiveLimitMessage META_ENTRY_SIZE_EXCEEDS_LIMIT =
     ''archive metadata entry size exceeds limit''"
| "archiveLimitMessage MANIFEST_SIZE_EXCEEDS_LIMIT = ''archive manifest size exceeds limit''"
| "archiveLimitMessage ENTRY_PATH_COMPONENTS_EXCEEDS_LIMIT =
     ''archive entry path components exceed limit''"

definition clampLimit :: "jsnum option \<Rightarrow> int option" where
  "clampLimit v =
     (case v of
        Some (Finite r) \<Rightarrow> (let f = \<lfloor>r\<rfloor> in if f \<ge> 0 then Some f else None)
      | _ \<Rightarrow> None)"

definition orDefault :: "int option \<Rightarrow> int \<Rightarrow> int" where
  "orDefault v d = (case v of None \<Rightarrow> d | Some x \<Rightarrow> x)"

definition resolveExtractLimits :: "archive_limits option \<Rightarrow> resolved_limits" where
  "resolveExtractLimits limits =
     (let get = (\<lambda>f. Option.bind limits (\<lambda>l. clampLimit (f l)))
      in \<lparr>limArchiveBytes = orDefault (get maxArchiveBytes) DEFAULT_MAX_ARCHIVE_BYTES_ZIP,
          limEntries = orDefault (get maxEntries) DEFAULT_MAX_ENTRIES,
          limExtractedBytes = orDefault (get maxExtractedBytes) DEFAULT_MAX_EXTRACTED_BYTES,
          limEntryBytes = orDefault (get maxEntryBytes) DEFAULT_MAX_ENTRY_BYTES,
          limMetaEntryBytes = orDefault (get maxMetaEntryBytes) DEFAULT_MAX_META_ENTRY_BYTES,
          limEntryPathComponents =
            orDefault (get maxEntryPathComponents) DEFAULT_MAX_ENTRY_PATH_COMPONENTS\<rparr>)"

record tar_meter_limits =
  meterEntries :: int
  meterMetaEntryBytes :: int
  meterManifestBytes :: int
  meterDecodedBytes :: int

definition resolveTarMeterLimits :: "archive_limits option \<Rightarrow> tar_meter_limits" where
  "resolveTarMeterLimits options =
     (let limits = resolveExtractLimits options;
          payload = min (limExtractedBytes limits) MAX_SAFE_INTEGER;
          overhead = min (limArchiveBytes limits) MAX_SAFE_INTEGER;
          pathBytes = max 256 (min (limMetaEntryBytes limits)
            (min (max 1 (limEntryPathComponents limits)) (MAX_TAR_MANIFEST_BYTES div 256) * 256));
          perEntry = 64 + 2 * pathBytes;
          manifestBytes =
            (if limEntries limits > MAX_TAR_MANIFEST_BYTES div perEntry
             then MAX_TAR_MANIFEST_BYTES else limEntries limits * perEntry)
      in \<lparr>meterEntries = min (limEntries limits) 0xffffffff,
          meterMetaEntryBytes = min (limMetaEntryBytes limits) MAX_SAFE_INTEGER,
          meterManifestBytes = manifestBytes,
          meterDecodedBytes =
            (if payload > MAX_SAFE_INTEGER - overhead then MAX_SAFE_INTEGER
             else payload + overhead)\<rparr>)"

text \<open>\<open>entryPath.split(/[\\/]+/)\<close> and the filter that drops empty and \<open>.\<close> components: runs of
  separators only produce empty components, which the filter drops.\<close>

definition countedComponents :: "jstr \<Rightarrow> jstr list" where
  "countedComponents entryPath =
     filter (\<lambda>c. length c > 0 \<and> c \<noteq> [DOT]) (splitOn SLASH (replaceChar BACKSLASH SLASH entryPath))"

definition assertArchiveEntryPathComponentsWithinLimit ::
    "jstr \<Rightarrow> resolved_limits \<Rightarrow> error + unit" where
  "assertArchiveEntryPathComponentsWithinLimit entryPath limits =
     throwIf (int (length (countedComponents entryPath)) > limEntryPathComponents limits)
       (ArchiveLimit ENTRY_PATH_COMPONENTS_EXCEEDS_LIMIT)"

definition assertArchiveEntryCountWithinLimit :: "int \<Rightarrow> resolved_limits \<Rightarrow> error + unit" where
  "assertArchiveEntryCountWithinLimit entryCount limits =
     throwIf (entryCount > limEntries limits) (ArchiveLimit ENTRY_COUNT_EXCEEDS_LIMIT)"

subsection \<open>The byte budget\<close>

record byte_budget =
  entryBytes :: int
  extractedBytes :: int

definition createByteBudgetTracker :: byte_budget where
  "createByteBudgetTracker = \<lparr>entryBytes = 0, extractedBytes = 0\<rparr>"

definition startEntry :: "(byte_budget, error, unit) op" where
  "startEntry = updateS (\<lambda>s. s\<lparr>entryBytes := 0\<rparr>)"

definition addBytes :: "resolved_limits \<Rightarrow> int \<Rightarrow> (byte_budget, error, unit) op" where
  "addBytes limits bytes =
     (let b = max 0 bytes in
      if b = 0 then returnS ()
      else bindS (updateS (\<lambda>s. s\<lparr>entryBytes := entryBytes s + b\<rparr>)) (\<lambda>_.
           bindS (throwWhen (\<lambda>s. entryBytes s > limEntryBytes limits)
                    (ArchiveLimit ENTRY_EXTRACTED_SIZE_EXCEEDS_LIMIT)) (\<lambda>_.
           bindS (updateS (\<lambda>s. s\<lparr>extractedBytes := extractedBytes s + b\<rparr>)) (\<lambda>_.
             throwWhen (\<lambda>s. extractedBytes s > limExtractedBytes limits)
               (ArchiveLimit EXTRACTED_SIZE_EXCEEDS_LIMIT)))))"

definition addEntrySize :: "resolved_limits \<Rightarrow> int \<Rightarrow> (byte_budget, error, unit) op" where
  "addEntrySize limits size_of =
     (let s = max 0 size_of in
      bindS (throwWhen (\<lambda>_. s > limEntryBytes limits)
               (ArchiveLimit ENTRY_EXTRACTED_SIZE_EXCEEDS_LIMIT)) (\<lambda>_.
        addBytes limits s))"

text \<open>One entry whose size is declared, and one whose bytes arrive in chunks.\<close>

definition chargeDeclared :: "resolved_limits \<Rightarrow> int \<Rightarrow> (byte_budget, error, unit) op" where
  "chargeDeclared limits size_of = bindS startEntry (\<lambda>_. addEntrySize limits size_of)"

definition chargeStream :: "resolved_limits \<Rightarrow> int list \<Rightarrow> (byte_budget, error, unit list) op" where
  "chargeStream limits chunks = bindS startEntry (\<lambda>_. runAll (addBytes limits) chunks)"

subsection \<open>Facts\<close>

definition nonnegLimits :: "resolved_limits \<Rightarrow> bool" where
  "nonnegLimits l \<longleftrightarrow> 0 \<le> limArchiveBytes l \<and> 0 \<le> limEntries l \<and> 0 \<le> limExtractedBytes l \<and>
     0 \<le> limEntryBytes l \<and> 0 \<le> limMetaEntryBytes l \<and> 0 \<le> limEntryPathComponents l"

lemma clampLimit_nonneg: "clampLimit v = Some x \<Longrightarrow> 0 \<le> x"
  by (auto simp: clampLimit_def Let_def split: option.splits jsnum.splits if_splits)

lemma orDefault_nonneg: "(\<And>x. v = Some x \<Longrightarrow> 0 \<le> x) \<Longrightarrow> 0 \<le> d \<Longrightarrow> 0 \<le> orDefault v d"
  by (cases v) (auto simp: orDefault_def)

lemma bind_clampLimit_nonneg: "Option.bind l (\<lambda>l. clampLimit (f l)) = Some x \<Longrightarrow> 0 \<le> x"
  by (cases l) (auto dest: clampLimit_nonneg)

lemma resolveExtractLimits_nonneg: "nonnegLimits (resolveExtractLimits l)"
  unfolding nonnegLimits_def resolveExtractLimits_def Let_def
  by (simp, intro conjI; rule orDefault_nonneg, erule bind_clampLimit_nonneg)
     (simp_all add: DEFAULT_MAX_ARCHIVE_BYTES_ZIP_def DEFAULT_MAX_ENTRIES_def
      DEFAULT_MAX_EXTRACTED_BYTES_def DEFAULT_MAX_ENTRY_BYTES_def DEFAULT_MAX_META_ENTRY_BYTES_def
      DEFAULT_MAX_ENTRY_PATH_COMPONENTS_def)

lemma addBytes_ok:
  "addBytes limits b s = (Inr u, t) \<longleftrightarrow>
     (if b \<le> 0 then t = s
      else entryBytes s + b \<le> limEntryBytes limits \<and>
           extractedBytes s + b \<le> limExtractedBytes limits \<and>
           t = \<lparr>entryBytes = entryBytes s + b, extractedBytes = extractedBytes s + b\<rparr>)"
  by (cases s; cases t) (auto simp: addBytes_def Let_def guards max_def)

lemma addBytes_throw:
  "0 < b \<Longrightarrow> addBytes limits b s =
     (if entryBytes s + b > limEntryBytes limits
      then (Inl (ArchiveLimit ENTRY_EXTRACTED_SIZE_EXCEEDS_LIMIT),
            s\<lparr>entryBytes := entryBytes s + b\<rparr>)
      else (if extractedBytes s + b > limExtractedBytes limits
            then Inl (ArchiveLimit EXTRACTED_SIZE_EXCEEDS_LIMIT) else Inr (),
            \<lparr>entryBytes = entryBytes s + b, extractedBytes = extractedBytes s + b\<rparr>))"
  by (cases s) (auto simp: addBytes_def Let_def bindS_def updateS_def throwWhen_def)

lemma chargeDeclared_ok:
  "chargeDeclared limits n s = (Inr u, t) \<longleftrightarrow>
     max 0 n \<le> limEntryBytes limits \<and>
     (n \<le> 0 \<or> extractedBytes s + n \<le> limExtractedBytes limits) \<and>
     t = \<lparr>entryBytes = max 0 n, extractedBytes = extractedBytes s + max 0 n\<rparr>"
  by (cases s; cases t)
     (auto simp: chargeDeclared_def startEntry_def addEntrySize_def Let_def guards addBytes_ok max_def)

lemma addBytes_run_ok:
  "\<forall>b \<in> set bs. 0 \<le> b \<Longrightarrow> entryBytes s \<le> limEntryBytes limits \<Longrightarrow>
     extractedBytes s \<le> limExtractedBytes limits \<Longrightarrow>
   (\<exists>us. runAll (addBytes limits) bs s = (Inr us, t)) \<longleftrightarrow>
     entryBytes s + sum_list bs \<le> limEntryBytes limits \<and>
     extractedBytes s + sum_list bs \<le> limExtractedBytes limits \<and>
     t = \<lparr>entryBytes = entryBytes s + sum_list bs, extractedBytes = extractedBytes s + sum_list bs\<rparr>"
proof (induction bs arbitrary: s)
  case Nil
  then show ?case by (cases s) auto
next
  case (Cons b bs)
  have nn: "0 \<le> sum_list bs" using Cons.prems(1) by (simp add: sum_list_nonneg)
  show ?case
  proof (cases "b = 0")
    case True
    then have "addBytes limits b s = (Inr (), s)" by (simp add: addBytes_ok)
    then show ?thesis using Cons True by auto
  next
    case False
    then have b: "0 < b" using Cons.prems(1) by force
    let ?s = "\<lparr>entryBytes = entryBytes s + b, extractedBytes = extractedBytes s + b\<rparr>"
    have "(\<exists>us. runAll (addBytes limits) (b # bs) s = (Inr us, t)) \<longleftrightarrow>
        entryBytes ?s \<le> limEntryBytes limits \<and> extractedBytes ?s \<le> limExtractedBytes limits \<and>
        (\<exists>us. runAll (addBytes limits) bs ?s = (Inr us, t))"
      using b by (auto simp: addBytes_ok)
    also have "\<dots> \<longleftrightarrow> entryBytes ?s \<le> limEntryBytes limits \<and> extractedBytes ?s \<le> limExtractedBytes limits \<and>
        entryBytes ?s + sum_list bs \<le> limEntryBytes limits \<and>
        extractedBytes ?s + sum_list bs \<le> limExtractedBytes limits \<and>
        t = \<lparr>entryBytes = entryBytes ?s + sum_list bs, extractedBytes = extractedBytes ?s + sum_list bs\<rparr>"
      using Cons.IH [of ?s] Cons.prems(1) by auto
    also have "\<dots> \<longleftrightarrow> entryBytes s + sum_list (b # bs) \<le> limEntryBytes limits \<and>
        extractedBytes s + sum_list (b # bs) \<le> limExtractedBytes limits \<and>
        t = \<lparr>entryBytes = entryBytes s + sum_list (b # bs), extractedBytes = extractedBytes s + sum_list (b # bs)\<rparr>"
      using nn by auto
    finally show ?thesis .
  qed
qed

lemma chargeStream_ok:
  assumes "nonnegLimits limits" "\<forall>b \<in> set bs. 0 \<le> b" "extractedBytes s \<le> limExtractedBytes limits"
  shows "(\<exists>us. chargeStream limits bs s = (Inr us, t)) \<longleftrightarrow>
     sum_list bs \<le> limEntryBytes limits \<and>
     extractedBytes s + sum_list bs \<le> limExtractedBytes limits \<and>
     t = \<lparr>entryBytes = sum_list bs, extractedBytes = extractedBytes s + sum_list bs\<rparr>"
proof -
  have "(\<exists>us. chargeStream limits bs s = (Inr us, t)) \<longleftrightarrow>
      (\<exists>us. runAll (addBytes limits) bs (s\<lparr>entryBytes := 0\<rparr>) = (Inr us, t))"
    by (simp add: chargeStream_def startEntry_def guards)
  then show ?thesis
    using addBytes_run_ok [of bs "s\<lparr>entryBytes := 0\<rparr>" limits t] assms by (simp add: nonnegLimits_def)
qed

text \<open>The contract of the budget, and the tracker it gives.\<close>

definition budgetHistory :: "resolved_limits \<Rightarrow> (int \<times> unit) list \<Rightarrow> byte_budget \<Rightarrow> bool" where
  "budgetHistory limits h s \<longleftrightarrow>
     extractedBytes s = sum_list (map (\<lambda>p. max 0 (fst p)) h) \<and>
     (\<forall>p \<in> set h. max 0 (fst p) \<le> limEntryBytes limits) \<and>
     (h = [] \<or> extractedBytes s \<le> max 0 (limExtractedBytes limits))"

interpretation budget: tracker "chargeDeclared limits" createByteBudgetTracker "budgetHistory limits"
  for limits
proof
  show "budgetHistory limits [] createByteBudgetTracker"
    by (simp add: budgetHistory_def createByteBudgetTracker_def)
next
  fix h s x y t
  assume a: "budgetHistory limits h s" "chargeDeclared limits x s = (Inr y, t)"
  have t: "extractedBytes t = extractedBytes s + max 0 x" "max 0 x \<le> limEntryBytes limits"
    using a(2) by (auto simp: chargeDeclared_ok)
  have "extractedBytes t \<le> max 0 (limExtractedBytes limits)"
  proof (cases "x \<le> 0")
    case True
    then have e: "extractedBytes t = extractedBytes s" using t by simp
    show ?thesis
    proof (cases "h = []")
      case True
      then show ?thesis using a(1) e by (simp add: budgetHistory_def)
    next
      case False
      then show ?thesis using a(1) e by (simp add: budgetHistory_def)
    qed
  next
    case False
    then show ?thesis using a(2) by (auto simp: chargeDeclared_ok)
  qed
  then show "budgetHistory limits (h @ [(x, y)]) t"
    using a(1) t by (auto simp: budgetHistory_def)
qed

subsection \<open>Properties\<close>

text \<open>C32: a run of declared entries is admitted only if every entry keeps to the entry limit and
  their total to the extraction limit, and the budget then holds exactly that total.\<close>

theorem budget_admits_within_limits:
  assumes "runAll (chargeDeclared limits) sizes createByteBudgetTracker = (Inr us, t)"
    "nonnegLimits limits"
  shows "(\<forall>n \<in> set sizes. n \<le> limEntryBytes limits) \<and>
         extractedBytes t = sum_list (map (max 0) sizes) \<and>
         sum_list (map (max 0) sizes) \<le> limExtractedBytes limits"
proof -
  have h: "budgetHistory limits (zip sizes us) t" by (rule budget.history_run [OF assms(1)])
  have len: "length us = length sizes" by (rule runAll_length [OF assms(1)])
  have m: "map (\<lambda>p. max 0 (fst p)) (zip sizes us) = map (max 0) sizes"
    using len by (induction us sizes rule: list_induct2) simp_all
  have "max 0 n \<le> limEntryBytes limits" if "n \<in> set sizes" for n
  proof -
    have "n \<in> fst ` set (zip sizes us)" using that map_fst_zip [of sizes us] len
      by (metis list.set_map)
    then show ?thesis using h unfolding budgetHistory_def by auto
  qed
  then have "\<forall>n \<in> set sizes. n \<le> limEntryBytes limits" by auto
  moreover have "extractedBytes t = sum_list (map (max 0) sizes)"
    using h m unfolding budgetHistory_def by simp
  moreover have "extractedBytes t \<le> limExtractedBytes limits"
    using h assms(2) len calculation(2) unfolding budgetHistory_def nonnegLimits_def by (cases sizes) auto
  ultimately show ?thesis by simp
qed

theorem budget_admits_within_limits_witness:
  "let l = resolveExtractLimits (Some \<lparr>maxArchiveBytes = None, maxEntries = None,
         maxExtractedBytes = Some (Finite 9), maxEntryBytes = Some (Finite 5),
         maxMetaEntryBytes = None, maxEntryPathComponents = None\<rparr>)
   in nonnegLimits l \<and>
      runAll (chargeDeclared l) [5, -1, 4] createByteBudgetTracker
        = (Inr [(), (), ()], \<lparr>entryBytes = 4, extractedBytes = 9\<rparr>) \<and> 5 + 0 + 4 \<le> limExtractedBytes l"
proof -
  define l where "l = resolveExtractLimits (Some \<lparr>maxArchiveBytes = None, maxEntries = None,
         maxExtractedBytes = Some (Finite 9), maxEntryBytes = Some (Finite 5),
         maxMetaEntryBytes = None, maxEntryPathComponents = None\<rparr>)"
  have lim: "limEntryBytes l = 5" "limExtractedBytes l = 9"
    by (simp_all add: l_def resolveExtractLimits_def Let_def clampLimit_def orDefault_def)
  have run: "runAll (chargeDeclared l) [5, -1, 4] createByteBudgetTracker
        = (Inr [(), (), ()], \<lparr>entryBytes = 4, extractedBytes = 9\<rparr>)"
    by (simp add: guards chargeDeclared_ok createByteBudgetTracker_def lim)
  have "nonnegLimits l" by (simp add: l_def resolveExtractLimits_nonneg)
  with budget_admits_within_limits [OF run this] run show ?thesis
    unfolding l_def [symmetric] Let_def by simp
qed

text \<open>Charging an entry chunk by chunk admits it exactly when charging its declared size would,
  and leaves the same budget.\<close>

theorem stream_charge_equals_declared:
  assumes "nonnegLimits limits" "\<forall>b \<in> set chunks. 0 \<le> b"
    "extractedBytes s \<le> limExtractedBytes limits"
  shows "(\<exists>us. chargeStream limits chunks s = (Inr us, t)) \<longleftrightarrow>
         chargeDeclared limits (sum_list chunks) s = (Inr (), t)"
proof -
  have "0 \<le> sum_list chunks" using assms(2) by (simp add: sum_list_nonneg)
  then show ?thesis
    using assms by (auto simp: chargeStream_ok chargeDeclared_ok max_def nonnegLimits_def)
qed

theorem stream_charge_equals_declared_witness:
  "(\<exists>us. chargeStream (resolveExtractLimits None) [100, 0, 23] createByteBudgetTracker
           = (Inr us, \<lparr>entryBytes = 123, extractedBytes = 123\<rparr>))"
proof -
  have "chargeDeclared (resolveExtractLimits None) (sum_list [100, 0, 23]) createByteBudgetTracker
      = (Inr (), \<lparr>entryBytes = 123, extractedBytes = 123\<rparr>)"
    by (simp add: chargeDeclared_ok createByteBudgetTracker_def resolveExtractLimits_def Let_def
        orDefault_def DEFAULT_MAX_ENTRY_BYTES_def DEFAULT_MAX_EXTRACTED_BYTES_def)
  moreover have "extractedBytes createByteBudgetTracker \<le> limExtractedBytes (resolveExtractLimits None)"
    using resolveExtractLimits_nonneg [of None] by (simp add: createByteBudgetTracker_def nonnegLimits_def)
  ultimately show ?thesis
    using stream_charge_equals_declared [OF resolveExtractLimits_nonneg, of "[100, 0, 23]"
        createByteBudgetTracker None] by simp
qed

text \<open>The limits of the TAR meter are the saturated ones: decoded bytes are the sum of the two
  public limits capped at the largest safe integer, the manifest bound is the number of entries
  times the size of one record capped at 64 MiB, and the entry count fits 32 bits, whatever numbers
  the caller supplies.\<close>

theorem resolveTarMeterLimits_saturates:
  "let l = resolveExtractLimits options; m = resolveTarMeterLimits options
   in meterDecodedBytes m = min MAX_SAFE_INTEGER (limExtractedBytes l + limArchiveBytes l) \<and>
      (\<exists>perEntry. 576 \<le> perEntry \<and> perEntry \<le> 64 + 2 * MAX_TAR_MANIFEST_BYTES \<and>
         meterManifestBytes m = min MAX_TAR_MANIFEST_BYTES (limEntries l * perEntry)) \<and>
      0 \<le> meterEntries m \<and> meterEntries m < 2 ^ 32"
proof -
  define l where "l = resolveExtractLimits options"
  have nn: "nonnegLimits l" unfolding l_def by (rule resolveExtractLimits_nonneg)
  define pathBytes where "pathBytes = max 256 (min (limMetaEntryBytes l)
            (min (max 1 (limEntryPathComponents l)) (MAX_TAR_MANIFEST_BYTES div 256) * 256))"
  define per where "per = 64 + 2 * pathBytes"
  have pb: "256 \<le> pathBytes" "pathBytes \<le> MAX_TAR_MANIFEST_BYTES"
    by (auto simp: pathBytes_def MAX_TAR_MANIFEST_BYTES_def)
  have per: "576 \<le> per" "per \<le> 64 + 2 * MAX_TAR_MANIFEST_BYTES" using pb by (simp_all add: per_def)
  have "(if limEntries l > MAX_TAR_MANIFEST_BYTES div per then MAX_TAR_MANIFEST_BYTES
         else limEntries l * per) = min MAX_TAR_MANIFEST_BYTES (limEntries l * per)"
  proof (cases "limEntries l > MAX_TAR_MANIFEST_BYTES div per")
    case True
    have "MAX_TAR_MANIFEST_BYTES < (MAX_TAR_MANIFEST_BYTES div per + 1) * per"
      using div_mult_mod_eq [of MAX_TAR_MANIFEST_BYTES per]
        pos_mod_bound [of per MAX_TAR_MANIFEST_BYTES] per(1) unfolding distrib_right by linarith
    also have "\<dots> \<le> limEntries l * per" using True per(1) by (intro mult_right_mono) auto
    finally show ?thesis using True by simp
  next
    case False
    then have "limEntries l * per \<le> (MAX_TAR_MANIFEST_BYTES div per) * per"
      using per(1) by (intro mult_right_mono) auto
    also have "\<dots> \<le> MAX_TAR_MANIFEST_BYTES"
      using div_mult_mod_eq [of MAX_TAR_MANIFEST_BYTES per]
        pos_mod_sign [of per MAX_TAR_MANIFEST_BYTES] per(1) by linarith
    finally show ?thesis using False by simp
  qed
  moreover have "resolveTarMeterLimits options =
     \<lparr>meterEntries = min (limEntries l) 0xffffffff,
      meterMetaEntryBytes = min (limMetaEntryBytes l) MAX_SAFE_INTEGER,
      meterManifestBytes = (if limEntries l > MAX_TAR_MANIFEST_BYTES div per then MAX_TAR_MANIFEST_BYTES
         else limEntries l * per),
      meterDecodedBytes =
        (if min (limExtractedBytes l) MAX_SAFE_INTEGER > MAX_SAFE_INTEGER - min (limArchiveBytes l) MAX_SAFE_INTEGER
         then MAX_SAFE_INTEGER
         else min (limExtractedBytes l) MAX_SAFE_INTEGER + min (limArchiveBytes l) MAX_SAFE_INTEGER)\<rparr>"
    unfolding resolveTarMeterLimits_def Let_def l_def [symmetric] pathBytes_def [symmetric]
      per_def [symmetric] by (rule refl)
  ultimately show ?thesis
    using per nn unfolding l_def [symmetric] Let_def nonnegLimits_def
    by (auto simp: min_def MAX_SAFE_INTEGER_def)
qed

end
