(* ===== verification/ArchiveEntry.thy ===== *)
theory ArchiveEntry
  imports ArchiveLimits Containment
begin

text \<open>
  Names of archive entries (\<open>src/archive-entry.ts\<close>): validation of a raw name, stripping of
  leading components, the tracker that rejects two entries with one output path, and the output
  path under the destination.
\<close>

definition normalizeArchiveEntryPath :: "jstr \<Rightarrow> jstr" where
  "normalizeArchiveEntryPath raw = replaceChar BACKSLASH SLASH raw"

text \<open>\<open>/(?:^|\/)[a-zA-Z]:/\<close>: the flag says whether a segment starts here.\<close>

fun hasDriveSegment :: "bool \<Rightarrow> jstr \<Rightarrow> bool" where
  "hasDriveSegment atStart [] = False"
| "hasDriveSegment atStart (a # rest) =
     ((atStart \<and> isAsciiLetter a \<and> rest \<noteq> [] \<and> hd rest = COLON) \<or>
      hasDriveSegment (a = SLASH) rest)"

definition isWindowsDrivePath :: "jstr \<Rightarrow> bool" where
  "isWindowsDrivePath value = hasDriveSegment True (normalizeArchiveEntryPath value)"

definition entryPathError :: "string \<Rightarrow> error" where
  "entryPathError message = ArchiveSecurity Entry_path message"

definition validateArchiveEntryPath :: "unicode \<Rightarrow> platform \<Rightarrow> jstr \<Rightarrow> error + unit" where
  "validateArchiveEntryPath u p entryPath =
     (if entryPath = [] \<or> entryPath = [DOT] \<or> entryPath = [DOT, SLASH] then Inr ()
      else bindE (throwIf (isWindowsDrivePath entryPath)
                    (entryPathError ''archive entry uses a drive path'')) (\<lambda>_.
           bindE (throwIf (hasChar entryPath 0)
                    (entryPathError ''archive entry contains a NUL byte'')) (\<lambda>_.
           let slashNormalized = normalizeArchiveEntryPath entryPath;
               rawSegments = splitOn SLASH slashNormalized;
               normalized = posixNormalize slashNormalized
           in bindE (throwIf (p = Win32 \<and> (\<exists>segment \<in> set rawSegments. hasChar segment COLON))
                       (entryPathError ''archive entry uses a Windows alternate data stream path'')) (\<lambda>_.
              bindE (throwIf (p = Win32 \<and>
                         (\<exists>segment \<in> set rawSegments. isWindowsReservedDeviceName u segment))
                       (entryPathError ''archive entry uses a reserved device path'')) (\<lambda>_.
              bindE (throwIf (\<exists>segment \<in> set (splitOn SLASH normalized).
                         maxNormalizedUtf8Bytes u segment False > 255)
                       (entryPathError ''archive entry has an overlong path component'')) (\<lambda>_.
              bindE (throwIf (normalized = dotdot \<or> startsWith normalized (dotdot @ [SLASH]))
                       (entryPathError ''archive entry escapes destination'')) (\<lambda>_.
              bindE (throwIf (posixIsAbsolute normalized \<or> startsWith normalized [SLASH, SLASH])
                       (entryPathError ''archive entry is absolute'')) (\<lambda>_.
                throwIf (dotdot \<in> set rawSegments)
                  (entryPathError ''archive entry contains a parent segment'')))))))))"

text \<open>\<open>None\<close> is the source's \<open>null\<close>: nothing is left of the name.\<close>

definition stripArchivePath :: "jstr \<Rightarrow> jsnum \<Rightarrow> jstr option" where
  "stripArchivePath entryPath stripComponents =
     (let raw = normalizeArchiveEntryPath entryPath
      in if raw = [] \<or> raw = [DOT] \<or> raw = [DOT, SLASH] then None
         else let parts = filter (\<lambda>part. length part > 0 \<and> part \<noteq> [DOT]) (splitOn SLASH raw);
                  stripped = joinOn SLASH (skipFirst (skipCount stripComponents) parts);
                  result = posixNormalize stripped
              in if result = [] \<or> result = [DOT] \<or> result = [DOT, SLASH] then None
                 else Some result)"

definition collisionKey :: "unicode \<Rightarrow> jstr \<Rightarrow> jstr" where
  "collisionKey u entryPath =
     lowerCaseNfc u (case stripArchivePath entryPath (Finite 0) of
        Some canonical \<Rightarrow> canonical
      | None \<Rightarrow> posixNormalize (normalizeArchiveEntryPath entryPath))"

text \<open>The state of the tracker is the set of keys seen.\<close>

definition trackOutputPath :: "unicode \<Rightarrow> jstr \<Rightarrow> (jstr set, error, unit) op" where
  "trackOutputPath u entryPath =
     bindS (throwWhen (\<lambda>seen. collisionKey u entryPath \<in> seen)
              (entryPathError ''archive entries collide at output path'')) (\<lambda>_.
       updateS (insert (collisionKey u entryPath)))"

definition resolveArchiveOutputPath :: "host \<Rightarrow> jstr \<Rightarrow> jstr \<Rightarrow> error + jstr" where
  "resolveArchiveOutputPath h destDir relPath =
     (let safeBase = resolveSafeBaseDir h destDir;
          outPath = pathResolve h [destDir, relPath]
      in if \<not> startsWith outPath safeBase
         then Inl (entryPathError ''archive entry escapes destination'')
         else Inr outPath)"

subsection \<open>Facts\<close>

text \<open>The components of a raw name.\<close>

definition entryParts :: "jstr \<Rightarrow> jstr list" where
  "entryParts entryPath = filter keptSeg (splitOn SLASH (normalizeArchiveEntryPath entryPath))"

lemma entryParts_trivial:
  "normalizeArchiveEntryPath p \<in> {[], [DOT], [DOT, SLASH]} \<Longrightarrow> entryParts p = []"
  by (auto simp: entryParts_def keptSeg_def)

lemma entryParts_filter:
  "filter (\<lambda>part. length part > 0 \<and> part \<noteq> [DOT]) (splitOn SLASH (normalizeArchiveEntryPath p))
     = entryParts p"
  by (simp add: entryParts_def keptSeg_def [abs_def])

lemma wfSegs_entryParts:
  "dotdot \<notin> set (splitOn SLASH (normalizeArchiveEntryPath p)) \<Longrightarrow> wfSegs (entryParts p)"
  by (auto simp: wfSegs_def entryParts_def plainSeg_def keptSeg_def dest: splitOn_no_sep)

lemma validate_ok:
  "validateArchiveEntryPath u p entryPath = Inr () \<longleftrightarrow>
     entryPath = [] \<or> entryPath = [DOT] \<or> entryPath = [DOT, SLASH] \<or>
     (let segments = splitOn SLASH (normalizeArchiveEntryPath entryPath);
          normalized = posixNormalize (normalizeArchiveEntryPath entryPath)
      in \<not> isWindowsDrivePath entryPath \<and> \<not> hasChar entryPath 0 \<and>
         \<not> (p = Win32 \<and> (\<exists>segment \<in> set segments. hasChar segment COLON)) \<and>
         \<not> (p = Win32 \<and> (\<exists>segment \<in> set segments. isWindowsReservedDeviceName u segment)) \<and>
         \<not> (\<exists>segment \<in> set (splitOn SLASH normalized). maxNormalizedUtf8Bytes u segment False > 255) \<and>
         \<not> (normalized = dotdot \<or> startsWith normalized (dotdot @ [SLASH])) \<and>
         \<not> (posixIsAbsolute normalized \<or> startsWith normalized [SLASH, SLASH]) \<and>
         dotdot \<notin> set segments)"
proof (cases "entryPath = [] \<or> entryPath = [DOT] \<or> entryPath = [DOT, SLASH]")
  case True
  then show ?thesis by (auto simp: validateArchiveEntryPath_def)
next
  case False
  then show ?thesis
    unfolding validateArchiveEntryPath_def Let_def if_not_P [OF False] bindE_Inr_iff throwIf_Inr_iff
    by blast
qed

lemma validate_no_parent:
  assumes "validateArchiveEntryPath u p entryPath = Inr ()"
  shows "dotdot \<notin> set (splitOn SLASH (normalizeArchiveEntryPath entryPath))"
proof (cases "entryPath = [] \<or> entryPath = [DOT] \<or> entryPath = [DOT, SLASH]")
  case True
  then show ?thesis by (auto simp: normalizeArchiveEntryPath_def replaceChar_def)
next
  case False
  then show ?thesis using assms unfolding validate_ok Let_def by blast
qed

lemma wfSegs_suffix: "wfSegs xs \<Longrightarrow> suffix ys xs \<Longrightarrow> wfSegs ys"
  unfolding wfSegs_def using set_mono_suffix by blast

lemma splitOn_dots: "j \<in> {[], [DOT], [DOT, SLASH]} \<Longrightarrow> \<not> list_all plainSeg (splitOn SLASH j)"
  by (elim insertE emptyE) (simp_all add: plainSeg_def)

lemma joinOn_not_dots:
  assumes "wfSegs segs" "segs \<noteq> []"
  shows "joinOn SLASH segs \<notin> {[], [DOT], [DOT, SLASH]}"
proof
  assume j: "joinOn SLASH segs \<in> {[], [DOT], [DOT, SLASH]}"
  have "splitOn SLASH (joinOn SLASH segs) = segs"
    using assms by (intro splitOn_joinOn) (auto simp: wfSegs_def)
  then have "list_all plainSeg (splitOn SLASH (joinOn SLASH segs))"
    using assms(1) by (simp add: wfSegs_def list_all_iff)
  then show False using splitOn_dots [OF j] by contradiction
qed

lemma stripArchivePath_parts:
  assumes "dotdot \<notin> set (splitOn SLASH (normalizeArchiveEntryPath p))"
  shows "stripArchivePath p n =
     (let segs = skipFirst (skipCount n) (entryParts p)
      in if segs = [] then None else Some (joinOn SLASH segs))"
proof -
  let ?segs = "skipFirst (skipCount n) (entryParts p)"
  have wf: "wfSegs ?segs"
    using wfSegs_suffix [OF wfSegs_entryParts [OF assms] skipFirst_suffix] .
  show ?thesis
  proof (cases "normalizeArchiveEntryPath p \<in> {[], [DOT], [DOT, SLASH]}")
    case True
    then have "?segs = []" using entryParts_trivial [of p] by (simp add: skipFirst_def split: option.split)
    then show ?thesis using True by (auto simp: stripArchivePath_def Let_def)
  next
    case False
    show ?thesis
    proof (cases "?segs = []")
      case True
      then show ?thesis
        unfolding stripArchivePath_def Let_def entryParts_filter by (simp add: posixNormalize_def)
    next
      case nonempty: False
      then show ?thesis
        using False joinOn_not_dots [OF wf nonempty] posixNormalize_join [OF wf nonempty]
        unfolding stripArchivePath_def Let_def entryParts_filter by simp
    qed
  qed
qed

lemma joinOn_no_char: "c \<noteq> d \<Longrightarrow> list_all (\<lambda>s. d \<notin> set s) segs \<Longrightarrow> d \<notin> set (joinOn c segs)"
  by (induction c segs rule: joinOn.induct) auto

lemma entryParts_join:
  assumes "wfSegs segs" "segs \<noteq> []" "list_all (\<lambda>s. BACKSLASH \<notin> set s) segs"
  shows "entryParts (joinOn SLASH segs) = segs"
proof -
  have "BACKSLASH \<notin> set (joinOn SLASH segs)" by (rule joinOn_no_char [OF _ assms(3)]) simp
  then have n: "normalizeArchiveEntryPath (joinOn SLASH segs) = joinOn SLASH segs"
    by (simp add: normalizeArchiveEntryPath_def replaceChar_id)
  have "splitOn SLASH (joinOn SLASH segs) = segs"
    using assms by (intro splitOn_joinOn) (auto simp: wfSegs_def)
  then show ?thesis
    using assms(1) by (simp add: entryParts_def n filter_id_conv wfSegs_def plainSeg_def keptSeg_def)
qed

lemma entryParts_no_backslash: "list_all (\<lambda>s. BACKSLASH \<notin> set s) (entryParts p)"
proof -
  have "BACKSLASH \<notin> set (normalizeArchiveEntryPath p)" by (simp add: normalizeArchiveEntryPath_def)
  then show ?thesis
    using set_splitOn [of _ SLASH "normalizeArchiveEntryPath p"] by (auto simp: list_all_iff entryParts_def)
qed

lemma prefix_joinOn: "prefix (joinOn c xs) (joinOn c (xs @ ys))"
  by (cases "xs = []"; cases "ys = []") (simp_all add: joinOn_append)

lemma startsWith_prefix: "startsWith s p \<longleftrightarrow> prefix p s"
  by (auto simp: startsWith_def prefix_def) (metis append_take_drop_id)

lemma base_dir_prefix:
  assumes "wfSegs xs" "wfSegs ys" "ys \<noteq> []"
  shows "startsWith (absPath (xs @ ys))
           (if endsWith (absPath xs) [SLASH] then absPath xs else absPath xs @ [SLASH])"
proof (cases "xs = []")
  case True
  then show ?thesis by (simp add: absPath_def endsWith_def startsWith_prefix)
next
  case False
  have "absPath (xs @ ys) = (absPath xs @ [SLASH]) @ joinOn SLASH ys"
    using False assms(3) by (simp add: absPath_def joinOn_append)
  then show ?thesis by (auto simp: startsWith_prefix)
qed

lemma stripped_segments:
  assumes "dotdot \<notin> set (splitOn SLASH (normalizeArchiveEntryPath p))"
    "stripArchivePath p n = Some r"
  shows "r = joinOn SLASH (skipFirst (skipCount n) (entryParts p)) \<and>
         skipFirst (skipCount n) (entryParts p) \<noteq> [] \<and>
         wfSegs (skipFirst (skipCount n) (entryParts p))"
  using assms wfSegs_suffix [OF wfSegs_entryParts [OF assms(1)] skipFirst_suffix, of "skipCount n"]
  by (simp add: stripArchivePath_parts Let_def split: if_splits)

lemma resolve_segments:
  assumes "posixHost h" "wfSegs segs" "segs \<noteq> []"
  shows "resolveArchiveOutputPath h destDir (joinOn SLASH segs) =
           Inr (absPath (hostSegs h destDir @ segs))"
proof -
  have rel: "\<not> posixIsAbsolute (joinOn SLASH segs)"
    using assms(2,3) hd_joinOn by (cases segs) (auto simp: posixIsAbsolute_def)
  have split: "splitOn SLASH (joinOn SLASH segs) = segs"
    using assms(2,3) by (intro splitOn_joinOn) (auto simp: wfSegs_def)
  have no: "\<forall>s \<in> set segs. s \<noteq> dotdot" "filter keptSeg segs = segs"
    using assms(2) by (auto simp: wfSegs_def plainSeg_def keptSeg_def filter_id_conv)
  have "posixIsAbsolute (cwd h)" using assms(1) by (simp add: posixHost_def)
  from posixResolve_pair [OF this rel, of destDir]
  have out: "pathResolve h [destDir, joinOn SLASH segs] = absPath (hostSegs h destDir @ segs)"
    using assms(1) no by (simp add: pathResolve_posix split normSegs_plain hostSegs_def)
  have base: "resolveSafeBaseDir h destDir =
      (if endsWith (absPath (hostSegs h destDir)) [SLASH] then absPath (hostSegs h destDir)
       else absPath (hostSegs h destDir) @ [SLASH])"
    using assms(1) posixResolve_resolvedSegs [of "cwd h" destDir]
    by (simp add: resolveSafeBaseDir_def pathResolve_posix pathSep_def posixHost_def hostSegs_def Let_def)
  have "wfSegs (hostSegs h destDir)" by (simp add: hostSegs_def)
  then show ?thesis
    using base_dir_prefix [of "hostSegs h destDir" segs] assms(2,3)
    by (simp add: resolveArchiveOutputPath_def Let_def out base)
qed

lemma strip_canonical:
  assumes "dotdot \<notin> set (splitOn SLASH (normalizeArchiveEntryPath p))"
    "stripArchivePath p (Finite 0) = Some c"
  shows "stripArchivePath c n = stripArchivePath p n"
proof -
  have k: "skipFirst (skipCount (Finite 0)) xs = xs" for xs :: "jstr list"
    by (simp add: skipFirst_def skipCount_def)
  from stripped_segments [OF assms]
  have c: "c = joinOn SLASH (entryParts p)" "entryParts p \<noteq> []" "wfSegs (entryParts p)"
    unfolding k by blast+
  have parts: "entryParts c = entryParts p"
    unfolding c(1) by (rule entryParts_join [OF c(3,2) entryParts_no_backslash])
  have "BACKSLASH \<notin> set c"
    unfolding c(1) by (rule joinOn_no_char [OF _ entryParts_no_backslash]) simp
  then have "normalizeArchiveEntryPath c = c"
    by (simp add: normalizeArchiveEntryPath_def replaceChar_id)
  moreover have "splitOn SLASH c = entryParts p"
    unfolding c(1) using c(2,3) by (intro splitOn_joinOn) (auto simp: wfSegs_def)
  moreover have "dotdot \<notin> set (entryParts p)" using c(3) by (auto simp: wfSegs_def plainSeg_def)
  ultimately have "dotdot \<notin> set (splitOn SLASH (normalizeArchiveEntryPath c))" by simp
  then show ?thesis using assms(1) by (simp add: stripArchivePath_parts parts)
qed

subsection \<open>The collision tracker\<close>

lemma trackOutputPath_ok:
  "trackOutputPath u p seen = (Inr r, t) \<longleftrightarrow>
     collisionKey u p \<notin> seen \<and> t = insert (collisionKey u p) seen"
  by (auto simp: trackOutputPath_def guards)

definition collisionHistory :: "unicode \<Rightarrow> (jstr \<times> unit) list \<Rightarrow> jstr set \<Rightarrow> bool" where
  "collisionHistory u h seen \<longleftrightarrow>
     seen = set (map (collisionKey u \<circ> fst) h) \<and> distinct (map (collisionKey u \<circ> fst) h)"

interpretation collisions: tracker "trackOutputPath u" "{}" "collisionHistory u" for u
  by unfold_locales (auto simp: collisionHistory_def trackOutputPath_ok)

lemma track_run_ok:
  "(\<exists>us t. runAll (trackOutputPath u) ps seen = (Inr us, t)) \<longleftrightarrow>
     distinct (map (collisionKey u) ps) \<and> seen \<inter> collisionKey u ` set ps = {}"
proof (induction ps arbitrary: seen)
  case Nil
  then show ?case by simp
next
  case (Cons p ps)
  have "(\<exists>us t. runAll (trackOutputPath u) (p # ps) seen = (Inr us, t)) \<longleftrightarrow>
      collisionKey u p \<notin> seen \<and>
      (\<exists>us t. runAll (trackOutputPath u) ps (insert (collisionKey u p) seen) = (Inr us, t))"
    by (auto simp: trackOutputPath_ok)
  then show ?case unfolding Cons.IH by auto
qed

lemma asciiLower_slash: "asciiLower c = SLASH \<longleftrightarrow> c = SLASH"
  by (auto simp: asciiLower_def)

lemma map_joinOn: "f c = c \<Longrightarrow> map f (joinOn c segs) = joinOn c (map (map f) segs)"
  by (induction c segs rule: joinOn.induct) auto

lemma isAscii_joinOn_char: "isAscii [c] \<Longrightarrow> list_all isAscii segs \<Longrightarrow> isAscii (joinOn c segs)"
proof (induction c segs rule: joinOn.induct)
  case (3 c x y ys)
  then have "isAscii (joinOn c (y # ys))" "isAscii x" by simp_all
  with 3 show ?case unfolding joinOn.simps isAscii_def set_append list.set by blast
qed (simp_all add: isAscii_def)

lemma isAscii_joinOn: "list_all isAscii segs \<Longrightarrow> isAscii (joinOn SLASH segs)"
  by (rule isAscii_joinOn_char) (simp_all add: isAscii_def)

lemma collisionKey_ascii:
  assumes "wfUnicode u" "isAscii p" "entryParts p \<noteq> []"
    "dotdot \<notin> set (splitOn SLASH (normalizeArchiveEntryPath p))"
  shows "collisionKey u p = joinOn SLASH (map (map asciiLower) (entryParts p))"
proof -
  have k: "skipFirst (skipCount (Finite 0)) xs = xs" for xs :: "jstr list"
    by (simp add: skipFirst_def skipCount_def)
  have "stripArchivePath p (Finite 0) = Some (joinOn SLASH (entryParts p))"
    using assms(3) unfolding stripArchivePath_parts [OF assms(4)] k by (simp add: Let_def)
  moreover have "isAscii (normalizeArchiveEntryPath p)"
    using assms(2) by (auto simp: normalizeArchiveEntryPath_def replaceChar_def isAscii_def)
  then have "list_all isAscii (entryParts p)"
    using set_splitOn [of _ SLASH "normalizeArchiveEntryPath p"]
    unfolding entryParts_def list_all_iff isAscii_def by auto
  ultimately show ?thesis
    using assms(1) isAscii_joinOn [of "entryParts p"] map_joinOn [of asciiLower SLASH "entryParts p"]
    by (simp add: collisionKey_def lowerCaseNfc_ascii asciiLower_slash)
qed

subsection \<open>Properties\<close>

text \<open>C16: a validated entry name that stripping leaves something of resolves, for any destination of
  a POSIX host and any number of stripped components, to the destination followed by the remaining
  components of the name: strictly below the destination, and the final containment check never
  fires.\<close>

theorem archive_output_below_destination:
  assumes "posixHost h" "validateArchiveEntryPath u p entryPath = Inr ()"
    "stripArchivePath entryPath n = Some relPath"
  shows "\<exists>segs. segs \<noteq> [] \<and> wfSegs segs \<and> suffix segs (entryParts entryPath) \<and>
           relPath = joinOn SLASH segs \<and>
           resolveArchiveOutputPath h destDir relPath = Inr (absPath (hostSegs h destDir @ segs))"
  using stripped_segments [OF validate_no_parent [OF assms(2)] assms(3)]
    resolve_segments [OF assms(1)] skipFirst_suffix by blast

theorem archive_output_below_destination_witness:
  "validateArchiveEntryPath asciiUnicode Posix (js ''pkg//./a/b'') = Inr () \<and>
   stripArchivePath (js ''pkg//./a/b'') (Finite 1) = Some (js ''a/b'') \<and>
   (\<exists>segs. js ''a/b'' = joinOn SLASH segs \<and> resolveArchiveOutputPath demoHost (js ''out'') (js ''a/b'')
      = Inr (absPath (hostSegs demoHost (js ''out'') @ segs)))"
proof -
  have v: "validateArchiveEntryPath asciiUnicode Posix (js ''pkg//./a/b'') = Inr ()" by code_simp
  have s: "stripArchivePath (js ''pkg//./a/b'') (Finite 1) = Some (js ''a/b'')"
    unfolding stripArchivePath_parts [OF validate_no_parent [OF v]]
    by (simp add: skipCount_def skipFirst_def
        entryParts_def normalizeArchiveEntryPath_def replaceChar_def keptSeg_def)
  show ?thesis
    using archive_output_below_destination [OF posixHost_demo v s, of "js ''out''"] v s by blast
qed

text \<open>The collision tracker admits a list of output paths exactly when no two of them have the
  same collision key, and then it remembers exactly those keys.\<close>

theorem collision_tracker_admits_distinct:
  "(\<exists>us t. runAll (trackOutputPath u) paths {} = (Inr us, t)) \<longleftrightarrow> distinct (map (collisionKey u) paths)"
  by (simp add: track_run_ok)

text \<open>Two validated ASCII names collide exactly when their components agree up to case; how the
  separators are written, empty components and dots play no role.\<close>

lemma ascii_names_collide_iff:
  assumes "wfUnicode u" "isAscii p" "isAscii q" "entryParts p \<noteq> []" "entryParts q \<noteq> []"
    "validateArchiveEntryPath u pf p = Inr ()" "validateArchiveEntryPath u pf q = Inr ()"
  shows "collisionKey u p = collisionKey u q \<longleftrightarrow>
         map (map asciiLower) (entryParts p) = map (map asciiLower) (entryParts q)"
proof -
  have split: "splitOn SLASH (joinOn SLASH (map (map asciiLower) (entryParts r)))
      = map (map asciiLower) (entryParts r)" if "entryParts r \<noteq> []" for r
    using that by (intro splitOn_joinOn) (auto simp: entryParts_def asciiLower_slash dest: splitOn_no_sep)
  have "collisionKey u p = joinOn SLASH (map (map asciiLower) (entryParts p))"
    "collisionKey u q = joinOn SLASH (map (map asciiLower) (entryParts q))"
    using collisionKey_ascii validate_no_parent assms by blast+
  then show ?thesis using split [OF assms(4)] split [OF assms(5)] by metis
qed

end
