(* ===== verification/Bytes.thy ===== *)
theory Bytes
  imports Effects Errors
begin

text \<open>
  Byte buffers and the generators that ask for them.

  A \<open>Buffer\<close> is a list of bytes. The little-endian readers of Node throw a \<open>RangeError\<close> out of
  bounds, which \<open>readLE\<close> answers as an error value. The ZIP scanner is a generator that yields
  \<open>{offset, length}\<close> requests and is resumed with the bytes: \<open>scan\<close> is the type of such a
  computation, whose next step may depend on the bytes it is given. The UTF-8 decoder is the one of
  the WHATWG encoding standard that both \<open>TextDecoder\<close> and \<open>Buffer.toString\<close> implement.
\<close>

type_synonym byte = "8 word"

fun leValue :: "byte list \<Rightarrow> int" where
  "leValue [] = 0"
| "leValue (b # bs) = uint b + 256 * leValue bs"

definition readLE :: "nat \<Rightarrow> byte list \<Rightarrow> int \<Rightarrow> error + int" where
  "readLE n bs offset =
     (if offset < 0 \<or> offset + int n > int (length bs)
      then Inl (RangeErr ''ERR_OUT_OF_RANGE'')
      else Inr (leValue (take n (drop (nat offset) bs))))"

abbreviation readUInt16LE :: "byte list \<Rightarrow> int \<Rightarrow> error + int" where
  "readUInt16LE \<equiv> readLE 2"

abbreviation readUInt32LE :: "byte list \<Rightarrow> int \<Rightarrow> error + int" where
  "readUInt32LE \<equiv> readLE 4"

abbreviation readBigUInt64LE :: "byte list \<Rightarrow> int \<Rightarrow> error + int" where
  "readBigUInt64LE \<equiv> readLE 8"

definition subarray :: "byte list \<Rightarrow> int \<Rightarrow> int \<Rightarrow> byte list" where
  "subarray bs a b = take (nat (b - a)) (drop (nat a) bs)"

lemma leValue_nonneg [simp]: "0 \<le> leValue bs"
  by (induction bs) auto

lemma uint_byte_less: "uint (b :: byte) < 256"
  using uint_lt2p [of b] by simp

lemma leValue_less: "leValue bs < 256 ^ length bs"
proof (induction bs)
  case Nil
  then show ?case by simp
next
  case (Cons b bs)
  have "leValue bs + 1 \<le> 256 ^ length bs" using Cons by simp
  then have "256 * (leValue bs + 1) \<le> 256 * 256 ^ length bs" by simp
  then show ?case using uint_byte_less [of b] by simp
qed

lemma readLE_ok:
  "readLE n bs offset = Inr v \<longleftrightarrow>
     0 \<le> offset \<and> offset + int n \<le> int (length bs) \<and> v = leValue (take n (drop (nat offset) bs))"
  by (auto simp: readLE_def)

lemma readLE_nonneg: "readLE n bs offset = Inr v \<Longrightarrow> 0 \<le> v"
  by (auto simp: readLE_ok)

lemma readLE_less: "readLE n bs offset = Inr v \<Longrightarrow> v < 256 ^ n"
proof -
  assume "readLE n bs offset = Inr v"
  then have v: "v = leValue (take n (drop (nat offset) bs))" "0 \<le> offset"
    "offset + int n \<le> int (length bs)"
    by (auto simp: readLE_ok)
  then have "length (take n (drop (nat offset) bs)) = n" by simp
  then show ?thesis using leValue_less [of "take n (drop (nat offset) bs)"] v(1) by simp
qed

lemma readLE_in_range:
  "0 \<le> offset \<Longrightarrow> offset + int n \<le> int (length bs) \<Longrightarrow>
     readLE n bs offset = Inr (leValue (take n (drop (nat offset) bs)))"
  by (simp add: readLE_def)

lemma length_subarray:
  "0 \<le> a \<Longrightarrow> a \<le> b \<Longrightarrow> b \<le> int (length bs) \<Longrightarrow> length (subarray bs a b) = nat (b - a)"
  by (simp add: subarray_def)

subsection \<open>Generators of read requests\<close>

datatype 'a scan = Done 'a | Fail error | Read int int "byte list \<Rightarrow> 'a scan"

primrec bindScan :: "'a scan \<Rightarrow> ('a \<Rightarrow> 'b scan) \<Rightarrow> 'b scan" where
  "bindScan (Done x) f = f x"
| "bindScan (Fail e) f = Fail e"
| "bindScan (Read offset len k) f = Read offset len (\<lambda>bytes. bindScan (k bytes) f)"

definition liftScan :: "error + 'a \<Rightarrow> 'a scan" where
  "liftScan r = (case r of Inl e \<Rightarrow> Fail e | Inr x \<Rightarrow> Done x)"

lemma liftScan_simps [simp]: "liftScan (Inl e) = Fail e" "liftScan (Inr x) = Done x"
  by (simp_all add: liftScan_def)

text \<open>Answering every request from one buffer.\<close>

primrec runBuffer :: "byte list \<Rightarrow> 'a scan \<Rightarrow> error + 'a" where
  "runBuffer buffer (Done x) = Inr x"
| "runBuffer buffer (Fail e) = Inl e"
| "runBuffer buffer (Read offset len k) =
     runBuffer buffer (k (subarray buffer offset (offset + len)))"

lemma runBuffer_bind [simp]:
  "runBuffer buffer (bindScan m f) = bindE (runBuffer buffer m) (\<lambda>x. runBuffer buffer (f x))"
  by (induction m) simp_all

lemma runBuffer_lift [simp]: "runBuffer buffer (liftScan r) = r"
  by (cases r) simp_all

text \<open>What holds of a generator whatever bytes it is given: \<open>ok\<close> of every request it makes and \<open>Q\<close>
  of its result.\<close>

primrec scanOk :: "(int \<Rightarrow> int \<Rightarrow> bool) \<Rightarrow> ('a \<Rightarrow> bool) \<Rightarrow> 'a scan \<Rightarrow> bool" where
  "scanOk ok Q (Done x) = Q x"
| "scanOk ok Q (Fail e) = True"
| "scanOk ok Q (Read offset len k) = (ok offset len \<and> (\<forall>bytes. scanOk ok Q (k bytes)))"

lemma scanOk_bind:
  "scanOk ok Q m \<Longrightarrow> (\<And>x. Q x \<Longrightarrow> scanOk ok R (f x)) \<Longrightarrow> scanOk ok R (bindScan m f)"
  by (induction m) auto

lemma scanOk_lift: "(\<And>x. r = Inr x \<Longrightarrow> Q x) \<Longrightarrow> scanOk ok Q (liftScan r)"
  by (cases r) simp_all

lemma scanOk_mono: "scanOk ok Q m \<Longrightarrow> (\<And>x. Q x \<Longrightarrow> R x) \<Longrightarrow> scanOk ok R m"
  by (induction m) auto

lemma scanOk_trivial [simp]: "scanOk (\<lambda>_ _. True) (\<lambda>_. True) m"
  by (induction m) auto

lemma scanOk_run: "scanOk ok Q m \<Longrightarrow> runBuffer buffer m = Inr x \<Longrightarrow> Q x"
  by (induction m) auto

lemma bindScan_cong_ok:
  "scanOk ok Q m \<Longrightarrow> (\<And>x. Q x \<Longrightarrow> f x = g x) \<Longrightarrow> bindScan m f = bindScan m g"
  by (induction m) auto

subsection \<open>UTF-8\<close>

text \<open>The effect of a byte where no sequence is open: what is emitted, how many continuation bytes
  are needed, the bits so far, and the range of the next byte.\<close>

definition utf8Lead :: "int \<Rightarrow> int option list \<times> nat \<times> int \<times> int \<times> int" where
  "utf8Lead v =
     (if v \<le> 0x7f then ([Some v], 0, 0, 0x80, 0xbf)
      else if 0xc2 \<le> v \<and> v \<le> 0xdf then ([], 1, v - 0xc0, 0x80, 0xbf)
      else if 0xe0 \<le> v \<and> v \<le> 0xef
      then ([], 2, v - 0xe0, (if v = 0xe0 then 0xa0 else 0x80), (if v = 0xed then 0x9f else 0xbf))
      else if 0xf0 \<le> v \<and> v \<le> 0xf4
      then ([], 3, v - 0xf0, (if v = 0xf0 then 0x90 else 0x80), (if v = 0xf4 then 0x8f else 0xbf))
      else ([None], 0, 0, 0x80, 0xbf))"

text \<open>\<open>None\<close> is a decoding error; a byte that breaks a sequence is decoded again.\<close>

fun utf8Decode :: "nat \<Rightarrow> int \<Rightarrow> int \<Rightarrow> int \<Rightarrow> byte list \<Rightarrow> int option list" where
  "utf8Decode needed cp lower upper [] = (if needed = 0 then [] else [None])"
| "utf8Decode needed cp lower upper (b # bs) =
     (let v = uint b in
      if needed = 0 then
        (case utf8Lead v of (out, n, c, lo, hi) \<Rightarrow> out @ utf8Decode n c lo hi bs)
      else if v < lower \<or> upper < v then
        (case utf8Lead v of (out, n, c, lo, hi) \<Rightarrow> None # out @ utf8Decode n c lo hi bs)
      else let c = cp * 64 + (v - 0x80)
           in if needed = 1 then Some c # utf8Decode 0 0 0x80 0xbf bs
              else utf8Decode (needed - 1) c 0x80 0xbf bs)"

definition utf16Units :: "int \<Rightarrow> jstr" where
  "utf16Units cp =
     (if cp < 0x10000 then [cp]
      else [0xd800 + (cp - 0x10000) div 0x400, 0xdc00 + (cp - 0x10000) mod 0x400])"

definition utf8Scalars :: "byte list \<Rightarrow> int option list" where
  "utf8Scalars bs = utf8Decode 0 0 0x80 0xbf bs"

definition utf8Fatal :: "byte list \<Rightarrow> jstr option" where
  "utf8Fatal bs =
     (let cps = utf8Scalars bs
      in if None \<in> set cps then None else Some (concat (map (utf16Units \<circ> the) cps)))"

definition utf8Lossy :: "byte list \<Rightarrow> jstr" where
  "utf8Lossy bs =
     concat (map (\<lambda>c. case c of None \<Rightarrow> [0xfffd] | Some cp \<Rightarrow> utf16Units cp) (utf8Scalars bs))"

definition utf8OfScalar :: "int \<Rightarrow> byte list" where
  "utf8OfScalar c =
     map word_of_int
       (if c < 0x80 then [c]
        else if c < 0x800 then [0xc0 + c div 64, 0x80 + c mod 64]
        else if c < 0x10000 then [0xe0 + c div 4096, 0x80 + c div 64 mod 64, 0x80 + c mod 64]
        else [0xf0 + c div 262144, 0x80 + c div 4096 mod 64, 0x80 + c div 64 mod 64, 0x80 + c mod 64])"

text \<open>\<open>Buffer.from(text)\<close>: a lone surrogate becomes the replacement character.\<close>

fun utf8Encode :: "jstr \<Rightarrow> byte list" where
  "utf8Encode [] = []"
| "utf8Encode (c # cs) =
     (if 0xd800 \<le> c \<and> c \<le> 0xdbff \<and> cs \<noteq> [] \<and> 0xdc00 \<le> hd cs \<and> hd cs \<le> 0xdfff
      then utf8OfScalar (0x10000 + (c - 0xd800) * 0x400 + (hd cs - 0xdc00)) @ utf8Encode (tl cs)
      else if 0xd800 \<le> c \<and> c \<le> 0xdfff then utf8OfScalar 0xfffd @ utf8Encode cs
      else utf8OfScalar c @ utf8Encode cs)"

definition latin1 :: "byte list \<Rightarrow> jstr" where
  "latin1 bs = map uint bs"

lemma latin1_inj [simp]: "latin1 a = latin1 b \<longleftrightarrow> a = b"
  unfolding latin1_def by (rule inj_map_eq_map) (simp add: inj_on_def word_uint_eq_iff)

lemma utf8Decode_ascii:
  "list_all (\<lambda>b. uint b \<le> 0x7f) bs \<Longrightarrow> utf8Decode 0 0 0x80 0xbf bs = map (Some \<circ> uint) bs"
  by (induction bs) (simp_all add: utf8Lead_def)

lemma utf8Fatal_ascii: "list_all (\<lambda>b. uint b \<le> 0x7f) bs \<Longrightarrow> utf8Fatal bs = Some (latin1 bs)"
proof -
  assume a: "list_all (\<lambda>b. uint b \<le> 0x7f) bs"
  have "concat (map (\<lambda>b. utf16Units (uint b)) bs) = map uint bs"
    using a by (induction bs) (simp_all add: utf16Units_def)
  then show ?thesis
    using utf8Decode_ascii [OF a] by (auto simp: utf8Fatal_def utf8Scalars_def latin1_def comp_def)
qed

end
