(* ===== verification/Crc32.thy ===== *)
theory Crc32
  imports Bytes
begin

text \<open>
  The CRC-32 of ZIP (\<open>src/archive-crc32.ts\<close>) on 32-bit words, where \<open>>>>\<close> is the logical
  shift \<open>drop_bit\<close>. The table-driven loop is what runs when the runtime has no \<open>zlib.crc32\<close>; it
  is compared with the bit-by-bit division by the reflected polynomial \<open>0xedb88320\<close>.
\<close>

unbundle bit_operations_syntax

definition crcBit :: "32 word \<Rightarrow> 32 word" where
  "crcBit v = (if v AND 1 \<noteq> 0 then 0xedb88320 XOR drop_bit 1 v else drop_bit 1 v)"

definition CRC32_TABLE :: "32 word list" where
  "CRC32_TABLE = map (\<lambda>index. (crcBit ^^ 8) (of_nat index)) [0..<256]"

definition crcByte :: "32 word \<Rightarrow> byte \<Rightarrow> 32 word" where
  "crcByte crc b = drop_bit 8 crc XOR CRC32_TABLE ! unat ((crc XOR ucast b) AND 0xff)"

definition updateCrc32 :: "32 word \<Rightarrow> byte list \<Rightarrow> 32 word" where
  "updateCrc32 previous buffer = foldl crcByte (previous XOR -1) buffer XOR -1"

text \<open>One byte by polynomial division: eight shifts of the register into which the byte was added.\<close>

definition crcByteSpec :: "32 word \<Rightarrow> byte \<Rightarrow> 32 word" where
  "crcByteSpec crc b = (crcBit ^^ 8) (crc XOR ucast b)"

definition crc32Spec :: "byte list \<Rightarrow> 32 word" where
  "crc32Spec buffer = foldl crcByteSpec (-1) buffer XOR -1"

lemma crcBit_xor: "crcBit (a XOR b) = crcBit a XOR crcBit b"
proof -
  have "(a XOR b) AND 1 \<noteq> 0 \<longleftrightarrow> (a AND 1 \<noteq> 0) \<noteq> (b AND 1 \<noteq> 0)"
    by (simp add: and_one_eq odd_iff_mod_2_eq_one [symmetric] even_xor_iff)
  then show ?thesis
    by (cases "a AND 1 = 0"; cases "b AND 1 = 0")
       (simp_all add: crcBit_def drop_bit_xor xor.assoc xor.left_commute)
qed

lemma crcBits_xor: "(crcBit ^^ n) (a XOR b) = (crcBit ^^ n) a XOR (crcBit ^^ n) b"
  by (induction n) (simp_all add: crcBit_xor)

text \<open>A register whose low bits are zero is only shifted.\<close>

lemma crcBit_even: "\<not> bit v 0 \<Longrightarrow> crcBit v = drop_bit 1 v"
  by (simp add: crcBit_def and_one_eq bit_0 even_iff_mod_2_eq_zero)

lemma crcBits_shift: "(\<And>i. i < n \<Longrightarrow> \<not> bit v i) \<Longrightarrow> (crcBit ^^ n) v = drop_bit n v"
proof (induction n arbitrary: v)
  case 0
  then show ?case by simp
next
  case (Suc n)
  have "crcBit v = drop_bit 1 v" using Suc.prems [of 0] by (intro crcBit_even) simp
  moreover have "(crcBit ^^ n) (drop_bit 1 v) = drop_bit n (drop_bit 1 v)"
    by (rule Suc.IH) (simp add: bit_drop_bit_eq Suc.prems)
  ultimately show ?case by (simp add: funpow_Suc_right del: funpow.simps)
qed

lemma byte_mask: "(v :: 32 word) AND 0xff = take_bit 8 v"
  using take_bit_eq_mask [of 8 v] by (simp add: mask_eq_exp_minus_1)

lemma table_entry: "unat (take_bit 8 (v :: 32 word)) < 256"
  using take_bit_nat_less_exp [of 8 "unat v"] by (simp add: unsigned_take_bit_eq)

lemma word_split_at_8: "(v :: 32 word) = take_bit 8 v XOR push_bit 8 (drop_bit 8 v)"
proof (rule bit_word_eqI)
  fix n :: nat
  show "bit v n = bit (take_bit 8 v XOR push_bit 8 (drop_bit 8 v)) n" if "n < LENGTH(32)"
    using that by (cases "n < 8") (auto simp: bit_simps)
qed

lemma drop_push_drop: "drop_bit 8 (push_bit 8 (drop_bit 8 (v :: 32 word))) = drop_bit 8 v"
  by (rule bit_word_eqI) (auto simp: bit_simps dest: bit_imp_le_length)

lemma crcBits_split: "(crcBit ^^ 8) v = (crcBit ^^ 8) (take_bit 8 v) XOR drop_bit 8 v"
proof -
  have "(crcBit ^^ 8) (push_bit 8 (drop_bit 8 v)) = drop_bit 8 (push_bit 8 (drop_bit 8 v))"
    by (rule crcBits_shift) (simp add: bit_simps)
  then show ?thesis
    using crcBits_xor [of 8 "take_bit 8 v" "push_bit 8 (drop_bit 8 v)"]
    unfolding word_split_at_8 [of v, symmetric] drop_push_drop by simp
qed

lemma drop_added_byte: "drop_bit 8 (crc XOR ucast (b :: byte)) = drop_bit 8 (crc :: 32 word)"
  by (rule bit_word_eqI) (auto simp: bit_simps dest: bit_imp_le_length)

lemma crcByte_spec: "crcByte crc b = crcByteSpec crc b"
  using table_entry [of "crc XOR ucast b"] crcBits_split [of "crc XOR ucast b"]
  unfolding crcByte_def crcByteSpec_def byte_mask drop_added_byte
  by (simp add: CRC32_TABLE_def xor.commute)

lemma updateCrc32_spec: "updateCrc32 0 buffer = crc32Spec buffer"
proof -
  have "crcByte = crcByteSpec" by (intro ext) (rule crcByte_spec)
  then show ?thesis by (simp add: updateCrc32_def crc32Spec_def xor.assoc)
qed

lemma updateCrc32_append:
  "updateCrc32 (updateCrc32 previous first) rest = updateCrc32 previous (first @ rest)"
  by (simp add: updateCrc32_def xor.assoc)

subsection \<open>Properties\<close>

text \<open>C34: the table-driven checksum of a buffer is the bit-by-bit CRC-32 of it, and updating it
  chunk by chunk gives the checksum of the whole.\<close>

theorem updateCrc32_correct:
  "updateCrc32 0 buffer = crc32Spec buffer \<and>
   updateCrc32 (updateCrc32 previous first) rest = updateCrc32 previous (first @ rest)"
  by (simp add: updateCrc32_spec updateCrc32_append)

end
