(* ===== verification/ZipNames.thy ===== *)
theory ZipNames
  imports ArchiveEntry Crc32
begin

text \<open>
  Names of ZIP entries (\<open>src/archive-zip-names.ts\<close>). A ZIP entry carries its name twice, and
  either copy may carry a Unicode override; a decoder may pick any of them. Admission demands that
  all readings agree on one canonical path. The buffers are private to the process, so two buffers
  with equal bytes stay equal (the source takes the slow route for shared memory). A set of keys
  seen so far is the state.
\<close>

definition zipFormat :: "string \<Rightarrow> error" where
  "zipFormat message = ArchiveFormat message"

definition zipUInt64 :: "byte list \<Rightarrow> int \<Rightarrow> error + int" where
  "zipUInt64 bytes offset =
     (if offset + 8 > int (length bytes) then Inl (zipFormat ''truncated ZIP64 field'')
      else bindE (readBigUInt64LE bytes offset) (\<lambda>v.
        if v > MAX_SAFE_INTEGER then Inl (zipFormat ''ZIP64 integer exceeds safe range'') else Inr v))"

type_synonym extra_fields = "int \<rightharpoonup> byte list"

text \<open>The loop over the extra field, on the bytes that are left; only two kinds are kept.\<close>

function zipExtraFrom :: "byte list \<Rightarrow> extra_fields \<Rightarrow> error + extra_fields" where
  "zipExtraFrom bytes critical =
     (if bytes = [] then Inr critical
      else if length bytes < 4 then Inl (zipFormat ''truncated extra field header'')
      else let id_of = leValue (take 2 bytes);
               len = nat (leValue (take 2 (drop 2 bytes)));
               rest = drop 4 bytes
           in if len > length rest then Inl (zipFormat ''truncated extra field value'')
              else if id_of = 1 \<or> id_of = 0x7075 then
                (if critical id_of \<noteq> None then Inl (zipFormat ''duplicate critical extra field'')
                 else zipExtraFrom (drop len rest) (critical(id_of \<mapsto> take len rest)))
              else zipExtraFrom (drop len rest) critical)"
  by pat_completeness auto
termination
  by (relation "measure (\<lambda>(bytes, critical). length bytes)") auto

declare zipExtraFrom.simps [simp del]

definition zipExtraFields :: "byte list \<Rightarrow> error + extra_fields" where
  "zipExtraFields bytes = zipExtraFrom bytes Map.empty"

definition utf8 :: "byte list \<Rightarrow> error + jstr" where
  "utf8 bytes = (case utf8Fatal bytes of
     None \<Rightarrow> Inl (zipFormat ''invalid UTF-8 name'') | Some s \<Rightarrow> Inr s)"

definition zipPathKey :: "jstr \<Rightarrow> jstr" where
  "zipPathKey name =
     (if name \<noteq> [] \<and> name \<noteq> [DOT] \<and> \<not> hasChar name SLASH \<and> \<not> hasChar name BACKSLASH then name
      else case stripArchivePath name (Finite 0) of Some key \<Rightarrow> key | None \<Rightarrow> [])"

definition asciiOnly :: "jstr \<Rightarrow> jstr" where
  "asciiOnly rawName = map (\<lambda>c. if 0x80 \<le> c \<and> c \<le> 0xff then 95 else c) rawName"

definition originalName ::
    "unicode \<Rightarrow> platform \<Rightarrow> byte list \<Rightarrow> jstr \<Rightarrow> int \<Rightarrow> error + jstr option" where
  "originalName u p name rawName flags =
     bindE (validateArchiveEntryPath u p (asciiOnly rawName)) (\<lambda>_.
       if and flags 0x800 = 0 then Inr None
       else if asciiOnly rawName = rawName then Inr (Some rawName)
       else bindE (utf8 name) (\<lambda>decoded.
            bindE (validateArchiveEntryPath u p decoded) (\<lambda>_. Inr (Some decoded))))"

definition unicodeName ::
    "unicode \<Rightarrow> platform \<Rightarrow> byte list \<Rightarrow> extra_fields \<Rightarrow> error + jstr option" where
  "unicodeName u p name extra =
     (case extra 0x7075 of
        None \<Rightarrow> Inr None
      | Some field \<Rightarrow>
          if length field < 6 \<or> uint (field ! 0) \<noteq> 1
          then Inl (zipFormat ''invalid Unicode Path field'')
          else bindE (readUInt32LE field 1) (\<lambda>crc.
            if crc \<noteq> uint (updateCrc32 0 name) then Inl (zipFormat ''Unicode Path CRC mismatch'')
            else bindE (utf8 (drop 5 field)) (\<lambda>decoded.
                 bindE (validateArchiveEntryPath u p decoded) (\<lambda>_. Inr (Some decoded)))))"

definition endsSeparator :: "jstr \<Rightarrow> bool" where
  "endsSeparator s \<longleftrightarrow> s \<noteq> [] \<and> isWinSep (last s)"

definition presentNames :: "jstr option list \<Rightarrow> jstr list" where
  "presentNames names = List.map_filter (\<lambda>x. x) names"

definition orElse :: "'a option \<Rightarrow> 'a option \<Rightarrow> 'a option" where
  "orElse a b = (case a of None \<Rightarrow> b | Some x \<Rightarrow> Some x)"

record zip_name_input =
  centralBytes :: "byte list"
  localBytes :: "byte list"
  nameFlags :: int
  centralExtra :: extra_fields
  localExtra :: extra_fields

record zip_name =
  namePath :: "jstr option"
  namePortableKey :: jstr
  namePortableDirectory :: bool
  nameDirectory :: bool

text \<open>The four readings of the name.\<close>

record zip_readings =
  centralUtf8 :: "jstr option"
  localUtf8 :: "jstr option"
  centralUnicode :: "jstr option"
  localUnicode :: "jstr option"

definition readNames :: "unicode \<Rightarrow> platform \<Rightarrow> zip_name_input \<Rightarrow> error + zip_readings" where
  "readNames u p i =
     (let sameName = (centralBytes i = localBytes i);
          sameUnicode = (centralExtra i 0x7075 = localExtra i 0x7075)
      in bindE (originalName u p (centralBytes i) (latin1 (centralBytes i)) (nameFlags i)) (\<lambda>cu.
         bindE (if sameName then Inr cu
                else originalName u p (localBytes i) (latin1 (localBytes i)) (nameFlags i)) (\<lambda>lu.
         bindE (unicodeName u p (centralBytes i) (centralExtra i)) (\<lambda>cx.
         bindE (if sameName \<and> sameUnicode then Inr cx
                else unicodeName u p (localBytes i) (localExtra i)) (\<lambda>lx.
           Inr \<lparr>centralUtf8 = cu, localUtf8 = lu, centralUnicode = cx, localUnicode = lx\<rparr>)))))"

definition interpretations :: "zip_readings \<Rightarrow> jstr list" where
  "interpretations r =
     presentNames [centralUtf8 r, localUtf8 r, centralUnicode r, localUnicode r]"

definition interpretationKey :: "jstr \<Rightarrow> zip_readings \<Rightarrow> jstr option" where
  "interpretationKey centralRaw r =
     (case interpretations r of
        [] \<Rightarrow> None
      | first # _ \<Rightarrow> Some (if first = centralRaw then zipPathKey centralRaw else zipPathKey first))"

text \<open>The checks that all readings agree, in the order of the source.\<close>

definition checkReadings :: "zip_name_input \<Rightarrow> zip_readings \<Rightarrow> error + unit" where
  "checkReadings i r =
     (let centralRaw = latin1 (centralBytes i);
          localRaw = latin1 (localBytes i);
          sameName = (centralBytes i = localBytes i);
          names = interpretations r;
          directory = endsSeparator centralRaw;
          localDecoded = utf8Lossy (localBytes i)
      in bindE (throwIf (\<not> sameName \<and> zipPathKey centralRaw \<noteq> zipPathKey localRaw)
                  (zipFormat ''central and local names disagree'')) (\<lambda>_.
         bindE (throwIf (endsSeparator localRaw \<noteq> directory \<or>
                    (\<exists>v \<in> set names. endsSeparator v \<noteq> directory))
                  (zipFormat ''conflicting terminal directory markers'')) (\<lambda>_.
         bindE (throwIf (\<exists>v \<in> set names. v \<noteq> hd names \<and>
                    Some (zipPathKey v) \<noteq> interpretationKey centralRaw r)
                  (zipFormat ''conflicting Unicode name interpretations'')) (\<lambda>_.
         bindE (throwIf (case centralUnicode r of
                    Some c \<Rightarrow> c \<noteq> [] \<and> \<not> sameName \<and> zipPathKey c \<noteq> zipPathKey localDecoded
                  | None \<Rightarrow> False)
                  (zipFormat ''Unicode override disagrees with local decoder name'')) (\<lambda>_.
           throwIf ((centralUnicode r = None \<or> centralUnicode r = Some []) \<and>
                    (case localUnicode r of
                       Some l \<Rightarrow> l \<noteq> [] \<and> zipPathKey l \<noteq> zipPathKey localDecoded
                     | None \<Rightarrow> False))
             (zipFormat ''local-only Unicode override changes the name''))))))"

definition unicodeKey :: "zip_readings \<Rightarrow> jstr option" where
  "unicodeKey r = map_option (\<lambda>c. zipPathKey (latin1 (utf8Encode c))) (centralUnicode r)"

definition recordKeys :: "jstr \<Rightarrow> jstr option \<Rightarrow> (jstr set, error, unit) op" where
  "recordKeys centralKey ukey =
     bindS (throwWhen (\<lambda>seen. centralKey \<in> seen \<or>
                (case ukey of Some k \<Rightarrow> k \<noteq> centralKey \<and> k \<in> seen | None \<Rightarrow> False))
              (ArchiveSecurity Entry_path ''zip archive contains duplicate or colliding entry names''))
       (\<lambda>_. updateS (\<lambda>seen. (case ukey of Some k \<Rightarrow> {k} | None \<Rightarrow> {}) \<union> insert centralKey seen))"

definition admittedPath :: "zip_name_input \<Rightarrow> zip_readings \<Rightarrow> jstr option" where
  "admittedPath i r =
     orElse (centralUnicode r) (orElse (centralUtf8 r)
       (if \<forall>b \<in> set (centralBytes i). uint b < 128 then Some (latin1 (centralBytes i)) else None))"

definition portablePath :: "zip_name_input \<Rightarrow> zip_readings \<Rightarrow> jstr" where
  "portablePath i r =
     (case orElse (centralUnicode r) (localUtf8 r) of
        Some s \<Rightarrow> s
      | None \<Rightarrow> (case admittedPath i r of
           Some s \<Rightarrow> if centralBytes i = localBytes i then s else utf8Lossy (localBytes i)
         | None \<Rightarrow> utf8Lossy (localBytes i)))"

definition portableKeyOf :: "zip_name_input \<Rightarrow> zip_readings \<Rightarrow> jstr" where
  "portableKeyOf i r =
     (let centralRaw = latin1 (centralBytes i); path = portablePath i r
      in if path = centralRaw then zipPathKey centralRaw
         else if path \<in> set (interpretations r)
         then (case interpretationKey centralRaw r of Some k \<Rightarrow> k | None \<Rightarrow> [])
         else zipPathKey path)"

definition decoderPath :: "zip_name_input \<Rightarrow> zip_readings \<Rightarrow> error + jstr" where
  "decoderPath i r =
     (if and (nameFlags i) 0x800 \<noteq> 0
      then (case localUtf8 r of Some s \<Rightarrow> Inr s | None \<Rightarrow> Inl (PlainErr ''TypeError''))
      else case centralUnicode r of
             None \<Rightarrow> Inr (utf8Lossy (localBytes i))
           | Some c \<Rightarrow>
               if centralBytes i = localBytes i then Inr c
               else (case centralExtra i 0x7075 of
                  None \<Rightarrow> Inl (PlainErr ''TypeError'')
                | Some field \<Rightarrow> bindE (readUInt32LE field 1) (\<lambda>crc.
                    Inr (if crc = uint (updateCrc32 0 (localBytes i)) then c
                         else utf8Lossy (localBytes i)))))"

definition admitZipNames ::
    "unicode \<Rightarrow> platform \<Rightarrow> zip_name_input \<Rightarrow> (jstr set, error, zip_name) op" where
  "admitZipNames u p i =
     bindS (liftS (throwIf (centralBytes i = [] \<or> localBytes i = []) (zipFormat ''empty entry name''))) (\<lambda>_.
     bindS (liftS (readNames u p i)) (\<lambda>r.
     bindS (liftS (checkReadings i r)) (\<lambda>_.
     bindS (recordKeys (zipPathKey (latin1 (centralBytes i))) (unicodeKey r)) (\<lambda>_.
     bindS (liftS (decoderPath i r)) (\<lambda>decoder.
       returnS
         \<lparr>namePath = admittedPath i r,
          namePortableKey = portableKeyOf i r,
          namePortableDirectory = endsWith decoder [SLASH],
          nameDirectory = endsSeparator (latin1 (centralBytes i))\<rparr>)))))"

subsection \<open>Facts\<close>

lemma presentNames_iff: "x \<in> set (presentNames ns) \<longleftrightarrow> Some x \<in> set ns"
  by (induction ns) (auto simp: presentNames_def map_filter_simps split: option.splits)

lemma interpretationKey_eq:
  "interpretationKey raw r =
     (if interpretations r = [] then None else Some (zipPathKey (hd (interpretations r))))"
  by (cases "interpretations r") (auto simp: interpretationKey_def)

lemma checkReadings_ok:
  assumes "checkReadings i r = Inr ()"
  shows "(\<forall>v \<in> set (interpretations r).
             zipPathKey v = zipPathKey (hd (interpretations r)) \<and>
             endsSeparator v = endsSeparator (latin1 (centralBytes i))) \<and>
         zipPathKey (latin1 (localBytes i)) = zipPathKey (latin1 (centralBytes i)) \<and>
         endsSeparator (latin1 (localBytes i)) = endsSeparator (latin1 (centralBytes i))"
proof -
  note checks = assms [unfolded checkReadings_def Let_def bindE_Inr_iff throwIf_Inr_iff]
  have c: "\<not> (centralBytes i \<noteq> localBytes i \<and>
        zipPathKey (latin1 (centralBytes i)) \<noteq> zipPathKey (latin1 (localBytes i)))"
    using checks by (elim exE conjE)
  have d: "\<not> (endsSeparator (latin1 (localBytes i)) \<noteq> endsSeparator (latin1 (centralBytes i)) \<or>
        (\<exists>v \<in> set (interpretations r). endsSeparator v \<noteq> endsSeparator (latin1 (centralBytes i))))"
    using checks by (elim exE conjE)
  have e: "\<not> (\<exists>v \<in> set (interpretations r). v \<noteq> hd (interpretations r) \<and>
        Some (zipPathKey v) \<noteq> interpretationKey (latin1 (centralBytes i)) r)"
    using checks by (elim exE conjE)
  have keys: "zipPathKey v = zipPathKey (hd (interpretations r))" if "v \<in> set (interpretations r)" for v
  proof (cases "v = hd (interpretations r)")
    case False
    then have "Some (zipPathKey v) = interpretationKey (latin1 (centralBytes i)) r"
      using e that by blast
    then show ?thesis unfolding interpretationKey_eq by (simp split: if_splits)
  qed simp
  have same: "zipPathKey (latin1 (localBytes i)) = zipPathKey (latin1 (centralBytes i))"
  proof (cases "centralBytes i = localBytes i")
    case False
    then show ?thesis using c by simp
  qed simp
  show ?thesis using keys same d by blast
qed

lemma portableKeyOf_eq:
  assumes "checkReadings i r = Inr ()"
  shows "portableKeyOf i r = zipPathKey (portablePath i r)"
proof (cases "portablePath i r \<in> set (interpretations r)")
  case True
  then have ne: "interpretations r \<noteq> []" by auto
  have "zipPathKey (hd (interpretations r)) = zipPathKey (portablePath i r)"
    using checkReadings_ok [OF assms] True by metis
  then have "interpretationKey (latin1 (centralBytes i)) r = Some (zipPathKey (portablePath i r))"
    unfolding interpretationKey_eq using ne by simp
  then show ?thesis unfolding portableKeyOf_def Let_def by simp
qed (simp add: portableKeyOf_def Let_def)

lemma recordKeys_ok:
  "recordKeys k uk seen = (Inr x, seen') \<longleftrightarrow>
     k \<notin> seen \<and> (\<forall>k'. uk = Some k' \<longrightarrow> k' = k \<or> k' \<notin> seen) \<and>
     seen' = (case uk of Some k' \<Rightarrow> {k'} | None \<Rightarrow> {}) \<union> insert k seen"
  by (auto simp: recordKeys_def guards split: option.splits)

lemma admitZipNames_ok:
  assumes "admitZipNames u p i seen = (Inr n, seen')"
  shows "\<exists>r. readNames u p i = Inr r \<and> checkReadings i r = Inr () \<and>
     recordKeys (zipPathKey (latin1 (centralBytes i))) (unicodeKey r) seen = (Inr (), seen') \<and>
     namePath n = admittedPath i r \<and> namePortableKey n = portableKeyOf i r \<and>
     nameDirectory n = endsSeparator (latin1 (centralBytes i)) \<and>
     centralBytes i \<noteq> [] \<and> localBytes i \<noteq> []"
proof -
  obtain r where "readNames u p i = Inr r" "checkReadings i r = Inr ()"
     "recordKeys (zipPathKey (latin1 (centralBytes i))) (unicodeKey r) seen = (Inr (), seen')"
     "namePath n = admittedPath i r" "namePortableKey n = portableKeyOf i r"
     "nameDirectory n = endsSeparator (latin1 (centralBytes i))"
     "centralBytes i \<noteq> []" "localBytes i \<noteq> []"
    using assms unfolding admitZipNames_def by (auto simp: guards)
  then show ?thesis by blast
qed

subsection \<open>The tracker of names\<close>

definition zipNameHistory :: "(zip_name_input \<times> zip_name) list \<Rightarrow> jstr set \<Rightarrow> bool" where
  "zipNameHistory h seen \<longleftrightarrow>
     distinct (map (\<lambda>x. zipPathKey (latin1 (centralBytes (fst x)))) h) \<and>
     (\<lambda>x. zipPathKey (latin1 (centralBytes (fst x)))) ` set h \<subseteq> seen"

interpretation zip_names: tracker "admitZipNames u p" "{}" zipNameHistory for u p
proof
  fix h :: "(zip_name_input \<times> zip_name) list" and s x y t
  assume "zipNameHistory h s" "admitZipNames u p x s = (Inr y, t)"
  moreover from admitZipNames_ok [OF this(2)]
  have "zipPathKey (latin1 (centralBytes x)) \<notin> s" "insert (zipPathKey (latin1 (centralBytes x))) s \<subseteq> t"
    by (auto simp: recordKeys_ok)
  ultimately show "zipNameHistory (h @ [(x, y)]) t" by (auto simp: zipNameHistory_def)
qed (simp add: zipNameHistory_def)

subsection \<open>Properties\<close>

text \<open>C17: an admitted ZIP name means one path: every reading that a decoder may prefer has the same
  canonical key and the same directory marker, the central and the local bytes agree on both, and
  the key handed on is the key of the path the portable decoder reads, although the code reuses
  keys it computed for other readings.\<close>

theorem zip_name_readings_agree:
  assumes "admitZipNames u p i seen = (Inr n, seen')" "readNames u p i = Inr r"
    "v \<in> set (interpretations r)" "w \<in> set (interpretations r)"
  shows "zipPathKey v = zipPathKey w \<and> endsSeparator v = nameDirectory n \<and>
         zipPathKey (latin1 (localBytes i)) = zipPathKey (latin1 (centralBytes i)) \<and>
         namePortableKey n = zipPathKey (portablePath i r)"
proof -
  from admitZipNames_ok [OF assms(1)] assms(2)
  have c: "checkReadings i r = Inr ()" "namePortableKey n = portableKeyOf i r"
    "nameDirectory n = endsSeparator (latin1 (centralBytes i))"
    by auto
  from checkReadings_ok [OF c(1)] have "zipPathKey v = zipPathKey w"
    "endsSeparator v = endsSeparator (latin1 (centralBytes i))"
    "zipPathKey (latin1 (localBytes i)) = zipPathKey (latin1 (centralBytes i))"
    using assms(3,4) by auto
  then show ?thesis using c(2,3) portableKeyOf_eq [OF c(1)] by simp
qed

definition demoName :: zip_name_input where
  "demoName = \<lparr>centralBytes = [97, 47, 98, 47], localBytes = [97, 92, 98, 47], nameFlags = 0x800,
     centralExtra = Map.empty, localExtra = Map.empty\<rparr>"

theorem zip_name_readings_agree_witness:
  "\<exists>n seen' r. admitZipNames asciiUnicode Posix demoName {} = (Inr n, seen') \<and>
     readNames asciiUnicode Posix demoName = Inr r \<and>
     interpretations r = [js ''a/b/'', [97, BACKSLASH, 98, SLASH]] \<and>
     zipPathKey (js ''a/b/'') = zipPathKey [97, BACKSLASH, 98, SLASH] \<and>
     namePortableKey n = zipPathKey (portablePath demoName r)"
proof -
  define r where "r = \<lparr>centralUtf8 = Some (js ''a/b/''), localUtf8 = Some [97, BACKSLASH, 98, SLASH],
    centralUnicode = None, localUnicode = None\<rparr>"
  have r: "readNames asciiUnicode Posix demoName = Inr r"
    unfolding r_def by code_simp
  have i: "interpretations r = [js ''a/b/'', [97, BACKSLASH, 98, SLASH]]"
    unfolding r_def by code_simp
  obtain n seen' where a: "admitZipNames asciiUnicode Posix demoName {} = (Inr n, seen')"
  proof -
    have "isOk (fst (admitZipNames asciiUnicode Posix demoName {}))" by code_simp
    then show ?thesis using that
      by (cases "admitZipNames asciiUnicode Posix demoName {}") (auto simp: isOk_def split: sum.splits)
  qed
  show ?thesis
    using zip_name_readings_agree [OF a r, of "js ''a/b/''" "[97, BACKSLASH, 98, SLASH]"] a r i by auto
qed

text \<open>Names admitted one after another have pairwise different canonical keys.\<close>

theorem zip_names_distinct:
  assumes "runAll (admitZipNames u p) inputs {} = (Inr ns, seen)"
  shows "distinct (map (\<lambda>i. zipPathKey (latin1 (centralBytes i))) inputs)"
proof -
  have "length ns = length inputs" by (rule runAll_length [OF assms])
  then have "map (\<lambda>x. zipPathKey (latin1 (centralBytes (fst x)))) (zip inputs ns)
      = map (\<lambda>i. zipPathKey (latin1 (centralBytes i))) inputs"
    by (induction ns inputs rule: list_induct2) simp_all
  with zip_names.history_run [OF assms] show ?thesis by (simp only: zipNameHistory_def)
qed

theorem zip_names_distinct_witness:
  "isOk (fst (runAll (admitZipNames asciiUnicode Posix)
     [demoName, demoName\<lparr>centralBytes := [99], localBytes := [99]\<rparr>] {})) \<and>
   distinct [zipPathKey (latin1 [97, 47, 98, 47]), zipPathKey (latin1 [99])]"
proof -
  have ok: "isOk (fst (runAll (admitZipNames asciiUnicode Posix)
     [demoName, demoName\<lparr>centralBytes := [99], localBytes := [99]\<rparr>] {}))" by code_simp
  then obtain ns seen where "runAll (admitZipNames asciiUnicode Posix)
     [demoName, demoName\<lparr>centralBytes := [99], localBytes := [99]\<rparr>] {} = (Inr ns, seen)"
    by (cases "runAll (admitZipNames asciiUnicode Posix)
     [demoName, demoName\<lparr>centralBytes := [99], localBytes := [99]\<rparr>] {}") (auto simp: isOk_def split: sum.splits)
  from zip_names_distinct [OF this] ok show ?thesis by (simp add: demoName_def)
qed

end
