(* ===== verification/ArchivePlan.thy ===== *)
theory ArchivePlan
  imports ArchiveEntry
begin

text \<open>
  The extraction plan (\<open>src/archive-plan.ts\<close>) and archive kinds (\<open>src/archive-kind.ts\<close>). A
  selector decides which entries produce an output and under which path; the planner adds the
  member kinds, the declared sizes and the modes. Both keep their counters and trackers in closure
  variables: here the records \<open>selector_state\<close> and \<open>planner_state\<close>.
\<close>

subsection \<open>Archive kinds\<close>

datatype archive_kind = Tar | Tar_bzip2 | Tar_zstd | Zip

definition TAR_SUFFIXES :: "jstr list" where
  "TAR_SUFFIXES = [js ''.tgz'', js ''.tar.gz'', js ''.tar'']"

definition COMPRESSED_TAR_SUFFIXES :: "(jstr list \<times> archive_kind) list" where
  "COMPRESSED_TAR_SUFFIXES =
     [([js ''.tbz2'', js ''.tbz'', js ''.tar.bz2''], Tar_bzip2),
      ([js ''.tzst'', js ''.tar.zst'', js ''.tar.zstd''], Tar_zstd)]"

definition resolveArchiveKind :: "unicode \<Rightarrow> jstr \<Rightarrow> archive_kind option" where
  "resolveArchiveKind u filePath =
     (let lower = normalizeLowercaseStringOrEmpty u filePath
      in if endsWith lower (js ''.zip'') then Some Zip
         else case find (\<lambda>(names, kind). \<exists>s \<in> set names. endsWith lower s)
                     COMPRESSED_TAR_SUFFIXES of
                Some (names, kind) \<Rightarrow> Some kind
              | None \<Rightarrow> if \<exists>s \<in> set TAR_SUFFIXES. endsWith lower s then Some Tar else None)"

text \<open>The layout of an unpacked directory, over the two calls of the file system it makes.\<close>

datatype stat_kind = StatDirectory | StatOther

record packed_fs =
  statSync :: "jstr \<Rightarrow> stat_kind option"
  readdir :: "jstr \<Rightarrow> (jstr \<times> bool) list option"
  pathJoinFn :: "jstr \<Rightarrow> jstr \<Rightarrow> jstr"

definition hasPackedRootMarker :: "packed_fs \<Rightarrow> jstr \<Rightarrow> jstr list \<Rightarrow> bool" where
  "hasPackedRootMarker fs extractDir rootMarkers =
     (\<exists>marker \<in> set rootMarkers.
        trim marker \<noteq> [] \<and> statSync fs (pathJoinFn fs extractDir (trim marker)) \<noteq> None)"

definition resolvePackedRootDir :: "packed_fs \<Rightarrow> jstr \<Rightarrow> jstr list \<Rightarrow> error + jstr" where
  "resolvePackedRootDir fs extractDir rootMarkers =
     (let direct = pathJoinFn fs extractDir (js ''package'')
      in if statSync fs direct = Some StatDirectory then Inr direct
         else if length rootMarkers > 0 \<and> hasPackedRootMarker fs extractDir rootMarkers
         then Inr extractDir
         else case readdir fs extractDir of
                None \<Rightarrow> Inl (NodeErr ''ENOENT'')
              | Some entries \<Rightarrow>
                  (let dirs = map fst (filter snd entries)
                   in case dirs of
                        [onlyDir] \<Rightarrow>
                          if onlyDir = [] then Inl (PlainErr ''unexpected archive layout (no package dir found)'')
                          else Inr (pathJoinFn fs extractDir onlyDir)
                      | _ \<Rightarrow> Inl (PlainErr ''unexpected archive layout'')))"

subsection \<open>Entry kinds, modes and filters\<close>

datatype member_kind =
    Member_file | Member_directory | Member_symlink | Member_hardlink
  | Member_blocked | Member_sparse | Member_other

datatype entry_kind = Entry_file | Entry_directory | Entry_symlink | Entry_other

datatype mode_policy = Clamp | Preserve

datatype filtered_policy = Reject_archive | Skip_entry

record entry_info =
  infoPath :: jstr
  infoKind :: entry_kind
  infoSize :: jsnum

definition archiveEntryKindFromTarType :: "string \<Rightarrow> entry_kind" where
  "archiveEntryKindFromTarType type =
     (if type = ''Directory'' \<or> type = ''GNUDumpDir'' then Entry_directory
      else if type = ''File'' \<or> type = ''OldFile'' \<or> type = ''ContiguousFile'' then Entry_file
      else if type = ''SymbolicLink'' \<or> type = ''Link'' then Entry_symlink
      else Entry_other)"

definition resolveArchiveEntryMode :: "bool \<Rightarrow> int option \<Rightarrow> mode_policy option \<Rightarrow> int" where
  "resolveArchiveEntryMode isDirectory archivedMode policy =
     (let archived = and (case archivedMode of None \<Rightarrow> 0 | Some m \<Rightarrow> m) 511
      in if policy = Some Preserve
         then (if archivedMode = None then (if isDirectory then 493 else 420) else archived)
         else if isDirectory then 493
         else if and archived 64 \<noteq> 0 then 493 else 420)"

definition resolveArchiveFilteredEntryPolicy :: "string option \<Rightarrow> error + filtered_policy" where
  "resolveArchiveFilteredEntryPolicy v =
     (if v = None \<or> v = Some ''reject-archive'' then Inr Reject_archive
      else if v = Some ''skip-entry'' then Inr Skip_entry
      else Inl (RangeErr ''archive onFiltered must be reject-archive or skip-entry''))"

definition shouldExtractArchiveEntry ::
    "(entry_info \<Rightarrow> string) option \<Rightarrow> string option \<Rightarrow> entry_info \<Rightarrow> error + bool" where
  "shouldExtractArchiveEntry entry_filter onFiltered entry =
     bindE (resolveArchiveFilteredEntryPolicy onFiltered) (\<lambda>policy.
       if (case entry_filter of None \<Rightarrow> True | Some f \<Rightarrow> f entry = ''extract'') then Inr True
       else if policy = Reject_archive
       then Inl (ArchiveSecurity Entry_filtered ''archive entry rejected by filter'')
       else Inr False)"

subsection \<open>The selector\<close>

record plan_options =
  optStripComponents :: "jsnum option"
  optLimits :: "archive_limits option"
  optEntryModes :: "mode_policy option"
  optEntryFilter :: "(entry_info \<Rightarrow> string) option"
  optOnFiltered :: "string option"
  optRootDir :: "jstr option"

record selector_state =
  entryCount :: int
  seenPaths :: "jstr set"

definition createSelector :: selector_state where
  "createSelector = \<lparr>entryCount = 0, seenPaths = {}\<rparr>"

definition stripIsZero :: "jsnum \<Rightarrow> bool" where
  "stripIsZero v = (case v of Finite r \<Rightarrow> \<lfloor>r\<rfloor> \<le> 0 | NegInfinity \<Rightarrow> True | _ \<Rightarrow> False)"

definition selectedPath :: "plan_options \<Rightarrow> jstr \<Rightarrow> jstr option" where
  "selectedPath params canonicalPath =
     (let strip = (case optStripComponents params of None \<Rightarrow> Finite 0 | Some v \<Rightarrow> v)
      in if stripIsZero strip then Some canonicalPath else stripArchivePath canonicalPath strip)"

definition selectEntry ::
    "unicode \<Rightarrow> host \<Rightarrow> plan_options \<Rightarrow> entry_info \<Rightarrow> (selector_state, error, jstr option) op" where
  "selectEntry u h params entry =
     (let limits = resolveExtractLimits (optLimits params); pf = platform h in
      bindS (updateS (\<lambda>s. s\<lparr>entryCount := entryCount s + 1\<rparr>)) (\<lambda>_.
      bindS (\<lambda>s. liftS (assertArchiveEntryCountWithinLimit (entryCount s) limits) s) (\<lambda>_.
      bindS (liftS (validateArchiveEntryPath u pf (infoPath entry))) (\<lambda>_.
      case stripArchivePath (infoPath entry) (Finite 0) of
        None \<Rightarrow> returnS None
      | Some canonicalPath \<Rightarrow>
          (case selectedPath params canonicalPath of
             None \<Rightarrow> returnS None
           | Some relPath \<Rightarrow>
               bindS (liftS (validateArchiveEntryPath u pf relPath)) (\<lambda>_.
               bindS (liftS (assertArchiveEntryPathComponentsWithinLimit relPath limits)) (\<lambda>_.
               bindS (zoomS seenPaths (\<lambda>x s. s\<lparr>seenPaths := x\<rparr>) (trackOutputPath u relPath)) (\<lambda>_.
               bindS (case optRootDir params of
                        None \<Rightarrow> returnS []
                      | Some dir \<Rightarrow> liftS (resolveArchiveOutputPath h dir relPath)) (\<lambda>_.
               bindS (liftS (shouldExtractArchiveEntry (optEntryFilter params) (optOnFiltered params)
                        (entry\<lparr>infoPath := canonicalPath\<rparr>))) (\<lambda>extract.
                 returnS (if extract then Some relPath else None))))))))))) "

subsection \<open>The planner\<close>

record archive_member =
  memberPath :: jstr
  memberKind :: member_kind
  memberSize :: jsnum
  memberMode :: "int option"

record plan_entry =
  planPath :: jstr
  planIsDirectory :: bool
  planSize :: int
  planMode :: int

record planner_state =
  plannerSelector :: selector_state
  plannerBudget :: byte_budget

definition createPlanner :: planner_state where
  "createPlanner = \<lparr>plannerSelector = createSelector, plannerBudget = createByteBudgetTracker\<rparr>"

definition policyKind :: "member_kind \<Rightarrow> entry_kind" where
  "policyKind kind =
     (case kind of
        Member_file \<Rightarrow> Entry_file | Member_directory \<Rightarrow> Entry_directory
      | Member_symlink \<Rightarrow> Entry_symlink | Member_hardlink \<Rightarrow> Entry_symlink | _ \<Rightarrow> Entry_other)"

definition planEntry ::
    "unicode \<Rightarrow> host \<Rightarrow> plan_options \<Rightarrow> archive_kind \<Rightarrow> archive_member
       \<Rightarrow> (planner_state, error, plan_entry option) op" where
  "planEntry u h params archiveKind entry =
     (let kind = policyKind (memberKind entry);
          limits = resolveExtractLimits (optLimits params)
      in bindS (zoomS plannerSelector (\<lambda>x s. s\<lparr>plannerSelector := x\<rparr>)
                 (selectEntry u h params
                    \<lparr>infoPath = memberPath entry, infoKind = kind, infoSize = memberSize entry\<rparr>))
           (\<lambda>selected. case selected of
              None \<Rightarrow> returnS None
            | Some relPath \<Rightarrow>
                if memberKind entry = Member_sparse
                then throwS (ArchiveFormat ''GNU sparse archive entry is not supported'')
                else if kind = Entry_symlink \<or> memberKind entry = Member_blocked
                then throwS (ArchiveSecurity Entry_link ''entry is a link'')
                else if \<not> isSafeInteger (memberSize entry) \<or> floorNum (memberSize entry) < 0
                then throwS (ArchiveLimit ENTRY_EXTRACTED_SIZE_EXCEEDS_LIMIT)
                else if kind = Entry_other then returnS None
                else bindS (if kind = Entry_file \<or> archiveKind \<noteq> Zip
                            then zoomS plannerBudget (\<lambda>x s. s\<lparr>plannerBudget := x\<rparr>)
                                   (chargeDeclared limits (floorNum (memberSize entry)))
                            else returnS ()) (\<lambda>_.
                  returnS (Some
                    \<lparr>planPath = relPath, planIsDirectory = (kind = Entry_directory),
                     planSize = floorNum (memberSize entry),
                     planMode = resolveArchiveEntryMode (kind = Entry_directory)
                       (memberMode entry) (optEntryModes params)\<rparr>))))"

definition BLOCKED_TAR_ENTRY_TYPES :: "string list" where
  "BLOCKED_TAR_ENTRY_TYPES = [''BlockDevice'', ''CharacterDevice'', ''FIFO'', ''Socket'']"

record tar_entry_info =
  tarPath :: jstr
  tarType :: string
  tarSize :: jsnum
  tarMode :: "int option"

definition tarMemberKind :: "string \<Rightarrow> member_kind" where
  "tarMemberKind type =
     (if type \<in> set BLOCKED_TAR_ENTRY_TYPES then Member_blocked
      else case archiveEntryKindFromTarType type of
             Entry_file \<Rightarrow> Member_file | Entry_directory \<Rightarrow> Member_directory
           | Entry_symlink \<Rightarrow> Member_symlink | Entry_other \<Rightarrow> Member_other)"

definition planTarEntry ::
    "unicode \<Rightarrow> host \<Rightarrow> plan_options \<Rightarrow> tar_entry_info \<Rightarrow> (planner_state, error, plan_entry option) op" where
  "planTarEntry u h params entry =
     planEntry u h params Tar
       \<lparr>memberPath = tarPath entry, memberKind = tarMemberKind (tarType entry),
        memberSize = tarSize entry, memberMode = tarMode entry\<rparr>"

definition tarEntryPreflight ::
    "unicode \<Rightarrow> host \<Rightarrow> plan_options \<Rightarrow> tar_entry_info \<Rightarrow> (planner_state, error, bool) op" where
  "tarEntryPreflight u h params entry =
     bindS (planTarEntry u h (params\<lparr>optEntryModes := None\<rparr>) entry) (\<lambda>r. returnS (r \<noteq> None))"

subsection \<open>Facts\<close>

lemma selectEntry_ok:
  assumes "selectEntry u h params e s = (Inr r, t)"
  shows "entryCount t = entryCount s + 1 \<and>
         entryCount t \<le> limEntries (resolveExtractLimits (optLimits params)) \<and>
         validateArchiveEntryPath u (platform h) (infoPath e) = Inr () \<and>
         seenPaths s \<subseteq> seenPaths t \<and>
         (\<forall>relPath. r = Some relPath \<longrightarrow>
            (\<exists>canonical. stripArchivePath (infoPath e) (Finite 0) = Some canonical \<and>
               selectedPath params canonical = Some relPath) \<and>
            validateArchiveEntryPath u (platform h) relPath = Inr () \<and>
            int (length (countedComponents relPath))
              \<le> limEntryPathComponents (resolveExtractLimits (optLimits params)) \<and>
            collisionKey u relPath \<notin> seenPaths s \<and>
            collisionKey u relPath \<in> seenPaths t \<and>
            (\<forall>dir. optRootDir params = Some dir \<longrightarrow>
               isOk (resolveArchiveOutputPath h dir relPath)))"
proof -
  let ?s = "s\<lparr>entryCount := entryCount s + 1\<rparr>"
  let ?lim = "resolveExtractLimits (optLimits params)"
  have count: "entryCount ?s \<le> limEntries ?lim"
    and valid: "validateArchiveEntryPath u (platform h) (infoPath e) = Inr ()"
    using assms unfolding selectEntry_def Let_def
    by (auto simp: guards assertArchiveEntryCountWithinLimit_def)
  show ?thesis
  proof (cases "Option.bind (stripArchivePath (infoPath e) (Finite 0)) (selectedPath params)")
    case None
    then have "r = None \<and> t = ?s"
      using assms unfolding selectEntry_def Let_def
      by (auto simp: guards split: option.splits)
    then show ?thesis using count valid by simp
  next
    case (Some relPath)
    then obtain canonical where c: "stripArchivePath (infoPath e) (Finite 0) = Some canonical"
        "selectedPath params canonical = Some relPath"
      by (auto simp: bind_eq_Some_conv)
    obtain seen where t: "trackOutputPath u relPath (seenPaths ?s) = (Inr (), seen)"
      "t = ?s\<lparr>seenPaths := seen\<rparr>" "r \<in> {None, Some relPath}"
      "validateArchiveEntryPath u (platform h) relPath = Inr ()"
      "assertArchiveEntryPathComponentsWithinLimit relPath ?lim = Inr ()"
      "\<forall>dir. optRootDir params = Some dir \<longrightarrow> isOk (resolveArchiveOutputPath h dir relPath)"
      using assms c unfolding selectEntry_def Let_def
      by (auto simp: guards isOk_def split: option.splits if_splits)
    then show ?thesis
      using count valid c
      by (auto simp: trackOutputPath_ok assertArchiveEntryPathComponentsWithinLimit_def)
  qed
qed

text \<open>What charging a member adds to the budget.\<close>

definition charged :: "archive_kind \<Rightarrow> plan_entry \<Rightarrow> bool" where
  "charged archiveKind e \<longleftrightarrow> \<not> planIsDirectory e \<or> archiveKind \<noteq> Zip"

lemma planEntry_ok:
  assumes "planEntry u h params ak m s = (Inr r, t)"
  shows "\<exists>selected. selectEntry u h params
             \<lparr>infoPath = memberPath m, infoKind = policyKind (memberKind m), infoSize = memberSize m\<rparr>
             (plannerSelector s) = (Inr selected, plannerSelector t) \<and>
           (r = None \<longrightarrow> plannerBudget t = plannerBudget s) \<and>
           (\<forall>e. r = Some e \<longrightarrow>
              selected = Some (planPath e) \<and>
              memberKind m = (if planIsDirectory e then Member_directory else Member_file) \<and>
              isSafeInteger (memberSize m) \<and> planSize e = floorNum (memberSize m) \<and> 0 \<le> planSize e \<and>
              planMode e = resolveArchiveEntryMode (planIsDirectory e) (memberMode m) (optEntryModes params) \<and>
              (if charged ak e
               then chargeDeclared (resolveExtractLimits (optLimits params)) (planSize e) (plannerBudget s)
                      = (Inr (), plannerBudget t)
               else plannerBudget t = plannerBudget s))"
proof -
  obtain selected s' where sel: "selectEntry u h params
             \<lparr>infoPath = memberPath m, infoKind = policyKind (memberKind m), infoSize = memberSize m\<rparr>
             (plannerSelector s) = (Inr selected, s')"
    using assms unfolding planEntry_def Let_def by (auto simp: guards)
  show ?thesis
  proof (cases selected)
    case None
    then show ?thesis using assms sel unfolding planEntry_def Let_def by (auto simp: guards)
  next
    case (Some relPath)
    then show ?thesis
      using assms sel unfolding planEntry_def Let_def
      by (cases "memberKind m") (auto simp: guards policyKind_def charged_def split: if_splits)
  qed
qed

subsection \<open>The contract of a plan\<close>

definition planned :: "plan_entry option list \<Rightarrow> plan_entry list" where
  "planned rs = List.map_filter (\<lambda>r. r) rs"

lemma planned_simps [simp]:
  "planned [] = []" "planned (None # rs) = planned rs" "planned (Some e # rs) = e # planned rs"
  "planned (rs @ rs') = planned rs @ planned rs'"
  by (simp_all add: planned_def map_filter_simps map_filter_def)

definition admittedMember :: "unicode \<Rightarrow> host \<Rightarrow> plan_options \<Rightarrow> archive_kind \<Rightarrow> archive_member \<Rightarrow> plan_entry \<Rightarrow> bool" where
  "admittedMember u h params ak m e \<longleftrightarrow>
     validateArchiveEntryPath u (platform h) (memberPath m) = Inr () \<and>
     (\<exists>segs. segs \<noteq> [] \<and> wfSegs segs \<and> suffix segs (entryParts (memberPath m)) \<and>
        planPath e = joinOn SLASH segs \<and>
        int (length segs) \<le> limEntryPathComponents (resolveExtractLimits (optLimits params))) \<and>
     memberKind m = (if planIsDirectory e then Member_directory else Member_file) \<and>
     isSafeInteger (memberSize m) \<and> planSize e = floorNum (memberSize m) \<and> 0 \<le> planSize e \<and>
     (charged ak e \<longrightarrow> planSize e \<le> limEntryBytes (resolveExtractLimits (optLimits params))) \<and>
     (\<forall>dir. optRootDir params = Some dir \<longrightarrow> isOk (resolveArchiveOutputPath h dir (planPath e)))"

lemma selected_segments:
  assumes "validateArchiveEntryPath u pf p = Inr ()"
    "stripArchivePath p (Finite 0) = Some canonical" "selectedPath params canonical = Some rel"
  shows "\<exists>segs. segs \<noteq> [] \<and> wfSegs segs \<and> suffix segs (entryParts p) \<and> rel = joinOn SLASH segs \<and>
           countedComponents rel = segs"
proof -
  note np = validate_no_parent [OF assms(1)]
  obtain n where "stripArchivePath p n = Some rel"
    using assms(2,3) strip_canonical [OF np assms(2)]
    by (auto simp: selectedPath_def Let_def split: if_splits)
  from stripped_segments [OF np this] obtain segs
    where s: "segs \<noteq> []" "wfSegs segs" "suffix segs (entryParts p)" "rel = joinOn SLASH segs"
    using skipFirst_suffix by blast
  have "list_all (\<lambda>s. BACKSLASH \<notin> set s) segs"
    using entryParts_no_backslash [of p] set_mono_suffix [OF s(3)] unfolding list_all_iff by blast
  from entryParts_join [OF s(2,1) this] have "countedComponents rel = segs"
    by (simp add: countedComponents_def entryParts_def normalizeArchiveEntryPath_def s(4)
        keptSeg_def [abs_def])
  with s show ?thesis by blast
qed

definition planHistory ::
    "unicode \<Rightarrow> host \<Rightarrow> plan_options \<Rightarrow> archive_kind \<Rightarrow> (archive_member \<times> plan_entry option) list
       \<Rightarrow> planner_state \<Rightarrow> bool" where
  "planHistory u h params ak hist s \<longleftrightarrow>
     (let limits = resolveExtractLimits (optLimits params); es = planned (map snd hist) in
      entryCount (plannerSelector s) = int (length hist) \<and>
      int (length hist) \<le> limEntries limits \<and>
      distinct (map (\<lambda>e. collisionKey u (planPath e)) es) \<and>
      (\<lambda>e. collisionKey u (planPath e)) ` set es \<subseteq> seenPaths (plannerSelector s) \<and>
      extractedBytes (plannerBudget s) = sum_list (map planSize (filter (charged ak) es)) \<and>
      extractedBytes (plannerBudget s) \<le> limExtractedBytes limits \<and>
      (\<forall>(m, r) \<in> set hist. \<forall>e. r = Some e \<longrightarrow> admittedMember u h params ak m e))"

lemma planHistory_step:
  assumes hist: "planHistory u h params ak hist s" and step: "planEntry u h params ak m s = (Inr r, t)"
  shows "planHistory u h params ak (hist @ [(m, r)]) t"
proof -
  define limits where "limits = resolveExtractLimits (optLimits params)"
  define info where "info = \<lparr>infoPath = memberPath m, infoKind = policyKind (memberKind m),
    infoSize = memberSize m\<rparr>"
  note inv = hist [unfolded planHistory_def Let_def limits_def [symmetric]]
  from planEntry_ok [OF step] obtain selected where sel:
      "selectEntry u h params info (plannerSelector s) = (Inr selected, plannerSelector t)"
    and none: "r = None \<Longrightarrow> plannerBudget t = plannerBudget s"
    and some: "\<And>e. r = Some e \<Longrightarrow> selected = Some (planPath e) \<and>
              memberKind m = (if planIsDirectory e then Member_directory else Member_file) \<and>
              isSafeInteger (memberSize m) \<and> planSize e = floorNum (memberSize m) \<and> 0 \<le> planSize e \<and>
              (if charged ak e
               then chargeDeclared limits (planSize e) (plannerBudget s) = (Inr (), plannerBudget t)
               else plannerBudget t = plannerBudget s)"
    unfolding info_def limits_def by blast
  note so = selectEntry_ok [OF sel, folded limits_def]
  have count: "entryCount (plannerSelector t) = int (length (hist @ [(m, r)]))"
    "int (length (hist @ [(m, r)])) \<le> limEntries limits"
    using so inv by auto
  show ?thesis
  proof (cases r)
    case None
    then show ?thesis
      unfolding planHistory_def Let_def limits_def [symmetric]
      using inv none so count by auto
  next
    case (Some e)
    note se = some [OF Some]
    have key: "collisionKey u (planPath e) \<notin> seenPaths (plannerSelector s)"
      "collisionKey u (planPath e) \<in> seenPaths (plannerSelector t)"
      using so se by auto
    have adm: "admittedMember u h params ak m e"
    proof -
      obtain canonical where "stripArchivePath (memberPath m) (Finite 0) = Some canonical"
          "selectedPath params canonical = Some (planPath e)"
        using so se by (auto simp: info_def)
      from selected_segments [OF _ this, of u "platform h"] so
      obtain segs where "segs \<noteq> []" "wfSegs segs" "suffix segs (entryParts (memberPath m))"
          "planPath e = joinOn SLASH segs" "countedComponents (planPath e) = segs"
        by (auto simp: info_def)
      moreover have "charged ak e \<longrightarrow> planSize e \<le> limEntryBytes limits"
        using se by (auto simp: chargeDeclared_ok)
      ultimately show ?thesis
        unfolding admittedMember_def limits_def [symmetric] using se so by (auto simp: info_def)
    qed
    have bud: "extractedBytes (plannerBudget t) =
        extractedBytes (plannerBudget s) + (if charged ak e then planSize e else 0)"
      "extractedBytes (plannerBudget t) \<le> limExtractedBytes limits"
      using se inv by (auto simp: chargeDeclared_ok split: if_splits)
    show ?thesis
      unfolding planHistory_def Let_def limits_def [symmetric]
      using inv so count key adm bud Some by auto
  qed
qed

interpretation plan: tracker "planEntry u h params ak" createPlanner "planHistory u h params ak"
  for u h params ak
proof
  show "planHistory u h params ak [] createPlanner"
    using resolveExtractLimits_nonneg [of "optLimits params"]
    by (simp add: planHistory_def createPlanner_def createSelector_def createByteBudgetTracker_def
        Let_def nonnegLimits_def)
qed (rule planHistory_step)

subsection \<open>Properties\<close>

text \<open>C15: a plan that goes through keeps to every limit: at most the allowed number of entries, no
  output path planned twice (up to case and normal form), declared sizes within the entry and
  extraction budgets, no link, device or sparse member, and every output path is the joined rest of
  the components of its validated entry name.\<close>

theorem archive_plan_safe:
  assumes "runAll (planEntry u h params ak) members createPlanner = (Inr rs, t)"
  shows "int (length members) \<le> limEntries (resolveExtractLimits (optLimits params)) \<and>
         distinct (map (\<lambda>e. collisionKey u (planPath e)) (planned rs)) \<and>
         sum_list (map planSize (filter (charged ak) (planned rs)))
           \<le> limExtractedBytes (resolveExtractLimits (optLimits params)) \<and>
         (\<forall>i e. i < length members \<and> rs ! i = Some e \<longrightarrow>
                admittedMember u h params ak (members ! i) e)"
proof -
  have len: "length rs = length members" by (rule runAll_length [OF assms])
  have m: "map snd (zip members rs) = rs" using len by simp
  have h: "planHistory u h params ak (zip members rs) t" by (rule plan.history_run [OF assms])
  have "admittedMember u h params ak (members ! i) e"
    if "i < length members" "rs ! i = Some e" for i e
  proof -
    have "(members ! i, Some e) \<in> set (zip members rs)" using that len by (force simp: in_set_zip)
    then show ?thesis using h unfolding planHistory_def Let_def by blast
  qed
  then show ?thesis
    using h len unfolding planHistory_def Let_def m by auto
qed

definition demoOptions :: plan_options where
  "demoOptions = \<lparr>optStripComponents = Some (Finite 1), optLimits = None, optEntryModes = None,
     optEntryFilter = None, optOnFiltered = None, optRootDir = Some (js ''out'')\<rparr>"

theorem archive_plan_safe_witness:
  "runAll (planEntry asciiUnicode demoHost demoOptions Tar)
      [\<lparr>memberPath = js ''p/a'', memberKind = Member_file, memberSize = Finite 3, memberMode = Some 73\<rparr>]
      createPlanner
     = (Inr [Some \<lparr>planPath = js ''a'', planIsDirectory = False, planSize = 3, planMode = 493\<rparr>],
        \<lparr>plannerSelector = \<lparr>entryCount = 1, seenPaths = {js ''a''}\<rparr>,
         plannerBudget = \<lparr>entryBytes = 3, extractedBytes = 3\<rparr>\<rparr>) \<and>
   (3::int) \<le> limExtractedBytes (resolveExtractLimits (optLimits demoOptions))"
proof -
  have run: "runAll (planEntry asciiUnicode demoHost demoOptions Tar)
      [\<lparr>memberPath = js ''p/a'', memberKind = Member_file, memberSize = Finite 3, memberMode = Some 73\<rparr>]
      createPlanner
     = (Inr [Some \<lparr>planPath = js ''a'', planIsDirectory = False, planSize = 3, planMode = 493\<rparr>],
        \<lparr>plannerSelector = \<lparr>entryCount = 1, seenPaths = {js ''a''}\<rparr>,
         plannerBudget = \<lparr>entryBytes = 3, extractedBytes = 3\<rparr>\<rparr>)"
    by code_simp
  show ?thesis
    using archive_plan_safe [OF run] run by (simp add: charged_def)
qed

text \<open>Without \<open>preserve\<close> a planned mode is exactly 0755 or 0644, and 0755 for a file only if
  its archived mode has the owner's execute bit; with it, a mode never has a bit outside 0777, so
  no archive can plant a set-user-ID, set-group-ID or sticky bit.\<close>

lemma planned_modes_bounded:
  "0 \<le> resolveArchiveEntryMode isDirectory archivedMode policy \<and>
   resolveArchiveEntryMode isDirectory archivedMode policy < 512 \<and>
   (policy = Some Preserve \<or>
      resolveArchiveEntryMode isDirectory archivedMode policy
        = (if isDirectory \<or> (\<exists>m. archivedMode = Some m \<and> bit m 6) then 493 else 420))"
proof -
  have low: "and m 511 = m mod 512" for m :: int
    using take_bit_eq_mask [of 9 m] by (simp add: mask_eq_exp_minus_1 take_bit_eq_mod)
  have x: "and (and m 511) 64 \<noteq> 0 \<longleftrightarrow> bit m 6" for m :: int
    using and_exp_eq_0_iff_not_bit [of "and m 511" 6] by (simp add: bit_and_iff)
  have "resolveArchiveEntryMode isDirectory archivedMode policy
      = (if policy = Some Preserve
         then (case archivedMode of None \<Rightarrow> if isDirectory then 493 else 420 | Some m \<Rightarrow> m mod 512)
         else if isDirectory \<or> (\<exists>m. archivedMode = Some m \<and> bit m 6) then 493 else 420)"
    by (cases archivedMode) (simp_all only: resolveArchiveEntryMode_def Let_def low [symmetric] x
        option.case option.simps if_True if_False and_zero_eq simp_thms ex_simps, auto)
  then show ?thesis by (simp split: option.split)
qed

end
