(* ===== verification/ZipDirectory.thy ===== *)
theory ZipDirectory
  imports ZipNames ArchivePlan
begin

text \<open>
  The scan of a ZIP central directory (\<open>src/archive-zip-directory.ts\<close>). The source is a generator
  that yields byte ranges; \<open>scanZipDirectory\<close> here is a value of type \<open>scan\<close>, so both drivers of
  the source run the same object. Fields of records whose length was just checked are read with
  \<open>leAt\<close>; reads whose range depends on the input go through \<open>readLE\<close> and \<open>zipUInt64\<close>. Sums of
  offsets that leave the safe integers are refused by \<open>readRecord\<close> in the source and here.

  The loop over the entries is given fuel; \<open>scanLoop_fuel\<close> shows that the length of the directory
  is enough, since every entry advances by at least 46 bytes.
\<close>

definition leAt :: "nat \<Rightarrow> byte list \<Rightarrow> nat \<Rightarrow> int" where
  "leAt n bs offset = leValue (take n (drop offset bs))"

record zip_directory_entry =
  zeIndex :: int
  zeCreatorSystem :: int
  zeExternalAttributes :: int
  zeSize :: int
  zeCompressedSize :: int
  zeCompressionMethod :: int
  zeCrc32 :: int
  zePath :: "jstr option"
  zePortableKey :: jstr
  zePortableDirectory :: bool
  zeKind :: entry_kind

definition entryKind :: "int \<Rightarrow> bool \<Rightarrow> entry_kind" where
  "entryKind attributes directory =
     (let type = and (drop_bit 16 attributes) 61440
      in if type = 40960 then Entry_symlink
         else if and attributes 16 \<noteq> 0 \<or> type = 16384 \<or> directory then Entry_directory
         else if and type 40960 = 40960 then Entry_other else Entry_file)"

definition safeInt :: "int \<Rightarrow> bool" where
  "safeInt n \<longleftrightarrow> \<bar>n\<bar> \<le> MAX_SAFE_INTEGER"

definition readRecord :: "int \<Rightarrow> int \<Rightarrow> int \<Rightarrow> byte list scan" where
  "readRecord offset len bound =
     (if \<not> safeInt offset \<or> \<not> safeInt len \<or> offset < 0 \<or> len < 0 \<or> len > bound - offset
      then Fail (zipFormat ''record outside archive bounds'')
      else Read offset len (\<lambda>bytes.
             if int (length bytes) \<noteq> len then Fail (zipFormat ''truncated record'') else Done bytes))"

subsection \<open>The end record\<close>

definition END_SIGNATURE :: "byte list" where
  "END_SIGNATURE = [0x50, 0x4b, 0x05, 0x06]"

definition endsArchive :: "byte list \<Rightarrow> nat \<Rightarrow> bool" where
  "endsArchive tail offset \<longleftrightarrow> int offset + 22 + leAt 2 tail (offset + 20) = int (length tail)"

fun denseFrom :: "byte list \<Rightarrow> nat \<Rightarrow> nat option \<Rightarrow> error + nat" where
  "denseFrom tail 0 found =
     (case found of None \<Rightarrow> Inl (zipFormat ''end record missing'') | Some f \<Rightarrow> Inr f)"
| "denseFrom tail (Suc offset) found =
     (if leAt 4 tail offset = 0x06054b50 \<and> endsArchive tail offset
      then (if found \<noteq> None then Inl (zipFormat ''ambiguous end records'')
            else denseFrom tail offset (Some offset))
      else denseFrom tail offset found)"

definition denseEndOffset :: "byte list \<Rightarrow> error + nat" where
  "denseEndOffset tail = denseFrom tail (length tail - 21) None"

definition bufferIndexOf :: "byte list \<Rightarrow> byte list \<Rightarrow> nat \<Rightarrow> nat option" where
  "bufferIndexOf bs needle start =
     List.find (\<lambda>i. take (length needle) (drop i bs) = needle) [start..<length bs]"

fun sparseEnd :: "nat \<Rightarrow> byte list \<Rightarrow> nat \<Rightarrow> nat option \<Rightarrow> error + nat" where
  "sparseEnd 0 tail start found = denseEndOffset tail"
| "sparseEnd (Suc candidates) tail start found =
     (case bufferIndexOf tail END_SIGNATURE start of
        None \<Rightarrow> (case found of None \<Rightarrow> Inl (zipFormat ''end record missing'') | Some f \<Rightarrow> Inr f)
      | Some offset \<Rightarrow>
          if offset + 22 > length tail
          then (case found of None \<Rightarrow> Inl (zipFormat ''end record missing'') | Some f \<Rightarrow> Inr f)
          else if endsArchive tail offset
          then (if found \<noteq> None then Inl (zipFormat ''ambiguous end records'')
                else sparseEnd candidates tail (offset + 1) (Some offset))
          else sparseEnd candidates tail (offset + 1) found)"

definition endOffset :: "byte list \<Rightarrow> error + nat" where
  "endOffset tail = sparseEnd 16 tail 0 None"

primrec zip64Candidates ::
    "int list \<Rightarrow> int \<Rightarrow> int \<Rightarrow> (int \<times> byte list) option \<Rightarrow> (int \<times> byte list) scan" where
  "zip64Candidates [] locatorAt size_of found =
     (case found of None \<Rightarrow> Fail (zipFormat ''unsupported ZIP64 end record'') | Some f \<Rightarrow> Done f)"
| "zip64Candidates (pos # rest) locatorAt size_of found =
     (if pos < 0 \<or> pos > locatorAt - 56 then zip64Candidates rest locatorAt size_of found
      else bindScan (readRecord pos 56 size_of) (\<lambda>entry.
        if leAt 4 entry 0 \<noteq> 0x06064b50 then zip64Candidates rest locatorAt size_of found
        else bindScan (liftScan (zipUInt64 entry 4)) (\<lambda>bodySize.
          if bodySize < 44 \<or> bodySize \<noteq> locatorAt - pos - 12
          then zip64Candidates rest locatorAt size_of found
          else if found \<noteq> None then Fail (zipFormat ''ambiguous ZIP64 end records'')
          else zip64Candidates rest locatorAt size_of (Some (pos, entry)))))"

definition zip64End :: "byte list \<Rightarrow> int \<Rightarrow> int \<Rightarrow> (int \<times> byte list) scan" where
  "zip64End locator locatorAt size_of =
     bindScan (liftScan (zipUInt64 locator 8)) (\<lambda>advertised.
       zip64Candidates (remdups [advertised, locatorAt - 56]) locatorAt size_of None)"

record zip_layout =
  layCount :: int
  layStart :: int
  layEnd :: int
  layBase :: int

text \<open>The common end of both branches of \<open>layout\<close>.\<close>

definition finishLayout :: "int \<Rightarrow> int \<Rightarrow> int \<Rightarrow> int \<Rightarrow> zip_layout scan" where
  "finishLayout count directorySize offset directoryEnd =
     (let start = directoryEnd - directorySize; base = start - offset
      in if base < 0 \<or> start < 0 \<or> \<not> safeInt base
         then Fail (zipFormat ''invalid central directory offset'')
         else Done \<lparr>layCount = count, layStart = start, layEnd = directoryEnd, layBase = base\<rparr>)"

definition wideEnd ::
    "byte list \<Rightarrow> byte list \<Rightarrow> int \<Rightarrow> byte list \<Rightarrow> zip_layout scan" where
  "wideEnd end_record locator directoryEnd entry =
     (if leAt 4 entry 16 \<noteq> 0 \<or> leAt 4 entry 20 \<noteq> 0
      then Fail (zipFormat ''multi-disk ZIP64 archive'')
      else bindScan (liftScan (zipUInt64 entry 32)) (\<lambda>count.
           bindScan (liftScan (zipUInt64 entry 40)) (\<lambda>directorySize.
           bindScan (liftScan (zipUInt64 entry 48)) (\<lambda>offset.
           bindScan (liftScan (zipUInt64 entry 24)) (\<lambda>diskCount.
             if diskCount \<noteq> count then Fail (zipFormat ''ZIP64 disk count mismatch'')
             else if \<exists>(ordinary, sentinel, val) \<in> set
                      [(leAt 2 end_record 8, 0xffff, count), (leAt 2 end_record 10, 0xffff, count),
                       (leAt 4 end_record 12, 0xffffffff, directorySize),
                       (leAt 4 end_record 16, 0xffffffff, offset)].
                      ordinary \<noteq> sentinel \<and> ordinary \<noteq> val
             then Fail (zipFormat ''conflicting ZIP64 end values'')
             else bindScan (liftScan (zipUInt64 locator 8)) (\<lambda>advertised.
               if advertised \<noteq> directoryEnd - (directoryEnd - directorySize - offset)
               then Fail (zipFormat ''ZIP64 locator offset mismatch'')
               else finishLayout count directorySize offset directoryEnd))))))"

definition wideLayout :: "byte list \<Rightarrow> int \<Rightarrow> int \<Rightarrow> zip_layout scan" where
  "wideLayout end_record physicalEnd size_of =
     bindScan (readRecord (physicalEnd - 20) 20 size_of) (\<lambda>locator.
       if leAt 4 locator 0 \<noteq> 0x07064b50 \<or> leAt 4 locator 4 \<noteq> 0 \<or> leAt 4 locator 16 \<noteq> 1
       then Fail (zipFormat ''invalid ZIP64 locator'')
       else bindScan (zip64End locator (physicalEnd - 20) size_of)
              (\<lambda>found. wideEnd end_record locator (fst found) (snd found)))"

definition layout :: "int \<Rightarrow> zip_layout scan" where
  "layout size_of =
     (let tailStart = max 0 (size_of - 65557) in
      bindScan (readRecord tailStart (size_of - tailStart) size_of) (\<lambda>tail.
      bindScan (liftScan (endOffset tail)) (\<lambda>pos.
        let end_record = take 22 (drop pos tail);
            physicalEnd = tailStart + int pos;
            count = leAt 2 end_record 10;
            directorySize = leAt 4 end_record 12;
            offset = leAt 4 end_record 16
        in if leAt 2 end_record 4 \<noteq> 0 \<or> leAt 2 end_record 6 \<noteq> 0
           then Fail (zipFormat ''multi-disk archive'')
           else if count = 0xffff \<or> leAt 2 end_record 8 = 0xffff \<or> directorySize = 0xffffffff \<or>
                   offset = 0xffffffff
           then wideLayout end_record physicalEnd size_of
           else if leAt 2 end_record 8 \<noteq> count then Fail (zipFormat ''disk count mismatch'')
           else finishLayout count directorySize offset physicalEnd)))"

subsection \<open>ZIP64 extra values and data descriptors\<close>

record wide_values =
  wvCompressed :: int
  wvUncompressed :: int
  wvOffset :: int
  wvWide :: bool

definition takeWide :: "byte list option \<Rightarrow> int \<Rightarrow> int \<Rightarrow> error + int \<times> int" where
  "takeWide field cursor ordinary =
     (if ordinary \<noteq> 0xffffffff then Inr (ordinary, cursor)
      else case field of
             None \<Rightarrow> Inl (zipFormat ''ZIP64 extra field missing'')
           | Some f \<Rightarrow> bindE (zipUInt64 f cursor) (\<lambda>v. Inr (v, cursor + 8)))"

definition takeDisk :: "byte list option \<Rightarrow> int \<Rightarrow> int \<Rightarrow> error + int \<times> int" where
  "takeDisk field cursor disk =
     (if disk \<noteq> 0xffff then Inr (disk, cursor)
      else case field of
             None \<Rightarrow> Inl (zipFormat ''ZIP64 disk field missing'')
           | Some f \<Rightarrow>
               if cursor + 4 > int (length f) then Inl (zipFormat ''ZIP64 disk field missing'')
               else bindE (readUInt32LE f cursor) (\<lambda>d. Inr (d, cursor + 4)))"

text \<open>What may be left of the field once the sentinels are resolved.\<close>

definition checkRest :: "byte list option \<Rightarrow> bool \<Rightarrow> int \<Rightarrow> int \<Rightarrow> int \<Rightarrow> error + unit" where
  "checkRest field central cursor uncompressed compressed =
     (case field of
        None \<Rightarrow> Inr ()
      | Some f \<Rightarrow>
          if cursor = int (length f) then Inr ()
          else if central \<or> cursor \<noteq> 0 \<or> length f \<noteq> 16
          then Inl (zipFormat ''inconsistent ZIP64 extra field'')
          else bindE (zipUInt64 f 0) (\<lambda>a.
            if a \<noteq> uncompressed then Inl (zipFormat ''inconsistent ZIP64 extra field'')
            else bindE (zipUInt64 f 8) (\<lambda>b.
              throwIf (b \<noteq> compressed) (zipFormat ''inconsistent ZIP64 extra field''))))"

definition wideValues :: "byte list \<Rightarrow> extra_fields \<Rightarrow> bool \<Rightarrow> error + wide_values" where
  "wideValues header extra central =
     (let compressed0 = leAt 4 header (if central then 20 else 18);
          uncompressed0 = leAt 4 header (if central then 24 else 22);
          offset0 = (if central then leAt 4 header 42 else 0);
          disk0 = (if central then leAt 2 header 34 else 0);
          field = extra 1
      in bindE (throwIf (field = Some []) (zipFormat ''empty ZIP64 extra field'')) (\<lambda>_.
         bindE (takeWide field 0 uncompressed0) (\<lambda>(uncompressed, c1).
         bindE (takeWide field c1 compressed0) (\<lambda>(compressed, c2).
         bindE (takeWide field c2 offset0) (\<lambda>(offset, c3).
         bindE (takeDisk field c3 disk0) (\<lambda>(disk, c4).
         bindE (checkRest field central c4 uncompressed compressed) (\<lambda>_.
           if disk \<noteq> 0 then Inl (zipFormat ''multi-disk entry'')
           else Inr \<lparr>wvCompressed = compressed, wvUncompressed = uncompressed, wvOffset = offset,
                     wvWide = (compressed0 = 0xffffffff \<or> uncompressed0 = 0xffffffff)\<rparr>)))))))"

text \<open>One of the two places where the descriptor's fields may start.\<close>

definition descriptorMatch ::
    "byte list \<Rightarrow> nat \<Rightarrow> nat \<Rightarrow> int \<Rightarrow> int \<Rightarrow> int \<Rightarrow> bool \<Rightarrow> error + bool" where
  "descriptorMatch bytes len skip crc compressed uncompressed wide =
     (if skip \<noteq> 0 \<and> (length bytes < 4 \<or> leAt 4 bytes 0 \<noteq> 0x08074b50) then Inr False
      else if length bytes < len + skip \<or> leAt 4 bytes skip \<noteq> crc then Inr False
      else bindE (if wide then zipUInt64 bytes (int skip + 4) else Inr (leAt 4 bytes (skip + 4))) (\<lambda>c.
           bindE (if wide then zipUInt64 bytes (int skip + 12) else Inr (leAt 4 bytes (skip + 8))) (\<lambda>u.
             Inr (c = compressed \<and> u = uncompressed))))"

definition descriptorEnd ::
    "int \<Rightarrow> int \<Rightarrow> int \<Rightarrow> int \<Rightarrow> int \<Rightarrow> bool \<Rightarrow> int scan" where
  "descriptorEnd pos bound crc compressed uncompressed wide =
     (let len = (if wide then 20 else 12 :: nat) in
      bindScan (readRecord pos (min (int len + 4) (bound - pos)) bound) (\<lambda>bytes.
      bindScan (liftScan (descriptorMatch bytes len 0 crc compressed uncompressed wide)) (\<lambda>plain.
      bindScan (liftScan (descriptorMatch bytes len 4 crc compressed uncompressed wide)) (\<lambda>signed.
        if plain \<and> \<not> signed then Done (pos + int len)
        else if signed \<and> \<not> plain then Done (pos + int len + 4)
        else Fail (zipFormat ''invalid or ambiguous data descriptor'')))))"
subsection \<open>The scan\<close>

record zip_central =
  cenHeader :: "byte list"
  cenNext :: int
  cenName :: "byte list"
  cenExtra :: extra_fields
  cenValues :: wide_values
  cenFlags :: int

text \<open>From the central header at \<open>pos\<close> to the check of its flags.\<close>

definition centralRecord :: "zip_layout \<Rightarrow> int \<Rightarrow> byte list \<Rightarrow> zip_central scan" where
  "centralRecord directory pos central =
     (if length central < 46 \<or> leAt 4 central 0 \<noteq> 0x02014b50
      then Fail (zipFormat ''invalid central header'')
      else let nameLength = leAt 2 central 28;
               extraLength = leAt 2 central 30;
               after = pos + 46 + nameLength + extraLength + leAt 2 central 32;
               flags = leAt 2 central 8
           in if after > layEnd directory
              then Fail (zipFormat ''central record exceeds directory'')
              else bindScan (readRecord (pos + 46) (nameLength + extraLength) (layEnd directory)) (\<lambda>names.
                   bindScan (liftScan (zipExtraFields (drop (nat nameLength) names))) (\<lambda>extra.
                   bindScan (liftScan (wideValues central extra True)) (\<lambda>values.
                     if and flags 0xf7f1 \<noteq> 0 then Fail (zipFormat ''unsupported entry flags'')
                     else Done \<lparr>cenHeader = central, cenNext = after,
                            cenName = take (nat nameLength) names, cenExtra = extra,
                            cenValues = values, cenFlags = flags\<rparr>))))"

record zip_local =
  locHeader :: "byte list"
  locAt :: int
  locName :: "byte list"
  locExtra :: extra_fields
  locDataStart :: int

definition localRecord :: "zip_layout \<Rightarrow> zip_central \<Rightarrow> zip_local scan" where
  "localRecord directory c =
     (let localAt = layBase directory + wvOffset (cenValues c)
      in if localAt < layBase directory
         then Fail (zipFormat ''local offset precedes archive base'')
         else bindScan (readRecord localAt 30 (layStart directory)) (\<lambda>local.
           if leAt 4 local 0 \<noteq> 0x04034b50 \<or> leAt 2 local 6 \<noteq> cenFlags c \<or>
              leAt 2 local 8 \<noteq> leAt 2 (cenHeader c) 10
           then Fail (zipFormat ''local and central framing disagree'')
           else let nameLength = leAt 2 local 26; extraLength = leAt 2 local 28
                in bindScan (readRecord (localAt + 30) (nameLength + extraLength) (layStart directory)) (\<lambda>names.
                   bindScan (liftScan (zipExtraFields (drop (nat nameLength) names))) (\<lambda>extra.
                     Done \<lparr>locHeader = local, locAt = localAt, locName = take (nat nameLength) names,
                           locExtra = extra,
                           locDataStart = localAt + 30 + nameLength + extraLength\<rparr>))))"

definition checkLocalSizes ::
    "int \<Rightarrow> int \<Rightarrow> wide_values \<Rightarrow> int \<Rightarrow> wide_values \<Rightarrow> error + unit" where
  "checkLocalSizes flags crc values localCrc localValues =
     bindE (throwIf (and flags 8 = 0 \<and> (localCrc \<noteq> crc \<or>
                wvCompressed localValues \<noteq> wvCompressed values \<or>
                wvUncompressed localValues \<noteq> wvUncompressed values))
              (zipFormat ''local and central sizes or CRC disagree'')) (\<lambda>_.
       throwIf (and flags 8 \<noteq> 0 \<and> ((localCrc \<noteq> 0 \<and> localCrc \<noteq> crc) \<or>
           (wvCompressed localValues \<noteq> 0 \<and> wvCompressed localValues \<noteq> wvCompressed values) \<or>
           (wvUncompressed localValues \<noteq> 0 \<and> wvUncompressed localValues \<noteq> wvUncompressed values)))
         (zipFormat ''data descriptor placeholders disagree''))"

text \<open>The end of the entry's data and descriptor.\<close>

definition localDataEnd ::
    "zip_layout \<Rightarrow> zip_central \<Rightarrow> zip_local \<Rightarrow> wide_values \<Rightarrow> int scan" where
  "localDataEnd directory c l localValues =
     (let values = cenValues c
      in if wvCompressed values > layStart directory - locDataStart l
         then Fail (zipFormat ''entry data exceeds local area'')
         else let dataEnd = locDataStart l + wvCompressed values
              in if and (cenFlags c) 8 \<noteq> 0
                 then descriptorEnd dataEnd (layStart directory) (leAt 4 (cenHeader c) 16)
                        (wvCompressed values) (wvUncompressed values)
                        (wvWide values \<or> wvWide localValues)
                 else Done dataEnd)"

record zip_scan_state =
  zsAt :: int
  zsCount :: int
  zsSeen :: "jstr set"
  zsKnown :: "jstr set"
  zsSpans :: "(int \<times> int) list"
  zsEntries :: "zip_directory_entry list"

text \<open>Names of one entry: the set of keys and the tracker of known paths.\<close>

definition admitNames ::
    "unicode \<Rightarrow> platform \<Rightarrow> zip_central \<Rightarrow> zip_local \<Rightarrow> (zip_scan_state, error, zip_name) op" where
  "admitNames u p c l =
     bindS (zoomS zsSeen (\<lambda>x s. s\<lparr>zsSeen := x\<rparr>)
              (admitZipNames u p \<lparr>centralBytes = cenName c, localBytes = locName l,
                 nameFlags = cenFlags c, centralExtra = cenExtra c, localExtra = locExtra l\<rparr>)) (\<lambda>n.
     bindS (case namePath n of
              None \<Rightarrow> returnS ()
            | Some path \<Rightarrow> zoomS zsKnown (\<lambda>x s. s\<lparr>zsKnown := x\<rparr>) (trackOutputPath u path)) (\<lambda>_.
       returnS n))"

definition directoryEntry :: "int \<Rightarrow> zip_central \<Rightarrow> zip_name \<Rightarrow> zip_directory_entry" where
  "directoryEntry count c n =
     \<lparr>zeIndex = count - 1, zeCreatorSystem = leAt 1 (cenHeader c) 5,
      zeExternalAttributes = leAt 4 (cenHeader c) 38, zeSize = wvUncompressed (cenValues c),
      zeCompressedSize = wvCompressed (cenValues c),
      zeCompressionMethod = leAt 2 (cenHeader c) 10, zeCrc32 = leAt 4 (cenHeader c) 16,
      zePath = namePath n, zePortableKey = namePortableKey n,
      zePortableDirectory = namePortableDirectory n,
      zeKind = entryKind (leAt 4 (cenHeader c) 38) (nameDirectory n)\<rparr>"

text \<open>The body of the loop. Every callback of the source appends the entry to a list.\<close>

definition scanEntry ::
    "unicode \<Rightarrow> platform \<Rightarrow> resolved_limits \<Rightarrow> zip_layout \<Rightarrow> byte list \<Rightarrow> zip_scan_state \<Rightarrow>
     zip_scan_state scan" where
  "scanEntry u p limits directory central s =
     (let count = zsCount s + 1 in
      bindScan (liftScan (assertArchiveEntryCountWithinLimit count limits)) (\<lambda>_.
      bindScan (centralRecord directory (zsAt s) central) (\<lambda>c.
      bindScan (localRecord directory c) (\<lambda>l.
      case admitNames u p c l s of
        (Inl e, _) \<Rightarrow> Fail e
      | (Inr n, s1) \<Rightarrow>
          bindScan (liftScan (wideValues (locHeader l) (locExtra l) False)) (\<lambda>localValues.
          bindScan (liftScan (checkLocalSizes (cenFlags c) (leAt 4 central 16) (cenValues c)
                      (leAt 4 (locHeader l) 14) localValues)) (\<lambda>_.
          bindScan (localDataEnd directory c l localValues) (\<lambda>dataEnd.
            Done (s1\<lparr>zsAt := cenNext c, zsCount := count,
                     zsSpans := zsSpans s1 @ [(locAt l, dataEnd)],
                     zsEntries := zsEntries s1 @ [directoryEntry count c n]\<rparr>))))))))"

definition scanStep ::
    "unicode \<Rightarrow> platform \<Rightarrow> resolved_limits \<Rightarrow> zip_layout \<Rightarrow> zip_scan_state \<Rightarrow> zip_scan_state scan" where
  "scanStep u p limits directory s =
     bindScan (readRecord (zsAt s) (min 46 (layEnd directory - zsAt s)) (layEnd directory)) (\<lambda>central.
       if length central \<ge> 6 \<and> leAt 4 central 0 = 0x05054b50
       then (if leAt 2 central 4 \<noteq> layEnd directory - zsAt s - 6
             then Fail (zipFormat ''invalid directory signature length'')
             else Done (s\<lparr>zsAt := layEnd directory\<rparr>))
       else scanEntry u p limits directory central s)"

fun scanLoop ::
    "nat \<Rightarrow> unicode \<Rightarrow> platform \<Rightarrow> resolved_limits \<Rightarrow> zip_layout \<Rightarrow> zip_scan_state \<Rightarrow>
     zip_scan_state scan" where
  "scanLoop fuel u p limits directory s =
     (if zsAt s \<ge> layEnd directory then Done s
      else case fuel of
             0 \<Rightarrow> Fail (PlainErr ''out of fuel'')
           | Suc n \<Rightarrow> bindScan (scanStep u p limits directory s) (scanLoop n u p limits directory))"

declare scanLoop.simps [simp del]

fun overlapping :: "(int \<times> int) list \<Rightarrow> bool" where
  "overlapping (a # b # rest) = (fst b < snd a \<or> overlapping (b # rest))"
| "overlapping _ = False"

record zip_scan_result =
  scanCount :: int
  scanEntries :: "zip_directory_entry list"
  scanSpans :: "(int \<times> int) list"

text \<open>The source returns the count and hands the entries to its callback; the spans are kept in the
  result so that the properties can speak of them.\<close>

definition scanZipDirectory ::
    "unicode \<Rightarrow> platform \<Rightarrow> int \<Rightarrow> resolved_limits \<Rightarrow> zip_scan_result scan" where
  "scanZipDirectory u p size_of limits =
     bindScan (layout size_of) (\<lambda>directory.
     bindScan (liftScan (assertArchiveEntryCountWithinLimit (layCount directory) limits)) (\<lambda>_.
     bindScan (scanLoop (nat (layEnd directory - layStart directory)) u p limits directory
                 \<lparr>zsAt = layStart directory, zsCount = 0, zsSeen = {}, zsKnown = {}, zsSpans = [],
                  zsEntries = []\<rparr>) (\<lambda>s.
       if zsCount s \<noteq> layCount directory
       then Fail (zipFormat ''physical and declared entry counts disagree'')
       else let spans = sort_key fst (zsSpans s)
            in if overlapping spans then Fail (zipFormat ''overlapping local entries'')
               else Done \<lparr>scanCount = zsCount s, scanEntries = zsEntries s, scanSpans = spans\<rparr>)))"
subsection \<open>Facts about the end record\<close>

lemma leValue_inj: "length a = length b \<Longrightarrow> leValue a = leValue b \<Longrightarrow> a = b"
proof (induction a b rule: list_induct2)
  case Nil
  then show ?case by simp
next
  case (Cons x xs y ys)
  have e: "uint x + 256 * leValue xs = uint y + 256 * leValue ys" using Cons.prems by simp
  have x: "0 \<le> uint x" "uint x < 256" "0 \<le> uint y" "uint y < 256"
    using uint_byte_less [of x] uint_byte_less [of y] by auto
  have "leValue xs = (uint x + 256 * leValue xs) div 256" using x by simp
  also have "\<dots> = leValue ys" unfolding e using x by simp
  finally have v: "leValue xs = leValue ys" .
  then have "uint x = uint y" using e by simp
  then show ?case using Cons.IH v by (simp add: word_uint_eq_iff)
qed

lemma leAt_nonneg [simp]: "0 \<le> leAt n bs k"
  by (simp add: leAt_def)

definition endMatch :: "byte list \<Rightarrow> nat \<Rightarrow> bool" where
  "endMatch tail offset \<longleftrightarrow> take 4 (drop offset tail) = END_SIGNATURE \<and> endsArchive tail offset"

definition chooseEnd :: "nat list \<Rightarrow> error + nat" where
  "chooseEnd ms = (case ms of [] \<Rightarrow> Inl (zipFormat ''end record missing'') | [m] \<Rightarrow> Inr m
                   | _ \<Rightarrow> Inl (zipFormat ''ambiguous end records''))"

lemma signature_value: "leValue END_SIGNATURE = 0x06054b50"
  by (simp add: END_SIGNATURE_def)

lemma leAt_signature:
  assumes "offset + 4 \<le> length tail"
  shows "leAt 4 tail offset = 0x06054b50 \<longleftrightarrow> take 4 (drop offset tail) = END_SIGNATURE"
proof -
  have "length (take 4 (drop offset tail)) = length END_SIGNATURE"
    using assms by (simp add: END_SIGNATURE_def)
  then show ?thesis
    using leValue_inj [of "take 4 (drop offset tail)" END_SIGNATURE] signature_value
    by (auto simp: leAt_def)
qed

lemma upt_filter_Suc: "filter P [0..<Suc n] = filter P [0..<n] @ (if P n then [n] else [])"
  by simp

lemma denseFrom_eq:
  assumes "n \<le> length tail - 21"
  shows "denseFrom tail n found =
     chooseEnd (filter (endMatch tail) [0..<n] @ (case found of None \<Rightarrow> [] | Some f \<Rightarrow> [f]))"
  using assms
proof (induction n arbitrary: found)
  case 0
  then show ?case by (simp add: chooseEnd_def split: option.split)
next
  case (Suc n)
  have m: "endMatch tail n \<longleftrightarrow> leAt 4 tail n = 0x06054b50 \<and> endsArchive tail n"
    using leAt_signature [of n tail] Suc.prems by (auto simp: endMatch_def)
  have two: "chooseEnd (xs @ [a, b]) = Inl (zipFormat ''ambiguous end records'')" for xs a b
    by (auto simp: chooseEnd_def split: list.splits)
  have IH: "denseFrom tail n f = chooseEnd (filter (endMatch tail) [0..<n] @
      (case f of None \<Rightarrow> [] | Some f \<Rightarrow> [f]))" for f
    using Suc by simp
  show ?case
  proof (cases "endMatch tail n")
    case True
    then show ?thesis using m two by (cases found) (simp_all add: IH)
  next
    case False
    then have "\<not> (leAt 4 tail n = 0x06054b50 \<and> endsArchive tail n)" using m by simp
    then show ?thesis using False IH [of found] by (simp only: denseFrom.simps if_False upt_filter_Suc append_Nil2)
  qed
qed

lemma dense_choose: "denseEndOffset tail = chooseEnd (filter (endMatch tail) [0..<length tail - 21])"
  by (simp add: denseEndOffset_def denseFrom_eq)

lemma bufferIndexOf_None:
  "bufferIndexOf bs needle start = None \<longleftrightarrow>
     (\<forall>i \<in> {start..<length bs}. take (length needle) (drop i bs) \<noteq> needle)"
  by (auto simp: bufferIndexOf_def find_None_iff)

lemma bufferIndexOf_Some:
  "bufferIndexOf bs needle start = Some i \<Longrightarrow>
     start \<le> i \<and> i < length bs \<and> take (length needle) (drop i bs) = needle \<and>
     (\<forall>k \<in> {start..<i}. take (length needle) (drop k bs) \<noteq> needle)"
proof -
  assume "bufferIndexOf bs needle start = Some i"
  then obtain k where k: "k < length [start..<length bs]" "i = [start..<length bs] ! k"
    "take (length needle) (drop i bs) = needle"
    "\<forall>j<k. take (length needle) (drop ([start..<length bs] ! j) bs) \<noteq> needle"
    unfolding bufferIndexOf_def find_Some_iff by blast
  have i: "i = start + k" using k(1,2) by simp
  have "take (length needle) (drop j bs) \<noteq> needle" if "j \<in> {start..<i}" for j
  proof -
    have "j - start < k" "[start..<length bs] ! (j - start) = j" using that k(1) i by auto
    then show ?thesis using k(4) by metis
  qed
  then show ?thesis using k i by auto
qed

lemma filter_range_empty: "(\<And>i. a \<le> i \<Longrightarrow> i < b \<Longrightarrow> \<not> P i) \<Longrightarrow> filter P [a..<b] = []"
  by (simp add: filter_empty_conv)

lemma filter_split: "a \<le> b \<Longrightarrow> b \<le> c \<Longrightarrow> filter P [a..<c] = filter P [a..<b] @ filter P [b..<c]"
  by (metis filter_append le_Suc_ex upt_add_eq_append)

lemma sparseEnd_eq:
  assumes "filter (endMatch tail) [0..<start] = (case found of None \<Rightarrow> [] | Some f \<Rightarrow> [f])"
    "start \<le> length tail - 21"
  shows "sparseEnd k tail start found = chooseEnd (filter (endMatch tail) [0..<length tail - 21])"
  using assms
proof (induction k arbitrary: start found)
  case 0
  then show ?case by (simp add: dense_choose)
next
  case (Suc k)
  let ?L = "length tail - 21"
  let ?hits = "case found of None \<Rightarrow> [] | Some f \<Rightarrow> [f]"
  have sig: "length END_SIGNATURE = 4" by (simp add: END_SIGNATURE_def)
  have finish: ?case if e: "filter (endMatch tail) [start..<?L] = []"
    and s: "sparseEnd (Suc k) tail start found =
      (case found of None \<Rightarrow> Inl (zipFormat ''end record missing'') | Some f \<Rightarrow> Inr f)"
  proof -
    have "filter (endMatch tail) [0..<?L] = ?hits"
      using filter_split [of 0 start ?L "endMatch tail"] Suc.prems e by simp
    then show ?thesis using s by (cases found) (simp_all add: chooseEnd_def)
  qed
  show ?case
  proof (cases "bufferIndexOf tail END_SIGNATURE start")
    case None
    have "filter (endMatch tail) [start..<?L] = []"
      using None by (intro filter_range_empty) (auto simp: bufferIndexOf_None endMatch_def sig)
    then show ?thesis using None by (intro finish) simp_all
  next
    case (Some offset)
    from bufferIndexOf_Some [OF Some]
    have o: "start \<le> offset" "offset < length tail" "take 4 (drop offset tail) = END_SIGNATURE"
      "\<forall>i \<in> {start..<offset}. take 4 (drop i tail) \<noteq> END_SIGNATURE"
      by (simp_all add: sig)
    have before: "filter (endMatch tail) [start..<b] = []" if "b \<le> offset" for b
      using o(4) that by (intro filter_range_empty) (auto simp: endMatch_def)
    show ?thesis
    proof (cases "offset + 22 > length tail")
      case True
      then show ?thesis using Some by (intro finish before) auto
    next
      case False
      then have L: "offset + 1 \<le> ?L" by simp
      have upto: "filter (endMatch tail) [0..<offset + 1] =
          ?hits @ (if endMatch tail offset then [offset] else [])"
        using filter_split [of 0 start offset "endMatch tail"] before [of offset] o(1) Suc.prems by simp
      have m: "endMatch tail offset = endsArchive tail offset" using o(3) by (simp add: endMatch_def)
      show ?thesis
      proof (cases "endsArchive tail offset")
        case e: True
        show ?thesis
        proof (cases found)
          case None
          have "sparseEnd (Suc k) tail start found = sparseEnd k tail (offset + 1) (Some offset)"
            using Some False e None by simp
          also have "\<dots> = chooseEnd (filter (endMatch tail) [0..<?L])"
            using upto m e None L by (intro Suc.IH) simp_all
          finally show ?thesis .
        next
          case (Some f)
          have "filter (endMatch tail) [0..<?L] =
              f # offset # filter (endMatch tail) [offset + 1..<?L]"
            using filter_split [of 0 "offset + 1" ?L "endMatch tail"] upto m e Some L by simp
          then have "chooseEnd (filter (endMatch tail) [0..<?L]) = Inl (zipFormat ''ambiguous end records'')"
            by (simp add: chooseEnd_def)
          then show ?thesis
            using \<open>bufferIndexOf tail END_SIGNATURE start = Some offset\<close> False e Some by simp
        qed
      next
        case ne: False
        have "sparseEnd (Suc k) tail start found = sparseEnd k tail (offset + 1) found"
          using Some False ne by simp
        also have "\<dots> = chooseEnd (filter (endMatch tail) [0..<?L])"
          using upto m ne L by (intro Suc.IH) simp_all
        finally show ?thesis .
      qed
    qed
  qed
qed

lemma endOffset_choose: "endOffset tail = chooseEnd (filter (endMatch tail) [0..<length tail - 21])"
  unfolding endOffset_def by (rule sparseEnd_eq) simp_all

lemma endOffset_bound: "endOffset tail = Inr offset \<Longrightarrow> offset + 22 \<le> length tail"
proof -
  assume "endOffset tail = Inr offset"
  then have "filter (endMatch tail) [0..<length tail - 21] = [offset]"
    by (auto simp: endOffset_choose chooseEnd_def split: list.splits)
  then have "offset \<in> set (filter (endMatch tail) [0..<length tail - 21])" by simp
  then show ?thesis by auto
qed
subsection \<open>What the scan requests and answers\<close>

definition inside_file :: "int \<Rightarrow> int \<Rightarrow> int \<Rightarrow> bool" where
  "inside_file size_of offset len \<longleftrightarrow> 0 \<le> offset \<and> 0 \<le> len \<and> offset + len \<le> size_of"

lemma scanOk_readRecord:
  "bound \<le> size_of \<Longrightarrow>
   scanOk (inside_file size_of)
     (\<lambda>bytes. int (length bytes) = len \<and> 0 \<le> offset \<and> 0 \<le> len \<and> offset + len \<le> bound)
     (readRecord offset len bound)"
  by (auto simp: readRecord_def inside_file_def)

lemma zipUInt64_nonneg: "zipUInt64 bs k = Inr v \<Longrightarrow> 0 \<le> v"
  by (auto simp: zipUInt64_def guards dest: readLE_nonneg split: if_splits)

lemma scanOk_uint64: "scanOk ok (\<lambda>v. 0 \<le> v) (liftScan (zipUInt64 bs k))"
  by (rule scanOk_lift) (rule zipUInt64_nonneg)

lemma scanOk_any: "scanOk ok (\<lambda>_. True) (liftScan r)"
  by (rule scanOk_lift) simp

lemma scanOk_if: "(c \<Longrightarrow> scanOk ok Q m) \<Longrightarrow> (\<not> c \<Longrightarrow> scanOk ok Q n) \<Longrightarrow> scanOk ok Q (if c then m else n)"
  by simp

lemma scanOk_Fail [simp, intro]: "scanOk ok Q (Fail e)"
  by simp

lemmas scan_intros = scanOk_if scanOk_Fail scanOk_bind [OF scanOk_readRecord] scanOk_bind [OF scanOk_uint64]

lemma scanOk_zip64Candidates:
  assumes "locatorAt \<le> size_of" "\<And>f. found = Some f \<Longrightarrow> fst f \<le> locatorAt - 56"
  shows "scanOk (inside_file size_of) (\<lambda>f. fst f \<le> locatorAt - 56)
           (zip64Candidates cs locatorAt size_of found)"
  using assms(2)
proof (induction cs arbitrary: found)
  case Nil
  then show ?case by (simp split: option.split)
next
  case (Cons c cs)
  show ?case
    unfolding zip64Candidates.simps
    by (intro scan_intros Cons.IH) (use Cons.prems assms(1) in auto)
qed

definition goodLayout :: "int \<Rightarrow> zip_layout \<Rightarrow> bool" where
  "goodLayout size_of d \<longleftrightarrow> 0 \<le> layBase d \<and> layBase d \<le> layStart d \<and> layStart d \<le> layEnd d \<and>
     layEnd d \<le> size_of"

lemma scanOk_finishLayout:
  "0 \<le> directorySize \<Longrightarrow> 0 \<le> offset \<Longrightarrow> directoryEnd \<le> size_of \<Longrightarrow>
   scanOk ok (goodLayout size_of) (finishLayout count directorySize offset directoryEnd)"
  by (simp add: finishLayout_def Let_def goodLayout_def)

lemma scanOk_wideLayout:
  assumes "physicalEnd \<le> size_of"
  shows "scanOk (inside_file size_of) (goodLayout size_of) (wideLayout end_record physicalEnd size_of)"
proof -
  have candidates: "scanOk (inside_file size_of) (\<lambda>f. fst f \<le> physicalEnd - 20 - 56)
      (zip64End locator (physicalEnd - 20) size_of)" for locator
    unfolding zip64End_def
    by (intro scan_intros scanOk_zip64Candidates) (use assms in simp_all)
  have wide: "scanOk (inside_file size_of) (goodLayout size_of) (wideEnd end_record locator e entry)"
    if "e \<le> size_of" for locator e entry
    unfolding wideEnd_def by (intro scan_intros scanOk_finishLayout) (use that in simp_all)
  show ?thesis
    unfolding wideLayout_def
    by (intro scan_intros scanOk_bind [OF candidates] wide) (use assms in simp_all)
qed

lemma scanOk_layout: "scanOk (inside_file size_of) (goodLayout size_of) (layout size_of)"
proof -
  have e: "scanOk ok (\<lambda>pos. pos + 22 \<le> length tail) (liftScan (endOffset tail))" for ok tail
    by (rule scanOk_lift) (rule endOffset_bound)
  show ?thesis
    unfolding layout_def Let_def
    by (intro scan_intros scanOk_bind [OF e] scanOk_wideLayout scanOk_finishLayout) simp_all
qed

subsection \<open>One entry\<close>

lemma zipExtra_ok: "scanOk ok (\<lambda>_. True) (liftScan (zipExtraFields bs))"
  by (rule scanOk_any)

lemma takeWide_nonneg: "takeWide f c v = Inr (x, c') \<Longrightarrow> 0 \<le> v \<Longrightarrow> 0 \<le> x"
  by (auto simp: takeWide_def guards dest: zipUInt64_nonneg split: if_splits option.splits)

lemma wideValues_nonneg:
  assumes "wideValues h e c = Inr v"
  shows "0 \<le> wvCompressed v \<and> 0 \<le> wvUncompressed v \<and> 0 \<le> wvOffset v"
proof -
  note parts = assms [unfolded wideValues_def Let_def bindE_Inr_iff split_paired_Ex prod.case]
  show ?thesis
    using parts by (elim exE conjE) (auto dest!: takeWide_nonneg split: if_splits)
qed

lemma scanOk_wideValues:
  "scanOk ok (\<lambda>v. 0 \<le> wvCompressed v \<and> 0 \<le> wvUncompressed v \<and> 0 \<le> wvOffset v)
     (liftScan (wideValues h e c))"
  by (rule scanOk_lift) (rule wideValues_nonneg)

lemma scanOk_centralRecord:
  assumes "layEnd d \<le> size_of"
  shows "scanOk (inside_file size_of)
           (\<lambda>c. 0 \<le> wvCompressed (cenValues c) \<and> 0 \<le> wvOffset (cenValues c) \<and> pos + 46 \<le> cenNext c)
           (centralRecord d pos central)"
  unfolding centralRecord_def Let_def
  by (intro scan_intros scanOk_bind [OF zipExtra_ok] scanOk_bind [OF scanOk_wideValues])
     (use assms in simp_all)

lemma scanOk_localRecord:
  assumes "layStart d \<le> size_of" "0 \<le> wvOffset (cenValues c)"
  shows "scanOk (inside_file size_of)
           (\<lambda>l. layBase d \<le> locAt l \<and> locAt l + 30 \<le> locDataStart l) (localRecord d c)"
  unfolding localRecord_def Let_def
  by (intro scan_intros scanOk_bind [OF zipExtra_ok]) (use assms in simp_all)

lemma descriptorMatch_length:
  "descriptorMatch bytes len skip crc c u w = Inr True \<Longrightarrow> len + skip \<le> length bytes"
  by (auto simp: descriptorMatch_def split: if_splits)

lemma scanOk_descriptorEnd:
  assumes "bound \<le> size_of"
  shows "scanOk (inside_file size_of) (\<lambda>e. pos \<le> e \<and> e \<le> bound)
           (descriptorEnd pos bound crc c u w)"
proof -
  have m: "scanOk ok (\<lambda>b. b \<longrightarrow> (if w then 20 else 12) + skip \<le> length bytes)
      (liftScan (descriptorMatch bytes (if w then 20 else 12) skip crc c u w))" for ok skip bytes
    by (rule scanOk_lift) (auto dest: descriptorMatch_length)
  show ?thesis
    unfolding descriptorEnd_def Let_def
    by (intro scan_intros scanOk_bind [OF m]) (use assms in \<open>auto split: if_splits\<close>)
qed

lemma scanOk_localDataEnd:
  assumes "layStart d \<le> size_of" "0 \<le> wvCompressed (cenValues c)"
  shows "scanOk (inside_file size_of) (\<lambda>e. locDataStart l \<le> e \<and> e \<le> layStart d)
           (localDataEnd d c l v)"
  unfolding localDataEnd_def Let_def
  by (intro scan_intros scanOk_mono [OF scanOk_descriptorEnd]) (use assms in simp_all)
subsection \<open>The invariant of the loop\<close>

definition knownKeys :: "unicode \<Rightarrow> zip_directory_entry list \<Rightarrow> jstr list" where
  "knownKeys u es = map (collisionKey u) (presentNames (map zePath es))"

definition scanInv :: "unicode \<Rightarrow> zip_layout \<Rightarrow> zip_scan_state \<Rightarrow> bool" where
  "scanInv u d s \<longleftrightarrow>
     zsCount s = int (length (zsEntries s)) \<and> length (zsSpans s) = length (zsEntries s) \<and>
     map zeIndex (zsEntries s) = map int [0..<length (zsEntries s)] \<and>
     list_all (\<lambda>(a, b). layBase d \<le> a \<and> a + 30 \<le> b \<and> b \<le> layStart d) (zsSpans s) \<and>
     distinct (knownKeys u (zsEntries s)) \<and> set (knownKeys u (zsEntries s)) = zsKnown s"

lemma knownKeys_append:
  "knownKeys u (es @ [e]) =
     knownKeys u es @ (case zePath e of None \<Rightarrow> [] | Some q \<Rightarrow> [collisionKey u q])"
  by (auto simp: knownKeys_def presentNames_def map_filter_def split: option.split)

lemma admitNames_ok:
  assumes "admitNames u p c l s = (Inr n, s1)"
  shows "zsCount s1 = zsCount s \<and> zsSpans s1 = zsSpans s \<and> zsEntries s1 = zsEntries s \<and>
     zsKnown s1 = set (case namePath n of None \<Rightarrow> [] | Some q \<Rightarrow> [collisionKey u q]) \<union> zsKnown s \<and>
     zsKnown s \<inter> set (case namePath n of None \<Rightarrow> [] | Some q \<Rightarrow> [collisionKey u q]) = {}"
proof -
  obtain m s2 t where
    "admitZipNames u p \<lparr>centralBytes = cenName c, localBytes = locName l,
       nameFlags = cenFlags c, centralExtra = cenExtra c, localExtra = locExtra l\<rparr> (zsSeen s) = (Inr n, t)"
    "s2 = s\<lparr>zsSeen := t\<rparr>"
    "(case namePath n of None \<Rightarrow> returnS ()
      | Some path \<Rightarrow> zoomS zsKnown (\<lambda>x s. s\<lparr>zsKnown := x\<rparr>) (trackOutputPath u path)) s2 = (Inr (), s1)"
    using assms unfolding admitNames_def by (auto simp: guards)
  then show ?thesis by (cases "namePath n") (auto simp: trackOutputPath_ok)
qed

lemma scanInv_step:
  assumes "scanInv u d s" "admitNames u p c l s = (Inr n, s1)"
    "layBase d \<le> locAt l" "locAt l + 30 \<le> e" "e \<le> layStart d"
  shows "scanInv u d (s1\<lparr>zsAt := x, zsCount := zsCount s + 1, zsSpans := zsSpans s1 @ [(locAt l, e)],
           zsEntries := zsEntries s1 @ [directoryEntry (zsCount s + 1) c n]\<rparr>)"
proof -
  have n: "zePath (directoryEntry (zsCount s + 1) c n) = namePath n"
    "zeIndex (directoryEntry (zsCount s + 1) c n) = zsCount s"
    by (simp_all add: directoryEntry_def)
  from admitNames_ok [OF assms(2)] assms n show ?thesis
    by (cases "namePath n") (simp_all add: scanInv_def knownKeys_append)
qed

lemma scanOk_scanEntry:
  assumes "scanInv u d s" "goodLayout size_of d"
  shows "scanOk (inside_file size_of) (\<lambda>s'. scanInv u d s' \<and> zsAt s + 46 \<le> zsAt s')
           (scanEntry u p limits d central s)"
proof -
  have d: "layEnd d \<le> size_of" "layStart d \<le> size_of"
    using assms(2) by (auto simp: goodLayout_def)
  have names: "scanOk (inside_file size_of) (\<lambda>s'. scanInv u d s' \<and> zsAt s + 46 \<le> zsAt s')
      (case admitNames u p c l s of
        (Inl e, _) \<Rightarrow> Fail e
      | (Inr n, s1) \<Rightarrow>
          bindScan (liftScan (wideValues (locHeader l) (locExtra l) False)) (\<lambda>localValues.
          bindScan (liftScan (checkLocalSizes (cenFlags c) (leAt 4 central 16) (cenValues c)
                      (leAt 4 (locHeader l) 14) localValues)) (\<lambda>_.
          bindScan (localDataEnd d c l localValues) (\<lambda>dataEnd.
            Done (s1\<lparr>zsAt := cenNext c, zsCount := zsCount s + 1,
                     zsSpans := zsSpans s1 @ [(locAt l, dataEnd)],
                     zsEntries := zsEntries s1 @ [directoryEntry (zsCount s + 1) c n]\<rparr>)))))"
    if "0 \<le> wvCompressed (cenValues c)" "zsAt s + 46 \<le> cenNext c"
      "layBase d \<le> locAt l" "locAt l + 30 \<le> locDataStart l" for c l
  proof (cases "admitNames u p c l s")
    case (Pair r s1)
    show ?thesis
    proof (cases r)
      case (Inr n)
      then have a: "admitNames u p c l s = (Inr n, s1)" using Pair by simp
      show ?thesis
        unfolding a prod.case sum.case
        by (intro scanOk_bind [OF scanOk_wideValues] scanOk_bind [OF scanOk_any]
            scanOk_bind [OF scanOk_localDataEnd [OF d(2)]])
          (use that scanInv_step [OF assms(1) a] in simp_all)
    qed (simp add: Pair)
  qed
  show ?thesis
    unfolding scanEntry_def Let_def
    by (intro scanOk_bind [OF scanOk_any] scanOk_bind [OF scanOk_centralRecord [OF d(1)]]
        scanOk_bind [OF scanOk_localRecord [OF d(2)]] names) simp_all
qed

lemma scanOk_scanStep:
  assumes "scanInv u d s" "goodLayout size_of d" "zsAt s < layEnd d"
  shows "scanOk (inside_file size_of) (\<lambda>s'. scanInv u d s' \<and> zsAt s < zsAt s')
           (scanStep u p limits d s)"
proof -
  have d: "layEnd d \<le> size_of" using assms(2) by (auto simp: goodLayout_def)
  have closed: "scanInv u d (s\<lparr>zsAt := x\<rparr>)" for x using assms(1) by (simp add: scanInv_def)
  show ?thesis
    unfolding scanStep_def
    by (intro scan_intros scanOk_mono [OF scanOk_scanEntry [OF assms(1,2)]])
      (use d closed assms(3) in simp_all)
qed

lemma scanOk_scanLoop:
  "scanInv u d s \<Longrightarrow> goodLayout size_of d \<Longrightarrow>
   scanOk (inside_file size_of) (\<lambda>s'. scanInv u d s' \<and> layEnd d \<le> zsAt s') (scanLoop fuel u p limits d s)"
proof (induction fuel arbitrary: s)
  case 0
  then show ?case by (simp add: scanLoop.simps [of 0])
next
  case (Suc fuel)
  show ?case
  proof (cases "layEnd d \<le> zsAt s")
    case False
    then show ?thesis
      unfolding scanLoop.simps [of "Suc fuel"] nat.case if_False
      by (simp, intro scanOk_bind [OF scanOk_scanStep [OF Suc.prems]] Suc.IH)
         (use Suc.prems in auto)
  qed (use Suc in \<open>simp add: scanLoop.simps [of "Suc fuel"]\<close>)
qed

text \<open>Every round advances, so the length of the directory is enough fuel.\<close>

lemma scanLoop_fuel:
  assumes "scanInv u d s" "goodLayout size_of d" "nat (layEnd d - zsAt s) \<le> m" "nat (layEnd d - zsAt s) \<le> n"
  shows "scanLoop m u p limits d s = scanLoop n u p limits d s"
  using assms(1,3,4)
proof (induction m arbitrary: n s)
  case 0
  then show ?case by (simp add: scanLoop.simps [of 0] scanLoop.simps [of n])
next
  case (Suc m)
  show ?case
  proof (cases "layEnd d \<le> zsAt s")
    case True
    then show ?thesis by (simp add: scanLoop.simps [of "Suc m"] scanLoop.simps [of n])
  next
    case False
    then obtain k where n: "n = Suc k" using Suc.prems(3) by (cases n) auto
    have "bindScan (scanStep u p limits d s) (scanLoop m u p limits d) =
        bindScan (scanStep u p limits d s) (scanLoop k u p limits d)"
    proof (rule bindScan_cong_ok [OF scanOk_scanStep [OF Suc.prems(1) assms(2)]])
      show "zsAt s < layEnd d" using False by simp
      show "scanLoop m u p limits d x = scanLoop k u p limits d x"
        if "scanInv u d x \<and> zsAt s < zsAt x" for x
        using that Suc.prems n False by (intro Suc.IH) auto
    qed
    then show ?thesis using False by (simp add: n scanLoop.simps [of "Suc m"] scanLoop.simps [of "Suc k"])
  qed
qed

lemma sorted_disjoint:
  "\<not> overlapping xs \<Longrightarrow> list_all (\<lambda>(a, b). a \<le> b) xs \<Longrightarrow> sorted_wrt (\<lambda>x y. snd x \<le> fst y) xs"
proof (induction xs rule: overlapping.induct)
  case (1 a b rest)
  then have s: "sorted_wrt (\<lambda>x y. snd x \<le> fst y) (b # rest)" "snd a \<le> fst b" "fst b \<le> snd b"
    by auto
  then have "\<forall>y \<in> set rest. snd a \<le> fst y" by fastforce
  then show ?case using s by simp
qed simp_all
subsection \<open>Properties\<close>

lemma scanInv_start: "scanInv u d \<lparr>zsAt = x, zsCount = 0, zsSeen = {}, zsKnown = {}, zsSpans = [], zsEntries = []\<rparr>"
  by (simp add: scanInv_def knownKeys_def presentNames_def map_filter_def)

definition scanGoal :: "unicode \<Rightarrow> resolved_limits \<Rightarrow> int \<Rightarrow> zip_scan_result \<Rightarrow> bool" where
  "scanGoal u limits size_of r \<longleftrightarrow>
     scanCount r = int (length (scanEntries r)) \<and> scanCount r \<le> limEntries limits \<and>
     map zeIndex (scanEntries r) = map int [0..<length (scanEntries r)] \<and>
     distinct (knownKeys u (scanEntries r)) \<and>
     length (scanSpans r) = length (scanEntries r) \<and>
     list_all (\<lambda>(a, b). 0 \<le> a \<and> a + 30 \<le> b \<and> b \<le> size_of) (scanSpans r) \<and>
     sorted_wrt (\<lambda>x y. snd x \<le> fst y) (scanSpans r)"

lemma scanZipDirectory_safe:
  "scanOk (inside_file size_of) (scanGoal u limits size_of) (scanZipDirectory u p size_of limits)"
proof -
  have count: "scanOk (inside_file size_of) (\<lambda>_. layCount d \<le> limEntries limits)
      (liftScan (assertArchiveEntryCountWithinLimit (layCount d) limits))" for d
    by (rule scanOk_lift) (simp add: assertArchiveEntryCountWithinLimit_def)
  have finish: "scanGoal u limits size_of
       \<lparr>scanCount = zsCount s, scanEntries = zsEntries s, scanSpans = sort_key fst (zsSpans s)\<rparr>"
    if "scanInv u d s" "goodLayout size_of d" "layCount d \<le> limEntries limits"
      "zsCount s = layCount d" "\<not> overlapping (sort_key fst (zsSpans s))" for d s
  proof -
    have all: "list_all (\<lambda>(a, b). 0 \<le> a \<and> a + 30 \<le> b \<and> b \<le> size_of) (sort_key fst (zsSpans s))"
      using that(1,2) by (auto simp: scanInv_def goodLayout_def list_all_iff)
    have "sorted_wrt (\<lambda>x y. snd x \<le> fst y) (sort_key fst (zsSpans s))"
      using all by (intro sorted_disjoint [OF that(5)]) (auto simp: list_all_iff)
    then show ?thesis using all that by (simp add: scanGoal_def scanInv_def)
  qed
  show ?thesis
    unfolding scanZipDirectory_def Let_def
    by (intro scanOk_bind [OF scanOk_layout] scanOk_bind [OF count]
        scanOk_bind [OF scanOk_scanLoop] scan_intros)
      (use scanInv_start finish in simp_all)
qed

text \<open>C18: whatever bytes the driver answers, the scan only asks for ranges inside the file, and a
  scan that ends admitted at most the permitted number of entries, numbered in the order of the
  directory, whose known paths do not collide and whose local records are pairwise disjoint and
  inside the file.\<close>

theorem zip_scan_safe:
  "scanOk (inside_file size_of) (scanGoal u limits size_of) (scanZipDirectory u p size_of limits)"
  by (rule scanZipDirectory_safe)

text \<open>The two ways of looking for the end record agree: the search by native calls, which
  gives up after sixteen candidates, answers what the byte scan from the end answers, and both
  fail unless exactly one record ends the archive.\<close>

theorem endOffset_equals_dense_scan:
  "endOffset tail = denseEndOffset tail \<and>
   endOffset tail = chooseEnd (filter (endMatch tail) [0..<length tail - 21])"
  by (simp add: endOffset_choose dense_choose)

text \<open>The loop over the directory terminates: for every layout that passed the checks, any
  amount of fuel from the length of the directory on gives the same computation, so the bound that
  \<open>scanZipDirectory\<close> uses is never what ends the scan.\<close>

theorem scan_loop_terminates:
  assumes "goodLayout size_of d" "nat (layEnd d - layStart d) \<le> fuel"
  shows "scanLoop fuel u p limits d
      \<lparr>zsAt = layStart d, zsCount = 0, zsSeen = {}, zsKnown = {}, zsSpans = [], zsEntries = []\<rparr> =
    scanLoop (nat (layEnd d - layStart d)) u p limits d
      \<lparr>zsAt = layStart d, zsCount = 0, zsSeen = {}, zsKnown = {}, zsSpans = [], zsEntries = []\<rparr>"
  by (rule scanLoop_fuel [OF scanInv_start assms(1)]) (use assms(2) in simp_all)

text \<open>A smallest archive: one empty stored file called \<open>a\<close>.\<close>

definition demoZip :: "byte list" where
  "demoZip =
     [0x50, 0x4b, 3, 4, 20, 0, 0, 0, 0, 0, 0, 0, 0, 0, 0, 0, 0, 0, 0, 0, 0, 0, 0, 0, 0, 0, 1, 0, 0, 0, 97] @
     [0x50, 0x4b, 1, 2, 20, 3, 20, 0, 0, 0, 0, 0, 0, 0, 0, 0, 0, 0, 0, 0, 0, 0, 0, 0, 0, 0, 0, 0, 1, 0,
      0, 0, 0, 0, 0, 0, 0, 0, 0, 0, 164, 129, 0, 0, 0, 0, 97] @
     [0x50, 0x4b, 5, 6, 0, 0, 0, 0, 1, 0, 1, 0, 47, 0, 0, 0, 31, 0, 0, 0, 0, 0]"

lemma demoZip_scans:
  "(case runBuffer demoZip (scanZipDirectory asciiUnicode Posix 100 (resolveExtractLimits None)) of
      Inr r \<Rightarrow> scanSpans r = [(0, 31)] \<and> map zePath (scanEntries r) = [Some [97]]
    | Inl e \<Rightarrow> False)"
  by code_simp

theorem scan_loop_terminates_witness:
  "(let d = \<lparr>layCount = 1, layStart = 31, layEnd = 78, layBase = 0\<rparr>;
        s = \<lparr>zsAt = 31, zsCount = 0, zsSeen = {}, zsKnown = {}, zsSpans = [], zsEntries = []\<rparr>
    in goodLayout 100 d \<and>
       scanLoop 1000 asciiUnicode Posix (resolveExtractLimits None) d s =
       scanLoop 47 asciiUnicode Posix (resolveExtractLimits None) d s)"
  using scan_loop_terminates [of 100 "\<lparr>layCount = 1, layStart = 31, layEnd = 78, layBase = 0\<rparr>" 1000
      asciiUnicode Posix "resolveExtractLimits None"]
  by (simp add: goodLayout_def Let_def)

end
