(* ===== verification/ZipAdmission.thy ===== *)
theory ZipAdmission
  imports ZipDirectory
begin

text \<open>
  The two drivers of the directory scan (\<open>src/archive-zip-admission.ts\<close>): one answers every
  request from a buffer, the other from an open file through two cached windows of 4096 bytes.

  The file is read with positional reads of the operating system, which may be short: \<open>readAt\<close>
  is a parameter that answers bytes from a position on, at most as many as were asked for, and
  \<open>servesFile\<close> states what such reads promise of an immutable file. The deadline is a parameter
  too: \<open>expired n\<close> says whether the check number \<open>n\<close> throws. Opening the file through the root
  boundary and yielding to the event loop after 32 cached answers are not part of the model, but
  the check that follows the yield is.
\<close>

type_synonym reader = "int \<Rightarrow> int \<Rightarrow> byte list"

definition servesFile :: "reader \<Rightarrow> byte list \<Rightarrow> bool" where
  "servesFile readAt file \<longleftrightarrow>
     (\<forall>pos len. 0 \<le> pos \<and> 0 < len \<longrightarrow>
        prefix (readAt pos len) (drop (nat pos) file) \<and> int (length (readAt pos len)) \<le> len \<and>
        (readAt pos len = [] \<longleftrightarrow> int (length file) \<le> pos))"

definition checkSize :: "int \<Rightarrow> resolved_limits \<Rightarrow> error + unit" where
  "checkSize size_of limits =
     bindE (throwIf (size_of > limArchiveBytes limits) (ArchiveLimit ARCHIVE_SIZE_EXCEEDS_LIMIT)) (\<lambda>_.
       throwIf (\<not> safeInt size_of \<or> size_of < 0) (zipFormat ''invalid archive size''))"

definition admitZipBuffer ::
    "unicode \<Rightarrow> platform \<Rightarrow> byte list \<Rightarrow> resolved_limits \<Rightarrow> error + zip_scan_result" where
  "admitZipBuffer u p input limits =
     bindE (checkSize (int (length input)) limits) (\<lambda>_.
       runBuffer input (scanZipDirectory u p (int (length input)) limits))"

definition METADATA_WINDOW_BYTES :: int where
  "METADATA_WINDOW_BYTES = 4096"

definition CACHED_READS_PER_YIELD :: int where
  "CACHED_READS_PER_YIELD = 32"

record metadata_window =
  winOffset :: int
  winBytes :: "byte list"

record file_driver =
  fdWindows :: "metadata_window list"
  fdCachedReads :: int
  fdChecks :: nat

definition deadlineError :: error where
  "deadlineError = PlainErr ''timed out''"

definition deadlineCheck :: "(nat \<Rightarrow> bool) \<Rightarrow> (file_driver, error, unit) op" where
  "deadlineCheck expired =
     (\<lambda>s. (if expired (fdChecks s) then Inl deadlineError else Inr (), s\<lparr>fdChecks := fdChecks s + 1\<rparr>))"

text \<open>The inner loop: read until the buffer of \<open>capacity\<close> bytes is full or the file ends.\<close>

function fillBuffer ::
    "reader \<Rightarrow> (nat \<Rightarrow> bool) \<Rightarrow> int \<Rightarrow> nat \<Rightarrow> int \<Rightarrow> byte list \<Rightarrow> (file_driver, error, byte list) op" where
  "fillBuffer readAt expired offset capacity len received s =
     (if length received \<ge> capacity then (Inr received, s)
      else case deadlineCheck expired s of
        (Inl e, s1) \<Rightarrow> (Inl e, s1)
      | (Inr _, s1) \<Rightarrow>
          (let bytes = take (capacity - length received)
                 (readAt (offset + int (length received)) (int (capacity - length received)))
           in case deadlineCheck expired (s1\<lparr>fdCachedReads := 0\<rparr>) of
                (Inl e, s2) \<Rightarrow> (Inl e, s2)
              | (Inr _, s2) \<Rightarrow>
                  if bytes = [] then
                    (if int (length received) < len
                     then (Inl (zipFormat ''truncated staged record''), s2) else (Inr received, s2))
                  else fillBuffer readAt expired offset capacity len (received @ bytes) s2))"
  by pat_completeness auto
termination
  by (relation "measure (\<lambda>(_, _, _, capacity, _, received, _). capacity - length received)")
     (auto simp: neq_Nil_conv min_def)

declare fillBuffer.simps [simp del]

definition covers :: "int \<Rightarrow> int \<Rightarrow> metadata_window \<Rightarrow> bool" where
  "covers offset len w \<longleftrightarrow>
     offset \<ge> winOffset w \<and> len \<le> int (length (winBytes w)) - (offset - winOffset w)"

fun findIndex :: "('a \<Rightarrow> bool) \<Rightarrow> 'a list \<Rightarrow> nat option" where
  "findIndex p [] = None"
| "findIndex p (x # xs) = (if p x then Some 0 else map_option Suc (findIndex p xs))"

text \<open>An answer from a window, and one that fills a new window.\<close>

definition serveCached ::
    "(nat \<Rightarrow> bool) \<Rightarrow> nat \<Rightarrow> int \<Rightarrow> int \<Rightarrow> (file_driver, error, byte list) op" where
  "serveCached expired cached offset len =
     bindS (updateS (\<lambda>s. s\<lparr>fdCachedReads := fdCachedReads s + 1\<rparr>)) (\<lambda>_.
     bindS (\<lambda>s. if fdCachedReads s \<ge> CACHED_READS_PER_YIELD
                then deadlineCheck expired (s\<lparr>fdCachedReads := 0\<rparr>) else (Inr (), s)) (\<lambda>_ s.
       let w = fdWindows s ! cached
       in (Inr (subarray (winBytes w) (offset - winOffset w) (offset - winOffset w + len)),
           if cached = 1 then s\<lparr>fdWindows := rev (fdWindows s)\<rparr> else s)))"

definition serveRead ::
    "reader \<Rightarrow> (nat \<Rightarrow> bool) \<Rightarrow> int \<Rightarrow> int \<Rightarrow> int \<Rightarrow> (file_driver, error, byte list) op" where
  "serveRead readAt expired size_of offset len =
     (let cacheable = (0 < len \<and> len \<le> METADATA_WINDOW_BYTES);
          capacity = (if cacheable then min METADATA_WINDOW_BYTES (size_of - offset) else len)
      in bindS (fillBuffer readAt expired offset (nat capacity) len []) (\<lambda>filled.
         bindS (updateS (\<lambda>s.
             if cacheable
             then s\<lparr>fdWindows := take 2 (\<lparr>winOffset = offset, winBytes = filled\<rparr> # fdWindows s)\<rparr>
             else s)) (\<lambda>_.
           returnS (take (nat len) filled))))"

definition serve ::
    "reader \<Rightarrow> (nat \<Rightarrow> bool) \<Rightarrow> int \<Rightarrow> int \<Rightarrow> int \<Rightarrow> (file_driver, error, byte list) op" where
  "serve readAt expired size_of offset len =
     bindS (deadlineCheck expired) (\<lambda>_ s.
       case findIndex (covers offset len) (fdWindows s) of
         Some cached \<Rightarrow> serveCached expired cached offset len s
       | None \<Rightarrow> serveRead readAt expired size_of offset len s)"

primrec runServed ::
    "(int \<Rightarrow> int \<Rightarrow> (file_driver, error, byte list) op) \<Rightarrow> 'a scan \<Rightarrow> (file_driver, error, 'a) op" where
  "runServed answer (Done x) = returnS x"
| "runServed answer (Fail e) = liftS (Inl e)"
| "runServed answer (Read offset len k) = bindS (answer offset len) (\<lambda>bytes. runServed answer (k bytes))"

definition admitZipFile ::
    "unicode \<Rightarrow> platform \<Rightarrow> reader \<Rightarrow> (nat \<Rightarrow> bool) \<Rightarrow> int \<Rightarrow> resolved_limits \<Rightarrow> error + zip_scan_result" where
  "admitZipFile u p readAt expired size_of limits =
     fst (bindS (deadlineCheck expired) (\<lambda>_.
          bindS (liftS (checkSize size_of limits)) (\<lambda>_.
            runServed (serve readAt expired size_of) (scanZipDirectory u p size_of limits)))
          \<lparr>fdWindows = [], fdCachedReads = 0, fdChecks = 0\<rparr>)"

subsection \<open>Reads of an immutable file\<close>

definition holdsWindow :: "byte list \<Rightarrow> metadata_window \<Rightarrow> bool" where
  "holdsWindow file w \<longleftrightarrow> 0 \<le> winOffset w \<and> prefix (winBytes w) (drop (nat (winOffset w)) file)"

lemma deadlineCheck_cases:
  "deadlineCheck expired s = (Inl deadlineError, s\<lparr>fdChecks := fdChecks s + 1\<rparr>) \<or>
   deadlineCheck expired s = (Inr (), s\<lparr>fdChecks := fdChecks s + 1\<rparr>)"
  by (simp add: deadlineCheck_def)

lemma prefix_extend:
  assumes "prefix received (drop (nat offset) file)" "0 \<le> offset"
    "prefix bytes (drop (nat (offset + int (length received))) file)"
  shows "prefix (received @ bytes) (drop (nat offset) file)"
proof -
  obtain rest where r: "drop (nat offset) file = received @ rest"
    using assms(1) by (auto simp: prefix_def)
  have "nat (offset + int (length received)) = length received + nat offset"
    using assms(2) by (simp add: nat_add_distrib)
  then have "drop (nat (offset + int (length received))) file = drop (length received) (drop (nat offset) file)"
    by simp
  then have "drop (nat (offset + int (length received))) file = rest" by (simp add: r)
  then show ?thesis using assms(3) by (simp add: r)
qed

lemma fillBuffer_serves:
  assumes "servesFile readAt file" "0 \<le> offset" "offset + len \<le> int (length file)"
    "prefix received (drop (nat offset) file)"
  shows "(\<exists>s'. fillBuffer readAt expired offset capacity len received s = (Inl deadlineError, s') \<and>
            fdWindows s' = fdWindows s \<and> (\<exists>n. expired n)) \<or>
         (\<exists>filled s'. fillBuffer readAt expired offset capacity len received s = (Inr filled, s') \<and>
            fdWindows s' = fdWindows s \<and> prefix filled (drop (nat offset) file) \<and>
            (capacity \<le> length filled \<or> len \<le> int (length filled)))"
  using assms(4)
proof (induction "capacity - length received" arbitrary: received s rule: less_induct)
  case less
  let ?fill = "fillBuffer readAt expired offset capacity len"
  let ?pos = "offset + int (length received)" and ?want = "int (capacity - length received)"
  show ?case
  proof (cases "length received \<ge> capacity")
    case True
    then show ?thesis using less.prems by (auto simp: fillBuffer.simps [of _ _ _ _ _ received])
  next
    case more: False
    let ?bytes = "readAt ?pos ?want"
    from assms(1,2) more have b: "prefix ?bytes (drop (nat ?pos) file)" "int (length ?bytes) \<le> ?want"
      "?bytes = [] \<longleftrightarrow> int (length file) \<le> ?pos"
      by (auto simp: servesFile_def)
    then have t: "take (capacity - length received) ?bytes = ?bytes" by simp
    define s1 where "s1 = s\<lparr>fdChecks := fdChecks s + 1\<rparr>"
    define s2 where "s2 = s1\<lparr>fdCachedReads := 0, fdChecks := fdChecks s1 + 1\<rparr>"
    have w: "fdWindows s1 = fdWindows s" "fdWindows s2 = fdWindows s" by (simp_all add: s1_def s2_def)
    show ?thesis
    proof (cases "expired (fdChecks s) \<or> expired (fdChecks s1)")
      case True
      then show ?thesis
        using more by (auto simp: fillBuffer.simps [of _ _ _ _ _ received] deadlineCheck_def s1_def)
    next
      case False
      then have step: "?fill received s =
          (if ?bytes = [] then
             (if int (length received) < len
              then (Inl (zipFormat ''truncated staged record''), s2) else (Inr received, s2))
           else ?fill (received @ ?bytes) s2)"
        using more t by (simp add: fillBuffer.simps [of _ _ _ _ _ received] deadlineCheck_def s1_def s2_def)
      show ?thesis
      proof (cases "?bytes = []")
        case True
        then have "len \<le> int (length received)" using b(3) assms(3) by linarith
        then show ?thesis using True step less.prems w by auto
      next
        case ne: False
        then have "length ?bytes > 0" by simp
        then have "capacity - length (received @ ?bytes) < capacity - length received"
          using more unfolding length_append by linarith
        from less.hyps [OF this prefix_extend [OF less.prems assms(2) b(1)], of s2] ne step w
        show ?thesis by simp
      qed
    qed
  qed
qed

lemma subarray_prefix:
  assumes "prefix bytes (drop (nat base) file)" "0 \<le> base" "base \<le> offset" "0 \<le> len"
    "len \<le> int (length bytes) - (offset - base)"
  shows "subarray bytes (offset - base) (offset - base + len) = subarray file offset (offset + len)"
proof -
  obtain rest where r: "drop (nat base) file = bytes @ rest" using assms(1) by (auto simp: prefix_def)
  have n: "nat offset = nat (offset - base) + nat base" using assms by simp
  have "drop (nat offset) file = drop (nat (offset - base)) (drop (nat base) file)"
    unfolding n by simp
  also have "\<dots> = drop (nat (offset - base)) bytes @ drop (nat (offset - base) - length bytes) rest"
    by (simp add: r)
  finally have d: "drop (nat offset) file = drop (nat (offset - base)) bytes @
      drop (nat (offset - base) - length bytes) rest" .
  have "nat len \<le> length (drop (nat (offset - base)) bytes)" using assms by simp
  then show ?thesis unfolding subarray_def d by simp
qed

lemma findIndex_Some: "findIndex p xs = Some i \<Longrightarrow> i < length xs \<and> p (xs ! i)"
  by (induction xs arbitrary: i) (auto split: if_splits)

definition goodDriver :: "byte list \<Rightarrow> file_driver \<Rightarrow> bool" where
  "goodDriver file s \<longleftrightarrow> list_all (holdsWindow file) (fdWindows s) \<and> length (fdWindows s) \<le> 2"

text \<open>An answer of the driver: the deadline, or exactly the bytes of the file.\<close>

definition answered :: "(nat \<Rightarrow> bool) \<Rightarrow> byte list \<Rightarrow> int \<Rightarrow> int \<Rightarrow> (error + byte list) \<times> file_driver \<Rightarrow> bool" where
  "answered expired file offset len r \<longleftrightarrow>
     goodDriver file (snd r) \<and>
     (fst r = Inl deadlineError \<and> (\<exists>n. expired n) \<or> fst r = Inr (subarray file offset (offset + len)))"

lemma serveCached_answers:
  assumes "goodDriver file s" "findIndex (covers offset len) (fdWindows s) = Some cached" "0 \<le> len"
  shows "answered expired file offset len (serveCached expired cached offset len s)"
proof -
  let ?w = "fdWindows s ! cached"
  from findIndex_Some [OF assms(2)] have w: "cached < length (fdWindows s)" "covers offset len ?w"
    by simp_all
  then have h: "holdsWindow file ?w" using assms(1) by (simp add: goodDriver_def list_all_length)
  have bytes: "subarray (winBytes ?w) (offset - winOffset ?w) (offset - winOffset ?w + len) =
      subarray file offset (offset + len)"
    using h w(2) assms(3) by (intro subarray_prefix) (auto simp: holdsWindow_def covers_def)
  show ?thesis
    using assms(1) bytes
    by (auto simp: answered_def goodDriver_def serveCached_def bindS_def updateS_def deadlineCheck_def Let_def)
qed

lemma serveRead_answers:
  assumes "servesFile readAt file" "goodDriver file s" "inside_file (int (length file)) offset len"
  shows "answered expired file offset len (serveRead readAt expired (int (length file)) offset len s)"
proof -
  let ?cap = "if 0 < len \<and> len \<le> METADATA_WINDOW_BYTES
              then min METADATA_WINDOW_BYTES (int (length file) - offset) else len"
  have range: "0 \<le> offset" "0 \<le> len" "offset + len \<le> int (length file)"
    using assms(3) by (simp_all add: inside_file_def)
  have cap: "len \<le> ?cap" using range by auto
  from fillBuffer_serves [OF assms(1) range(1,3) Nil_prefix, of expired "nat ?cap" s]
  show ?thesis
  proof (rule disjE)
    assume "\<exists>s'. fillBuffer readAt expired offset (nat ?cap) len [] s = (Inl deadlineError, s') \<and>
      fdWindows s' = fdWindows s \<and> (\<exists>n. expired n)"
    then obtain s' where "fillBuffer readAt expired offset (nat ?cap) len [] s = (Inl deadlineError, s')"
      "fdWindows s' = fdWindows s" "\<exists>n. expired n" by blast
    then show ?thesis
      using assms(2) by (simp add: serveRead_def Let_def bindS_def answered_def goodDriver_def)
  next
    assume "\<exists>filled s'. fillBuffer readAt expired offset (nat ?cap) len [] s = (Inr filled, s') \<and>
      fdWindows s' = fdWindows s \<and> prefix filled (drop (nat offset) file) \<and>
      (nat ?cap \<le> length filled \<or> len \<le> int (length filled))"
    then obtain filled s' where f: "fillBuffer readAt expired offset (nat ?cap) len [] s = (Inr filled, s')"
      "fdWindows s' = fdWindows s" "prefix filled (drop (nat offset) file)"
      "nat ?cap \<le> length filled \<or> len \<le> int (length filled)" by blast
    have l: "len \<le> int (length filled)" using f(4) cap by linarith
    have bytes: "take (nat len) filled = subarray file offset (offset + len)"
      using subarray_prefix [OF f(3) range(1) order.refl range(2)] l by (simp add: subarray_def)
    have h: "holdsWindow file \<lparr>winOffset = offset, winBytes = filled\<rparr>"
      using f(3) range by (simp add: holdsWindow_def)
    show ?thesis
      using assms(2) f(1,2) bytes h
      by (auto simp: serveRead_def Let_def bindS_def updateS_def returnS_def answered_def goodDriver_def
          list_all_iff dest: in_set_takeD)
  qed
qed

lemma serve_answers:
  assumes "servesFile readAt file" "goodDriver file s" "inside_file (int (length file)) offset len"
  shows "answered expired file offset len (serve readAt expired (int (length file)) offset len s)"
proof -
  let ?s = "s\<lparr>fdChecks := fdChecks s + 1\<rparr>"
  have g: "goodDriver file ?s" using assms(2) by (simp add: goodDriver_def)
  have len: "0 \<le> len" using assms(3) by (simp add: inside_file_def)
  show ?thesis
  proof (cases "expired (fdChecks s)")
    case True
    then show ?thesis using g by (simp add: serve_def bindS_def deadlineCheck_def answered_def) blast
  next
    case False
    then show ?thesis
      using serveCached_answers [OF g _ len] serveRead_answers [OF assms(1) g assms(3)]
      by (auto simp: serve_def bindS_def deadlineCheck_def split: option.split)
  qed
qed

lemma runServed_refines:
  assumes "\<And>offset len s. inside_file (int (length file)) offset len \<Longrightarrow> goodDriver file s \<Longrightarrow>
             answered expired file offset len (answer offset len s)"
    "scanOk (inside_file (int (length file))) Q m" "goodDriver file s"
  shows "fst (runServed answer m s) = Inl deadlineError \<and> (\<exists>n. expired n) \<or> fst (runServed answer m s) = runBuffer file m"
  using assms(2,3)
proof (induction m arbitrary: s)
  case (Read offset len k)
  let ?b = "subarray file offset (offset + len)"
  have a: "answered expired file offset len (answer offset len s)" using assms(1) Read.prems by simp
  obtain r t where rt: "answer offset len s = (r, t)" by fastforce
  show ?case
  proof (cases "r = Inl deadlineError")
    case True
    then show ?thesis using a by (auto simp: bindS_def rt answered_def)
  next
    case False
    then have "r = Inr ?b" "goodDriver file t" using a rt by (auto simp: answered_def)
    then show ?thesis using Read.IH [of "k ?b" t] Read.prems by (simp add: bindS_def rt)
  qed
qed (simp_all add: returnS_def liftS_def)

subsection \<open>Properties\<close>

text \<open>C19: the windowed file driver implements the buffer driver: over reads that serve a file, however
  short, admission of the file answers what admission of its bytes answers, unless the deadline expires.\<close>

theorem admitZipFile_refines_buffer:
  assumes "servesFile readAt file"
  shows "admitZipFile u p readAt expired (int (length file)) limits = Inl deadlineError \<and>
           (\<exists>n. expired n) \<or>
         admitZipFile u p readAt expired (int (length file)) limits = admitZipBuffer u p file limits"
proof -
  let ?s = "\<lparr>fdWindows = [], fdCachedReads = 0, fdChecks = Suc 0\<rparr>"
  have "fst (runServed (serve readAt expired (int (length file)))
          (scanZipDirectory u p (int (length file)) limits) ?s) = Inl deadlineError \<and> (\<exists>n. expired n) \<or>
        fst (runServed (serve readAt expired (int (length file)))
          (scanZipDirectory u p (int (length file)) limits) ?s) =
        runBuffer file (scanZipDirectory u p (int (length file)) limits)"
    by (rule runServed_refines [OF serve_answers [OF assms] scanZipDirectory_safe])
       (simp_all add: goodDriver_def)
  then show ?thesis
    by (cases "checkSize (int (length file)) limits")
       (auto simp: admitZipFile_def admitZipBuffer_def bindS_def deadlineCheck_def liftS_def)
qed

definition shortReads :: "byte list \<Rightarrow> reader" where
  "shortReads file pos len = take (nat (min len 7)) (drop (nat pos) file)"

lemma shortReads_serves: "servesFile (shortReads file) file"
  unfolding servesFile_def
proof (intro allI impI)
  fix pos len :: int
  assume a: "0 \<le> pos \<and> 0 < len"
  define n where "n = nat (min len 7)"
  have n: "n \<noteq> 0" "int n \<le> len" "shortReads file pos len = take n (drop (nat pos) file)"
    using a by (auto simp: n_def shortReads_def)
  have "take n (drop (nat pos) file) = [] \<longleftrightarrow> int (length file) \<le> pos"
    using n(1) a by auto
  moreover have "int (length (take n (drop (nat pos) file))) \<le> len" using n(2) by simp
  ultimately show "prefix (shortReads file pos len) (drop (nat pos) file) \<and>
      int (length (shortReads file pos len)) \<le> len \<and>
      (shortReads file pos len = [] \<longleftrightarrow> int (length file) \<le> pos)"
    unfolding n(3) by (simp only: take_is_prefix simp_thms)
qed

theorem admitZipFile_refines_buffer_witness:
  "servesFile (shortReads demoZip) demoZip \<and>
   isOk (admitZipFile asciiUnicode Posix (shortReads demoZip) (\<lambda>_. False) (int (length demoZip))
           (resolveExtractLimits None))"
proof -
  have "isOk (admitZipBuffer asciiUnicode Posix demoZip (resolveExtractLimits None))" by code_simp
  moreover have "admitZipFile asciiUnicode Posix (shortReads demoZip) (\<lambda>_. False) (int (length demoZip))
        (resolveExtractLimits None) =
      admitZipBuffer asciiUnicode Posix demoZip (resolveExtractLimits None)"
    using admitZipFile_refines_buffer [OF shortReads_serves, of asciiUnicode Posix demoZip "\<lambda>_. False"]
    by simp
  ultimately show ?thesis using shortReads_serves by (simp only: simp_thms)
qed

end
