(* ===== verification/ZipLoader.thy ===== *)
theory ZipLoader
  imports ZipAdmission
begin

text \<open>
  Association of a ZIP decoder's entries with the admitted directory: the native manifest
  (\<open>src/archive-zip-manifest.ts\<close>), the JSZip loader (\<open>src/archive-zip-loader.ts\<close>), the admitted
  entry (\<open>src/archive-zip-entry.ts\<close>) and the integrity check of an entry's bytes
  (\<open>src/archive-zip-integrity.ts\<close>, the reader of \<open>src/archive-read.ts\<close>).

  JSZip is not part of the repository. What one run of its loader does is a parameter of type
  \<open>decoder_run\<close>: the insertions it asks for, in order, the error it throws by itself, and the
  objects it leaves in its file table. Objects are told apart by a number, their identity.
\<close>

definition zipDisagreement :: error where
  "zipDisagreement = ArchiveFormat ''ZIP decoder disagrees with admitted directory metadata''"

definition zipCollision :: error where
  "zipCollision = ArchiveSecurity Entry_path ''zip archive contains duplicate or colliding entry names''"

subsection \<open>The native manifest\<close>

record native_entry =
  neIndex :: int
  nePath :: jstr
  neSize :: int
  neKind :: entry_kind
  neMode :: "int option"

definition unixMode :: "zip_directory_entry \<Rightarrow> int option" where
  "unixMode physical =
     (if zeCreatorSystem physical = 3 then Some (drop_bit 16 (zeExternalAttributes physical)) else None)"

definition manifestPathMatches :: "native_entry \<Rightarrow> zip_directory_entry \<Rightarrow> bool" where
  "manifestPathMatches entry physical =
     (case zePath physical of
        None \<Rightarrow> True
      | Some path \<Rightarrow> nePath entry = path \<or>
          stripArchivePath (nePath entry) (Finite 0) = stripArchivePath path (Finite 0))"

definition manifestEntryAgrees :: "int \<Rightarrow> native_entry \<Rightarrow> zip_directory_entry \<Rightarrow> bool" where
  "manifestEntryAgrees ordinal entry physical \<longleftrightarrow>
     zeIndex physical = ordinal \<and> neIndex entry = ordinal \<and> neSize entry = zeSize physical \<and>
     neKind entry = zeKind physical \<and> manifestPathMatches entry physical \<and>
     (zeCreatorSystem physical = 3 \<longrightarrow> neMode entry = unixMode physical)"

fun validateManifestFrom ::
    "unicode \<Rightarrow> int \<Rightarrow> native_entry list \<Rightarrow> zip_directory_entry list \<Rightarrow> (jstr set, error, unit) op" where
  "validateManifestFrom u ordinal [] admitted = returnS ()"
| "validateManifestFrom u ordinal (entry # manifest) [] = liftS (Inl zipDisagreement)"
| "validateManifestFrom u ordinal (entry # manifest) (physical # admitted) =
     bindS (liftS (throwIf (\<not> manifestEntryAgrees ordinal entry physical) zipDisagreement)) (\<lambda>_.
     bindS (trackOutputPath u (nePath entry)) (\<lambda>_.
       validateManifestFrom u (ordinal + 1) manifest admitted))"

definition validateNativeZipManifest ::
    "unicode \<Rightarrow> native_entry list \<Rightarrow> zip_directory_entry list \<Rightarrow> error + unit" where
  "validateNativeZipManifest u manifest admitted =
     bindE (throwIf (length manifest \<noteq> length admitted)
              (ArchiveSecurity Entry_path ''zip decoder collapsed entry names'')) (\<lambda>_.
       fst (validateManifestFrom u 0 manifest admitted {}))"

subsection \<open>The loader\<close>

text \<open>The decoder's description of compressed contents; \<open>None\<close> stands for a value that is no such
  object (no object at all, a checksum that is no integer, no content worker).\<close>

record zip_data =
  zdCrc32 :: int
  zdSize :: int
  zdCompressedSize :: int
  zdMagic :: "jstr option"
  zdIdentity :: nat

definition matchesData :: "zip_data option \<Rightarrow> zip_directory_entry \<Rightarrow> bool" where
  "matchesData v physical =
     (case v of
        None \<Rightarrow> False
      | Some data \<Rightarrow>
          zdCrc32 data \<ge> - 0x80000000 \<and> zdCrc32 data \<le> 0xffffffff \<and>
          zdCrc32 data mod 2 ^ 32 = zeCrc32 physical \<and> zdSize data = zeSize physical \<and>
          zdCompressedSize data = zeCompressedSize physical \<and>
          zdMagic data = Some [and (zeCompressionMethod physical) 255,
                               drop_bit 8 (zeCompressionMethod physical)])"

text \<open>A call of the intercepted \<open>file\<close> method. A permission field is \<open>None\<close> when undefined and
  \<open>Some None\<close> when null. \<open>fcCreated\<close> is the object the original method left under the name.\<close>

record file_call =
  fcWellFormed :: bool
  fcName :: jstr
  fcData :: "zip_data option"
  fcUnixPermissions :: "int option option"
  fcDosPermissions :: "int option option"
  fcDir :: "bool option"
  fcCreated :: "nat option"

record insertion =
  insObject :: nat
  insPhysical :: zip_directory_entry
  insData :: zip_data

record loader_state =
  lsRemaining :: "jstr \<rightharpoonup> zip_directory_entry"
  lsInserted :: "insertion list"

definition dosMode :: "zip_directory_entry \<Rightarrow> int option" where
  "dosMode physical =
     (if zeCreatorSystem physical = 0 then Some (and (zeExternalAttributes physical) 63) else None)"

definition decoderDirectory :: "zip_directory_entry \<Rightarrow> bool" where
  "decoderDirectory physical \<longleftrightarrow>
     and (zeExternalAttributes physical) 16 \<noteq> 0 \<or> zePortableDirectory physical"

definition callAgrees :: "file_call \<Rightarrow> zip_directory_entry \<Rightarrow> nat \<Rightarrow> bool" where
  "callAgrees c physical inserted \<longleftrightarrow>
     zeIndex physical = int inserted \<and> fcUnixPermissions c = Some (unixMode physical) \<and>
     fcDosPermissions c = Some (dosMode physical) \<and> fcDir c = Some (decoderDirectory physical) \<and>
     matchesData (fcData c) physical"

text \<open>The first loop: the physical entry of every portable key.\<close>

fun indexAdmitted ::
    "unicode \<Rightarrow> zip_directory_entry list \<Rightarrow>
     (jstr set \<times> (jstr \<rightharpoonup> zip_directory_entry), error, unit) op" where
  "indexAdmitted u [] = returnS ()"
| "indexAdmitted u (entry # rest) =
     bindS (zoomS fst (\<lambda>s t. (s, snd t)) (trackOutputPath u (zePortableKey entry))) (\<lambda>_.
     bindS (throwWhen (\<lambda>s. snd s (zePortableKey entry) \<noteq> None) zipCollision) (\<lambda>_.
     bindS (updateS (\<lambda>s. (fst s, (snd s)(zePortableKey entry \<mapsto> entry)))) (\<lambda>_.
       indexAdmitted u rest)))"

definition insertFile ::
    "unicode \<Rightarrow> platform \<Rightarrow> (jstr \<rightharpoonup> zip_directory_entry) \<Rightarrow> file_call \<Rightarrow> (loader_state, error, unit) op" where
  "insertFile u p physicalByPath c =
     bindS (liftS (throwIf (\<not> fcWellFormed c) zipDisagreement)) (\<lambda>_.
     bindS (liftS (validateArchiveEntryPath u p (fcName c))) (\<lambda>_ s.
       let key = zipPathKey (fcName c)
       in case lsRemaining s key of
            None \<Rightarrow> (Inl (if physicalByPath key \<noteq> None then zipCollision else zipDisagreement), s)
          | Some physical \<Rightarrow>
              if \<not> callAgrees c physical (length (lsInserted s)) then (Inl zipDisagreement, s)
              else (case (fcCreated c, fcData c) of
                 (Some object, Some data) \<Rightarrow>
                   if object \<in> insObject ` set (lsInserted s) then (Inl zipDisagreement, s)
                   else (Inr (), s\<lparr>lsInserted := lsInserted s @
                                     [\<lparr>insObject = object, insPhysical = physical, insData = data\<rparr>],
                                   lsRemaining := (lsRemaining s)(key := None)\<rparr>)
               | _ \<Rightarrow> (Inl zipDisagreement, s))))"

text \<open>An object of the decoder's file table after the load; \<open>None\<close> when its name is no string.\<close>

record file_object =
  foObject :: nat
  foName :: "jstr option"
  foDir :: bool
  foUnixPermissions :: "int option"
  foDosPermissions :: "int option"
  foData :: "zip_data option"

record decoder_run =
  drCalls :: "file_call list"
  drThrows :: "error option"
  drFiles :: "(jstr \<times> file_object option) list"

definition objectAgrees :: "jstr \<Rightarrow> jstr \<Rightarrow> file_object \<Rightarrow> insertion \<Rightarrow> bool" where
  "objectAgrees name entryName entry i \<longleftrightarrow>
     zipPathKey name = zePortableKey (insPhysical i) \<and>
     zipPathKey entryName = zePortableKey (insPhysical i) \<and> \<not> foDir entry \<and>
     foUnixPermissions entry = None \<and> foDosPermissions entry = None \<and>
     foData entry = Some (insData i) \<and> matchesData (foData entry) (insPhysical i)"

type_synonym normalized = "int \<rightharpoonup> jstr \<times> file_object \<times> zip_directory_entry"

definition normalizeFile ::
    "unicode \<Rightarrow> platform \<Rightarrow> jstr \<times> file_object option \<Rightarrow> (insertion list \<times> normalized, error, unit) op" where
  "normalizeFile u p file =
     bindS (liftS (validateArchiveEntryPath u p (fst file))) (\<lambda>_.
     case snd file of
       None \<Rightarrow> liftS (Inl zipDisagreement)
     | Some entry \<Rightarrow>
         (case foName entry of
            None \<Rightarrow> liftS (Inl zipDisagreement)
          | Some entryName \<Rightarrow>
              bindS (liftS (validateArchiveEntryPath u p entryName)) (\<lambda>_ s.
                case List.find (\<lambda>i. insObject i = foObject entry) (fst s) of
                  None \<Rightarrow> (Inl zipDisagreement, s)
                | Some i \<Rightarrow>
                    if \<not> objectAgrees (fst file) entryName entry i then (Inl zipDisagreement, s)
                    else (Inr (),
                          (filter (\<lambda>j. insObject j \<noteq> foObject entry) (fst s),
                           (snd s)(zeIndex (insPhysical i) \<mapsto> (fst file, entry, insPhysical i)))))))"

record admitted_zip_entry =
  azObject :: nat
  azEntryName :: jstr
  azName :: jstr
  azKind :: entry_kind
  azMode :: "int option"
  azSize :: int
  azCrc32 :: int
  azDir :: bool
  azUnixPermissions :: "int option"
  azDosPermissions :: "int option"

definition createAdmittedZipEntry ::
    "file_object \<Rightarrow> jstr \<Rightarrow> jstr \<Rightarrow> zip_directory_entry \<Rightarrow> admitted_zip_entry" where
  "createAdmittedZipEntry entry entryName name physical =
     \<lparr>azObject = foObject entry, azEntryName = entryName, azName = name, azKind = zeKind physical,
      azMode = unixMode physical, azSize = zeSize physical, azCrc32 = zeCrc32 physical,
      azDir = (zeKind physical = Entry_directory),
      azUnixPermissions = orElse (unixMode physical)
         (if zeKind physical = Entry_symlink then Some 40960 else None),
      azDosPermissions = dosMode physical\<rparr>"

definition slashName :: "jstr \<Rightarrow> jstr" where
  "slashName name = (if name = [] then [DOT] else name) @ [SLASH]"

record zip_admission =
  zaFiles :: "jstr \<rightharpoonup> nat"
  zaEntries :: "(jstr \<times> admitted_zip_entry) list"

definition restoreFile ::
    "jstr \<times> file_object \<times> zip_directory_entry \<Rightarrow> (zip_admission, error, unit) op" where
  "restoreFile item =
     (case item of (name, entry, physical) \<Rightarrow>
        let appendSlash = (zeKind physical = Entry_directory \<and> \<not> endsWith name [SLASH]);
            normalizedName = (if appendSlash then slashName name else name);
            entryName = (case foName entry of None \<Rightarrow> [] | Some n \<Rightarrow> n)
        in bindS (throwWhen (\<lambda>s. zaFiles s normalizedName \<noteq> None) zipCollision) (\<lambda>_.
             updateS (\<lambda>s. s\<lparr>zaFiles := (zaFiles s)(normalizedName \<mapsto> foObject entry),
               zaEntries := zaEntries s @
                 [(zePortableKey physical,
                   createAdmittedZipEntry entry (if appendSlash then slashName entryName else entryName)
                     normalizedName physical)]\<rparr>)))"

text \<open>What the source throws for an error of the load.\<close>

definition wrapLoadError :: "error \<Rightarrow> error" where
  "wrapLoadError e =
     (case e of ArchiveFormat _ \<Rightarrow> e | ArchiveSecurity _ _ \<Rightarrow> e
      | _ \<Rightarrow> ArchiveFormat ''invalid ZIP archive'')"

definition mapError :: "('e \<Rightarrow> 'f) \<Rightarrow> 'e + 'a \<Rightarrow> 'f + 'a" where
  "mapError f r = (case r of Inl e \<Rightarrow> Inl (f e) | Inr x \<Rightarrow> Inr x)"

definition loadAsync ::
    "unicode \<Rightarrow> platform \<Rightarrow> (jstr \<rightharpoonup> zip_directory_entry) \<Rightarrow> decoder_run \<Rightarrow> (loader_state, error, unit) op" where
  "loadAsync u p physicalByPath run =
     bindS (runAll (insertFile u p physicalByPath) (drCalls run)) (\<lambda>_.
       liftS (case drThrows run of None \<Rightarrow> Inr () | Some e \<Rightarrow> Inl e))"

text \<open>The array is read from index 0 on; a hole would be destructured and throw.\<close>

definition arrayItems :: "nat \<Rightarrow> normalized \<Rightarrow> error + (jstr \<times> file_object \<times> zip_directory_entry) list" where
  "arrayItems n array =
     mapE (\<lambda>i. case array (int i) of None \<Rightarrow> Inl (PlainErr ''TypeError'') | Some x \<Rightarrow> Inr x) [0..<n]"

definition loadAdmittedZipArchive ::
    "unicode \<Rightarrow> platform \<Rightarrow> decoder_run \<Rightarrow> zip_directory_entry list \<Rightarrow> error + zip_admission" where
  "loadAdmittedZipArchive u p run admitted =
     bindE (execS (indexAdmitted u admitted) ({}, Map.empty)) (\<lambda>indexed.
       let physicalByPath = snd (snd indexed)
       in bindE (mapError wrapLoadError (execS (loadAsync u p physicalByPath run)
                   \<lparr>lsRemaining = physicalByPath, lsInserted = []\<rparr>)) (\<lambda>loaded.
          bindE (throwIf (length (drFiles run) \<noteq> length admitted) zipCollision) (\<lambda>_.
          bindE (execS (runAll (normalizeFile u p) (drFiles run)) (lsInserted (snd loaded), Map.empty)) (\<lambda>left.
          bindE (throwIf ((\<exists>e \<in> set admitted. lsRemaining (snd loaded) (zePortableKey e) \<noteq> None) \<or>
                    fst (snd left) \<noteq> []) zipDisagreement) (\<lambda>_.
          bindE (arrayItems (length admitted) (snd (snd left))) (\<lambda>items.
          bindE (execS (runAll restoreFile items) \<lparr>zaFiles = Map.empty, zaEntries = []\<rparr>) (\<lambda>result.
            Inr (snd result))))))))"

subsection \<open>Facts about the loader\<close>

lemma indexAdmitted_ok:
  "indexAdmitted u es (seen, m) = (Inr x, (seen', m')) \<Longrightarrow>
     distinct (map zePortableKey es) \<and> dom m \<inter> zePortableKey ` set es = {} \<and>
     m' = m ++ map_of (map (\<lambda>e. (zePortableKey e, e)) es)"
proof (induction es arbitrary: seen m)
  case Nil
  then show ?case by simp
next
  case (Cons e es)
  from Cons.prems obtain seen2 where
    e: "m (zePortableKey e) = None"
    "indexAdmitted u es (seen2, m(zePortableKey e \<mapsto> e)) = (Inr x, (seen', m'))"
    by (auto simp: guards)
  note IH = Cons.IH [OF e(2), THEN conjunct1] Cons.IH [OF e(2), THEN conjunct2, THEN conjunct1]
    Cons.IH [OF e(2), THEN conjunct2, THEN conjunct2]
  have new: "zePortableKey e \<notin> zePortableKey ` set es" "dom m \<inter> zePortableKey ` set es = {}"
    using IH(2) unfolding dom_fun_upd by auto
  have "zePortableKey e \<notin> dom (map_of (map (\<lambda>e. (zePortableKey e, e)) es))"
    using new(1) by (simp add: dom_map_of_conv_image_fst image_image)
  then have "m' = m ++ map_of (map (\<lambda>e. (zePortableKey e, e)) (e # es))"
    unfolding IH(3) by (simp add: map_add_upd_left)
  moreover have "distinct (map zePortableKey (e # es))" using IH(1) new(1) by simp
  moreover have "dom m \<inter> zePortableKey ` set (e # es) = {}" using new(2) e(1) by auto
  ultimately show ?case by blast
qed

definition insertedInv :: "(jstr \<rightharpoonup> zip_directory_entry) \<Rightarrow> loader_state \<Rightarrow> bool" where
  "insertedInv m s \<longleftrightarrow>
     map (zeIndex \<circ> insPhysical) (lsInserted s) = map int [0..<length (lsInserted s)] \<and>
     insPhysical ` set (lsInserted s) \<subseteq> ran m \<and> lsRemaining s \<subseteq>\<^sub>m m \<and>
     distinct (map insObject (lsInserted s))"

lemma insertFile_inv:
  assumes "insertFile u p m c s = (Inr x, t)" "insertedInv m s"
  shows "insertedInv m t"
proof -
  obtain physical object data where c: "lsRemaining s (zipPathKey (fcName c)) = Some physical"
    "zeIndex physical = int (length (lsInserted s))"
    "object \<notin> insObject ` set (lsInserted s)"
    "t = s\<lparr>lsInserted := lsInserted s @ [\<lparr>insObject = object, insPhysical = physical, insData = data\<rparr>],
           lsRemaining := (lsRemaining s)(zipPathKey (fcName c) := None)\<rparr>"
    using assms(1)
    by (auto simp: insertFile_def guards Let_def callAgrees_def split: option.splits if_splits)
  have "m (zipPathKey (fcName c)) = Some physical"
    using c(1) assms(2) by (auto simp: insertedInv_def map_le_def dom_def)
  then have "physical \<in> ran m" by (auto simp: ran_def)
  moreover have "(lsRemaining s)(zipPathKey (fcName c) := None) \<subseteq>\<^sub>m m"
    using assms(2) by (auto simp: insertedInv_def map_le_def)
  ultimately show ?thesis using assms(2) c(2,3) by (auto simp: insertedInv_def c(4))
qed

definition consumedInv ::
    "insertion list \<Rightarrow> insertion list \<times> normalized \<Rightarrow> bool" where
  "consumedInv ins s \<longleftrightarrow>
     set (fst s) \<subseteq> set ins \<and> distinct (map insObject (fst s)) \<and>
     (\<forall>i \<in> set ins. i \<in> set (fst s) \<or>
        (\<exists>name entry. snd s (zeIndex (insPhysical i)) = Some (name, entry, insPhysical i) \<and>
           foObject entry = insObject i))"

lemma normalizeFile_step:
  assumes "normalizeFile u p f s = (Inr x, t)"
  shows "\<exists>i entry. i \<in> set (fst s) \<and> insObject i = foObject entry \<and>
     fst t = filter (\<lambda>j. insObject j \<noteq> insObject i) (fst s) \<and>
     snd t = (snd s)(zeIndex (insPhysical i) \<mapsto> (fst f, entry, insPhysical i))"
proof -
  obtain entry i where n: "List.find (\<lambda>i. insObject i = foObject entry) (fst s) = Some i"
    "t = (filter (\<lambda>j. insObject j \<noteq> foObject entry) (fst s),
          (snd s)(zeIndex (insPhysical i) \<mapsto> (fst f, entry, insPhysical i)))"
    using assms by (auto simp: normalizeFile_def guards split: option.splits if_splits)
  from n(1) have "i \<in> set (fst s)" "insObject i = foObject entry"
    by (auto simp: find_Some_iff)
  then show ?thesis using n(2) by (intro exI [of _ i] exI [of _ entry]) simp
qed

lemma normalizeFile_inv:
  assumes "normalizeFile u p f s = (Inr x, t)" "consumedInv ins s"
    "distinct (map (zeIndex \<circ> insPhysical) ins)"
  shows "consumedInv ins t"
proof -
  obtain i entry where i: "i \<in> set (fst s)" "insObject i = foObject entry"
    "fst t = filter (\<lambda>j. insObject j \<noteq> insObject i) (fst s)"
    "snd t = (snd s)(zeIndex (insPhysical i) \<mapsto> (fst f, entry, insPhysical i))"
    using normalizeFile_step [OF assms(1)] by blast
  have old: "set (fst s) \<subseteq> set ins" "distinct (map insObject (fst s))"
    using assms(2) by (auto simp: consumedInv_def)
  have "j \<in> set (fst t) \<or> (\<exists>name entry. snd t (zeIndex (insPhysical j)) = Some (name, entry, insPhysical j) \<and>
           foObject entry = insObject j)" if j: "j \<in> set ins" for j
  proof (cases "j = i")
    case True
    then show ?thesis using i by auto
  next
    case False
    then have ne: "zeIndex (insPhysical j) \<noteq> zeIndex (insPhysical i)"
      using assms(3) j i(1) old(1) by (auto simp: distinct_map inj_on_def)
    have "insObject j \<noteq> insObject i" if "j \<in> set (fst s)"
      using old(2) that i(1) False by (auto simp: distinct_map inj_on_def)
    then show ?thesis using assms(2) j ne i by (auto simp: consumedInv_def)
  qed
  then show ?thesis using old i(3) by (auto simp: consumedInv_def distinct_map_filter)
qed

lemma arrayItems_ok:
  "arrayItems n array = Inr items \<Longrightarrow> map (\<lambda>i. array (int i)) [0..<n] = map Some items"
proof -
  have "mapE (\<lambda>i. case array (int i) of None \<Rightarrow> Inl (PlainErr ''TypeError'') | Some x \<Rightarrow> Inr x) is = Inr items \<Longrightarrow>
      map (\<lambda>i. array (int i)) is = map Some items" for "is"
    by (induction "is" arbitrary: items) (auto simp: guards split: option.splits)
  then show "arrayItems n array = Inr items \<Longrightarrow> ?thesis" by (simp add: arrayItems_def)
qed

definition sameEntry :: "jstr \<times> admitted_zip_entry \<Rightarrow> zip_directory_entry \<Rightarrow> bool" where
  "sameEntry a e \<longleftrightarrow>
     fst a = zePortableKey e \<and> azKind (snd a) = zeKind e \<and> azSize (snd a) = zeSize e \<and>
     azCrc32 (snd a) = zeCrc32 e \<and> azMode (snd a) = unixMode e \<and>
     azDir (snd a) = (zeKind e = Entry_directory)"

lemma restoreFile_ok:
  assumes "restoreFile item s = (Inr x, t)"
  shows "\<exists>a. zaEntries t = zaEntries s @ [a] \<and> sameEntry a (snd (snd item)) \<and>
           azObject (snd a) = foObject (fst (snd item))"
  using assms
  by (cases item) (auto simp: restoreFile_def Let_def guards sameEntry_def createAdmittedZipEntry_def)

lemma restoreFile_run:
  "runAll restoreFile items s = (Inr xs, t) \<Longrightarrow>
   \<exists>as. zaEntries t = zaEntries s @ as \<and> list_all2 sameEntry as (map (snd \<circ> snd) items)"
proof (induction items arbitrary: s xs)
  case Nil
  then show ?case by simp
next
  case (Cons item items)
  then obtain y s' ys where r: "restoreFile item s = (Inr y, s')" "runAll restoreFile items s' = (Inr ys, t)"
    by auto
  from restoreFile_ok [OF r(1)] Cons.IH [OF r(2)] show ?case by (auto intro: list_all2_appendI)
qed
lemma filter_key_unique: "distinct (map f xs) \<Longrightarrow> i \<in> set xs \<Longrightarrow> filter (\<lambda>j. f j = f i) xs = [i]"
proof (induction xs)
  case (Cons x xs)
  then show ?case
  proof (cases "i = x")
    case True
    then have "filter (\<lambda>j. f j = f i) xs = []"
      using Cons.prems(1) by (auto simp: filter_empty_conv image_iff)
    then show ?thesis using True by simp
  qed auto
qed simp

lemma mapError_ok [simp, guards]: "mapError f r = Inr x \<longleftrightarrow> r = Inr x"
  by (cases r) (simp_all add: mapError_def)

lemma consumed_lengths:
  "runAll (normalizeFile u p) fs s = (Inr xs, t) \<Longrightarrow> distinct (map insObject (fst s)) \<Longrightarrow>
   length (fst s) = length fs + length (fst t)"
proof (induction fs arbitrary: s xs)
  case Nil
  then show ?case by simp
next
  case (Cons f fs)
  then obtain y s' ys where r: "normalizeFile u p f s = (Inr y, s')"
    "runAll (normalizeFile u p) fs s' = (Inr ys, t)" by auto
  from normalizeFile_step [OF r(1)] obtain i where
    i: "i \<in> set (fst s)" "fst s' = filter (\<lambda>j. insObject j \<noteq> insObject i) (fst s)" by blast
  have "distinct (map insObject (fst s'))" using Cons.prems(2) i(2) by (simp add: distinct_map_filter)
  moreover have "length (fst s) = Suc (length (fst s'))"
  proof -
    have "filter (\<lambda>j. insObject j = insObject i) (fst s) = [i]"
      by (rule filter_key_unique [OF Cons.prems(2) i(1)])
    then show ?thesis
      using sum_length_filter_compl [of "\<lambda>j. insObject j = insObject i" "fst s"] i(2) by simp
  qed
  ultimately show ?case using Cons.IH [OF r(2)] by simp
qed

text \<open>The contract of the load: what was inserted, and what the checks after it leave.\<close>

lemma loadAdmitted_ok:
  assumes "loadAdmittedZipArchive u p run admitted = Inr result"
    "map zeIndex admitted = map int [0..<length admitted]"
  shows "list_all2 sameEntry (zaEntries result) admitted \<and> distinct (map zePortableKey admitted)"
proof -
  obtain indexed loaded left items result' where r0:
    "indexAdmitted u admitted ({}, Map.empty) = (Inr (fst indexed), snd indexed)"
    "loadAsync u p (snd (snd indexed)) run \<lparr>lsRemaining = snd (snd indexed), lsInserted = []\<rparr> =
       (Inr (fst loaded), snd loaded)"
    "length (drFiles run) = length admitted"
    "runAll (normalizeFile u p) (drFiles run) (lsInserted (snd loaded), Map.empty) = (Inr (fst left), snd left)"
    "fst (snd left) = []" "arrayItems (length admitted) (snd (snd left)) = Inr items"
    "runAll restoreFile items \<lparr>zaFiles = Map.empty, zaEntries = []\<rparr> = (Inr (fst result'), snd result')"
    "result = snd result'"
    using assms(1) unfolding loadAdmittedZipArchive_def Let_def bindE_Inr_iff throwIf_Inr_iff
      mapError_ok execS_ok by blast
  define m s array where "m = snd (snd indexed)" "s = snd loaded" "array = snd (snd left)"
  have r: "indexAdmitted u admitted ({}, Map.empty) = (Inr (fst indexed), (fst (snd indexed), m))"
    "loadAsync u p m run \<lparr>lsRemaining = m, lsInserted = []\<rparr> = (Inr (fst loaded), s)"
    "length (drFiles run) = length admitted"
    "runAll (normalizeFile u p) (drFiles run) (lsInserted s, Map.empty) = (Inr (fst left), ([], array))"
    "fst (snd left) = []" "arrayItems (length admitted) array = Inr items"
    "runAll restoreFile items \<lparr>zaFiles = Map.empty, zaEntries = []\<rparr> = (Inr (fst result'), result)"
    using r0 by (simp_all add: m_s_array_def prod_eq_iff)
  note m = indexAdmitted_ok [OF r(1)]
  obtain ws where calls: "runAll (insertFile u p m) (drCalls run) \<lparr>lsRemaining = m, lsInserted = []\<rparr> = (Inr ws, s)"
    using r(2) by (auto simp: loadAsync_def guards split: option.splits)
  have "insertedInv m \<lparr>lsRemaining = m, lsInserted = []\<rparr>" by (simp add: insertedInv_def)
  have "insertedInv m s"
    by (rule runAll_invariant [where P = "insertedInv m", OF calls]) (fact, rule insertFile_inv)
  then have ins: "map (zeIndex \<circ> insPhysical) (lsInserted s) = map int [0..<length (lsInserted s)]"
    "insPhysical ` set (lsInserted s) \<subseteq> ran m" "distinct (map insObject (lsInserted s))"
    by (simp_all add: insertedInv_def)
  have d: "distinct (map (zeIndex \<circ> insPhysical) (lsInserted s))"
    unfolding ins(1) by (simp add: distinct_map)
  have "consumedInv (lsInserted s) (lsInserted s, Map.empty)"
    using ins(3) by (simp add: consumedInv_def)
  have c: "consumedInv (lsInserted s) ([], array)"
    by (rule runAll_invariant [where P = "consumedInv (lsInserted s)", OF r(4)])
       (fact, rule normalizeFile_inv [OF _ _ d])
  have len: "length (lsInserted s) = length admitted"
    using consumed_lengths [OF r(4)] ins(3) r(3,5) by simp
  have ran: "ran m \<subseteq> set admitted"
    using m by (auto simp: ran_def dest!: map_of_SomeD)
  have physical: "insPhysical (lsInserted s ! k) = admitted ! k" if "k < length admitted" for k
  proof -
    have "insPhysical (lsInserted s ! k) \<in> set admitted" using that len ins(2) ran by force
    then obtain j where j: "j < length admitted" "insPhysical (lsInserted s ! k) = admitted ! j"
      by (auto simp: in_set_conv_nth)
    have "int k = zeIndex (admitted ! j)"
      using arg_cong [OF ins(1), of "\<lambda>xs. xs ! k"] that len j(2) by simp
    moreover have "zeIndex (admitted ! j) = int j"
      using arg_cong [OF assms(2), of "\<lambda>xs. xs ! j"] j(1) by simp
    ultimately show ?thesis using j(2) by simp
  qed
  have item: "map (snd \<circ> snd) items = admitted"
  proof (rule nth_equalityI)
    have l: "length items = length admitted"
      using arg_cong [OF arrayItems_ok [OF r(6)], of length] by simp
    then show "length (map (snd \<circ> snd) items) = length admitted" by simp
    fix k assume "k < length (map (snd \<circ> snd) items)"
    then have k: "k < length admitted" using l by simp
    have "lsInserted s ! k \<in> set (lsInserted s)" using k len by simp
    then obtain name entry where
      "array (zeIndex (insPhysical (lsInserted s ! k))) = Some (name, entry, insPhysical (lsInserted s ! k))"
      using c by (fastforce simp: consumedInv_def)
    moreover have "zeIndex (admitted ! k) = int k"
      using arg_cong [OF assms(2), of "\<lambda>xs. xs ! k"] k by simp
    ultimately have "array (int k) = Some (name, entry, admitted ! k)" using physical [OF k] by simp
    moreover have "array (int k) = Some (items ! k)"
      using arg_cong [OF arrayItems_ok [OF r(6)], of "\<lambda>xs. xs ! k"] k l by simp
    ultimately have "items ! k = (name, entry, admitted ! k)" by simp
    then show "map (snd \<circ> snd) items ! k = admitted ! k" using k l by simp
  qed
  from restoreFile_run [OF r(7)] item show ?thesis using m by simp
qed
subsection \<open>Reading one entry\<close>

record integrity_state =
  actualCrc32 :: "32 word"
  actualSize :: int

definition createZipIntegrityTransform :: integrity_state where
  "createZipIntegrityTransform = \<lparr>actualCrc32 = 0, actualSize = 0\<rparr>"

definition integrityTransform :: "byte list \<Rightarrow> (integrity_state, error, unit) op" where
  "integrityTransform chunk = updateS (\<lambda>s.
     \<lparr>actualCrc32 = updateCrc32 (actualCrc32 s) chunk, actualSize = actualSize s + int (length chunk)\<rparr>)"

definition integrityFlush :: "admitted_zip_entry \<Rightarrow> (integrity_state, error, unit) op" where
  "integrityFlush record_of = throwWhen
     (\<lambda>s. actualSize s \<noteq> azSize record_of \<or> uint (actualCrc32 s) \<noteq> azCrc32 record_of mod 2 ^ 32)
     (ArchiveFormat ''zip entry integrity check failed'')"

definition normalizeZipIntegrityError :: "error \<Rightarrow> error" where
  "normalizeZipIntegrityError e =
     (case e of
        PlainErr message \<Rightarrow>
          if sublist ''uncompressed data size mismatch'' message
          then ArchiveFormat ''invalid ZIP entry data'' else e
      | _ \<Rightarrow> e)"

text \<open>The writable end of the pipeline: the running total and the chunks kept.\<close>

definition sinkWrite :: "int \<Rightarrow> byte list \<Rightarrow> (int \<times> byte list list, error, unit) op" where
  "sinkWrite maxBytes chunk =
     bindS (updateS (\<lambda>s. (fst s + int (length chunk), snd s))) (\<lambda>_.
     bindS (throwWhen (\<lambda>s. fst s > maxBytes) (ArchiveLimit ENTRY_EXTRACTED_SIZE_EXCEEDS_LIMIT)) (\<lambda>_.
       updateS (\<lambda>s. (fst s, snd s @ [chunk]))))"

definition pipeChunk :: "int \<Rightarrow> byte list \<Rightarrow> (integrity_state \<times> int \<times> byte list list, error, unit) op" where
  "pipeChunk maxBytes chunk =
     bindS (zoomS fst (\<lambda>x s. (x, snd s)) (integrityTransform chunk)) (\<lambda>_.
       zoomS snd (\<lambda>x s. (fst s, x)) (sinkWrite maxBytes chunk))"

text \<open>The pipeline over the chunks of a stream, one after another, with the flush at its end. Which
  of two failures of one pipeline is reported depends on the buffering of streams and is not
  modelled.\<close>

definition pipeEntry :: "admitted_zip_entry \<Rightarrow> int \<Rightarrow> byte list list \<Rightarrow> error + byte list" where
  "pipeEntry record_of maxBytes chunks =
     bindE (execS (bindS (runAll (pipeChunk maxBytes) chunks) (\<lambda>_.
                     zoomS fst (\<lambda>x s. (x, snd s)) (integrityFlush record_of)))
              (createZipIntegrityTransform, 0, [])) (\<lambda>r.
       Inr (concat (snd (snd (snd r)))))"

definition assertZipEntryBinding ::
    "unicode \<Rightarrow> platform \<Rightarrow> zip_admission \<Rightarrow> admitted_zip_entry \<Rightarrow> jstr \<Rightarrow> error + unit" where
  "assertZipEntryBinding u p archive record_of path =
     bindE (validateArchiveEntryPath u p (azEntryName record_of)) (\<lambda>_.
       throwIf (zaFiles archive (azName record_of) \<noteq> Some (azObject record_of) \<or>
                zipPathKey (azEntryName record_of) \<noteq> path) zipDisagreement)"

text \<open>\<open>streamOf\<close> is the decoder's stream of an object: its chunks, or the error it ends with.\<close>

definition readZipEntry ::
    "unicode \<Rightarrow> platform \<Rightarrow> decoder_run \<Rightarrow> (nat \<Rightarrow> error + byte list list) \<Rightarrow> jstr \<Rightarrow> int \<Rightarrow>
     zip_directory_entry list \<Rightarrow> error + byte list" where
  "readZipEntry u p run streamOf entryPath maxBytes admitted =
     bindE (loadAdmittedZipArchive u p run admitted) (\<lambda>archive.
     case map_of (zaEntries archive) entryPath of
       None \<Rightarrow> Inl (PlainErr ''archive entry not found'')
     | Some record_of \<Rightarrow>
         if azDir record_of then Inl (PlainErr ''archive entry not found'')
         else bindE (assertZipEntryBinding u p archive record_of entryPath) (\<lambda>_.
           if azKind record_of = Entry_symlink then Inl (PlainErr ''archive entry is a link'')
           else if azKind record_of \<noteq> Entry_file then Inl (PlainErr ''archive entry is not a file'')
           else mapError normalizeZipIntegrityError
                  (bindE (streamOf (azObject record_of)) (pipeEntry record_of maxBytes))))"

lemma pipeChunk_run:
  assumes "runAll (pipeChunk maxBytes) chunks s = (Inr xs, t)"
  shows "actualCrc32 (fst t) = updateCrc32 (actualCrc32 (fst s)) (concat chunks) \<and>
     actualSize (fst t) = actualSize (fst s) + int (length (concat chunks)) \<and>
     snd (snd t) = snd (snd s) @ chunks \<and>
     fst (snd t) = fst (snd s) + int (length (concat chunks)) \<and>
     (chunks = [] \<or> fst (snd t) \<le> maxBytes)"
  using assms
proof (induction chunks arbitrary: s xs)
  case Nil
  then show ?case by (simp add: updateCrc32_def xor.assoc)
next
  case (Cons c cs)
  then obtain y s' ys where r: "pipeChunk maxBytes c s = (Inr y, s')"
    "runAll (pipeChunk maxBytes) cs s' = (Inr ys, t)" by auto
  from r(1) have s': "actualCrc32 (fst s') = updateCrc32 (actualCrc32 (fst s)) c"
    "actualSize (fst s') = actualSize (fst s) + int (length c)"
    "snd (snd s') = snd (snd s) @ [c]" "fst (snd s') = fst (snd s) + int (length c)"
    "fst (snd s') \<le> maxBytes"
    by (auto simp: pipeChunk_def integrityTransform_def sinkWrite_def guards)
  from Cons.IH [OF r(2)] s' show ?case by (auto simp: updateCrc32_append)
qed

lemma pipeEntry_ok:
  assumes "pipeEntry r maxBytes chunks = Inr bytes"
  shows "bytes = concat chunks \<and> int (length bytes) = azSize r \<and>
     uint (updateCrc32 0 bytes) = azCrc32 r mod 2 ^ 32 \<and> (chunks = [] \<or> int (length bytes) \<le> maxBytes)"
proof -
  obtain xs t where t: "runAll (pipeChunk maxBytes) chunks (createZipIntegrityTransform, 0, []) = (Inr xs, t)"
    "actualSize (fst t) = azSize r" "uint (actualCrc32 (fst t)) = azCrc32 r mod 2 ^ 32"
    "bytes = concat (snd (snd t))"
    using assms by (auto simp: pipeEntry_def guards integrityFlush_def)
  from pipeChunk_run [OF t(1)] t(2-4) show ?thesis
    by (auto simp: createZipIntegrityTransform_def)
qed

subsection \<open>Properties\<close>

text \<open>C26: whatever the decoder does, a load that succeeds hands out exactly one entry for every
  admitted one, in the order of the directory, under its portable key and with the kind, size,
  checksum and mode that admission read from the bytes.\<close>

theorem loader_entries_match_admission:
  assumes "runBuffer buffer (scanZipDirectory u p size_of limits) = Inr scanned"
    "loadAdmittedZipArchive u p run (scanEntries scanned) = Inr archive"
  shows "list_all2 sameEntry (zaEntries archive) (scanEntries scanned) \<and>
         distinct (map zePortableKey (scanEntries scanned))"
proof -
  from scanOk_run [OF scanZipDirectory_safe assms(1)]
  have "map zeIndex (scanEntries scanned) = map int [0..<length (scanEntries scanned)]"
    by (simp add: scanGoal_def)
  from loadAdmitted_ok [OF assms(2) this] show ?thesis .
qed

text \<open>C25: bytes read from a ZIP entry are the entry's bytes: they come from an admitted file entry of
  that path, have its declared size, pass its CRC-32 and stay within the caller's bound.\<close>

theorem readZipEntry_verified:
  assumes "readZipEntry u p run streamOf entryPath maxBytes admitted = Inr bytes"
    "map zeIndex admitted = map int [0..<length admitted]" "0 \<le> maxBytes"
  shows "\<exists>e \<in> set admitted. zePortableKey e = entryPath \<and> zeKind e = Entry_file \<and>
           int (length bytes) = zeSize e \<and> uint (crc32Spec bytes) = zeCrc32 e mod 2 ^ 32 \<and>
           int (length bytes) \<le> maxBytes"
proof -
  obtain archive r chunks where a: "loadAdmittedZipArchive u p run admitted = Inr archive"
    "map_of (zaEntries archive) entryPath = Some r" "azKind r = Entry_file"
    "pipeEntry r maxBytes chunks = Inr bytes"
    using assms(1) by (auto simp: readZipEntry_def guards split: option.splits if_splits)
  have l: "list_all2 sameEntry (zaEntries archive) admitted"
    using loadAdmitted_ok [OF a(1) assms(2)] by blast
  have "(entryPath, r) \<in> set (zaEntries archive)" using a(2) by (rule map_of_SomeD)
  then obtain k where "k < length (zaEntries archive)" "zaEntries archive ! k = (entryPath, r)"
    by (auto simp: in_set_conv_nth)
  then have "admitted ! k \<in> set admitted" "sameEntry (entryPath, r) (admitted ! k)"
    using l by (auto simp: list_all2_conv_all_nth)
  then show ?thesis
    using pipeEntry_ok [OF a(4)] a(3) assms(3) updateCrc32_spec [of bytes]
    by (intro bexI [of _ "admitted ! k"]) (auto simp: sameEntry_def)
qed

text \<open>A decoder that hands over the entry of the smallest archive.\<close>

definition demoData :: zip_data where
  "demoData = \<lparr>zdCrc32 = 0, zdSize = 0, zdCompressedSize = 0, zdMagic = Some [0, 0], zdIdentity = 1\<rparr>"

definition demoRun :: decoder_run where
  "demoRun =
     \<lparr>drCalls = [\<lparr>fcWellFormed = True, fcName = [97], fcData = Some demoData,
         fcUnixPermissions = Some (Some 33188), fcDosPermissions = Some None, fcDir = Some False,
         fcCreated = Some 7\<rparr>],
      drThrows = None,
      drFiles = [([97], Some \<lparr>foObject = 7, foName = Some [97], foDir = False, foUnixPermissions = None,
         foDosPermissions = None, foData = Some demoData\<rparr>)]\<rparr>"

definition demoEntry :: zip_directory_entry where
  "demoEntry = \<lparr>zeIndex = 0, zeCreatorSystem = 3, zeExternalAttributes = 2175008768, zeSize = 0,
     zeCompressedSize = 0, zeCompressionMethod = 0, zeCrc32 = 0, zePath = Some [97],
     zePortableKey = [97], zePortableDirectory = False, zeKind = Entry_file\<rparr>"

lemma demo_scan:
  "(case runBuffer demoZip (scanZipDirectory asciiUnicode Posix 100 (resolveExtractLimits None)) of
      Inr r \<Rightarrow> scanEntries r = [demoEntry] | Inl _ \<Rightarrow> False)"
  by code_simp


lemma demo_reads:
  "readZipEntry asciiUnicode Posix demoRun (\<lambda>_. Inr []) [97] 10 [demoEntry] = Inr []"
  by code_simp

theorem readZipEntry_verified_witness:
  "\<exists>e \<in> set [demoEntry]. zePortableKey e = [97] \<and> zeKind e = Entry_file \<and>
     int (length []) = zeSize e \<and> uint (crc32Spec []) = zeCrc32 e mod 2 ^ 32"
proof -
  have "map zeIndex [demoEntry] = map int [0..<length [demoEntry]]" by (simp add: demoEntry_def)
  from readZipEntry_verified [OF demo_reads this] show ?thesis by auto
qed

theorem loader_entries_match_admission_witness:
  "\<exists>r (archive :: zip_admission). runBuffer demoZip (scanZipDirectory asciiUnicode Posix 100 (resolveExtractLimits None)) = Inr r \<and>
     scanEntries r = [demoEntry] \<and> list_all2 sameEntry (zaEntries archive) (scanEntries r)"
proof -
  let ?scan = "runBuffer demoZip (scanZipDirectory asciiUnicode Posix 100 (resolveExtractLimits None))"
  obtain r where r: "?scan = Inr r" "scanEntries r = [demoEntry]"
    using demo_scan by (cases ?scan) auto
  obtain archive where "loadAdmittedZipArchive asciiUnicode Posix demoRun [demoEntry] = Inr archive"
    using demo_reads by (auto simp: readZipEntry_def guards)
  with loader_entries_match_admission [OF r(1), of demoRun archive] r show ?thesis
    by (intro exI [of _ r] exI [of _ archive]) simp
qed

end
