(* ===== verification/ZipCount.thy ===== *)
theory ZipCount
  imports ZipAdmission
begin

text \<open>
  The conservative count of ZIP entries (\<open>src/archive-zip-count.ts\<close>): a hint for callers, read from
  the end record and from a walk over the central headers. It never throws; when the records do not
  fit together it falls back to the declared count. The strict scan is \<open>ZipDirectory\<close>.
\<close>

definition ZIP_EOCD_SIGNATURE :: int where
  "ZIP_EOCD_SIGNATURE = 0x06054b50"

definition ZIP_EOCD_MIN_BYTES :: nat where
  "ZIP_EOCD_MIN_BYTES = 22"

definition ZIP_EOCD_MAX_COMMENT_BYTES :: nat where
  "ZIP_EOCD_MAX_COMMENT_BYTES = 65535"

definition ZIP64_ENTRY_COUNT_SENTINEL :: int where
  "ZIP64_ENTRY_COUNT_SENTINEL = 0xffff"

definition ZIP64_UINT32_SENTINEL :: int where
  "ZIP64_UINT32_SENTINEL = 0xffffffff"

definition ZIP_CENTRAL_FILE_HEADER_MIN_BYTES :: int where
  "ZIP_CENTRAL_FILE_HEADER_MIN_BYTES = 46"

definition readSafeUInt64LE :: "byte list \<Rightarrow> nat \<Rightarrow> int" where
  "readSafeUInt64LE buffer offset = min MAX_SAFE_INTEGER (leAt 8 buffer offset)"

text \<open>\<open>lastIndexOf\<close> on a buffer: the last match that starts at most at \<open>from\<close>.\<close>

definition bufferLastIndexOf :: "byte list \<Rightarrow> byte list \<Rightarrow> nat \<Rightarrow> nat option" where
  "bufferLastIndexOf bs needle fromAt =
     List.find (\<lambda>i. take (length needle) (drop i bs) = needle) (rev [0..<Suc fromAt])"

text \<open>The byte scan: offsets below \<open>minOffset + n\<close>, from the last one down.\<close>

fun denseLast :: "byte list \<Rightarrow> nat \<Rightarrow> nat \<Rightarrow> int" where
  "denseLast buffer minOffset 0 = -1"
| "denseLast buffer minOffset (Suc k) =
     (let offset = minOffset + k in
      if leAt 4 buffer offset \<noteq> ZIP_EOCD_SIGNATURE then denseLast buffer minOffset k
      else if int offset + 22 + leAt 2 buffer (offset + 20) = int (length buffer) then int offset
      else denseLast buffer minOffset k)"

fun sparseLast :: "nat \<Rightarrow> byte list \<Rightarrow> nat \<Rightarrow> int \<Rightarrow> int" where
  "sparseLast 0 buffer minOffset fromAt = denseLast buffer minOffset (nat (fromAt + 1))"
| "sparseLast (Suc candidates) buffer minOffset fromAt =
     (if fromAt < 0 then denseLast buffer minOffset 0
      else case bufferLastIndexOf (drop minOffset buffer) END_SIGNATURE (nat fromAt) of
             None \<Rightarrow> -1
           | Some found \<Rightarrow>
               let offset = minOffset + found
               in if int offset + 22 + leAt 2 buffer (offset + 20) = int (length buffer) then int offset
                  else sparseLast candidates buffer minOffset (int found - 1))"

definition minEndOffset :: "byte list \<Rightarrow> nat" where
  "minEndOffset buffer = length buffer - ZIP_EOCD_MIN_BYTES - ZIP_EOCD_MAX_COMMENT_BYTES"

definition findZipEndOfCentralDirectory :: "byte list \<Rightarrow> int" where
  "findZipEndOfCentralDirectory buffer =
     (if length buffer < ZIP_EOCD_MIN_BYTES then -1
      else let minOffset = minEndOffset buffer;
               lastOffset = length buffer - ZIP_EOCD_MIN_BYTES
           in if leAt 4 buffer lastOffset = ZIP_EOCD_SIGNATURE \<and> leAt 2 buffer (lastOffset + 20) = 0
              then int lastOffset
              else sparseLast 16 buffer minOffset (int lastOffset - int minOffset - 1))"

record central_info =
  declaredEntryCount :: int
  centralDirectoryOffset :: int
  centralDirectorySize :: int
  endOfCentralDirectoryOffset :: int

definition readZip64CentralDirectoryInfo :: "byte list \<Rightarrow> int \<Rightarrow> central_info option" where
  "readZip64CentralDirectoryInfo buffer eocdOffset =
     (let locatorOffset = eocdOffset - 20 in
      if locatorOffset < 0 \<or> leAt 4 buffer (nat locatorOffset) \<noteq> 0x07064b50 then None
      else let wideOffset = readSafeUInt64LE buffer (nat locatorOffset + 8)
           in if wideOffset < 0 \<or> wideOffset + 48 + 8 > int (length buffer) \<or>
                 leAt 4 buffer (nat wideOffset) \<noteq> 0x06064b50 then None
              else Some \<lparr>declaredEntryCount = readSafeUInt64LE buffer (nat wideOffset + 32),
                         centralDirectoryOffset = readSafeUInt64LE buffer (nat wideOffset + 48),
                         centralDirectorySize = readSafeUInt64LE buffer (nat wideOffset + 40),
                         endOfCentralDirectoryOffset = eocdOffset\<rparr>)"

definition usesZip64 :: "central_info \<Rightarrow> bool" where
  "usesZip64 info \<longleftrightarrow>
     declaredEntryCount info = ZIP64_ENTRY_COUNT_SENTINEL \<or>
     centralDirectorySize info = ZIP64_UINT32_SENTINEL \<or>
     centralDirectoryOffset info = ZIP64_UINT32_SENTINEL"

definition ordinaryInfo :: "byte list \<Rightarrow> int \<Rightarrow> central_info" where
  "ordinaryInfo buffer eocdOffset =
     \<lparr>declaredEntryCount = leAt 2 buffer (nat eocdOffset + 10),
      centralDirectoryOffset = leAt 4 buffer (nat eocdOffset + 16),
      centralDirectorySize = leAt 4 buffer (nat eocdOffset + 12),
      endOfCentralDirectoryOffset = eocdOffset\<rparr>"

definition readZipCentralDirectoryInfo :: "byte list \<Rightarrow> central_info option" where
  "readZipCentralDirectoryInfo buffer =
     (let eocdOffset = findZipEndOfCentralDirectory buffer in
      if eocdOffset < 0 then None
      else let info = ordinaryInfo buffer eocdOffset
           in if usesZip64 info then orElse (readZip64CentralDirectoryInfo buffer eocdOffset) (Some info)
              else Some info)"

function walkHeaders :: "byte list \<Rightarrow> int \<Rightarrow> int \<Rightarrow> int \<Rightarrow> int option" where
  "walkHeaders buffer scanEnd offset count =
     (if offset \<ge> scanEnd \<or> scanEnd - offset < ZIP_CENTRAL_FILE_HEADER_MIN_BYTES \<or>
         leAt 4 buffer (nat offset) \<noteq> 0x02014b50 then Some count
      else let nextOffset = offset + ZIP_CENTRAL_FILE_HEADER_MIN_BYTES + leAt 2 buffer (nat offset + 28) +
                 leAt 2 buffer (nat offset + 30) + leAt 2 buffer (nat offset + 32)
           in if nextOffset \<le> offset \<or> nextOffset > scanEnd then None
              else walkHeaders buffer scanEnd nextOffset (count + 1))"
  by pat_completeness auto
termination
  by (relation "measure (\<lambda>(buffer, scanEnd, offset, count). nat (scanEnd - offset))") auto

declare walkHeaders.simps [simp del]

definition countZipCentralDirectoryHeaders :: "byte list \<Rightarrow> central_info \<Rightarrow> int option" where
  "countZipCentralDirectoryHeaders buffer info =
     (let start = centralDirectoryOffset info;
          declaredEnd = start + centralDirectorySize info;
          scanEnd = endOfCentralDirectoryOffset info
      in if \<not> safeInt start \<or> \<not> safeInt declaredEnd \<or> \<not> safeInt scanEnd \<or> start < 0 \<or>
            declaredEnd < start \<or> scanEnd < start \<or> scanEnd > int (length buffer) then None
         else case walkHeaders buffer scanEnd start 0 of
                None \<Rightarrow> None
              | Some count \<Rightarrow> if count > 0 \<or> declaredEntryCount info = 0 then Some count else None)"

definition readZipCentralDirectoryEntryCount :: "byte list \<Rightarrow> int option" where
  "readZipCentralDirectoryEntryCount buffer =
     (case readZipCentralDirectoryInfo buffer of
        None \<Rightarrow> None
      | Some info \<Rightarrow>
          (case countZipCentralDirectoryHeaders buffer info of
             None \<Rightarrow> Some (declaredEntryCount info)
           | Some counted \<Rightarrow> Some (max (declaredEntryCount info) counted)))"

subsection \<open>The record found\<close>

text \<open>Specification: the last offset in the window where a record ends the archive.\<close>

definition latestEnd :: "byte list \<Rightarrow> nat \<Rightarrow> nat \<Rightarrow> int" where
  "latestEnd buffer lo hi =
     (let ms = filter (endMatch buffer) [lo..<hi] in if ms = [] then -1 else int (last ms))"

lemma endMatch_leAt:
  "offset + 22 \<le> length buffer \<Longrightarrow>
   endMatch buffer offset \<longleftrightarrow> leAt 4 buffer offset = ZIP_EOCD_SIGNATURE \<and>
     int offset + 22 + leAt 2 buffer (offset + 20) = int (length buffer)"
  using leAt_signature [of offset buffer]
  by (auto simp: endMatch_def endsArchive_def ZIP_EOCD_SIGNATURE_def)

lemma latestEnd_Suc:
  "lo \<le> hi \<Longrightarrow> latestEnd buffer lo (Suc hi) =
     (if endMatch buffer hi then int hi else latestEnd buffer lo hi)"
  by (simp add: latestEnd_def Let_def)

lemma latestEnd_empty: "latestEnd buffer lo lo = -1"
  by (simp add: latestEnd_def)

lemma denseLast_eq:
  "minOffset + n + 21 \<le> length buffer \<Longrightarrow>
     denseLast buffer minOffset n = latestEnd buffer minOffset (minOffset + n)"
proof (induction n)
  case 0
  then show ?case by (simp add: latestEnd_empty)
next
  case (Suc n)
  then show ?case
    using endMatch_leAt [of "minOffset + n" buffer]
    by (auto simp: Let_def latestEnd_Suc)
qed

lemma bufferLastIndexOf_None:
  "bufferLastIndexOf bs needle fromAt = None \<longleftrightarrow>
     (\<forall>i \<le> fromAt. take (length needle) (drop i bs) \<noteq> needle)"
  by (auto simp: bufferLastIndexOf_def find_None_iff less_Suc_eq_le simp del: upt_Suc)

lemma bufferLastIndexOf_Some:
  assumes "bufferLastIndexOf bs needle fromAt = Some i"
  shows "i \<le> fromAt \<and> take (length needle) (drop i bs) = needle \<and>
     (\<forall>k. i < k \<and> k \<le> fromAt \<longrightarrow> take (length needle) (drop k bs) \<noteq> needle)"
proof -
  obtain k where k: "k < length (rev [0..<Suc fromAt])" "i = rev [0..<Suc fromAt] ! k"
    "take (length needle) (drop i bs) = needle"
    "\<forall>j<k. take (length needle) (drop (rev [0..<Suc fromAt] ! j) bs) \<noteq> needle"
    using assms unfolding bufferLastIndexOf_def find_Some_iff by blast
  have n: "rev [0..<Suc fromAt] ! j = fromAt - j" if "j \<le> fromAt" for j
    using that by (simp add: rev_nth del: upt_Suc)
  have i: "k \<le> fromAt" "i = fromAt - k" using k(1,2) n by simp_all
  have "take (length needle) (drop m bs) \<noteq> needle" if "i < m \<and> m \<le> fromAt" for m
    using k(4) n [of "fromAt - m"] i that by (metis diff_diff_cancel diff_le_self diff_less_mono2 less_le_trans)
  then show ?thesis using k(3) i by auto
qed

lemma latestEnd_skip:
  assumes "lo \<le> m" "m \<le> hi" "\<And>i. m \<le> i \<Longrightarrow> i < hi \<Longrightarrow> \<not> endMatch buffer i"
  shows "latestEnd buffer lo hi = latestEnd buffer lo m"
proof -
  have "filter (endMatch buffer) [m..<hi] = []" by (rule filter_range_empty) (use assms(3) in blast)
  then show ?thesis using filter_split [of lo m hi "endMatch buffer"] assms(1,2) by (simp add: latestEnd_def)
qed

lemma sparseLast_eq:
  assumes "int minOffset + fromAt + 22 \<le> int (length buffer)" "-1 \<le> fromAt"
  shows "sparseLast n buffer minOffset fromAt = latestEnd buffer minOffset (nat (int minOffset + fromAt + 1))"
  using assms
proof (induction n arbitrary: fromAt)
  case 0
  have "nat (int minOffset + fromAt + 1) = minOffset + nat (fromAt + 1)" using 0 by linarith
  then show ?case using 0 by (simp add: denseLast_eq)
next
  case (Suc n)
  have sig: "length END_SIGNATURE = 4" by (simp add: END_SIGNATURE_def)
  show ?case
  proof (cases "fromAt < 0")
    case True
    then have "fromAt = -1" using Suc.prems by simp
    then show ?thesis by (simp add: latestEnd_empty)
  next
    case False
    let ?hi = "nat (int minOffset + fromAt + 1)"
    have hi: "?hi = minOffset + nat fromAt + 1" using False by (simp add: nat_add_distrib)
    show ?thesis
    proof (cases "bufferLastIndexOf (drop minOffset buffer) END_SIGNATURE (nat fromAt)")
      case None
      have "\<not> endMatch buffer i" if "minOffset \<le> i" "i < ?hi" for i
        using None that hi by (auto simp: bufferLastIndexOf_None endMatch_def sig dest!: spec [of _ "i - minOffset"])
      then have "latestEnd buffer minOffset ?hi = -1"
        using latestEnd_skip [of minOffset minOffset ?hi buffer] latestEnd_empty hi by simp
      then show ?thesis using None False by simp
    next
      case (Some found)
      from bufferLastIndexOf_Some [OF Some]
      have f: "found \<le> nat fromAt" "take 4 (drop (minOffset + found) buffer) = END_SIGNATURE"
        "\<forall>k. found < k \<and> k \<le> nat fromAt \<longrightarrow> take 4 (drop (minOffset + k) buffer) \<noteq> END_SIGNATURE"
        by (simp_all add: sig add.commute)
      have "\<not> endMatch buffer i" if "minOffset + found + 1 \<le> i" "i < ?hi" for i
      proof -
        have "found < i - minOffset \<and> i - minOffset \<le> nat fromAt" "minOffset + (i - minOffset) = i"
          using that hi by linarith+
        then show ?thesis using f(3) by (metis endMatch_def)
      qed
      then have l: "latestEnd buffer minOffset ?hi = latestEnd buffer minOffset (minOffset + found + 1)"
        using f(1) hi by (intro latestEnd_skip) auto
      have m: "endMatch buffer (minOffset + found) \<longleftrightarrow>
          int (minOffset + found) + 22 + leAt 2 buffer (minOffset + found + 20) = int (length buffer)"
        using f(2) by (simp add: endMatch_def endsArchive_def)
      show ?thesis
      proof (cases "endMatch buffer (minOffset + found)")
        case True
        then show ?thesis using Some False l m by (simp add: latestEnd_Suc)
      next
        case no: False
        have "sparseLast n buffer minOffset (int found - 1) =
            latestEnd buffer minOffset (nat (int minOffset + (int found - 1) + 1))"
          using f(1) Suc.prems False by (intro Suc.IH) auto
        also have "nat (int minOffset + (int found - 1) + 1) = minOffset + found" by simp
        finally have r: "sparseLast n buffer minOffset (int found - 1) =
            latestEnd buffer minOffset (minOffset + found)" .
        have "sparseLast (Suc n) buffer minOffset fromAt = sparseLast n buffer minOffset (int found - 1)"
          using Some False no m by (simp add: Let_def)
        then show ?thesis using r l no by (simp add: latestEnd_Suc)
      qed
    qed
  qed
qed

lemma findEnd_latest:
  "findZipEndOfCentralDirectory buffer =
     latestEnd buffer (minEndOffset buffer) (length buffer - 21)"
proof (cases "length buffer < 22")
  case True
  then show ?thesis
    by (simp add: findZipEndOfCentralDirectory_def latestEnd_def minEndOffset_def ZIP_EOCD_MIN_BYTES_def)
next
  case False
  let ?last = "length buffer - 22"
  have hi: "length buffer - 21 = Suc ?last" using False by simp
  have lo: "minEndOffset buffer \<le> ?last"
    by (simp add: minEndOffset_def ZIP_EOCD_MIN_BYTES_def)
  have m: "endMatch buffer ?last \<longleftrightarrow>
      leAt 4 buffer ?last = ZIP_EOCD_SIGNATURE \<and> leAt 2 buffer (?last + 20) = 0"
    using endMatch_leAt [of ?last buffer] False by (simp add: of_nat_diff)
  have s: "sparseLast 16 buffer (minEndOffset buffer) (int ?last - int (minEndOffset buffer) - 1) =
      latestEnd buffer (minEndOffset buffer) ?last"
  proof -
    have "nat (int (minEndOffset buffer) + (int ?last - int (minEndOffset buffer) - 1) + 1) = ?last" by simp
    then show ?thesis
      using sparseLast_eq [of "minEndOffset buffer" "int ?last - int (minEndOffset buffer) - 1" buffer 16] lo False
      by (simp add: of_nat_diff)
  qed
  show ?thesis
    unfolding findZipEndOfCentralDirectory_def Let_def ZIP_EOCD_MIN_BYTES_def hi latestEnd_Suc [OF lo]
    using m s False by simp
qed
subsection \<open>The hint and the strict scan\<close>

lemma scan_count_layout:
  assumes "runBuffer buffer (scanZipDirectory u p size_of limits) = Inr r"
  shows "\<exists>d. runBuffer buffer (layout size_of) = Inr d \<and> scanCount r = layCount d"
proof -
  note parts = assms [unfolded scanZipDirectory_def runBuffer_bind bindE_Inr_iff]
  show ?thesis
    using parts by (elim exE conjE) (auto simp: Let_def split: if_splits)
qed

lemma endMatch_drop:
  "k \<le> length buffer \<Longrightarrow> endMatch (drop k buffer) i \<longleftrightarrow> endMatch buffer (k + i)"
  by (auto simp: endMatch_def endsArchive_def leAt_def ac_simps of_nat_diff)

lemma leAt_inner: "k + n \<le> 22 \<Longrightarrow> leAt n (take 22 (drop i bs)) k = leAt n bs (i + k)"
proof -
  assume "k + n \<le> 22"
  then have "take n (drop k (take 22 (drop i bs))) = take n (drop k (drop i bs))"
    by (simp add: drop_take min_def)
  then show ?thesis by (simp add: leAt_def add.commute)
qed

lemma leAt_drop: "leAt n (drop k bs) i = leAt n bs (k + i)"
  by (simp add: leAt_def add.commute)

lemma finishLayout_count: "runBuffer b (finishLayout c x y z) = Inr d \<Longrightarrow> layCount d = c"
  by (auto simp: finishLayout_def Let_def split: if_splits)

lemma layout_ordinary:
  assumes "runBuffer buffer (layout (int (length buffer))) = Inr d"
  shows "\<exists>pos. findZipEndOfCentralDirectory buffer = int pos \<and>
    (usesZip64 (ordinaryInfo buffer (int pos)) \<or> leAt 2 buffer (pos + 8) = 0xffff \<or>
     layCount d = declaredEntryCount (ordinaryInfo buffer (int pos)))"
proof -
  let ?start = "max 0 (int (length buffer) - 65557)"
  let ?k = "minEndOffset buffer"
  have start: "?start = int ?k"
    by (simp add: minEndOffset_def ZIP_EOCD_MIN_BYTES_def ZIP_EOCD_MAX_COMMENT_BYTES_def)
  have k: "?k \<le> length buffer" by (simp add: minEndOffset_def)
  have sub: "subarray buffer ?start (?start + (int (length buffer) - ?start)) = drop ?k buffer"
    unfolding start by (simp add: subarray_def)
  obtain tail pos where t: "runBuffer buffer (readRecord ?start (int (length buffer) - ?start) (int (length buffer))) = Inr tail"
    "endOffset tail = Inr pos"
    "runBuffer buffer
       (let end_record = take 22 (drop pos tail);
            physicalEnd = ?start + int pos;
            count = leAt 2 end_record 10;
            directorySize = leAt 4 end_record 12;
            offset = leAt 4 end_record 16
        in if leAt 2 end_record 4 \<noteq> 0 \<or> leAt 2 end_record 6 \<noteq> 0
           then Fail (zipFormat ''multi-disk archive'')
           else if count = 0xffff \<or> leAt 2 end_record 8 = 0xffff \<or> directorySize = 0xffffffff \<or>
                   offset = 0xffffffff
           then wideLayout end_record physicalEnd (int (length buffer))
           else if leAt 2 end_record 8 \<noteq> count then Fail (zipFormat ''disk count mismatch'')
           else finishLayout count directorySize offset physicalEnd) = Inr d"
    using assms unfolding layout_def Let_def runBuffer_bind runBuffer_lift bindE_Inr_iff by blast
  have tail: "tail = drop ?k buffer"
    using t(1) sub by (auto simp: readRecord_def split: if_splits)
  have f: "filter (endMatch tail) [0..<length tail - 21] = [pos]"
    using t(2) by (auto simp: endOffset_choose chooseEnd_def split: list.splits)
  have "pos \<in> set (filter (endMatch tail) [0..<length tail - 21])" unfolding f by simp
  then have "pos < length buffer - ?k - 21" by (simp add: tail)
  then have room: "?k + 22 \<le> length buffer" by linarith
  have "filter (endMatch buffer) [?k..<length buffer - 21] = map (\<lambda>i. i + ?k) (filter (endMatch tail) [0..<length tail - 21])"
  proof -
    have "[?k..<length buffer - 21] = map (\<lambda>i. i + ?k) [0..<length tail - 21]"
      unfolding map_add_upt using room by (simp add: tail)
    moreover have "endMatch buffer (i + ?k) = endMatch tail i" for i
      using endMatch_drop [OF k, of i] by (simp add: tail add.commute)
    ultimately show ?thesis by (simp add: filter_map comp_def)
  qed
  then have find: "findZipEndOfCentralDirectory buffer = int (?k + pos)"
    by (simp add: findEnd_latest latestEnd_def f)
  define q where "q = ?k + pos"
  have at_end: "leAt n (take 22 (drop pos tail)) j = leAt n buffer (q + j)" if "j + n \<le> 22" for n j
    using leAt_inner [OF that] by (simp add: tail q_def add.commute [of pos])
  have "usesZip64 (ordinaryInfo buffer (int q)) \<or> leAt 2 buffer (q + 8) = 0xffff \<or>
     layCount d = declaredEntryCount (ordinaryInfo buffer (int q))"
    using t(3)
    by (auto simp: Let_def at_end ordinaryInfo_def usesZip64_def ZIP64_ENTRY_COUNT_SENTINEL_def
        ZIP64_UINT32_SENTINEL_def dest!: finishLayout_count split: if_splits)
  then show ?thesis using find unfolding q_def [symmetric] by blast
qed

lemma count_at_least_declared:
  "readZipCentralDirectoryInfo buffer = Some info \<Longrightarrow>
   \<exists>n. readZipCentralDirectoryEntryCount buffer = Some n \<and> declaredEntryCount info \<le> n"
  by (auto simp: readZipCentralDirectoryEntryCount_def split: option.split)

subsection \<open>Properties\<close>

text \<open>The count hint starts from the last record that ends the archive within the largest comment,
  whether it is found by the first look, the bounded native search or the byte scan.\<close>

theorem findEnd_is_latest_record:
  "findZipEndOfCentralDirectory buffer =
     (let ms = filter (endMatch buffer) [minEndOffset buffer..<length buffer - 21]
      in if ms = [] then -1 else int (last ms))"
  by (simp add: findEnd_latest latestEnd_def)

text \<open>C33: the hint is conservative: for an archive the strict scan admits, whose end record has no
  ZIP64 sentinel, the hint is a number and at least the number of admitted entries.\<close>

theorem count_hint_conservative:
  assumes "admitZipBuffer u p buffer limits = Inr r"
    "\<not> usesZip64 (ordinaryInfo buffer (findZipEndOfCentralDirectory buffer))"
    "leAt 2 buffer (nat (findZipEndOfCentralDirectory buffer) + 8) \<noteq> 0xffff"
  shows "\<exists>n. readZipCentralDirectoryEntryCount buffer = Some n \<and> scanCount r \<le> n"
proof -
  from assms(1) have s: "runBuffer buffer (scanZipDirectory u p (int (length buffer)) limits) = Inr r"
    by (auto simp: admitZipBuffer_def guards)
  from scan_count_layout [OF s] obtain d where
    d: "runBuffer buffer (layout (int (length buffer))) = Inr d" "scanCount r = layCount d" by blast
  from layout_ordinary [OF d(1)] assms(2,3) obtain pos where
    pos: "findZipEndOfCentralDirectory buffer = int pos"
    "layCount d = declaredEntryCount (ordinaryInfo buffer (int pos))" by auto
  have "readZipCentralDirectoryInfo buffer = Some (ordinaryInfo buffer (int pos))"
    using assms(2) pos(1) by (simp add: readZipCentralDirectoryInfo_def Let_def)
  from count_at_least_declared [OF this] show ?thesis using d(2) pos(2) by auto
qed

lemma demo_fields:
  "length demoZip = 100 \<and> leAt 4 demoZip 78 = 0x06054b50 \<and> leAt 2 demoZip 98 = 0 \<and>
   leAt 2 demoZip 86 = 1 \<and> leAt 2 demoZip 88 = 1 \<and> leAt 4 demoZip 90 = 47 \<and> leAt 4 demoZip 94 = 31"
  by code_simp

lemma demo_hint: "findZipEndOfCentralDirectory demoZip = 78"
  using demo_fields
  by (simp add: findZipEndOfCentralDirectory_def Let_def ZIP_EOCD_MIN_BYTES_def ZIP_EOCD_SIGNATURE_def)

theorem count_hint_conservative_witness:
  "\<exists>r n. admitZipBuffer asciiUnicode Posix demoZip (resolveExtractLimits None) = Inr r \<and>
     readZipCentralDirectoryEntryCount demoZip = Some n \<and> scanCount r \<le> n"
proof -
  have "isOk (admitZipBuffer asciiUnicode Posix demoZip (resolveExtractLimits None))" by code_simp
  then obtain r where r: "admitZipBuffer asciiUnicode Posix demoZip (resolveExtractLimits None) = Inr r"
    by (auto simp: isOk_iff)
  have "\<not> usesZip64 (ordinaryInfo demoZip (findZipEndOfCentralDirectory demoZip))"
    "leAt 2 demoZip (nat (findZipEndOfCentralDirectory demoZip) + 8) \<noteq> 0xffff"
    using demo_hint demo_fields
    by (simp_all add: usesZip64_def ordinaryInfo_def ZIP64_ENTRY_COUNT_SENTINEL_def ZIP64_UINT32_SENTINEL_def)
  from count_hint_conservative [OF r this] r show ?thesis by blast
qed

end
