(* ===== verification/BoundedRead.thy ===== *)
theory BoundedRead
  imports Bytes
begin

text \<open>
  Byte budgets (\<open>src/byte-budget.ts\<close>) and reads bounded by them (\<open>src/bounded-read.ts\<close>). The
  source reads from the current position of a handle or descriptor: \<open>readChunk n\<close> is such a read
  into a buffer with \<open>n\<close> free bytes, an operation on the state of whatever is read; it may be short
  and it may fail. \<open>observe\<close> is the size that \<open>fstat\<close> reports of a regular file, if any.

  A budget is \<open>None\<close> for \<open>Infinity\<close>. The contents of the buffer are the bytes received so far, its
  capacity is a number; in which pool it is allocated is not modelled. The loop need not end for an
  endless source, so it is a partial function, and ending is a property of its own.
\<close>

definition normalizeMaxBytes :: "jsnum option \<Rightarrow> jsnum option \<Rightarrow> error + jsnum option" where
  "normalizeMaxBytes v defaultValue =
     (let selected = (case v of None \<Rightarrow> defaultValue | Some x \<Rightarrow> Some x)
      in case selected of
           None \<Rightarrow> Inr None
         | Some x \<Rightarrow>
             if x = PosInfinity then Inr (Some x)
             else if \<not> isSafeInteger x \<or> floorNum x < 0
             then Inl (RangeErr ''maxBytes must be a non-negative safe integer or Infinity'')
             else Inr (Some x))"

type_synonym max_bytes = "nat option"

definition READ_CHUNK_BYTES :: nat where
  "READ_CHUNK_BYTES = 65536"

definition MAX_INITIAL_READ_BYTES :: nat where
  "MAX_INITIAL_READ_BYTES = 16777216"

definition budgetMin :: "max_bytes \<Rightarrow> nat \<Rightarrow> nat" where
  "budgetMin maxBytes n = (case maxBytes of None \<Rightarrow> n | Some m \<Rightarrow> min m n)"

definition createInitialBuffer :: "max_bytes \<Rightarrow> nat \<Rightarrow> nat" where
  "createInitialBuffer maxBytes size_of = budgetMin maxBytes (min size_of MAX_INITIAL_READ_BYTES) + 1"

definition createScratchBuffer :: "max_bytes \<Rightarrow> nat" where
  "createScratchBuffer maxBytes = budgetMin (map_option Suc maxBytes) READ_CHUNK_BYTES"

definition growReadBuffer :: "nat \<Rightarrow> max_bytes \<Rightarrow> nat" where
  "growReadBuffer capacity maxBytes =
     budgetMin (map_option Suc maxBytes) (max READ_CHUNK_BYTES (capacity * 2))"

definition tooLarge :: error where
  "tooLarge = throwFs Too_large ''file exceeds limit''"

definition addReadBytes :: "nat \<Rightarrow> nat \<Rightarrow> max_bytes \<Rightarrow> error option \<Rightarrow> error + nat" where
  "addReadBytes soFar bytesRead maxBytes createLimitError =
     (let after = soFar + bytesRead in
      if (case maxBytes of None \<Rightarrow> False | Some m \<Rightarrow> after > m)
      then Inl (case createLimitError of Some e \<Rightarrow> e | None \<Rightarrow> tooLarge)
      else Inr after)"

type_synonym 's chunk_read = "nat \<Rightarrow> ('s, error, byte list) op"

text \<open>The loop: fill the free part of the buffer, growing it when it is full.\<close>

partial_function (option) readLoop ::
    "'s chunk_read \<Rightarrow> error option \<Rightarrow> max_bytes \<Rightarrow> nat \<Rightarrow> byte list \<Rightarrow> 's \<Rightarrow> ((error + byte list) \<times> 's) option" where
  "readLoop readChunk limitError maxBytes capacity received s =
     (let cap = (if length received = capacity then growReadBuffer capacity maxBytes else capacity)
      in case readChunk (cap - length received) s of
           (Inl e, t) \<Rightarrow> Some (Inl e, t)
         | (Inr bytes, t) \<Rightarrow>
             if bytes = [] then Some (Inr received, t)
             else (case addReadBytes (length received) (length bytes) maxBytes limitError of
                     Inl e \<Rightarrow> Some (Inl e, t)
                   | Inr _ \<Rightarrow> readLoop readChunk limitError maxBytes cap (received @ bytes) t))"

definition readBoundedAsync ::
    "max_bytes \<Rightarrow> 's chunk_read \<Rightarrow> ('s \<Rightarrow> nat option) \<Rightarrow> nat option \<Rightarrow> error option \<Rightarrow> 's \<Rightarrow>
     ((error + byte list) \<times> 's) option" where
  "readBoundedAsync maxBytes readChunk observe initialSize limitError s =
     (let size_of = (case initialSize of Some n \<Rightarrow> Some n | None \<Rightarrow> observe s)
      in case size_of of
           None \<Rightarrow> readLoop readChunk limitError maxBytes (createScratchBuffer maxBytes) [] s
         | Some n \<Rightarrow>
             (let capacity = createInitialBuffer maxBytes n
              in case readChunk capacity s of
                   (Inl e, t) \<Rightarrow> Some (Inl e, t)
                 | (Inr bytes, t) \<Rightarrow>
                     if bytes = [] then Some (Inr [], t)
                     else let currentSize = (if length bytes < capacity then observe t else None)
                          in case addReadBytes 0 (length bytes) maxBytes limitError of
                               Inl e \<Rightarrow> Some (Inl e, t)
                             | Inr soFar \<Rightarrow>
                                 if (case currentSize of None \<Rightarrow> False | Some k \<Rightarrow> k > 0 \<and> length bytes \<ge> k)
                                 then Some (Inr bytes, t)
                                 else readLoop readChunk limitError maxBytes capacity bytes t))"

text \<open>The synchronous reader has the same body.\<close>

definition readBoundedSync ::
    "max_bytes \<Rightarrow> 's chunk_read \<Rightarrow> ('s \<Rightarrow> nat option) \<Rightarrow> nat option \<Rightarrow> error option \<Rightarrow> 's \<Rightarrow>
     ((error + byte list) \<times> 's) option" where
  "readBoundedSync = readBoundedAsync"

definition maxBytesOf :: "jsnum \<Rightarrow> max_bytes" where
  "maxBytesOf v = (if v = PosInfinity then None else Some (nat (floorNum v)))"

text \<open>A descriptor: the file behind it, the position, and how short its reads are at a position.\<close>

record descriptor =
  dscFile :: "byte list"
  dscPosition :: nat
  dscRegular :: bool

definition descriptorRead :: "(nat \<Rightarrow> nat) \<Rightarrow> descriptor chunk_read" where
  "descriptorRead short n =
     (\<lambda>d. let bytes = take (min n (Suc (short (dscPosition d)))) (drop (dscPosition d) (dscFile d))
          in (Inr bytes, d\<lparr>dscPosition := dscPosition d + length bytes\<rparr>))"

definition regularFileSize :: "descriptor \<Rightarrow> nat option" where
  "regularFileSize d = (if dscRegular d then Some (length (dscFile d)) else None)"

definition readFileHandleBoundedWithSize ::
    "(nat \<Rightarrow> nat) \<Rightarrow> bool \<Rightarrow> jsnum \<Rightarrow> nat option \<Rightarrow> descriptor \<Rightarrow> ((error + byte list) \<times> descriptor) option" where
  "readFileHandleBoundedWithSize short hasFd maxBytes initialSize d =
     (case normalizeMaxBytes (Some maxBytes) None of
        Inl e \<Rightarrow> Some (Inl e, d)
      | Inr _ \<Rightarrow> readBoundedAsync (maxBytesOf maxBytes) (descriptorRead short)
                   (if hasFd then regularFileSize else (\<lambda>_. None)) initialSize None d)"

definition readFileDescriptorBounded ::
    "(nat \<Rightarrow> nat) \<Rightarrow> jsnum \<Rightarrow> descriptor \<Rightarrow> ((error + byte list) \<times> descriptor) option" where
  "readFileDescriptorBounded short maxBytes d =
     (case normalizeMaxBytes (Some maxBytes) None of
        Inl e \<Rightarrow> Some (Inl e, d)
      | Inr _ \<Rightarrow> readBoundedAsync (maxBytesOf maxBytes) (descriptorRead short) regularFileSize None None d)"

definition readFileDescriptorBoundedSync ::
    "(nat \<Rightarrow> nat) \<Rightarrow> jsnum \<Rightarrow> descriptor \<Rightarrow> ((error + byte list) \<times> descriptor) option" where
  "readFileDescriptorBoundedSync short maxBytes d =
     (case normalizeMaxBytes (Some maxBytes) None of
        Inl e \<Rightarrow> Some (Inl e, d)
      | Inr _ \<Rightarrow> readBoundedSync (maxBytesOf maxBytes) (descriptorRead short) regularFileSize
          (case maxBytesOf maxBytes of
             Some m \<Rightarrow> if m \<le> READ_CHUNK_BYTES then Some m else None
           | None \<Rightarrow> None)
          None d)"

subsection \<open>Budgets\<close>

lemma addReadBytes_ok:
  "addReadBytes soFar n maxBytes e = Inr k \<longleftrightarrow>
     k = soFar + n \<and> (case maxBytes of None \<Rightarrow> True | Some m \<Rightarrow> soFar + n \<le> m)"
  by (auto simp: addReadBytes_def Let_def split: option.splits)

lemma addReadBytes_fail:
  "addReadBytes soFar n maxBytes e = Inl err \<longleftrightarrow>
     (\<exists>m. maxBytes = Some m \<and> m < soFar + n) \<and> err = (case e of Some x \<Rightarrow> x | None \<Rightarrow> tooLarge)"
  by (auto simp: addReadBytes_def Let_def split: option.splits)

text \<open>A source that keeps giving bytes runs into the budget.\<close>

lemma readLoop_ends:
  "length received \<le> m \<Longrightarrow>
   \<exists>r. readLoop readChunk limitError (Some m) capacity received s = Some r"
proof (induction "m - length received" arbitrary: capacity received s rule: less_induct)
  case less
  let ?cap = "if length received = capacity then growReadBuffer capacity (Some m) else capacity"
  obtain res t where c: "readChunk (?cap - length received) s = (res, t)" by fastforce
  show ?case
  proof (cases res)
    case (Inl e)
    then show ?thesis using c by (simp add: readLoop.simps [of _ _ _ capacity])
  next
    case (Inr bytes)
    show ?thesis
    proof (cases "bytes = [] \<or> m < length received + length bytes")
      case True
      then show ?thesis
        using c Inr by (auto simp: readLoop.simps [of _ _ _ capacity] addReadBytes_def Let_def)
    next
      case False
      then have "m - length (received @ bytes) < m - length received" "length (received @ bytes) \<le> m"
        by (simp_all add: less_eq_Suc_le) (cases bytes; simp)
      from less.hyps [OF this, of ?cap t] show ?thesis
        using c Inr False by (auto simp: readLoop.simps [of _ _ _ capacity] addReadBytes_def Let_def)
    qed
  qed
qed

lemma readBounded_ends:
  "\<exists>r. readBoundedAsync (Some m) readChunk observe initialSize limitError s = Some r"
proof -
  have loop: "\<exists>r. readLoop readChunk limitError (Some m) cap [] s = Some r" for cap s
    by (rule readLoop_ends) simp
  have loop1: "\<exists>r. readLoop readChunk limitError (Some m) cap bytes t = Some r"
    if "addReadBytes 0 (length bytes) (Some m) limitError = Inr k" for cap bytes t k
    using that by (intro readLoop_ends) (simp add: addReadBytes_ok)
  show ?thesis
    using loop loop1
    by (auto simp: readBoundedAsync_def Let_def split: option.splits prod.splits sum.splits)
qed
subsection \<open>Reading a source to its end\<close>

text \<open>
  What the reader relies on: \<open>left s\<close> is what is still to be read. A read answers a prefix of it, no
  longer than asked, and answers nothing only at the end; a size observed after a read that is at
  most the bytes of that one read means that everything was read.
\<close>

locale byte_source =
  fixes readChunk :: "'s chunk_read"
    and observe :: "'s \<Rightarrow> nat option"
    and left :: "'s \<Rightarrow> byte list"
  assumes read_total: "\<exists>bytes t. readChunk n s = (Inr bytes, t)"
    and read_prefix: "readChunk n s = (Inr bytes, t) \<Longrightarrow> left s = bytes @ left t"
    and read_length: "readChunk n s = (Inr bytes, t) \<Longrightarrow> length bytes \<le> n"
    and read_end: "readChunk n s = (Inr [], t) \<Longrightarrow> 0 < n \<Longrightarrow> left s = []"
    and observed: "readChunk n s = (Inr bytes, t) \<Longrightarrow> observe t = Some k \<Longrightarrow> 0 < k \<Longrightarrow>
                     k \<le> length bytes \<Longrightarrow> left t = []"
begin

text \<open>What a bounded read of \<open>content\<close> answers.\<close>

definition answer :: "max_bytes \<Rightarrow> error option \<Rightarrow> byte list \<Rightarrow> error + byte list" where
  "answer maxBytes limitError content =
     (if (case maxBytes of None \<Rightarrow> False | Some m \<Rightarrow> m < length content)
      then Inl (case limitError of Some x \<Rightarrow> x | None \<Rightarrow> tooLarge) else Inr content)"

lemma grow_room:
  assumes "0 < capacity" "\<And>m. maxBytes = Some m \<Longrightarrow> capacity \<le> m"
  shows "capacity < growReadBuffer capacity maxBytes"
  using assms by (auto simp: growReadBuffer_def budgetMin_def max_def split: option.split)

lemma readLoop_answer:
  assumes "0 < capacity" "length received \<le> capacity"
    "\<And>m. maxBytes = Some m \<Longrightarrow> length received \<le> m"
  shows "\<exists>t. readLoop readChunk limitError maxBytes capacity received s =
             Some (answer maxBytes limitError (received @ left s), t)"
  using assms
proof (induction "length (left s)" arbitrary: capacity received s rule: less_induct)
  case less
  let ?cap = "if length received = capacity then growReadBuffer capacity maxBytes else capacity"
  have room: "0 < ?cap - length received"
    using grow_room [of capacity maxBytes] less.prems by auto
  obtain bytes t where r: "readChunk (?cap - length received) s = (Inr bytes, t)"
    using read_total by blast
  have s: "left s = bytes @ left t" by (rule read_prefix [OF r])
  show ?case
  proof (cases "bytes = []")
    case True
    then have "left s = []" using read_end [of "?cap - length received" s t] r room by simp
    then show ?thesis
      using True r less.prems(3)
      by (auto simp: readLoop.simps [of _ _ _ capacity] answer_def Let_def split: option.split)
  next
    case False
    show ?thesis
    proof (cases "\<exists>m. maxBytes = Some m \<and> m < length received + length bytes")
      case True
      then show ?thesis
        using False r s
        by (auto simp: readLoop.simps [of _ _ _ capacity] answer_def Let_def addReadBytes_def)
    next
      case fits: False
      have "length (left t) < length (left s)" using s False by simp
      moreover have "length (received @ bytes) \<le> ?cap"
        using read_length [OF r] room by simp
      moreover have "length (received @ bytes) \<le> m" if "maxBytes = Some m" for m
        using fits that by auto
      ultimately obtain u where
        "readLoop readChunk limitError maxBytes ?cap (received @ bytes) t =
           Some (answer maxBytes limitError ((received @ bytes) @ left t), u)"
        using less.hyps [of t ?cap "received @ bytes"] room by auto
      then show ?thesis
        using False r s fits
        by (auto simp: readLoop.simps [of _ _ _ capacity] Let_def addReadBytes_def split: option.split)
    qed
  qed
qed

lemma readBounded_answer:
  "\<exists>t. readBoundedAsync maxBytes readChunk observe initialSize limitError s =
         Some (answer maxBytes limitError (left s), t)"
proof (cases "case initialSize of Some n \<Rightarrow> Some n | None \<Rightarrow> observe s")
  case None
  have "0 < createScratchBuffer maxBytes"
    by (auto simp: createScratchBuffer_def budgetMin_def READ_CHUNK_BYTES_def split: option.split)
  then show ?thesis
    using readLoop_answer [of "createScratchBuffer maxBytes" "[]" maxBytes limitError s] None
    by (simp add: readBoundedAsync_def Let_def)
next
  case (Some n)
  let ?cap = "createInitialBuffer maxBytes n"
  have cap: "0 < ?cap" by (simp add: createInitialBuffer_def)
  obtain bytes t where r: "readChunk ?cap s = (Inr bytes, t)" using read_total by blast
  have s: "left s = bytes @ left t" by (rule read_prefix [OF r])
  show ?thesis
  proof (cases "bytes = []")
    case True
    then have "left s = []" using read_end [of ?cap s t] r cap by simp
    then show ?thesis
      using True Some r by (auto simp: readBoundedAsync_def Let_def answer_def split: option.split)
  next
    case False
    show ?thesis
    proof (cases "\<exists>m. maxBytes = Some m \<and> m < length bytes")
      case True
      then show ?thesis
        using False Some r s by (auto simp: readBoundedAsync_def Let_def answer_def addReadBytes_def)
    next
      case fits: False
      have ok: "addReadBytes 0 (length bytes) maxBytes limitError = Inr (length bytes)"
        using fits unfolding addReadBytes_ok by (auto split: option.split)
      show ?thesis
      proof (cases "length bytes < ?cap \<and> (\<exists>k. observe t = Some k \<and> 0 < k \<and> k \<le> length bytes)")
        case True
        then have "left t = []" using observed [OF r] by blast
        moreover have "readBoundedAsync maxBytes readChunk observe initialSize limitError s = Some (Inr bytes, t)"
          using True False Some r ok by (auto simp: readBoundedAsync_def Let_def)
        ultimately show ?thesis using s fits by (auto simp: answer_def split: option.split)
      next
        case no: False
        have "readBoundedAsync maxBytes readChunk observe initialSize limitError s =
            readLoop readChunk limitError maxBytes ?cap bytes t"
          using no False Some r ok by (auto simp: readBoundedAsync_def Let_def split: option.split)
        moreover have "length bytes \<le> ?cap" by (rule read_length [OF r])
        moreover have "length bytes \<le> m" if "maxBytes = Some m" for m using fits that by auto
        ultimately show ?thesis
          using readLoop_answer [of ?cap bytes maxBytes limitError t] cap s by simp
      qed
    qed
  qed
qed

end

interpretation descriptor_source:
    byte_source "descriptorRead short" regularFileSize "\<lambda>d. drop (dscPosition d) (dscFile d)" for short
proof
  fix n s bytes t k
  assume r: "descriptorRead short n s = (Inr bytes, t)"
  let ?n = "min n (Suc (short (dscPosition s)))"
  have b: "bytes = take ?n (drop (dscPosition s) (dscFile s))"
    and t: "t = s\<lparr>dscPosition := dscPosition s + length bytes\<rparr>"
    using r by (auto simp: descriptorRead_def Let_def)
  show p: "drop (dscPosition s) (dscFile s) = bytes @ drop (dscPosition t) (dscFile t)"
  proof -
    have "drop (dscPosition t) (dscFile t) = drop (length bytes) (drop (dscPosition s) (dscFile s))"
      by (simp add: t add.commute)
    moreover have "bytes = take (length bytes) (drop (dscPosition s) (dscFile s))"
      unfolding b by (simp add: take_all_iff min_def)
    ultimately show ?thesis by (metis append_take_drop_id)
  qed
  show "length bytes \<le> n" by (simp add: b)
  show "drop (dscPosition t) (dscFile t) = []"
    if "regularFileSize t = Some k" "0 < k" "k \<le> length bytes"
    using that b t by (auto simp: regularFileSize_def split: if_splits)
qed (auto simp: descriptorRead_def Let_def)

interpretation handle_source:
    byte_source "descriptorRead short" "\<lambda>_. None" "\<lambda>d. drop (dscPosition d) (dscFile d)" for short
  by unfold_locales
    (fact descriptor_source.read_total descriptor_source.read_prefix descriptor_source.read_length
      descriptor_source.read_end | simp)+
subsection \<open>Properties\<close>

text \<open>C38: a bounded read always ends: with a finite budget, whatever the source answers and however
  much it still has, the read returns bytes or an error.\<close>

theorem bounded_read_ends:
  "(\<exists>r. readBoundedAsync (Some m) readChunk observe initialSize limitError s = Some r) \<and>
   (\<exists>r. readBoundedSync (Some m) readChunk observe initialSize limitError s = Some r)"
  unfolding readBoundedSync_def by (intro conjI readBounded_ends)

text \<open>C39: a bounded read of a descriptor answers exactly the rest of the file when that fits the budget
  and the limit error otherwise, however the reads are cut, whether or not a size is known first,
  and the synchronous and the asynchronous readers agree; an invalid budget is refused unread.\<close>

theorem descriptor_read_exact:
  "\<exists>d1 d2.
     readFileDescriptorBounded short maxBytes d = Some (result, d1) \<and>
     readFileDescriptorBoundedSync short maxBytes d = Some (result, d2)"
  if "result =
     (if maxBytes \<noteq> PosInfinity \<and> (\<not> isSafeInteger maxBytes \<or> floorNum maxBytes < 0)
      then Inl (RangeErr ''maxBytes must be a non-negative safe integer or Infinity'')
      else if maxBytes \<noteq> PosInfinity \<and> floorNum maxBytes < int (length (drop (dscPosition d) (dscFile d)))
      then Inl tooLarge
      else Inr (drop (dscPosition d) (dscFile d)))"
proof (cases "maxBytes \<noteq> PosInfinity \<and> (\<not> isSafeInteger maxBytes \<or> floorNum maxBytes < 0)")
  case True
  then show ?thesis
    by (auto simp: that readFileDescriptorBounded_def readFileDescriptorBoundedSync_def
        normalizeMaxBytes_def Let_def)
next
  case False
  then have n: "normalizeMaxBytes (Some maxBytes) None = Inr (Some maxBytes)"
    by (auto simp: normalizeMaxBytes_def)
  have "result = descriptor_source.answer (maxBytesOf maxBytes) None (drop (dscPosition d) (dscFile d))"
    using False by (auto simp: that descriptor_source.answer_def maxBytesOf_def nat_less_iff)
  then show ?thesis
    using descriptor_source.readBounded_answer [of "maxBytesOf maxBytes" short _ None d]
    by (simp add: readFileDescriptorBounded_def readFileDescriptorBoundedSync_def n readBoundedSync_def)
qed

theorem descriptor_read_exact_witness:
  "\<exists>d1 d2. let d = \<lparr>dscFile = [1, 2, 3, 4], dscPosition = 1, dscRegular = True\<rparr> in
     readFileDescriptorBounded (\<lambda>_. 0) (Finite 3) d = Some (Inr [2, 3, 4], d1) \<and>
     readFileDescriptorBoundedSync (\<lambda>_. 0) (Finite 3) d = Some (Inr [2, 3, 4], d2)"
  using descriptor_read_exact [of "Inr [2, 3, 4]" "Finite 3"
      "\<lparr>dscFile = [1, 2, 3, 4], dscPosition = 1, dscRegular = True\<rparr>" "\<lambda>_. 0"]
  by (simp add: Let_def isSafeInteger_def floorNum_def MAX_SAFE_INTEGER_def)

end
