(* ===== verification/WindowsAcl.thy ===== *)
theory WindowsAcl
  imports DevicePath
begin

text \<open>
  Windows ACL inspection (\<open>src/permissions-windows.ts\<close>), the owner query it falls back to
  (\<open>src/windows-owner.ts\<close>) and the descriptor facts of the native reader
  (\<open>src/windows-security-facts.ts\<close>). Access masks are 32-bit words. What the native reader and the
  helper process answer are parameters: a record of facts, and the fields of the helper's JSON
  object, where \<open>None\<close> stands for a value of the wrong type. Environment variables and the account
  name are parameters too.
\<close>

definition STAR :: jchar where
  "STAR = 42"

definition HYPHEN :: jchar where
  "HYPHEN = 45"

definition digits :: "jstr \<Rightarrow> bool" where
  "digits s \<longleftrightarrow> s \<noteq> [] \<and> list_all isAsciiDigit s"

text \<open>\<open>SID_RE\<close>, and its strict lower-case form without the star.\<close>

definition strictSid :: "jstr \<Rightarrow> bool" where
  "strictSid value =
     (let parts = splitOn HYPHEN value
      in length parts \<ge> 4 \<and> hd parts = js ''s'' \<and> list_all digits (tl parts))"

definition isSid :: "jstr \<Rightarrow> bool" where
  "isSid value =
     (let parts = splitOn HYPHEN (if startsWith value [STAR] then tl value else value)
      in length parts \<ge> 4 \<and> (hd parts = js ''s'' \<or> hd parts = js ''S'') \<and> list_all digits (tl parts))"

definition normalizeSid :: "unicode \<Rightarrow> jstr \<Rightarrow> jstr" where
  "normalizeSid u value =
     (let normalized = normalizeLowercaseStringOrEmpty u value
      in if startsWith normalized [STAR] then tl normalized else normalized)"

definition TRUSTED_INSTALLER_SID :: jstr where
  "TRUSTED_INSTALLER_SID = js ''s-1-5-80-956008885-3418522649-1831038044-1853292631-2271478464''"

definition SYSTEM_SID :: jstr where
  "SYSTEM_SID = js ''s-1-5-18''"

definition ADMINISTRATORS_SID :: jstr where
  "ADMINISTRATORS_SID = js ''s-1-5-32-544''"

definition TRUSTED_SIDS :: "jstr list" where
  "TRUSTED_SIDS = [SYSTEM_SID, ADMINISTRATORS_SID, TRUSTED_INSTALLER_SID]"

definition WORLD_SIDS :: "jstr list" where
  "WORLD_SIDS = map js [''s-1-1-0'', ''s-1-5-11'', ''s-1-5-32-545'', ''s-1-5-7'', ''s-1-5-32-546'',
     ''s-1-5-4'', ''s-1-2-0'', ''s-1-5-2'']"

definition account :: "string \<Rightarrow> string \<Rightarrow> jstr" where
  "account domain name = js domain @ [BACKSLASH] @ js name"

definition WORLD_PRINCIPALS :: "jstr list" where
  "WORLD_PRINCIPALS =
     [js ''everyone'', js ''users'', account ''builtin'' ''users'', js ''authenticated users'',
      account ''nt authority'' ''authenticated users'', js ''anonymous logon'',
      account ''nt authority'' ''anonymous logon'', js ''guests'', account ''builtin'' ''guests'',
      js ''interactive'', account ''nt authority'' ''interactive'', js ''network'',
      account ''nt authority'' ''network'', js ''local'']"

definition TRUSTED_BASE :: "jstr list" where
  "TRUSTED_BASE =
     [account ''nt authority'' ''system'', js ''system'', account ''builtin'' ''administrators'',
      js ''creator owner'',
      account ''autorite nt'' ''syst'' @ [0xe8] @ js ''me'',
      js ''nt-autorit'' @ [0xe4] @ js ''t'' @ [BACKSLASH] @ js ''system'',
      account ''autoridad nt'' ''system'', account ''autoridade nt'' ''system'']"

definition WORLD_SUFFIXES :: "jstr list" where
  "WORLD_SUFFIXES = [BACKSLASH # js ''users'', BACKSLASH # js ''authenticated users'']"

definition stripDiacritics :: "unicode \<Rightarrow> jstr \<Rightarrow> jstr" where
  "stripDiacritics u value = filter (\<lambda>c. \<not> (0x300 \<le> c \<and> c \<le> 0x36f)) (nfd u value)"

record windows_env =
  envUsername :: "jstr option"
  envUserdomain :: "jstr option"
  envUsersid :: "jstr option"

definition emptyEnv :: windows_env where
  "emptyEnv = \<lparr>envUsername = None, envUserdomain = None, envUsersid = None\<rparr>"

text \<open>A JavaScript string that is present and not empty.\<close>

definition truthy :: "jstr option \<Rightarrow> jstr option" where
  "truthy v = (case v of Some [] \<Rightarrow> None | _ \<Rightarrow> v)"

definition resolveWindowsUserPrincipal :: "windows_env \<Rightarrow> jstr option \<Rightarrow> jstr option" where
  "resolveWindowsUserPrincipal env accountName =
     (case truthy (map_option trim (envUsername env)) of
        Some n \<Rightarrow>
          Some (case truthy (map_option trim (envUserdomain env)) of
                  Some d \<Rightarrow> d @ [BACKSLASH] @ n | None \<Rightarrow> n)
      | None \<Rightarrow>
          (case truthy (map_option trim accountName) of
             None \<Rightarrow> None
           | Some n \<Rightarrow>
               Some (case truthy (map_option trim (envUserdomain env)) of
                       Some d \<Rightarrow> d @ [BACKSLASH] @ n | None \<Rightarrow> n)))"

definition buildTrustedSidPrincipals :: "unicode \<Rightarrow> windows_env \<Rightarrow> jstr list" where
  "buildTrustedSidPrincipals u env =
     (let userSid = normalizeSid u (case envUsersid env of None \<Rightarrow> [] | Some s \<Rightarrow> s)
      in if userSid \<noteq> [] \<and> isSid userSid \<and> userSid \<notin> set WORLD_SIDS then [userSid] else [])"

definition buildTrustedPrincipals :: "unicode \<Rightarrow> windows_env \<Rightarrow> jstr option \<Rightarrow> jstr list" where
  "buildTrustedPrincipals u env accountName =
     TRUSTED_BASE @ buildTrustedSidPrincipals u env @
     (case resolveWindowsUserPrincipal env accountName of
        None \<Rightarrow> []
      | Some who \<Rightarrow>
          normalizeLowercaseStringOrEmpty u who #
          (let userOnly = last (splitOn BACKSLASH who)
           in if userOnly = [] then [] else [normalizeLowercaseStringOrEmpty u userOnly]))"

datatype principal_class = Trusted | World | Group

definition classifyPrincipal :: "unicode \<Rightarrow> jstr \<Rightarrow> jstr list \<Rightarrow> principal_class" where
  "classifyPrincipal u who trustedPrincipals =
     (let normalized = normalizeLowercaseStringOrEmpty u who in
      if isSid normalized then
        (let sid = normalizeSid u normalized
         in if sid \<in> set WORLD_SIDS then World
            else if sid \<in> set TRUSTED_SIDS \<or> sid \<in> set trustedPrincipals then Trusted else Group)
      else if normalized \<in> set trustedPrincipals \<or> normalized \<in> set TRUSTED_BASE then Trusted
      else if normalized \<in> set WORLD_PRINCIPALS \<or> (\<exists>suffix \<in> set WORLD_SUFFIXES. endsWith normalized suffix)
      then World
      else let stripped = stripDiacritics u normalized
           in if stripped \<noteq> normalized \<and> stripped \<in> set (map (stripDiacritics u) TRUSTED_BASE)
              then Trusted else Group)"

subsection \<open>Entries and icacls output\<close>

record acl_entry =
  aePrincipal :: jstr
  aeSid :: "jstr option"
  aeRights :: "jstr list"
  aeRawRights :: jstr
  aeCanRead :: bool
  aeCanWrite :: bool

definition rightsFromTokens :: "unicode \<Rightarrow> jstr list \<Rightarrow> bool \<times> bool" where
  "rightsFromTokens u tokens =
     (let upper = toUpperCase u (concat tokens);
          has = (\<lambda>c. hasChar upper c)
      in (has 70 \<or> has 77 \<or> has 82, has 70 \<or> has 77 \<or> has 87 \<or> has 68))"

definition stripTargetPrefix :: "unicode \<Rightarrow> jstr \<Rightarrow> jstr \<Rightarrow> jstr" where
  "stripTargetPrefix u trimmedLine normalizedTarget =
     (let lowerLine = toLowerCase u trimmedLine;
          quotedTarget = 34 # normalizedTarget @ [34]
      in if startsWith lowerLine (toLowerCase u normalizedTarget)
         then trim (drop (length normalizedTarget) trimmedLine)
         else if startsWith lowerLine (toLowerCase u quotedTarget)
         then trim (drop (length quotedTarget) trimmedLine)
         else trimmedLine)"

text \<open>The matches of the pattern of a parenthesised, nonempty token, without the parentheses.\<close>

function parenTokens :: "jstr \<Rightarrow> jstr list" where
  "parenTokens [] = []"
| "parenTokens (c # rest) =
     (if c \<noteq> 40 then parenTokens rest
      else let body = takeWhile (\<lambda>x. x \<noteq> 41) rest; after = dropWhile (\<lambda>x. x \<noteq> 41) rest
           in if body \<noteq> [] \<and> after \<noteq> [] then body # parenTokens (tl after) else parenTokens rest)"
  by pat_completeness auto
termination
proof (relation "measure length", goal_cases)
  case (3 c rest body after)
  have "length after \<le> length rest" unfolding 3(3) by (rule length_dropWhile_le)
  then show ?case by simp
qed auto

definition INHERIT_FLAGS :: "jstr list" where
  "INHERIT_FLAGS = map js [''I'', ''OI'', ''CI'', ''IO'', ''NP'']"

definition parseAceEntry :: "unicode \<Rightarrow> jstr \<Rightarrow> acl_entry option" where
  "parseAceEntry u entry =
     (if \<not> hasChar entry 40 \<or> indexOf entry COLON = -1 then None
      else let idx = nat (indexOf entry COLON);
               who = trim (take idx entry);
               rawRights = trim (drop (idx + 1) entry);
               tokens = filter (\<lambda>t. t \<noteq> []) (map trim (parenTokens rawRights));
               rights = filter (\<lambda>t. toUpperCase u t \<notin> set INHERIT_FLAGS) tokens
           in if (\<exists>token \<in> set tokens. toUpperCase u token = js ''DENY'') \<or> rights = [] then None
              else let normalizedPrincipal = normalizeSid u who
                   in Some \<lparr>aePrincipal = who,
                            aeSid = (if isSid normalizedPrincipal then Some normalizedPrincipal else None),
                            aeRights = rights, aeRawRights = rawRights,
                            aeCanRead = fst (rightsFromTokens u rights),
                            aeCanWrite = snd (rightsFromTokens u rights)\<rparr>)"

definition STATUS_PREFIXES :: "jstr list" where
  "STATUS_PREFIXES = map js [''successfully processed'', ''processed'', ''failed processing'',
     ''no mapping between account names'']"

text \<open>\<open>split(/\r?\n/)\<close>.\<close>

definition splitLines :: "jstr \<Rightarrow> jstr list" where
  "splitLines output =
     (let ls = splitOn 10 output
      in map (\<lambda>l. if l \<noteq> [] \<and> last l = 13 then butlast l else l) (butlast ls) @ [last ls])"

definition parseIcaclsLine :: "unicode \<Rightarrow> jstr \<Rightarrow> jstr \<Rightarrow> acl_entry option" where
  "parseIcaclsLine u normalizedTarget rawLine =
     (let line = dropEndWhile isJsSpace rawLine; trimmed = trim line
      in if trimmed = [] then None
         else if \<exists>p \<in> set STATUS_PREFIXES. startsWith (toLowerCase u trimmed) p then None
         else parseAceEntry u (stripTargetPrefix u trimmed normalizedTarget))"

definition parseIcaclsOutput :: "unicode \<Rightarrow> jstr \<Rightarrow> jstr \<Rightarrow> acl_entry list" where
  "parseIcaclsOutput u output targetPath =
     List.map_filter (parseIcaclsLine u (trim targetPath)) (splitLines output)"

subsection \<open>The summary\<close>

record acl_summary =
  asOk :: bool
  asEntries :: "acl_entry list"
  asUntrustedWorld :: "acl_entry list"
  asUntrustedGroup :: "acl_entry list"
  asTrusted :: "acl_entry list"
  asError :: "string option"

definition entryName :: "acl_entry \<Rightarrow> jstr" where
  "entryName e = (case aeSid e of Some s \<Rightarrow> s | None \<Rightarrow> aePrincipal e)"

definition summarizeWindowsAcl ::
    "unicode \<Rightarrow> jstr option \<Rightarrow> acl_entry list \<Rightarrow> windows_env \<Rightarrow> acl_summary" where
  "summarizeWindowsAcl u accountName entries env =
     (let trustedPrincipals =
            (if list_all (\<lambda>e. isSid (normalizeLowercaseStringOrEmpty u (entryName e))) entries
             then buildTrustedSidPrincipals u env else buildTrustedPrincipals u env accountName);
          of_class = (\<lambda>c. filter (\<lambda>e. classifyPrincipal u (entryName e) trustedPrincipals = c) entries)
      in \<lparr>asOk = True, asEntries = entries, asUntrustedWorld = of_class World,
          asUntrustedGroup = of_class Group, asTrusted = of_class Trusted, asError = None\<rparr>)"

definition MASK_RIGHTS :: "(32 word \<times> string) list" where
  "MASK_RIGHTS =
     [(0x10000000, ''GA''), (0x80000000, ''GR''), (0x40000000, ''GW''), (0x20000000, ''GE''),
      (0x00010000, ''D''), (0x00020000, ''RC''), (0x00040000, ''WDAC''), (0x00080000, ''WO''),
      (0x00100000, ''S''), (0x0001, ''RD''), (0x0002, ''WD''), (0x0004, ''AD''), (0x0008, ''REA''),
      (0x0010, ''WEA''), (0x0020, ''X''), (0x0040, ''DC''), (0x0080, ''RA''), (0x0100, ''WA'')]"

record owner_ace =
  oaSid :: jstr
  oaMask :: "32 word"
  oaDeny :: bool
  oaInheritOnly :: bool

record owner_summary =
  osSid :: "jstr option"
  osCurrentUserSid :: "jstr option"
  osCurrentAppContainerSid :: "jstr option"
  osDaclPresent :: "bool option"
  osAces :: "owner_ace list option"
  osAclError :: "string option"
  osTrusted :: "bool option"
  osError :: "string option"

definition ownerError :: "string \<Rightarrow> owner_summary" where
  "ownerError e =
     \<lparr>osSid = None, osCurrentUserSid = None, osCurrentAppContainerSid = None, osDaclPresent = None,
      osAces = None, osAclError = None, osTrusted = None, osError = Some e\<rparr>"

definition FULL_CONTROL :: "32 word" where
  "FULL_CONTROL = 0x001f01ff"

definition READ_RIGHTS :: "32 word" where
  "READ_RIGHTS = 0x90020089"

definition WRITE_RIGHTS :: "32 word" where
  "WRITE_RIGHTS = 0x500d0156"

definition joinNames :: "jstr list \<Rightarrow> jstr" where
  "joinNames names = joinOn 44 names"

definition entryOfAce :: "owner_ace \<Rightarrow> acl_entry" where
  "entryOfAce ace =
     (let rights = (if oaMask ace = FULL_CONTROL then [js ''F'']
            else map (js \<circ> snd) (filter (\<lambda>r. and (oaMask ace) (fst r) \<noteq> 0) MASK_RIGHTS))
      in \<lparr>aePrincipal = oaSid ace, aeSid = Some (oaSid ace), aeRights = rights,
          aeRawRights = 40 # joinNames rights @ [41],
          aeCanRead = (and (oaMask ace) READ_RIGHTS \<noteq> 0),
          aeCanWrite = (and (oaMask ace) WRITE_RIGHTS \<noteq> 0)\<rparr>)"

text \<open>A null DACL grants everyone full access.\<close>

definition grantedAces :: "bool \<Rightarrow> owner_ace list \<Rightarrow> owner_ace list" where
  "grantedAces daclPresent aces =
     (if daclPresent then aces
      else [\<lparr>oaSid = js ''s-1-1-0'', oaMask = FULL_CONTROL, oaDeny = False, oaInheritOnly = False\<rparr>])"

definition demoteServicing :: "owner_summary \<Rightarrow> unicode \<Rightarrow> acl_summary \<Rightarrow> acl_summary" where
  "demoteServicing owner u summary =
     (let ownerSid = normalizeSid u (case osSid owner of None \<Rightarrow> [] | Some s \<Rightarrow> s);
          serviceOwned = (ownerSid \<in> set TRUSTED_SIDS);
          userWritable = (\<exists>e \<in> set (asEntries summary). aeCanWrite e \<and>
             (aeSid e = osCurrentUserSid owner \<or> aeSid e = osCurrentAppContainerSid owner))
      in if \<not> serviceOwned \<or> userWritable
         then summary\<lparr>asUntrustedGroup := asUntrustedGroup summary @
                        filter (\<lambda>e. aeSid e = Some TRUSTED_INSTALLER_SID) (asTrusted summary),
                      asTrusted := filter (\<lambda>e. aeSid e \<noteq> Some TRUSTED_INSTALLER_SID) (asTrusted summary)\<rparr>
         else summary)"

definition promoteContainer :: "owner_summary \<Rightarrow> acl_summary \<Rightarrow> acl_summary" where
  "promoteContainer owner summary =
     (case truthy (osCurrentAppContainerSid owner) of
        None \<Rightarrow> summary
      | Some c \<Rightarrow>
          summary\<lparr>asTrusted := asTrusted summary @ filter (\<lambda>e. aeSid e = Some c) (asUntrustedGroup summary),
                  asUntrustedGroup := filter (\<lambda>e. aeSid e \<noteq> Some c) (asUntrustedGroup summary)\<rparr>)"

definition orElseError :: "string option \<Rightarrow> string option \<Rightarrow> string option" where
  "orElseError a b = (case a of None \<Rightarrow> b | Some x \<Rightarrow> Some x)"

definition failedSummary :: "string \<Rightarrow> acl_summary" where
  "failedSummary e =
     \<lparr>asOk = False, asEntries = [], asUntrustedWorld = [], asUntrustedGroup = [], asTrusted = [],
      asError = Some e\<rparr>"

definition summarizeWindowsOwnerAcl :: "unicode \<Rightarrow> owner_summary \<Rightarrow> acl_summary" where
  "summarizeWindowsOwnerAcl u owner =
     (case (orElseError (osError owner) (osAclError owner), osDaclPresent owner, osAces owner,
            truthy (osCurrentUserSid owner)) of
        (None, Some present, Some aces, Some userSid) \<Rightarrow>
          (let entries = map entryOfAce (filter (\<lambda>a. \<not> oaDeny a \<and> \<not> oaInheritOnly a) (grantedAces present aces));
               summary = summarizeWindowsAcl u None entries (emptyEnv\<lparr>envUsersid := Some userSid\<rparr>)
           in promoteContainer owner (demoteServicing owner u summary))
      | (Some e, _, _, _) \<Rightarrow> failedSummary e
      | _ \<Rightarrow> failedSummary ''Windows ACL query returned incomplete descriptor data'')"
subsection \<open>The owner query\<close>

text \<open>The helper's JSON object. \<open>None\<close> is a field of another type; an optional container identifier
  that is absent or null is \<open>Some None\<close>. Rows of the access list are checked one by one.\<close>

record json_ace =
  jaSid :: "jstr option"
  jaMask :: "int option"
  jaDeny :: "bool option"
  jaInheritOnly :: "bool option"

record json_owner =
  joOwnerSid :: "jstr option"
  joCurrentUserSid :: "jstr option"
  joCurrentAppContainerSid :: "jstr option option"
  joRemote :: "bool option"
  joComplete :: bool
  joDaclPresent :: "bool option"
  joAces :: "json_ace option list option"

definition parseAclRow :: "unicode \<Rightarrow> json_ace option \<Rightarrow> owner_ace option" where
  "parseAclRow u row =
     (case row of
        None \<Rightarrow> None
      | Some r \<Rightarrow>
          (case (jaSid r, jaMask r, jaDeny r, jaInheritOnly r) of
             (Some sid, Some access, Some deny, Some inheritOnly) \<Rightarrow>
               if isSid sid \<and> 0 \<le> access \<and> access \<le> 0xffffffff
               then Some \<lparr>oaSid = normalizeSid u sid, oaMask = word_of_int access, oaDeny = deny,
                          oaInheritOnly = inheritOnly\<rparr>
               else None
           | _ \<Rightarrow> None))"

definition parseWindowsAclFacts ::
    "unicode \<Rightarrow> json_owner \<Rightarrow> string + (bool \<times> owner_ace list)" where
  "parseWindowsAclFacts u parsed =
     (case (joComplete parsed, joDaclPresent parsed, joAces parsed) of
        (True, Some present, Some rows) \<Rightarrow>
          if \<exists>row \<in> set rows. parseAclRow u row = None
          then Inl ''Windows ACL query returned invalid access-rule data''
          else Inr (present, map (the \<circ> parseAclRow u) rows)
      | _ \<Rightarrow> Inl ''Windows ACL query returned incomplete descriptor data'')"

definition appContainerSid :: "jstr \<Rightarrow> bool" where
  "appContainerSid s =
     (startsWith s (js ''s-1-15-2-'') \<and>
      (let parts = splitOn HYPHEN (drop 10 s) in length parts \<ge> 7 \<and> list_all digits parts))"

definition sidField :: "unicode \<Rightarrow> jstr option \<Rightarrow> jstr option" where
  "sidField u v = (case v of Some s \<Rightarrow> if isSid s then Some (normalizeSid u s) else None | None \<Rightarrow> None)"

definition ownerOfJson :: "unicode \<Rightarrow> json_owner option \<Rightarrow> owner_summary" where
  "ownerOfJson u answer =
     (case answer of
        None \<Rightarrow> ownerError ''Windows owner query returned invalid SID data''
      | Some parsed \<Rightarrow>
          (case (sidField u (joOwnerSid parsed), sidField u (joCurrentUserSid parsed)) of
             (Some ownerSid, Some currentUserSid) \<Rightarrow>
               if (case joCurrentAppContainerSid parsed of
                     None \<Rightarrow> True
                   | Some None \<Rightarrow> False
                   | Some (Some c) \<Rightarrow> \<not> appContainerSid (toLowerCase u c))
               then ownerError ''Windows owner query returned invalid AppContainer SID data''
               else (case joRemote parsed of
                  None \<Rightarrow> ownerError ''Windows owner query returned invalid locality data''
                | Some remote \<Rightarrow>
                    (let facts = parseWindowsAclFacts u parsed in
                     \<lparr>osSid = Some ownerSid, osCurrentUserSid = Some currentUserSid,
                      osCurrentAppContainerSid =
                        (case joCurrentAppContainerSid parsed of
                           Some (Some c) \<Rightarrow> Some (normalizeSid u c) | _ \<Rightarrow> None),
                      osDaclPresent = (case facts of Inr (present, _) \<Rightarrow> Some present | Inl _ \<Rightarrow> None),
                      osAces = (case facts of Inr (_, aces) \<Rightarrow> Some aces | Inl _ \<Rightarrow> None),
                      osAclError = (case facts of Inl e \<Rightarrow> Some e | Inr _ \<Rightarrow> None),
                      osTrusted = Some (\<not> remote \<and>
                        (ownerSid = currentUserSid \<or> ownerSid \<in> set TRUSTED_SIDS)),
                      osError = None\<rparr>))
           | _ \<Rightarrow> ownerError ''Windows owner query returned invalid SID data''))"

text \<open>\<open>query\<close> is what the helper printed: an error message, or a parsed value.\<close>

definition inspectWindowsOwner ::
    "unicode \<Rightarrow> jstr \<Rightarrow> string + json_owner option \<Rightarrow> owner_summary" where
  "inspectWindowsOwner u targetPath query =
     (if hasWindowsPathAlias targetPath Filesystem Win32
      then ownerError ''Path uses a Windows filesystem namespace alias''
      else case query of Inl e \<Rightarrow> ownerError e | Inr answer \<Rightarrow> ownerOfJson u answer)"

subsection \<open>Descriptor facts of the native reader\<close>

record ace_flags =
  afRaw :: int
  afObjectInherit :: bool
  afContainerInherit :: bool
  afNoPropagateInherit :: bool
  afInheritOnly :: bool
  afInherited :: bool
  afSuccessfulAccess :: bool
  afFailedAccess :: bool

record native_ace =
  naSid :: jstr
  naMask :: "32 word"
  naAllow :: bool
  naFlags :: ace_flags

record native_facts =
  nfOwnerSid :: jstr
  nfCurrentUserSid :: jstr
  nfCurrentAppContainerSid :: "jstr option"
  nfOwnerClass :: string
  nfWorldWritable :: bool
  nfGroupWritable :: bool
  nfWorldReadable :: bool
  nfGroupReadable :: bool
  nfFallbackRequired :: bool
  nfDaclPresent :: bool
  nfIsLocal :: bool
  nfAceListComplete :: bool
  nfUnsupportedAceTypes :: "int list"
  nfAces :: "native_ace list"

definition ownerAceOf :: "native_ace \<Rightarrow> owner_ace" where
  "ownerAceOf ace =
     \<lparr>oaSid = naSid ace, oaMask = naMask ace, oaDeny = (\<not> naAllow ace),
      oaInheritOnly = afInheritOnly (naFlags ace)\<rparr>"

definition ownerOfFacts :: "native_facts \<Rightarrow> native_ace list \<Rightarrow> owner_summary" where
  "ownerOfFacts facts aces =
     \<lparr>osSid = Some (nfOwnerSid facts), osCurrentUserSid = Some (nfCurrentUserSid facts),
      osCurrentAppContainerSid = nfCurrentAppContainerSid facts,
      osDaclPresent = Some (nfDaclPresent facts), osAces = Some (map ownerAceOf aces),
      osAclError = None, osTrusted = None, osError = None\<rparr>"

definition factsUsable :: "native_facts \<Rightarrow> bool" where
  "factsUsable facts \<longleftrightarrow>
     \<not> nfFallbackRequired facts \<and> nfIsLocal facts \<and> nfAceListComplete facts \<and>
     nfUnsupportedAceTypes facts = []"

subsection \<open>Permission checks\<close>

datatype permission_source = Source_posix | Source_windows_acl | Source_unknown

record permission_check =
  pcOk :: bool
  pcIsSymlink :: bool
  pcIsDir :: bool
  pcMode :: "int option"
  pcBits :: "int option"
  pcSource :: permission_source
  pcWorldWritable :: bool
  pcGroupWritable :: bool
  pcWorldReadable :: bool
  pcGroupReadable :: bool
  pcOwnerSid :: "jstr option"
  pcOwnerTrusted :: "bool option"
  pcOwnerError :: "string option"
  pcError :: "string option"
  pcAclSummary :: "jstr option"

definition formatWindowsAclSummary :: "acl_summary \<Rightarrow> jstr" where
  "formatWindowsAclSummary summary =
     (if \<not> asOk summary then js ''unknown''
      else let untrusted = asUntrustedWorld summary @ asUntrustedGroup summary
           in if untrusted = [] then js ''trusted-only''
              else concat (case map (\<lambda>e. aePrincipal e @ [COLON] @ aeRawRights e) untrusted of
                     [] \<Rightarrow> [] | t # ts \<Rightarrow> t # map (\<lambda>x. js '', '' @ x) ts))"

definition withAcl :: "permission_check \<Rightarrow> acl_summary \<Rightarrow> permission_check" where
  "withAcl unverified acl =
     unverified\<lparr>pcSource := Source_windows_acl,
       pcWorldWritable := \<exists>e \<in> set (asUntrustedWorld acl). aeCanWrite e,
       pcGroupWritable := \<exists>e \<in> set (asUntrustedGroup acl). aeCanWrite e,
       pcWorldReadable := \<exists>e \<in> set (asUntrustedWorld acl). aeCanRead e,
       pcGroupReadable := \<exists>e \<in> set (asUntrustedGroup acl). aeCanRead e\<rparr>"

definition rw :: "bool \<Rightarrow> bool \<Rightarrow> string" where
  "rw readable writable = (if readable then ''r'' else ''-'') @ (if writable then ''w'' else ''-'')"

definition inspectWindowsPermissionsNative ::
    "unicode \<Rightarrow> native_facts option \<Rightarrow> permission_check \<Rightarrow> error + permission_check option" where
  "inspectWindowsPermissionsNative u native unverified =
     (case native of
        None \<Rightarrow> Inr None
      | Some facts \<Rightarrow>
          if \<not> factsUsable facts then
            (if truthy (nfCurrentAppContainerSid facts) \<noteq> None
             then Inl (throwFs Helper_unavailable ''AppContainer ACL facts require an unavailable external helper'')
             else Inr None)
          else let acl = summarizeWindowsOwnerAcl u (ownerOfFacts facts (nfAces facts))
               in if \<not> asOk acl then Inr (Some (unverified\<lparr>pcError := asError acl\<rparr>))
                  else let checked = withAcl unverified acl
                       in Inr (Some (checked\<lparr>pcOwnerSid := Some (nfOwnerSid facts),
                            pcOwnerTrusted := Some (nfOwnerClass facts \<noteq> ''foreign'' \<or>
                              normalizeSid u (nfOwnerSid facts) = TRUSTED_INSTALLER_SID),
                            pcAclSummary := Some (js (''native owner='' @ nfOwnerClass facts @ '' world='' @
                              rw (pcWorldReadable checked) (pcWorldWritable checked) @ '' group='' @
                              rw (pcGroupReadable checked) (pcGroupWritable checked)))\<rparr>)))"

definition inspectWindowsPermissions ::
    "unicode \<Rightarrow> native_facts option \<Rightarrow> string + json_owner option \<Rightarrow> jstr \<Rightarrow> permission_check \<Rightarrow>
     error + permission_check" where
  "inspectWindowsPermissions u native query targetPath unverified =
     (if hasWindowsPathAlias targetPath Filesystem Win32
      then Inr (unverified\<lparr>pcError := Some ''Path uses a Windows filesystem namespace alias''\<rparr>)
      else bindE (inspectWindowsPermissionsNative u native unverified) (\<lambda>r.
        case r of
          Some check \<Rightarrow> Inr check
        | None \<Rightarrow>
            (let owner = inspectWindowsOwner u targetPath query
             in case osError owner of
                  Some e \<Rightarrow> Inr (unverified\<lparr>pcOwnerError := Some e,
                       pcError := Some (''Windows owner inspection failed: '' @ e)\<rparr>)
                | None \<Rightarrow>
                    (let acl = summarizeWindowsOwnerAcl u owner;
                         owned = unverified\<lparr>pcOwnerSid := truthy (osSid owner), pcOwnerTrusted := osTrusted owner\<rparr>
                     in Inr (if \<not> asOk acl then owned\<lparr>pcError := asError acl\<rparr>
                             else (withAcl owned acl)\<lparr>pcAclSummary := Some (formatWindowsAclSummary acl)\<rparr>)))))"

definition hasUnmergedAppContainerAces :: "native_facts \<Rightarrow> bool" where
  "hasUnmergedAppContainerAces facts =
     (truthy (nfCurrentAppContainerSid facts) \<noteq> None \<and>
      (case nfAces facts of
         [] \<Rightarrow> False
       | first # _ \<Rightarrow>
           (let inheritance = afRaw (naFlags first)
            in (inheritance = 0 \<or> inheritance = 3) \<and> distinct (map naSid (nfAces facts)) \<and>
               list_all (\<lambda>ace. naAllow ace \<and> naMask ace = FULL_CONTROL \<and> afRaw (naFlags ace) = inheritance)
                 (nfAces facts))))"

text \<open>Numbers of a security identifier, and the comparison of the .NET framework: subauthorities
  are subtracted as signed 32-bit integers.\<close>

definition digitsValue :: "jstr \<Rightarrow> int" where
  "digitsValue s = foldl (\<lambda>n c. n * 10 + (c - 48)) 0 s"

definition sidNumbers :: "jstr \<Rightarrow> int list" where
  "sidNumbers sid = map digitsValue (drop 2 (splitOn HYPHEN sid))"

fun compareSubauthorities :: "int list \<Rightarrow> int list \<Rightarrow> int" where
  "compareSubauthorities (a # as) (b # bs) =
     (let difference = sint ((word_of_int a :: 32 word) - word_of_int b)
      in if difference \<noteq> 0 then difference else compareSubauthorities as bs)"
| "compareSubauthorities _ _ = 0"

definition compareWindowsSids :: "jstr \<Rightarrow> jstr \<Rightarrow> int" where
  "compareWindowsSids left right =
     (let a = sidNumbers left; b = sidNumbers right
      in if hd a \<noteq> hd b then (if hd a < hd b then -1 else 1)
         else if length a \<noteq> length b then int (length a) - int (length b)
         else compareSubauthorities (tl a) (tl b))"

text \<open>The query of an access list by itself. \<open>jsSort\<close> is the engine's sort by a comparator,
  \<open>native\<close> what the native reader answers for an object that is no link (\<open>None\<close> off Windows, with
  a custom executor and without a reader), \<open>query\<close> what the helper printed.\<close>

definition inspectWindowsAcl ::
    "unicode \<Rightarrow> ((native_ace \<Rightarrow> native_ace \<Rightarrow> int) \<Rightarrow> native_ace list \<Rightarrow> native_ace list) \<Rightarrow>
     native_facts option \<Rightarrow> string + json_owner option \<Rightarrow> bool \<Rightarrow> jstr option \<Rightarrow> jstr \<Rightarrow>
     error + acl_summary" where
  "inspectWindowsAcl u jsSort native query principalTranslationFailed currentUserSid targetPath =
     (if principalTranslationFailed
      then Inr (summarizeWindowsOwnerAcl u (ownerError ''Windows ACL principal SID translation failed''))
      else if hasWindowsPathAlias targetPath Filesystem Win32
      then Inr (summarizeWindowsOwnerAcl u (ownerError ''Path uses a Windows filesystem namespace alias''))
      else
        bindE (case native of
                 None \<Rightarrow> Inr None
               | Some facts \<Rightarrow>
                   (let explicitAppContainer = hasUnmergedAppContainerAces facts
                    in if factsUsable facts \<and>
                          (list_all (\<lambda>ace. afInherited (naFlags ace) \<and> naMask ace \<noteq> 0) (nfAces facts) \<or>
                           explicitAppContainer)
                       then Inr (Some (ownerOfFacts facts
                              (if explicitAppContainer
                               then jsSort (\<lambda>a b. compareWindowsSids (naSid a) (naSid b)) (nfAces facts)
                               else nfAces facts)))
                       else bindE (throwIf (truthy (nfCurrentAppContainerSid facts) \<noteq> None)
                              (throwFs Helper_unavailable
                                 ''AppContainer ACL normalization requires an unavailable external helper''))
                            (\<lambda>_. Inr None)))
          (\<lambda>found.
             let owner = (case found of Some x \<Rightarrow> x | None \<Rightarrow> inspectWindowsOwner u targetPath query);
                 given = normalizeSid u (case currentUserSid of None \<Rightarrow> [] | Some s \<Rightarrow> s)
             in Inr (summarizeWindowsOwnerAcl u
                  (owner\<lparr>osCurrentUserSid := (if given = [] then osCurrentUserSid owner else Some given)\<rparr>))))"

subsection \<open>Admission of descriptor facts\<close>

definition permissionUnverified :: "string \<Rightarrow> error" where
  "permissionUnverified message = throwFs Permission_unverified message"

definition uint32 :: "int \<Rightarrow> bool" where
  "uint32 n \<longleftrightarrow> 0 \<le> n \<and> n \<le> 0xffffffff"

definition validateAce :: "bool \<Rightarrow> native_ace \<Rightarrow> bool" where
  "validateAce allowUnknownFlags ace =
     (let flags = naFlags ace; raw = afRaw flags;
          allowed = (if allowUnknownFlags then 0xff else 0xdf :: int)
      in strictSid (naSid ace) \<and> uint32 raw \<and> and raw allowed = raw \<and>
         (\<forall>(field, bit_of) \<in> set
            [(afObjectInherit flags, 0x01 :: int), (afContainerInherit flags, 0x02),
             (afNoPropagateInherit flags, 0x04), (afInheritOnly flags, 0x08), (afInherited flags, 0x10),
             (afSuccessfulAccess flags, 0x40), (afFailedAccess flags, 0x80)].
            field = (and raw bit_of \<noteq> 0)))"

definition validateDescriptor :: "bool \<Rightarrow> native_facts \<Rightarrow> error + unit" where
  "validateDescriptor allowUnknownFlags facts =
     bindE (throwIf (\<not> strictSid (nfOwnerSid facts) \<or> \<not> strictSid (nfCurrentUserSid facts) \<or>
              (case nfCurrentAppContainerSid facts of None \<Rightarrow> False | Some c \<Rightarrow> \<not> appContainerSid c) \<or>
              \<not> list_all uint32 (nfUnsupportedAceTypes facts) \<or>
              \<not> list_all (validateAce allowUnknownFlags) (nfAces facts))
            (permissionUnverified ''Windows descriptor ACL facts were malformed'')) (\<lambda>_.
       throwIf ((\<not> nfDaclPresent facts \<and> nfAces facts \<noteq> []) \<or>
                (nfAceListComplete facts \<and> nfUnsupportedAceTypes facts \<noteq> []))
         (permissionUnverified ''Windows descriptor DACL facts were inconsistent''))"

definition FACTS_WORLD_SIDS :: "jstr list" where
  "FACTS_WORLD_SIDS = map js [''s-1-1-0'', ''s-1-5-11'', ''s-1-5-32-545'', ''s-1-5-7'', ''s-1-5-32-546'',
     ''s-1-5-4'', ''s-1-5-2'']"

record facts_summary =
  fsOwnerClass :: string
  fsWorldReadable :: bool
  fsWorldWritable :: bool
  fsGroupReadable :: bool
  fsGroupWritable :: bool

definition FACTS_READ_RIGHTS :: "32 word" where
  "FACTS_READ_RIGHTS = 0x90000089"

text \<open>One step of the loop over the entries.\<close>

definition summarizeAce :: "jstr set \<Rightarrow> native_ace \<Rightarrow> facts_summary \<Rightarrow> facts_summary" where
  "summarizeAce trusted ace s =
     (if \<not> naAllow ace \<or> afInheritOnly (naFlags ace) \<or> naSid ace \<in> trusted then s
      else let canRead = (and (naMask ace) FACTS_READ_RIGHTS \<noteq> 0);
               canWrite = (and (naMask ace) WRITE_RIGHTS \<noteq> 0)
           in if naSid ace \<in> set FACTS_WORLD_SIDS
              then s\<lparr>fsWorldReadable := fsWorldReadable s \<or> canRead,
                     fsWorldWritable := fsWorldWritable s \<or> canWrite\<rparr>
              else s\<lparr>fsGroupReadable := fsGroupReadable s \<or> canRead,
                     fsGroupWritable := fsGroupWritable s \<or> canWrite\<rparr>)"

definition factsTrusted :: "native_facts \<Rightarrow> jstr set" where
  "factsTrusted facts =
     {nfCurrentUserSid facts, SYSTEM_SID, ADMINISTRATORS_SID} \<union>
     (case truthy (nfCurrentAppContainerSid facts) of None \<Rightarrow> {} | Some c \<Rightarrow> {c})"

definition summarize :: "native_facts \<Rightarrow> facts_summary" where
  "summarize facts =
     fold (summarizeAce (factsTrusted facts)) (nfAces facts)
       \<lparr>fsOwnerClass =
          (if nfOwnerSid facts = nfCurrentUserSid facts then ''current-user''
           else if nfOwnerSid facts = SYSTEM_SID then ''system''
           else if nfOwnerSid facts = ADMINISTRATORS_SID then ''administrators'' else ''foreign''),
        fsWorldReadable = \<not> nfDaclPresent facts, fsWorldWritable = \<not> nfDaclPresent facts,
        fsGroupReadable = False, fsGroupWritable = False\<rparr>"

definition validateSecureWindowsSecurityFacts :: "native_facts \<Rightarrow> error + native_facts" where
  "validateSecureWindowsSecurityFacts facts =
     bindE (validateDescriptor False facts) (\<lambda>_.
       let summary = summarize facts
       in bindE (throwIf (nfOwnerClass facts \<noteq> fsOwnerClass summary)
                   (permissionUnverified ''Windows descriptor owner facts were inconsistent'')) (\<lambda>_.
          bindE (throwIf (\<not> factsUsable facts)
                   (permissionUnverified ''Windows descriptor ACL facts were incomplete or unsupported'')) (\<lambda>_.
          bindE (throwIf (nfWorldReadable facts \<noteq> fsWorldReadable summary \<or>
                          nfWorldWritable facts \<noteq> fsWorldWritable summary \<or>
                          nfGroupReadable facts \<noteq> fsGroupReadable summary \<or>
                          nfGroupWritable facts \<noteq> fsGroupWritable summary)
                   (permissionUnverified ''Windows descriptor ACL summary was inconsistent'')) (\<lambda>_.
            Inr facts))))"

definition parseWindowsSecurityCommandFacts :: "native_facts \<Rightarrow> error + native_facts" where
  "parseWindowsSecurityCommandFacts facts =
     bindE (validateDescriptor True facts) (\<lambda>_.
       let s = summarize facts
       in Inr (facts\<lparr>nfOwnerClass := fsOwnerClass s, nfWorldReadable := fsWorldReadable s,
            nfWorldWritable := fsWorldWritable s, nfGroupReadable := fsGroupReadable s,
            nfGroupWritable := fsGroupWritable s,
            nfFallbackRequired := \<not> nfIsLocal facts \<or> \<not> nfAceListComplete facts\<rparr>))"

subsection \<open>What the summary says of an access list\<close>

definition canonicalSid :: "unicode \<Rightarrow> jstr \<Rightarrow> bool" where
  "canonicalSid u sid \<longleftrightarrow>
     isSid sid \<and> \<not> startsWith sid [STAR] \<and> normalizeLowercaseStringOrEmpty u sid = sid"

lemma canonical_normal: "canonicalSid u sid \<Longrightarrow> normalizeSid u sid = sid"
  by (simp add: canonicalSid_def normalizeSid_def)

lemma classify_canonical:
  "canonicalSid u sid \<Longrightarrow> classifyPrincipal u sid trusted =
     (if sid \<in> set WORLD_SIDS then World
      else if sid \<in> set TRUSTED_SIDS \<or> sid \<in> set trusted then Trusted else Group)"
  using canonical_normal [of u sid] by (simp add: canonicalSid_def classifyPrincipal_def Let_def)

definition liveAces :: "owner_summary \<Rightarrow> owner_ace list" where
  "liveAces owner =
     (case (osDaclPresent owner, osAces owner) of
        (Some present, Some aces) \<Rightarrow> filter (\<lambda>a. \<not> oaDeny a \<and> \<not> oaInheritOnly a) (grantedAces present aces)
      | _ \<Rightarrow> [])"

definition writes :: "owner_ace \<Rightarrow> bool" where
  "writes a \<longleftrightarrow> and (oaMask a) WRITE_RIGHTS \<noteq> 0"

definition reads :: "owner_ace \<Rightarrow> bool" where
  "reads a \<longleftrightarrow> and (oaMask a) READ_RIGHTS \<noteq> 0"

text \<open>The servicing account is trusted only where a service owns the object and the user cannot
  write it.\<close>

definition servicingTrusted :: "unicode \<Rightarrow> owner_summary \<Rightarrow> bool" where
  "servicingTrusted u owner \<longleftrightarrow>
     normalizeSid u (case osSid owner of None \<Rightarrow> [] | Some s \<Rightarrow> s) \<in> set TRUSTED_SIDS \<and>
     \<not> (\<exists>a \<in> set (liveAces owner). writes a \<and>
          (Some (oaSid a) = osCurrentUserSid owner \<or> Some (oaSid a) = osCurrentAppContainerSid owner))"

definition trustedSid :: "unicode \<Rightarrow> owner_summary \<Rightarrow> jstr \<Rightarrow> bool" where
  "trustedSid u owner sid \<longleftrightarrow>
     sid \<notin> set WORLD_SIDS \<and>
     (Some sid = osCurrentAppContainerSid owner \<or>
      (if sid = TRUSTED_INSTALLER_SID then servicingTrusted u owner
       else sid \<in> {SYSTEM_SID, ADMINISTRATORS_SID} \<or> Some sid = osCurrentUserSid owner))"

lemma entryOfAce_simps [simp]:
  "aeSid (entryOfAce a) = Some (oaSid a)" "aeCanWrite (entryOfAce a) = writes a"
  "aeCanRead (entryOfAce a) = reads a" "entryName (entryOfAce a) = oaSid a"
  by (simp_all add: entryOfAce_def writes_def reads_def entryName_def Let_def)

text \<open>An owner summary whose access list could be read, with canonical identifiers.\<close>

definition wfOwner :: "unicode \<Rightarrow> owner_summary \<Rightarrow> bool" where
  "wfOwner u owner \<longleftrightarrow>
     osError owner = None \<and> osAclError owner = None \<and> osDaclPresent owner \<noteq> None \<and>
     (case osAces owner of None \<Rightarrow> False | Some aces \<Rightarrow> list_all (canonicalSid u \<circ> oaSid) aces) \<and>
     wfUnicode u \<and>
     (case osCurrentUserSid owner of None \<Rightarrow> False | Some s \<Rightarrow> canonicalSid u s) \<and>
     osCurrentAppContainerSid owner \<noteq> Some []"

lemma canonicalSid_nonempty: "canonicalSid u s \<Longrightarrow> s \<noteq> []"
  by (auto simp: canonicalSid_def isSid_def startsWith_def)

lemma buildTrustedSid_canonical:
  "canonicalSid u s \<Longrightarrow> buildTrustedSidPrincipals u (emptyEnv\<lparr>envUsersid := Some s\<rparr>) =
     (if s \<in> set WORLD_SIDS then [] else [s])"
  using canonical_normal [of u s] canonicalSid_nonempty [of u s]
  by (simp add: buildTrustedSidPrincipals_def canonicalSid_def)

lemma canonical_everyone: "wfUnicode u \<Longrightarrow> canonicalSid u (js ''s-1-1-0'')"
proof -
  assume u: "wfUnicode u"
  have a: "isAscii (js ''s-1-1-0'')" "trim (js ''s-1-1-0'') = js ''s-1-1-0''" "isSid (js ''s-1-1-0'')"
    "\<not> startsWith (js ''s-1-1-0'') [STAR]" "map asciiLower (js ''s-1-1-0'') = js ''s-1-1-0''"
    "js ''s-1-1-0'' \<noteq> []"
    by code_simp+
  then have "toLowerCase u (js ''s-1-1-0'') = js ''s-1-1-0''" using u by (simp only: wfUnicode_def)
  then show ?thesis
    using a unfolding canonicalSid_def normalizeLowercaseStringOrEmpty_def Let_def by simp
qed

definition liveEntries :: "owner_summary \<Rightarrow> acl_entry list" where
  "liveEntries owner = map entryOfAce (liveAces owner)"

lemma live_canonical:
  assumes "wfOwner u owner" "e \<in> set (liveEntries owner)"
  shows "canonicalSid u (entryName e) \<and> aeSid e = Some (entryName e)"
proof -
  obtain a where a: "a \<in> set (liveAces owner)" "e = entryOfAce a"
    using assms(2) by (auto simp: liveEntries_def)
  then have "canonicalSid u (oaSid a)"
    using assms(1) canonical_everyone [of u]
    by (auto simp: liveAces_def wfOwner_def grantedAces_def list_all_iff split: option.splits if_splits)
  then show ?thesis using a by simp
qed

lemma summary_members:
  assumes "wfOwner u owner"
  defines "S \<equiv> summarizeWindowsOwnerAcl u owner"
  shows "asOk S \<and> asEntries S = liveEntries owner \<and>
    (e \<in> set (asUntrustedWorld S) \<longleftrightarrow> e \<in> set (liveEntries owner) \<and> entryName e \<in> set WORLD_SIDS) \<and>
    (e \<in> set (asUntrustedGroup S) \<longleftrightarrow> e \<in> set (liveEntries owner) \<and>
        entryName e \<notin> set WORLD_SIDS \<and> \<not> trustedSid u owner (entryName e)) \<and>
    (e \<in> set (asTrusted S) \<longleftrightarrow> e \<in> set (liveEntries owner) \<and> trustedSid u owner (entryName e))"
proof -
  obtain present aces who where o: "osError owner = None" "osAclError owner = None"
    "osDaclPresent owner = Some present" "osAces owner = Some aces" "osCurrentUserSid owner = Some who"
    "canonicalSid u who" "osCurrentAppContainerSid owner \<noteq> Some []"
    using assms(1) by (auto simp: wfOwner_def split: option.splits)
  let ?L = "liveEntries owner"
  let ?T = "buildTrustedSidPrincipals u (emptyEnv\<lparr>envUsersid := Some who\<rparr>)"
  let ?c = "\<lambda>e. classifyPrincipal u (entryName e) ?T"
  let ?S = "\<lparr>asOk = True, asEntries = ?L, asUntrustedWorld = filter (\<lambda>e. ?c e = World) ?L,
          asUntrustedGroup = filter (\<lambda>e. ?c e = Group) ?L, asTrusted = filter (\<lambda>e. ?c e = Trusted) ?L,
          asError = None\<rparr>"
  have "list_all (\<lambda>e. isSid (normalizeLowercaseStringOrEmpty u (entryName e))) ?L"
    using live_canonical [OF assms(1)] by (auto simp: list_all_iff canonicalSid_def)
  moreover have "truthy (Some who) = Some who"
    using canonicalSid_nonempty [OF o(6)] by (cases who) (simp_all add: truthy_def)
  moreover have "map entryOfAce (filter (\<lambda>a. \<not> oaDeny a \<and> \<not> oaInheritOnly a) (grantedAces present aces)) = ?L"
    by (simp add: liveEntries_def liveAces_def o)
  ultimately have S: "S = promoteContainer owner (demoteServicing owner u ?S)"
    by (simp add: S_def summarizeWindowsOwnerAcl_def o orElseError_def summarizeWindowsAcl_def Let_def)
  have classes: "?c e = (if entryName e \<in> set WORLD_SIDS then World
      else if entryName e \<in> set TRUSTED_SIDS \<or> entryName e = who then Trusted else Group)"
    if "e \<in> set ?L" for e
    using live_canonical [OF assms(1) that] buildTrustedSid_canonical [OF o(6)]
    by (auto simp: classify_canonical)
  have sid: "aeSid e = Some (entryName e)" if "e \<in> set ?L" for e
    using live_canonical [OF assms(1) that] by blast
  have demote: "(\<not> normalizeSid u (case osSid owner of None \<Rightarrow> [] | Some s \<Rightarrow> s) \<in> set TRUSTED_SIDS \<or>
        (\<exists>e \<in> set ?L. aeCanWrite e \<and>
          (aeSid e = osCurrentUserSid owner \<or> aeSid e = osCurrentAppContainerSid owner)))
      \<longleftrightarrow> \<not> servicingTrusted u owner"
    by (auto simp: servicingTrusted_def liveEntries_def)
  let ?D = "demoteServicing owner u ?S"
  have D: "asOk ?D" "asEntries ?D = ?L"
    "asUntrustedWorld ?D = filter (\<lambda>e. ?c e = World) ?L"
    "e \<in> set (asUntrustedGroup ?D) \<longleftrightarrow> e \<in> set ?L \<and> (?c e = Group \<or>
       ?c e = Trusted \<and> entryName e = TRUSTED_INSTALLER_SID \<and> \<not> servicingTrusted u owner)"
    "e \<in> set (asTrusted ?D) \<longleftrightarrow> e \<in> set ?L \<and> ?c e = Trusted \<and>
       \<not> (entryName e = TRUSTED_INSTALLER_SID \<and> \<not> servicingTrusted u owner)" for e
    using demote sid [of e] unfolding demoteServicing_def Let_def by auto
  have tr: "truthy (osCurrentAppContainerSid owner) = osCurrentAppContainerSid owner"
    using o(7) by (cases "osCurrentAppContainerSid owner") (auto simp: truthy_def split: list.split)
  have P: "asOk S" "asEntries S = ?L"
    "asUntrustedWorld S = filter (\<lambda>e. ?c e = World) ?L"
    "e \<in> set (asUntrustedGroup S) \<longleftrightarrow> e \<in> set (asUntrustedGroup ?D) \<and>
       Some (entryName e) \<noteq> osCurrentAppContainerSid owner"
    "e \<in> set (asTrusted S) \<longleftrightarrow> e \<in> set (asTrusted ?D) \<or> e \<in> set (asUntrustedGroup ?D) \<and>
       Some (entryName e) = osCurrentAppContainerSid owner" for e
    using D sid [of e] unfolding S promoteContainer_def tr by (auto split: option.splits)
  have inst: "TRUSTED_INSTALLER_SID \<in> set TRUSTED_SIDS"
    "set TRUSTED_SIDS = {SYSTEM_SID, ADMINISTRATORS_SID, TRUSTED_INSTALLER_SID}"
    by (simp_all add: TRUSTED_SIDS_def)
  show ?thesis
  proof (cases "e \<in> set ?L")
    case False
    then show ?thesis using P D(4,5) by simp
  next
    case True
    define w ti sa us co st where "w \<longleftrightarrow> entryName e \<in> set WORLD_SIDS"
      and "ti \<longleftrightarrow> entryName e = TRUSTED_INSTALLER_SID"
      and "sa \<longleftrightarrow> entryName e \<in> {SYSTEM_SID, ADMINISTRATORS_SID}"
      and "us \<longleftrightarrow> entryName e = who"
      and "co \<longleftrightarrow> Some (entryName e) = osCurrentAppContainerSid owner"
      and "st \<longleftrightarrow> servicingTrusted u owner"
    note names = w_def [symmetric] ti_def [symmetric] sa_def [symmetric] us_def [symmetric]
      co_def [symmetric] st_def [symmetric]
    have t: "trustedSid u owner (entryName e) \<longleftrightarrow> \<not> w \<and> (co \<or> (if ti then st else sa \<or> us))"
      unfolding trustedSid_def o(5) option.inject names ..
    have ts: "entryName e \<in> set TRUSTED_SIDS \<longleftrightarrow> sa \<or> ti"
      unfolding inst(2) sa_def ti_def by blast
    have k: "?c e = Trusted \<longleftrightarrow> \<not> w \<and> (sa \<or> ti \<or> us)" "?c e = Group \<longleftrightarrow> \<not> w \<and> \<not> (sa \<or> ti \<or> us)"
      "?c e = World \<longleftrightarrow> w"
      using classes [OF True] unfolding ts names by (auto split: if_splits)
    have g: "e \<in> set (asUntrustedGroup S) \<longleftrightarrow> (?c e = Group \<or> ?c e = Trusted \<and> ti \<and> \<not> st) \<and> \<not> co"
      using P(4) [of e] D(4) [of e] True unfolding names by blast
    have r: "e \<in> set (asTrusted S) \<longleftrightarrow>
        ?c e = Trusted \<and> \<not> (ti \<and> \<not> st) \<or> (?c e = Group \<or> ?c e = Trusted \<and> ti \<and> \<not> st) \<and> co"
      using P(5) [of e] D(4,5) [of e] True unfolding names by blast
    have world: "e \<in> set (asUntrustedWorld S) \<longleftrightarrow> w" using P(3) True k(3) by simp
    show ?thesis
      unfolding world g r t names k using P(1,2) True by (auto split: if_splits)
  qed
qed
lemma live_of_owner:
  assumes "osDaclPresent owner = Some present" "osAces owner = Some aces"
  shows "(\<exists>a \<in> set (liveAces owner). Q a) \<longleftrightarrow>
    (if present then \<exists>a \<in> set aces. \<not> oaDeny a \<and> \<not> oaInheritOnly a \<and> Q a
     else Q \<lparr>oaSid = js ''s-1-1-0'', oaMask = FULL_CONTROL, oaDeny = False, oaInheritOnly = False\<rparr>)"
  using assms by (auto simp: liveAces_def grantedAces_def)

lemma entries_of_aces:
  "(\<exists>e. e \<in> set (liveEntries owner) \<and> Q (entryName e) \<and> R e) \<longleftrightarrow>
     (\<exists>a \<in> set (liveAces owner). Q (oaSid a) \<and> R (entryOfAce a))"
  by (auto simp: liveEntries_def)

lemma null_dacl_grants:
  "js ''s-1-1-0'' \<in> set WORLD_SIDS" "and FULL_CONTROL WRITE_RIGHTS \<noteq> 0" "and FULL_CONTROL READ_RIGHTS \<noteq> 0"
  by code_simp+

text \<open>C35: The permission flags reported for a Windows object say exactly what its access list
  grants. It is world-writable if and only if its DACL is null or an allow entry that applies to the
  object gives a write right to a well-known world identifier, and group-writable if and only if such
  an entry gives one to an identifier that is neither a world identifier nor trusted; the same holds of
  reading. Nothing makes a world identifier trusted, not even being the current user; the servicing
  account is trusted only for a service's own object that the user cannot write.\<close>

theorem reported_rights_exact:
  assumes "wfOwner u owner" "osDaclPresent owner = Some present" "osAces owner = Some aces"
  shows "let checked = withAcl unverified (summarizeWindowsOwnerAcl u owner);
             granted = (\<lambda>rights P. \<exists>a \<in> set aces. \<not> oaDeny a \<and> \<not> oaInheritOnly a \<and>
                          P (oaSid a) \<and> and (oaMask a) rights \<noteq> 0);
             world = (\<lambda>sid. sid \<in> set WORLD_SIDS);
             group_sid = (\<lambda>sid. sid \<notin> set WORLD_SIDS \<and> \<not> trustedSid u owner sid)
         in asOk (summarizeWindowsOwnerAcl u owner) \<and>
            (pcWorldWritable checked \<longleftrightarrow> \<not> present \<or> granted WRITE_RIGHTS world) \<and>
            (pcWorldReadable checked \<longleftrightarrow> \<not> present \<or> granted READ_RIGHTS world) \<and>
            (pcGroupWritable checked \<longleftrightarrow> present \<and> granted WRITE_RIGHTS group_sid) \<and>
            (pcGroupReadable checked \<longleftrightarrow> present \<and> granted READ_RIGHTS group_sid)"
proof -
  let ?S = "summarizeWindowsOwnerAcl u owner"
  have w: "(\<exists>e \<in> set (asUntrustedWorld ?S). R e) \<longleftrightarrow>
      (\<exists>a \<in> set (liveAces owner). oaSid a \<in> set WORLD_SIDS \<and> R (entryOfAce a))" for R
    using summary_members [OF assms(1)] entries_of_aces [of owner "\<lambda>s. s \<in> set WORLD_SIDS" R]
    by (simp add: Bex_def)
  have g: "(\<exists>e \<in> set (asUntrustedGroup ?S). R e) \<longleftrightarrow>
      (\<exists>a \<in> set (liveAces owner). (oaSid a \<notin> set WORLD_SIDS \<and> \<not> trustedSid u owner (oaSid a)) \<and>
         R (entryOfAce a))" for R
    using summary_members [OF assms(1)]
      entries_of_aces [of owner "\<lambda>s. s \<notin> set WORLD_SIDS \<and> \<not> trustedSid u owner s" R]
    by (simp add: Bex_def)
  have ok: "asOk ?S" using summary_members [OF assms(1)] by blast
  show ?thesis
    using null_dacl_grants unfolding Let_def withAcl_def
    by (simp add: w g live_of_owner [OF assms(2,3)] ok writes_def reads_def)
qed

definition demoOwner :: owner_summary where
  "demoOwner =
     \<lparr>osSid = Some SYSTEM_SID, osCurrentUserSid = Some (js ''s-1-5-21-1-2-3-1001''),
      osCurrentAppContainerSid = None, osDaclPresent = Some True,
      osAces = Some
        [\<lparr>oaSid = js ''s-1-5-21-1-2-3-1001'', oaMask = FULL_CONTROL, oaDeny = False, oaInheritOnly = False\<rparr>,
         \<lparr>oaSid = js ''s-1-1-0'', oaMask = 0x1, oaDeny = False, oaInheritOnly = False\<rparr>,
         \<lparr>oaSid = js ''s-1-1-0'', oaMask = 0x2, oaDeny = False, oaInheritOnly = True\<rparr>,
         \<lparr>oaSid = TRUSTED_INSTALLER_SID, oaMask = 0x2, oaDeny = False, oaInheritOnly = False\<rparr>],
      osAclError = None, osTrusted = Some True, osError = None\<rparr>"

definition freshCheck :: permission_check where
  "freshCheck =
     \<lparr>pcOk = True, pcIsSymlink = False, pcIsDir = False, pcMode = None, pcBits = None,
      pcSource = Source_unknown, pcWorldWritable = False, pcGroupWritable = False,
      pcWorldReadable = False, pcGroupReadable = False, pcOwnerSid = None, pcOwnerTrusted = None, pcOwnerError = None,
      pcError = None, pcAclSummary = None\<rparr>"

lemma demoOwner_wf: "wfOwner asciiUnicode demoOwner"
proof -
  have "list_all (canonicalSid asciiUnicode) [js ''s-1-5-21-1-2-3-1001'', js ''s-1-1-0'', TRUSTED_INSTALLER_SID]"
    by code_simp
  then show ?thesis using wfUnicode_ascii by (simp add: wfOwner_def demoOwner_def)
qed

lemma demoOwner_servicing:
  "\<not> trustedSid asciiUnicode demoOwner TRUSTED_INSTALLER_SID" "TRUSTED_INSTALLER_SID \<notin> set WORLD_SIDS"
proof -
  have "TRUSTED_INSTALLER_SID \<notin> {js ''s-1-5-21-1-2-3-1001''}" "and FULL_CONTROL WRITE_RIGHTS \<noteq> 0" by code_simp+
  then show "\<not> trustedSid asciiUnicode demoOwner TRUSTED_INSTALLER_SID"
    by (simp add: trustedSid_def servicingTrusted_def liveAces_def demoOwner_def grantedAces_def writes_def)
  show "TRUSTED_INSTALLER_SID \<notin> set WORLD_SIDS" by code_simp
qed

theorem reported_rights_exact_witness:
  "let checked = withAcl freshCheck (summarizeWindowsOwnerAcl asciiUnicode demoOwner)
   in pcWorldReadable checked \<and> \<not> pcWorldWritable checked \<and> pcGroupWritable checked"
proof -
  obtain aces where aces: "osAces demoOwner = Some aces" "osDaclPresent demoOwner = Some True"
    "aces = [\<lparr>oaSid = js ''s-1-5-21-1-2-3-1001'', oaMask = FULL_CONTROL, oaDeny = False, oaInheritOnly = False\<rparr>,
         \<lparr>oaSid = js ''s-1-1-0'', oaMask = 0x1, oaDeny = False, oaInheritOnly = False\<rparr>,
         \<lparr>oaSid = js ''s-1-1-0'', oaMask = 0x2, oaDeny = False, oaInheritOnly = True\<rparr>,
         \<lparr>oaSid = TRUSTED_INSTALLER_SID, oaMask = 0x2, oaDeny = False, oaInheritOnly = False\<rparr>]"
    by (simp add: demoOwner_def)
  have masks: "and (0x1 :: 32 word) WRITE_RIGHTS = 0" "and (0x1 :: 32 word) READ_RIGHTS \<noteq> 0"
    "and (0x2 :: 32 word) WRITE_RIGHTS \<noteq> 0" "js ''s-1-5-21-1-2-3-1001'' \<notin> set WORLD_SIDS"
    by code_simp+
  show ?thesis
    using reported_rights_exact [OF demoOwner_wf aces(2,1), of freshCheck] masks demoOwner_servicing
      null_dacl_grants(1)
    unfolding Let_def aces(3) by simp
qed

subsection \<open>What admitted descriptor facts say\<close>

definition aceGrants :: "native_facts \<Rightarrow> 32 word \<Rightarrow> native_ace \<Rightarrow> bool" where
  "aceGrants facts rights ace \<longleftrightarrow>
     naAllow ace \<and> \<not> afInheritOnly (naFlags ace) \<and> naSid ace \<notin> factsTrusted facts \<and>
     and (naMask ace) rights \<noteq> 0"

lemma summarizeAce_fields:
  "fsOwnerClass (summarizeAce (factsTrusted facts) a s) = fsOwnerClass s"
  "fsWorldReadable (summarizeAce (factsTrusted facts) a s) \<longleftrightarrow> fsWorldReadable s \<or>
     aceGrants facts FACTS_READ_RIGHTS a \<and> naSid a \<in> set FACTS_WORLD_SIDS"
  "fsWorldWritable (summarizeAce (factsTrusted facts) a s) \<longleftrightarrow> fsWorldWritable s \<or>
     aceGrants facts WRITE_RIGHTS a \<and> naSid a \<in> set FACTS_WORLD_SIDS"
  "fsGroupReadable (summarizeAce (factsTrusted facts) a s) \<longleftrightarrow> fsGroupReadable s \<or>
     aceGrants facts FACTS_READ_RIGHTS a \<and> naSid a \<notin> set FACTS_WORLD_SIDS"
  "fsGroupWritable (summarizeAce (factsTrusted facts) a s) \<longleftrightarrow> fsGroupWritable s \<or>
     aceGrants facts WRITE_RIGHTS a \<and> naSid a \<notin> set FACTS_WORLD_SIDS"
  by (auto simp: summarizeAce_def aceGrants_def Let_def)

lemma fold_summarizeAce:
  "fsOwnerClass (fold (summarizeAce (factsTrusted facts)) aces s) = fsOwnerClass s \<and>
   (fsWorldReadable (fold (summarizeAce (factsTrusted facts)) aces s) \<longleftrightarrow> fsWorldReadable s \<or>
      (\<exists>a \<in> set aces. aceGrants facts FACTS_READ_RIGHTS a \<and> naSid a \<in> set FACTS_WORLD_SIDS)) \<and>
   (fsWorldWritable (fold (summarizeAce (factsTrusted facts)) aces s) \<longleftrightarrow> fsWorldWritable s \<or>
      (\<exists>a \<in> set aces. aceGrants facts WRITE_RIGHTS a \<and> naSid a \<in> set FACTS_WORLD_SIDS)) \<and>
   (fsGroupReadable (fold (summarizeAce (factsTrusted facts)) aces s) \<longleftrightarrow> fsGroupReadable s \<or>
      (\<exists>a \<in> set aces. aceGrants facts FACTS_READ_RIGHTS a \<and> naSid a \<notin> set FACTS_WORLD_SIDS)) \<and>
   (fsGroupWritable (fold (summarizeAce (factsTrusted facts)) aces s) \<longleftrightarrow> fsGroupWritable s \<or>
      (\<exists>a \<in> set aces. aceGrants facts WRITE_RIGHTS a \<and> naSid a \<notin> set FACTS_WORLD_SIDS))"
  by (induction aces arbitrary: s) (simp_all add: summarizeAce_fields disj_assoc)


definition demoFacts :: native_facts where
  "demoFacts =
     \<lparr>nfOwnerSid = js ''s-1-5-21-1-2-3-1001'', nfCurrentUserSid = js ''s-1-5-21-1-2-3-1001'',
      nfCurrentAppContainerSid = None, nfOwnerClass = ''current-user'', nfWorldWritable = False,
      nfGroupWritable = False, nfWorldReadable = True, nfGroupReadable = False, nfFallbackRequired = False,
      nfDaclPresent = True, nfIsLocal = True, nfAceListComplete = True, nfUnsupportedAceTypes = [],
      nfAces = [\<lparr>naSid = js ''s-1-1-0'', naMask = 0x1, naAllow = True,
        naFlags = \<lparr>afRaw = 0, afObjectInherit = False, afContainerInherit = False,
          afNoPropagateInherit = False, afInheritOnly = False, afInherited = False,
          afSuccessfulAccess = False, afFailedAccess = False\<rparr>\<rparr>]\<rparr>"


end
