(* ===== verification/Permissions.thy ===== *)
theory Permissions
  imports WindowsAcl
begin

text \<open>
  Permission reports (\<open>src/permissions.ts\<close>) and the icacls commands they propose
  (\<open>src/permissions-windows.ts\<close>, \<open>src/windows-command.ts\<close>). The metadata calls are parameters: what
  \<open>lstat\<close> and \<open>stat\<close> answer for a path. So are \<open>path.win32.join\<close>, the native membership query and
  the environment. A POSIX shell's reading of a command line is written out below the model, to say
  what the printed commands mean.
\<close>

record file_stat =
  stIsSymlink :: bool
  stIsDir :: bool
  stMode :: "int option"
  stUid :: "int option"
  stGid :: "int option"

record safe_stat =
  ssOk :: bool
  ssIsSymlink :: bool
  ssIsDir :: bool
  ssMode :: "int option"
  ssUid :: "int option"
  ssGid :: "int option"
  ssError :: "string option"

type_synonym stat_call = "jstr \<Rightarrow> string + file_stat"

definition failedSafeStat :: "string \<Rightarrow> safe_stat" where
  "failedSafeStat e =
     \<lparr>ssOk = False, ssIsSymlink = False, ssIsDir = False, ssMode = None, ssUid = None, ssGid = None,
      ssError = Some e\<rparr>"

definition safeStatAdmitted :: "host \<Rightarrow> stat_call \<Rightarrow> jstr \<Rightarrow> safe_stat" where
  "safeStatAdmitted h lstat targetPath =
     (case lstat (pathForWindowsFilesystem h targetPath) of
        Inr lst \<Rightarrow>
          \<lparr>ssOk = True, ssIsSymlink = stIsSymlink lst, ssIsDir = stIsDir lst, ssMode = stMode lst,
           ssUid = stUid lst, ssGid = stGid lst, ssError = None\<rparr>
      | Inl e \<Rightarrow> failedSafeStat e)"

definition aliasMessage :: string where
  "aliasMessage = ''Path uses a Windows filesystem namespace alias''"

definition safeStat :: "host \<Rightarrow> stat_call \<Rightarrow> jstr \<Rightarrow> safe_stat" where
  "safeStat h lstat targetPath =
     (if hasWindowsPathAlias targetPath Filesystem (platform h) then failedSafeStat aliasMessage
      else safeStatAdmitted h lstat targetPath)"

subsection \<open>Mode bits\<close>

definition modeBits :: "int option \<Rightarrow> int option" where
  "modeBits mode = map_option (\<lambda>m. and m 511) mode"

definition hasBit :: "int option \<Rightarrow> int \<Rightarrow> bool" where
  "hasBit bits b \<longleftrightarrow> (case bits of None \<Rightarrow> False | Some m \<Rightarrow> and m b \<noteq> 0)"

definition isWorldWritable :: "int option \<Rightarrow> bool" where
  "isWorldWritable bits = hasBit bits 2"

definition isGroupWritable :: "int option \<Rightarrow> bool" where
  "isGroupWritable bits = hasBit bits 16"

definition isWorldReadable :: "int option \<Rightarrow> bool" where
  "isWorldReadable bits = hasBit bits 4"

definition isGroupReadable :: "int option \<Rightarrow> bool" where
  "isGroupReadable bits = hasBit bits 32"

text \<open>\<open>toString(8).padStart(3, "0")\<close> of a nonnegative number.\<close>

fun octalDigits :: "nat \<Rightarrow> jstr" where
  "octalDigits n = (if n < 8 then [48 + int n] else octalDigits (n div 8) @ [48 + int (n mod 8)])"

declare octalDigits.simps [simp del]

definition padOctal :: "nat \<Rightarrow> jstr" where
  "padOctal n = (let d = octalDigits n in replicate (3 - length d) 48 @ d)"

definition formatOctal :: "int option \<Rightarrow> jstr" where
  "formatOctal bits = (case bits of None \<Rightarrow> js ''unknown'' | Some b \<Rightarrow> padOctal (nat b))"

definition formatPosixMode :: "int \<Rightarrow> jstr" where
  "formatPosixMode mode = padOctal (nat (and mode 511))"

subsection \<open>Inspection\<close>

text \<open>\<open>optsPlatform\<close> is the platform the caller asked for; the Windows answers are those of the
  previous theory.\<close>

definition inspectPathPermissions ::
    "unicode \<Rightarrow> host \<Rightarrow> stat_call \<Rightarrow> stat_call \<Rightarrow> native_facts option \<Rightarrow> string + json_owner option \<Rightarrow>
     platform option \<Rightarrow> jstr \<Rightarrow> error + permission_check" where
  "inspectPathPermissions u h lstat stat native query optsPlatform targetPath =
     (let wanted = (case optsPlatform of Some p \<Rightarrow> p | None \<Rightarrow> platform h);
          admissionPlatform = (if platform h = Win32 then Win32 else wanted);
          st = (if hasWindowsPathAlias targetPath Filesystem admissionPlatform
                then failedSafeStat aliasMessage else safeStatAdmitted h lstat targetPath)
      in if \<not> ssOk st
         then Inr \<lparr>pcOk = False, pcIsSymlink = False, pcIsDir = False, pcMode = None, pcBits = None,
                   pcSource = Source_unknown, pcWorldWritable = False, pcGroupWritable = False,
                   pcWorldReadable = False, pcGroupReadable = False, pcOwnerSid = None,
                   pcOwnerTrusted = None, pcOwnerError = None, pcError = ssError st, pcAclSummary = None\<rparr>
         else
           let (effectiveMode, effectiveIsDir) =
                 (if ssIsSymlink st
                  then (case stat targetPath of
                          Inr target \<Rightarrow>
                            (case stMode target of None \<Rightarrow> ssMode st | Some m \<Rightarrow> Some m, stIsDir target)
                        | Inl _ \<Rightarrow> (ssMode st, ssIsDir st))
                  else (ssMode st, ssIsDir st));
               bits = modeBits effectiveMode;
               windows = (wanted = Win32);
               permissions =
                 \<lparr>pcOk = True, pcIsSymlink = ssIsSymlink st, pcIsDir = effectiveIsDir,
                  pcMode = effectiveMode, pcBits = bits,
                  pcSource = (if windows then Source_unknown else Source_posix),
                  pcWorldWritable = (\<not> windows \<and> isWorldWritable bits),
                  pcGroupWritable = (\<not> windows \<and> isGroupWritable bits),
                  pcWorldReadable = (\<not> windows \<and> isWorldReadable bits),
                  pcGroupReadable = (\<not> windows \<and> isGroupReadable bits), pcOwnerSid = None,
                  pcOwnerTrusted = None, pcOwnerError = None, pcError = None, pcAclSummary = None\<rparr>
           in if windows then inspectWindowsPermissions u native query targetPath permissions
              else Inr permissions)"

definition formatPermissionDetail :: "jstr \<Rightarrow> permission_check \<Rightarrow> jstr" where
  "formatPermissionDetail targetPath perms =
     (if pcSource perms = Source_windows_acl
      then targetPath @ js '' acl='' @ (case pcAclSummary perms of Some s \<Rightarrow> s | None \<Rightarrow> js ''unknown'')
      else targetPath @ js '' mode='' @ formatOctal (pcBits perms))"

subsection \<open>Commands\<close>

text \<open>The environment is an association list in insertion order.\<close>

definition getEnvValueCaseInsensitive :: "unicode \<Rightarrow> (jstr \<times> jstr) list \<Rightarrow> jstr \<Rightarrow> jstr option" where
  "getEnvValueCaseInsensitive u env name =
     (case map_of env name of
        Some v \<Rightarrow> Some v
      | None \<Rightarrow> map_option snd (List.find (\<lambda>e. toLowerCase u (fst e) = toLowerCase u name) env))"

definition normalizeWindowsInstallRoot :: "jstr option \<Rightarrow> jstr option" where
  "normalizeWindowsInstallRoot value =
     (case truthy (map_option trim value) of
        None \<Rightarrow> None
      | Some trimmed \<Rightarrow> if win32IsAbsolute trimmed then Some (dropEndWhile isWinSep trimmed) else None)"

definition resolveWindowsSystemRoot :: "unicode \<Rightarrow> (jstr \<times> jstr) list \<Rightarrow> jstr" where
  "resolveWindowsSystemRoot u env =
     (case normalizeWindowsInstallRoot (getEnvValueCaseInsensitive u env (js ''SystemRoot'')) of
        Some r \<Rightarrow> r
      | None \<Rightarrow>
          (case normalizeWindowsInstallRoot (getEnvValueCaseInsensitive u env (js ''WINDIR'')) of
             Some r \<Rightarrow> r
           | None \<Rightarrow> js ''C:'' @ [BACKSLASH] @ js ''Windows''))"

definition resolveWindowsSystemCommand ::
    "unicode \<Rightarrow> (jstr list \<Rightarrow> jstr) \<Rightarrow> jstr \<Rightarrow> (jstr \<times> jstr) list \<Rightarrow> jstr" where
  "resolveWindowsSystemCommand u win32Join command env =
     win32Join [resolveWindowsSystemRoot u env, js ''System32'', command]"

text \<open>Membership of the process in an AppContainer: no binding or no such query (\<open>None\<close>), a query that
  failed or answered no boolean (\<open>Some None\<close>), or its answer. Loading the binding may fail.\<close>

definition isWindowsAppContainer :: "bool option option \<Rightarrow> error + bool option" where
  "isWindowsAppContainer membership =
     (case membership of
        None \<Rightarrow> Inr None
      | Some None \<Rightarrow> Inl (permissionUnverified ''Windows process token membership could not be verified'')
      | Some (Some b) \<Rightarrow> Inr (Some b))"

definition assertWindowsAclRemediationAllowed :: "host \<Rightarrow> bool option option \<Rightarrow> error + unit" where
  "assertWindowsAclRemediationAllowed h membership =
     (if platform h \<noteq> Win32 then Inr ()
      else bindE (isWindowsAppContainer membership) (\<lambda>m.
        throwIf (m = Some True)
          (throwFs Helper_unavailable ''Windows ACL reset commands are unavailable inside an AppContainer'')))"

definition envOf :: "(jstr \<times> jstr) list \<Rightarrow> windows_env" where
  "envOf env = \<lparr>envUsername = map_of env (js ''USERNAME''), envUserdomain = map_of env (js ''USERDOMAIN''),
      envUsersid = map_of env (js ''USERSID'')\<rparr>"

definition quoted :: "jstr \<Rightarrow> jstr" where
  "quoted s = 34 # s @ [34]"

definition formatIcaclsResetCommand ::
    "unicode \<Rightarrow> host \<Rightarrow> (jstr list \<Rightarrow> jstr) \<Rightarrow> bool option option \<Rightarrow> jstr \<Rightarrow> bool \<Rightarrow> (jstr \<times> jstr) list \<Rightarrow>
     jstr option \<Rightarrow> error + jstr" where
  "formatIcaclsResetCommand u h win32Join membership targetPath isDir env accountName =
     bindE (assertWindowsAclRemediationAllowed h membership) (\<lambda>_.
       let command = resolveWindowsSystemCommand u win32Join (js ''icacls.exe'') env;
           user = (case resolveWindowsUserPrincipal (envOf env) accountName of
                     Some w \<Rightarrow> w | None \<Rightarrow> js ''%USERNAME%'');
           grant = (if isDir then js ''(OI)(CI)F'' else js ''F'')
       in Inr (joinOn 32 [command, quoted targetPath, js ''/inheritance:r'', js ''/grant:r'',
            quoted (user @ COLON # grant), js ''/grant:r'', quoted (js ''*S-1-5-18:'' @ grant)]))"

definition createIcaclsResetCommand ::
    "unicode \<Rightarrow> host \<Rightarrow> (jstr list \<Rightarrow> jstr) \<Rightarrow> bool option option \<Rightarrow> jstr \<Rightarrow> bool \<Rightarrow> (jstr \<times> jstr) list \<Rightarrow>
     jstr option \<Rightarrow> error + (jstr \<times> jstr list \<times> jstr) option" where
  "createIcaclsResetCommand u h win32Join membership targetPath isDir env accountName =
     (case resolveWindowsUserPrincipal (envOf env) accountName of
        None \<Rightarrow> Inr None
      | Some user \<Rightarrow>
          (let grant = (if isDir then js ''(OI)(CI)F'' else js ''F'');
               args = [targetPath, js ''/inheritance:r'', js ''/grant:r'', user @ COLON # grant,
                       js ''/grant:r'', js ''*S-1-5-18:'' @ grant]
           in bindE (formatIcaclsResetCommand u h win32Join membership targetPath isDir env accountName)
                (\<lambda>display. Inr (Some (resolveWindowsSystemCommand u win32Join (js ''icacls.exe'') env,
                                       args, display)))))"

definition plainShellChar :: "jchar \<Rightarrow> bool" where
  "plainShellChar c \<longleftrightarrow> isAsciiLetter c \<or> isAsciiDigit c \<or> c \<in> set (js ''_@%+=:,./-'')"

definition formatPosixShellArgument :: "jstr \<Rightarrow> jstr" where
  "formatPosixShellArgument value =
     (if value \<noteq> [] \<and> list_all plainShellChar value then value
      else 39 # concat (map (\<lambda>c. if c = 39 then [39, BACKSLASH, 39, 39] else [c]) value) @ [39])"

definition formatPermissionRemediation ::
    "unicode \<Rightarrow> host \<Rightarrow> (jstr list \<Rightarrow> jstr) \<Rightarrow> bool option option \<Rightarrow> (jstr \<times> jstr) list \<Rightarrow> jstr option \<Rightarrow>
     jstr \<Rightarrow> permission_check \<Rightarrow> bool \<Rightarrow> nat \<Rightarrow> error + jstr" where
  "formatPermissionRemediation u h win32Join membership env accountName targetPath perms isDir posixMode =
     (if pcSource perms = Source_windows_acl
      then formatIcaclsResetCommand u h win32Join membership targetPath isDir env accountName
      else Inr (js ''chmod '' @ padOctal posixMode @ [32] @
                (if startsWith targetPath (js ''-'') then js ''-- '' else []) @
                formatPosixShellArgument targetPath))"

subsection \<open>What a POSIX shell reads\<close>

text \<open>The shell's splitting of a command line into words: spaces separate, single quotes keep everything
  up to the next one, a backslash keeps the next character, and a character with a meaning of its own
  (operators, expansions, patterns, comments, double quotes) makes the line more than a list of words.
  \<open>current\<close> is the word being read.\<close>

definition shellSpecial :: "jchar \<Rightarrow> bool" where
  "shellSpecial c \<longleftrightarrow> c \<in> set (js ''|&;<>()$`*?[]#~{}!^'') \<or> c \<in> {34, 9, 10}"

definition extend :: "jstr option \<Rightarrow> jchar \<Rightarrow> jstr option" where
  "extend current c = Some ((case current of None \<Rightarrow> [] | Some w \<Rightarrow> w) @ [c])"

definition begun :: "jstr option \<Rightarrow> jstr option" where
  "begun current = Some (case current of None \<Rightarrow> [] | Some w \<Rightarrow> w)"

definition wordDone :: "jstr option \<Rightarrow> jstr list" where
  "wordDone current = (case current of None \<Rightarrow> [] | Some w \<Rightarrow> [w])"

fun shellWords :: "bool \<Rightarrow> jstr option \<Rightarrow> jstr \<Rightarrow> jstr list option" where
  "shellWords quoting current [] = (if quoting then None else Some (wordDone current))"
| "shellWords True current (c # rest) =
     (if c = 39 then shellWords False current rest else shellWords True (extend current c) rest)"
| "shellWords False current (c # rest) =
     (if c = 32 then map_option ((@) (wordDone current)) (shellWords False None rest)
      else if c = 39 then shellWords True (begun current) rest
      else if c = 92 then
        (case rest of [] \<Rightarrow> None
         | d # later \<Rightarrow> if d = 10 then None else shellWords False (extend current d) later)
      else if shellSpecial c then None
      else shellWords False (extend current c) rest)"

lemma plain_not_special:
  "plainShellChar c \<Longrightarrow> \<not> shellSpecial c \<and> c \<noteq> 32 \<and> c \<noteq> 39 \<and> c \<noteq> 92"
  by (auto simp: plainShellChar_def shellSpecial_def isAsciiLetter_def isAsciiDigit_def)

definition wordSoFar :: "jstr option \<Rightarrow> jstr \<Rightarrow> jstr option" where
  "wordSoFar current w = Some ((case current of None \<Rightarrow> [] | Some v \<Rightarrow> v) @ w)"

lemma wordSoFar_simps [simp]:
  "wordSoFar (extend current c) w = wordSoFar current (c # w)"
  "wordSoFar (begun current) w = wordSoFar current w"
  "wordSoFar (Some v) [] = Some v"
  by (simp_all add: wordSoFar_def extend_def begun_def)

lemma shellWords_plain:
  "list_all plainShellChar w \<Longrightarrow> w \<noteq> [] \<Longrightarrow>
   shellWords False current (w @ rest) = shellWords False (wordSoFar current w) rest"
proof (induction w arbitrary: current)
  case (Cons c w)
  have step: "shellWords False current ((c # w) @ rest) = shellWords False (extend current c) (w @ rest)"
    using Cons.prems plain_not_special [of c] by simp
  show ?case
  proof (cases w)
    case Nil
    then show ?thesis unfolding step by (simp add: wordSoFar_def extend_def)
  next
    case (Cons d w')
    then show ?thesis using step Cons.IH [of "extend current c"] Cons.prems by simp
  qed
qed simp

lemma shellWords_quoted:
  "shellWords True (Some v) (concat (map (\<lambda>c. if c = 39 then [39, BACKSLASH, 39, 39] else [c]) w) @ 39 # rest) =
   shellWords False (Some (v @ w)) rest"
  by (induction w arbitrary: v) (simp_all add: extend_def begun_def)

lemma shellWords_argument:
  "shellWords False None (formatPosixShellArgument w @ rest) = shellWords False (Some w) rest"
proof (cases "w \<noteq> [] \<and> list_all plainShellChar w")
  case True
  then show ?thesis
    using shellWords_plain [of w None rest] by (simp add: formatPosixShellArgument_def wordSoFar_def)
next
  case False
  then have "formatPosixShellArgument w =
      39 # concat (map (\<lambda>c. if c = 39 then [39, BACKSLASH, 39, 39] else [c]) w) @ [39]"
    unfolding formatPosixShellArgument_def by (rule if_not_P)
  then show ?thesis using shellWords_quoted [of "[]" w rest] by (simp add: begun_def)
qed

lemma octal_digit_plain: "k < 8 \<Longrightarrow> plainShellChar (48 + int k)"
  by (simp add: plainShellChar_def isAsciiDigit_def)

lemma octalDigits_plain: "list_all plainShellChar (octalDigits n) \<and> octalDigits n \<noteq> []"
proof (induction n rule: less_induct)
  case (less n)
  show ?case
    using less [of "n div 8"]
    by (subst (1 2) octalDigits.simps) (simp add: octal_digit_plain)
qed

lemma octalDigits_value: "foldl (\<lambda>v c. v * 8 + (c - 48)) 0 (octalDigits n) = int n"
proof (induction n rule: less_induct)
  case (less n)
  show ?case
    using less [of "n div 8"] by (subst octalDigits.simps) (auto simp: zmod_int zdiv_int)
qed

lemma padOctal_plain: "list_all plainShellChar (padOctal n) \<and> padOctal n \<noteq> []"
  using octalDigits_plain [of n] by (auto simp: padOctal_def Let_def list_all_iff plainShellChar_def isAsciiDigit_def)

lemma padOctal_value: "foldl (\<lambda>v c. v * 8 + (c - 48)) 0 (padOctal n) = int n"
proof -
  have "foldl (\<lambda>v c. v * 8 + (c - 48)) 0 (replicate k (48::int)) = (0::int)" for k
    by (induction k) simp_all
  then show ?thesis using octalDigits_value [of n] by (simp add: padOctal_def Let_def)
qed

text \<open>C37: a POSIX shell that reads the proposed command runs \<open>chmod\<close> on exactly the inspected path
  with exactly the proposed mode, whatever characters the path has: quotes, spaces and
  metacharacters are part of one argument, and a path that starts with a hyphen is preceded by the
  end-of-options marker.\<close>

theorem chmod_command_reads_back:
  assumes "pcSource perms \<noteq> Source_windows_acl"
  shows "\<exists>line. formatPermissionRemediation u h win32Join membership env accountName targetPath perms isDir
       posixMode = Inr line \<and>
    shellWords False None line =
      Some ([js ''chmod'', padOctal posixMode] @
            (if startsWith targetPath (js ''-'') then [js ''--''] else []) @ [targetPath]) \<and>
    foldl (\<lambda>v c. v * 8 + (c - 48)) 0 (padOctal posixMode) = int posixMode"
proof -
  have word: "shellWords False None (w @ 32 # rest) = map_option ((@) [w]) (shellWords False None rest)"
    if "list_all plainShellChar w" "w \<noteq> []" for w rest
    using shellWords_plain [OF that, of None "32 # rest"] by (simp add: wordSoFar_def wordDone_def)
  have chmod: "list_all plainShellChar (js ''chmod'')" "js ''chmod'' \<noteq> []"
    "list_all plainShellChar (js ''--'')" "js ''--'' \<noteq> []" "js ''chmod '' = js ''chmod'' @ [32]"
    "js ''-- '' = js ''--'' @ [32]"
    by code_simp+
  have arg: "shellWords False None (formatPosixShellArgument targetPath) = Some [targetPath]"
    using shellWords_argument [of targetPath "[]"] by (simp add: wordDone_def)
  let ?line = "js ''chmod'' @ 32 # padOctal posixMode @ 32 #
     (if startsWith targetPath (js ''-'') then js ''--'' @ 32 # formatPosixShellArgument targetPath
      else formatPosixShellArgument targetPath)"
  have line: "formatPermissionRemediation u h win32Join membership env accountName targetPath perms isDir
       posixMode = Inr ?line"
    using assms unfolding formatPermissionRemediation_def chmod(5,6) by simp
  have "shellWords False None ?line =
      Some ([js ''chmod'', padOctal posixMode] @
            (if startsWith targetPath (js ''-'') then [js ''--''] else []) @ [targetPath])"
    unfolding word [OF chmod(1,2)] using padOctal_plain [of posixMode] word [OF chmod(3,4)] arg
    by (simp add: word del: js_Nil js_Cons)
  then show ?thesis using line padOctal_value by blast
qed

definition plainPath :: jstr where
  "plainPath = js ''-rf $(x)'' @ [39] @ js ''; ls''"

theorem chmod_command_reads_back_witness:
  "\<exists>line. formatPermissionRemediation asciiUnicode
       \<lparr>platform = Posix, cwd = js ''/'', win32Resolve = \<lambda>_. [], win32Normalize = \<lambda>p. p, win32Relative = \<lambda>a b. b\<rparr>
       concat None [] None plainPath (freshCheck\<lparr>pcSource := Source_posix\<rparr>) False 384 = Inr line \<and>
     shellWords False None line = Some [js ''chmod'', js ''600'', js ''--'', plainPath]"
proof -
  have "padOctal 384 = js ''600''" "startsWith plainPath (js ''-'')" by code_simp+
  then show ?thesis
    using chmod_command_reads_back [of "freshCheck\<lparr>pcSource := Source_posix\<rparr>" asciiUnicode
      "\<lparr>platform = Posix, cwd = js ''/'', win32Resolve = \<lambda>_. [], win32Normalize = \<lambda>p. p, win32Relative = \<lambda>a b. b\<rparr>"
      concat None "[]" None plainPath False 384]
    by (auto simp del: js_Nil js_Cons)
qed

end
