(* ===== verification/PathPrefix.thy ===== *)
theory PathPrefix
  imports PathLexical Effects
begin

text \<open>
  The physical prefix of a path (\<open>src/path-prefix.ts\<close>, with \<open>absolutePathWithRawSegments\<close> of
  \<open>src/root-path-existing.ts\<close>): the walk that expands symbolic links one component at a time until a
  component is missing, on a POSIX host. The file system is a parameter, a record of the metadata calls
  the walk makes; each may answer differently every time it is asked, so it is an operation on a state
  of its own. The queue of components not yet walked is kept the way the code keeps it, a short array
  that is shifted or a longer one with a cursor; the locale \<open>segment_source\<close> is what the walk needs of
  it. Below the model, an abstract resolution of paths over a tree of directories, files and links says
  what the walk computes.
\<close>

datatype file_kind = Regular_file | Directory | Symbolic_link | Other_kind

record big_stat =
  bsDev :: int
  bsIno :: int
  bsKind :: file_kind

record 's prefix_io =
  ioLstat :: "jstr \<Rightarrow> ('s, error, big_stat) op"
  ioReadlink :: "jstr \<Rightarrow> ('s, error, jstr) op"
  ioRealpath :: "jstr \<Rightarrow> ('s, error, jstr) op"
  ioAccess :: "jstr \<Rightarrow> ('s, error, unit) op"

record resolved_prefix =
  rpAbsolutePath :: jstr
  rpExistingPath :: jstr
  rpUnresolvedSegments :: "jstr list"

definition rawRoot :: "jstr \<Rightarrow> jstr" where
  "rawRoot absolutePath = (if posixIsAbsolute absolutePath then [SLASH] else [])"

definition absolutePathWithRawSegments :: "jstr \<Rightarrow> jstr \<Rightarrow> jstr" where
  "absolutePathWithRawSegments base candidate =
     (if posixIsAbsolute candidate then candidate
      else base @ (if endsWith base [SLASH] then [] else [SLASH]) @ candidate)"

definition resolutionError :: "string \<Rightarrow> error" where
  "resolutionError code = NodeErr code"

subsection \<open>The queue of components\<close>

definition SHIFT_QUEUE_COMPONENT_LIMIT :: nat where
  "SHIFT_QUEUE_COMPONENT_LIMIT = 32"

record segment_queue =
  remaining :: "jstr list"
  shiftQueue :: bool
  nextSegment :: nat
  remainingCount :: nat

definition makeQueue :: "jstr list \<Rightarrow> segment_queue" where
  "makeQueue segments =
     \<lparr>remaining = segments, shiftQueue = (length segments \<le> SHIFT_QUEUE_COMPONENT_LIMIT),
      nextSegment = 0, remainingCount = length segments\<rparr>"

definition takeSegment :: "segment_queue \<Rightarrow> jstr \<times> segment_queue" where
  "takeSegment q =
     (if shiftQueue q
      then (hd (remaining q), q\<lparr>remaining := tl (remaining q), remainingCount := remainingCount q - 1\<rparr>)
      else (remaining q ! nextSegment q,
            q\<lparr>nextSegment := nextSegment q + 1, remainingCount := remainingCount q - 1\<rparr>))"

definition pendingSuffix :: "segment_queue \<Rightarrow> jstr list" where
  "pendingSuffix q = (if shiftQueue q then remaining q else drop (nextSegment q) (remaining q))"

text \<open>The suffix from the component just taken on.\<close>

definition unresolvedFrom :: "jstr \<Rightarrow> segment_queue \<Rightarrow> jstr list" where
  "unresolvedFrom segment q =
     (if shiftQueue q then segment # remaining q else drop (nextSegment q - 1) (remaining q))"

definition wfQueue :: "segment_queue \<Rightarrow> bool" where
  "wfQueue q \<longleftrightarrow> remainingCount q = length (pendingSuffix q)"

lemma takeSegment_count [simp]: "remainingCount (snd (takeSegment q)) = remainingCount q - 1"
  by (simp add: takeSegment_def)

text \<open>What the walk relies on: the components come out in order, and the rest can be asked for.\<close>

locale segment_source =
  fixes wf :: "'q \<Rightarrow> bool" and pending :: "'q \<Rightarrow> jstr list" and count :: "'q \<Rightarrow> nat"
    and pop :: "'q \<Rightarrow> jstr \<times> 'q" and suffix_from :: "jstr \<Rightarrow> 'q \<Rightarrow> jstr list"
    and fill :: "jstr list \<Rightarrow> 'q"
  assumes count_pending: "wf q \<Longrightarrow> count q = length (pending q)"
    and pop_pending: "wf q \<Longrightarrow> pending q \<noteq> [] \<Longrightarrow> pop q = (s, q') \<Longrightarrow>
        wf q' \<and> pending q = s # pending q' \<and> suffix_from s q' = pending q"
    and fill_pending: "wf (fill xs) \<and> pending (fill xs) = xs"
begin

lemma count_zero: "wf q \<Longrightarrow> count q = 0 \<longleftrightarrow> pending q = []"
  by (simp add: count_pending)

lemma pop_cases:
  assumes "wf q" "count q \<noteq> 0"
  obtains s q' where "pop q = (s, q')" "wf q'" "pending q = s # pending q'"
    "suffix_from s q' = pending q" "count q' = length (pending q')"
proof -
  obtain s q' where p: "pop q = (s, q')" by (cases "pop q")
  moreover have "pending q \<noteq> []" using assms by (simp add: count_pending)
  ultimately have "wf q'" "pending q = s # pending q'" "suffix_from s q' = pending q"
    using pop_pending assms(1) by blast+
  then show ?thesis using that p count_pending by blast
qed

lemma fill_count: "count (fill xs) = length xs"
  using fill_pending [of xs] count_pending [of "fill xs"] by simp

end

interpretation path_queue: segment_source wfQueue pendingSuffix remainingCount takeSegment unresolvedFrom
  makeQueue
proof
  fix q s q'
  assume q: "wfQueue q" "pendingSuffix q \<noteq> []" "takeSegment q = (s, q')"
  show "wfQueue q' \<and> pendingSuffix q = s # pendingSuffix q' \<and> unresolvedFrom s q' = pendingSuffix q"
  proof (cases "shiftQueue q")
    case True
    then show ?thesis
      using q by (auto simp: takeSegment_def pendingSuffix_def wfQueue_def unresolvedFrom_def)
  next
    case False
    then have "nextSegment q < length (remaining q)" using q by (simp add: pendingSuffix_def)
    then show ?thesis
      using q False
      by (auto simp: takeSegment_def pendingSuffix_def wfQueue_def unresolvedFrom_def Cons_nth_drop_Suc)
  qed
qed (simp_all add: wfQueue_def makeQueue_def pendingSuffix_def)

subsection \<open>The walk\<close>

definition MAX_SYMLINK_HOPS :: nat where
  "MAX_SYMLINK_HOPS = 64"

record walker =
  wkResolved :: jstr
  wkQueue :: segment_queue
  wkVisited :: "(int \<times> int \<times> jstr \<times> jstr list) list"
  wkHops :: nat

text \<open>The path looked up for a dot component: \<open>..\<close> of the root is the root.\<close>

definition dotLookup :: "jstr \<Rightarrow> jstr \<Rightarrow> jstr" where
  "dotLookup resolved segment =
     (let lookup = (if segment = dotdot \<and> resolved = rawRoot resolved then [DOT] else segment)
      in resolved @ (if endsWith resolved [SLASH] then [] else [SLASH]) @ lookup)"

definition afterDot :: "jstr \<Rightarrow> jstr \<Rightarrow> jstr" where
  "afterDot resolved segment =
     (if segment = dotdot \<and> resolved \<noteq> rawRoot resolved then posixDirname resolved else resolved)"

text \<open>Where the walk goes on after a link, and the components of its target.\<close>

definition linkBase :: "jstr \<Rightarrow> jstr \<Rightarrow> jstr" where
  "linkBase resolved target = (if posixIsAbsolute target then rawRoot target else resolved)"

definition targetSegments :: "jstr \<Rightarrow> jstr list" where
  "targetSegments target =
     (if posixIsAbsolute target then splitOn SLASH (drop (length (rawRoot target)) target)
      else splitOn SLASH target)"

definition finishWalk ::
    "'s prefix_io \<Rightarrow> jstr \<Rightarrow> jstr \<Rightarrow> jstr list \<Rightarrow> ('s, error, resolved_prefix) op" where
  "finishWalk io absolutePath resolved unresolved s =
     (case ioRealpath io resolved s of
        (Inl e, t) \<Rightarrow> (Inl e, t)
      | (Inr existing, t) \<Rightarrow>
          (Inr \<lparr>rpAbsolutePath = absolutePath, rpExistingPath = existing,
                rpUnresolvedSegments = unresolved\<rparr>, t))"

function walkPrefix :: "'s prefix_io \<Rightarrow> jstr \<Rightarrow> walker \<Rightarrow> ('s, error, resolved_prefix) op" where
  "walkPrefix io absolutePath w s =
     (if remainingCount (wkQueue w) = 0 then finishWalk io absolutePath (wkResolved w) [] s
      else let segment = fst (takeSegment (wkQueue w)); queue = snd (takeSegment (wkQueue w));
               resolved = wkResolved w
           in if segment = [] then walkPrefix io absolutePath (w\<lparr>wkQueue := queue\<rparr>) s
              else if segment = [DOT] \<or> segment = dotdot then
                (case ioLstat io (dotLookup resolved segment) s of
                   (Inl e, t) \<Rightarrow> (Inl e, t)
                 | (Inr _, t) \<Rightarrow>
                     walkPrefix io absolutePath (w\<lparr>wkResolved := afterDot resolved segment, wkQueue := queue\<rparr>) t)
              else let candidate = posixJoin [resolved, segment] in
                (case ioLstat io candidate s of
                   (Inl e, t) \<Rightarrow>
                     if \<not> hasNodeErrorCode e ''ENOENT'' then (Inl e, t)
                     else finishWalk io absolutePath resolved (unresolvedFrom segment queue) t
                 | (Inr stat, t) \<Rightarrow>
                     if bsKind stat \<noteq> Symbolic_link then
                       (if bsKind stat \<noteq> Directory \<and> remainingCount queue > 0
                        then (Inl (resolutionError ''ENOTDIR''), t)
                        else walkPrefix io absolutePath (w\<lparr>wkResolved := candidate, wkQueue := queue\<rparr>) t)
                     else let state = (bsDev stat, bsIno stat, candidate, pendingSuffix queue) in
                       if wkHops w \<ge> MAX_SYMLINK_HOPS \<or> state \<in> set (wkVisited w)
                       then (Inl (resolutionError ''ELOOP''), t)
                       else (case ioReadlink io candidate t of
                               (Inl e, r) \<Rightarrow> (Inl e, r)
                             | (Inr target, r) \<Rightarrow>
                                 walkPrefix io absolutePath
                                   \<lparr>wkResolved = linkBase resolved target,
                                    wkQueue = makeQueue (targetSegments target @ pendingSuffix queue),
                                    wkVisited = state # wkVisited w, wkHops = wkHops w + 1\<rparr> r)))"
  by pat_completeness auto
termination
  by (relation "measures [\<lambda>(_, _, w, _). MAX_SYMLINK_HOPS - wkHops w,
                          \<lambda>(_, _, w, _). remainingCount (wkQueue w)]") auto

declare walkPrefix.simps [simp del]

definition resolvePrefix ::
    "'s prefix_io \<Rightarrow> jstr \<Rightarrow> jstr \<Rightarrow> ('s, error, resolved_prefix) op" where
  "resolvePrefix io base input =
     bindS (liftS (assertNoNulPathInput input ''path contains a NUL byte'')) (\<lambda>_.
       let absolutePath = absolutePathWithRawSegments base input; resolved = rawRoot absolutePath
       in walkPrefix io absolutePath
            \<lparr>wkResolved = resolved,
             wkQueue = makeQueue (splitOn SLASH (drop (length resolved) absolutePath)),
             wkVisited = [], wkHops = 0\<rparr>)"

text \<open>The synchronous entry point runs the walk without suspending it.\<close>

definition resolvePathPrefixSync ::
    "'s prefix_io \<Rightarrow> jstr \<Rightarrow> jstr \<Rightarrow> ('s, error, resolved_prefix) op" where
  "resolvePathPrefixSync = resolvePrefix"
subsection \<open>The shortcut of the asynchronous entry point\<close>

lemma dropEndWhile_kept:
  assumes "length (dropEndWhile P xs) = length xs" "xs \<noteq> []"
  shows "dropEndWhile P xs = xs \<and> \<not> P (last xs)"
proof -
  obtain zs where zs: "xs = dropEndWhile P xs @ zs"
    using dropEndWhile_prefix [of P xs] by (rule prefixE)
  have "length zs = 0" using arg_cong [OF zs, of length, unfolded length_append] assms(1) by linarith
  then have "zs = []" by simp
  then have "dropEndWhile P xs = xs" using zs by simp
  then show ?thesis using dropEndWhile_last [of P xs] assms(2) by simp
qed

lemma posixDirname_shrinks:
  assumes "posixDirname p \<noteq> p"
  shows "posixDirname p \<in> {[DOT], [SLASH]} \<or> length (posixDirname p) < length p"
proof (cases "p = []")
  case False
  let ?i = "dropEndWhile (\<lambda>c. c = SLASH) p"
  let ?d = "dropEndWhile (\<lambda>c. c \<noteq> SLASH) ?i"
  have "length ?d < length p"
  proof (rule ccontr)
    assume "\<not> length ?d < length p"
    then have eq: "length ?d = length ?i" "length ?i = length p"
      using length_dropEndWhile [of "\<lambda>c. c \<noteq> SLASH" ?i] length_dropEndWhile [of "\<lambda>c. c = SLASH" p] by linarith+
    then have i: "?i = p" "last p \<noteq> SLASH" using dropEndWhile_kept False by blast+
    then have "last p = SLASH" using dropEndWhile_kept [of "\<lambda>c. c \<noteq> SLASH" p] eq False by simp
    then show False using i(2) by blast
  qed
  then show ?thesis using False by (auto simp: posixDirname_def Let_def)
qed (simp add: posixDirname_def)

definition dirnameMeasure :: "jstr \<Rightarrow> nat" where
  "dirnameMeasure p = (if p = [DOT] \<or> p = [SLASH] then 0 else length p + 1)"

lemma posixDirname_measure:
  assumes "posixDirname p \<noteq> p"
  shows "dirnameMeasure (posixDirname p) < dirnameMeasure p"
proof -
  have "p \<noteq> [DOT]" "p \<noteq> [SLASH]" using assms by (auto simp: posixDirname_def dropEndWhile_def)
  then show ?thesis using posixDirname_shrinks [OF assms] by (auto simp: dirnameMeasure_def)
qed

function nearestParent :: "'s prefix_io \<Rightarrow> jstr \<Rightarrow> 's \<Rightarrow> jstr option \<times> 's" where
  "nearestParent io parent s =
     (case ioLstat io parent s of
        (Inl e, t) \<Rightarrow>
          if hasNodeErrorCode e ''ENOENT'' \<and> posixDirname parent \<noteq> parent
          then nearestParent io (posixDirname parent) t else (None, t)
      | (Inr stat, t) \<Rightarrow> (if bsKind stat \<noteq> Directory then None else Some parent, t))"
  by pat_completeness auto
termination
  by (relation "measure (\<lambda>(_, parent, _). dirnameMeasure parent)") (auto intro: posixDirname_measure)

declare nearestParent.simps [simp del]

definition prefixShortcut ::
    "'s prefix_io \<Rightarrow> jstr \<Rightarrow> jstr \<Rightarrow> ('s, error, resolved_prefix option) op" where
  "prefixShortcut io base absolutePath s =
     (case ioLstat io absolutePath s of
        (Inl e, t) \<Rightarrow>
          if hasNodeErrorCode e ''ENOENT'' \<and> absolutePath = posixResolve base [absolutePath]
          then (case nearestParent io (posixDirname absolutePath) t of
                  (None, r) \<Rightarrow> (Inr None, r)
                | (Some parent, r) \<Rightarrow>
                    bindS (finishWalk io absolutePath parent
                             (splitOn SLASH (drop (length parent + (if endsWith parent [SLASH] then 0 else 1))
                                absolutePath)))
                      (\<lambda>p. returnS (Some p)) r)
          else (Inr None, t)
      | (Inr entry, t) \<Rightarrow>
          (case (if bsKind entry = Symbolic_link then ioAccess io absolutePath t else (Inr (), t)) of
             (Inl _, r) \<Rightarrow> (Inr None, r)
           | (Inr _, r) \<Rightarrow>
               (case finishWalk io absolutePath absolutePath [] r of
                  (Inl _, q) \<Rightarrow> (Inr None, q)
                | (Inr p, q) \<Rightarrow> (Inr (Some p), q))))"

text \<open>\<open>direct\<close>: the shortcut is tried, on every POSIX runtime but one.\<close>

definition resolvePathPrefix ::
    "'s prefix_io \<Rightarrow> bool \<Rightarrow> jstr \<Rightarrow> jstr \<Rightarrow> ('s, error, resolved_prefix) op" where
  "resolvePathPrefix io direct base input =
     (if \<not> direct then resolvePrefix io base input
      else bindS (liftS (assertNoNulPathInput input ''path contains a NUL byte'')) (\<lambda>_.
           bindS (prefixShortcut io base (absolutePathWithRawSegments base input)) (\<lambda>r.
             case r of Some p \<Rightarrow> returnS p | None \<Rightarrow> resolvePrefix io base input)))"

subsection \<open>Resolution over a tree\<close>

text \<open>A tree gives each canonical path, a list of components, its node. \<open>resolves T n dir segs (p, rest)\<close>:
  from the directory \<open>dir\<close>, the components \<open>segs\<close> lead through \<open>n\<close> links to \<open>p\<close>, and \<open>rest\<close> are the
  components that are left when a component is missing.\<close>

datatype node = Dir | File | Link jstr

type_synonym tree = "jstr list \<Rightarrow> node option"

inductive resolves :: "tree \<Rightarrow> nat \<Rightarrow> jstr list \<Rightarrow> jstr list \<Rightarrow> jstr list \<times> jstr list \<Rightarrow> bool" for T where
  finished: "resolves T 0 dir [] (dir, [])"
| blank: "resolves T n dir segs r \<Longrightarrow> resolves T n dir ([] # segs) r"
| dot: "resolves T n dir segs r \<Longrightarrow> resolves T n dir ([DOT] # segs) r"
| parent: "resolves T n (butlast dir) segs r \<Longrightarrow> resolves T n dir (dotdot # segs) r"
| missing: "plainSeg seg \<Longrightarrow> T (dir @ [seg]) = None \<Longrightarrow> resolves T 0 dir (seg # segs) (dir, seg # segs)"
| child: "plainSeg seg \<Longrightarrow> T (dir @ [seg]) = Some Dir \<Longrightarrow> resolves T n (dir @ [seg]) segs r \<Longrightarrow>
    resolves T n dir (seg # segs) r"
| leaf: "plainSeg seg \<Longrightarrow> T (dir @ [seg]) = Some File \<Longrightarrow> resolves T 0 dir [seg] (dir @ [seg], [])"
| link: "plainSeg seg \<Longrightarrow> T (dir @ [seg]) = Some (Link target) \<Longrightarrow>
    resolves T n (if posixIsAbsolute target then [] else dir) (targetSegments target @ segs) r \<Longrightarrow>
    resolves T (Suc n) dir (seg # segs) r"

inductive_cases resolves_NilE: "resolves T n dir [] r"
inductive_cases resolves_ConsE: "resolves T n dir (seg # segs) r"

inductive_simps resolves_simps: "resolves T n dir [] r" "resolves T n dir (seg # segs) r"

lemma plainSeg_dots [simp]: "\<not> plainSeg []" "\<not> plainSeg [DOT]" "\<not> plainSeg dotdot"
  by (simp_all add: plainSeg_def)

lemma resolves_link_inv:
  "resolves T m dir (seg # segs) r \<Longrightarrow> plainSeg seg \<Longrightarrow> T (dir @ [seg]) = Some (Link target) \<Longrightarrow>
   \<exists>k. m = Suc k \<and> resolves T k (if posixIsAbsolute target then [] else dir) (targetSegments target @ segs) r"
  by (erule resolves_ConsE) (auto split del: if_split)

lemma resolves_child_inv:
  "resolves T m dir (seg # segs) r \<Longrightarrow> plainSeg seg \<Longrightarrow> T (dir @ [seg]) = Some Dir \<Longrightarrow>
   resolves T m (dir @ [seg]) segs r"
  by (erule resolves_ConsE) auto

lemma resolves_deterministic:
  "resolves T n dir segs r \<Longrightarrow> resolves T m dir segs r' \<Longrightarrow> m = n \<and> r' = r"
proof (induction arbitrary: m r' rule: resolves.induct)
  case (finished dir)
  then show ?case by (auto elim: resolves_NilE)
next
  case (blank n dir segs r)
  from blank.prems blank.IH show ?case by (cases rule: resolves.cases) auto
next
  case (dot n dir segs r)
  from dot.prems dot.IH show ?case by (cases rule: resolves.cases) auto
next
  case (parent n dir segs r)
  from parent.prems parent.IH show ?case by (cases rule: resolves.cases) auto
next
  case (missing seg dir segs)
  from missing.prems missing.hyps show ?case by (cases rule: resolves.cases) auto
next
  case (child seg dir n segs r)
  from resolves_child_inv [OF child.prems child.hyps(1,2)] child.IH show ?case by blast
next
  case (leaf seg dir)
  from leaf.prems leaf.hyps show ?case by (cases rule: resolves.cases) auto
next
  case (link seg dir target n segs r)
  from resolves_link_inv [OF link.prems link.hyps(1,2)] link.IH show ?case by blast
qed
subsection \<open>A file system that holds a tree\<close>

fun kindOf :: "node \<Rightarrow> file_kind" where
  "kindOf Dir = Directory"
| "kindOf File = Regular_file"
| "kindOf (Link _) = Symbolic_link"

definition below :: "jstr list \<Rightarrow> jstr \<Rightarrow> jstr" where
  "below dir seg = absPath dir @ (if endsWith (absPath dir) [SLASH] then [] else [SLASH]) @ seg"

text \<open>The root is a directory and every node lies in a directory.\<close>

definition wfTree :: "tree \<Rightarrow> bool" where
  "wfTree T \<longleftrightarrow> T [] = Some Dir \<and> (\<forall>dir seg. T (dir @ [seg]) \<noteq> None \<longrightarrow> T dir = Some Dir)"

text \<open>The calls answer from the tree: the dot entries of a directory, the metadata of its entries
  without following links, the targets of links, and the canonical path of what is no link.\<close>

definition servesTree :: "tree \<Rightarrow> 's prefix_io \<Rightarrow> bool" where
  "servesTree T io \<longleftrightarrow>
     (\<forall>dir s x. T dir = Some Dir \<and> x \<in> {[DOT], dotdot} \<longrightarrow> (\<exists>st. ioLstat io (below dir x) s = (Inr st, s))) \<and>
     (\<forall>dir seg s. T dir = Some Dir \<and> wfSegs (dir @ [seg]) \<longrightarrow>
        (case T (dir @ [seg]) of
           None \<Rightarrow> ioLstat io (absPath (dir @ [seg])) s = (Inl (NodeErr ''ENOENT''), s)
         | Some node \<Rightarrow> (\<exists>st. ioLstat io (absPath (dir @ [seg])) s = (Inr st, s) \<and> bsKind st = kindOf node))) \<and>
     (\<forall>p target s. T p = Some (Link target) \<longrightarrow> ioReadlink io (absPath p) s = (Inr target, s)) \<and>
     (\<forall>p s. T p = Some Dir \<or> T p = Some File \<longrightarrow> ioRealpath io (absPath p) s = (Inr (absPath p), s))"

lemma servesTree_simps:
  assumes "servesTree T io"
  shows dot_lstat: "T dir = Some Dir \<Longrightarrow> x \<in> {[DOT], dotdot} \<Longrightarrow> \<exists>st. ioLstat io (below dir x) s = (Inr st, s)"
    and missing_lstat: "T dir = Some Dir \<Longrightarrow> wfSegs (dir @ [seg]) \<Longrightarrow> T (dir @ [seg]) = None \<Longrightarrow>
      ioLstat io (absPath (dir @ [seg])) s = (Inl (NodeErr ''ENOENT''), s)"
    and node_lstat: "T dir = Some Dir \<Longrightarrow> wfSegs (dir @ [seg]) \<Longrightarrow> T (dir @ [seg]) = Some node \<Longrightarrow>
      \<exists>st. ioLstat io (absPath (dir @ [seg])) s = (Inr st, s) \<and> bsKind st = kindOf node"
    and link_readlink: "T p = Some (Link target) \<Longrightarrow> ioReadlink io (absPath p) s = (Inr target, s)"
    and node_realpath: "T p = Some Dir \<or> T p = Some File \<Longrightarrow> ioRealpath io (absPath p) s = (Inr (absPath p), s)"
  using assms unfolding servesTree_def by (fastforce split: option.splits)+

subsection \<open>Strings and components\<close>

lemma wfSegs_snoc [simp]: "wfSegs (dir @ [seg]) \<longleftrightarrow> wfSegs dir \<and> plainSeg seg \<and> SLASH \<notin> set seg"
  by (auto simp: wfSegs_def)

lemma wfSegs_butlast: "wfSegs dir \<Longrightarrow> wfSegs (butlast dir)"
  by (auto simp: wfSegs_def dest: in_set_butlastD)

lemma absPath_snoc: "dir \<noteq> [] \<Longrightarrow> absPath (dir @ [seg]) = absPath dir @ SLASH # seg"
  by (simp add: absPath_def joinOn_append)

lemma absPath_inject: "wfSegs a \<Longrightarrow> wfSegs b \<Longrightarrow> absPath a = absPath b \<longleftrightarrow> a = b"
  by (metis pathSegs_absPath)

lemma absPath_root: "wfSegs dir \<Longrightarrow> absPath dir = [SLASH] \<longleftrightarrow> dir = []"
  using joinOn_eq_Nil [of dir] by (auto simp: absPath_def)

lemma rawRoot_absPath [simp]: "rawRoot (absPath dir) = [SLASH]"
  by (simp add: rawRoot_def)

lemma last_absPath:
  assumes "wfSegs (dir @ [seg])"
  shows "last (absPath (dir @ [seg])) = last seg" "last seg \<noteq> SLASH"
proof -
  have seg: "seg \<noteq> []" "SLASH \<notin> set seg" using assms by (auto simp: plainSeg_def)
  then have l: "last seg \<in> set seg" by simp
  show "last (absPath (dir @ [seg])) = last seg"
    using last_joinOn [of "dir @ [seg]" SLASH] seg by (simp add: absPath_def)
  show "last seg \<noteq> SLASH" using seg(2) l by metis
qed

lemma endsWith_absPath: "wfSegs dir \<Longrightarrow> endsWith (absPath dir) [SLASH] \<longleftrightarrow> dir = []"
proof (cases dir rule: rev_cases)
  case (snoc d x)
  assume "wfSegs dir"
  then show ?thesis using last_absPath [of d x] snoc by (simp add: endsWith_single absPath_def)
qed (simp add: absPath_def endsWith_single)

lemma posixJoin_child:
  assumes "wfSegs (dir @ [seg])"
  shows "posixJoin [absPath dir, seg] = absPath (dir @ [seg])"
proof -
  let ?p = "absPath dir @ SLASH # seg"
  have seg: "seg \<noteq> []" "SLASH \<notin> set seg" "wfSegs dir" "plainSeg seg" using assms by (auto simp: plainSeg_def)
  have "posixJoin [absPath dir, seg] = posixNormalize ?p"
    using seg(1) by (simp add: posixJoin_def absPath_def)
  moreover have "splitOn SLASH ?p = ([] # (if dir = [] then [[]] else dir)) @ [seg]"
    using splitOn_sep [of SLASH "absPath dir" seg] splitOn_absPath [OF seg(3)] splitOn_id [OF seg(2)] by simp
  moreover have "normSegs False [] (([] # (if dir = [] then [[]] else dir)) @ [seg]) = dir @ [seg]"
  proof -
    have "filter keptSeg (([] # (if dir = [] then [[]] else dir)) @ [seg]) = dir @ [seg]"
      using seg by (auto simp: keptSeg_def plainSeg_def wfSegs_def filter_id_conv)
    then show ?thesis
      using normSegs_plain [of "([] # (if dir = [] then [[]] else dir)) @ [seg]" False "[]"] seg
      by (auto simp: wfSegs_def plainSeg_def)
  qed
  moreover have "\<not> endsWith ?p [SLASH]" "posixIsAbsolute ?p"
    using seg(1) last_absPath [OF assms] by (simp_all add: endsWith_single posixIsAbsolute_def absPath_def)
  moreover have "joinOn SLASH (dir @ [seg]) \<noteq> []" using joinOn_eq_Nil [OF assms] by simp
  ultimately show ?thesis
    by (simp add: posixNormalize_def normalizeString_def absPath_def Let_def)
qed

lemma posixDirname_absPath:
  assumes "wfSegs dir" "dir \<noteq> []"
  shows "posixDirname (absPath dir) = absPath (butlast dir)"
proof -
  obtain d x where d: "dir = d @ [x]" using assms(2) by (cases dir rule: rev_cases) auto
  then have x: "x \<noteq> []" "SLASH \<notin> set x" using assms(1) by (auto simp: plainSeg_def)
  let ?a = "if d = [] then [SLASH] else absPath d @ [SLASH]"
  have split: "absPath dir = ?a @ x" using d by (simp add: absPath_snoc) (simp add: absPath_def)
  have "dropEndWhile (\<lambda>c. c = SLASH) (absPath dir) = absPath dir"
    using last_absPath [of d x] assms(1) d by (intro dropEndWhile_fixed) simp
  moreover have "dropWhile (\<lambda>c. c \<noteq> SLASH) (rev x @ SLASH # r) = SLASH # r" for r
    using x(2) by (subst dropWhile_append2) auto
  then have "dropEndWhile (\<lambda>c. c \<noteq> SLASH) (?a @ x) = ?a" by (simp add: dropEndWhile_def)
  moreover have "length (absPath d) = 1 \<Longrightarrow> d = []"
    using joinOn_eq_Nil [of d] assms(1) d by (simp add: absPath_def)
  ultimately show ?thesis
    unfolding posixDirname_def Let_def split
    using d by (cases "d = []") (auto simp: absPath_def)
qed

lemma dotLookup_absPath:
  "wfSegs dir \<Longrightarrow> x \<in> {[DOT], dotdot} \<Longrightarrow> \<exists>y \<in> {[DOT], dotdot}. dotLookup (absPath dir) x = below dir y"
  by (auto simp: dotLookup_def below_def)

lemma afterDot_absPath:
  "wfSegs dir \<Longrightarrow> afterDot (absPath dir) [DOT] = absPath dir"
  "wfSegs dir \<Longrightarrow> afterDot (absPath dir) dotdot = absPath (butlast dir)"
  using absPath_root [of dir] posixDirname_absPath [of dir] by (auto simp: afterDot_def)

definition clean :: "jstr list \<Rightarrow> bool" where
  "clean segs \<longleftrightarrow> (\<forall>s \<in> set segs. SLASH \<notin> set s)"

lemma clean_targetSegments: "clean (targetSegments target)"
  by (auto simp: clean_def targetSegments_def dest: splitOn_no_sep)

lemma clean_simps [simp]: "clean (a @ b) \<longleftrightarrow> clean a \<and> clean b" "clean (s # b) \<longleftrightarrow> SLASH \<notin> set s \<and> clean b" "clean []"
  by (auto simp: clean_def)

lemma plainSeg_cases: "s = [] \<or> s = [DOT] \<or> s = dotdot \<or> plainSeg s"
  by (auto simp: plainSeg_def)

subsection \<open>The walk over a tree\<close>

text \<open>The walk stands at a directory, or has arrived at a file.\<close>

definition standsAt :: "tree \<Rightarrow> walker \<Rightarrow> jstr list \<Rightarrow> jstr list \<Rightarrow> bool" where
  "standsAt T w dir segs \<longleftrightarrow>
     wkResolved w = absPath dir \<and> wfSegs dir \<and> (T dir = Some Dir \<or> segs = [] \<and> T dir = Some File) \<and>
     wfQueue (wkQueue w) \<and> pendingSuffix (wkQueue w) = segs \<and> clean segs"

definition popped :: "walker \<Rightarrow> segment_queue" where
  "popped w = snd (takeSegment (wkQueue w))"

lemma popped_facts:
  assumes "standsAt T w dir (seg # segs)"
  shows "fst (takeSegment (wkQueue w)) = seg" "wfQueue (popped w)" "pendingSuffix (popped w) = segs"
    "unresolvedFrom seg (popped w) = seg # segs" "remainingCount (popped w) = length segs"
    "remainingCount (wkQueue w) \<noteq> 0"
proof -
  have q: "wfQueue (wkQueue w)" "pendingSuffix (wkQueue w) = seg # segs" using assms by (auto simp: standsAt_def)
  then show c: "remainingCount (wkQueue w) \<noteq> 0" using path_queue.count_pending by simp
  obtain x q' where x: "takeSegment (wkQueue w) = (x, q')" "wfQueue q'"
    "pendingSuffix (wkQueue w) = x # pendingSuffix q'" "unresolvedFrom x q' = pendingSuffix (wkQueue w)"
    "remainingCount q' = length (pendingSuffix q')"
    using path_queue.pop_cases [OF q(1) c] by metis
  then show "fst (takeSegment (wkQueue w)) = seg" "wfQueue (popped w)" "pendingSuffix (popped w) = segs"
    "unresolvedFrom seg (popped w) = seg # segs" "remainingCount (popped w) = length segs"
    using q(2) by (auto simp: popped_def)
qed
text \<open>One step of the walk, by what the next component is.\<close>

lemma standsAt_dir: "standsAt T w dir (seg # segs) \<Longrightarrow> T dir = Some Dir \<and> wfSegs dir \<and> wkResolved w = absPath dir \<and> clean segs"
  by (simp add: standsAt_def)

lemma walk_finished:
  assumes "standsAt T w dir []" "servesTree T io"
  shows "walkPrefix io a w s =
    (Inr \<lparr>rpAbsolutePath = a, rpExistingPath = absPath dir, rpUnresolvedSegments = []\<rparr>, s)"
proof -
  have "remainingCount (wkQueue w) = 0" using assms(1) path_queue.count_zero by (simp add: standsAt_def)
  then show ?thesis
    using assms node_realpath [OF assms(2), of dir]
    by (subst walkPrefix.simps) (auto simp: finishWalk_def standsAt_def)
qed

lemma walk_Cons:
  assumes "standsAt T w dir (seg # segs)"
  shows "walkPrefix io a w s =
    (if seg = [] then walkPrefix io a (w\<lparr>wkQueue := popped w\<rparr>) s
     else if seg = [DOT] \<or> seg = dotdot then
       (case ioLstat io (dotLookup (absPath dir) seg) s of
          (Inl e, t) \<Rightarrow> (Inl e, t)
        | (Inr _, t) \<Rightarrow>
            walkPrefix io a (w\<lparr>wkResolved := afterDot (absPath dir) seg, wkQueue := popped w\<rparr>) t)
     else
       (case ioLstat io (posixJoin [absPath dir, seg]) s of
          (Inl e, t) \<Rightarrow>
            if \<not> hasNodeErrorCode e ''ENOENT'' then (Inl e, t) else finishWalk io a (absPath dir) (seg # segs) t
        | (Inr stat, t) \<Rightarrow>
            if bsKind stat \<noteq> Symbolic_link then
              (if bsKind stat \<noteq> Directory \<and> length segs > 0 then (Inl (resolutionError ''ENOTDIR''), t)
               else walkPrefix io a (w\<lparr>wkResolved := posixJoin [absPath dir, seg], wkQueue := popped w\<rparr>) t)
            else if wkHops w \<ge> MAX_SYMLINK_HOPS \<or>
                    (bsDev stat, bsIno stat, posixJoin [absPath dir, seg], segs) \<in> set (wkVisited w)
            then (Inl (resolutionError ''ELOOP''), t)
            else (case ioReadlink io (posixJoin [absPath dir, seg]) t of
                    (Inl e, r) \<Rightarrow> (Inl e, r)
                  | (Inr target, r) \<Rightarrow>
                      walkPrefix io a
                        \<lparr>wkResolved = linkBase (absPath dir) target,
                         wkQueue = makeQueue (targetSegments target @ segs),
                         wkVisited = (bsDev stat, bsIno stat, posixJoin [absPath dir, seg], segs) # wkVisited w,
                         wkHops = wkHops w + 1\<rparr> r)))"
proof -
  note p = popped_facts [OF assms]
  have d: "wkResolved w = absPath dir" using assms by (simp add: standsAt_def)
  show ?thesis
    unfolding walkPrefix.simps [of io a w s] Let_def p(1) popped_def [symmetric] d p(3,4,5)
    using p(6) by simp
qed

lemma walk_blank:
  assumes "standsAt T w dir ([] # segs)"
  shows "walkPrefix io a w s = walkPrefix io a (w\<lparr>wkQueue := popped w\<rparr>) s"
    "standsAt T (w\<lparr>wkQueue := popped w\<rparr>) dir segs"
  using popped_facts [OF assms] standsAt_dir [OF assms]
  by (simp_all add: walk_Cons [OF assms]) (simp add: standsAt_def)

lemma walk_dots:
  assumes "standsAt T w dir (x # segs)" "x \<in> {[DOT], dotdot}" "servesTree T io" "wfTree T"
  defines "v \<equiv> w\<lparr>wkResolved := afterDot (absPath dir) x, wkQueue := popped w\<rparr>"
  shows "walkPrefix io a w s = walkPrefix io a v s"
    "standsAt T v (if x = dotdot then butlast dir else dir) segs"
proof -
  note p = popped_facts [OF assms(1)] standsAt_dir [OF assms(1)]
  obtain y where y: "y \<in> {[DOT], dotdot}" "dotLookup (absPath dir) x = below dir y"
    using dotLookup_absPath [of dir x] assms(2) p(7) by blast
  obtain st where "ioLstat io (dotLookup (absPath dir) x) s = (Inr st, s)"
    using dot_lstat [OF assms(3) _ y(1), of dir s] p(7) unfolding y(2) by blast
  then show "walkPrefix io a w s = walkPrefix io a v s"
    using assms(2) by (auto simp: walk_Cons [OF assms(1)] v_def)
  have "T (butlast dir) = Some Dir"
    using assms(4) p by (cases dir rule: rev_cases) (auto simp: wfTree_def)
  then show "standsAt T v (if x = dotdot then butlast dir else dir) segs"
    using p assms(2) afterDot_absPath [of dir] by (auto simp: standsAt_def v_def wfSegs_butlast)
qed

lemma standsAt_child:
  assumes "standsAt T w dir (seg # segs)" "plainSeg seg"
  shows "wfSegs (dir @ [seg])" "posixJoin [absPath dir, seg] = absPath (dir @ [seg])"
    "seg \<noteq> []" "seg \<noteq> [DOT]" "seg \<noteq> dotdot"
  using assms posixJoin_child [of dir seg] by (auto simp: standsAt_def plainSeg_def)

lemma walk_missing:
  assumes "standsAt T w dir (seg # segs)" "plainSeg seg" "servesTree T io" "T (dir @ [seg]) = None"
  shows "walkPrefix io a w s =
    (Inr \<lparr>rpAbsolutePath = a, rpExistingPath = absPath dir, rpUnresolvedSegments = seg # segs\<rparr>, s)"
proof -
  note p = popped_facts [OF assms(1)] standsAt_dir [OF assms(1)] standsAt_child [OF assms(1,2)]
  have "ioLstat io (absPath (dir @ [seg])) s = (Inl (NodeErr ''ENOENT''), s)"
    using missing_lstat [OF assms(3) _ p(8) assms(4)] p(7) by simp
  then show ?thesis
    using p(7) node_realpath [OF assms(3), of dir s]
    by (simp add: walk_Cons [OF assms(1)] p(9-12) finishWalk_def hasNodeErrorCode_def)
qed

lemma walk_plain:
  assumes "standsAt T w dir (seg # segs)" "plainSeg seg" "servesTree T io"
    "T (dir @ [seg]) = Some node" "node = Dir \<or> node = File"
  defines "v \<equiv> w\<lparr>wkResolved := absPath (dir @ [seg]), wkQueue := popped w\<rparr>"
  shows "walkPrefix io a w s =
      (if node = Dir \<or> segs = [] then walkPrefix io a v s else (Inl (resolutionError ''ENOTDIR''), s))"
    "node = Dir \<or> segs = [] \<Longrightarrow> standsAt T v (dir @ [seg]) segs"
proof -
  note p = popped_facts [OF assms(1)] standsAt_dir [OF assms(1)] standsAt_child [OF assms(1,2)]
  obtain st where st: "ioLstat io (absPath (dir @ [seg])) s = (Inr st, s)" "bsKind st = kindOf node"
    using node_lstat [OF assms(3) _ p(8) assms(4), of s] p(7) by blast
  have "bsKind st \<noteq> Symbolic_link" "bsKind st \<noteq> Directory \<longleftrightarrow> node \<noteq> Dir" using st(2) assms(5) by auto
  then show "walkPrefix io a w s =
      (if node = Dir \<or> segs = [] then walkPrefix io a v s else (Inl (resolutionError ''ENOTDIR''), s))"
    using st(1) by (simp add: walk_Cons [OF assms(1)] p(9-12) v_def)
  show "node = Dir \<or> segs = [] \<Longrightarrow> standsAt T v (dir @ [seg]) segs"
    using p assms(4,5) by (auto simp: standsAt_def v_def)
qed

lemma absPath_Nil: "absPath [] = [SLASH]"
  by (simp add: absPath_def)

lemma walk_link:
  assumes "standsAt T w dir (seg # segs)" "plainSeg seg" "servesTree T io" "wfTree T"
    "T (dir @ [seg]) = Some (Link target)"
  shows "\<exists>dev ino v. standsAt T v (if posixIsAbsolute target then [] else dir) (targetSegments target @ segs) \<and>
     wkHops v = wkHops w + 1 \<and> wkVisited v = (dev, ino, absPath (dir @ [seg]), segs) # wkVisited w \<and>
     walkPrefix io a w s =
       (if wkHops w \<ge> MAX_SYMLINK_HOPS \<or> (dev, ino, absPath (dir @ [seg]), segs) \<in> set (wkVisited w)
        then (Inl (resolutionError ''ELOOP''), s) else walkPrefix io a v s)"
proof -
  note p = popped_facts [OF assms(1)] standsAt_dir [OF assms(1)] standsAt_child [OF assms(1,2)]
  obtain st where st: "ioLstat io (absPath (dir @ [seg])) s = (Inr st, s)" "bsKind st = kindOf (Link target)"
    using node_lstat [OF assms(3) _ p(8) assms(5), of s] p(7) by blast
  have "ioReadlink io (absPath (dir @ [seg])) s = (Inr target, s)" by (rule link_readlink [OF assms(3,5)])
  then have "walkPrefix io a w s =
      (if wkHops w \<ge> MAX_SYMLINK_HOPS \<or> (bsDev st, bsIno st, absPath (dir @ [seg]), segs) \<in> set (wkVisited w)
       then (Inl (resolutionError ''ELOOP''), s)
       else walkPrefix io a \<lparr>wkResolved = linkBase (absPath dir) target,
              wkQueue = makeQueue (targetSegments target @ segs),
              wkVisited = (bsDev st, bsIno st, absPath (dir @ [seg]), segs) # wkVisited w,
              wkHops = wkHops w + 1\<rparr> s)"
    using st by (simp add: walk_Cons [OF assms(1)] p(9-12))
  moreover have "standsAt T \<lparr>wkResolved = linkBase (absPath dir) target,
      wkQueue = makeQueue (targetSegments target @ segs), wkVisited = vis, wkHops = k\<rparr>
      (if posixIsAbsolute target then [] else dir) (targetSegments target @ segs)" for vis k
  proof -
    have "T [] = Some Dir" "wfSegs []" using assms(4) by (simp_all add: wfTree_def wfSegs_def)
    then show ?thesis
      using p(7) path_queue.fill_pending [of "targetSegments target @ segs"] clean_targetSegments [of target]
      by (simp add: standsAt_def linkBase_def absPath_Nil rawRoot_def)
  qed
  ultimately show ?thesis by (intro exI conjI; (assumption | simp))
qed
subsection \<open>The walk computes the resolution\<close>

lemma resolves_dots:
  "x \<in> {[DOT], dotdot} \<Longrightarrow> resolves T n (if x = dotdot then butlast dir else dir) segs r \<Longrightarrow>
   resolves T n dir (x # segs) r"
  by (auto intro: resolves.dot resolves.parent)

definition resolvedAs :: "tree \<Rightarrow> jstr \<Rightarrow> nat \<Rightarrow> jstr list \<Rightarrow> jstr list \<Rightarrow> resolved_prefix \<Rightarrow> bool" where
  "resolvedAs T a hops dir segs res \<longleftrightarrow>
     (\<exists>n p rest. hops + n \<le> MAX_SYMLINK_HOPS \<and> resolves T n dir segs (p, rest) \<and>
        res = \<lparr>rpAbsolutePath = a, rpExistingPath = absPath p, rpUnresolvedSegments = rest\<rparr>)"

lemma resolvedAsI:
  "resolves T n dir segs (p, rest) \<Longrightarrow> hops + n \<le> MAX_SYMLINK_HOPS \<Longrightarrow>
   resolvedAs T a hops dir segs \<lparr>rpAbsolutePath = a, rpExistingPath = absPath p, rpUnresolvedSegments = rest\<rparr>"
  unfolding resolvedAs_def by blast

lemma resolvedAsE:
  assumes "resolvedAs T a hops dir segs res"
  obtains n p rest where "hops + n \<le> MAX_SYMLINK_HOPS" "resolves T n dir segs (p, rest)"
    "res = \<lparr>rpAbsolutePath = a, rpExistingPath = absPath p, rpUnresolvedSegments = rest\<rparr>"
  using assms unfolding resolvedAs_def by blast

lemma resolvedAs_same:
  assumes "resolvedAs T a hops dir segs res" "\<And>n r. resolves T n dir segs r \<Longrightarrow> resolves T n dir' segs' r"
  shows "resolvedAs T a hops dir' segs' res"
  using assms unfolding resolvedAs_def by blast

lemma resolvedAs_link:
  assumes "resolvedAs T a (hops + 1) dir segs res"
    "\<And>n r. resolves T n dir segs r \<Longrightarrow> resolves T (Suc n) dir' segs' r"
  shows "resolvedAs T a hops dir' segs' res"
  using assms(1)
proof (rule resolvedAsE)
  fix n p rest
  assume n: "hops + 1 + n \<le> MAX_SYMLINK_HOPS" "resolves T n dir segs (p, rest)"
    "res = \<lparr>rpAbsolutePath = a, rpExistingPath = absPath p, rpUnresolvedSegments = rest\<rparr>"
  show ?thesis unfolding n(3) using n(1) by (intro resolvedAsI [OF assms(2) [OF n(2)]]) simp
qed

lemma resolvedAs_here:
  assumes "resolves T 0 dir segs (p, rest)" "hops \<le> MAX_SYMLINK_HOPS"
  shows "resolvedAs T a hops dir segs \<lparr>rpAbsolutePath = a, rpExistingPath = absPath p, rpUnresolvedSegments = rest\<rparr>"
  using resolvedAsI [OF assms(1), of hops a] assms(2) by simp

lemma walk_sound:
  assumes "servesTree T io" "wfTree T"
  shows "standsAt T w dir segs \<Longrightarrow> wkHops w \<le> MAX_SYMLINK_HOPS \<Longrightarrow> walkPrefix io a w s = (Inr res, t) \<Longrightarrow>
    t = s \<and> resolvedAs T a (wkHops w) dir segs res"
proof (induction "MAX_SYMLINK_HOPS - wkHops w" arbitrary: w dir segs rule: less_induct)
  case less
  have "standsAt T v d segs \<Longrightarrow> wkHops v = wkHops w \<Longrightarrow> walkPrefix io a v s = (Inr res, t) \<Longrightarrow>
      t = s \<and> resolvedAs T a (wkHops w) d segs res" for v d segs
  proof (induction segs arbitrary: v d)
    case Nil
    then show ?case using walk_finished [OF Nil.prems(1) assms(1), of a s] less.prems(2)
      by (auto intro: resolvedAs_here resolves.finished)
  next
    case (Cons seg segs)
    consider (b) "seg = []" | (d) "seg \<in> {[DOT], dotdot}" | (p) "plainSeg seg" using plainSeg_cases by blast
    then show ?case
    proof cases
      case b
      note blank = walk_blank [OF Cons.prems(1) [unfolded b]]
      have "t = s \<and> resolvedAs T a (wkHops w) d segs res"
        using Cons.IH [OF blank(2)] blank(1) [of io a s] Cons.prems(2,3) by simp
      then show ?thesis unfolding b using resolvedAs_same [OF _ resolves.blank] by blast
    next
      case d
      note dots = walk_dots [OF Cons.prems(1) d assms]
      have "t = s \<and> resolvedAs T a (wkHops w) (if seg = dotdot then butlast d else d) segs res"
        using Cons.IH [OF dots(2)] dots(1) [of a s] Cons.prems(2,3) by simp
      then show ?thesis using resolvedAs_same [OF _ resolves_dots [OF d]] by blast
    next
      case p
      consider (n1) "T (d @ [seg]) = None" | (n2) "T (d @ [seg]) = Some Dir" | (n3) "T (d @ [seg]) = Some File"
        | (n4) "\<exists>target. T (d @ [seg]) = Some (Link target)" by (metis node.exhaust option.exhaust)
      then show ?thesis
      proof cases
        case n1
        then show ?thesis
          using walk_missing [OF Cons.prems(1) p assms(1) n1, of a s] Cons.prems(3) less.prems(2) p
            resolvedAs_here [OF resolves.missing [of seg T d segs]] by auto
      next
        case n2
        note plain = walk_plain [OF Cons.prems(1) p assms(1) n2 disjI1 [OF refl]]
        have "t = s \<and> resolvedAs T a (wkHops w) (d @ [seg]) segs res"
          using Cons.IH [OF plain(2)] plain(1) [of a s] Cons.prems(2,3) by simp
        then show ?thesis using resolvedAs_same [OF _ resolves.child [of seg T d, OF p n2]] by blast
      next
        case n3
        note plain = walk_plain [OF Cons.prems(1) p assms(1) n3 disjI2 [OF refl]]
        show ?thesis
          using walk_finished [OF _ assms(1), of _ "d @ [seg]" a s] plain(2) plain(1) [of a s] Cons.prems(3)
            less.prems(2) resolvedAs_here [OF resolves.leaf [of seg T d, OF p n3]] by (auto split: if_splits)
      next
        case n4
        then obtain target where tgt: "T (d @ [seg]) = Some (Link target)" by blast
        obtain u where u: "walkPrefix io a v s = walkPrefix io a u s" "wkHops u = wkHops w + 1"
          "standsAt T u (if posixIsAbsolute target then [] else d) (targetSegments target @ segs)"
          "wkHops w < MAX_SYMLINK_HOPS"
          using walk_link [OF Cons.prems(1) p assms tgt, of a s] Cons.prems(2,3) by (force split: if_splits)
        have "t = s \<and> resolvedAs T a (wkHops w + 1) (if posixIsAbsolute target then [] else d)
            (targetSegments target @ segs) res"
          using less.hyps [OF _ u(3)] u Cons.prems(3) by simp
        then show ?thesis using resolvedAs_link [OF _ resolves.link [of seg T d, OF p tgt]] by blast
      qed
    qed
  qed
  then show ?case using less.prems by blast
qed

text \<open>A link seen before was met with more links ahead than now.\<close>

definition linkAhead :: "tree \<Rightarrow> nat \<Rightarrow> jstr \<Rightarrow> jstr list \<Rightarrow> bool" where
  "linkAhead T n candidate pending \<longleftrightarrow>
     (\<exists>d x k r. candidate = absPath (d @ [x]) \<and> wfSegs (d @ [x]) \<and> n < k \<and> resolves T k d (x # pending) r)"

definition visitedBefore :: "tree \<Rightarrow> nat \<Rightarrow> walker \<Rightarrow> bool" where
  "visitedBefore T n w \<longleftrightarrow>
     (\<forall>(dev, ino, candidate, pending) \<in> set (wkVisited w). linkAhead T n candidate pending)"

lemma linkAhead_mono:
  assumes "linkAhead T (Suc n) c p"
  shows "linkAhead T n c p"
proof -
  obtain d x k r where "c = absPath (d @ [x])" "wfSegs (d @ [x])" "Suc n < k" "resolves T k d (x # p) r"
    using assms unfolding linkAhead_def by blast
  then show ?thesis unfolding linkAhead_def by (intro exI [of _ d] exI [of _ x] exI [of _ k] exI [of _ r]) simp
qed

lemma visitedBefore_queue [simp]:
  "visitedBefore T n (w\<lparr>wkQueue := q\<rparr>) = visitedBefore T n w"
  "visitedBefore T n (w\<lparr>wkResolved := d\<rparr>) = visitedBefore T n w"
  by (simp_all add: visitedBefore_def)

lemma visitedBefore_link:
  assumes "visitedBefore T (Suc n) w" "wfSegs (dir @ [seg])" "resolves T (Suc n) dir (seg # segs) r"
  shows "(dev, ino, absPath (dir @ [seg]), segs) \<notin> set (wkVisited w)"
    "wkVisited v = (dev, ino, absPath (dir @ [seg]), segs) # wkVisited w \<Longrightarrow> visitedBefore T n v"
proof -
  show "(dev, ino, absPath (dir @ [seg]), segs) \<notin> set (wkVisited w)"
  proof
    assume "(dev, ino, absPath (dir @ [seg]), segs) \<in> set (wkVisited w)"
    then obtain d x k r' where v: "absPath (dir @ [seg]) = absPath (d @ [x])" "wfSegs (d @ [x])" "Suc n < k"
      "resolves T k d (x # segs) r'"
      using assms(1) unfolding visitedBefore_def linkAhead_def by fast
    then have "dir = d" "seg = x" using absPath_inject [OF assms(2) v(2)] by auto
    then show False using resolves_deterministic [OF assms(3)] v(3,4) by blast
  qed
  have "linkAhead T n (absPath (dir @ [seg])) segs"
    using assms(2,3) unfolding linkAhead_def by blast
  then show "visitedBefore T n v" if "wkVisited v = (dev, ino, absPath (dir @ [seg]), segs) # wkVisited w"
    using assms(1) unfolding visitedBefore_def that by (auto dest: linkAhead_mono)
qed

lemma walk_complete:
  assumes "servesTree T io" "wfTree T"
  shows "resolves T n dir segs r \<Longrightarrow> standsAt T w dir segs \<Longrightarrow> wkHops w + n \<le> MAX_SYMLINK_HOPS \<Longrightarrow>
    visitedBefore T n w \<Longrightarrow>
    walkPrefix io a w s =
      (Inr \<lparr>rpAbsolutePath = a, rpExistingPath = absPath (fst r), rpUnresolvedSegments = snd r\<rparr>, s)"
proof (induction arbitrary: w rule: resolves.induct)
  case (finished dir)
  then show ?case using walk_finished [OF _ assms(1)] by simp
next
  case (blank n dir segs r)
  show ?case
    unfolding walk_blank(1) [OF blank.prems(1)] using blank.prems by (intro blank.IH walk_blank) simp_all
next
  case (dot n dir segs r)
  have "[DOT] \<in> {[DOT], dotdot}" by simp
  note dots = walk_dots [OF dot.prems(1) this assms]
  show ?case unfolding dots(1) using dots(2) dot.prems by (intro dot.IH) simp_all
next
  case (parent n dir segs r)
  have "dotdot \<in> {[DOT], dotdot}" by simp
  note dots = walk_dots [OF parent.prems(1) this assms]
  show ?case unfolding dots(1) using dots(2) parent.prems by (intro parent.IH) simp_all
next
  case (missing seg dir segs)
  then show ?case using walk_missing [OF missing.prems(1) _ assms(1)] by simp
next
  case (child seg dir n segs r)
  note plain = walk_plain [OF child.prems(1) child.hyps(1) assms(1) child.hyps(2) disjI1 [OF refl]]
  have "walkPrefix io a w s = walkPrefix io a
      (w\<lparr>wkResolved := absPath (dir @ [seg]), wkQueue := popped w\<rparr>) s" using plain(1) by simp
  then show ?case using plain(2) child.prems by (simp add: child.IH)
next
  case (leaf seg dir)
  then show ?case
    using walk_plain [OF leaf.prems(1) leaf.hyps(1) assms(1) leaf.hyps(2) disjI2 [OF refl]] walk_finished [OF _ assms(1)] by simp
next
  case (link seg dir target n segs r)
  have step: "resolves T (Suc n) dir (seg # segs) r" using link.hyps by (rule resolves.link)
  note wf = standsAt_child(1) [OF link.prems(1) link.hyps(1)]
  note v = visitedBefore_link [OF link.prems(3) wf step]
  obtain dev ino u where u:
    "standsAt T u (if posixIsAbsolute target then [] else dir) (targetSegments target @ segs)"
    "wkHops u = wkHops w + 1" "wkVisited u = (dev, ino, absPath (dir @ [seg]), segs) # wkVisited w"
    "walkPrefix io a w s =
       (if wkHops w \<ge> MAX_SYMLINK_HOPS \<or> (dev, ino, absPath (dir @ [seg]), segs) \<in> set (wkVisited w)
        then (Inl (resolutionError ''ELOOP''), s) else walkPrefix io a u s)"
    using walk_link [OF link.prems(1) link.hyps(1) assms link.hyps(2), of a s] by blast
  have "walkPrefix io a w s = walkPrefix io a u s" using u(4) v(1) link.prems(2) by simp
  then show ?case using link.IH [OF u(1) _ v(2) [OF u(3)]] u(2) link.prems(2) by simp
qed
lemma absolutePath_absolute: "posixIsAbsolute base \<Longrightarrow> posixIsAbsolute (absolutePathWithRawSegments base input)"
  by (auto simp: absolutePathWithRawSegments_def posixIsAbsolute_def)

definition rawSegments :: "jstr \<Rightarrow> jstr \<Rightarrow> jstr list" where
  "rawSegments base input = splitOn SLASH (tl (absolutePathWithRawSegments base input))"

lemma resolvePrefix_starts:
  assumes "posixIsAbsolute base" "\<not> hasChar input 0" "wfTree T"
  obtains w where "resolvePrefix io base input s = walkPrefix io (absolutePathWithRawSegments base input) w s"
    "standsAt T w [] (rawSegments base input)" "wkHops w = 0" "visitedBefore T n w"
proof
  let ?a = "absolutePathWithRawSegments base input"
  let ?w = "\<lparr>wkResolved = [SLASH], wkQueue = makeQueue (rawSegments base input), wkVisited = [], wkHops = 0\<rparr>"
  have a: "posixIsAbsolute ?a" by (rule absolutePath_absolute [OF assms(1)])
  then show "resolvePrefix io base input s = walkPrefix io ?a ?w s"
    using assms(2) by (simp add: resolvePrefix_def bindS_def liftS_def assertNoNulPathInput_def throwIf_def
        rawRoot_def rawSegments_def drop_Suc Let_def)
  show "standsAt T ?w [] (rawSegments base input)"
    using assms(3) path_queue.fill_pending [of "rawSegments base input"]
    by (auto simp: standsAt_def absPath_Nil wfTree_def wfSegs_def clean_def rawSegments_def dest: splitOn_no_sep)
qed (simp_all add: visitedBefore_def)

text \<open>The walk answers exactly when the path resolves through at most 64 links, and then it answers
  what the resolution gives: the physical path of the longest existing prefix, without a link in it,
  and the components after it.\<close>

lemma resolvePrefix_iff:
  assumes "servesTree T io" "wfTree T" "posixIsAbsolute base" "\<not> hasChar input 0"
  shows "resolvePrefix io base input s = (Inr res, t) \<longleftrightarrow> t = s \<and>
    resolvedAs T (absolutePathWithRawSegments base input) 0 [] (rawSegments base input) res"
proof
  assume r: "resolvePrefix io base input s = (Inr res, t)"
  obtain w where w: "resolvePrefix io base input s = walkPrefix io (absolutePathWithRawSegments base input) w s"
    "standsAt T w [] (rawSegments base input)" "wkHops w = 0"
    by (rule resolvePrefix_starts [OF assms(3,4,2)])
  show "t = s \<and> resolvedAs T (absolutePathWithRawSegments base input) 0 [] (rawSegments base input) res"
    using walk_sound [OF assms(1,2) w(2), of "absolutePathWithRawSegments base input" s res t] r
    unfolding w(1,3) by simp
next
  assume r: "t = s \<and> resolvedAs T (absolutePathWithRawSegments base input) 0 [] (rawSegments base input) res"
  then obtain n p rest where n: "n \<le> MAX_SYMLINK_HOPS" "resolves T n [] (rawSegments base input) (p, rest)"
    "res = \<lparr>rpAbsolutePath = absolutePathWithRawSegments base input, rpExistingPath = absPath p,
            rpUnresolvedSegments = rest\<rparr>"
    by (auto elim: resolvedAsE)
  obtain w where w: "resolvePrefix io base input s = walkPrefix io (absolutePathWithRawSegments base input) w s"
    "standsAt T w [] (rawSegments base input)" "wkHops w = 0" "visitedBefore T n w"
    by (rule resolvePrefix_starts [OF assms(3,4,2)])
  show "resolvePrefix io base input s = (Inr res, t)"
    using walk_complete [OF assms(1,2) n(2) w(2) _ w(4)] w n(1,3) r by simp
qed

subsection \<open>A concrete tree\<close>

definition treeStat :: "node \<Rightarrow> big_stat" where
  "treeStat node = \<lparr>bsDev = 1, bsIno = 0, bsKind = kindOf node\<rparr>"

text \<open>Calls that answer canonical paths from a tree.\<close>

definition treeIo :: "tree \<Rightarrow> unit prefix_io" where
  "treeIo T =
     \<lparr>ioLstat = (\<lambda>p s. let segs = absSegs p in
        (if segs \<noteq> [] \<and> last segs \<in> {[DOT], dotdot}
         then (if T (butlast segs) = Some Dir then Inr (treeStat Dir) else Inl (NodeErr ''ENOTDIR''))
         else case T segs of None \<Rightarrow> Inl (NodeErr ''ENOENT'') | Some node \<Rightarrow> Inr (treeStat node), s)),
      ioReadlink = (\<lambda>p s. (case T (absSegs p) of Some (Link target) \<Rightarrow> Inr target | _ \<Rightarrow> Inl (NodeErr ''EINVAL''), s)),
      ioRealpath = (\<lambda>p s. (if p = absPath (absSegs p) \<and> T (absSegs p) \<in> {Some Dir, Some File} then Inr p
                          else Inl (NodeErr ''ENOENT''), s)),
      ioAccess = (\<lambda>p s. (Inl (NodeErr ''EACCES''), s))\<rparr>"

lemma absSegs_below: "wfSegs dir \<Longrightarrow> x \<noteq> [] \<Longrightarrow> SLASH \<notin> set x \<Longrightarrow> absSegs (below dir x) = dir @ [x]"
proof -
  assume a: "wfSegs dir" "x \<noteq> []" "SLASH \<notin> set x"
  then have "below dir x = (if dir = [] then [] else absPath dir) @ SLASH # x"
    using endsWith_absPath [of dir] by (auto simp: below_def absPath_Nil)
  moreover have "absSegs ((if dir = [] then [] else absPath dir) @ SLASH # x) =
      absSegs (if dir = [] then [] else absPath dir) @ [x]"
    using a splitOn_id [of SLASH x] by (simp add: absSegs_def splitOn_sep)
  moreover have "absSegs (if dir = [] then [] else absPath dir) = dir" using a(1) by (simp add: absSegs_def [of "[]"])
  ultimately show ?thesis by simp
qed

lemma treeIo_serves:
  assumes "\<And>p. T p \<noteq> None \<Longrightarrow> wfSegs p"
  shows "servesTree T (treeIo T)"
  unfolding servesTree_def
proof (intro conjI allI impI)
  fix dir s x
  assume d: "T dir = Some Dir \<and> x \<in> {[DOT], dotdot}"
  then have "absSegs (below dir x) = dir @ [x]" using absSegs_below assms [of dir] by auto
  then show "\<exists>st. ioLstat (treeIo T) (below dir x) s = (Inr st, s)" using d by (auto simp: treeIo_def)
next
  fix dir seg s
  assume "T dir = Some Dir \<and> wfSegs (dir @ [seg])"
  then show "case T (dir @ [seg]) of
      None \<Rightarrow> ioLstat (treeIo T) (absPath (dir @ [seg])) s = (Inl (NodeErr ''ENOENT''), s)
    | Some node \<Rightarrow> \<exists>st. ioLstat (treeIo T) (absPath (dir @ [seg])) s = (Inr st, s) \<and> bsKind st = kindOf node"
    using absSegs_absPath [of "dir @ [seg]"]
    by (auto simp: treeIo_def treeStat_def plainSeg_def Let_def split: option.splits)
next
  fix p target s
  assume "T p = Some (Link target)"
  then show "ioReadlink (treeIo T) (absPath p) s = (Inr target, s)"
    using assms [of p] by (simp add: treeIo_def)
next
  fix p s
  assume "T p = Some Dir \<or> T p = Some File"
  then show "ioRealpath (treeIo T) (absPath p) s = (Inr (absPath p), s)"
    using assms [of p] by (auto simp: treeIo_def)
qed

definition demoTree :: tree where
  "demoTree =
     map_of [([], Dir), ([js ''a''], Dir), ([js ''a'', js ''f''], File), ([js ''l''], Link (js ''a/.'')),
             ([js ''loop''], Link (js ''loop''))]"

lemma demoTree_wf: "wfTree demoTree" "demoTree p \<noteq> None \<Longrightarrow> wfSegs p"
proof -
  have dom: "p \<in> {[], [js ''a''], [js ''a'', js ''f''], [js ''l''], [js ''loop'']}" if "demoTree p \<noteq> None" for p
    using that by (auto simp: demoTree_def split: if_splits)
  show "demoTree p \<noteq> None \<Longrightarrow> wfSegs p"
    using dom [of p] by (auto simp: wfSegs_def plainSeg_def)
  show "wfTree demoTree"
    unfolding wfTree_def
  proof (intro conjI allI impI)
    fix dir seg
    assume "demoTree (dir @ [seg]) \<noteq> None"
    then have "dir = [] \<or> dir = [js ''a'']" using dom [of "dir @ [seg]"] by (cases dir) (auto simp: append_eq_Cons_conv)
    then show "demoTree dir = Some Dir" by (auto simp: demoTree_def)
  qed (simp add: demoTree_def)
qed

subsection \<open>Properties\<close>

text \<open>C40: over a file system that holds a tree of directories, files and links, the prefix walk answers
  exactly what resolving the path gives, provided that needs at most 64 links: the physical path of
  the longest existing prefix, and the raw components after the first missing one. In particular a
  chain of links that ends is never mistaken for a cycle, and a cycle is never answered.\<close>

theorem prefix_walk_refines_resolution:
  assumes "servesTree T io" "wfTree T" "posixIsAbsolute base" "\<not> hasChar input 0"
  shows "resolvePathPrefixSync io base input s = (Inr res, t) \<longleftrightarrow>
    t = s \<and> (\<exists>n p rest. n \<le> MAX_SYMLINK_HOPS \<and> resolves T n [] (rawSegments base input) (p, rest) \<and>
      res = \<lparr>rpAbsolutePath = absolutePathWithRawSegments base input, rpExistingPath = absPath p,
             rpUnresolvedSegments = rest\<rparr>)"
  using resolvePrefix_iff [OF assms, of s res t] by (simp add: resolvePathPrefixSync_def resolvedAs_def)

theorem prefix_walk_refines_resolution_witness:
  "resolvePathPrefixSync (treeIo demoTree) (js ''/a'') (js ''../l//x/..'') () =
     (Inr \<lparr>rpAbsolutePath = js ''/a/../l//x/..'', rpExistingPath = js ''/a'',
           rpUnresolvedSegments = [js ''x'', js ''..'']\<rparr>, ()) \<and>
   \<not> (\<exists>n p rest. n \<le> MAX_SYMLINK_HOPS \<and> resolves demoTree n [] [js ''loop''] (p, rest))"
proof -
  note served = treeIo_serves [of demoTree, OF demoTree_wf(2)]
  note refines = prefix_walk_refines_resolution [OF served demoTree_wf(1)]
  have run: "resolvePathPrefixSync (treeIo demoTree) (js ''/a'') (js ''../l//x/..'') () =
     (Inr \<lparr>rpAbsolutePath = js ''/a/../l//x/..'', rpExistingPath = js ''/a'',
           rpUnresolvedSegments = [js ''x'', js ''..'']\<rparr>, ())"
    by code_simp
  have loop: "resolvePathPrefixSync (treeIo demoTree) (js ''/'') (js ''loop'') () =
      (Inl (NodeErr ''ELOOP''), ())" "rawSegments (js ''/'') (js ''loop'') = [js ''loop'']"
    by code_simp+
  have "posixIsAbsolute (js ''/'')" "\<not> hasChar (js ''loop'') 0" by code_simp+
  then have "\<not> (\<exists>n p rest. n \<le> MAX_SYMLINK_HOPS \<and> resolves demoTree n [] [js ''loop''] (p, rest))"
    using refines [of "js ''/''" "js ''loop''" "()" _ "()"] unfolding loop by blast
  then show ?thesis using run by blast
qed

subsection \<open>The shortcut\<close>

text \<open>What the kernel does with whole paths. \<open>realpath\<close> answers only what resolution gives; a path
  whose metadata says directory resolves to a directory, whose canonical path can be asked for; a path
  that does not exist below an existing directory names a missing entry of it; the root exists. None of
  the calls changes anything.\<close>

definition kernelCalls :: "tree \<Rightarrow> 's prefix_io \<Rightarrow> bool" where
  "kernelCalls T io \<longleftrightarrow>
     (\<forall>p s r t. ioLstat io p s = (r, t) \<longrightarrow> t = s) \<and> (\<forall>p s r t. ioAccess io p s = (r, t) \<longrightarrow> t = s) \<and>
     (\<forall>p s. snd (ioRealpath io p s) = s) \<and>
     (\<forall>p s q t. posixIsAbsolute p \<and> ioRealpath io p s = (Inr q, t) \<longrightarrow>
        (\<exists>n x. n \<le> MAX_SYMLINK_HOPS \<and> resolves T n [] (splitOn SLASH (tl p)) (x, []) \<and> q = absPath x)) \<and>
     (\<forall>ps s st t. wfSegs ps \<and> ioLstat io (absPath ps) s = (Inr st, t) \<and> bsKind st = Directory \<longrightarrow>
        (\<exists>n x. n \<le> MAX_SYMLINK_HOPS \<and> resolves T n [] ps (x, []) \<and> T x = Some Dir \<and>
           ioRealpath io (absPath ps) s = (Inr (absPath x), s))) \<and>
     (\<forall>ps y s e t n x. wfSegs (ps @ [y]) \<and> ioLstat io (absPath (ps @ [y])) s = (Inl e, t) \<and> hasNodeErrorCode e ''ENOENT'' \<and>
        resolves T n [] ps (x, []) \<and> T x = Some Dir \<longrightarrow> T (x @ [y]) = None) \<and>
     (\<forall>s. \<exists>st. ioLstat io [SLASH] s = (Inr st, s))"

lemma kernelCalls_simps:
  assumes "kernelCalls T io"
  shows kernel_state: "ioLstat io p s = (r, t) \<Longrightarrow> t = s" "ioAccess io p s = (r', t) \<Longrightarrow> t = s"
      "snd (ioRealpath io p s) = s"
    and kernel_realpath: "posixIsAbsolute p \<Longrightarrow> ioRealpath io p s = (Inr q, t) \<Longrightarrow>
      \<exists>n x. n \<le> MAX_SYMLINK_HOPS \<and> resolves T n [] (splitOn SLASH (tl p)) (x, []) \<and> q = absPath x"
    and kernel_directory: "wfSegs ps \<Longrightarrow> ioLstat io (absPath ps) s = (Inr st, t) \<Longrightarrow> bsKind st = Directory \<Longrightarrow>
      \<exists>n x. n \<le> MAX_SYMLINK_HOPS \<and> resolves T n [] ps (x, []) \<and> T x = Some Dir \<and>
        ioRealpath io (absPath ps) s = (Inr (absPath x), s)"
    and kernel_missing: "wfSegs (ps @ [y]) \<Longrightarrow> ioLstat io (absPath (ps @ [y])) s = (Inl e, t) \<Longrightarrow> hasNodeErrorCode e ''ENOENT'' \<Longrightarrow>
      resolves T n [] ps (x, []) \<Longrightarrow> T x = Some Dir \<Longrightarrow> T (x @ [y]) = None"
    and kernel_root: "\<exists>st. ioLstat io [SLASH] s = (Inr st, s)"
  using assms unfolding kernelCalls_def by (elim conjE; metis)+

lemma resolves_append:
  "resolves T n dir ps (x, []) \<Longrightarrow> T x = Some Dir \<Longrightarrow> resolves T m x rest r \<Longrightarrow>
   resolves T (n + m) dir (ps @ rest) r"
proof (induction dir ps "(x, [] :: jstr list)" rule: resolves.induct)
  case finished
  then show ?case by simp
next
  case (link seg dir target n segs)
  then have "resolves T (n + m) (if posixIsAbsolute target then [] else dir)
      (targetSegments target @ (segs @ rest)) r" by simp
  from resolves.link [of seg T dir, OF link.hyps(1,2) this] show ?case by simp
qed (auto intro: resolves.intros)

text \<open>What the search for a parent answers: an existing directory whose next component is missing.\<close>

definition parentOf :: "'s prefix_io \<Rightarrow> 's \<Rightarrow> jstr list \<Rightarrow> jstr \<Rightarrow> bool" where
  "parentOf io s full p \<longleftrightarrow>
     (\<exists>ps rest st e. ps @ rest = full \<and> rest \<noteq> [] \<and> p = absPath ps \<and>
        ioLstat io (absPath ps) s = (Inr st, s) \<and> bsKind st = Directory \<and>
        ioLstat io (absPath (ps @ [hd rest])) s = (Inl e, s) \<and> hasNodeErrorCode e ''ENOENT'')"

lemma nearestParent_found:
  assumes "ps @ rest = full" "rest \<noteq> []" "ioLstat io (absPath ps) s = (Inr st, s)"
    "ioLstat io (absPath (ps @ [hd rest])) s = (Inl e, s)" "hasNodeErrorCode e ''ENOENT''"
    "nearestParent io (absPath ps) s = (r, t)"
  shows "t = s \<and> (\<forall>p. r = Some p \<longrightarrow> parentOf io s full p)"
proof -
  have n: "nearestParent io (absPath ps) s =
      (if bsKind st \<noteq> Directory then None else Some (absPath ps), s)"
    using assms(3) by (subst nearestParent.simps) simp
  have "parentOf io s full (absPath ps)" if "bsKind st = Directory"
    unfolding parentOf_def using assms(1-5) that by blast
  then show ?thesis using assms(6) unfolding n by (auto split: if_splits)
qed

lemma nearestParent_missing:
  assumes k: "kernelCalls T io" and wf: "wfSegs full"
  shows "ps @ rest = full \<Longrightarrow> rest \<noteq> [] \<Longrightarrow> ioLstat io (absPath (ps @ [hd rest])) s = (Inl e, s) \<Longrightarrow>
    hasNodeErrorCode e ''ENOENT'' \<Longrightarrow> nearestParent io (absPath ps) s = (r, t) \<Longrightarrow>
    t = s \<and> (\<forall>p. r = Some p \<longrightarrow> parentOf io s full p)"
proof (induction ps arbitrary: rest e rule: rev_induct)
  case Nil
  obtain st where "ioLstat io (absPath []) s = (Inr st, s)"
    using kernel_root [OF k] by (auto simp: absPath_Nil)
  from nearestParent_found [OF Nil.prems(1,2) this Nil.prems(3-5)] show ?case .
next
  case (snoc y ps)
  have wfp: "wfSegs (ps @ [y])" using wf snoc.prems(1) by (auto simp: wfSegs_def)
  have dn: "posixDirname (absPath (ps @ [y])) = absPath ps" using posixDirname_absPath [OF wfp] by simp
  obtain a where a: "ioLstat io (absPath (ps @ [y])) s = (a, s)"
    using kernel_state(1) [OF k] by (metis surj_pair)
  show ?case
  proof (cases a)
    case (Inl e2)
    have n: "nearestParent io (absPath (ps @ [y])) s =
        (if hasNodeErrorCode e2 ''ENOENT'' \<and> absPath ps \<noteq> absPath (ps @ [y])
         then nearestParent io (absPath ps) s else (None, s))"
      using a Inl dn by (subst nearestParent.simps) simp
    show ?thesis
    proof (cases "hasNodeErrorCode e2 ''ENOENT'' \<and> absPath ps \<noteq> absPath (ps @ [y])")
      case True
      then have p: "nearestParent io (absPath ps) s = (r, t)" using snoc.prems(5) unfolding n by simp
      have "ps @ (y # rest) = full" "ioLstat io (absPath (ps @ [hd (y # rest)])) s = (Inl e2, s)"
        using snoc.prems(1) a Inl by simp_all
      from snoc.IH [OF this(1) _ this(2) conjunct1 [OF True] p] show ?thesis by simp
    next
      case False
      then show ?thesis using snoc.prems(5) unfolding n by auto
    qed
  next
    case (Inr st)
    show ?thesis
      using nearestParent_found [OF snoc.prems(1,2) a [unfolded Inr] snoc.prems(3-5)] .
  qed
qed

lemma suffix_of_absPath:
  assumes "wfSegs ps" "wfSegs rest" "ps @ rest = full" "rest \<noteq> []"
  shows "splitOn SLASH (drop (length (absPath ps) + (if endsWith (absPath ps) [SLASH] then 0 else 1))
    (absPath full)) = rest"
proof -
  have "absPath full = (if ps = [] then [SLASH] else absPath ps @ [SLASH]) @ joinOn SLASH rest"
    using assms(3,4) by (auto simp: absPath_def joinOn_append)
  moreover have "splitOn SLASH (joinOn SLASH rest) = rest"
    using assms(2,4) by (intro splitOn_joinOn) (auto simp: wfSegs_def)
  ultimately show ?thesis
    using endsWith_absPath [OF assms(1)] by (auto simp: absPath_Nil)
qed

lemma shortcut_agrees:
  assumes k: "kernelCalls T io" and served: "servesTree T io" "wfTree T"
    and base: "posixIsAbsolute base" "\<not> hasChar input 0"
  defines "a \<equiv> absolutePathWithRawSegments base input"
  shows "\<exists>r. prefixShortcut io base a s = (Inr r, s) \<and>
    (\<forall>p. r = Some p \<longrightarrow> resolvePrefix io base input s = (Inr p, s))"
proof -
  have abs: "posixIsAbsolute a" unfolding a_def by (rule absolutePath_absolute [OF base(1)])
  have answer: "resolvePrefix io base input s =
      (Inr \<lparr>rpAbsolutePath = a, rpExistingPath = absPath x, rpUnresolvedSegments = rest\<rparr>, s)"
    if "n \<le> MAX_SYMLINK_HOPS" "resolves T n [] (splitOn SLASH (tl a)) (x, rest)" for n x rest
    using resolvePrefix_iff [OF served base, of s _ s] resolvedAsI [OF that(2), of 0 a] that(1)
    by (simp add: rawSegments_def a_def)
  obtain l where l: "ioLstat io a s = (l, s)" using kernel_state(1) [OF k] by (metis surj_pair)
  show ?thesis
  proof (cases l)
    case entry: (Inr entry)
    obtain c where c: "(if bsKind entry = Symbolic_link then ioAccess io a s else (Inr (), s)) = (c, s)"
      using kernel_state(2) [OF k] by (metis surj_pair)
    obtain q where q: "ioRealpath io a s = (q, s)" using kernel_state(3) [OF k, of a s] by (metis prod.collapse)
    have p: "prefixShortcut io base a s = (Inr (case (c, q) of
        (Inr _, Inr path) \<Rightarrow> Some \<lparr>rpAbsolutePath = a, rpExistingPath = path, rpUnresolvedSegments = []\<rparr>
      | _ \<Rightarrow> None), s)"
      unfolding prefixShortcut_def l entry prod.case sum.case c finishWalk_def q by (simp split: sum.split)
    have "\<exists>n x. n \<le> MAX_SYMLINK_HOPS \<and> resolves T n [] (splitOn SLASH (tl a)) (x, []) \<and> path = absPath x"
      if "q = Inr path" for path
      using kernel_realpath [OF k abs] q that by blast
    then show ?thesis unfolding p using answer by (auto split: sum.splits)
  next
    case missed: (Inl e)
    show ?thesis
    proof (cases "hasNodeErrorCode e ''ENOENT'' \<and> a = posixResolve base [a]")
      case False
      then show ?thesis using l missed by (auto simp: prefixShortcut_def)
    next
      case True
      define full where "full = resolvedSegs base a"
      have full: "wfSegs full" "a = absPath full"
        using trans [OF conjunct2 [OF True] posixResolve_resolvedSegs [OF base(1)]]
        by (simp_all only: full_def resolvedSegs_def wfSegs_pathSegs)
      have ne: "full \<noteq> []"
      proof
        assume "full = []"
        then have "a = [SLASH]" using full(2) absPath_Nil by simp
        moreover obtain st where "ioLstat io [SLASH] s = (Inr st, s)" using kernel_root [OF k] by blast
        ultimately show False using l missed by simp
      qed
      have d: "posixDirname a = absPath (butlast full)"
        unfolding full(2) by (rule posixDirname_absPath [OF full(1) ne])
      obtain r t where r: "nearestParent io (absPath (butlast full)) s = (r, t)" by (metis surj_pair)
      have ab: "butlast full @ [last full] = full" using ne by simp
      then have "ioLstat io (absPath (butlast full @ [hd [last full]])) s = (Inl e, s)"
        using l missed full(2) by simp
      then have near: "t = s" "r = Some parent \<Longrightarrow> parentOf io s full parent" for parent
        using nearestParent_missing [OF k full(1) ab _ _ conjunct1 [OF True] r] by auto
      have p: "prefixShortcut io base a s = (case r of None \<Rightarrow> (Inr None, s)
        | Some parent \<Rightarrow> bindS (finishWalk io a parent
             (splitOn SLASH (drop (length parent + (if endsWith parent [SLASH] then 0 else 1)) a)))
               (\<lambda>p. returnS (Some p)) s)"
        unfolding prefixShortcut_def l missed prod.case sum.case if_P [OF True] d r near(1)
        by (simp split: option.split)
      show ?thesis
      proof (cases r)
        case None
        then show ?thesis by (simp add: p)
      next
        case (Some parent)
        obtain ps rest st e' where m: "ps @ rest = full" "rest \<noteq> []" "parent = absPath ps"
          "ioLstat io (absPath ps) s = (Inr st, s)" "bsKind st = Directory"
          "ioLstat io (absPath (ps @ [hd rest])) s = (Inl e', s)" "hasNodeErrorCode e' ''ENOENT''"
          using near(2) [OF Some] unfolding parentOf_def by blast
        have wf: "wfSegs ps" "wfSegs rest" using m(1) full(1) by (auto simp: wfSegs_def)
        obtain n x where x: "n \<le> MAX_SYMLINK_HOPS" "resolves T n [] ps (x, [])" "T x = Some Dir"
          "ioRealpath io (absPath ps) s = (Inr (absPath x), s)"
          using kernel_directory [OF k wf(1) m(4,5)] by blast
        have "wfSegs (ps @ [hd rest])" using wf m(2) by (cases rest) (auto simp: wfSegs_def)
        then have "T (x @ [hd rest]) = None" by (rule kernel_missing [OF k _ m(6,7) x(2,3)])
        moreover have "plainSeg (hd rest)" using wf(2) m(2) by (cases rest) (auto simp: wfSegs_def)
        ultimately have "resolves T 0 x rest (x, rest)"
          using resolves.missing [of "hd rest" T x "tl rest"] m(2) by simp
        then have "resolves T (n + 0) [] full (x, rest)"
          using resolves_append [OF x(2,3)] m(1) by blast
        moreover have "splitOn SLASH (tl a) = full"
          using splitOn_absPath [OF full(1)] ne unfolding full(2) by (simp add: absPath_def)
        ultimately have ans: "resolvePrefix io base input s =
            (Inr \<lparr>rpAbsolutePath = a, rpExistingPath = absPath x, rpUnresolvedSegments = rest\<rparr>, s)"
          using answer [OF x(1)] by simp
        have "splitOn SLASH (drop (length parent + (if endsWith parent [SLASH] then 0 else 1)) a) = rest"
          unfolding m(3) full(2) by (rule suffix_of_absPath [OF wf m(1,2)])
        then have "prefixShortcut io base a s =
            (Inr (Some \<lparr>rpAbsolutePath = a, rpExistingPath = absPath x, rpUnresolvedSegments = rest\<rparr>), s)"
          unfolding p Some option.case bindS_def finishWalk_def returnS_def m(3) by (simp add: x(4))
        then show ?thesis using ans by blast
      qed
    qed
  qed
qed
subsection \<open>A tree without links\<close>

lemma wfTree_prefix: "wfTree T \<Longrightarrow> T (p @ q) \<noteq> None \<Longrightarrow> q \<noteq> [] \<Longrightarrow> T p = Some Dir"
proof (induction q rule: rev_induct)
  case (snoc y q)
  then have "T (p @ q) = Some Dir" unfolding wfTree_def by (metis append.assoc)
  then show ?case using snoc by (cases "q = []") auto
qed simp

lemma resolves_existing:
  "wfTree T \<Longrightarrow> wfSegs segs \<Longrightarrow> T (dir @ segs) = Some Dir \<or> T (dir @ segs) = Some File \<Longrightarrow>
   resolves T 0 dir segs (dir @ segs, [])"
proof (induction segs arbitrary: dir)
  case Nil
  then show ?case by (simp add: resolves.finished)
next
  case (Cons x xs)
  have x: "plainSeg x" "wfSegs xs" using Cons.prems(2) by (auto simp: wfSegs_def)
  show ?case
  proof (cases "T (dir @ [x]) = Some Dir")
    case True
    then show ?thesis
      using resolves.child [of x T dir 0 xs "(dir @ x # xs, [])"] Cons.IH [of "dir @ [x]"] Cons.prems x by simp
  next
    case False
    then have "xs = []" using wfTree_prefix [of T "dir @ [x]" xs] Cons.prems by auto
    then show ?thesis using resolves.leaf [of x T dir] Cons.prems x False by auto
  qed
qed

lemma resolves_linkfree:
  assumes "\<And>p target. T p \<noteq> Some (Link target)"
  shows "resolves T n dir segs (x, []) \<Longrightarrow> wfSegs segs \<Longrightarrow> x = dir @ segs"
  by (induction dir segs "(x, [] :: jstr list)" rule: resolves.induct)
    (auto simp: assms wfSegs_def)

lemma treeIo_kernel:
  assumes "wfTree T" "\<And>p. T p \<noteq> None \<Longrightarrow> wfSegs p" "\<And>p target. T p \<noteq> Some (Link target)"
  shows "kernelCalls T (treeIo T)"
proof -
  have exist: "\<exists>n x. n \<le> MAX_SYMLINK_HOPS \<and> resolves T n [] segs (x, []) \<and> x = segs"
    if "T segs = Some Dir \<or> T segs = Some File" for segs
    using resolves_existing [of T segs "[]"] assms(1) assms(2) [of segs] that by auto
  have look: "ioLstat (treeIo T) (absPath ps) s =
      (case T ps of None \<Rightarrow> Inl (NodeErr ''ENOENT'') | Some node \<Rightarrow> Inr (treeStat node), s)"
    if "wfSegs ps" for ps s
  proof -
    have "\<not> (ps \<noteq> [] \<and> last ps \<in> {[DOT], dotdot})"
      using that by (cases ps rule: rev_cases) (auto simp: plainSeg_def)
    then show ?thesis using absSegs_absPath [OF that] by (auto simp: treeIo_def)
  qed
  show ?thesis
    unfolding kernelCalls_def
  proof (intro conjI allI impI)
    fix p s q t
    assume a: "posixIsAbsolute p \<and> ioRealpath (treeIo T) p s = (Inr q, t)"
    define C where "C \<longleftrightarrow> p = absPath (absSegs p) \<and> T (absSegs p) \<in> {Some Dir, Some File}"
    have e: "ioRealpath (treeIo T) p s = (if C then Inr p else Inl (NodeErr ''ENOENT''), s)"
      unfolding treeIo_def C_def by (simp only: prefix_io.simps)
    have c: "C" "q = p" using a unfolding e by (auto split: if_splits)
    obtain g where q: "p = absPath g" "T g = Some Dir \<or> T g = Some File" "q = p"
      using c unfolding C_def by blast
    have wf: "wfSegs g" using q(2) assms(2) [of g] by auto
    have "splitOn SLASH (tl p) = (if g = [] then [[]] else g)"
      using splitOn_absPath [OF wf] unfolding q(1) by (simp add: absPath_def)
    moreover have "resolves T 0 [] g (g, [])" using resolves_existing [OF assms(1) wf, of "[]"] q(2) by simp
    ultimately have "resolves T 0 [] (splitOn SLASH (tl p)) (g, [])" by (auto intro: resolves.blank)
    then show "\<exists>n x. n \<le> MAX_SYMLINK_HOPS \<and> resolves T n [] (splitOn SLASH (tl p)) (x, []) \<and> q = absPath x"
      using q(1,3) by blast
next
    fix ps s st t
    assume a: "wfSegs ps \<and> ioLstat (treeIo T) (absPath ps) s = (Inr st, t) \<and> bsKind st = Directory"
    then obtain node where n: "T ps = Some node" "kindOf node = Directory"
      using look [of ps s] by (auto simp: treeStat_def split: option.splits)
    then have "T ps = Some Dir" by (cases node) auto
    then show "\<exists>n x. n \<le> MAX_SYMLINK_HOPS \<and> resolves T n [] ps (x, []) \<and> T x = Some Dir \<and>
        ioRealpath (treeIo T) (absPath ps) s = (Inr (absPath x), s)"
      using exist [of ps] a by (auto simp: treeIo_def)
  next
    fix ps y s e t n x
    assume a: "wfSegs (ps @ [y]) \<and> ioLstat (treeIo T) (absPath (ps @ [y])) s = (Inl e, t) \<and>
      hasNodeErrorCode e ''ENOENT'' \<and> resolves T n [] ps (x, []) \<and> T x = Some Dir"
    then have "x = ps" using resolves_linkfree [of T n "[]" ps x, OF assms(3)] by (simp add: wfSegs_def)
    then show "T (x @ [y]) = None" using a look [of "ps @ [y]" s] by (auto split: option.splits)
  next
    fix s
    have "T [] = Some Dir" using assms(1) by (simp add: wfTree_def)
    then show "\<exists>st. ioLstat (treeIo T) [SLASH] s = (Inr st, s)" by (simp add: treeIo_def absSegs_def)
  qed (auto simp: treeIo_def)
qed

text \<open>The shortcut of the asynchronous entry point changes nothing. Where the kernel resolves whole
  paths as the tree says, the answer with the shortcut, which asks for the physical path of the input or
  of its nearest existing directory, is the answer of the walk, for inputs that exist, that are missing
  and that fail alike.\<close>

theorem prefix_shortcut_agrees:
  assumes "kernelCalls T io" "servesTree T io" "wfTree T" "posixIsAbsolute base"
  shows "resolvePathPrefix io direct base input s = resolvePathPrefixSync io base input s"
proof (cases "hasChar input 0")
  case True
  then show ?thesis
    by (simp add: resolvePathPrefix_def resolvePathPrefixSync_def resolvePrefix_def bindS_def liftS_def
        assertNoNulPathInput_def throwIf_def)
next
  case False
  obtain r where r: "prefixShortcut io base (absolutePathWithRawSegments base input) s = (Inr r, s)"
    "\<And>p. r = Some p \<Longrightarrow> resolvePrefix io base input s = (Inr p, s)"
    using shortcut_agrees [OF assms False, of s] by blast
  then show ?thesis
    using False by (cases r) (simp_all add: resolvePathPrefix_def resolvePathPrefixSync_def bindS_def liftS_def
        assertNoNulPathInput_def throwIf_def returnS_def)
qed

definition plainTree :: tree where
  "plainTree = map_of [([], Dir), ([js ''a''], Dir), ([js ''a'', js ''f''], File)]"

lemma plainTree_wf:
  "wfTree plainTree" "plainTree p \<noteq> None \<Longrightarrow> wfSegs p" "plainTree p \<noteq> Some (Link target)"
proof -
  have dom: "p \<in> {[], [js ''a''], [js ''a'', js ''f'']}" if "plainTree p \<noteq> None" for p
    using that by (auto simp: plainTree_def split: if_splits)
  show "plainTree p \<noteq> None \<Longrightarrow> wfSegs p"
    using dom [of p] by (auto simp: wfSegs_def plainSeg_def)
  show "plainTree p \<noteq> Some (Link target)" by (auto simp: plainTree_def split: if_splits)
  show "wfTree plainTree"
    unfolding wfTree_def
  proof (intro conjI allI impI)
    fix dir seg
    assume "plainTree (dir @ [seg]) \<noteq> None"
    then have "dir = [] \<or> dir = [js ''a'']" using dom [of "dir @ [seg]"] by (cases dir) (auto simp: append_eq_Cons_conv)
    then show "plainTree dir = Some Dir" by (auto simp: plainTree_def)
  qed (simp add: plainTree_def)
qed

theorem prefix_shortcut_agrees_witness:
  "resolvePathPrefix (treeIo plainTree) True (js ''/'') (js ''a/x/y'') () =
     (Inr \<lparr>rpAbsolutePath = js ''/a/x/y'', rpExistingPath = js ''/a'',
           rpUnresolvedSegments = [js ''x'', js ''y'']\<rparr>, ())"
proof -
  have kernel: "kernelCalls plainTree (treeIo plainTree)"
    by (rule treeIo_kernel [OF plainTree_wf(1)]) (rule plainTree_wf(2,3), assumption?)+
  have serves: "servesTree plainTree (treeIo plainTree)"
    by (rule treeIo_serves) (rule plainTree_wf(2), assumption)
  have start: "posixIsAbsolute (js ''/'')" by code_simp
  show ?thesis
    by (rule trans [OF prefix_shortcut_agrees [OF kernel serves plainTree_wf(1) start]]) code_simp
qed

end
