(* ===== verification/FileIdentity.thy ===== *)
theory FileIdentity
  imports NodePath Effects
begin

text \<open>
  File identity (\<open>src/file-identity.ts\<close>). A device or inode number is a JavaScript number or a bigint.
  Numbers beyond the safe integers are rounded and identify nothing; on Windows zero stands for an
  unknown value.
\<close>

datatype stat_value = Num jsnum | Big int

record file_identity =
  fiDev :: stat_value
  fiIno :: stat_value

text \<open>A receipt has an explicit companion; \<open>None\<close> in the companion is a component of another type.\<close>

datatype identity_input =
    Identity_stat file_identity
  | Identity_receipt "int option" "int option"

definition identityFromReceipt :: "identity_input \<Rightarrow> file_identity" where
  "identityFromReceipt v =
     (case v of
        Identity_stat i \<Rightarrow> i
      | Identity_receipt dev ino \<Rightarrow>
          (case (dev, ino) of
             (Some d, Some i) \<Rightarrow> \<lparr>fiDev = Big d, fiIno = Big i\<rparr>
           | _ \<Rightarrow> \<lparr>fiDev = Num NaN, fiIno = Num NaN\<rparr>))"

definition isExactStatValue :: "stat_value \<Rightarrow> bool" where
  "isExactStatValue v = (case v of Big _ \<Rightarrow> True | Num n \<Rightarrow> isSafeInteger n)"

definition hasSafeFileIdentity :: "file_identity \<Rightarrow> bool" where
  "hasSafeFileIdentity i \<longleftrightarrow> isExactStatValue (fiDev i) \<and> isExactStatValue (fiIno i)"

definition isZero :: "stat_value \<Rightarrow> bool" where
  "isZero v = (case v of Big n \<Rightarrow> n = 0 | Num n \<Rightarrow> n = Finite 0)"

text \<open>\<open>===\<close> of two numbers: \<open>NaN\<close> equals nothing. Of mixed types the code converts both to bigints.\<close>

definition sameStatValue :: "stat_value \<Rightarrow> stat_value \<Rightarrow> bool" where
  "sameStatValue left right =
     (case (left, right) of
        (Big a, Big b) \<Rightarrow> a = b
      | (Num a, Num b) \<Rightarrow> a = b \<and> a \<noteq> NaN
      | (Num a, Big b) \<Rightarrow> floorNum a = b
      | (Big a, Num b) \<Rightarrow> a = floorNum b)"

definition isStatValueProvablyDifferent :: "platform \<Rightarrow> stat_value \<Rightarrow> stat_value \<Rightarrow> bool" where
  "isStatValueProvablyDifferent p left right =
     (if sameStatValue left right then False else p \<noteq> Win32 \<or> (\<not> isZero left \<and> \<not> isZero right))"

definition sameFileIdentity :: "platform \<Rightarrow> identity_input \<Rightarrow> identity_input \<Rightarrow> bool" where
  "sameFileIdentity p left right =
     (let l = identityFromReceipt left; r = identityFromReceipt right
      in isExactStatValue (fiDev l) \<and> isExactStatValue (fiIno l) \<and>
         isExactStatValue (fiDev r) \<and> isExactStatValue (fiIno r) \<and>
         \<not> isStatValueProvablyDifferent p (fiDev l) (fiDev r) \<and>
         \<not> isStatValueProvablyDifferent p (fiIno l) (fiIno r))"

definition sameCleanupStatValue :: "stat_value \<Rightarrow> stat_value \<Rightarrow> bool" where
  "sameCleanupStatValue left right \<longleftrightarrow>
     (if \<not> isExactStatValue left \<or> \<not> isExactStatValue right then False else sameStatValue left right)"

definition sameFileIdentityForCleanup :: "platform \<Rightarrow> file_identity \<Rightarrow> file_identity \<Rightarrow> bool" where
  "sameFileIdentityForCleanup p left right =
     (if p \<noteq> Win32
      then sameCleanupStatValue (fiDev left) (fiDev right) \<and> sameCleanupStatValue (fiIno left) (fiIno right)
      else if isZero (fiDev left) then False
      else if isZero (fiIno left) then False
      else if isZero (fiDev right) then False
      else if isZero (fiIno right) then False
      else sameCleanupStatValue (fiDev left) (fiDev right) \<and> sameCleanupStatValue (fiIno left) (fiIno right))"

subsection \<open>The number a value stands for\<close>

definition statNumber :: "stat_value \<Rightarrow> int" where
  "statNumber v = (case v of Big n \<Rightarrow> n | Num n \<Rightarrow> floorNum n)"

lemma exact_same: "isExactStatValue a \<Longrightarrow> isExactStatValue b \<Longrightarrow> sameStatValue a b \<longleftrightarrow> statNumber a = statNumber b"
  by (auto simp: isExactStatValue_def sameStatValue_def statNumber_def isSafeInteger_def floorNum_def
      split: stat_value.splits jsnum.splits)

lemma exact_zero: "isExactStatValue a \<Longrightarrow> isZero a \<longleftrightarrow> statNumber a = 0"
  by (auto simp: isExactStatValue_def isZero_def statNumber_def isSafeInteger_def floorNum_def
      split: stat_value.splits jsnum.splits)

text \<open>Identity for cleanup is equality of exact numbers, with unknown Windows components excluded.\<close>

lemma cleanup_identity_iff:
  "sameFileIdentityForCleanup p l r \<longleftrightarrow>
     hasSafeFileIdentity l \<and> hasSafeFileIdentity r \<and> statNumber (fiDev l) = statNumber (fiDev r) \<and>
     statNumber (fiIno l) = statNumber (fiIno r) \<and>
     (p \<noteq> Win32 \<or> statNumber (fiDev l) \<noteq> 0 \<and> statNumber (fiIno l) \<noteq> 0)"
  by (auto simp: sameFileIdentityForCleanup_def sameCleanupStatValue_def hasSafeFileIdentity_def exact_same
      exact_zero)

lemma cleanup_identity_sym: "sameFileIdentityForCleanup p l r \<Longrightarrow> sameFileIdentityForCleanup p r l"
  by (auto simp: cleanup_identity_iff)

lemma cleanup_identity_trans:
  "sameFileIdentityForCleanup p a b \<Longrightarrow> sameFileIdentityForCleanup p b c \<Longrightarrow> sameFileIdentityForCleanup p a c"
  by (auto simp: cleanup_identity_iff)

lemma cleanup_identity_same:
  "sameFileIdentityForCleanup p l r \<Longrightarrow> sameFileIdentity p (Identity_stat l) (Identity_stat r)"
  by (auto simp: cleanup_identity_iff sameFileIdentity_def identityFromReceipt_def hasSafeFileIdentity_def
      isStatValueProvablyDifferent_def exact_same)

end
