(* ===== verification/SidecarRecord.thy ===== *)
theory SidecarRecord
  imports FileIdentity UnicodePath Errors
begin

text \<open>
  Lock records (\<open>src/sidecar-lock-reclaim.ts\<close>, its pure part) and lock policy
  (\<open>src/sidecar-lock-policy.ts\<close>). A record is the JSON text of the caller's payload followed by an
  ownership token: sixteen random bytes written as tabs and spaces. The random bytes, the JSON text and
  the clock are arguments. A payload is \<open>None\<close> for \<open>null\<close>. Delays are computed with exact rational arithmetic where the code uses doubles.
\<close>

definition MAX_LOCK_PAYLOAD_BYTES :: nat where
  "MAX_LOCK_PAYLOAD_BYTES = 1048576"

definition SIDECAR_LOCK_OWNERSHIP_TOKEN_BYTES :: nat where
  "SIDECAR_LOCK_OWNERSHIP_TOKEN_BYTES = 16"

abbreviation TAB :: jchar where "TAB \<equiv> 9"
abbreviation SPACE :: jchar where "SPACE \<equiv> 32"
abbreviation NEWLINE :: jchar where "NEWLINE \<equiv> 10"

definition SIDECAR_LOCK_OWNERSHIP_TOKEN_PREFIX :: jstr where
  "SIDECAR_LOCK_OWNERSHIP_TOKEN_PREFIX = replicate 8 TAB"

text \<open>The bits of a byte, highest first.\<close>

definition byteMarks :: "nat \<Rightarrow> jstr" where
  "byteMarks b = map (\<lambda>i. if odd (b div 2 ^ i) then TAB else SPACE) [7, 6, 5, 4, 3, 2, 1, 0]"

definition createSidecarLockOwnershipToken :: "nat list \<Rightarrow> jstr" where
  "createSidecarLockOwnershipToken randomBytes =
     SIDECAR_LOCK_OWNERSHIP_TOKEN_PREFIX @ concat (map byteMarks randomBytes)"

text \<open>The pattern is anchored at the end, so it can only match the last 138 characters.\<close>

definition TOKEN_LENGTH :: nat where
  "TOKEN_LENGTH = 136"

definition isTokenText :: "jstr \<Rightarrow> bool" where
  "isTokenText s \<longleftrightarrow>
     length s = TOKEN_LENGTH \<and> take 8 s = SIDECAR_LOCK_OWNERSHIP_TOKEN_PREFIX \<and>
     list_all (\<lambda>c. c = SPACE \<or> c = TAB) (drop 8 s)"

definition readSidecarLockOwnershipToken :: "jstr \<Rightarrow> jstr option" where
  "readSidecarLockOwnershipToken raw =
     (if length raw < TOKEN_LENGTH + 2 then None
      else let tail = drop (length raw - (TOKEN_LENGTH + 2)) raw; token = butlast (tl tail)
           in if hd tail = NEWLINE \<and> last tail = NEWLINE \<and> isTokenText token then Some token else None)"

definition serializeSidecarLockPayload :: "jstr \<Rightarrow> nat list \<Rightarrow> error + (jstr \<times> jstr)" where
  "serializeSidecarLockPayload json randomBytes =
     (let ownershipToken = createSidecarLockOwnershipToken randomBytes;
          raw = json @ [NEWLINE] @ ownershipToken @ [NEWLINE]
      in bindE (throwIf (utf8Length raw > MAX_LOCK_PAYLOAD_BYTES)
                  (throwFs Too_large ''sidecar lock payload exceeds limit''))
           (\<lambda>_. Inr (raw, ownershipToken)))"

definition isIncompleteSidecarLockRecord :: "jstr option \<Rightarrow> bool" where
  "isIncompleteSidecarLockRecord raw =
     (case raw of None \<Rightarrow> True | Some r \<Rightarrow> r = [] \<or> hasChar r 0)"

subsection \<open>Snapshots\<close>

record lock_stat =
  lsIsFile :: bool
  lsIsSymlink :: bool
  lsIdentity :: file_identity
  lsMtimeMs :: rat

record 'p lock_snapshot =
  snRaw :: "jstr option"
  snPayload :: "'p option"
  snStat :: "lock_stat option"
  snOwnershipToken :: "jstr option"

definition sidecarLockSnapshotMatches ::
    "platform \<Rightarrow> jstr \<times> lock_stat \<Rightarrow> 'p lock_snapshot \<Rightarrow> bool" where
  "sidecarLockSnapshotMatches p current observed =
     (case snOwnershipToken observed of
        Some token \<Rightarrow>
          lsIsFile (snd current) \<and> Some (fst current) = snRaw observed \<and>
          readSidecarLockOwnershipToken (fst current) = Some token
      | None \<Rightarrow>
          if (case snStat observed of
                Some stat \<Rightarrow> \<not> sameFileIdentityForCleanup p (lsIdentity stat) (lsIdentity (snd current))
              | None \<Rightarrow> False)
          then False
          else case snRaw observed of
                 Some raw \<Rightarrow> fst current = raw
               | None \<Rightarrow> snStat observed \<noteq> None)"

subsection \<open>Policy\<close>

record retry_options =
  roRetries :: "jsnum option"
  roFactor :: "jsnum option"
  roMinTimeout :: "jsnum option"
  roMaxTimeout :: "jsnum option"
  roRandomize :: bool

definition MAX_TIMER_DELAY_MS :: rat where
  "MAX_TIMER_DELAY_MS = 2147483647"

definition numValue :: "jsnum \<Rightarrow> rat" where
  "numValue v = (case v of Finite r \<Rightarrow> r | _ \<Rightarrow> 0)"

definition finiteNonNegative :: "jsnum option \<Rightarrow> bool" where
  "finiteNonNegative v = (case v of None \<Rightarrow> True | Some n \<Rightarrow> isFiniteNum n \<and> 0 \<le> numValue n)"

definition assertFiniteNonNegative :: "jsnum option \<Rightarrow> string \<Rightarrow> error + unit" where
  "assertFiniteNonNegative v label =
     throwIf (\<not> finiteNonNegative v) (RangeErr (label @ '' must be a finite non-negative number''))"

text \<open>\<open>r >= v\<close>, for a finite \<open>r\<close>.\<close>

definition reaches :: "rat \<Rightarrow> jsnum \<Rightarrow> bool" where
  "reaches r v = (case v of NaN \<Rightarrow> False | PosInfinity \<Rightarrow> False | NegInfinity \<Rightarrow> True | Finite x \<Rightarrow> r \<ge> x)"

definition exceeds :: "rat \<Rightarrow> jsnum \<Rightarrow> bool" where
  "exceeds r v = (case v of NaN \<Rightarrow> False | PosInfinity \<Rightarrow> False | NegInfinity \<Rightarrow> True | Finite x \<Rightarrow> r > x)"

definition validateSidecarLockRetryOptions :: "retry_options \<Rightarrow> error + unit" where
  "validateSidecarLockRetryOptions retry =
     bindE (throwIf (case roRetries retry of None \<Rightarrow> False | Some n \<Rightarrow> \<not> isSafeInteger n \<or> numValue n < 0)
              (RangeErr ''lock retry.retries must be a non-negative safe integer'')) (\<lambda>_.
     bindE (assertFiniteNonNegative (roFactor retry) ''lock retry.factor'') (\<lambda>_.
     bindE (assertFiniteNonNegative (roMinTimeout retry) ''lock retry.minTimeout'') (\<lambda>_.
     bindE (assertFiniteNonNegative (roMaxTimeout retry) ''lock retry.maxTimeout'') (\<lambda>_.
       throwIf (case (roMinTimeout retry, roMaxTimeout retry) of
                  (Some a, Some b) \<Rightarrow> numValue a > numValue b | _ \<Rightarrow> False)
         (RangeErr ''lock retry.minTimeout must not exceed retry.maxTimeout'')))))"

definition unboundedOr :: "(jsnum option \<Rightarrow> error + unit) \<Rightarrow> jsnum option \<Rightarrow> error + unit" where
  "unboundedOr check v = (if v = None \<or> v = Some PosInfinity then Inr () else check v)"

definition validateSidecarLockTimeoutMs :: "jsnum option \<Rightarrow> error + unit" where
  "validateSidecarLockTimeoutMs timeoutMs =
     unboundedOr (\<lambda>v. assertFiniteNonNegative v ''lock timeoutMs'') timeoutMs"

definition validateSidecarLockStaleMs :: "jsnum option \<Rightarrow> error + unit" where
  "validateSidecarLockStaleMs staleMs =
     unboundedOr (\<lambda>v. assertFiniteNonNegative v ''lock staleMs'') staleMs"

definition validateSidecarLockCompromiseCheckIntervalMs :: "jsnum option \<Rightarrow> error + unit" where
  "validateSidecarLockCompromiseCheckIntervalMs intervalMs =
     (if intervalMs = None \<or> intervalMs = Some (Finite 0) then Inr ()
      else throwIf (case intervalMs of
                      Some (Finite r) \<Rightarrow> r < 1 \<or> r > MAX_TIMER_DELAY_MS | _ \<Rightarrow> True)
             (RangeErr ''lock compromiseCheckIntervalMs must be 0 or a finite number between 1 and 2147483647''))"

definition valueOr :: "rat \<Rightarrow> jsnum option \<Rightarrow> rat" where
  "valueOr d v = (case v of None \<Rightarrow> d | Some n \<Rightarrow> numValue n)"

text \<open>\<open>Math.round\<close>.\<close>

definition roundHalfUp :: "rat \<Rightarrow> rat" where
  "roundHalfUp r = of_int \<lfloor>r + 1 / 2\<rfloor>"

text \<open>\<open>random\<close> is what \<open>Math.random\<close> answers.\<close>

definition computeSidecarLockDelayMs :: "rat \<Rightarrow> retry_options \<Rightarrow> nat \<Rightarrow> error + rat" where
  "computeSidecarLockDelayMs random retry attempt =
     bindE (validateSidecarLockRetryOptions retry) (\<lambda>_.
       let minTimeout = valueOr 50 (roMinTimeout retry);
           maxTimeout = valueOr 1000 (roMaxTimeout retry);
           factor = valueOr 1 (roFactor retry);
           scaled = (if minTimeout = 0 then 0 else minTimeout * factor ^ attempt);
           base = min maxTimeout (max minTimeout scaled);
           jitter = (if roRandomize retry then 1 + random else 1)
       in Inr (min maxTimeout (roundHalfUp (base * jitter))))"

text \<open>\<open>None\<close> is the exhausted deadline or retry count. A timeout of infinity is no deadline.\<close>

definition sidecarLockRetryDelay ::
    "rat \<Rightarrow> retry_options \<Rightarrow> jsnum option \<Rightarrow> rat \<Rightarrow> nat \<Rightarrow> error + jsnum option" where
  "sidecarLockRetryDelay random retry timeoutMs elapsed attempt =
     (if (case timeoutMs of Some t \<Rightarrow> reaches elapsed t | None \<Rightarrow> False) \<or>
         (case roRetries retry of Some n \<Rightarrow> reaches (of_nat attempt) n | None \<Rightarrow> False)
      then Inr None
      else bindE (computeSidecarLockDelayMs random retry attempt) (\<lambda>delay.
             Inr (Some (case timeoutMs of
                          Some (Finite t) \<Rightarrow> Finite (min delay (max 0 (t - elapsed)))
                        | Some NaN \<Rightarrow> NaN
                        | _ \<Rightarrow> Finite delay))))"

definition maxTransientLockDenials :: nat where
  "maxTransientLockDenials = 8"

definition isTransientLockFileDenial :: "platform \<Rightarrow> string \<Rightarrow> jstr option \<Rightarrow> jstr \<Rightarrow> bool" where
  "isTransientLockFileDenial p code denied lockPath \<longleftrightarrow> p = Win32 \<and> code = ''EPERM'' \<and> denied = Some lockPath"

text \<open>\<open>createdAt\<close> reads the creation time of a payload, when it has one that parses.\<close>

definition defaultSidecarLockShouldReclaim ::
    "('p \<Rightarrow> rat option) \<Rightarrow> 'p lock_snapshot \<Rightarrow> jsnum option \<Rightarrow> rat \<Rightarrow> bool" where
  "defaultSidecarLockShouldReclaim createdAt snapshot staleMs nowMs =
     (let older = (\<lambda>t. case staleMs of Some s \<Rightarrow> exceeds (nowMs - t) s | None \<Rightarrow> False)
      in case Option.bind (snPayload snapshot) createdAt of
           Some t \<Rightarrow> older t
         | None \<Rightarrow>
             (case snStat snapshot of None \<Rightarrow> True | Some stat \<Rightarrow> older (lsMtimeMs stat)))"

subsection \<open>Tokens read back\<close>

lemma byteMarks_length [simp]: "length (byteMarks b) = 8"
  by (simp add: byteMarks_def)

lemma byteMarks_set: "set (byteMarks b) \<subseteq> {SPACE, TAB}"
  by (auto simp: byteMarks_def)

lemma byteMarks_inject:
  assumes "b < 256" "c < 256" "byteMarks b = byteMarks c"
  shows "b = c"
proof -
  have m: "(if odd (b div 2 ^ i) then TAB else SPACE) = (if odd (c div 2 ^ i) then TAB else SPACE)"
    if "i \<in> set [7, 6, 5, 4, 3, 2, 1, 0 :: nat]" for i
    using assms(3) that unfolding byteMarks_def map_eq_conv by blast
  have bits: "bit b i = bit c i" if "i < 8" for i
  proof -
    have "i \<in> set [7, 6, 5, 4, 3, 2, 1, 0 :: nat]" using that by auto
    from m [OF this] show ?thesis by (simp add: bit_iff_odd split: if_splits)
  qed
  have "take_bit 8 b = take_bit 8 c"
    by (rule bit_eqI) (auto simp: bit_take_bit_iff bits)
  then show ?thesis using assms(1,2) by (simp add: take_bit_eq_mod)
qed

lemma marks_inject:
  "list_all (\<lambda>b. b < 256) xs \<Longrightarrow> list_all (\<lambda>b. b < 256) ys \<Longrightarrow> length xs = length ys \<Longrightarrow>
   concat (map byteMarks xs) = concat (map byteMarks ys) \<Longrightarrow> xs = ys"
  by (induction xs ys rule: list_induct2') (auto dest: byteMarks_inject)

lemma marks_length: "length (concat (map byteMarks xs)) = 8 * length xs"
  by (induction xs) simp_all

lemma marks_set: "set (concat (map byteMarks xs)) \<subseteq> {SPACE, TAB}"
  using byteMarks_set by fastforce

definition randomToken :: "nat list \<Rightarrow> bool" where
  "randomToken bytes \<longleftrightarrow> length bytes = SIDECAR_LOCK_OWNERSHIP_TOKEN_BYTES \<and> list_all (\<lambda>b. b < 256) bytes"

lemma token_length: "randomToken bytes \<Longrightarrow> length (createSidecarLockOwnershipToken bytes) = TOKEN_LENGTH"
  by (simp add: randomToken_def createSidecarLockOwnershipToken_def marks_length TOKEN_LENGTH_def
      SIDECAR_LOCK_OWNERSHIP_TOKEN_PREFIX_def SIDECAR_LOCK_OWNERSHIP_TOKEN_BYTES_def)

lemma token_text: "randomToken bytes \<Longrightarrow> isTokenText (createSidecarLockOwnershipToken bytes)"
  using token_length [of bytes] marks_set [of bytes]
  by (auto simp: isTokenText_def createSidecarLockOwnershipToken_def SIDECAR_LOCK_OWNERSHIP_TOKEN_PREFIX_def
      list_all_iff)

lemma token_inject:
  "randomToken a \<Longrightarrow> randomToken b \<Longrightarrow>
   createSidecarLockOwnershipToken a = createSidecarLockOwnershipToken b \<longleftrightarrow> a = b"
  by (auto simp: randomToken_def createSidecarLockOwnershipToken_def dest: marks_inject)

lemma token_read:
  assumes "isTokenText token"
  shows "readSidecarLockOwnershipToken (json @ [NEWLINE] @ token @ [NEWLINE]) = Some token"
proof -
  have "length token = TOKEN_LENGTH" using assms by (simp add: isTokenText_def)
  then show ?thesis using assms by (simp add: readSidecarLockOwnershipToken_def Let_def butlast_append)
qed

text \<open>A minted ownership token reads back from the record it was written into, different random
  bytes give different tokens, and nothing but JSON whitespace follows the payload's text.\<close>

theorem ownership_token_reads_back:
  assumes "serializeSidecarLockPayload json bytes = Inr (raw, token)" "randomToken bytes"
  shows "readSidecarLockOwnershipToken raw = Some token \<and>
    (\<exists>blank. raw = json @ blank \<and> set blank \<subseteq> {NEWLINE, SPACE, TAB}) \<and>
    {other. randomToken other \<and> createSidecarLockOwnershipToken other = token} = {bytes} \<and>
    utf8Length raw \<le> MAX_LOCK_PAYLOAD_BYTES"
proof -
  have s: "token = createSidecarLockOwnershipToken bytes" "raw = json @ [NEWLINE] @ token @ [NEWLINE]"
    "utf8Length raw \<le> MAX_LOCK_PAYLOAD_BYTES"
    using assms(1) by (auto simp: serializeSidecarLockPayload_def Let_def bindE_Inr_iff throwIf_Inr_iff)
  have "set token \<subseteq> {SPACE, TAB}"
    using marks_set [of bytes]
    by (auto simp: s(1) createSidecarLockOwnershipToken_def SIDECAR_LOCK_OWNERSHIP_TOKEN_PREFIX_def)
  then have "\<exists>blank. raw = json @ blank \<and> set blank \<subseteq> {NEWLINE, SPACE, TAB}"
    unfolding s(2) by (intro exI [of _ "[NEWLINE] @ token @ [NEWLINE]"]) auto
  moreover have "{other. randomToken other \<and> createSidecarLockOwnershipToken other = token} = {bytes}"
    using token_inject [of _ bytes] assms(2) unfolding s(1) by blast
  moreover have "readSidecarLockOwnershipToken raw = Some token"
    unfolding s(2) using token_read token_text [OF assms(2)] by (simp only: s(1))
  ultimately show ?thesis using s(3) by blast
qed

theorem ownership_token_reads_back_witness:
  "\<exists>raw token. serializeSidecarLockPayload (js ''{}'') [0..<16] = Inr (raw, token) \<and>
     readSidecarLockOwnershipToken raw = Some token"
proof -
  have r: "randomToken [0..<16]" by code_simp
  have "utf8Length (js ''{}'' @ [NEWLINE] @ createSidecarLockOwnershipToken [0..<16] @ [NEWLINE]) = 140" by code_simp
  then have s: "serializeSidecarLockPayload (js ''{}'') [0..<16] =
      Inr (js ''{}'' @ [NEWLINE] @ createSidecarLockOwnershipToken [0..<16] @ [NEWLINE],
           createSidecarLockOwnershipToken [0..<16])"
    unfolding serializeSidecarLockPayload_def Let_def by (simp add: MAX_LOCK_PAYLOAD_BYTES_def throwIf_def del: js_Cons)
  then show ?thesis using ownership_token_reads_back [OF s r] by blast
qed

subsection \<open>Delays\<close>

lemma delay_bounded:
  assumes "validateSidecarLockRetryOptions retry = Inr ()" "0 \<le> random"
    "computeSidecarLockDelayMs random retry attempt = Inr d"
  shows "0 \<le> d \<and> d \<le> valueOr 1000 (roMaxTimeout retry)"
proof -
  let ?min = "valueOr 50 (roMinTimeout retry)" and ?max = "valueOr 1000 (roMaxTimeout retry)"
  let ?f = "valueOr 1 (roFactor retry)"
  let ?base = "min ?max (max ?min (if ?min = 0 then 0 else ?min * ?f ^ attempt))"
  let ?j = "if roRandomize retry then 1 + random else 1"
  have nn: "0 \<le> ?min" "0 \<le> ?max" "0 \<le> ?f"
    using assms(1) unfolding validateSidecarLockRetryOptions_def bindE_Inr_iff assertFiniteNonNegative_def
      throwIf_Inr_iff
    by (auto simp: valueOr_def finiteNonNegative_def split: option.splits)
  have d: "d = min ?max (roundHalfUp (?base * ?j))"
    using assms(1,3) by (simp add: computeSidecarLockDelayMs_def Let_def)
  have "0 \<le> ?base * ?j" using nn assms(2) by (intro mult_nonneg_nonneg) auto
  then have "0 \<le> roundHalfUp (?base * ?j)" by (simp add: roundHalfUp_def)
  then show ?thesis using nn(2) unfolding d by simp
qed

text \<open>With options that validate, every wait between attempts is between zero and the maximum delay
  and ends by the deadline; there is a wait only while the deadline has not passed and attempts are
  left, and validation is the only error.\<close>

theorem retry_delay_bounded:
  assumes "validateSidecarLockRetryOptions retry = Inr ()" "validateSidecarLockTimeoutMs timeoutMs = Inr ()"
    "0 \<le> random"
  shows "case sidecarLockRetryDelay random retry timeoutMs elapsed attempt of
      Inl _ \<Rightarrow> False
    | Inr None \<Rightarrow> (\<exists>t. timeoutMs = Some (Finite t) \<and> t \<le> elapsed) \<or>
        (\<exists>n. roRetries retry = Some (Finite n) \<and> n \<le> of_nat attempt)
    | Inr (Some d) \<Rightarrow> (\<exists>ms. d = Finite ms \<and> 0 \<le> ms \<and> ms \<le> valueOr 1000 (roMaxTimeout retry) \<and>
        (case timeoutMs of Some (Finite t) \<Rightarrow> elapsed + ms \<le> t | _ \<Rightarrow> True) \<and>
        (case roRetries retry of Some (Finite n) \<Rightarrow> of_nat attempt < n | _ \<Rightarrow> True))"
proof -
  obtain d where d: "computeSidecarLockDelayMs random retry attempt = Inr d"
    using assms(1) by (simp add: computeSidecarLockDelayMs_def Let_def)
  note b = delay_bounded [OF assms(1,3) d]
  have u: "timeoutMs = None \<or> timeoutMs = Some PosInfinity \<or> (\<exists>t. timeoutMs = Some (Finite t))"
    using assms(2)
    by (auto simp: validateSidecarLockTimeoutMs_def unboundedOr_def assertFiniteNonNegative_def throwIf_Inr_iff
        finiteNonNegative_def isFiniteNum_def split: option.splits jsnum.splits if_splits)
  have v: "roRetries retry = None \<or> (\<exists>n. roRetries retry = Some (Finite n))"
    using assms(1) unfolding validateSidecarLockRetryOptions_def bindE_Inr_iff throwIf_Inr_iff
    by (auto simp: isSafeInteger_def split: option.splits jsnum.splits)
  show ?thesis
    unfolding sidecarLockRetryDelay_def d bindE.simps
    using u v b by (elim disjE exE; simp add: reaches_def not_le; linarith)
qed

theorem retry_delay_bounded_witness:
  "\<exists>ms. sidecarLockRetryDelay (1 / 2) \<lparr>roRetries = Some (Finite 3), roFactor = Some (Finite 2),
       roMinTimeout = Some (Finite 100), roMaxTimeout = None, roRandomize = True\<rparr>
       (Some (Finite 1000)) 900 1 = Inr (Some (Finite ms)) \<and> 0 \<le> ms \<and> ms \<le> 1000 \<and> 900 + ms \<le> 1000"
proof -
  let ?r = "\<lparr>roRetries = Some (Finite 3), roFactor = Some (Finite 2),
       roMinTimeout = Some (Finite 100), roMaxTimeout = None, roRandomize = True\<rparr>"
  have v: "validateSidecarLockRetryOptions ?r = Inr ()" by code_simp
  have t: "validateSidecarLockTimeoutMs (Some (Finite 1000)) = Inr ()" by code_simp
  have d: "sidecarLockRetryDelay (1 / 2) ?r (Some (Finite 1000)) 900 1 = Inr (Some (Finite 100))" by code_simp
  have m: "valueOr 1000 (roMaxTimeout ?r) = 1000" by (simp add: valueOr_def)
  have h: "(0 :: rat) \<le> 1 / 2" by simp
  show ?thesis
    using retry_delay_bounded [OF v t h, of 900 1]
    unfolding d m option.case sum.case jsnum.case by blast
qed

end
