(* ===== verification/SidecarWorld.thy ===== *)
theory SidecarWorld
  imports SidecarRecord
begin

text \<open>
  The world that the sidecar lock operations run in: the entry at the lock path, the inodes, the
  reclaim guard directory, and what this process knows of the lock. Other processes may change the file
  system before every system call; other tasks of this process, and the callbacks of the caller, may
  change everything whenever the code awaits or calls back. Both are functions of the number of the
  step, so a theorem over all of them covers every interleaving. A trace records the decisions.
\<close>

subsection \<open>State\<close>

record lock_inode =
  inText :: jstr
  inSize :: nat
  inStat :: lock_stat
  inIsDirectory :: bool
  inTarget :: "nat option"

text \<open>\<open>lfEntry\<close> is the inode the lock path names, \<open>lfGuard\<close> whether the guard path exists.\<close>

record lock_fs =
  lfEntry :: "nat option"
  lfInode :: "nat \<Rightarrow> lock_inode"
  lfGuard :: bool

text \<open>Whether this process holds the target, and whether this acquisition still has its admission token.\<close>

record lock_admission =
  laHeld :: bool
  laToken :: bool

datatype lock_error =
    Holder_changed
  | Lock_timeout
  | Lock_stale
  | Lock_io string "jstr option"
  | Lock_thrown error

definition errnoIs :: "string \<Rightarrow> lock_error \<Rightarrow> bool" where
  "errnoIs code e = (case e of Lock_io c _ \<Rightarrow> c = code | _ \<Rightarrow> False)"

text \<open>What \<open>shouldRemoveStaleLock\<close> and \<open>shouldReclaim\<close> are asked with.\<close>

record 'p stale_snapshot =
  ssRaw :: jstr
  ssPayload :: "'p option"

record 'p reclaim_question =
  rqPayload :: "'p option"
  rqStaleMs :: "jsnum option"
  rqNowMs :: rat

datatype recovery = Fail_closed | Remove_if_unchanged

datatype 'p lock_event =
    Reclaim_answered bool
  | Present_unchanged
  | Guard_taken
  | Removal_approved "'p stale_snapshot"
  | Removal_authorised
  | Lock_removed lock_inode
  | Guard_dropped

type_synonym 'p parser = "nat \<Rightarrow> jstr \<Rightarrow> error + 'p option"
type_synonym 'p reclaim_callback = "nat \<Rightarrow> 'p reclaim_question \<Rightarrow> error + bool"
type_synonym 'p removal_callback = "nat \<Rightarrow> 'p stale_snapshot \<Rightarrow> error + bool"

text \<open>The surroundings: others' interference, failures of system calls (a code and the path the error
  names), the option getters and callbacks of the caller, clocks, what reading a file while it changes gives, and \<open>JSON.parse\<close> as far as the text
  is an object.\<close>

record 'p lock_env =
  enPlatform :: platform
  enLockPath :: jstr
  enProcesses :: "nat \<Rightarrow> lock_fs \<Rightarrow> lock_fs"
  enTasks :: "nat \<Rightarrow> lock_fs \<times> lock_admission \<Rightarrow> lock_fs \<times> lock_admission"
  enFault :: "nat \<Rightarrow> (string \<times> jstr option) option"
  enParsePayload :: "nat \<Rightarrow> error + 'p parser option"
  enShouldReclaim :: "nat \<Rightarrow> error + 'p reclaim_callback option"
  enShouldRemove :: "nat \<Rightarrow> error + 'p removal_callback option"
  enStaleRecovery :: "nat \<Rightarrow> error + recovery option"
  enNowMs :: "nat \<Rightarrow> rat"
  enElapsed :: "nat \<Rightarrow> rat"
  enRandom :: "nat \<Rightarrow> rat"
  enTorn :: "nat \<Rightarrow> jstr \<Rightarrow> jstr \<Rightarrow> jstr"
  enJsonObject :: "jstr \<Rightarrow> 'p option"
  enCreatedAt :: "'p \<Rightarrow> rat option"

text \<open>The options of one acquisition that are plain values.\<close>

record lock_config =
  lcRetry :: retry_options
  lcTimeoutMs :: "jsnum option"
  lcStaleMs :: "jsnum option"

text \<open>\<open>lwReclaimGuard\<close> is the acquisition's guard, if it has one, with its \<open>released\<close> flag;
  \<open>lwGuards\<close> whether the guard path is in the process' set. The outer option of an observed option says
  whether its getter has run.\<close>

record 'p lock_world =
  lwFs :: lock_fs
  lwAdmission :: lock_admission
  lwStep :: nat
  lwAttempt :: nat
  lwDenials :: nat
  lwOpenDenied :: bool
  lwParser :: "'p parser option option"
  lwShouldReclaim :: "'p reclaim_callback option option"
  lwShouldRemove :: "'p removal_callback option option"
  lwStaleRecovery :: "recovery option option"
  lwReclaimGuard :: "bool option"
  lwGuards :: bool
  lwTrace :: "'p lock_event list"

type_synonym ('p, 'a) lock_op = "('p lock_world, lock_error, 'a) op"

subsection \<open>Steps\<close>

definition noteS :: "'p lock_event \<Rightarrow> ('p, unit) lock_op" where
  "noteS e = updateS (\<lambda>w. w\<lparr>lwTrace := lwTrace w @ [e]\<rparr>)"

text \<open>An \<open>await\<close>: other tasks run.\<close>

definition yieldS :: "'p lock_env \<Rightarrow> ('p, unit) lock_op" where
  "yieldS env = updateS (\<lambda>w. case enTasks env (lwStep w) (lwFs w, lwAdmission w) of
     (fs, adm) \<Rightarrow> w\<lparr>lwStep := Suc (lwStep w), lwFs := fs, lwAdmission := adm\<rparr>)"

text \<open>A system call: other processes run, and it may fail before it has any effect.\<close>

definition sysS :: "'p lock_env \<Rightarrow> (lock_fs \<Rightarrow> (lock_error + 'a) \<times> lock_fs) \<Rightarrow> ('p, 'a) lock_op" where
  "sysS env call = (\<lambda>w.
     let n = lwStep w; fs = enProcesses env n (lwFs w) in
     case enFault env n of
       Some (code, path) \<Rightarrow> (Inl (Lock_io code path), w\<lparr>lwStep := Suc n, lwFs := fs\<rparr>)
     | None \<Rightarrow> (case call fs of (r, fs') \<Rightarrow> (r, w\<lparr>lwStep := Suc n, lwFs := fs'\<rparr>)))"

definition awaitS :: "'p lock_env \<Rightarrow> (lock_fs \<Rightarrow> (lock_error + 'a) \<times> lock_fs) \<Rightarrow> ('p, 'a) lock_op" where
  "awaitS env call = bindS (yieldS env) (\<lambda>_. finallyS (sysS env call) (yieldS env))"

text \<open>Code of the caller: other tasks and the code itself change what they like, then it answers.\<close>

definition callbackS :: "'p lock_env \<Rightarrow> (nat \<Rightarrow> error + 'a) \<Rightarrow> ('p, 'a) lock_op" where
  "callbackS env answer = bindS (yieldS env) (\<lambda>_ w.
     (case answer (lwStep w) of Inl e \<Rightarrow> Inl (Lock_thrown e) | Inr x \<Rightarrow> Inr x, w))"

definition getS :: "('s \<Rightarrow> 'a) \<Rightarrow> ('s, 'e, 'a) op" where
  "getS f = (\<lambda>s. (Inr (f s), s))"

definition liftLock :: "error + 'a \<Rightarrow> ('p, 'a) lock_op" where
  "liftLock r = (case r of Inl e \<Rightarrow> throwS (Lock_thrown e) | Inr x \<Rightarrow> returnS x)"

subsection \<open>System calls on the lock path and the guard path\<close>

definition enoent :: lock_error where
  "enoent = Lock_io ''ENOENT'' None"

definition lstatCall :: "lock_fs \<Rightarrow> (lock_error + lock_stat) \<times> lock_fs" where
  "lstatCall fs = (case lfEntry fs of None \<Rightarrow> Inl enoent | Some i \<Rightarrow> Inr (inStat (lfInode fs i)), fs)"

text \<open>Opening for reading; only Windows, which has no \<open>O_NOFOLLOW\<close>, follows a link. A descriptor is
  the inode that was opened.\<close>

definition openCall :: "'p lock_env \<Rightarrow> lock_fs \<Rightarrow> (lock_error + nat) \<times> lock_fs" where
  "openCall env fs =
     (case lfEntry fs of
        None \<Rightarrow> Inl enoent
      | Some i \<Rightarrow>
          if lsIsSymlink (inStat (lfInode fs i))
          then if enPlatform env \<noteq> Win32 then Inl (Lock_io ''ELOOP'' (Some (enLockPath env)))
               else (case inTarget (lfInode fs i) of None \<Rightarrow> Inl enoent | Some j \<Rightarrow> Inr j)
          else Inr i, fs)"

definition fstatCall :: "nat \<Rightarrow> lock_fs \<Rightarrow> (lock_error + lock_stat) \<times> lock_fs" where
  "fstatCall i fs = (Inr (inStat (lfInode fs i)), fs)"

definition readCall :: "nat \<Rightarrow> lock_fs \<Rightarrow> (lock_error + jstr) \<times> lock_fs" where
  "readCall i fs =
     (if inSize (lfInode fs i) > MAX_LOCK_PAYLOAD_BYTES
      then Inl (Lock_thrown (throwFs Too_large ''file exceeds limit''))
      else Inr (inText (lfInode fs i)), fs)"

definition rmCall :: "lock_fs \<Rightarrow> (lock_error + lock_inode) \<times> lock_fs" where
  "rmCall fs =
     (case lfEntry fs of
        None \<Rightarrow> (Inl enoent, fs)
      | Some i \<Rightarrow>
          if inIsDirectory (lfInode fs i) then (Inl (Lock_io ''ERR_FS_EISDIR'' None), fs)
          else (Inr (lfInode fs i), fs\<lparr>lfEntry := None\<rparr>))"

definition mkdirCall :: "lock_fs \<Rightarrow> (lock_error + unit) \<times> lock_fs" where
  "mkdirCall fs =
     (if lfGuard fs then (Inl (Lock_io ''EEXIST'' None), fs) else (Inr (), fs\<lparr>lfGuard := True\<rparr>))"

definition rmdirCall :: "lock_fs \<Rightarrow> (lock_error + unit) \<times> lock_fs" where
  "rmdirCall fs = (if lfGuard fs then (Inr (), fs\<lparr>lfGuard := False\<rparr>) else (Inl enoent, fs))"

end
