(* ===== verification/SidecarReclaim.thy ===== *)
theory SidecarReclaim
  imports SidecarWorld
begin

text \<open>
  Reading a lock, taking the reclaim guard and removing a stale lock
  (\<open>src/sidecar-lock-reclaim.ts\<close>), and one attempt on a lock file that exists
  (\<open>src/sidecar-lock-stale-admission.ts\<close>) with the waiting and guard closures of
  \<open>src/sidecar-lock-acquire.ts\<close> it is given. The branch without \<open>lockRoot\<close> is modelled; with one,
  the file system is reached through a \<open>Root\<close>.
\<close>

subsection \<open>Snapshots of the lock file\<close>

definition lstatSidecarLockSync :: "'p lock_env \<Rightarrow> ('p, lock_stat option) lock_op" where
  "lstatSidecarLockSync env =
     tryS (sysS env lstatCall)
       (\<lambda>e. if errnoIs ''ENOENT'' e then returnS None else throwS e)
       (\<lambda>stat. returnS (Some stat))"

definition notFile :: "bool \<Rightarrow> ('p, 'a option) lock_op" where
  "notFile rejectNonFile =
     (if rejectNonFile then throwS (Lock_thrown (throwFs Not_file ''sidecar lock is not a regular file''))
      else returnS None)"

definition openLockFile ::
    "'p lock_env \<Rightarrow> bool \<Rightarrow> (lock_error \<Rightarrow> ('p, unit) lock_op) \<Rightarrow> ('p, nat option) lock_op" where
  "openLockFile env rejectNonFile onOpenFailure =
     tryS (awaitS env (openCall env))
       (\<lambda>e. if errnoIs ''ENOENT'' e then returnS None
            else if rejectNonFile \<and> errnoIs ''ELOOP'' e then notFile True
            else bindS (onOpenFailure e) (\<lambda>_. throwS e))
       (\<lambda>i. returnS (Some i))"

text \<open>A read takes several calls; of a file that changes meanwhile it may give anything.\<close>

definition readLockText :: "'p lock_env \<Rightarrow> nat \<Rightarrow> ('p, jstr) lock_op" where
  "readLockText env i =
     bindS (awaitS env (readCall i)) (\<lambda>first.
     bindS (awaitS env (readCall i)) (\<lambda>second.
     bindS (getS lwStep) (\<lambda>n.
       returnS (if first = second then first else enTorn env n first second))))"

definition sameStat :: "'p lock_env \<Rightarrow> lock_stat \<Rightarrow> lock_stat \<Rightarrow> bool" where
  "sameStat env a b = sameFileIdentity (enPlatform env) (Identity_stat (lsIdentity a)) (Identity_stat (lsIdentity b))"

definition readOpenedLock ::
    "'p lock_env \<Rightarrow> bool \<Rightarrow> bool \<Rightarrow> lock_stat \<Rightarrow> nat \<Rightarrow> ('p, (jstr \<times> lock_stat) option) lock_op" where
  "readOpenedLock env rejectNonFile allowDrift before i =
     bindS (sysS env (fstatCall i)) (\<lambda>opened.
       if \<not> lsIsFile opened then notFile rejectNonFile
       else if \<not> allowDrift \<and> \<not> sameStat env before opened then returnS None
       else bindS (readLockText env i) (\<lambda>raw.
            bindS (lstatSidecarLockSync env) (\<lambda>after.
              case after of
                None \<Rightarrow> returnS None
              | Some a \<Rightarrow>
                  if \<not> lsIsFile a \<or> \<not> sameStat env before a then returnS None else returnS (Some (raw, a)))))"

definition readSidecarLockRawSnapshot ::
    "'p lock_env \<Rightarrow> bool \<Rightarrow> bool \<Rightarrow> (lock_error \<Rightarrow> ('p, unit) lock_op) \<Rightarrow>
     ('p, (jstr \<times> lock_stat) option) lock_op" where
  "readSidecarLockRawSnapshot env rejectNonFile allowDrift onOpenFailure =
     finallyS
       (bindS (lstatSidecarLockSync env) (\<lambda>seen.
          case seen of
            None \<Rightarrow> returnS None
          | Some before \<Rightarrow>
              if \<not> lsIsFile before \<or> lsIsSymlink before then notFile rejectNonFile
              else bindS (yieldS env) (\<lambda>_.
                   bindS (openLockFile env rejectNonFile onOpenFailure) (\<lambda>opened.
                     case opened of
                       None \<Rightarrow> returnS None
                     | Some i \<Rightarrow> readOpenedLock env rejectNonFile allowDrift before i))))
       (yieldS env)"

text \<open>A parser of payloads is an operation: the caller's may change the world.\<close>

definition parseSidecarLockPayload ::
    "'p lock_env \<Rightarrow> (jstr \<Rightarrow> ('p, 'p option) lock_op) option \<Rightarrow> jstr \<Rightarrow> ('p, 'p option) lock_op" where
  "parseSidecarLockPayload env parser raw =
     (if isIncompleteSidecarLockRecord (Some raw) then returnS None
      else case parser of Some f \<Rightarrow> f raw | None \<Rightarrow> returnS (enJsonObject env raw))"

definition parseSidecarLockSnapshot ::
    "'p lock_env \<Rightarrow> (jstr \<Rightarrow> ('p, 'p option) lock_op) option \<Rightarrow> (jstr \<times> lock_stat) option \<Rightarrow>
     ('p, 'p lock_snapshot option) lock_op" where
  "parseSidecarLockSnapshot env parser snapshot =
     (case snapshot of
        None \<Rightarrow> returnS None
      | Some (raw, stat) \<Rightarrow>
          bindS (parseSidecarLockPayload env parser raw) (\<lambda>payload.
            returnS (Some \<lparr>snRaw = Some raw, snPayload = payload, snStat = Some stat, snOwnershipToken = None\<rparr>)))"

text \<open>A custom parser keeps its effects although ownership only compares bytes and identity.\<close>

definition readSidecarLockComparisonSnapshot ::
    "'p lock_env \<Rightarrow> bool \<Rightarrow> (jstr \<Rightarrow> ('p, 'p option) lock_op) option \<Rightarrow>
     ('p, (jstr \<times> lock_stat) option) lock_op" where
  "readSidecarLockComparisonSnapshot env allowDrift parser =
     bindS (readSidecarLockRawSnapshot env False allowDrift (\<lambda>_. returnS ())) (\<lambda>snapshot.
       case parser of
         None \<Rightarrow> returnS snapshot
       | Some _ \<Rightarrow> bindS (parseSidecarLockSnapshot env parser snapshot) (\<lambda>_. returnS snapshot))"

definition sidecarLockSnapshotStillPresent ::
    "'p lock_env \<Rightarrow> (jstr \<Rightarrow> ('p, 'p option) lock_op) option \<Rightarrow> 'p lock_snapshot \<Rightarrow> ('p, bool) lock_op" where
  "sidecarLockSnapshotStillPresent env parser observed =
     bindS (readSidecarLockComparisonSnapshot env (snOwnershipToken observed \<noteq> None) parser) (\<lambda>current.
       let present = (case current of None \<Rightarrow> False
                      | Some c \<Rightarrow> sidecarLockSnapshotMatches (enPlatform env) c observed)
       in bindS (if present then noteS Present_unchanged else returnS ()) (\<lambda>_. returnS present))"

subsection \<open>The reclaim guard\<close>

definition tryAcquireSidecarReclaimGuard :: "'p lock_env \<Rightarrow> ('p, bool) lock_op" where
  "tryAcquireSidecarReclaimGuard env =
     tryS (awaitS env mkdirCall)
       (\<lambda>e. if errnoIs ''EEXIST'' e then returnS False else throwS e)
       (\<lambda>_. bindS (noteS Guard_taken) (\<lambda>_.
             bindS (updateS (\<lambda>w. w\<lparr>lwGuards := True\<rparr>)) (\<lambda>_. returnS True)))"

definition releaseGuard :: "'p lock_env \<Rightarrow> ('p, unit) lock_op" where
  "releaseGuard env =
     bindS (getS lwReclaimGuard) (\<lambda>g.
       if g = Some True then returnS ()
       else bindS (awaitS env rmdirCall) (\<lambda>_.
            bindS (noteS Guard_dropped) (\<lambda>_.
              updateS (\<lambda>w. w\<lparr>lwGuards := False, lwReclaimGuard := Some True\<rparr>))))"

definition releaseReclaimGuard :: "'p lock_env \<Rightarrow> ('p, unit) lock_op" where
  "releaseReclaimGuard env =
     bindS (getS lwReclaimGuard) (\<lambda>g.
       if g = None then returnS ()
       else bindS (releaseGuard env) (\<lambda>_.
            bindS (yieldS env) (\<lambda>_. updateS (\<lambda>w. w\<lparr>lwReclaimGuard := None\<rparr>))))"

subsection \<open>Removal of a stale lock\<close>

datatype removal = Removed | Changed | Not_approved

text \<open>The part after the approval.\<close>

definition removeApproved ::
    "'p lock_env \<Rightarrow> 'p lock_snapshot \<Rightarrow> (jstr \<Rightarrow> ('p, 'p option) lock_op) option \<Rightarrow> ('p, unit) lock_op \<Rightarrow>
     ('p, removal) lock_op" where
  "removeApproved env snapshot parsePayload assertAuthorized =
     bindS assertAuthorized (\<lambda>_.
     bindS (sidecarLockSnapshotStillPresent env parsePayload snapshot) (\<lambda>presentBeforeRemoval.
     bindS assertAuthorized (\<lambda>_.
       if \<not> presentBeforeRemoval then returnS Changed
       else bindS assertAuthorized (\<lambda>_.
            bindS (noteS Removal_authorised) (\<lambda>_.
              tryS (awaitS env rmCall)
                (\<lambda>e. if errnoIs ''ENOENT'' e then returnS Changed else throwS e)
                (\<lambda>inode. bindS (noteS (Lock_removed inode)) (\<lambda>_. returnS Removed)))))))"

definition removeStaleSidecarLockIfAllowed ::
    "'p lock_env \<Rightarrow> 'p lock_snapshot \<Rightarrow> ('p stale_snapshot \<Rightarrow> ('p, bool) lock_op) option \<Rightarrow>
     (jstr \<Rightarrow> ('p, 'p option) lock_op) option \<Rightarrow> ('p, unit) lock_op \<Rightarrow> ('p, removal) lock_op" where
  "removeStaleSidecarLockIfAllowed env snapshot shouldRemoveStaleLock parsePayload assertAuthorized =
     (case (shouldRemoveStaleLock, snRaw snapshot) of
        (Some shouldRemove, Some raw) \<Rightarrow>
          bindS assertAuthorized (\<lambda>_.
          bindS (sidecarLockSnapshotStillPresent env parsePayload snapshot) (\<lambda>presentBeforeApproval.
          bindS assertAuthorized (\<lambda>_.
            if \<not> presentBeforeApproval then returnS Changed
            else bindS (shouldRemove \<lparr>ssRaw = raw, ssPayload = snPayload snapshot\<rparr>) (\<lambda>approved.
              if \<not> approved then returnS Not_approved
              else bindS (noteS (Removal_approved \<lparr>ssRaw = raw, ssPayload = snPayload snapshot\<rparr>)) (\<lambda>_.
                     removeApproved env snapshot parsePayload assertAuthorized)))))
      | _ \<Rightarrow> returnS Not_approved)"

subsection \<open>Waiting\<close>

definition waitForRetry :: "'p lock_env \<Rightarrow> lock_config \<Rightarrow> ('p, unit) lock_op" where
  "waitForRetry env cfg =
     bindS (updateS (\<lambda>w. w\<lparr>lwAdmission := (lwAdmission w)\<lparr>laToken := False\<rparr>\<rparr>)) (\<lambda>_.
     bindS (getS lwStep) (\<lambda>n.
     bindS (getS lwAttempt) (\<lambda>attempt.
     bindS (liftLock (sidecarLockRetryDelay (enRandom env n) (lcRetry cfg)
              (if lcTimeoutMs cfg = Some PosInfinity then None else lcTimeoutMs cfg) (enElapsed env n) attempt)) (\<lambda>delay.
       case delay of
         None \<Rightarrow> throwS Lock_timeout
       | Some _ \<Rightarrow> bindS (updateS (\<lambda>w. w\<lparr>lwAttempt := attempt + 1\<rparr>)) (\<lambda>_. yieldS env)))))"

text \<open>A denial is reported as itself when no wait is left.\<close>

definition retryOrRethrowDenial :: "'p lock_env \<Rightarrow> lock_config \<Rightarrow> lock_error \<Rightarrow> ('p, unit) lock_op" where
  "retryOrRethrowDenial env cfg denial =
     tryS (waitForRetry env cfg)
       (\<lambda>waitError. throwS (if waitError = Lock_timeout then denial else waitError)) returnS"

definition withinDenialBudget :: "('p, bool) lock_op" where
  "withinDenialBudget =
     bindS (updateS (\<lambda>w. w\<lparr>lwDenials := lwDenials w + 1\<rparr>)) (\<lambda>_.
     bindS (getS lwDenials) (\<lambda>n. returnS (n \<le> maxTransientLockDenials)))"

subsection \<open>One attempt on an existing lock\<close>

definition assertAdmissionToken :: "('p, unit) lock_op" where
  "assertAdmissionToken = throwWhen (\<lambda>w. \<not> laToken (lwAdmission w)) Lock_timeout"

definition currentHeld :: "('p, bool) lock_op" where
  "currentHeld = getS (\<lambda>w. laHeld (lwAdmission w))"

definition assertUnheld :: "('p, unit) lock_op" where
  "assertUnheld = bindS assertAdmissionToken (\<lambda>_. throwWhen (\<lambda>w. laHeld (lwAdmission w)) Holder_changed)"

definition retryHolderChange :: "'p lock_env \<Rightarrow> lock_config \<Rightarrow> lock_error \<Rightarrow> ('p, bool) lock_op" where
  "retryHolderChange env cfg e =
     (if e \<noteq> Holder_changed then returnS False
      else bindS (waitForRetry env cfg) (\<lambda>_. returnS True))"

definition retryChangedBoundary :: "'p lock_env \<Rightarrow> lock_config \<Rightarrow> ('p, bool) lock_op" where
  "retryChangedBoundary env cfg =
     tryS assertUnheld
       (\<lambda>e. bindS (retryHolderChange env cfg e) (\<lambda>retried. if retried then returnS True else throwS e))
       (\<lambda>_. returnS False)"

text \<open>The \<open>catch\<close> that the callbacks share: a changed holder is waited for, anything else is thrown.\<close>

definition retryOrThrow :: "'p lock_env \<Rightarrow> lock_config \<Rightarrow> lock_error \<Rightarrow> ('p, unit) lock_op" where
  "retryOrThrow env cfg e =
     bindS (retryHolderChange env cfg e) (\<lambda>retried.
       if retried then returnS ()
       else bindS (retryChangedBoundary env cfg) (\<lambda>changed. if changed then returnS () else throwS e))"

text \<open>A getter or callback of the caller between two checks that the lock is unheld.\<close>

definition guardedCallback :: "'p lock_env \<Rightarrow> (nat \<Rightarrow> error + 'a) \<Rightarrow> ('p, 'a) lock_op" where
  "guardedCallback env answer =
     bindS assertUnheld (\<lambda>_. finallyS (callbackS env answer) assertUnheld)"

definition observeSidecarLockParser :: "'p lock_env \<Rightarrow> ('p, unit) lock_op" where
  "observeSidecarLockParser env =
     bindS assertUnheld (\<lambda>_.
     bindS (getS lwParser) (\<lambda>state.
       if state \<noteq> None then returnS ()
       else bindS (finallyS (callbackS env (enParsePayload env)) assertUnheld) (\<lambda>parser.
              updateS (\<lambda>w. w\<lparr>lwParser := Some parser\<rparr>))))"

definition scopedSidecarLockParser ::
    "'p lock_env \<Rightarrow> 'p parser option \<Rightarrow> (jstr \<Rightarrow> ('p, 'p option) lock_op) option" where
  "scopedSidecarLockParser env parser =
     map_option (\<lambda>f raw. guardedCallback env (\<lambda>n. f n raw)) parser"

text \<open>An option getter that runs once in the acquisition.\<close>

definition observeOnce ::
    "('p lock_world \<Rightarrow> 'a option option) \<Rightarrow> ('a option \<Rightarrow> 'p lock_world \<Rightarrow> 'p lock_world) \<Rightarrow>
     'p lock_env \<Rightarrow> (nat \<Rightarrow> error + 'a option) \<Rightarrow> ('p, unit) lock_op" where
  "observeOnce seen store env accessor =
     bindS (getS seen) (\<lambda>state.
       if state \<noteq> None then returnS ()
       else bindS assertUnheld (\<lambda>_.
            bindS (callbackS env accessor) (\<lambda>v.
            bindS (updateS (store v)) (\<lambda>_. assertUnheld))))"

definition observeStaleOptions :: "'p lock_env \<Rightarrow> ('p, unit) lock_op" where
  "observeStaleOptions env =
     bindS (observeOnce lwShouldReclaim (\<lambda>v w. w\<lparr>lwShouldReclaim := Some v\<rparr>) env (enShouldReclaim env)) (\<lambda>_.
     bindS (observeOnce lwShouldRemove (\<lambda>v w. w\<lparr>lwShouldRemove := Some v\<rparr>) env (enShouldRemove env)) (\<lambda>_.
       observeOnce lwStaleRecovery (\<lambda>v w. w\<lparr>lwStaleRecovery := Some v\<rparr>) env (enStaleRecovery env)))"

definition observed :: "'a option option \<Rightarrow> 'a option" where
  "observed v = (case v of None \<Rightarrow> None | Some x \<Rightarrow> x)"

definition askReclaim :: "'p lock_env \<Rightarrow> lock_config \<Rightarrow> 'p lock_snapshot \<Rightarrow> ('p, bool) lock_op" where
  "askReclaim env cfg snapshot =
     bindS (getS (observed \<circ> lwShouldReclaim)) (\<lambda>shouldReclaim.
     bindS assertUnheld (\<lambda>_.
     bindS (finallyS
              (case shouldReclaim of
                 None \<Rightarrow> bindS (getS lwStep) (\<lambda>n.
                   returnS (defaultSidecarLockShouldReclaim (enCreatedAt env) snapshot (lcStaleMs cfg) (enNowMs env n)))
               | Some f \<Rightarrow> bindS (callbackS env (\<lambda>n. f n
                   \<lparr>rqPayload = snPayload snapshot, rqStaleMs = lcStaleMs cfg, rqNowMs = enNowMs env n\<rparr>))
                   (\<lambda>answer. bindS (yieldS env) (\<lambda>_. returnS answer)))
              assertUnheld) (\<lambda>answer.
     bindS (yieldS env) (\<lambda>_.
     bindS (noteS (Reclaim_answered answer)) (\<lambda>_.
     bindS assertUnheld (\<lambda>_. returnS answer))))))"

definition askRemoval ::
    "'p lock_env \<Rightarrow> 'p removal_callback \<Rightarrow> 'p stale_snapshot \<Rightarrow> ('p, bool) lock_op" where
  "askRemoval env shouldRemove staleSnapshot =
     bindS assertUnheld (\<lambda>_.
     bindS (finallyS
              (bindS (callbackS env (\<lambda>n. shouldRemove n staleSnapshot)) (\<lambda>answer.
                 bindS (yieldS env) (\<lambda>_. returnS answer)))
              assertUnheld) (\<lambda>answer.
     bindS (yieldS env) (\<lambda>_. returnS answer)))"

definition releaseAndWait :: "'p lock_env \<Rightarrow> lock_config \<Rightarrow> ('p, unit) lock_op" where
  "releaseAndWait env cfg = bindS (releaseReclaimGuard env) (\<lambda>_. waitForRetry env cfg)"

text \<open>A removal that threw: the error is the attempt's unless the holder changed.\<close>

definition afterFailedRemoval :: "'p lock_env \<Rightarrow> lock_config \<Rightarrow> lock_error \<Rightarrow> ('p, unit) lock_op" where
  "afterFailedRemoval env cfg e =
     bindS (if e = Holder_changed then returnS ()
            else bindS (tryS assertUnheld
                          (\<lambda>b. if b \<noteq> Holder_changed then throwS b else returnS ()) returnS) (\<lambda>_.
                 bindS currentHeld (\<lambda>held. if \<not> held then throwS e else returnS ()))) (\<lambda>_.
       releaseAndWait env cfg)"

definition afterRemoval :: "'p lock_env \<Rightarrow> lock_config \<Rightarrow> removal \<Rightarrow> ('p, unit) lock_op" where
  "afterRemoval env cfg removal =
     bindS assertAdmissionToken (\<lambda>_.
     bindS currentHeld (\<lambda>held.
       if held then releaseAndWait env cfg
       else case removal of
              Removed \<Rightarrow> returnS ()
            | Changed \<Rightarrow> waitForRetry env cfg
            | Not_approved \<Rightarrow> bindS (releaseReclaimGuard env) (\<lambda>_. throwS Lock_stale)))"

definition removeUnderGuard ::
    "'p lock_env \<Rightarrow> lock_config \<Rightarrow> 'p parser option \<Rightarrow> 'p lock_snapshot \<Rightarrow> ('p, unit) lock_op" where
  "removeUnderGuard env cfg parser snapshot =
     bindS (getS (observed \<circ> lwShouldRemove)) (\<lambda>shouldRemove.
       tryS (removeStaleSidecarLockIfAllowed env snapshot (map_option (askRemoval env) shouldRemove)
               (scopedSidecarLockParser env parser) assertUnheld)
         (afterFailedRemoval env cfg) (afterRemoval env cfg))"

definition recoverStale ::
    "'p lock_env \<Rightarrow> lock_config \<Rightarrow> 'p parser option \<Rightarrow> 'p lock_snapshot \<Rightarrow> ('p, unit) lock_op" where
  "recoverStale env cfg parser snapshot =
     bindS (tryAcquireSidecarReclaimGuard env) (\<lambda>acquired.
     bindS (if acquired then updateS (\<lambda>w. w\<lparr>lwReclaimGuard := Some False\<rparr>) else returnS ()) (\<lambda>_.
     bindS assertAdmissionToken (\<lambda>_.
     bindS currentHeld (\<lambda>held.
       if held then (if acquired then releaseAndWait env cfg else waitForRetry env cfg)
       else if \<not> acquired then waitForRetry env cfg
       else removeUnderGuard env cfg parser snapshot))))"

definition reclaimStale ::
    "'p lock_env \<Rightarrow> lock_config \<Rightarrow> 'p parser option \<Rightarrow> 'p lock_snapshot \<Rightarrow> ('p, unit) lock_op" where
  "reclaimStale env cfg parser snapshot =
     tryS (askReclaim env cfg snapshot) (retryOrThrow env cfg) (\<lambda>reclaim.
       if \<not> reclaim then waitForRetry env cfg
       else tryS (bindS (sidecarLockSnapshotStillPresent env (scopedSidecarLockParser env parser) snapshot) (\<lambda>present.
                    bindS assertUnheld (\<lambda>_. returnS present)))
              (retryOrThrow env cfg) (\<lambda>stillPresent.
              if \<not> stillPresent then waitForRetry env cfg
              else bindS (getS (observed \<circ> lwStaleRecovery)) (\<lambda>recovery.
                     if recovery = Some Remove_if_unchanged then recoverStale env cfg parser snapshot
                     else throwS Lock_stale)))"

text \<open>An incomplete owner can still be writing; age is no evidence about it.\<close>

definition unusableSnapshot :: "'p parser option \<Rightarrow> 'p lock_snapshot option \<Rightarrow> bool" where
  "unusableSnapshot parser snapshot =
     (case snapshot of
        None \<Rightarrow> True
      | Some s \<Rightarrow> (parser = None \<and> snPayload s = None) \<or> isIncompleteSidecarLockRecord (snRaw s))"

definition considerSnapshot ::
    "'p lock_env \<Rightarrow> lock_config \<Rightarrow> (jstr \<times> lock_stat) option \<Rightarrow> ('p, unit) lock_op" where
  "considerSnapshot env cfg rawSnapshot =
     tryS (bindS (observeSidecarLockParser env) (\<lambda>_.
           bindS (getS (observed \<circ> lwParser)) (\<lambda>parser.
           bindS (parseSidecarLockSnapshot env (scopedSidecarLockParser env parser) rawSnapshot) (\<lambda>snapshot.
           bindS assertUnheld (\<lambda>_. returnS (parser, snapshot))))))
       (retryOrThrow env cfg)
       (\<lambda>(parser, snapshot).
          if unusableSnapshot parser snapshot then waitForRetry env cfg
          else tryS (observeStaleOptions env) (retryOrThrow env cfg) (\<lambda>_.
                 reclaimStale env cfg parser (the snapshot)))"

definition deniedOpen :: "'p lock_env \<Rightarrow> lock_error \<Rightarrow> bool" where
  "deniedOpen env e =
     (case e of Lock_io code path \<Rightarrow> isTransientLockFileDenial (enPlatform env) code path (enLockPath env)
      | _ \<Rightarrow> False)"

definition handleStaleSidecarAdmission :: "'p lock_env \<Rightarrow> lock_config \<Rightarrow> ('p, unit) lock_op" where
  "handleStaleSidecarAdmission env cfg =
     tryS (bindS (updateS (\<lambda>w. w\<lparr>lwOpenDenied := False\<rparr>)) (\<lambda>_.
             readSidecarLockRawSnapshot env True False (\<lambda>e. updateS (\<lambda>w. w\<lparr>lwOpenDenied := deniedOpen env e\<rparr>))))
       (\<lambda>e. bindS (retryChangedBoundary env cfg) (\<lambda>changed.
              if changed then returnS ()
              else bindS (getS lwOpenDenied) (\<lambda>denied.
                   bindS (if denied then withinDenialBudget else returnS False) (\<lambda>retry.
                     if retry then retryOrRethrowDenial env cfg e else throwS e))))
       (\<lambda>rawSnapshot.
          bindS assertAdmissionToken (\<lambda>_.
          bindS currentHeld (\<lambda>held.
            if held then waitForRetry env cfg else considerSnapshot env cfg rawSnapshot)))"

end
