(* ===== verification/SidecarSafety.thy ===== *)
theory SidecarSafety
  imports SidecarReclaim
begin

text \<open>
  What every interleaving of a stale-lock attempt guarantees. An assertion is \<open>ambient\<close> when neither
  other processes, other tasks nor the bookkeeping of waiting can invalidate it; the operations that only
  read keep every such assertion.
\<close>

definition readsOnly :: "(lock_fs \<Rightarrow> 'r \<times> lock_fs) \<Rightarrow> bool" where
  "readsOnly call \<longleftrightarrow> (\<forall>fs. snd (call fs) = fs)"

lemma reads: "readsOnly lstatCall" "readsOnly (openCall e)" "readsOnly (fstatCall i)" "readsOnly (readCall i)"
  by (auto simp: readsOnly_def lstatCall_def openCall_def fstatCall_def readCall_def split: option.splits)

locale ambient =
  fixes env :: "'p lock_env" and I :: "'p lock_world \<Rightarrow> bool"
  assumes tasks: "I w \<Longrightarrow> enTasks env n (lwFs w, lwAdmission w) = (fs, adm) \<Longrightarrow>
      I (w\<lparr>lwStep := k, lwFs := fs, lwAdmission := adm\<rparr>)"
    and processes: "I w \<Longrightarrow> I (w\<lparr>lwStep := k, lwFs := enProcesses env n (lwFs w)\<rparr>)"
    and admission: "I w \<Longrightarrow> I (w\<lparr>lwAdmission := a\<rparr>)"
    and counters: "I w \<Longrightarrow> I (w\<lparr>lwAttempt := j\<rparr>)" "I w \<Longrightarrow> I (w\<lparr>lwDenials := j\<rparr>)"
    and denial: "I w \<Longrightarrow> I (w\<lparr>lwOpenDenied := b\<rparr>)"
begin

lemma yield_keeps [keeping, intro]: "keeps I (yieldS env)"
  unfolding yieldS_def by (rule keeps_update) (auto intro: tasks split: prod.splits)

lemma sys_keeps [keeping, intro]: "readsOnly call \<Longrightarrow> keeps I (sysS env call)"
  using processes
  by (auto simp: keeps_def triple_def sysS_def Let_def readsOnly_def split: option.splits prod.splits sum.splits)
    (metis snd_conv)+

lemma await_keeps [keeping, intro]: "readsOnly call \<Longrightarrow> keeps I (awaitS env call)"
  unfolding awaitS_def by (intro keeping)

lemma callback_keeps [keeping, intro]: "keeps I (callbackS env answer)"
  unfolding callbackS_def
  by (rule keeps_bind [OF yield_keeps]) (auto simp: keeps_def triple_def split: sum.splits)

lemma get_keeps [keeping, intro]: "keeps I (getS f)"
  by (simp add: keeps_def triple_def getS_def)

lemma liftLock_keeps [keeping, intro]: "keeps I (liftLock r)"
  by (cases r) (auto simp: liftLock_def)

lemma notFile_keeps [keeping, intro]: "keeps I (notFile b)"
  by (auto simp: notFile_def)

lemma lstat_keeps [keeping, intro]: "keeps I (lstatSidecarLockSync env)"
  unfolding lstatSidecarLockSync_def by (intro keeping reads)

lemma open_keeps: "(\<And>e. keeps I (h e)) \<Longrightarrow> keeps I (openLockFile env b h)"
  unfolding openLockFile_def by (intro keeping reads)

lemma readText_keeps [keeping, intro]: "keeps I (readLockText env i)"
  unfolding readLockText_def by (intro keeping reads)

lemma readOpened_keeps [keeping, intro]: "keeps I (readOpenedLock env b d before i)"
  unfolding readOpenedLock_def by (intro keeping reads)

lemma readRaw_keeps: "(\<And>e. keeps I (h e)) \<Longrightarrow> keeps I (readSidecarLockRawSnapshot env b d h)"
  unfolding readSidecarLockRawSnapshot_def by (intro keeping open_keeps)

lemma assertUnheld_keeps [keeping, intro]: "keeps I assertAdmissionToken" "keeps I assertUnheld" "keeps I currentHeld"
  unfolding assertAdmissionToken_def assertUnheld_def currentHeld_def by (intro keeping)+

lemma guarded_keeps [keeping, intro]: "keeps I (guardedCallback env answer)"
  unfolding guardedCallback_def by (intro keeping)

lemma parse_keeps [keeping, intro]:
  "keeps I (parseSidecarLockSnapshot env (scopedSidecarLockParser env parser) snapshot)"
  unfolding parseSidecarLockSnapshot_def parseSidecarLockPayload_def scopedSidecarLockParser_def
  by (cases parser; cases snapshot; simp add: split_beta; intro conjI impI keeping)

lemma comparison_keeps [keeping, intro]:
  "keeps I (readSidecarLockComparisonSnapshot env d (scopedSidecarLockParser env parser))"
  unfolding readSidecarLockComparisonSnapshot_def by (intro keeping readRaw_keeps)

lemma wait_keeps [keeping, intro]: "keeps I (waitForRetry env cfg)"
  unfolding waitForRetry_def
  by (intro keeping keeps_update admission counters)

lemma retry_keeps [keeping, intro]:
  "keeps I (retryHolderChange env cfg e)" "keeps I (retryChangedBoundary env cfg)" "keeps I (retryOrThrow env cfg e)"
  "keeps I (retryOrRethrowDenial env cfg e)"
  unfolding retryHolderChange_def retryChangedBoundary_def retryOrThrow_def retryOrRethrowDenial_def
  by (intro keeping)+

lemma budget_keeps [keeping, intro]: "keeps I withinDenialBudget"
  unfolding withinDenialBudget_def by (intro keeping keeps_update counters)

lemma askRemoval_keeps [keeping, intro]: "keeps I (askRemoval env f q)"
  unfolding askRemoval_def by (intro keeping)

end

subsection \<open>Interference that respects the guard\<close>

text \<open>While the guard exists nobody else changes the lock: the guard stays, the path names the same inode
  and that inode keeps its content and metadata.\<close>

definition sameLock :: "lock_fs \<Rightarrow> lock_fs \<Rightarrow> bool" where
  "sameLock before fs \<longleftrightarrow>
     lfGuard fs \<and> lfEntry fs = lfEntry before \<and>
     (case lfEntry before of None \<Rightarrow> True | Some i \<Rightarrow> lfInode fs i = lfInode before i)"

definition respectsGuard :: "'p lock_env \<Rightarrow> bool" where
  "respectsGuard env \<longleftrightarrow>
     (\<forall>n fs. lfGuard fs \<longrightarrow> sameLock fs (enProcesses env n fs)) \<and>
     (\<forall>n fs adm. lfGuard fs \<longrightarrow> sameLock fs (fst (enTasks env n (fs, adm))))"

lemma sameLock_trans: "sameLock a b \<Longrightarrow> sameLock b c \<Longrightarrow> sameLock a c"
  by (auto simp: sameLock_def split: option.splits)

lemma sameLock_processes: "respectsGuard env \<Longrightarrow> sameLock a fs \<Longrightarrow> sameLock a (enProcesses env n fs)"
  by (rule sameLock_trans [of a fs]) (simp_all add: respectsGuard_def sameLock_def [of a])

lemma sameLock_tasks:
  "respectsGuard env \<Longrightarrow> sameLock a fs \<Longrightarrow> enTasks env n (fs, adm) = (fs', adm') \<Longrightarrow> sameLock a fs'"
proof (rule sameLock_trans [of a fs])
  assume "respectsGuard env" "sameLock a fs" "enTasks env n (fs, adm) = (fs', adm')"
  then have "lfGuard fs" "\<forall>n fs adm. lfGuard fs \<longrightarrow> sameLock fs (fst (enTasks env n (fs, adm)))"
    by (simp_all add: respectsGuard_def sameLock_def [of a])
  then have "sameLock fs (fst (enTasks env n (fs, adm)))" by blast
  then show "sameLock fs fs'" using \<open>enTasks env n (fs, adm) = (fs', adm')\<close> by simp
qed

text \<open>The assertions of the proof: the trace so far, the recovery option, and the lock under the guard.\<close>

definition traced :: "'p lock_event list \<Rightarrow> recovery option option \<Rightarrow> 'p lock_world \<Rightarrow> bool" where
  "traced l v w \<longleftrightarrow> lwTrace w = l \<and> lwStaleRecovery w = v"

definition guarded :: "'p lock_env \<Rightarrow> lock_fs \<Rightarrow> 'p lock_event list \<Rightarrow> recovery option option \<Rightarrow> 'p lock_world \<Rightarrow> bool" where
  "guarded env before l v w \<longleftrightarrow> traced l v w \<and> (respectsGuard env \<longrightarrow> sameLock before (lwFs w))"

interpretation trace: ambient env "traced l v" for env l v
  by unfold_locales (simp_all add: traced_def)

interpretation guard: ambient env "guarded env before l v" for env before l v
  by unfold_locales (auto simp: guarded_def traced_def intro: sameLock_processes sameLock_tasks)

lemma traced_note: "triple (traced l v) (noteS e) (\<lambda>_. traced (l @ [e]) v) E"
  unfolding noteS_def by (rule triple_update) (simp add: traced_def)

lemma guarded_note: "triple (guarded env before l v) (noteS e) (\<lambda>_. guarded env before (l @ [e]) v) E"
  unfolding noteS_def by (rule triple_update) (simp add: guarded_def traced_def)

subsection \<open>Reading under the guard\<close>

text \<open>What a system call answers when the lock is as it was before.\<close>

definition holds :: "'p lock_env \<Rightarrow> ('r \<Rightarrow> bool) \<Rightarrow> 'r \<Rightarrow> bool" where
  "holds env P r \<longleftrightarrow> (respectsGuard env \<longrightarrow> P r)"

lemma guarded_sys:
  assumes "readsOnly call"
    "\<And>fs r. sameLock before fs \<Longrightarrow> fst (call fs) = Inr r \<Longrightarrow> P r"
  shows "triple (guarded env before l v) (sysS env call) (\<lambda>r w. guarded env before l v w \<and> holds env P r)
    (\<lambda>_. guarded env before l v)"
proof -
  have "sameLock before (enProcesses env n fs)" if "respectsGuard env" "sameLock before fs" for n fs
    using sameLock_processes that .
  then show ?thesis
    using assms unfolding triple_def sysS_def Let_def
    by (auto simp: guarded_def traced_def holds_def readsOnly_def split: option.splits prod.splits sum.splits) (metis fst_conv snd_conv)+
qed

lemma triple_pure: "(F \<Longrightarrow> triple P m Q E) \<Longrightarrow> triple (\<lambda>w. P w \<and> F) m Q E"
  by (auto simp: triple_def)

lemma keeps_bind_triple: "keeps I m \<Longrightarrow> (\<And>x. triple I (f x) Q (\<lambda>_. I)) \<Longrightarrow> triple I (bindS m f) Q (\<lambda>_. I)"
  by (rule triple_bind) (auto simp: keeps_def)

lemma triple_finally_keeps:
  "triple I m (\<lambda>x w. I w \<and> F x) (\<lambda>_. I) \<Longrightarrow> keeps I f \<Longrightarrow> triple I (finallyS m f) (\<lambda>x w. I w \<and> F x) (\<lambda>_. I)"
  by (rule triple_finally [where R = "\<lambda>x w. I w \<and> F x" and F = "\<lambda>_. I"])
    (auto simp: keeps_def intro!: triple_pure elim: triple_weaken)

lemma guarded_await:
  assumes "readsOnly call" "\<And>fs r. sameLock before fs \<Longrightarrow> fst (call fs) = Inr r \<Longrightarrow> P r"
  shows "triple (guarded env before l v) (awaitS env call) (\<lambda>r w. guarded env before l v w \<and> holds env P r)
    (\<lambda>_. guarded env before l v)"
  unfolding awaitS_def
  by (intro keeps_bind_triple triple_finally_keeps guarded_sys assms guard.yield_keeps)

lemma guarded_lstat:
  "triple (guarded env before l v) (lstatSidecarLockSync env)
     (\<lambda>r w. guarded env before l v w \<and>
        holds env (\<lambda>r. r = map_option (\<lambda>i. inStat (lfInode before i)) (lfEntry before) \<or> r = None) r)
     (\<lambda>_. guarded env before l v)"
  unfolding lstatSidecarLockSync_def
proof (rule triple_try [OF guarded_sys [where before = before and l = l and v = v
      and P = "\<lambda>stat. Some stat = map_option (\<lambda>i. inStat (lfInode before i)) (lfEntry before)"]])
  show "readsOnly lstatCall" by (rule reads)
  show "Some r = map_option (\<lambda>i. inStat (lfInode before i)) (lfEntry before)"
    if "sameLock before fs" "fst (lstatCall fs) = Inr r" for fs r
    using that by (auto simp: sameLock_def lstatCall_def split: option.splits)
qed (auto simp: holds_def intro!: triple_return triple_throw)

lemma guarded_open:
  assumes "lfEntry before = Some i" "\<not> lsIsSymlink (inStat (lfInode before i))" "\<And>e. keeps (guarded env before l v) (h e)"
  shows "triple (guarded env before l v) (openLockFile env b h)
     (\<lambda>r w. guarded env before l v w \<and> holds env (\<lambda>r. r = None \<or> r = Some i) r) (\<lambda>_. guarded env before l v)"
  unfolding openLockFile_def
proof (rule triple_try [OF guarded_await [where before = before and l = l and v = v and P = "\<lambda>j. j = i"]])
  show "readsOnly (openCall env)" by (rule reads)
  show "r = i" if "sameLock before fs" "fst (openCall env fs) = Inr r" for fs r
    using that assms by (auto simp: sameLock_def openCall_def)
  show "triple (guarded env before l v)
      (if errnoIs ''ENOENT'' e then returnS None
       else if b \<and> errnoIs ''ELOOP'' e then notFile True else bindS (h e) (\<lambda>_. throwS e))
      (\<lambda>r w. guarded env before l v w \<and> holds env (\<lambda>r. r = None \<or> r = Some i) r) (\<lambda>_. guarded env before l v)" for e
    using assms(3) by (auto simp: holds_def notFile_def intro!: triple_return triple_throw keeps_bind_triple)
qed (auto simp: holds_def intro!: triple_return)

lemma guarded_readText:
  assumes "lfEntry before = Some i"
  shows "triple (guarded env before l v) (readLockText env i)
     (\<lambda>r w. guarded env before l v w \<and> holds env (\<lambda>r. r = inText (lfInode before i)) r) (\<lambda>_. guarded env before l v)"
proof -
  have read: "triple (guarded env before l v) (awaitS env (readCall i))
     (\<lambda>r w. guarded env before l v w \<and> holds env (\<lambda>r. r = inText (lfInode before i)) r) (\<lambda>_. guarded env before l v)"
    using assms by (intro guarded_await reads) (auto simp: sameLock_def readCall_def split: if_splits)
  show ?thesis
    unfolding readLockText_def
    by (rule triple_bind [OF read], rule triple_pure, rule triple_bind [OF read], rule triple_pure)
      (auto simp: holds_def triple_def bindS_def getS_def returnS_def)
qed

text \<open>A snapshot read under the guard is the lock as it was before.\<close>

definition isLockText :: "lock_fs \<Rightarrow> (jstr \<times> lock_stat) option \<Rightarrow> bool" where
  "isLockText before r =
     (case r of None \<Rightarrow> True
      | Some (raw, _) \<Rightarrow> (\<exists>i. lfEntry before = Some i \<and> raw = inText (lfInode before i)))"

lemma keeps_isLockText:
  "(\<And>w. I w \<Longrightarrow> I w) \<Longrightarrow> keeps I m \<Longrightarrow> (\<And>r. holds env P r) \<Longrightarrow>
   triple I m (\<lambda>r w. I w \<and> holds env P r) (\<lambda>_. I)"
  by (auto simp: keeps_def triple_def split: prod.splits sum.splits)

lemma guarded_readOpened:
  assumes "respectsGuard env \<Longrightarrow> lfEntry before = Some i"
  shows "triple (guarded env before l v) (readOpenedLock env b d st i)
     (\<lambda>r w. guarded env before l v w \<and> holds env (isLockText before) r) (\<lambda>_. guarded env before l v)"
proof (cases "respectsGuard env")
  case False
  then show ?thesis
    by (intro keeps_isLockText guard.readOpened_keeps) (simp_all add: holds_def)
next
  case True
  note entry = assms [OF True]
  have after: "triple (guarded env before l v)
      (case after of None \<Rightarrow> returnS None
       | Some a \<Rightarrow> if \<not> lsIsFile a \<or> \<not> sameStat env st a then returnS None else returnS (Some (raw, a)))
      (\<lambda>r w. guarded env before l v w \<and> holds env (isLockText before) r) (\<lambda>_. guarded env before l v)"
    if "holds env (\<lambda>r. r = inText (lfInode before i)) raw" for raw after
    using that entry True
    by (auto simp: isLockText_def holds_def intro!: triple_return split: option.splits)
  show ?thesis
    unfolding readOpenedLock_def
  proof (rule keeps_bind_triple [OF guard.sys_keeps [OF reads(3)]])
    fix opened
    have "triple (guarded env before l v) (bindS (readLockText env i) (\<lambda>raw.
            bindS (lstatSidecarLockSync env) (\<lambda>after.
              case after of
                None \<Rightarrow> returnS None
              | Some a \<Rightarrow>
                  if \<not> lsIsFile a \<or> \<not> sameStat env st a then returnS None else returnS (Some (raw, a)))))
       (\<lambda>r w. guarded env before l v w \<and> holds env (isLockText before) r) (\<lambda>_. guarded env before l v)"
      by (rule triple_bind [OF guarded_readText [OF entry]], rule triple_pure, rule keeps_bind_triple [OF guard.lstat_keeps])
        (rule after)
    then show "triple (guarded env before l v)
       (if \<not> lsIsFile opened then notFile b
        else if \<not> d \<and> \<not> sameStat env st opened then returnS None
        else bindS (readLockText env i) (\<lambda>raw.
            bindS (lstatSidecarLockSync env) (\<lambda>after.
              case after of
                None \<Rightarrow> returnS None
              | Some a \<Rightarrow>
                  if \<not> lsIsFile a \<or> \<not> sameStat env st a then returnS None else returnS (Some (raw, a)))))
       (\<lambda>r w. guarded env before l v w \<and> holds env (isLockText before) r) (\<lambda>_. guarded env before l v)"
      by (auto simp: notFile_def isLockText_def holds_def intro!: triple_return triple_throw)
  qed
qed

lemma guarded_readRaw:
  assumes "\<And>e. keeps (guarded env before l v) (h e)"
  shows "triple (guarded env before l v) (readSidecarLockRawSnapshot env b d h)
     (\<lambda>r w. guarded env before l v w \<and> holds env (isLockText before) r) (\<lambda>_. guarded env before l v)"
  unfolding readSidecarLockRawSnapshot_def
proof (rule triple_finally_keeps [OF _ guard.yield_keeps], rule triple_bind [OF guarded_lstat], rule triple_pure)
  fix seen
  assume seen: "holds env (\<lambda>r. r = map_option (\<lambda>i. inStat (lfInode before i)) (lfEntry before) \<or> r = None) seen"
  let ?Q = "\<lambda>r w. guarded env before l v w \<and> holds env (isLockText before) r"
  have trivial: "triple (guarded env before l v) (returnS None) ?Q (\<lambda>_. guarded env before l v)"
    "triple (guarded env before l v) (notFile b) ?Q (\<lambda>_. guarded env before l v)"
    by (auto simp: notFile_def holds_def isLockText_def intro!: triple_return triple_throw)
  have opened: "triple (guarded env before l v)
     (bindS (openLockFile env b h) (\<lambda>opened. case opened of None \<Rightarrow> returnS None | Some i \<Rightarrow> readOpenedLock env b d st i))
     ?Q (\<lambda>_. guarded env before l v)"
    if st: "seen = Some st" "\<not> lsIsSymlink st" for st
  proof (cases "respectsGuard env")
    case True
    then obtain i where i: "lfEntry before = Some i" "st = inStat (lfInode before i)"
      using seen st by (cases "lfEntry before") (auto simp: holds_def)
    then have link: "\<not> lsIsSymlink (inStat (lfInode before i))" using st by simp
    show ?thesis
    proof (rule triple_bind [OF guarded_open [OF i(1) link assms]], rule triple_pure)
      fix opened
      assume "holds env (\<lambda>r. r = None \<or> r = Some i) opened"
      then consider (n1) "opened = None" | (n2) "opened = Some i" using True by (auto simp: holds_def)
      then show "triple (guarded env before l v)
          (case opened of None \<Rightarrow> returnS None | Some i \<Rightarrow> readOpenedLock env b d st i) ?Q
          (\<lambda>_. guarded env before l v)"
        by cases (simp_all add: trivial guarded_readOpened i(1))
    qed
  next
    case False
    then show ?thesis
      by (intro keeps_isLockText keeping guard.open_keeps guard.readOpened_keeps assms) (simp_all add: holds_def)
  qed
  show "triple (guarded env before l v)
     (case seen of None \<Rightarrow> returnS None
      | Some before \<Rightarrow> if \<not> lsIsFile before \<or> lsIsSymlink before then notFile b
          else bindS (yieldS env) (\<lambda>_. bindS (openLockFile env b h) (\<lambda>opened.
                 case opened of None \<Rightarrow> returnS None | Some i \<Rightarrow> readOpenedLock env b d before i)))
     ?Q (\<lambda>_. guarded env before l v)"
    by (cases seen) (auto simp: trivial intro!: keeps_bind_triple [OF guard.yield_keeps] opened)
qed

lemma triple_case: "triple P m Q E \<Longrightarrow> triple P n Q E \<Longrightarrow> triple P (case x of None \<Rightarrow> m | Some _ \<Rightarrow> n) Q E"
  by (cases x) auto

lemma guarded_comparison:
  "triple (guarded env before l v) (readSidecarLockComparisonSnapshot env d (scopedSidecarLockParser env parser))
     (\<lambda>r w. guarded env before l v w \<and> holds env (isLockText before) r) (\<lambda>_. guarded env before l v)"
  unfolding readSidecarLockComparisonSnapshot_def
proof (rule triple_bind [OF guarded_readRaw])
  let ?Q = "\<lambda>r w. guarded env before l v w \<and> holds env (isLockText before) r"
  fix snapshot
  show "triple (?Q snapshot)
      (case scopedSidecarLockParser env parser of
         None \<Rightarrow> returnS snapshot
       | Some _ \<Rightarrow> bindS (parseSidecarLockSnapshot env (scopedSidecarLockParser env parser) snapshot)
           (\<lambda>_. returnS snapshot)) ?Q (\<lambda>_. guarded env before l v)"
    by (rule triple_pure, rule triple_case)
      (auto intro!: triple_return keeps_bind_triple [OF guard.parse_keeps])
qed (auto intro: keeping)

text \<open>Finding the lock unchanged under the guard means that the entry has the text that was observed.\<close>

lemma guarded_present:
  assumes "snRaw snapshot = Some raw" "snOwnershipToken snapshot = None"
  shows "triple (guarded env before l v)
     (sidecarLockSnapshotStillPresent env (scopedSidecarLockParser env parser) snapshot)
     (\<lambda>p w. guarded env before (if p then l @ [Present_unchanged] else l) v w \<and>
        holds env (\<lambda>p. p \<longrightarrow> (\<exists>i. lfEntry before = Some i \<and> inText (lfInode before i) = raw)) p)
     (\<lambda>_. guarded env before l v)"
  unfolding sidecarLockSnapshotStillPresent_def
proof (rule triple_bind [OF guarded_comparison], rule triple_pure)
  fix current
  assume "holds env (isLockText before) current"
  then have found: "respectsGuard env \<Longrightarrow> current = Some c \<Longrightarrow>
      sidecarLockSnapshotMatches (enPlatform env) c snapshot \<Longrightarrow>
      \<exists>i. lfEntry before = Some i \<and> inText (lfInode before i) = raw" for c
    using assms by (cases c)
      (auto simp: holds_def isLockText_def sidecarLockSnapshotMatches_def split: if_splits)
  show "triple (guarded env before l v)
     (let present = (case current of None \<Rightarrow> False
                      | Some c \<Rightarrow> sidecarLockSnapshotMatches (enPlatform env) c snapshot)
       in bindS (if present then noteS Present_unchanged else returnS ()) (\<lambda>_. returnS present))
     (\<lambda>p w. guarded env before (if p then l @ [Present_unchanged] else l) v w \<and>
        holds env (\<lambda>p. p \<longrightarrow> (\<exists>i. lfEntry before = Some i \<and> inText (lfInode before i) = raw)) p)
     (\<lambda>_. guarded env before l v)"
    unfolding Let_def
    by (rule triple_bind [where R = "\<lambda>_. guarded env before
          (if case current of None \<Rightarrow> False | Some c \<Rightarrow> sidecarLockSnapshotMatches (enPlatform env) c snapshot
           then l @ [Present_unchanged] else l) v"])
      (auto simp: holds_def intro: found intro!: guarded_note triple_return split: option.splits)
qed

lemma guarded_rm:
  "triple (guarded env before l v) (awaitS env rmCall)
     (\<lambda>inode w. traced l v w \<and>
        holds env (\<lambda>inode. \<exists>i. lfEntry before = Some i \<and> inode = lfInode before i) inode)
     (\<lambda>_. traced l v)"
proof -
  have sys: "triple (guarded env before l v) (sysS env rmCall)
     (\<lambda>inode w. traced l v w \<and>
        holds env (\<lambda>inode. \<exists>i. lfEntry before = Some i \<and> inode = lfInode before i) inode)
     (\<lambda>_. traced l v)"
    using sameLock_processes [of env before]
    unfolding triple_def sysS_def Let_def
    by (fastforce simp: guarded_def traced_def holds_def rmCall_def sameLock_def
        split: option.splits prod.splits sum.splits if_splits)
  show ?thesis
    unfolding awaitS_def
  proof (rule triple_bind)
    show "triple (guarded env before l v) (yieldS env) (\<lambda>_. guarded env before l v) (\<lambda>_. traced l v)"
      using guard.yield_keeps [of env before l v, unfolded keeps_def]
      by (rule triple_weaken) (simp_all add: guarded_def)
  qed (rule triple_finally [OF sys],
      auto simp: holds_def intro!: triple_pure trace.yield_keeps [unfolded keeps_def, THEN triple_weaken])
qed

subsection \<open>Removal\<close>

definition quiet :: "'p lock_event list \<Rightarrow> recovery option option \<Rightarrow> 'p lock_world \<Rightarrow> bool" where
  "quiet l v w \<longleftrightarrow> lwStaleRecovery w = v \<and> (\<exists>evs. lwTrace w = l @ evs \<and> (\<forall>i. Lock_removed i \<notin> set evs))"

definition removedAfter :: "'p lock_env \<Rightarrow> 'p lock_event list \<Rightarrow> recovery option option \<Rightarrow> 'p lock_world \<Rightarrow> bool" where
  "removedAfter env l v w \<longleftrightarrow> lwStaleRecovery w = v \<and>
     (\<exists>info inode evs. set evs \<subseteq> {Guard_dropped} \<and> (respectsGuard env \<longrightarrow> inText inode = ssRaw info) \<and>
        lwTrace w = l @ [Present_unchanged, Removal_approved info, Present_unchanged, Removal_authorised,
                         Lock_removed inode] @ evs)"

lemma traced_quiet: "traced (l @ evs) v w \<Longrightarrow> (\<And>i. Lock_removed i \<notin> set evs) \<Longrightarrow> quiet l v w"
  by (auto simp: traced_def quiet_def)

lemma guarded_quiet: "guarded env before (l @ evs) v w \<Longrightarrow> (\<And>i. Lock_removed i \<notin> set evs) \<Longrightarrow> quiet l v w"
  by (auto simp: guarded_def intro: traced_quiet)

lemma keeps_then:
  "keeps I m \<Longrightarrow> (\<And>x. triple I (f x) Q E) \<Longrightarrow> (\<And>e w. I w \<Longrightarrow> E e w) \<Longrightarrow> triple I (bindS m f) Q E"
  by (rule triple_bind [where R = "\<lambda>_. I"]) (auto simp: keeps_def elim: triple_weaken)

lemma note_then:
  "triple (guarded env before (l @ [e]) v) m Q E \<Longrightarrow> triple (guarded env before l v) (bindS (noteS e) (\<lambda>_. m)) Q E"
  by (rule triple_bind [OF guarded_note])

text \<open>Below, \<open>l\<close> is the trace when the removal starts and \<open>k\<close> what it adds.\<close>

lemma removal_tail:
  fixes env :: "'p lock_env"
  assumes found: "holds env (\<lambda>p. p \<longrightarrow> (\<exists>i. lfEntry before = Some i \<and> inText (lfInode before i) = raw)) True"
    and k: "k = [Present_unchanged, Removal_approved info, Present_unchanged, Removal_authorised]"
    and raw: "ssRaw info = raw"
  shows "triple (guarded env before (l @ k) v)
     (tryS (awaitS env rmCall)
        (\<lambda>e. if errnoIs ''ENOENT'' e then returnS Changed else throwS e)
        (\<lambda>inode. bindS (noteS (Lock_removed inode)) (\<lambda>_. returnS Removed)))
     (\<lambda>r. if r = Removed then removedAfter env l v else quiet l v) (\<lambda>_. quiet l v)"
proof (rule triple_try [OF guarded_rm])
  have "quiet l v w" if "traced (l @ k) v w" for w
    using that by (rule traced_quiet) (simp add: k)
  then show "triple (traced (l @ k) v) (if errnoIs ''ENOENT'' e then returnS Changed else throwS e)
     (\<lambda>r. if r = Removed then removedAfter env l v else quiet l v) (\<lambda>_. quiet l v)" for e
    by (auto intro!: triple_return triple_throw)
  fix inode
  have text_kept: "inText inode = ssRaw info"
    if "respectsGuard env" "holds env (\<lambda>inode. \<exists>i. lfEntry before = Some i \<and> inode = lfInode before i) inode"
    using that found raw by (auto simp: holds_def)
  show "triple (\<lambda>w. traced (l @ k) v w \<and>
        holds env (\<lambda>inode. \<exists>i. lfEntry before = Some i \<and> inode = lfInode before i) inode)
     (bindS (noteS (Lock_removed inode)) (\<lambda>_. returnS Removed))
     (\<lambda>r. if r = Removed then removedAfter env l v else quiet l v) (\<lambda>_. quiet l v)"
  proof (rule triple_pure, rule triple_bind [OF traced_note], rule triple_return)
    fix w
    assume h: "holds env (\<lambda>inode. \<exists>i. lfEntry before = Some i \<and> inode = lfInode before i) inode"
      and t: "traced ((l @ k) @ [Lock_removed inode]) v w"
    have "removedAfter env l v w"
      unfolding removedAfter_def
      using t text_kept [OF _ h]
      by (intro conjI exI [of _ info] exI [of _ inode] exI [of _ "[]"]) (simp_all add: traced_def k)
    then show "(if Removed = Removed then removedAfter env l v else quiet l v) w" by simp
  qed
qed

lemma guarded_present_then:
  assumes "snRaw snapshot = Some raw" "snOwnershipToken snapshot = None"
    and quiet: "\<And>e w. guarded env before l v w \<Longrightarrow> E e w"
    and absent: "triple (guarded env before l v) (f False) Q E"
    and found: "holds env (\<lambda>p. p \<longrightarrow> (\<exists>i. lfEntry before = Some i \<and> inText (lfInode before i) = raw)) True \<Longrightarrow>
      triple (guarded env before (l @ [Present_unchanged]) v) (f True) Q E"
  shows "triple (guarded env before l v)
     (bindS (sidecarLockSnapshotStillPresent env (scopedSidecarLockParser env parser) snapshot) f) Q E"
proof (rule triple_bind)
  show "triple (guarded env before l v)
     (sidecarLockSnapshotStillPresent env (scopedSidecarLockParser env parser) snapshot)
     (\<lambda>p w. guarded env before (if p then l @ [Present_unchanged] else l) v w \<and>
        holds env (\<lambda>p. p \<longrightarrow> (\<exists>i. lfEntry before = Some i \<and> inText (lfInode before i) = raw)) p) E"
    using guarded_present [OF assms(1,2)] by (rule triple_weaken) (simp_all, rule quiet)
  show "triple (\<lambda>w. guarded env before (if p then l @ [Present_unchanged] else l) v w \<and>
        holds env (\<lambda>p. p \<longrightarrow> (\<exists>i. lfEntry before = Some i \<and> inText (lfInode before i) = raw)) p) (f p) Q E" for p
    using absent found by (cases p) (auto intro!: triple_pure elim: triple_weaken)
qed

lemma removal_approved_traced:
  assumes "snRaw snapshot = Some raw" "snOwnershipToken snapshot = None" "ssRaw info = raw"
  shows "triple (guarded env before (l @ [Present_unchanged, Removal_approved info]) v)
     (removeApproved env snapshot (scopedSidecarLockParser env parser) assertUnheld)
     (\<lambda>r. if r = Removed then removedAfter env l v else quiet l v) (\<lambda>_. quiet l v)"
proof -
  note quiet = guarded_quiet [of env before l "[Present_unchanged, Removal_approved info]"]
    guarded_quiet [of env before l "[Present_unchanged, Removal_approved info, Present_unchanged]"]
  show ?thesis
    unfolding removeApproved_def
  proof (rule keeps_then [OF guard.assertUnheld_keeps(2)], rule guarded_present_then [OF assms(1,2)])
    show "triple (guarded env before (l @ [Present_unchanged, Removal_approved info]) v)
       (bindS assertUnheld (\<lambda>_. if \<not> False then returnS Changed
         else bindS assertUnheld (\<lambda>_. bindS (noteS Removal_authorised) (\<lambda>_. tryS (awaitS env rmCall)
                (\<lambda>e. if errnoIs ''ENOENT'' e then returnS Changed else throwS e)
                (\<lambda>inode. bindS (noteS (Lock_removed inode)) (\<lambda>_. returnS Removed))))))
       (\<lambda>r. if r = Removed then removedAfter env l v else quiet l v) (\<lambda>_. quiet l v)"
      by (rule keeps_then [OF guard.assertUnheld_keeps(2)]) (auto intro!: triple_return dest: quiet)
  next
    assume found: "holds env (\<lambda>p. p \<longrightarrow> (\<exists>i. lfEntry before = Some i \<and> inText (lfInode before i) = raw)) True"
    have tail: "triple (guarded env before ((l @ [Present_unchanged, Removal_approved info]) @ [Present_unchanged]) v)
       (bindS assertUnheld (\<lambda>_. bindS (noteS Removal_authorised) (\<lambda>_. tryS (awaitS env rmCall)
                (\<lambda>e. if errnoIs ''ENOENT'' e then returnS Changed else throwS e)
                (\<lambda>inode. bindS (noteS (Lock_removed inode)) (\<lambda>_. returnS Removed)))))
       (\<lambda>r. if r = Removed then removedAfter env l v else quiet l v) (\<lambda>_. quiet l v)"
      using removal_tail [OF found refl assms(3), of l v]
      by (intro keeps_then [OF guard.assertUnheld_keeps(2)] note_then) (simp_all add: quiet)
    show "triple (guarded env before ((l @ [Present_unchanged, Removal_approved info]) @ [Present_unchanged]) v)
       (bindS assertUnheld (\<lambda>_. if \<not> True then returnS Changed
         else bindS assertUnheld (\<lambda>_. bindS (noteS Removal_authorised) (\<lambda>_. tryS (awaitS env rmCall)
                (\<lambda>e. if errnoIs ''ENOENT'' e then returnS Changed else throwS e)
                (\<lambda>inode. bindS (noteS (Lock_removed inode)) (\<lambda>_. returnS Removed))))))
       (\<lambda>r. if r = Removed then removedAfter env l v else quiet l v) (\<lambda>_. quiet l v)"
      using tail by (intro keeps_then [OF guard.assertUnheld_keeps(2)]) (simp_all add: quiet)
  qed (auto intro: quiet)
qed

lemma removal_traced:
  assumes "snOwnershipToken snapshot = None"
  shows "triple (guarded env before l v)
     (removeStaleSidecarLockIfAllowed env snapshot (map_option (askRemoval env) shouldRemove)
        (scopedSidecarLockParser env parser) assertUnheld)
     (\<lambda>r. if r = Removed then removedAfter env l v else quiet l v) (\<lambda>_. quiet l v)"
proof (cases "shouldRemove = None \<or> snRaw snapshot = None")
  case True
  have "quiet l v w" if "guarded env before l v w" for w
    using guarded_quiet [of env before l "[]"] that by simp
  then show ?thesis using True
    by (auto simp: removeStaleSidecarLockIfAllowed_def intro!: triple_return split: option.splits)
next
  case False
  then obtain f raw where f: "shouldRemove = Some f" "snRaw snapshot = Some raw" by auto
  have quiet: "guarded env before l v w \<Longrightarrow> quiet l v w" for w
    using guarded_quiet [of env before l "[]"] by simp
  have quiet_present: "guarded env before (l @ [Present_unchanged]) v w \<Longrightarrow> quiet l v w" for w
    using guarded_quiet [of env before l "[Present_unchanged]"] by simp
  note approved = removal_approved_traced [OF f(2) assms, of "\<lparr>ssRaw = raw, ssPayload = snPayload snapshot\<rparr>"]
  show ?thesis
    unfolding removeStaleSidecarLockIfAllowed_def f option.map prod.case option.case
    by (intro keeps_then [OF guard.assertUnheld_keeps(2)] guarded_present_then [OF f(2) assms])
      (auto intro!: keeps_then [OF guard.assertUnheld_keeps(2)] keeps_then [OF guard.askRemoval_keeps]
        note_then triple_return approved dest: quiet, (drule quiet_present, assumption)+)
qed

subsection \<open>The whole attempt\<close>

text \<open>How an attempt may end: without a removal, or with one right after it was approved under the guard.\<close>

definition fate :: "'p lock_env \<Rightarrow> 'p lock_event list \<Rightarrow> recovery option option \<Rightarrow> 'p lock_world \<Rightarrow> bool" where
  "fate env l v w \<longleftrightarrow> quiet l v w \<or> removedAfter env (l @ [Guard_taken]) v w"

interpretation fates: ambient env "fate env l v" for env l v
  by unfold_locales (simp_all add: fate_def quiet_def removedAfter_def)

lemma fate_sys: "keeps (fate env l v) (sysS env call)"
  by (auto simp: keeps_def triple_def sysS_def Let_def fate_def quiet_def removedAfter_def
      split: option.splits prod.splits sum.splits)

lemma traced_sys: "keeps (traced l v) (sysS env call)"
  by (auto simp: keeps_def triple_def sysS_def Let_def traced_def split: option.splits prod.splits sum.splits)

lemma fate_dropped: "keeps (fate env l v) (noteS Guard_dropped)"
proof -
  have "quiet l v (w\<lparr>lwTrace := lwTrace w @ [Guard_dropped]\<rparr>)" if "quiet l v w" for w
    using that unfolding quiet_def by fastforce
  moreover have "removedAfter env k v (w\<lparr>lwTrace := lwTrace w @ [Guard_dropped]\<rparr>)" if "removedAfter env k v w" for k w
    using that unfolding removedAfter_def by fastforce
  ultimately show ?thesis
    unfolding noteS_def by (intro keeps_update) (auto simp: fate_def)
qed

lemma fate_release: "keeps (fate env l v) (releaseReclaimGuard env)"
  unfolding releaseReclaimGuard_def releaseGuard_def awaitS_def
  by (intro keeping keeps_update fate_sys fate_dropped fates.get_keeps fates.yield_keeps)
    (simp_all add: fate_def quiet_def removedAfter_def)

lemma fate_update:
  "keeps (fate env l v) (updateS (\<lambda>w. w\<lparr>lwReclaimGuard := g\<rparr>))" "keeps (traced l v) (updateS (\<lambda>w. w\<lparr>lwReclaimGuard := g\<rparr>))"
  "keeps (guarded env before l v) (updateS (\<lambda>w. w\<lparr>lwReclaimGuard := g\<rparr>))"
  "keeps (guarded env before l v) (updateS (\<lambda>w. w\<lparr>lwGuards := h\<rparr>))"
  by (rule keeps_update; simp add: fate_def quiet_def removedAfter_def traced_def guarded_def)+

lemma traced_fate: "traced l v w \<Longrightarrow> fate env l v w"
  using traced_quiet [of l "[]"] by (simp add: fate_def)

lemma guarded_fate: "guarded env before (l @ [Guard_taken]) v w \<Longrightarrow> fate env l v w"
  using guarded_quiet [of env before l "[Guard_taken]"] by (simp add: fate_def)

lemma keeps_weaken: "keeps I m \<Longrightarrow> (\<And>w. P w \<Longrightarrow> I w) \<Longrightarrow> (\<And>x w. I w \<Longrightarrow> Q x w) \<Longrightarrow> (\<And>e w. I w \<Longrightarrow> E e w) \<Longrightarrow> triple P m Q E"
  unfolding keeps_def by (rule triple_weaken)

lemma triple_exists:
  assumes "\<And>b. triple (P b) m Q E"
  shows "triple (\<lambda>w. \<exists>b. P b w) m Q E"
proof (unfold triple_def, intro allI impI, elim exE)
  fix s b
  assume "P b s"
  then show "case m s of (Inl e, t) \<Rightarrow> E e t | (Inr x, t) \<Rightarrow> Q x t"
    using assms [of b] unfolding triple_def by simp
qed

text \<open>Taking the guard: from then on the lock is as it was, as far as others respect the guard.\<close>

lemma guard_acquired:
  "triple (traced l v) (tryAcquireSidecarReclaimGuard env)
     (\<lambda>acquired w. if acquired then \<exists>before. guarded env before (l @ [Guard_taken]) v w else traced l v w)
     (\<lambda>_. traced l v)"
proof -
  have mkdir: "triple (traced l v) (sysS env mkdirCall) (\<lambda>_ w. \<exists>before. guarded env before l v w) (\<lambda>_. traced l v)"
    by (auto simp: triple_def sysS_def Let_def traced_def guarded_def mkdirCall_def sameLock_def
        split: option.splits prod.splits sum.splits if_splits)
  have yield: "triple (\<lambda>w. \<exists>before. guarded env before l v w) (yieldS env) (\<lambda>_ w. \<exists>before. guarded env before l v w) (\<lambda>_. traced l v)"
    by (rule triple_exists, rule keeps_weaken [OF guard.yield_keeps]) (auto simp: guarded_def)
  have call: "triple (traced l v) (awaitS env mkdirCall) (\<lambda>_ w. \<exists>before. guarded env before l v w) (\<lambda>_. traced l v)"
    unfolding awaitS_def
    by (rule triple_bind [OF keeps_triple [OF trace.yield_keeps]], rule triple_finally [OF mkdir yield])
      (rule keeps_triple [OF trace.yield_keeps])
  show ?thesis
    unfolding tryAcquireSidecarReclaimGuard_def
  proof (rule triple_try [OF call])
    fix x :: unit
    show "triple (\<lambda>w. \<exists>before. guarded env before l v w)
       (bindS (noteS Guard_taken) (\<lambda>_. bindS (updateS (\<lambda>w. w\<lparr>lwGuards := True\<rparr>)) (\<lambda>_. returnS True)))
       (\<lambda>acquired w. if acquired then \<exists>before. guarded env before (l @ [Guard_taken]) v w else traced l v w)
       (\<lambda>_. traced l v)"
      by (rule triple_exists, rule note_then,
          rule triple_bind [OF triple_update [where Q = "\<lambda>_. guarded env _ (l @ [Guard_taken]) v"]])
        (auto simp: guarded_def traced_def intro!: triple_return)
  qed (auto intro!: triple_return triple_throw)
qed

lemma fate_wait: "keeps (fate env l v) (releaseAndWait env cfg)"
  unfolding releaseAndWait_def by (intro keeping fate_release fates.wait_keeps)

lemma removal_fate:
  assumes "snOwnershipToken snapshot = None"
  shows "triple (guarded env before (l @ [Guard_taken]) v)
     (removeStaleSidecarLockIfAllowed env snapshot (map_option (askRemoval env) shouldRemove)
        (scopedSidecarLockParser env parser) assertUnheld)
     (\<lambda>_. fate env l v) (\<lambda>_. fate env l v)"
proof -
  have "quiet l v w" if "quiet (l @ [Guard_taken]) v w" for w
    using that by (fastforce simp: quiet_def)
  then show ?thesis
    by (intro triple_weaken [OF removal_traced [OF assms]]) (auto simp: fate_def split: if_splits)
qed

lemma fate_after: "keeps (fate env l v) (afterFailedRemoval env cfg e)" "keeps (fate env l v) (afterRemoval env cfg removal)"
proof -
  show "keeps (fate env l v) (afterFailedRemoval env cfg e)"
    unfolding afterFailedRemoval_def by (intro keeping fate_wait fates.assertUnheld_keeps)
  have "keeps (fate env l v)
      (case removal of
         Removed \<Rightarrow> returnS ()
       | Changed \<Rightarrow> waitForRetry env cfg
       | Not_approved \<Rightarrow> bindS (releaseReclaimGuard env) (\<lambda>_. throwS Lock_stale))"
    by (cases removal) (auto intro!: keeping fate_release)
  then show "keeps (fate env l v) (afterRemoval env cfg removal)"
    unfolding afterRemoval_def by (intro keeping fate_wait fates.assertUnheld_keeps)
qed

lemma recover_fate:
  assumes "snOwnershipToken snapshot = None"
  shows "triple (traced l v) (recoverStale env cfg parser snapshot) (\<lambda>_. fate env l v) (\<lambda>_. fate env l v)"
proof -
  have removal: "triple (guarded env before (l @ [Guard_taken]) v) (removeUnderGuard env cfg parser snapshot)
      (\<lambda>_. fate env l v) (\<lambda>_. fate env l v)" for before
    unfolding removeUnderGuard_def
    by (intro keeps_then [OF guard.get_keeps] triple_try [OF removal_fate [OF assms]] keeps_triple fate_after guarded_fate)
  have untaken: "triple (traced l v) (waitForRetry env cfg) (\<lambda>_. fate env l v) (\<lambda>_. fate env l v)"
    by (rule keeps_weaken [OF trace.wait_keeps]) (auto intro: traced_fate)
  have held: "triple (guarded env before (l @ [Guard_taken]) v) (releaseAndWait env cfg)
      (\<lambda>_. fate env l v) (\<lambda>_. fate env l v)" for before
    by (rule keeps_weaken [OF fate_wait]) (auto intro: guarded_fate)
  have acquired: "triple (traced l v) (tryAcquireSidecarReclaimGuard env)
      (\<lambda>acquired w. if acquired then \<exists>before. guarded env before (l @ [Guard_taken]) v w else traced l v w)
      (\<lambda>_. fate env l v)"
    by (rule triple_weaken [OF guard_acquired]) (auto intro: traced_fate)
  show ?thesis
    unfolding recoverStale_def
  proof (rule triple_bind [OF acquired])
    fix acquired
    show "triple (\<lambda>w. if acquired then \<exists>before. guarded env before (l @ [Guard_taken]) v w else traced l v w)
       (bindS (if acquired then updateS (\<lambda>w. w\<lparr>lwReclaimGuard := Some False\<rparr>) else returnS ()) (\<lambda>_.
        bindS assertAdmissionToken (\<lambda>_. bindS currentHeld (\<lambda>held.
           if held then (if acquired then releaseAndWait env cfg else waitForRetry env cfg)
           else if \<not> acquired then waitForRetry env cfg
           else removeUnderGuard env cfg parser snapshot))))
       (\<lambda>_. fate env l v) (\<lambda>_. fate env l v)"
    proof (cases acquired)
      case True
      then show ?thesis
        by (simp, intro triple_exists keeps_then [OF fate_update(3)] keeps_then [OF guard.assertUnheld_keeps(1)]
              keeps_then [OF guard.assertUnheld_keeps(3)] guarded_fate)
          (auto intro: held removal)
    next
      case False
      then show ?thesis
        by (simp, intro keeps_then [OF keeps_basic(1)] keeps_then [OF trace.assertUnheld_keeps(1)]
              keeps_then [OF trace.assertUnheld_keeps(3)] traced_fate)
          (auto intro: untaken)
    qed
  qed
qed

text \<open>The end of an attempt that started with an empty trace.\<close>

definition removalFree :: "'p lock_world \<Rightarrow> bool" where
  "removalFree w \<longleftrightarrow> (\<forall>i. Lock_removed i \<notin> set (lwTrace w))"

definition decidedRemoval :: "'p lock_env \<Rightarrow> 'p lock_world \<Rightarrow> bool" where
  "decidedRemoval env w \<longleftrightarrow>
     observed (lwStaleRecovery w) = Some Remove_if_unchanged \<and>
     (\<exists>info inode evs. set evs \<subseteq> {Guard_dropped} \<and> (respectsGuard env \<longrightarrow> inText inode = ssRaw info) \<and>
        lwTrace w = [Reclaim_answered True, Present_unchanged, Guard_taken, Present_unchanged,
                     Removal_approved info, Present_unchanged, Removal_authorised, Lock_removed inode] @ evs)"

definition ended :: "'p lock_env \<Rightarrow> 'p lock_world \<Rightarrow> bool" where
  "ended env w \<longleftrightarrow> removalFree w \<or> decidedRemoval env w"

lemma traced_ended: "traced l v w \<Longrightarrow> \<forall>i. Lock_removed i \<notin> set l \<Longrightarrow> ended env w"
  by (simp add: traced_def ended_def removalFree_def)

lemma fate_ended:
  assumes "fate env [Reclaim_answered True, Present_unchanged] v w" "observed v = Some Remove_if_unchanged"
  shows "ended env w"
  using assms by (auto simp: fate_def quiet_def removedAfter_def ended_def removalFree_def decidedRemoval_def)

lemma traced_present:
  "triple (traced l v) (sidecarLockSnapshotStillPresent env (scopedSidecarLockParser env parser) snapshot)
     (\<lambda>p. traced (if p then l @ [Present_unchanged] else l) v) (\<lambda>_. traced l v)"
  unfolding sidecarLockSnapshotStillPresent_def Let_def
proof (rule keeps_then [OF trace.comparison_keeps])
  fix current
  let ?b = "case current of None \<Rightarrow> False | Some c \<Rightarrow> sidecarLockSnapshotMatches (enPlatform env) c snapshot"
  show "triple (traced l v) (bindS (if ?b then noteS Present_unchanged else returnS ()) (\<lambda>_. returnS ?b))
     (\<lambda>p. traced (if p then l @ [Present_unchanged] else l) v) (\<lambda>_. traced l v)"
    by (rule triple_bind [where R = "\<lambda>_. traced (if ?b then l @ [Present_unchanged] else l) v"])
      (auto intro!: traced_note triple_return)
qed

lemma askReclaim_traced:
  "triple (traced l v) (askReclaim env cfg snapshot) (\<lambda>b. traced (l @ [Reclaim_answered b]) v)
     (\<lambda>_ w. \<exists>k. traced (l @ k) v w \<and> (\<forall>i. Lock_removed i \<notin> set k))"
proof -
  have early: "\<exists>k. traced (l @ k) v w \<and> (\<forall>i. Lock_removed i \<notin> set k)" if "traced l v w" for w
    using that by (intro exI [of _ "[]"]) simp
  have late: "\<exists>k. traced (l @ k) v w \<and> (\<forall>i. Lock_removed i \<notin> set k)" if "traced (l @ [Reclaim_answered b]) v w" for b w
    using that by (intro exI [of _ "[Reclaim_answered b]"]) simp
  have ask: "keeps (traced l v) (case f of
        None \<Rightarrow> bindS (getS lwStep) (\<lambda>n.
          returnS (defaultSidecarLockShouldReclaim (enCreatedAt env) snapshot (lcStaleMs cfg) (enNowMs env n)))
      | Some f \<Rightarrow> bindS (callbackS env (\<lambda>n. f n
          \<lparr>rqPayload = snPayload snapshot, rqStaleMs = lcStaleMs cfg, rqNowMs = enNowMs env n\<rparr>))
          (\<lambda>answer. bindS (yieldS env) (\<lambda>_. returnS answer)))" for f
    by (intro keeping)
  show ?thesis
    unfolding askReclaim_def
    by (intro keeps_then [OF trace.get_keeps] keeps_then [OF trace.assertUnheld_keeps(2)]
          keeps_then [OF keeps_finally [OF ask trace.assertUnheld_keeps(2)]] keeps_then [OF trace.yield_keeps]
          triple_bind [OF traced_note] keeps_then [OF trace.assertUnheld_keeps(2)])
      (auto intro: early late intro!: triple_return)
qed

interpretation free: ambient env removalFree for env
  by unfold_locales (simp_all add: removalFree_def)

lemma free_ended: "keeps removalFree m \<Longrightarrow> triple removalFree m (\<lambda>_. ended env) (\<lambda>_. ended env)"
  by (erule keeps_weaken) (simp_all add: ended_def)

lemma traced_free: "traced l v w \<Longrightarrow> \<forall>i. Lock_removed i \<notin> set l \<Longrightarrow> removalFree w"
  by (simp add: traced_def removalFree_def)

lemma traced_wait:
  "\<forall>i. Lock_removed i \<notin> set l \<Longrightarrow> triple (traced l v) (waitForRetry env cfg) (\<lambda>_. ended env) (\<lambda>_. ended env)"
  by (rule triple_weaken [OF free_ended [OF free.wait_keeps]]) (auto intro: traced_free)

lemma reclaim_ended:
  assumes "snOwnershipToken snapshot = None"
  shows "triple (traced [] v) (reclaimStale env cfg parser snapshot) (\<lambda>_. ended env) (\<lambda>_. ended env)"
proof -
  have ask: "triple (traced [] v) (askReclaim env cfg snapshot) (\<lambda>b. traced [Reclaim_answered b] v) (\<lambda>_. removalFree)"
    by (rule triple_weaken [OF askReclaim_traced]) (auto intro: traced_free)
  have present: "triple (traced [Reclaim_answered True] v)
      (bindS (sidecarLockSnapshotStillPresent env (scopedSidecarLockParser env parser) snapshot) (\<lambda>present.
         bindS assertUnheld (\<lambda>_. returnS present)))
      (\<lambda>p. traced (if p then [Reclaim_answered True, Present_unchanged] else [Reclaim_answered True]) v) (\<lambda>_. removalFree)"
    by (rule triple_bind [OF traced_present [THEN triple_weaken]], assumption, assumption)
      (auto intro!: keeps_then [OF trace.assertUnheld_keeps(2)] triple_return intro: traced_free)
  have recover: "triple (traced [Reclaim_answered True, Present_unchanged] v)
      (bindS (getS (observed \<circ> lwStaleRecovery)) (\<lambda>recovery.
         if recovery = Some Remove_if_unchanged then recoverStale env cfg parser snapshot else throwS Lock_stale))
      (\<lambda>_. ended env) (\<lambda>_. ended env)"
  proof (rule triple_bind)
    show "triple (traced [Reclaim_answered True, Present_unchanged] v) (getS (observed \<circ> lwStaleRecovery))
        (\<lambda>r w. traced [Reclaim_answered True, Present_unchanged] v w \<and> r = observed v) (\<lambda>_. ended env)"
      by (simp add: triple_def getS_def traced_def)
    fix recovery
    show "triple (\<lambda>w. traced [Reclaim_answered True, Present_unchanged] v w \<and> recovery = observed v)
       (if recovery = Some Remove_if_unchanged then recoverStale env cfg parser snapshot else throwS Lock_stale)
       (\<lambda>_. ended env) (\<lambda>_. ended env)"
    proof (rule triple_pure, cases "recovery = Some Remove_if_unchanged")
      case True
      assume "recovery = observed v"
      then show "triple (traced [Reclaim_answered True, Present_unchanged] v)
       (if recovery = Some Remove_if_unchanged then recoverStale env cfg parser snapshot else throwS Lock_stale)
       (\<lambda>_. ended env) (\<lambda>_. ended env)"
        using True triple_weaken [OF recover_fate [OF assms, of "[Reclaim_answered True, Present_unchanged]" v env cfg parser]]
          fate_ended [of env v] by simp
    next
      case False
      then show "triple (traced [Reclaim_answered True, Present_unchanged] v)
       (if recovery = Some Remove_if_unchanged then recoverStale env cfg parser snapshot else throwS Lock_stale)
       (\<lambda>_. ended env) (\<lambda>_. ended env)"
        by (auto intro!: triple_throw traced_ended)
    qed
  qed
  have rest: "triple (traced (if p then [Reclaim_answered True, Present_unchanged] else [Reclaim_answered True]) v)
      (if \<not> p then waitForRetry env cfg
       else bindS (getS (observed \<circ> lwStaleRecovery)) (\<lambda>recovery.
              if recovery = Some Remove_if_unchanged then recoverStale env cfg parser snapshot
              else throwS Lock_stale))
      (\<lambda>_. ended env) (\<lambda>_. ended env)" for p
    using recover by (cases p) (auto intro!: traced_wait)
  have asked: "triple (traced [Reclaim_answered b] v)
      (if \<not> b then waitForRetry env cfg
       else tryS (bindS (sidecarLockSnapshotStillPresent env (scopedSidecarLockParser env parser) snapshot) (\<lambda>present.
                    bindS assertUnheld (\<lambda>_. returnS present)))
              (retryOrThrow env cfg) (\<lambda>stillPresent.
              if \<not> stillPresent then waitForRetry env cfg
              else bindS (getS (observed \<circ> lwStaleRecovery)) (\<lambda>recovery.
                     if recovery = Some Remove_if_unchanged then recoverStale env cfg parser snapshot
                     else throwS Lock_stale)))
      (\<lambda>_. ended env) (\<lambda>_. ended env)" for b
    by (cases b) (auto intro!: traced_wait triple_try [OF present _ rest] free_ended free.retry_keeps)
  show ?thesis
    unfolding reclaimStale_def
    by (rule triple_try [OF ask _ asked]) (intro free_ended free.retry_keeps)
qed

definition untraced :: "'p lock_world \<Rightarrow> bool" where
  "untraced w \<longleftrightarrow> lwTrace w = []"

interpretation start: ambient env untraced for env
  by unfold_locales (simp_all add: untraced_def)

lemma untraced_free: "untraced w \<Longrightarrow> removalFree w"
  by (simp add: untraced_def removalFree_def)

lemma observeOnce_untraced:
  "(\<And>v w. lwTrace (store v w) = lwTrace w) \<Longrightarrow> keeps untraced (observeOnce seen store env accessor)"
  unfolding observeOnce_def by (intro keeping keeps_update) (simp add: untraced_def)

lemma untraced_observe: "keeps untraced (observeSidecarLockParser env)" "keeps untraced (observeStaleOptions env)"
proof -
  show "keeps untraced (observeSidecarLockParser env)"
    unfolding observeSidecarLockParser_def
    by (intro keeping keeps_update) (simp add: untraced_def)
  show "keeps untraced (observeStaleOptions env)"
    unfolding observeStaleOptions_def by (intro keeps_bind observeOnce_untraced) simp_all
qed

lemma parse_untraced:
  "triple untraced (parseSidecarLockSnapshot env (scopedSidecarLockParser env parser) raw)
     (\<lambda>r w. untraced w \<and> (\<forall>s. r = Some s \<longrightarrow> snOwnershipToken s = None)) (\<lambda>_. untraced)"
proof (cases raw)
  case None
  then show ?thesis by (simp add: parseSidecarLockSnapshot_def triple_return)
next
  case (Some p)
  have "keeps untraced (parseSidecarLockPayload env (scopedSidecarLockParser env parser) (fst p))"
    by (cases parser) (auto simp: parseSidecarLockPayload_def scopedSidecarLockParser_def intro!: keeping)
  then show ?thesis
    using Some by (auto simp: parseSidecarLockSnapshot_def split_beta intro!: keeps_then triple_return)
qed

lemma consider_ended:
  "triple untraced (considerSnapshot env cfg raw) (\<lambda>_. ended env) (\<lambda>_. ended env)"
  unfolding considerSnapshot_def
proof (rule triple_try)
  show "triple untraced
      (bindS (observeSidecarLockParser env) (\<lambda>_.
           bindS (getS (observed \<circ> lwParser)) (\<lambda>parser.
           bindS (parseSidecarLockSnapshot env (scopedSidecarLockParser env parser) raw) (\<lambda>snapshot.
           bindS assertUnheld (\<lambda>_. returnS (parser, snapshot))))))
      (\<lambda>r w. untraced w \<and> (\<forall>s. snd r = Some s \<longrightarrow> snOwnershipToken s = None)) (\<lambda>_. untraced)"
    by (intro keeps_then [OF untraced_observe(1)] keeps_then [OF start.get_keeps] triple_bind [OF parse_untraced]
          triple_pure keeps_then [OF start.assertUnheld_keeps(2)])
      (auto intro!: triple_return)
  show "triple untraced (retryOrThrow env cfg e) (\<lambda>_. ended env) (\<lambda>_. ended env)" for e
    by (rule triple_weaken [OF free_ended [OF free.retry_keeps(3)]]) (auto intro: untraced_free)
  fix r :: "'a parser option \<times> 'a lock_snapshot option"
  obtain parser snapshot where r: "r = (parser, snapshot)" by fastforce
  have wait: "triple untraced (waitForRetry env cfg) (\<lambda>_. ended env) (\<lambda>_. ended env)"
    by (rule triple_weaken [OF free_ended [OF free.wait_keeps]]) (auto intro: untraced_free)
  have go: "triple untraced (tryS (observeStaleOptions env) (retryOrThrow env cfg) (\<lambda>_. reclaimStale env cfg parser s))
      (\<lambda>_. ended env) (\<lambda>_. ended env)" if s: "snOwnershipToken s = None" for s
  proof (rule triple_try [OF keeps_triple [OF untraced_observe(2)]])
    show "triple untraced (retryOrThrow env cfg e) (\<lambda>_. ended env) (\<lambda>_. ended env)" for e
      by (rule triple_weaken [OF free_ended [OF free.retry_keeps(3)]]) (auto intro: untraced_free)
    have "triple (\<lambda>w. \<exists>v. traced [] v w) (reclaimStale env cfg parser s) (\<lambda>_. ended env) (\<lambda>_. ended env)"
      by (intro triple_exists reclaim_ended s)
    then show "triple untraced (reclaimStale env cfg parser s) (\<lambda>_. ended env) (\<lambda>_. ended env)"
      by (rule triple_weaken) (auto simp: untraced_def traced_def)
  qed
  show "triple (\<lambda>w. untraced w \<and> (\<forall>s. snd r = Some s \<longrightarrow> snOwnershipToken s = None))
     (case r of (parser, snapshot) \<Rightarrow>
          if unusableSnapshot parser snapshot then waitForRetry env cfg
          else tryS (observeStaleOptions env) (retryOrThrow env cfg) (\<lambda>_.
                 reclaimStale env cfg parser (the snapshot)))
     (\<lambda>_. ended env) (\<lambda>_. ended env)"
    by (rule triple_pure, cases snapshot) (auto simp: r unusableSnapshot_def intro!: wait go)
qed

lemma attempt_ended: "triple untraced (handleStaleSidecarAdmission env cfg) (\<lambda>_. ended env) (\<lambda>_. ended env)"
  unfolding handleStaleSidecarAdmission_def
proof (rule triple_try)
  show "triple untraced (bindS (updateS (\<lambda>w. w\<lparr>lwOpenDenied := False\<rparr>)) (\<lambda>_.
             readSidecarLockRawSnapshot env True False (\<lambda>e. updateS (\<lambda>w. w\<lparr>lwOpenDenied := deniedOpen env e\<rparr>))))
     (\<lambda>_. untraced) (\<lambda>_. untraced)"
    by (intro keeps_triple keeps_bind start.readRaw_keeps keeps_update) (simp_all add: untraced_def)
  have wait: "triple untraced (waitForRetry env cfg) (\<lambda>_. ended env) (\<lambda>_. ended env)"
    by (rule triple_weaken [OF free_ended [OF free.wait_keeps]]) (auto intro: untraced_free)
  have ended: "ended env w" if "untraced w" for w
    using untraced_free [OF that] by (simp add: ended_def)
  show "triple untraced (bindS (retryChangedBoundary env cfg) (\<lambda>changed.
              if changed then returnS ()
              else bindS (getS lwOpenDenied) (\<lambda>denied.
                   bindS (if denied then withinDenialBudget else returnS False) (\<lambda>retry.
                     if retry then retryOrRethrowDenial env cfg e else throwS e))))
     (\<lambda>_. ended env) (\<lambda>_. ended env)" for e
    by (rule triple_weaken [OF free_ended [where env = env]])
      (intro keeps_bind keeps_if free.retry_keeps free.budget_keeps free.get_keeps keeps_basic, auto intro: untraced_free)
  show "triple untraced (bindS assertAdmissionToken (\<lambda>_.
          bindS currentHeld (\<lambda>held.
            if held then waitForRetry env cfg else considerSnapshot env cfg raw)))
     (\<lambda>_. ended env) (\<lambda>_. ended env)" for raw
    by (intro keeps_then [OF start.assertUnheld_keeps(1)] keeps_then [OF start.assertUnheld_keeps(3)])
      (auto intro: ended wait consider_ended)
qed

text \<open>C27: however other processes and other tasks interleave with an attempt on an existing lock, and
  whatever system calls and callbacks fail, a lock is removed only by an attempt that asked for removal,
  was told to reclaim, found the lock unchanged, took the guard, found it unchanged again, had the
  removal approved and found it unchanged once more; then at most the guard is dropped. If others respect
  the guard, the file removed has exactly the text that was approved.\<close>

theorem stale_removal_decided:
  assumes "handleStaleSidecarAdmission env cfg w = (r, w')" "lwTrace w = []" "Lock_removed inode \<in> set (lwTrace w')"
  shows "observed (lwStaleRecovery w') = Some Remove_if_unchanged \<and>
    (\<exists>info evs. set evs \<subseteq> {Guard_dropped} \<and> (if respectsGuard env then inText inode = ssRaw info else True) \<and>
       lwTrace w' = [Reclaim_answered True, Present_unchanged, Guard_taken, Present_unchanged,
                     Removal_approved info, Present_unchanged, Removal_authorised, Lock_removed inode] @ evs)"
proof -
  have "ended env w'"
    using triple_run [OF attempt_ended _ assms(1)] assms(2) by (auto simp: untraced_def split: sum.splits)
  then show ?thesis
    using assms(3) by (auto simp: ended_def removalFree_def decidedRemoval_def)
qed

text \<open>A lock that nobody touches, whose payload is its creation time.\<close>

definition calmEnv :: "rat lock_env" where
  "calmEnv = \<lparr>enPlatform = Posix, enLockPath = js ''/l'', enProcesses = (\<lambda>_ fs. fs), enTasks = (\<lambda>_ p. p),
     enFault = (\<lambda>_. None), enParsePayload = (\<lambda>_. Inr None), enShouldReclaim = (\<lambda>_. Inr None),
     enShouldRemove = (\<lambda>_. Inr (Some (\<lambda>_ q. Inr (ssRaw q = js ''{}'')))),
     enStaleRecovery = (\<lambda>_. Inr (Some Remove_if_unchanged)), enNowMs = (\<lambda>_. 100), enElapsed = (\<lambda>_. 0),
     enRandom = (\<lambda>_. 0), enTorn = (\<lambda>_ _ b. b), enJsonObject = (\<lambda>_. Some 0), enCreatedAt = Some\<rparr>"

definition calmConfig :: lock_config where
  "calmConfig = \<lparr>lcRetry = \<lparr>roRetries = Some (Finite 3), roFactor = None, roMinTimeout = None, roMaxTimeout = None,
      roRandomize = False\<rparr>, lcTimeoutMs = None, lcStaleMs = Some (Finite 10)\<rparr>"

definition abandonedLock :: lock_inode where
  "abandonedLock = \<lparr>inText = js ''{}'', inSize = 2,
     inStat = \<lparr>lsIsFile = True, lsIsSymlink = False, lsIdentity = \<lparr>fiDev = Big 1, fiIno = Big 2\<rparr>, lsMtimeMs = 0\<rparr>,
     inIsDirectory = False, inTarget = None\<rparr>"

definition calmWorld :: "rat lock_world" where
  "calmWorld = \<lparr>lwFs = \<lparr>lfEntry = Some 0, lfInode = (\<lambda>_. abandonedLock), lfGuard = False\<rparr>,
     lwAdmission = \<lparr>laHeld = False, laToken = True\<rparr>, lwStep = 0, lwAttempt = 0, lwDenials = 0, lwOpenDenied = False,
     lwParser = None, lwShouldReclaim = None, lwShouldRemove = None, lwStaleRecovery = None, lwReclaimGuard = None,
     lwGuards = False, lwTrace = []\<rparr>"

text \<open>Operations unfold only where they are applied to a state.\<close>

lemma bindS_at: "bindS m f s = (case m s of (r, t) \<Rightarrow> (case r of Inl e \<Rightarrow> (Inl e, t) | Inr x \<Rightarrow> f x t))"
  by (simp add: bindS_def split: prod.splits sum.splits)

lemma tryS_at: "tryS m h k s = (case m s of (r, t) \<Rightarrow> (case r of Inl e \<Rightarrow> h e t | Inr x \<Rightarrow> k x t))"
  by (simp add: tryS_def split: prod.splits sum.splits)

lemma finallyS_at:
  "finallyS m f s = (case m s of (r, t) \<Rightarrow> (case f t of (q, u) \<Rightarrow> (case q of Inl e \<Rightarrow> (Inl e, u) | Inr _ \<Rightarrow> (r, u))))"
  by (simp add: finallyS_def split: prod.splits sum.splits)

lemmas runs =
  handleStaleSidecarAdmission_def [THEN fun_cong] considerSnapshot_def [THEN fun_cong]
  reclaimStale_def [THEN fun_cong] recoverStale_def [THEN fun_cong] removeUnderGuard_def [THEN fun_cong]
  afterRemoval_def [THEN fun_cong] removeStaleSidecarLockIfAllowed_def [THEN fun_cong]
  removeApproved_def [THEN fun_cong] sidecarLockSnapshotStillPresent_def [THEN fun_cong]
  readSidecarLockComparisonSnapshot_def [THEN fun_cong] readSidecarLockRawSnapshot_def [THEN fun_cong]
  readOpenedLock_def [THEN fun_cong] readLockText_def [THEN fun_cong] openLockFile_def [THEN fun_cong]
  lstatSidecarLockSync_def [THEN fun_cong] parseSidecarLockSnapshot_def [THEN fun_cong]
  parseSidecarLockPayload_def [THEN fun_cong] observeSidecarLockParser_def [THEN fun_cong]
  observeStaleOptions_def [THEN fun_cong] observeOnce_def [THEN fun_cong] askReclaim_def [THEN fun_cong]
  askRemoval_def [THEN fun_cong] tryAcquireSidecarReclaimGuard_def [THEN fun_cong]
  assertUnheld_def [THEN fun_cong] assertAdmissionToken_def [THEN fun_cong] currentHeld_def [THEN fun_cong]
  callbackS_def [THEN fun_cong] awaitS_def [THEN fun_cong] yieldS_def [THEN fun_cong] noteS_def [THEN fun_cong]
  sysS_def [THEN fun_cong] getS_def [THEN fun_cong] updateS_def [THEN fun_cong] throwWhen_def [THEN fun_cong]
  returnS_def [THEN fun_cong] bindS_at tryS_at finallyS_at

lemmas calm_defs =
  calmEnv_def calmConfig_def calmWorld_def abandonedLock_def scopedSidecarLockParser_def observed_def
  lstatCall_def openCall_def fstatCall_def readCall_def mkdirCall_def rmCall_def sameStat_def
  unusableSnapshot_def isIncompleteSidecarLockRecord_def hasChar_def sidecarLockSnapshotMatches_def
  sameFileIdentity_def identityFromReceipt_def isExactStatValue_def isStatValueProvablyDifferent_def
  sameStatValue_def cleanup_identity_iff hasSafeFileIdentity_def statNumber_def MAX_LOCK_PAYLOAD_BYTES_def
  defaultSidecarLockShouldReclaim_def exceeds_def Let_def

lemma calm_run:
  "lwTrace (snd (handleStaleSidecarAdmission calmEnv calmConfig calmWorld)) =
     [Reclaim_answered True, Present_unchanged, Guard_taken, Present_unchanged,
      Removal_approved \<lparr>ssRaw = js ''{}'', ssPayload = Some 0\<rparr>, Present_unchanged, Removal_authorised,
      Lock_removed abandonedLock]"
  by (simp add: runs calm_defs cong: prod.case_cong_weak sum.case_cong_weak if_weak_cong option.case_cong_weak)

theorem stale_removal_decided_witness:
  "respectsGuard calmEnv \<and>
   (\<exists>info. inText abandonedLock = ssRaw info \<and>
      Removal_approved info \<in> set (lwTrace (snd (handleStaleSidecarAdmission calmEnv calmConfig calmWorld))))"
proof -
  obtain r w where run: "handleStaleSidecarAdmission calmEnv calmConfig calmWorld = (r, w)" by fastforce
  have respects: "respectsGuard calmEnv" by (auto simp: respectsGuard_def calmEnv_def sameLock_def split: option.splits)
  have empty: "lwTrace calmWorld = []" by (simp add: calmWorld_def)
  have "Lock_removed abandonedLock \<in> set (lwTrace w)" using calm_run unfolding run by simp
  from stale_removal_decided [OF run empty this] respects show ?thesis by (auto simp: run)
qed

end
