(* ===== verification/SidecarOutcome.thy ===== *)
theory SidecarOutcome
  imports SidecarSafety
begin

text \<open>
  How an attempt on an existing lock may fail. The value that marks a changed holder inside an attempt
  never leaves it, and \<open>file_lock_stale\<close> is thrown only of a lock that was judged stale and then found
  unchanged. Only the attempt itself throws the two; what the system calls and the caller throw is their
  own.
\<close>

definition never :: "'e \<Rightarrow> ('s, 'e, 'a) op \<Rightarrow> bool" where
  "never x m \<longleftrightarrow> (\<forall>s. fst (m s) \<noteq> Inl x)"

named_theorems nevers \<open>what does not throw a given value\<close>

lemma never_basic [nevers]:
  "never x (returnS y)" "never x (updateS f)" "never x (getS g)" "e \<noteq> x \<Longrightarrow> never x (throwS e)"
  "e \<noteq> x \<Longrightarrow> never x (throwWhen b e)" "never x (noteS v)" "never x (yieldS env)"
  by (auto simp: never_def returnS_def updateS_def getS_def throwS_def liftS_def throwWhen_def noteS_def yieldS_def)

lemma never_bind [nevers]: "never x m \<Longrightarrow> (\<And>y. never x (f y)) \<Longrightarrow> never x (bindS m f)"
  unfolding never_def bindS_def by (auto split: prod.splits sum.splits) (metis fst_conv)+

lemma never_try: "never x m \<Longrightarrow> (\<And>e. e \<noteq> x \<Longrightarrow> never x (h e)) \<Longrightarrow> (\<And>y. never x (k y)) \<Longrightarrow> never x (tryS m h k)"
  unfolding never_def tryS_def by (auto split: prod.splits sum.splits) (metis fst_conv)+

lemma never_catch [nevers]: "(\<And>e. never x (h e)) \<Longrightarrow> (\<And>y. never x (k y)) \<Longrightarrow> never x (tryS m h k)"
  unfolding never_def tryS_def by (auto split: prod.splits sum.splits)

lemma never_finally [nevers]: "never x m \<Longrightarrow> never x f \<Longrightarrow> never x (finallyS m f)"
  unfolding never_def finallyS_def by (auto split: prod.splits sum.splits) (metis fst_conv)+

lemma never_if [nevers]: "(b \<Longrightarrow> never x m) \<Longrightarrow> (\<not> b \<Longrightarrow> never x n) \<Longrightarrow> never x (if b then m else n)"
  by simp

lemma never_case_option [nevers]:
  "never x m \<Longrightarrow> (\<And>y. never x (f y)) \<Longrightarrow> never x (case v of None \<Rightarrow> m | Some y \<Rightarrow> f y)"
  by (cases v) auto

text \<open>The two values that only the attempt itself throws.\<close>

definition ownMarks :: "lock_error set" where
  "ownMarks = {Holder_changed, Lock_stale}"

lemma never_sys:
  "x \<in> ownMarks \<Longrightarrow> (\<And>fs. fst (call fs) \<noteq> Inl x) \<Longrightarrow> never x (sysS env call)"
  by (auto simp: never_def sysS_def ownMarks_def Let_def split: option.splits prod.splits) (metis fst_conv)+

lemma never_calls [nevers]:
  assumes "x \<in> ownMarks"
  shows "never x (sysS env lstatCall)" "never x (sysS env (fstatCall i))" "never x (awaitS env (openCall env'))"
    "never x (awaitS env (readCall i))" "never x (awaitS env rmCall)" "never x (awaitS env mkdirCall)"
    "never x (awaitS env rmdirCall)"
  using assms unfolding awaitS_def
  by (intro never_bind never_finally never_basic never_sys;
      auto simp: ownMarks_def enoent_def lstatCall_def fstatCall_def openCall_def readCall_def rmCall_def mkdirCall_def
        rmdirCall_def split: option.splits)+

lemma never_callback [nevers]: "x \<in> ownMarks \<Longrightarrow> never x (callbackS env answer)"
  unfolding callbackS_def
  by (rule never_bind, rule never_basic) (auto simp: never_def ownMarks_def split: sum.splits)

lemma never_liftLock [nevers]: "x \<in> ownMarks \<Longrightarrow> never x (liftLock r)"
  by (cases r) (auto simp: liftLock_def ownMarks_def intro!: never_basic)

lemma never_notFile [nevers]: "x \<in> ownMarks \<Longrightarrow> never x (notFile b)"
  by (auto simp: notFile_def ownMarks_def intro!: never_basic)

lemma never_read [nevers]:
  assumes "x \<in> ownMarks"
  shows "never x (lstatSidecarLockSync env)" "never x (readLockText env i)" "never x (readOpenedLock env b d st i)"
proof -
  show lstat: "never x (lstatSidecarLockSync env)"
    unfolding lstatSidecarLockSync_def by (rule never_try) (auto intro!: nevers assms)
  show body: "never x (readLockText env i)"
    unfolding readLockText_def by (intro nevers assms)
  show "never x (readOpenedLock env b d st i)"
    unfolding readOpenedLock_def by (intro nevers assms lstat body)
qed

lemma never_readRaw [nevers]:
  assumes "x \<in> ownMarks" "\<And>e. never x (h e)"
  shows "never x (readSidecarLockRawSnapshot env b d h)"
proof -
  have "never x (openLockFile env b h)"
    unfolding openLockFile_def by (rule never_try) (auto intro!: nevers assms)
  then show ?thesis
    unfolding readSidecarLockRawSnapshot_def by (intro nevers assms)
qed

lemma never_wait [nevers]:
  assumes "x \<in> ownMarks"
  shows "never x (waitForRetry env cfg)" "never x assertAdmissionToken" "never x (releaseReclaimGuard env)"
    "never x (releaseAndWait env cfg)" "never x currentHeld" "never x withinDenialBudget"
    "never x (tryAcquireSidecarReclaimGuard env)"
proof -
  have "Lock_timeout \<noteq> x" using assms by (auto simp: ownMarks_def)
  note basics = nevers assms this
  show wait: "never x (waitForRetry env cfg)" unfolding waitForRetry_def by (intro basics)
  show "never x assertAdmissionToken" unfolding assertAdmissionToken_def by (intro basics)
  show release: "never x (releaseReclaimGuard env)"
    unfolding releaseReclaimGuard_def releaseGuard_def by (intro basics)
  show "never x (releaseAndWait env cfg)" unfolding releaseAndWait_def by (intro basics wait release)
  show "never x currentHeld" unfolding currentHeld_def by (intro basics)
  show "never x withinDenialBudget" unfolding withinDenialBudget_def by (intro basics)
  show "never x (tryAcquireSidecarReclaimGuard env)"
    unfolding tryAcquireSidecarReclaimGuard_def by (rule never_try) (auto intro!: basics)
qed

lemma never_retry [nevers]:
  assumes "x \<in> ownMarks"
  shows "never x (retryHolderChange env cfg e)" "e \<noteq> x \<Longrightarrow> never x (retryOrRethrowDenial env cfg e)"
proof -
  show "never x (retryHolderChange env cfg e)" unfolding retryHolderChange_def by (intro nevers assms)
  show "never x (retryOrRethrowDenial env cfg e)" if "e \<noteq> x"
    unfolding retryOrRethrowDenial_def using that by (intro never_try nevers assms) simp_all
qed

subsection \<open>The changed holder stays inside\<close>

lemma holder_mark: "Holder_changed \<in> ownMarks" "Lock_stale \<noteq> Holder_changed" "Lock_timeout \<noteq> Holder_changed"
  by (simp_all add: ownMarks_def)

text \<open>A thrown mark is waited for, so it is not thrown on.\<close>

lemma holder_retried:
  assumes "\<And>e. e \<noteq> Holder_changed \<Longrightarrow> never Holder_changed (m e)"
  shows "never Holder_changed (bindS (retryHolderChange env cfg e) (\<lambda>retried. if retried then returnS y else m e))"
proof (cases "e = Holder_changed")
  case True
  have "fst (waitForRetry env cfg s) \<noteq> Inl Holder_changed" for s
    using never_wait(1) [OF holder_mark(1)] by (auto simp: never_def)
  then show ?thesis
    using True by (auto simp: never_def retryHolderChange_def bindS_def returnS_def split: prod.splits sum.splits)
      (metis fst_conv)
qed (intro nevers holder_mark assms)

lemma never_holder [nevers]:
  "never Holder_changed (retryChangedBoundary env cfg)" "never Holder_changed (retryOrThrow env cfg e)"
proof -
  show boundary: "never Holder_changed (retryChangedBoundary env cfg)"
    unfolding retryChangedBoundary_def by (intro never_catch holder_retried nevers)
  show "never Holder_changed (retryOrThrow env cfg e)"
    unfolding retryOrThrow_def by (intro holder_retried never_bind boundary never_if nevers)
qed

lemma attempt_keeps_mark: "never Holder_changed (handleStaleSidecarAdmission env cfg)"
proof -
  have failed: "never Holder_changed (afterFailedRemoval env cfg e)" for e
    unfolding afterFailedRemoval_def by (intro nevers holder_mark never_catch) auto
  have settle: "never Holder_changed (case removal of Removed \<Rightarrow> returnS () | Changed \<Rightarrow> waitForRetry env cfg
      | Not_approved \<Rightarrow> bindS (releaseReclaimGuard env) (\<lambda>_. throwS Lock_stale))" for removal
    by (cases removal) (auto intro!: nevers holder_mark)
  have after: "never Holder_changed (afterRemoval env cfg removal)" for removal
    unfolding afterRemoval_def by (intro nevers holder_mark settle)
  have recover: "never Holder_changed (recoverStale env cfg parser s)" for parser s
    unfolding recoverStale_def removeUnderGuard_def by (intro nevers holder_mark failed after)
  have reclaim: "never Holder_changed (reclaimStale env cfg parser s)" for parser s
    unfolding reclaimStale_def by (intro nevers holder_mark recover)
  have considered: "never Holder_changed (considerSnapshot env cfg raw)" for raw
    unfolding considerSnapshot_def split_beta by (intro nevers holder_mark reclaim)
  show ?thesis
    unfolding handleStaleSidecarAdmission_def
    by (rule never_try) (intro nevers holder_mark considered | assumption)+
qed

subsection \<open>The trace only grows\<close>

text \<open>An assertion that no event, call or option of the attempt invalidates is kept by all of it.\<close>

locale lasting = ambient +
  assumes event: "I w \<Longrightarrow> I (w\<lparr>lwTrace := lwTrace w @ [v]\<rparr>)"
    and files: "I w \<Longrightarrow> I (w\<lparr>lwStep := k, lwFs := fs\<rparr>)"
    and guards: "I w \<Longrightarrow> I (w\<lparr>lwGuards := b\<rparr>)" "I w \<Longrightarrow> I (w\<lparr>lwReclaimGuard := g\<rparr>)"
begin

lemma note_lasts [keeping]: "keeps I (noteS v)"
  unfolding noteS_def by (intro keeps_update event)

lemma sys_lasts: "keeps I (sysS env call)"
  using files
  by (auto simp: keeps_def triple_def sysS_def Let_def split: option.splits prod.splits sum.splits)

lemma await_lasts [keeping]: "keeps I (awaitS env call)"
  unfolding awaitS_def by (intro keeping sys_lasts)

lemma release_lasts [keeping]: "keeps I (releaseReclaimGuard env)" "keeps I (releaseAndWait env cfg)"
  unfolding releaseReclaimGuard_def releaseGuard_def releaseAndWait_def
  by (intro keeping keeps_update guards; simp add: guards)+

lemma present_lasts [keeping]:
  "keeps I (sidecarLockSnapshotStillPresent env (scopedSidecarLockParser env parser) snapshot)"
  unfolding sidecarLockSnapshotStillPresent_def Let_def by (intro keeping)

lemma removal_lasts [keeping]:
  "keeps I (removeStaleSidecarLockIfAllowed env snapshot (map_option (askRemoval env) f)
     (scopedSidecarLockParser env parser) assertUnheld)"
  unfolding removeStaleSidecarLockIfAllowed_def removeApproved_def
  by (cases f; cases "snRaw snapshot"; simp; intro keeping)

lemma recover_lasts: "keeps I (recoverStale env cfg parser snapshot)"
proof -
  have "keeps I (case removal of Removed \<Rightarrow> returnS () | Changed \<Rightarrow> waitForRetry env cfg
      | Not_approved \<Rightarrow> bindS (releaseReclaimGuard env) (\<lambda>_. throwS Lock_stale))" for removal
    by (cases removal) (auto intro!: keeping)
  then have "keeps I (afterRemoval env cfg removal)" "keeps I (afterFailedRemoval env cfg e)" for removal e
    unfolding afterRemoval_def afterFailedRemoval_def by (intro keeping; simp)+
  then show ?thesis
    unfolding recoverStale_def removeUnderGuard_def tryAcquireSidecarReclaimGuard_def
    by (intro keeping keeps_update) (simp_all add: guards)
qed

end

definition judgedStale :: "'p lock_world \<Rightarrow> bool" where
  "judgedStale w \<longleftrightarrow> (\<exists>evs. lwTrace w = [Reclaim_answered True, Present_unchanged] @ evs)"

interpretation judged: lasting env judgedStale for env
  by unfold_locales (auto simp: judgedStale_def)

text \<open>The only place that throws \<open>Lock_stale\<close> is behind the judgement.\<close>

definition staleJudged :: "lock_error \<Rightarrow> 'p lock_world \<Rightarrow> bool" where
  "staleJudged e w \<longleftrightarrow> (if e = Lock_stale then judgedStale w else True)"

lemma never_judged: "never Lock_stale m \<Longrightarrow> triple P m (\<lambda>_ _. True) staleJudged"
  by (auto simp: never_def triple_def staleJudged_def split: prod.splits sum.splits) (metis fst_conv)

lemma triple_never: "triple P m Q E \<Longrightarrow> never x m \<Longrightarrow> triple P m Q (\<lambda>e w. E e w \<and> e \<noteq> x)"
proof (unfold triple_def, intro allI impI)
  fix s
  assume "\<forall>s. P s \<longrightarrow> (case m s of (Inl e, t) \<Rightarrow> E e t | (Inr y, t) \<Rightarrow> Q y t)" "never x m" "P s"
  then have "case m s of (Inl e, t) \<Rightarrow> E e t | (Inr y, t) \<Rightarrow> Q y t" "fst (m s) \<noteq> Inl x"
    by (simp_all add: never_def)
  then show "case m s of (Inl e, t) \<Rightarrow> E e t \<and> e \<noteq> x | (Inr y, t) \<Rightarrow> Q y t"
    by (cases "m s"; cases "fst (m s)") auto
qed

lemma stale_mark: "Lock_stale \<in> ownMarks" "Holder_changed \<noteq> Lock_stale" "Lock_timeout \<noteq> Lock_stale"
  by (simp_all add: ownMarks_def)

lemma never_stale [nevers]:
  "never Lock_stale assertUnheld" "never Lock_stale (guardedCallback env f)"
  "e \<noteq> Lock_stale \<Longrightarrow> never Lock_stale (retryOrThrow env cfg e)"
  "never Lock_stale (retryChangedBoundary env cfg)"
  "never Lock_stale (observeSidecarLockParser env)" "never Lock_stale (observeStaleOptions env)"
  "never Lock_stale (parseSidecarLockSnapshot env (scopedSidecarLockParser env parser) raw)"
  "never Lock_stale (askReclaim env cfg snapshot)"
proof -
  note basics = nevers stale_mark
  show unheld: "never Lock_stale assertUnheld" unfolding assertUnheld_def by (intro basics)
  show guarded: "never Lock_stale (guardedCallback env f)" for f :: "nat \<Rightarrow> error + 'z"
    unfolding guardedCallback_def by (intro basics unheld)
  show boundary: "never Lock_stale (retryChangedBoundary env cfg)"
    unfolding retryChangedBoundary_def by (rule never_try) (auto intro!: basics unheld)
  show "never Lock_stale (retryOrThrow env cfg e)" if "e \<noteq> Lock_stale"
    unfolding retryOrThrow_def using that by (intro basics boundary)
  show "never Lock_stale (observeSidecarLockParser env)"
    unfolding observeSidecarLockParser_def by (intro basics unheld)
  show "never Lock_stale (observeStaleOptions env)"
    unfolding observeStaleOptions_def observeOnce_def by (intro basics unheld)
  have "never Lock_stale (f r)" if "scopedSidecarLockParser env parser = Some f" for f r
    using that guarded by (auto simp: scopedSidecarLockParser_def)
  then have "never Lock_stale (parseSidecarLockPayload env (scopedSidecarLockParser env parser) r)" for r
    unfolding parseSidecarLockPayload_def
    by (cases "scopedSidecarLockParser env parser") (simp_all add: never_basic)
  then show "never Lock_stale (parseSidecarLockSnapshot env (scopedSidecarLockParser env parser) raw)"
    unfolding parseSidecarLockSnapshot_def split_beta by (intro basics)
  show "never Lock_stale (askReclaim env cfg snapshot)"
    unfolding askReclaim_def by (intro basics unheld)
qed

lemma keeps_judged:
  "keeps I m \<Longrightarrow> never Lock_stale m \<Longrightarrow> (\<And>x. triple I (f x) (\<lambda>_ _. True) staleJudged) \<Longrightarrow>
   triple I (bindS m f) (\<lambda>_ _. True) staleJudged"
  by (rule triple_bind [where R = "\<lambda>_. I"], rule triple_weaken [OF triple_never [OF keeps_triple]])
    (auto simp: staleJudged_def)

lemma recover_judged:
  "triple (traced [Reclaim_answered True, Present_unchanged] v) (recoverStale env cfg parser snapshot)
     (\<lambda>_ _. True) staleJudged"
  by (rule keeps_weaken [OF judged.recover_lasts]) (auto simp: staleJudged_def judgedStale_def traced_def)

lemma reclaim_judged: "triple (traced [] v) (reclaimStale env cfg parser snapshot) (\<lambda>_ _. True) staleJudged"
proof -
  have wait: "triple P (waitForRetry env cfg) (\<lambda>_ _. True) staleJudged" for P :: "'a lock_world \<Rightarrow> bool"
    by (intro never_judged nevers stale_mark)
  have retry: "triple (\<lambda>w. R e w \<and> e \<noteq> Lock_stale) (retryOrThrow env cfg e) (\<lambda>_ _. True) staleJudged"
    for R and e :: lock_error
    by (rule triple_pure) (intro never_judged nevers)
  have present: "triple (traced [Reclaim_answered True] v)
      (bindS (sidecarLockSnapshotStillPresent env (scopedSidecarLockParser env parser) snapshot) (\<lambda>present.
         bindS assertUnheld (\<lambda>_. returnS present)))
      (\<lambda>p. traced (if p then [Reclaim_answered True, Present_unchanged] else [Reclaim_answered True]) v) (\<lambda>_ _. True)"
  proof (rule triple_bind)
    show "triple (traced [Reclaim_answered True] v)
       (sidecarLockSnapshotStillPresent env (scopedSidecarLockParser env parser) snapshot)
       (\<lambda>p. traced (if p then [Reclaim_answered True, Present_unchanged] else [Reclaim_answered True]) v) (\<lambda>_ _. True)"
      by (rule triple_weaken [OF traced_present]) (auto split: if_splits)
  qed (auto intro!: keeps_then [OF trace.assertUnheld_keeps(2)] triple_return)
  have quiet: "never Lock_stale
      (bindS (sidecarLockSnapshotStillPresent env (scopedSidecarLockParser env parser) snapshot) (\<lambda>present.
         bindS assertUnheld (\<lambda>_. returnS present)))"
    unfolding sidecarLockSnapshotStillPresent_def readSidecarLockComparisonSnapshot_def Let_def
    by (intro nevers stale_mark)
  have recover: "triple (traced [Reclaim_answered True, Present_unchanged] v)
      (bindS (getS (observed \<circ> lwStaleRecovery)) (\<lambda>recovery.
         if recovery = Some Remove_if_unchanged then recoverStale env cfg parser snapshot else throwS Lock_stale))
      (\<lambda>_ _. True) staleJudged"
    by (intro keeps_judged [OF trace.get_keeps] never_basic)
      (auto simp: staleJudged_def judgedStale_def traced_def intro!: recover_judged triple_throw)
  have rest: "triple (traced (if p then [Reclaim_answered True, Present_unchanged] else [Reclaim_answered True]) v)
      (if \<not> p then waitForRetry env cfg
       else bindS (getS (observed \<circ> lwStaleRecovery)) (\<lambda>recovery.
              if recovery = Some Remove_if_unchanged then recoverStale env cfg parser snapshot
              else throwS Lock_stale))
      (\<lambda>_ _. True) staleJudged" for p
    using recover wait by (cases p) auto
  have asked: "triple (traced [Reclaim_answered b] v)
      (if \<not> b then waitForRetry env cfg
       else tryS (bindS (sidecarLockSnapshotStillPresent env (scopedSidecarLockParser env parser) snapshot) (\<lambda>present.
                    bindS assertUnheld (\<lambda>_. returnS present)))
              (retryOrThrow env cfg) (\<lambda>stillPresent.
              if \<not> stillPresent then waitForRetry env cfg
              else bindS (getS (observed \<circ> lwStaleRecovery)) (\<lambda>recovery.
                     if recovery = Some Remove_if_unchanged then recoverStale env cfg parser snapshot
                     else throwS Lock_stale)))
      (\<lambda>_ _. True) staleJudged" for b
    by (cases b) (auto intro!: wait triple_try [OF triple_never [OF present quiet] retry rest])
  show ?thesis
    unfolding reclaimStale_def
    by (rule triple_try [OF triple_never [OF askReclaim_traced [where l = "[]", simplified append_Nil]] retry asked])
      (rule never_stale)
qed

lemma attempt_judged: "triple untraced (handleStaleSidecarAdmission env cfg) (\<lambda>_ _. True) staleJudged"
proof -
  have retry: "triple (\<lambda>w. R e w \<and> e \<noteq> Lock_stale) (retryOrThrow env cfg e) (\<lambda>_ _. True) staleJudged"
    for R and e :: lock_error
    by (rule triple_pure) (intro never_judged nevers)
  have wait: "triple P (waitForRetry env cfg) (\<lambda>_ _. True) staleJudged" for P :: "'a lock_world \<Rightarrow> bool"
    by (intro never_judged nevers stale_mark)
  have reclaim: "triple untraced (reclaimStale env cfg parser s) (\<lambda>_ _. True) staleJudged" for parser s
    by (rule triple_weaken [OF triple_exists [OF reclaim_judged]]) (auto simp: untraced_def traced_def)
  have options: "triple untraced (tryS (observeStaleOptions env) (retryOrThrow env cfg) (\<lambda>_. reclaimStale env cfg parser s))
      (\<lambda>_ _. True) staleJudged" for parser s
    by (rule triple_try [OF triple_never [OF keeps_triple [OF untraced_observe(2)]] retry reclaim]) (rule never_stale)
  have body: "keeps untraced
      (bindS (observeSidecarLockParser env) (\<lambda>_.
           bindS (getS (observed \<circ> lwParser)) (\<lambda>parser.
           bindS (parseSidecarLockSnapshot env (scopedSidecarLockParser env parser) raw) (\<lambda>snapshot.
           bindS assertUnheld (\<lambda>_. returnS (parser, snapshot))))))" for raw
    by (intro keeps_bind untraced_observe keeping)
  have quiet: "never Lock_stale
      (bindS (observeSidecarLockParser env) (\<lambda>_.
           bindS (getS (observed \<circ> lwParser)) (\<lambda>parser.
           bindS (parseSidecarLockSnapshot env (scopedSidecarLockParser env parser) raw) (\<lambda>snapshot.
           bindS assertUnheld (\<lambda>_. returnS (parser, snapshot))))))" for raw
    by (intro never_bind never_stale never_basic)
  have considered: "triple untraced (considerSnapshot env cfg raw) (\<lambda>_ _. True) staleJudged" for raw
    unfolding considerSnapshot_def split_beta
    by (rule triple_try [OF triple_never [OF keeps_triple [OF body] quiet] retry]) (auto intro: wait options)
  have read: "triple untraced (bindS (updateS (\<lambda>w. w\<lparr>lwOpenDenied := False\<rparr>)) (\<lambda>_.
             readSidecarLockRawSnapshot env True False (\<lambda>e. updateS (\<lambda>w. w\<lparr>lwOpenDenied := deniedOpen env e\<rparr>))))
     (\<lambda>_. untraced) (\<lambda>_. untraced)"
    by (intro keeps_triple keeps_bind start.readRaw_keeps keeps_update) (simp_all add: untraced_def)
  have unstale: "never Lock_stale (bindS (updateS (\<lambda>w. w\<lparr>lwOpenDenied := False\<rparr>)) (\<lambda>_.
             readSidecarLockRawSnapshot env True False (\<lambda>e. updateS (\<lambda>w. w\<lparr>lwOpenDenied := deniedOpen env e\<rparr>))))"
    by (intro nevers stale_mark)
  show ?thesis
    unfolding handleStaleSidecarAdmission_def
  proof (rule triple_try [OF triple_never [OF read unstale]])
    show "triple (\<lambda>w. untraced w \<and> e \<noteq> Lock_stale)
      (bindS (retryChangedBoundary env cfg) (\<lambda>changed.
              if changed then returnS ()
              else bindS (getS lwOpenDenied) (\<lambda>denied.
                   bindS (if denied then withinDenialBudget else returnS False) (\<lambda>retry.
                     if retry then retryOrRethrowDenial env cfg e else throwS e))))
      (\<lambda>_ _. True) staleJudged" for e
      by (rule triple_pure, rule never_judged) (intro nevers stale_mark | assumption)+
    show "triple untraced (bindS assertAdmissionToken (\<lambda>_.
          bindS currentHeld (\<lambda>held.
            if held then waitForRetry env cfg else considerSnapshot env cfg raw)))
      (\<lambda>_ _. True) staleJudged" for raw
      by (intro keeps_judged [OF start.assertUnheld_keeps(1)] keeps_judged [OF start.assertUnheld_keeps(3)]
            never_wait [OF stale_mark(1)])
        (auto intro: wait considered)
  qed
qed

text \<open>C28: an attempt on an existing lock that fails never lets the internal mark of a changed holder
  escape, and it reports a stale lock only after the lock was judged reclaimable and then found unchanged;
  whatever other processes, tasks, failing calls and callbacks do.\<close>

theorem attempt_errors:
  assumes "lwTrace w = []" "handleStaleSidecarAdmission env cfg w = (Inl e, w')"
  shows "e \<noteq> Holder_changed \<and>
    (if e = Lock_stale then \<exists>evs. lwTrace w' = [Reclaim_answered True, Present_unchanged] @ evs else True)"
proof -
  have "e \<noteq> Holder_changed"
    using attempt_keeps_mark [of env cfg, unfolded never_def, THEN spec, of w] by (simp add: assms(2))
  moreover have "staleJudged e w'"
    using triple_run [OF attempt_judged _ assms(2)] assms(1) by (simp add: untraced_def)
  ultimately show ?thesis by (auto simp: staleJudged_def judgedStale_def split: if_splits)
qed

text \<open>Recovery that was not asked for.\<close>

lemma closed_run:
  "handleStaleSidecarAdmission (calmEnv\<lparr>enStaleRecovery := \<lambda>_. Inr None\<rparr>) calmConfig calmWorld =
     (Inl Lock_stale, snd (handleStaleSidecarAdmission (calmEnv\<lparr>enStaleRecovery := \<lambda>_. Inr None\<rparr>) calmConfig calmWorld))"
  by (simp add: runs calm_defs throwS_def liftS_def
      cong: prod.case_cong_weak sum.case_cong_weak if_weak_cong option.case_cong_weak)

theorem attempt_errors_witness:
  "fst (handleStaleSidecarAdmission (calmEnv\<lparr>enStaleRecovery := \<lambda>_. Inr None\<rparr>) calmConfig calmWorld) = Inl Lock_stale \<and>
   (\<exists>evs. lwTrace (snd (handleStaleSidecarAdmission (calmEnv\<lparr>enStaleRecovery := \<lambda>_. Inr None\<rparr>) calmConfig calmWorld)) =
      [Reclaim_answered True, Present_unchanged] @ evs)"
proof -
  have "lwTrace calmWorld = []" by (simp add: calmWorld_def)
  from attempt_errors [OF this closed_run] show ?thesis
    using arg_cong [OF closed_run, of fst] by (simp only: if_True simp_thms fst_conv)
qed

end
