(* ===== verification/RootPath.thy ===== *)
theory RootPath
  imports PathPrefix Containment
begin

text \<open>
  Resolution of a path under a root (\<open>src/root-path.ts\<close>, \<open>src/root-path-existing.ts\<close>, the boundary test
  of \<open>src/root-boundary.ts\<close>) on a POSIX host: the walk that follows a path from the root, keeping the
  path as spelled and the canonical path side by side, and checks after every step that the canonical
  path is inside the root. The file system calls are parameters that may answer anything at any time.
  The walk is the one without an observation or removal receipt; both drivers of the code, synchronous
  and suspended, run it. On POSIX the Windows alias checks do nothing and \<open>path.resolve\<close> is what
  \<open>resolvePathPreservingWindowsRoot\<close> computes.
\<close>

record 's root_io = "'s prefix_io" +
  ioStat :: "jstr \<Rightarrow> ('s, error, big_stat) op"
  ioExists :: "jstr \<Rightarrow> 's \<Rightarrow> bool \<times> 's"

subsection \<open>The boundary\<close>

record admitted_path =
  apPath :: jstr
  apRelative :: jstr

definition insideBySpelling :: "jstr \<Rightarrow> jstr \<Rightarrow> bool" where
  "insideBySpelling rootPath candidatePath \<longleftrightarrow>
     posixIsAbsolute rootPath \<and> posixIsAbsolute candidatePath \<and> \<not> hasSlashDotDot candidatePath \<and>
     (candidatePath = rootPath \<or>
      (startsWith candidatePath rootPath \<and>
        (endsWith rootPath [SLASH] \<or> charCodeAt candidatePath (length rootPath) = Some SLASH)))"

definition admitPathInsideRoot :: "host \<Rightarrow> jstr \<Rightarrow> jstr \<Rightarrow> admitted_path option" where
  "admitPathInsideRoot h rootPath candidatePath =
     (if insideBySpelling rootPath candidatePath
      then Some \<lparr>apPath = candidatePath,
        apRelative = (if candidatePath = rootPath then []
          else drop (if endsWith rootPath [SLASH] then length rootPath else length rootPath + 1) candidatePath)\<rparr>
      else let root = pathResolve h [rootPath]; candidate = pathResolve h [candidatePath];
               relativePath = pathRelative h root candidate
           in if isPathRelativeEscape h relativePath then None
              else Some \<lparr>apPath = candidate, apRelative = (if relativePath = [DOT] then [] else relativePath)\<rparr>)"

definition admitRawPathInsideRoot :: "jstr \<Rightarrow> jstr \<Rightarrow> admitted_path option" where
  "admitRawPathInsideRoot rootPath candidatePath =
     (if \<not> posixIsAbsolute candidatePath then None
      else if candidatePath = rootPath then Some \<lparr>apPath = candidatePath, apRelative = []\<rparr>
      else let rootWithSep = (if endsWith rootPath [SLASH] then rootPath else rootPath @ [SLASH])
           in if take (length rootWithSep) candidatePath = rootWithSep
              then Some \<lparr>apPath = candidatePath, apRelative = drop (length rootWithSep) candidatePath\<rparr>
              else None)"

definition outsideBoundary :: error where
  "outsideBoundary = PlainErr ''Path resolves outside the boundary''"

definition assertInsideBoundary :: "host \<Rightarrow> jstr \<Rightarrow> jstr \<Rightarrow> error + jstr" where
  "assertInsideBoundary h rootCanonicalPath candidatePath =
     (case admitPathInsideRoot h rootCanonicalPath candidatePath of
        Some a \<Rightarrow> Inr (apPath a) | None \<Rightarrow> Inl outsideBoundary)"

subsection \<open>Existing ancestors and symbolic links\<close>

definition pathExists :: "('s, 'z) root_io_scheme \<Rightarrow> jstr \<Rightarrow> ('s, error, bool) op" where
  "pathExists io targetPath =
     tryS (ioLstat io targetPath)
       (\<lambda>e. if isNotFoundPathError e then returnS False else throwS e) (\<lambda>_. returnS True)"

datatype metadata_mode = Native | Ordinary

definition ancestorExists ::
    "('s, 'z) root_io_scheme \<Rightarrow> metadata_mode \<Rightarrow> bool \<Rightarrow> jstr \<Rightarrow> ('s, error, bool) op" where
  "ancestorExists io mode preserveRawSegments pathname =
     (if mode = Native \<or> preserveRawSegments then pathExists io pathname
      else (\<lambda>s. case ioExists io pathname s of (b, t) \<Rightarrow> (Inr b, t)))"

text \<open>The nearest existing ancestor, ending at the file system root; the last test is made again after
  the loop. A path that is its own parent without being the root, which an absolute path never is, would
  not end.\<close>

function existingCursor ::
    "(jstr \<Rightarrow> ('s, error, bool) op) \<Rightarrow> jstr \<Rightarrow> ('s, error, jstr) op" where
  "existingCursor exists cursor s =
     (if cursor = [SLASH] \<or> posixDirname cursor = cursor then (Inr cursor, s)
      else case exists cursor s of
             (Inl e, t) \<Rightarrow> (Inl e, t)
           | (Inr b, t) \<Rightarrow> if b then (Inr cursor, t) else existingCursor exists (posixDirname cursor) t)"
  by pat_completeness auto
termination
  by (relation "measure (\<lambda>(_, cursor, _). dirnameMeasure cursor)") (auto intro: posixDirname_measure)

declare existingCursor.simps [simp del]

text \<open>\<open>hop\<close> resolves a link whose target is missing.\<close>

definition existingAncestor ::
    "('s, 'z) root_io_scheme \<Rightarrow> host \<Rightarrow> metadata_mode \<Rightarrow> bool \<Rightarrow> (jstr \<Rightarrow> ('s, error, jstr) op) \<Rightarrow> jstr \<Rightarrow>
     ('s, error, jstr) op" where
  "existingAncestor io h mode preserveRawSegments hop targetPath =
     (let normalized = pathResolve h [targetPath];
          candidate = (if preserveRawSegments then absolutePathWithRawSegments (cwd h) targetPath else normalized)
      in bindS (existingCursor (ancestorExists io mode preserveRawSegments) candidate) (\<lambda>cursor.
         bindS (ancestorExists io mode preserveRawSegments cursor) (\<lambda>found.
           if \<not> found then returnS normalized
           else bindS (tryS (ioRealpath io cursor)
                         (\<lambda>e. if \<not> preserveRawSegments then returnS None
                              else if \<not> isNotFoundPathError e then throwS e
                              else bindS (hop cursor) (\<lambda>p. returnS (Some p)))
                         (\<lambda>p. returnS (Some p))) (\<lambda>ancestor.
                  case ancestor of
                    None \<Rightarrow> returnS normalized
                  | Some rawResolvedAncestor \<Rightarrow>
                      let resolvedAncestor = pathResolve h [rawResolvedAncestor];
                          suffix = drop (length cursor) candidate
                      in if preserveRawSegments \<and> dotdot \<in> set (splitOn SLASH suffix)
                         then throwS (throwFs Symlink ''symlink target has an unresolved parent component'')
                         else returnS (if cursor = candidate then resolvedAncestor
                                       else pathResolve h [resolvedAncestor, [DOT, SLASH] @ suffix])))))"

definition unresolvedLink :: error where
  "unresolvedLink = throwFs Symlink ''symlink path could not be resolved''"

definition linkTargetPath :: "host \<Rightarrow> jstr \<Rightarrow> jstr \<Rightarrow> jstr" where
  "linkTargetPath h symlinkPath linkTarget =
     (if posixIsAbsolute linkTarget then linkTarget
      else pathResolve h [posixDirname symlinkPath] @ [SLASH] @ linkTarget)"

text \<open>What a failed \<open>realpath\<close> of a link leads to, before the hops are counted.\<close>

definition linkFailure :: "bool \<Rightarrow> error \<Rightarrow> error option" where
  "linkFailure rejectUnresolved e =
     (if isSymlinkOpenError e \<or> (rejectUnresolved \<and> isNotFoundPathError e) then Some unresolvedLink
      else if \<not> isNotFoundPathError e then Some e else None)"

fun resolveSymlinkHopPath ::
    "('s, 'z) root_io_scheme \<Rightarrow> host \<Rightarrow> metadata_mode \<Rightarrow> bool \<Rightarrow> nat \<Rightarrow> jstr \<Rightarrow> ('s, error, jstr) op" where
  "resolveSymlinkHopPath io h mode rejectUnresolved remainingHops symlinkPath =
     tryS (ioRealpath io symlinkPath)
       (\<lambda>e. case linkFailure rejectUnresolved e of
              Some failure \<Rightarrow> throwS failure
            | None \<Rightarrow>
                case remainingHops of
                  0 \<Rightarrow> throwS (throwFs Symlink ''too many unresolved symlink hops'')
                | Suc n \<Rightarrow>
                    bindS (ioReadlink io symlinkPath) (\<lambda>linkTarget.
                      existingAncestor io h mode True (resolveSymlinkHopPath io h mode False n)
                        (linkTargetPath h symlinkPath linkTarget)))
       (\<lambda>rawRealPath. returnS (pathResolve h [rawRealPath]))"

declare resolveSymlinkHopPath.simps [simp del]

definition resolveExistingAncestor ::
    "('s, 'z) root_io_scheme \<Rightarrow> host \<Rightarrow> metadata_mode \<Rightarrow> bool \<Rightarrow> nat \<Rightarrow> jstr \<Rightarrow> ('s, error, jstr) op" where
  "resolveExistingAncestor io h mode preserveRawSegments remainingHops =
     existingAncestor io h mode preserveRawSegments (resolveSymlinkHopPath io h mode False remainingHops)"

subsection \<open>A path spelled through an alias of the root\<close>

record alias_options =
  aoRejectSymlinks :: bool
  aoRejectFinalSymlink :: bool

text \<open>What looking at one prefix of the candidate gives: its canonical path, or that it is skipped, or that
  the candidate is not below the root.\<close>

datatype prefix_look = Canonical jstr bool | Skipped bool | Elsewhere

definition rejectedLink :: "string \<Rightarrow> error" where
  "rejectedLink message = throwFs Symlink message"

text \<open>The \<open>catch\<close>: the library's own errors are thrown on.\<close>

definition caughtAs :: "prefix_look \<Rightarrow> error \<Rightarrow> ('s, error, prefix_look) op" where
  "caughtAs look e = (case e of FsSafe _ \<Rightarrow> throwS e | _ \<Rightarrow> returnS look)"

definition lookAtPrefix ::
    "('s, 'z) root_io_scheme \<Rightarrow> unicode \<Rightarrow> host \<Rightarrow> alias_options \<Rightarrow> jstr \<Rightarrow> bool \<Rightarrow> bool \<Rightarrow> bool \<Rightarrow> jstr \<Rightarrow>
     ('s, error, prefix_look) op" where
  "lookAtPrefix io u h opts rootCanonicalPath isFinal isLast traversedSymlink pathPrefix =
     tryS (ioLstat io pathPrefix) (caughtAs (Skipped traversedSymlink)) (\<lambda>stat.
       let isSymlink = (bsKind stat = Symbolic_link); failed = (if isSymlink then Elsewhere else Skipped traversedSymlink)
       in if isSymlink \<and> aoRejectFinalSymlink opts \<and> isFinal then throwS (rejectedLink ''final symlink not allowed'')
          else if \<not> isSymlink \<and> bsKind stat \<noteq> Directory \<and> \<not> isLast then returnS Elsewhere
          else tryS (ioRealpath io pathPrefix) (caughtAs failed) (\<lambda>canonical.
            if isSymlink \<and> \<not> isLast
            then tryS (ioStat io canonical) (caughtAs failed) (\<lambda>target.
                   if bsKind target \<noteq> Directory then returnS Elsewhere
                   else if \<not> isPathInside u h rootCanonicalPath canonical \<and> \<not> isPathInside u h canonical rootCanonicalPath
                   then throwS (throwFs Outside_workspace ''symlink prefix resolves outside the root ancestry'')
                   else returnS (Canonical canonical True))
            else if isSymlink \<and> \<not> isPathInside u h rootCanonicalPath canonical \<and> \<not> isPathInside u h canonical rootCanonicalPath
            then throwS (throwFs Outside_workspace ''symlink prefix resolves outside the root ancestry'')
            else returnS (Canonical canonical (traversedSymlink \<or> isSymlink))))"

fun findCanonicalPrefix ::
    "('s, 'z) root_io_scheme \<Rightarrow> unicode \<Rightarrow> host \<Rightarrow> alias_options \<Rightarrow> jstr \<Rightarrow> nat option \<Rightarrow> nat \<Rightarrow> jstr \<Rightarrow> bool \<Rightarrow>
     jstr list \<Rightarrow> ('s, error, jstr option) op" where
  "findCanonicalPrefix io u h opts rootCanonicalPath final index pathPrefix traversed [] = returnS None"
| "findCanonicalPrefix io u h opts rootCanonicalPath final index pathPrefix traversed (segment # segments) =
     (let here = pathPrefix @ (if endsWith pathPrefix [SLASH] then [] else [SLASH]) @ segment;
          next = (\<lambda>t. findCanonicalPrefix io u h opts rootCanonicalPath final (index + 1) here t segments)
      in bindS (lookAtPrefix io u h opts rootCanonicalPath (final = Some index) (segments = []) traversed here) (\<lambda>look.
           case look of
             Elsewhere \<Rightarrow> returnS None
           | Skipped traversedNow \<Rightarrow> next traversedNow
           | Canonical canonical traversedNow \<Rightarrow>
               (case admitPathInsideRoot h rootCanonicalPath canonical of
                  None \<Rightarrow> next traversedNow
                | Some admitted \<Rightarrow>
                    if aoRejectSymlinks opts \<and> traversedNow
                    then throwS (rejectedLink ''symlink path component not allowed'')
                    else returnS (Some (joinOn SLASH (filter (\<lambda>s. s \<noteq> []) (apRelative admitted # segments)))))))"

text \<open>The index of the last element that satisfies a test.\<close>

fun findLastIndex :: "('a \<Rightarrow> bool) \<Rightarrow> 'a list \<Rightarrow> nat option" where
  "findLastIndex P [] = None"
| "findLastIndex P (x # xs) =
     (case findLastIndex P xs of Some i \<Rightarrow> Some (i + 1) | None \<Rightarrow> if P x then Some 0 else None)"

definition rawPathRelativeToCanonicalRoot ::
    "('s, 'z) root_io_scheme \<Rightarrow> unicode \<Rightarrow> host \<Rightarrow> alias_options \<Rightarrow> jstr \<Rightarrow> jstr \<Rightarrow> ('s, error, jstr option) op" where
  "rawPathRelativeToCanonicalRoot io u h opts candidate rootCanonicalPath =
     (let raw = absolutePathWithRawSegments (cwd h) candidate;
          segments = splitOn SLASH (drop (length (rawRoot raw)) raw)
      in findCanonicalPrefix io u h opts rootCanonicalPath
           (findLastIndex (\<lambda>segment. segment \<noteq> [] \<and> segment \<noteq> [DOT]) segments) 0 (rawRoot raw) False segments)"

subsection \<open>Parameters\<close>

record root_params =
  rqAbsolutePath :: jstr
  rqRootPath :: jstr
  rqRootCanonicalPath :: "jstr option"
  rqAllowFinalSymlink :: bool
  rqRejectSymlinks :: bool
  rqRejectFinalSymlink :: bool
  rqRejectUnresolved :: bool

definition aliasOptions :: "root_params \<Rightarrow> alias_options" where
  "aliasOptions params =
     \<lparr>aoRejectSymlinks = rqRejectSymlinks params, aoRejectFinalSymlink = rqRejectFinalSymlink params\<rparr>"

definition captureValidRootPathInputs :: "root_params \<Rightarrow> error + root_params" where
  "captureValidRootPathInputs params =
     bindE (assertNoNulPathInput (rqRootPath params) ''root path contains a NUL byte'') (\<lambda>_.
     bindE (assertNoNulPathInput (rqAbsolutePath params) ''absolute path contains a NUL byte'') (\<lambda>_.
     bindE (case rqRootCanonicalPath params of
              None \<Rightarrow> Inr ()
            | Some p \<Rightarrow> assertNoNulPathInput p ''canonical root path contains a NUL byte'') (\<lambda>_.
       Inr params)))"

text \<open>An empty canonical root is falsy: it is computed like a missing one.\<close>

definition givenCanonicalRoot :: "root_params \<Rightarrow> jstr option" where
  "givenCanonicalRoot params = (case rqRootCanonicalPath params of Some [] \<Rightarrow> None | p \<Rightarrow> p)"

datatype resolved_kind = Kind_missing | Kind_file | Kind_directory | Kind_symlink | Kind_other

record resolved_root_path =
  rrAbsolutePath :: jstr
  rrCanonicalPath :: jstr
  rrRootPath :: jstr
  rrRootCanonicalPath :: jstr
  rrRelativePath :: jstr
  rrExists :: bool
  rrKind :: resolved_kind

text \<open>The raw path to walk, spelled below the root.\<close>

definition pathEscapeError :: error where
  "pathEscapeError = PlainErr ''Path escapes the boundary''"

definition prepareRootTraversal ::
    "('s, 'z) root_io_scheme \<Rightarrow> unicode \<Rightarrow> host \<Rightarrow> root_params \<Rightarrow> jstr \<Rightarrow> jstr \<Rightarrow> jstr \<Rightarrow> ('s, error, jstr) op" where
  "prepareRootTraversal io u h params rootPath rootCanonicalPath rawAbsolutePath =
     (case admitRawPathInsideRoot rootPath rawAbsolutePath of
        Some direct \<Rightarrow> returnS (apPath direct)
      | None \<Rightarrow>
          bindS (case admitRawPathInsideRoot rootCanonicalPath rawAbsolutePath of
                   Some canonical \<Rightarrow> returnS (Some (apRelative canonical))
                 | None \<Rightarrow> rawPathRelativeToCanonicalRoot io u h (aliasOptions params) rawAbsolutePath rootCanonicalPath)
            (\<lambda>relative.
               case relative of
                 None \<Rightarrow> throwS pathEscapeError
               | Some r \<Rightarrow> returnS (if r = [] then rootPath else rootPath @ [SLASH] @ r)))"

definition splitTraversalSegments :: "jstr \<Rightarrow> jstr list" where
  "splitTraversalSegments path =
     filter (\<lambda>s. s \<noteq> []) (splitOn SLASH path) @ (if endsWith path [SLASH] then [[DOT]] else [])"

subsection \<open>The walk\<close>

record traversal =
  tvCanonical :: jstr
  tvLexical :: jstr
  tvPreserveFinal :: bool
  tvMissingDepth :: nat

definition advanceCanonicalCursor :: "host \<Rightarrow> jstr \<Rightarrow> jstr \<Rightarrow> traversal \<Rightarrow> error + traversal" where
  "advanceCanonicalCursor h rootCanonicalPath segment st =
     bindE (assertInsideBoundary h rootCanonicalPath (pathResolve h [tvCanonical st, segment])) (\<lambda>p.
       Inr (st\<lparr>tvCanonical := p\<rparr>))"

definition applyParentTraversalStep :: "host \<Rightarrow> jstr \<Rightarrow> traversal \<Rightarrow> error + traversal" where
  "applyParentTraversalStep h rootCanonicalPath st =
     bindE (advanceCanonicalCursor h rootCanonicalPath dotdot
              (st\<lparr>tvLexical := pathResolve h [tvLexical st, dotdot]\<rparr>)) (\<lambda>st'.
       Inr (st'\<lparr>tvMissingDepth := tvMissingDepth st' - 1\<rparr>))"

definition symlinkEscapeError :: error where
  "symlinkEscapeError = PlainErr ''Symlink escapes the boundary''"

definition applyResolvedSymlinkHop :: "host \<Rightarrow> jstr \<Rightarrow> jstr \<Rightarrow> traversal \<Rightarrow> error + traversal" where
  "applyResolvedSymlinkHop h rootCanonicalPath linkCanonical st =
     (case assertInsideBoundary h rootCanonicalPath linkCanonical of
        Inl _ \<Rightarrow> Inl symlinkEscapeError
      | Inr admitted \<Rightarrow> Inr (st\<lparr>tvCanonical := admitted, tvLexical := admitted\<rparr>))"

definition assertDirectoryBeforeMoreSegments :: "big_stat \<Rightarrow> bool \<Rightarrow> error + unit" where
  "assertDirectoryBeforeMoreSegments stat isLast =
     throwIf (\<not> isLast \<and> bsKind stat \<noteq> Directory) (NodeErr ''ENOTDIR'')"

definition assertResolvedLinkDirectory ::
    "('s, 'z) root_io_scheme \<Rightarrow> jstr \<Rightarrow> bool \<Rightarrow> ('s, error, unit) op" where
  "assertResolvedLinkDirectory io pathname isLast =
     (if isLast then returnS ()
      else bindS (ioStat io pathname) (\<lambda>stat. liftS (assertDirectoryBeforeMoreSegments stat isLast)))"

text \<open>What is done with the metadata of a component: \<open>Inr\<close> pairs the state with whether the walk goes on.\<close>

definition linkStep ::
    "('s, 'z) root_io_scheme \<Rightarrow> host \<Rightarrow> metadata_mode \<Rightarrow> root_params \<Rightarrow> jstr \<Rightarrow> bool \<Rightarrow> traversal \<Rightarrow>
     ('s, error, traversal \<times> bool) op" where
  "linkStep io h mode params rootCanonicalPath isLast st =
     bindS (resolveSymlinkHopPath io h mode (rqRejectUnresolved params) 64 (tvLexical st)) (\<lambda>linkCanonical.
     bindS (liftS (applyResolvedSymlinkHop h rootCanonicalPath linkCanonical st)) (\<lambda>st'.
       if rqRejectSymlinks params then throwS (rejectedLink ''symlink path component not allowed'')
       else bindS (assertResolvedLinkDirectory io linkCanonical isLast) (\<lambda>_. returnS (st', True))))"

definition entryStep ::
    "('s, 'z) root_io_scheme \<Rightarrow> host \<Rightarrow> metadata_mode \<Rightarrow> root_params \<Rightarrow> jstr \<Rightarrow> bool \<Rightarrow> bool \<Rightarrow> jstr \<Rightarrow> big_stat \<Rightarrow>
     traversal \<Rightarrow> ('s, error, traversal \<times> bool) op" where
  "entryStep io h mode params rootCanonicalPath isFinal isLast segment stat st =
     (let isSymbolicLink = (bsKind stat = Symbolic_link);
          preserveFinal = (isSymbolicLink \<and> rqAllowFinalSymlink params \<and> isLast)
      in bindS (liftS (if isSymbolicLink then Inr () else assertDirectoryBeforeMoreSegments stat isLast)) (\<lambda>_.
         if isSymbolicLink \<and> ((rqRejectFinalSymlink params \<and> isFinal) \<or> (rqRejectSymlinks params \<and> isLast))
         then throwS (rejectedLink ''symlink path component not allowed'')
         else if \<not> isSymbolicLink \<or> preserveFinal
         then bindS (liftS (advanceCanonicalCursor h rootCanonicalPath segment (st\<lparr>tvPreserveFinal := preserveFinal\<rparr>)))
                (\<lambda>st'. returnS (st', \<not> preserveFinal))
         else linkStep io h mode params rootCanonicalPath isLast st))"

fun traverseSegments ::
    "('s, 'z) root_io_scheme \<Rightarrow> host \<Rightarrow> metadata_mode \<Rightarrow> root_params \<Rightarrow> jstr \<Rightarrow> nat option \<Rightarrow> nat \<Rightarrow> traversal \<Rightarrow>
     jstr list \<Rightarrow> ('s, error, traversal) op" where
  "traverseSegments io h mode params rootCanonicalPath final idx st [] = returnS st"
| "traverseSegments io h mode params rootCanonicalPath final idx st (segment # segments) =
     (let next = (\<lambda>st. traverseSegments io h mode params rootCanonicalPath final (idx + 1) st segments) in
      if segment = [DOT] then next st
      else if segment = dotdot
      then bindS (liftS (applyParentTraversalStep h rootCanonicalPath st)) next
      else let st = st\<lparr>tvLexical := posixJoin [tvLexical st, segment]\<rparr> in
        if tvMissingDepth st > 0
        then bindS (liftS (advanceCanonicalCursor h rootCanonicalPath segment st)) (\<lambda>st'.
               next (st'\<lparr>tvMissingDepth := tvMissingDepth st' + 1\<rparr>))
        else tryS (ioLstat io (tvLexical st))
               (\<lambda>e. if \<not> isNotFoundPathError e then throwS e
                    else bindS (liftS (advanceCanonicalCursor h rootCanonicalPath segment st)) (\<lambda>st'.
                           next (st'\<lparr>tvMissingDepth := 1\<rparr>)))
               (\<lambda>stat. bindS (entryStep io h mode params rootCanonicalPath (final = Some idx) (segments = [])
                              segment stat st) (\<lambda>(st', goOn). if goOn then next st' else returnS st')))"

subsection \<open>The result\<close>

definition toResolvedKind :: "big_stat \<Rightarrow> resolved_kind" where
  "toResolvedKind stat =
     (case bsKind stat of
        Regular_file \<Rightarrow> Kind_file | Directory \<Rightarrow> Kind_directory | Symbolic_link \<Rightarrow> Kind_symlink
      | Other_kind \<Rightarrow> Kind_other)"

definition getPathKind :: "('s, 'z) root_io_scheme \<Rightarrow> jstr \<Rightarrow> bool \<Rightarrow> ('s, error, resolved_kind) op" where
  "getPathKind io absolutePath preserveFinalSymlink =
     tryS (if preserveFinalSymlink then ioLstat io absolutePath else ioStat io absolutePath)
       (\<lambda>e. if isNotFoundPathError e then returnS Kind_missing else throwS e)
       (\<lambda>stat. returnS (toResolvedKind stat))"

definition relativeInsideRoot :: "host \<Rightarrow> jstr \<Rightarrow> jstr \<Rightarrow> jstr" where
  "relativeInsideRoot h rootPath targetPath =
     (let relative = pathRelative h (pathResolve h [rootPath]) (pathResolve h [targetPath])
      in if relative = [] \<or> relative = [DOT] then []
         else if isPathRelativeEscape h relative then [] else relative)"

definition finalizeLexicalResolution ::
    "host \<Rightarrow> jstr \<Rightarrow> jstr \<Rightarrow> jstr \<Rightarrow> traversal \<Rightarrow> resolved_kind \<Rightarrow> error + resolved_root_path" where
  "finalizeLexicalResolution h absolutePath rootPath rootCanonicalPath st kind =
     bindE (assertInsideBoundary h rootCanonicalPath (tvCanonical st)) (\<lambda>canonical.
       Inr \<lparr>rrAbsolutePath = absolutePath, rrCanonicalPath = canonical, rrRootPath = rootPath,
            rrRootCanonicalPath = rootCanonicalPath,
            rrRelativePath = relativeInsideRoot h rootCanonicalPath canonical,
            rrExists = (kind \<noteq> Kind_missing), rrKind = kind\<rparr>)"

definition walkFromRoot ::
    "('s, 'z) root_io_scheme \<Rightarrow> host \<Rightarrow> metadata_mode \<Rightarrow> root_params \<Rightarrow> jstr \<Rightarrow> jstr \<Rightarrow> jstr \<Rightarrow> jstr \<Rightarrow>
     ('s, error, resolved_root_path) op" where
  "walkFromRoot io h mode params rootPath rootCanonicalPath absolutePath raw =
     (case admitRawPathInsideRoot rootPath raw of
        None \<Rightarrow> throwS (PlainErr ''Path traversal must begin at the root'')
      | Some admitted \<Rightarrow>
          let segments = splitTraversalSegments (apRelative admitted)
          in bindS (traverseSegments io h mode params rootCanonicalPath
                      (findLastIndex (\<lambda>segment. segment \<noteq> [DOT]) segments) 0
                      \<lparr>tvCanonical = rootCanonicalPath, tvLexical = rootPath, tvPreserveFinal = False, tvMissingDepth = 0\<rparr>
                      segments) (\<lambda>st.
             bindS (getPathKind io (tvCanonical st) (tvPreserveFinal st)) (\<lambda>kind.
               liftS (finalizeLexicalResolution h absolutePath rootPath rootCanonicalPath st kind))))"

definition resolveRootPath ::
    "('s, 'z) root_io_scheme \<Rightarrow> unicode \<Rightarrow> host \<Rightarrow> metadata_mode \<Rightarrow> root_params \<Rightarrow> ('s, error, resolved_root_path) op" where
  "resolveRootPath io u h mode params =
     bindS (liftS (captureValidRootPathInputs params)) (\<lambda>input.
       let rawAbsolutePath = absolutePathWithRawSegments (cwd h) (rqAbsolutePath input);
           rootPath = pathResolve h [rqRootPath input];
           absolutePath = pathResolve h [rawAbsolutePath]
       in bindS (case givenCanonicalRoot input of
                   Some p \<Rightarrow> returnS (pathResolve h [p])
                 | None \<Rightarrow> resolveExistingAncestor io h mode False 64 rootPath) (\<lambda>rootCanonicalPath.
          bindS (prepareRootTraversal io u h input rootPath rootCanonicalPath rawAbsolutePath) (\<lambda>raw.
            walkFromRoot io h mode input rootPath rootCanonicalPath absolutePath raw)))"

end
