(* ===== verification/RootSafety.thy ===== *)
theory RootSafety
  imports RootPath
begin

text \<open>
  What the resolution of a path under a root promises. First what holds whatever the file system
  answers, at every call: the canonical path of a result is inside the canonical root.
\<close>

subsection \<open>The boundary\<close>

lemma insideBySpelling_prefix:
  assumes "insideBySpelling rp p"
  shows "prefix (hostSegs h rp) (hostSegs h p)"
proof -
  have abs: "posixIsAbsolute rp" "posixIsAbsolute p" using assms by (auto simp: insideBySpelling_def)
  have "startsWith p rp" using assms by (auto simp: insideBySpelling_def startsWith_def)
  then have "length rp \<le> length p" by (auto simp: startsWith_def dest: arg_cong [of _ _ length])
  then have "insidePosixFast rp p"
    using assms abs
    by (auto simp: insideBySpelling_def insidePosixFast_def posixIsAbsolute_def charCodeAt_def
        hd_conv_nth endsWith_def last_conv_nth drop_Cons' Cons_nth_drop_Suc [symmetric])
  then show ?thesis using insidePosixFast_prefix abs by (simp add: hostSegs_def resolvedSegs_absolute)
qed

lemma relative_stays_iff:
  assumes "posixHost h"
  shows "isPathRelativeEscape h (pathRelative h (pathResolve h [a]) (pathResolve h [b])) \<longleftrightarrow>
    \<not> prefix (hostSegs h a) (hostSegs h b)"
proof -
  let ?f = "hostSegs h a" and ?t = "hostSegs h b"
  have cwd: "posixIsAbsolute (cwd h)" and p: "platform h = Posix" using assms by (auto simp: posixHost_def)
  have segs: "resolvedSegs (cwd h) (pathResolve h [x]) = hostSegs h x" for x
    using hostSegs_resolve [OF assms, of x] by (simp add: hostSegs_def pathResolve_posix [OF assms])
  have rel: "pathRelative h (pathResolve h [a]) (pathResolve h [b]) =
      posixRelative (cwd h) (pathResolve h [a]) (pathResolve h [b])" by (simp add: pathRelative_def p)
  show ?thesis
  proof (cases "prefix ?f ?t")
    case True
    let ?d = "drop (length ?f) ?t"
    have d: "wfSegs ?d" using wfSegs_resolvedSegs [of "cwd h" b] set_drop_subset [of "length ?f" ?t]
      by (auto simp: wfSegs_def hostSegs_def)
    have "\<not> posixIsAbsolute (joinOn SLASH ?d)"
      using d hd_joinOn by (cases ?d) (auto simp: posixIsAbsolute_def)
    moreover have "dotdot \<notin> set (splitOn SLASH (joinOn SLASH ?d))"
      using d splitOn_joinOn [of ?d SLASH] by (cases "?d = []") (auto simp: wfSegs_def plainSeg_def)
    then have "\<not> escapes 0 (splitOn SLASH (joinOn SLASH ?d))"
    proof -
      have "dotdot \<notin> set ss \<Longrightarrow> \<not> escapes n ss" for n ss by (induction ss arbitrary: n) auto
      then show "dotdot \<notin> set (splitOn SLASH (joinOn SLASH ?d)) \<Longrightarrow> ?thesis" by blast
    qed
    ultimately show ?thesis
      using posixRelative_inside [OF cwd, of "pathResolve h [a]" "pathResolve h [b]"] True
      by (simp add: rel segs isPathRelativeEscape_posix [OF assms])
  next
    case False
    then have "hd (splitOn SLASH (posixRelative (cwd h) (pathResolve h [a]) (pathResolve h [b]))) = dotdot"
      using posixRelative_outside [OF cwd] by (simp add: segs)
    then have "escapes 0 (splitOn SLASH (posixRelative (cwd h) (pathResolve h [a]) (pathResolve h [b])))"
      by (cases "splitOn SLASH (posixRelative (cwd h) (pathResolve h [a]) (pathResolve h [b]))") auto
    then show ?thesis using False by (simp add: rel isPathRelativeEscape_posix [OF assms])
  qed
qed

lemma admitted_inside:
  assumes "posixHost h" "admitPathInsideRoot h rp p = Some a"
  shows "prefix (hostSegs h rp) (hostSegs h p)" "apPath a = p \<or> apPath a = pathResolve h [p]"
    "hostSegs h (apPath a) = hostSegs h p"
proof -
  have *: "prefix (hostSegs h rp) (hostSegs h p) \<and> (apPath a = p \<or> apPath a = pathResolve h [p])"
    using assms insideBySpelling_prefix relative_stays_iff [OF assms(1)]
    by (auto simp: admitPathInsideRoot_def Let_def split: if_splits)
  then show "prefix (hostSegs h rp) (hostSegs h p)" "apPath a = p \<or> apPath a = pathResolve h [p]" by auto
  then show "hostSegs h (apPath a) = hostSegs h p"
    using hostSegs_resolve [OF assms(1), of p] by (auto simp: pathResolve_posix [OF assms(1)])
qed

lemma boundary_inside:
  assumes "posixHost h" "assertInsideBoundary h rp p = Inr q"
  shows "prefix (hostSegs h rp) (hostSegs h q)" "q = p \<or> q = pathResolve h [p]" "hostSegs h q = hostSegs h p"
  using admitted_inside [OF assms(1), of rp p] assms(2)
  by (auto simp: assertInsideBoundary_def split: option.splits)

text \<open>The relative path of a result leads back to its canonical path.\<close>

lemma relativeInsideRoot_segs:
  assumes "posixHost h" "prefix (hostSegs h rp) (hostSegs h p)" "posixIsAbsolute rp"
  shows "hostSegs h (hostResolve h rp (relativeInsideRoot h rp p)) = hostSegs h p"
proof -
  let ?f = "hostSegs h rp" and ?t = "hostSegs h p" and ?rel = "relativeInsideRoot h rp p"
  let ?d = "drop (length ?f) ?t"
  have d: "wfSegs ?d" using wfSegs_resolvedSegs [of "cwd h" p] set_drop_subset [of "length ?f" ?t]
    by (auto simp: wfSegs_def hostSegs_def)
  have segs: "resolvedSegs (cwd h) (pathResolve h [x]) = hostSegs h x" for x
    using hostSegs_resolve [OF assms(1), of x] by (simp add: hostSegs_def pathResolve_posix [OF assms(1)])
  have plain: "joinOn SLASH ?d \<noteq> [DOT]"
  proof
    assume j: "joinOn SLASH ?d = [DOT]"
    then have "?d \<noteq> []" by auto
    then have "?d = splitOn SLASH [DOT]" using splitOn_joinOn [of ?d SLASH] d unfolding j by (auto simp: wfSegs_def)
    then show False using d by (simp add: wfSegs_def plainSeg_def)
  qed
  have rel: "?rel = joinOn SLASH ?d"
    using posixRelative_inside [of "cwd h" "pathResolve h [rp]" "pathResolve h [p]"] assms(1,2)
      relative_stays_iff [OF assms(1), of rp p] plain
    by (simp add: relativeInsideRoot_def Let_def pathRelative_def segs posixHost_def)
  have "\<not> posixIsAbsolute ?rel" unfolding rel using d hd_joinOn by (cases ?d) (auto simp: posixIsAbsolute_def)
  then have "hostSegs h (hostResolve h rp ?rel) = normSegs False (rev ?f) (splitOn SLASH ?rel)"
    by (rule hostSegs_resolve_relative [OF assms(1,3)])
  also have "\<dots> = ?f @ ?d"
  proof (cases "?d = []")
    case True
    then show ?thesis by (simp add: rel)
  next
    case False
    then have "splitOn SLASH ?rel = ?d" using d unfolding rel by (auto simp: wfSegs_def intro: splitOn_joinOn)
    moreover have "\<forall>s \<in> set ?d. s \<noteq> dotdot" "filter keptSeg ?d = ?d"
      using d by (auto simp: wfSegs_def plainSeg_def keptSeg_def filter_id_conv)
    ultimately show ?thesis using normSegs_plain [of ?d False "rev ?f"] by simp
  qed
  also have "\<dots> = ?t" using assms(2) by (auto elim: prefixE)
  finally show ?thesis .
qed

lemma rawResolved_absolute: "posixHost h \<Longrightarrow> posixIsAbsolute (pathResolve h [p])"
  using posixIsAbsolute_resolve by (simp add: pathResolve_posix)


lemma posixIsAbsolute_resolve2: "posixHost h \<Longrightarrow> posixIsAbsolute (posixResolve (cwd h) [p, q])"
  by (cases "posixIsAbsolute q") (simp_all add: posixHost_def posixResolve_pair posixResolve_base_absolute)

text \<open>What every value of an operation satisfies.\<close>

definition yields :: "('a \<Rightarrow> bool) \<Rightarrow> ('s, error, 'a) op \<Rightarrow> bool" where
  "yields P m \<longleftrightarrow> (\<forall>s x t. m s = (Inr x, t) \<longrightarrow> P x)"

lemma yields_run: "yields P m \<Longrightarrow> m s = (Inr x, t) \<Longrightarrow> P x"
  by (auto simp: yields_def)

named_theorems yielding

lemma yields_rules [yielding]:
  "P x \<Longrightarrow> yields P (returnS x)" "yields P (throwS e)"
  "(\<And>y. yields P (f y)) \<Longrightarrow> yields P (bindS m' f)"
  "yields P (liftS (Inl e))"
  "(b \<Longrightarrow> yields P m) \<Longrightarrow> (\<not> b \<Longrightarrow> yields P n) \<Longrightarrow> yields P (if b then m else n)"
  "yields P n \<Longrightarrow> (\<And>y. yields P (g y)) \<Longrightarrow> yields P (case opt of None \<Rightarrow> n | Some y \<Rightarrow> g y)"
  by (auto simp: yields_def bindS_ok split: option.splits)

lemma existingAncestor_absolute:
  assumes "posixHost h"
  shows "yields posixIsAbsolute (existingAncestor io h mode raw hop p)"
  unfolding existingAncestor_def Let_def
  by (intro yielding) (simp_all add: pathResolve_posix assms posixIsAbsolute_resolve posixIsAbsolute_resolve2)

text \<open>A path the walk resolves, before its kind is known.\<close>

lemma finalized:
  assumes "posixHost h" "posixIsAbsolute rp"
    and "finalizeLexicalResolution h a p rp st kind = Inr r"
  shows "rrAbsolutePath r = a" "rrRootPath r = p" "rrRootCanonicalPath r = rp" "rrKind r = kind"
    "rrExists r \<longleftrightarrow> kind \<noteq> Kind_missing" "prefix (hostSegs h rp) (hostSegs h (rrCanonicalPath r))"
    "hostSegs h (rrCanonicalPath r) = hostSegs h (tvCanonical st)"
    "hostSegs h (hostResolve h rp (rrRelativePath r)) = hostSegs h (rrCanonicalPath r)"
  using assms boundary_inside [OF assms(1)] relativeInsideRoot_segs [OF assms(1) _ assms(2)]
  by (auto simp: finalizeLexicalResolution_def bindE_Inr_iff)

lemma walkFromRoot_ok:
  assumes "walkFromRoot io h mode params rootPath rp a raw s = (Inr r, t)"
  obtains admitted st kind u v where
    "admitRawPathInsideRoot rootPath raw = Some admitted"
    "traverseSegments io h mode params rp
       (findLastIndex (\<lambda>segment. segment \<noteq> [DOT]) (splitTraversalSegments (apRelative admitted))) 0
       \<lparr>tvCanonical = rp, tvLexical = rootPath, tvPreserveFinal = False, tvMissingDepth = 0\<rparr>
       (splitTraversalSegments (apRelative admitted)) s = (Inr st, u)"
    "getPathKind io (tvCanonical st) (tvPreserveFinal st) u = (Inr kind, v)"
    "finalizeLexicalResolution h a rootPath rp st kind = Inr r"
  using assms by (auto simp: walkFromRoot_def Let_def bindS_ok split: option.splits)

text \<open>C4: a path resolved under a root is inside it. Whatever the calls of the file system answer, each
  time they are asked, and whatever the policy, a result names a canonical path whose segments begin with
  those of the canonical root, its relative path leads from that root back to the canonical path, and it
  says that the path exists exactly when its kind is not missing; the root is the one that was asked
  for.\<close>

theorem resolved_root_path_inside:
  assumes "posixHost h" "resolveRootPath io u h mode params s = (Inr r, t)"
  shows "prefix (hostSegs h (rrRootCanonicalPath r)) (hostSegs h (rrCanonicalPath r)) \<and>
    hostSegs h (hostResolve h (rrRootCanonicalPath r) (rrRelativePath r)) = hostSegs h (rrCanonicalPath r) \<and>
    (rrExists r \<longleftrightarrow> rrKind r \<noteq> Kind_missing) \<and> rrRootPath r = pathResolve h [rqRootPath params] \<and>
    (\<forall>p. givenCanonicalRoot params = Some p \<longrightarrow> rrRootCanonicalPath r = pathResolve h [p])"
proof -
  obtain rp w raw x y where
    rp: "(case givenCanonicalRoot params of Some p \<Rightarrow> returnS (pathResolve h [p])
      | None \<Rightarrow> resolveExistingAncestor io h mode False 64 (pathResolve h [rqRootPath params])) s = (Inr rp, w)"
    and walk: "walkFromRoot io h mode params (pathResolve h [rqRootPath params]) rp
      (pathResolve h [absolutePathWithRawSegments (cwd h) (rqAbsolutePath params)]) raw x = (Inr r, y)"
    using assms(2)
    by (auto simp: resolveRootPath_def bindS_ok Let_def captureValidRootPathInputs_def bindE_Inr_iff)
  have abs: "posixIsAbsolute rp"
    using rp yields_run [OF existingAncestor_absolute [OF assms(1)]] rawResolved_absolute [OF assms(1)]
    by (auto simp: resolveExistingAncestor_def split: option.splits)
  from walk show ?thesis
  proof (rule walkFromRoot_ok)
    fix st kind
    assume "finalizeLexicalResolution h (pathResolve h [absolutePathWithRawSegments (cwd h) (rqAbsolutePath params)])
      (pathResolve h [rqRootPath params]) rp st kind = Inr r"
    note f = finalized [OF assms(1) abs this]
    show ?thesis using f rp by auto
  qed
qed

end
