(* ===== verification/RootPhysical.thy ===== *)
theory RootPhysical
  imports RootSafety
begin

text \<open>
  What the walk of \<open>resolveRootPath\<close> computes over a tree of directories, files and links that does not
  change while it runs: a canonical path on which no link lies, which is where the kernel's own
  resolution of the path leads. The calls of the file system are only asked to tell the truth about the
  tree when they answer; they may fail at any time.
\<close>

subsection \<open>Resolution over a tree\<close>

lemma resolves_split:
  "resolves T k dir ps (x, []) \<Longrightarrow> T x = Some Dir \<Longrightarrow> resolves T n dir (ps @ rest) r \<Longrightarrow>
   \<exists>m. n = k + m \<and> resolves T m x rest r"
proof (induction dir ps "(x, [] :: jstr list)" arbitrary: n rule: resolves.induct)
  case (blank k dir segs)
  from blank.prems blank.hyps show ?case by (auto elim: resolves_ConsE)
next
  case (dot k dir segs)
  from dot.prems dot.hyps show ?case by (auto elim: resolves_ConsE)
next
  case (parent k dir segs)
  from parent.prems parent.hyps show ?case by (auto elim: resolves_ConsE)
next
  case (child seg dir k segs)
  then show ?case using resolves_child_inv [of T n dir seg "segs @ rest" r] by simp
next
  case (link seg dir target k segs)
  then obtain j where j: "n = Suc j"
    "resolves T j (if posixIsAbsolute target then [] else dir) (targetSegments target @ segs @ rest) r"
    using resolves_link_inv [of T n dir seg "segs @ rest" r target] by auto
  then show ?case using link.hyps(4) [of j] link.prems by simp
qed auto

lemma resolves_target:
  "resolves T n dir segs (x, []) \<Longrightarrow> wfTree T \<Longrightarrow> T dir = Some Dir \<Longrightarrow> wfSegs dir \<Longrightarrow> clean segs \<Longrightarrow>
   wfSegs x \<and> (T x = Some Dir \<or> T x = Some File)"
proof (induction dir segs "(x, [] :: jstr list)" rule: resolves.induct)
  case (parent n dir segs)
  have "T (butlast dir) = Some Dir"
    using parent.prems(1,2) by (cases dir rule: rev_cases) (auto simp: wfTree_def)
  then show ?case using parent by (simp add: wfSegs_butlast)
next
  case (link seg dir target n segs)
  have "T [] = Some Dir" using link.prems(1) by (simp add: wfTree_def)
  then show ?case using link.prems clean_targetSegments [of target] by (intro link.hyps(4)) (simp_all add: wfSegs_def)
next
  case (child seg dir n segs)
  then show ?case by simp
next
  case (leaf seg dir)
  then show ?case using wfSegs_snoc [of dir seg] by simp
qed simp_all

lemma resolves_real:
  assumes "wfTree T" "wfSegs (dir @ segs)" "T (dir @ segs) = Some Dir \<or> T (dir @ segs) = Some File"
  shows "resolves T n dir segs (x, rest) \<longleftrightarrow> n = 0 \<and> x = dir @ segs \<and> rest = []"
proof -
  have "wfSegs segs" using assms(2) by (auto simp: wfSegs_def)
  then show ?thesis
    using resolves_existing [OF assms(1) _ assms(3)] resolves_deterministic by blast
qed

text \<open>The calls tell the truth about the tree when they answer.\<close>

definition kernelView :: "tree \<Rightarrow> ('s, 'z) root_io_scheme \<Rightarrow> bool" where
  "kernelView T io \<longleftrightarrow>
     (\<forall>ps s q t. wfSegs ps \<and> ioRealpath io (absPath ps) s = (Inr q, t) \<longrightarrow>
        (\<exists>n x. resolves T n [] ps (x, []) \<and> q = absPath x)) \<and>
     (\<forall>ps s st t. wfSegs ps \<and> ioStat io (absPath ps) s = (Inr st, t) \<longrightarrow>
        (\<exists>n x node. resolves T n [] ps (x, []) \<and> T x = Some node \<and> bsKind st = kindOf node)) \<and>
     (\<forall>ps n x y s. wfSegs (ps @ [y]) \<and> resolves T n [] ps (x, []) \<and> T x = Some Dir \<longrightarrow>
        (case ioLstat io (absPath (ps @ [y])) s of
           (Inr st, _) \<Rightarrow> (\<exists>node. T (x @ [y]) = Some node \<and> bsKind st = kindOf node)
         | (Inl e, _) \<Rightarrow> isNotFoundPathError e \<longrightarrow> T (x @ [y]) = None))"

lemma kernelView_simps:
  assumes "kernelView T io"
  shows view_realpath: "wfSegs ps \<Longrightarrow> ioRealpath io (absPath ps) s = (Inr q, t) \<Longrightarrow>
      \<exists>n x. resolves T n [] ps (x, []) \<and> q = absPath x"
    and view_stat: "wfSegs ps \<Longrightarrow> ioStat io (absPath ps) s = (Inr st, t) \<Longrightarrow>
      \<exists>n x node. resolves T n [] ps (x, []) \<and> T x = Some node \<and> bsKind st = kindOf node"
    and view_lstat: "wfSegs (ps @ [y]) \<Longrightarrow> resolves T n [] ps (x, []) \<Longrightarrow> T x = Some Dir \<Longrightarrow>
      ioLstat io (absPath (ps @ [y])) s = (Inr st, t) \<Longrightarrow> \<exists>node. T (x @ [y]) = Some node \<and> bsKind st = kindOf node"
    and view_missing: "wfSegs (ps @ [y]) \<Longrightarrow> resolves T n [] ps (x, []) \<Longrightarrow> T x = Some Dir \<Longrightarrow>
      ioLstat io (absPath (ps @ [y])) s = (Inl e, t) \<Longrightarrow> isNotFoundPathError e \<Longrightarrow> T (x @ [y]) = None"
proof -
  note v = assms [unfolded kernelView_def]
  show "wfSegs ps \<Longrightarrow> ioRealpath io (absPath ps) s = (Inr q, t) \<Longrightarrow> \<exists>n x. resolves T n [] ps (x, []) \<and> q = absPath x"
    using v by blast
  show "wfSegs ps \<Longrightarrow> ioStat io (absPath ps) s = (Inr st, t) \<Longrightarrow>
      \<exists>n x node. resolves T n [] ps (x, []) \<and> T x = Some node \<and> bsKind st = kindOf node"
    using v by blast
  have l: "case ioLstat io (absPath (ps @ [y])) s of
           (Inr st, _) \<Rightarrow> (\<exists>node. T (x @ [y]) = Some node \<and> bsKind st = kindOf node)
         | (Inl e, _) \<Rightarrow> isNotFoundPathError e \<longrightarrow> T (x @ [y]) = None"
    if "wfSegs (ps @ [y])" "resolves T n [] ps (x, [])" "T x = Some Dir"
    by (rule v [THEN conjunct2, THEN conjunct2, rule_format]) (use that in blast)
  show "wfSegs (ps @ [y]) \<Longrightarrow> resolves T n [] ps (x, []) \<Longrightarrow> T x = Some Dir \<Longrightarrow>
      ioLstat io (absPath (ps @ [y])) s = (Inr st, t) \<Longrightarrow> \<exists>node. T (x @ [y]) = Some node \<and> bsKind st = kindOf node"
    using l by simp
  show "wfSegs (ps @ [y]) \<Longrightarrow> resolves T n [] ps (x, []) \<Longrightarrow> T x = Some Dir \<Longrightarrow>
      ioLstat io (absPath (ps @ [y])) s = (Inl e, t) \<Longrightarrow> isNotFoundPathError e \<Longrightarrow> T (x @ [y]) = None"
    using l by simp
qed

lemma kindOf_simps [simp]:
  "kindOf node = Directory \<longleftrightarrow> node = Dir" "kindOf node = Regular_file \<longleftrightarrow> node = File"
  "kindOf node = Symbolic_link \<longleftrightarrow> (\<exists>target. node = Link target)" "kindOf node \<noteq> Other_kind"
  by (cases node; simp)+

subsection \<open>The two cursors\<close>

text \<open>The path as spelled and the canonical path: the same steps below the two spellings of the root, or
  the same path once a link has been followed.\<close>

definition alongside :: "jstr list \<Rightarrow> jstr list \<Rightarrow> jstr list \<Rightarrow> jstr list \<Rightarrow> bool" where
  "alongside R0 R L E \<longleftrightarrow> (\<exists>x. L = R0 @ x \<and> E = R @ x) \<or> (L = E \<and> prefix R E)"

lemma alongside_inside: "alongside R0 R L E \<Longrightarrow> prefix R E"
  by (auto simp: alongside_def)

lemma alongside_snoc: "alongside R0 R L E \<Longrightarrow> alongside R0 R (L @ [y]) (E @ [y])"
  by (auto simp: alongside_def prefix_def)

lemma alongside_butlast:
  assumes "alongside R0 R L E" "prefix R (butlast E)" "R = [] \<longrightarrow> R0 = []"
  shows "alongside R0 R (butlast L) (butlast E)"
  using assms(1) unfolding alongside_def
proof
  assume "\<exists>x. L = R0 @ x \<and> E = R @ x"
  then obtain x where x: "L = R0 @ x" "E = R @ x" by blast
  show "(\<exists>x. butlast L = R0 @ x \<and> butlast E = R @ x) \<or> butlast L = butlast E \<and> prefix R (butlast E)"
  proof (cases "x = []")
    case True
    then have "R = []" using assms(2) x(2) by (cases R rule: rev_cases) (auto dest: prefix_length_le)
    then show ?thesis using assms(3) x True by simp
  qed (simp add: x butlast_append)
qed (use assms(2) in auto)

definition rootAt :: "tree \<Rightarrow> jstr list \<Rightarrow> jstr list \<Rightarrow> bool" where
  "rootAt T R0 R \<longleftrightarrow> wfTree T \<and> wfSegs R0 \<and> wfSegs R \<and> (\<exists>k. resolves T k [] R0 (R, [])) \<and> T R = Some Dir \<and>
     (R = [] \<longrightarrow> R0 = [])"

lemma alongside_resolves:
  assumes "rootAt T R0 R" "alongside R0 R L E" "wfSegs E" "T E = Some Dir \<or> T E = Some File"
  shows "\<exists>k. resolves T k [] L (E, [])"
  using assms(2) unfolding alongside_def
proof
  assume "\<exists>x. L = R0 @ x \<and> E = R @ x"
  then obtain x where x: "L = R0 @ x" "E = R @ x" by blast
  have "resolves T 0 R x (E, [])"
    using resolves_real [of T R x] assms x(2) by (simp add: rootAt_def)
  then show ?thesis using resolves_append assms(1) x(1) unfolding rootAt_def by blast
next
  assume "L = E \<and> prefix R E"
  then show ?thesis using resolves_real [of T "[]" E] assms by (auto simp: rootAt_def)
qed

subsection \<open>Steps\<close>

lemma boundary_segs:
  assumes "posixHost h" "wfSegs R" "wfSegs D" "assertInsideBoundary h (absPath R) (absPath D) = Inr p"
  shows "p = absPath D \<and> prefix R D"
proof -
  have "hostSegs h (absPath X) = X" if "wfSegs X" for X
    using that by (simp add: hostSegs_def resolvedSegs_absolute)
  then show ?thesis
    using boundary_inside [OF assms(1,4)] assms(2,3)
    by (auto simp: pathResolve_posix [OF assms(1)] posixResolve_absolute)
qed

lemma resolve_child:
  assumes "posixHost h" "wfSegs (D @ [y])"
  shows "pathResolve h [absPath D, y] = absPath (D @ [y])"
proof -
  have "splitOn SLASH y = [y]" "\<not> posixIsAbsolute y" using assms(2)
    by (auto simp: splitOn_id posixIsAbsolute_def plainSeg_def hd_in_set neq_Nil_conv)
  then show ?thesis using assms(2)
    by (simp add: pathResolve_posix [OF assms(1)] posixResolve_from_base plainSeg_def)
qed

lemma resolve_up:
  assumes "posixHost h" "wfSegs D"
  shows "pathResolve h [absPath D, dotdot] = absPath (butlast D)"
proof -
  have rel: "\<not> posixIsAbsolute dotdot" by (simp add: posixIsAbsolute_def)
  have "\<not> (D \<noteq> [] \<and> last D = dotdot)" using assms(2) last_in_set [of D] plainSeg_dots(3) unfolding wfSegs_def by metis
  then show ?thesis using assms(2) posixResolve_from_base [OF posixIsAbsolute_absPath rel, of "cwd h" D]
    by (cases D rule: rev_cases) (auto simp: pathResolve_posix [OF assms(1)])
qed

lemma advance_segs:
  assumes "posixHost h" "wfSegs R" "wfSegs (D @ [y])" "tvCanonical st = absPath D"
    and "advanceCanonicalCursor h (absPath R) y st = Inr st'"
  shows "st' = st\<lparr>tvCanonical := absPath (D @ [y])\<rparr> \<and> prefix R (D @ [y])"
  using assms(5) boundary_segs [OF assms(1,2,3)]
  by (auto simp: advanceCanonicalCursor_def bindE_Inr_iff assms(4) resolve_child [OF assms(1,3)])

definition arrived ::
    "tree \<Rightarrow> jstr list \<Rightarrow> jstr list \<Rightarrow> jstr list \<Rightarrow> traversal \<Rightarrow> jstr list \<Rightarrow> jstr list \<Rightarrow> bool" where
  "arrived T R0 R segs st E y \<longleftrightarrow>
     (\<exists>L. tvLexical st = absPath (L @ y) \<and> wfSegs (L @ y) \<and> alongside R0 R L E) \<and>
     tvCanonical st = absPath (E @ y) \<and> wfSegs (E @ y) \<and> tvMissingDepth st = length y \<and>
     tvPreserveFinal st = False \<and>
     (if y = [] then T E = Some Dir \<or> segs = [] \<and> T E = Some File
      else T E = Some Dir \<and> T (E @ [hd y]) = None)"

text \<open>How a step leads on: the components taken resolve to where the walk stands.\<close>

definition leads :: "tree \<Rightarrow> bool \<Rightarrow> jstr list \<Rightarrow> jstr list \<Rightarrow> jstr list \<Rightarrow> jstr list \<Rightarrow> jstr list \<Rightarrow> bool" where
  "leads T strict segs E y E' y' \<longleftrightarrow>
     (dotdot \<notin> set segs \<and> y' = [] \<longrightarrow> y = [] \<and> (\<exists>n. resolves T n E segs (E', []) \<and> (strict \<longrightarrow> n = 0)))"

lemma leads_trans:
  assumes "leads T strict [seg] E y E1 y1" "leads T strict segs E1 y1 E2 y2" "arrived T R0 R segs st E1 y1"
  shows "leads T strict (seg # segs) E y E2 y2"
  unfolding leads_def
proof (intro impI)
  assume a: "dotdot \<notin> set (seg # segs) \<and> y2 = []"
  then obtain m where m: "y1 = []" "resolves T m E1 segs (E2, [])" "strict \<longrightarrow> m = 0"
    using assms(2) by (auto simp: leads_def)
  then obtain n where n: "y = []" "resolves T n E [seg] (E1, [])" "strict \<longrightarrow> n = 0"
    using a assms(1) by (auto simp: leads_def)
  have "resolves T (n + m) E (seg # segs) (E2, [])"
  proof (cases "T E1 = Some Dir")
    case True
    then show ?thesis using resolves_append [OF n(2) _ m(2)] by simp
  next
    case False
    then have "segs = []" using assms(3) m(1) by (auto simp: arrived_def)
    then show ?thesis using n(2) m(2) by (auto elim: resolves_NilE)
  qed
  then show "y = [] \<and> (\<exists>n. resolves T n E (seg # segs) (E2, []) \<and> (strict \<longrightarrow> n = 0))"
    using n m(3) by (intro conjI exI [of _ "n + m"]) auto
qed

lemma parent_step:
  assumes "posixHost h" "rootAt T R0 R" "arrived T R0 R (dotdot # segs) st E y"
    and "applyParentTraversalStep h (absPath R) st = Inr st'"
  shows "\<exists>E' y'. arrived T R0 R segs st' E' y'"
proof -
  obtain L where L: "tvLexical st = absPath (L @ y)" "wfSegs (L @ y)" "alongside R0 R L E"
    using assms(3) unfolding arrived_def by blast
  have E: "tvCanonical st = absPath (E @ y)" "wfSegs (E @ y)" "T E = Some Dir" "tvMissingDepth st = length y"
    "tvPreserveFinal st = False" "y \<noteq> [] \<longrightarrow> T (E @ [hd y]) = None"
    using assms(3) by (auto simp: arrived_def split: if_splits)
  have R: "wfSegs R" "wfTree T" "R = [] \<longrightarrow> R0 = []" using assms(2) by (auto simp: rootAt_def)
  have st': "st' = st\<lparr>tvLexical := absPath (butlast (L @ y)), tvCanonical := absPath (butlast (E @ y)),
      tvMissingDepth := length y - 1\<rparr>" and pre: "prefix R (butlast (E @ y))"
    using assms(4) boundary_segs [OF assms(1) R(1) wfSegs_butlast [OF E(2)]]
    by (auto simp: applyParentTraversalStep_def advanceCanonicalCursor_def bindE_Inr_iff E(1,4) L(1)
        resolve_up [OF assms(1) L(2)] resolve_up [OF assms(1) E(2)])
  show ?thesis
  proof (cases "y = []")
    case True
    have "T (butlast E) = Some Dir"
      using E(3) R(2) by (cases E rule: rev_cases) (auto simp: wfTree_def)
    moreover have "alongside R0 R (butlast L) (butlast E)"
      using alongside_butlast [OF L(3) _ R(3)] pre True by simp
    ultimately have "arrived T R0 R segs st' (butlast E) []"
      using True L(2) E wfSegs_butlast by (auto simp: arrived_def st')
    then show ?thesis by blast
  next
    case False
    have "arrived T R0 R segs st' E (butlast y)"
    proof -
      have "butlast y \<noteq> [] \<Longrightarrow> hd (butlast y) = hd y" by (cases y) (auto split: if_splits)
      moreover have "wfSegs (L @ butlast y)" "wfSegs (E @ butlast y)"
        using L(2) E(2) by (auto simp: wfSegs_def dest: in_set_butlastD)
      ultimately show ?thesis using False L E by (auto simp: arrived_def st' butlast_append)
    qed
    then show ?thesis by blast
  qed
qed

lemma join_child:
  assumes "wfSegs (L @ y)" "plainSeg seg" "SLASH \<notin> set seg"
  shows "posixJoin [absPath (L @ y), seg] = absPath (L @ y @ [seg])"
  using posixJoin_child [of "L @ y" seg] assms wfSegs_snoc [of "L @ y" seg] by simp

lemma missing_step:
  assumes "posixHost h" "wfSegs R" "arrived T R0 R (seg # segs) st E y" "plainSeg seg" "SLASH \<notin> set seg"
    and "advanceCanonicalCursor h (absPath R) seg (st\<lparr>tvLexical := posixJoin [tvLexical st, seg]\<rparr>) = Inr st'"
    and "y = [] \<longrightarrow> T (E @ [seg]) = None"
  shows "arrived T R0 R segs' (st'\<lparr>tvMissingDepth := length y + 1\<rparr>) E (y @ [seg])"
proof -
  obtain L where L: "tvLexical st = absPath (L @ y)" "wfSegs (L @ y)" "alongside R0 R L E"
    using assms(3) unfolding arrived_def by blast
  have E: "tvCanonical st = absPath (E @ y)" "wfSegs (E @ y)" "T E = Some Dir" "tvPreserveFinal st = False"
    "y \<noteq> [] \<longrightarrow> T (E @ [hd y]) = None"
    using assms(3) by (auto simp: arrived_def split: if_splits)
  have wf: "wfSegs ((E @ y) @ [seg])" using E(2) assms(4,5) by (simp del: append_assoc)
  have "st' = st\<lparr>tvLexical := posixJoin [tvLexical st, seg], tvCanonical := absPath ((E @ y) @ [seg])\<rparr>"
    using advance_segs [OF assms(1,2) wf _ assms(6)] E(1) by simp
  moreover have "T (E @ [hd (y @ [seg])]) = None" using assms(7) E(5) by (cases y) auto
  moreover have "wfSegs (L @ y @ [seg])" using L(2) assms(4,5) wfSegs_snoc [of "L @ y" seg] by simp
  ultimately show ?thesis
    using L E(3,4) wf join_child [OF L(2) assms(4,5)] by (auto simp: arrived_def)
qed


text \<open>What the policy of the walk is taken to be: no link is preserved, and a link that does not resolve
  is an error.\<close>

definition followsReal :: "root_params \<Rightarrow> bool" where
  "followsReal params \<longleftrightarrow>
     \<not> rqAllowFinalSymlink params \<and> (rqRejectUnresolved params \<or> rqRejectSymlinks params)"

lemma hop_resolves:
  assumes "posixHost h" "kernelView T io" "rootAt T R0 R" "wfSegs ps" "clean ps"
    and "resolveSymlinkHopPath io h mode True n (absPath ps) s = (Inr q, t)"
  shows "\<exists>k x. resolves T k [] ps (x, []) \<and> q = absPath x \<and> wfSegs x \<and> (T x = Some Dir \<or> T x = Some File)"
proof -
  obtain raw u where raw: "ioRealpath io (absPath ps) s = (Inr raw, u)" "q = pathResolve h [raw]"
    using assms(6)
    by (auto simp: resolveSymlinkHopPath.simps [of io h mode True] tryS_def linkFailure_def
        split: prod.splits sum.splits if_splits)
  obtain k x where x: "resolves T k [] ps (x, [])" "raw = absPath x"
    using view_realpath [OF assms(2,4) raw(1)] by blast
  have "wfSegs x \<and> (T x = Some Dir \<or> T x = Some File)"
    using resolves_target [OF x(1)] assms(3,5) by (simp add: rootAt_def wfTree_def wfSegs_def)
  then show ?thesis using x raw(2)
    by (auto simp: pathResolve_posix [OF assms(1)] posixResolve_absolute)
qed

lemma link_step:
  assumes h: "posixHost h" and view: "kernelView T io" and base: "rootAt T R0 R"
    and arr: "arrived T R0 R (seg # segs) st E []" and seg: "plainSeg seg" "SLASH \<notin> set seg"
    and pol: "followsReal params"
    and run: "linkStep io h mode params (absPath R) (segs = []) (st\<lparr>tvLexical := posixJoin [tvLexical st, seg]\<rparr>) s =
        (Inr (st', goOn), t)"
  shows "goOn \<and> (\<exists>E'. arrived T R0 R segs st' E' [] \<and> leads T (rqRejectSymlinks params) [seg] E [] E' [])"
proof -
  obtain L where L: "tvLexical st = absPath L" "wfSegs L" "alongside R0 R L E"
    using arr unfolding arrived_def by auto
  have E: "wfSegs E" "T E = Some Dir" "tvMissingDepth st = 0" "tvPreserveFinal st = False"
    using arr by (auto simp: arrived_def)
  have R: "wfTree T" "wfSegs R" using base by (auto simp: rootAt_def)
  have j: "posixJoin [tvLexical st, seg] = absPath (L @ [seg])" and wf: "wfSegs (L @ [seg])"
    using join_child [of L "[]" seg] L(1,2) seg by auto
  have pol': "rqRejectUnresolved params" "\<not> rqRejectSymlinks params"
    using run pol by (auto simp: linkStep_def bindS_ok followsReal_def)
  obtain q u st1 where q: "resolveSymlinkHopPath io h mode True 64 (absPath (L @ [seg])) s = (Inr q, u)"
    and hop: "applyResolvedSymlinkHop h (absPath R) q (st\<lparr>tvLexical := absPath (L @ [seg])\<rparr>) = Inr st1"
    and dir: "\<exists>v. assertResolvedLinkDirectory io q (segs = []) u = (Inr (), v)"
    and res: "st' = st1" "goOn"
    using run pol' by (auto simp: linkStep_def bindS_ok j)
  have "clean (L @ [seg])" using wf by (auto simp: clean_def wfSegs_def)
  then obtain k x where x: "resolves T k [] (L @ [seg]) (x, [])" "q = absPath x" "wfSegs x"
      "T x = Some Dir \<or> T x = Some File"
    using hop_resolves [OF h view base wf _ q] by blast
  obtain k0 where "resolves T k0 [] L (E, [])"
    using alongside_resolves [OF base L(3) E(1)] E(2) by blast
  then obtain m where m: "resolves T m E [seg] (x, [])"
    using resolves_split [OF _ E(2) x(1)] by blast
  have st1: "st1 = st\<lparr>tvLexical := absPath x, tvCanonical := absPath x\<rparr>" "prefix R x"
    using hop boundary_segs [OF h R(2) x(3)] by (auto simp: applyResolvedSymlinkHop_def x(2) split: sum.splits)
  have "T x = Some Dir" if ne: "segs \<noteq> []"
  proof -
    obtain v stat where "ioStat io (absPath x) u = (Inr stat, v)" "bsKind stat = Directory"
      using dir ne
      by (auto simp: assertResolvedLinkDirectory_def bindS_ok assertDirectoryBeforeMoreSegments_def x(2) throwIf_def
          split: if_splits)
    then obtain n y node where "resolves T n [] x (y, [])" "T y = Some node" "Directory = kindOf node"
      using view_stat [OF view x(3)] by metis
    moreover have "y = x" using calculation(1) resolves_real [OF R(1), of "[]" x] x(3,4) by simp
    ultimately show ?thesis by (cases node) auto
  qed
  then have "arrived T R0 R segs st' x []"
    using x(3,4) st1 E(3,4) by (auto simp: arrived_def res alongside_def)
  moreover have "leads T (rqRejectSymlinks params) [seg] E [] x []"
    using m pol'(2) by (auto simp: leads_def)
  ultimately show ?thesis using res(2) by blast
qed

lemma entry_step:
  assumes h: "posixHost h" and view: "kernelView T io" and base: "rootAt T R0 R"
    and arr: "arrived T R0 R (seg # segs) st E []" and seg: "plainSeg seg" "SLASH \<notin> set seg"
    and pol: "followsReal params"
    and look: "T (E @ [seg]) = Some node" "bsKind stat = kindOf node"
    and run: "entryStep io h mode params (absPath R) isFinal (segs = []) seg stat
        (st\<lparr>tvLexical := posixJoin [tvLexical st, seg]\<rparr>) s = (Inr (st', goOn), t)"
  shows "goOn \<and> (\<exists>E'. arrived T R0 R segs st' E' [] \<and> leads T (rqRejectSymlinks params) [seg] E [] E' [])"
proof (cases "bsKind stat = Symbolic_link")
  case True
  then show ?thesis
    using run pol link_step [OF h view base arr seg pol, of mode s st' goOn t]
    by (auto simp: entryStep_def Let_def bindS_ok followsReal_def split: if_splits)
next
  case False
  obtain L where L: "tvLexical st = absPath L" "wfSegs L" "alongside R0 R L E"
    using arr unfolding arrived_def by auto
  have E: "wfSegs E" "T E = Some Dir" "tvMissingDepth st = 0" "tvPreserveFinal st = False" "tvCanonical st = absPath E"
    using arr by (auto simp: arrived_def)
  have R: "wfSegs R" using base by (auto simp: rootAt_def)
  have j: "posixJoin [tvLexical st, seg] = absPath (L @ [seg])" and wf: "wfSegs (L @ [seg])" "wfSegs (E @ [seg])"
    using join_child [of L "[]" seg] L(1,2) E(1) seg by auto
  have node: "node = Dir \<or> node = File" using False look(2) by (cases node) auto
  have adv: "advanceCanonicalCursor h (absPath R) seg
      (st\<lparr>tvLexical := absPath (L @ [seg]), tvPreserveFinal := False\<rparr>) = Inr st'" and go: "goOn"
    and dir: "segs \<noteq> [] \<longrightarrow> node = Dir"
    using run False node look(2)
    by (auto simp: entryStep_def Let_def bindS_ok j assertDirectoryBeforeMoreSegments_def throwIf_def split: if_splits)
  have st': "st' = st\<lparr>tvLexical := absPath (L @ [seg]), tvPreserveFinal := False, tvCanonical := absPath (E @ [seg])\<rparr>"
    using advance_segs [OF h R wf(2) _ adv] E(5) by simp
  have "resolves T 0 E [seg] (E @ [seg], [])"
    using resolves_real [of T E "[seg]"] base wf(2) look(1) node by (auto simp: rootAt_def)
  then have "leads T (rqRejectSymlinks params) [seg] E [] (E @ [seg]) []" by (auto simp: leads_def)
  moreover have "arrived T R0 R segs st' (E @ [seg]) []"
    using wf E(3,4) L(3) look(1) node dir by (auto simp: arrived_def st' intro: alongside_snoc)
  ultimately show ?thesis using go by blast
qed

lemma traverse_physical:
  assumes h: "posixHost h" and view: "kernelView T io" and base: "rootAt T R0 R" and pol: "followsReal params"
  shows "arrived T R0 R segs st E y \<Longrightarrow> clean segs \<Longrightarrow> [] \<notin> set segs \<Longrightarrow>
    traverseSegments io h mode params (absPath R) final idx st segs s = (Inr st', t) \<Longrightarrow>
    \<exists>E' y'. arrived T R0 R [] st' E' y' \<and> leads T (rqRejectSymlinks params) segs E y E' y'"
proof (induction segs arbitrary: st E y idx s)
  case Nil
  then show ?case by (auto simp: leads_def intro: resolves.finished)
next
  case (Cons seg segs)
  have more: "\<exists>E' y'. arrived T R0 R [] st' E' y' \<and> leads T (rqRejectSymlinks params) (seg # segs) E y E' y'"
    if "arrived T R0 R segs st1 E1 y1" "leads T (rqRejectSymlinks params) [seg] E y E1 y1"
      "traverseSegments io h mode params (absPath R) final (idx + 1) st1 segs s1 = (Inr st', t)" for st1 E1 y1 s1
    using Cons.IH [OF that(1) _ _ that(3)] Cons.prems(2,3) leads_trans [OF that(2) _ that(1)] by auto
  have R: "wfSegs R" using base by (simp add: rootAt_def)
  consider (dot) "seg = [DOT]" | (up) "seg = dotdot" | (down) "plainSeg seg" "seg \<noteq> [DOT]" "seg \<noteq> dotdot"
    using plainSeg_cases [of seg] Cons.prems(3) by auto
  then show ?case
  proof cases
    case dot
    have "arrived T R0 R segs st E y" using Cons.prems(1) by (auto simp: arrived_def)
    moreover have "leads T (rqRejectSymlinks params) [seg] E y E y"
      by (auto simp: leads_def dot intro!: exI [of _ 0] resolves.intros)
    ultimately show ?thesis using Cons.prems(4) more dot by simp
  next
    case up
    then obtain st1 where st1: "applyParentTraversalStep h (absPath R) st = Inr st1"
      "traverseSegments io h mode params (absPath R) final (idx + 1) st1 segs s = (Inr st', t)"
      using Cons.prems(4) by (auto simp: bindS_ok)
    obtain E1 y1 where "arrived T R0 R segs st1 E1 y1"
      using parent_step [OF h base _ st1(1)] Cons.prems(1) up by blast
    then show ?thesis using more [OF _ _ st1(2)] by (auto simp: leads_def up)
  next
    case down
    have sl: "SLASH \<notin> set seg" using Cons.prems(2) by simp
    let ?st = "st\<lparr>tvLexical := posixJoin [tvLexical st, seg]\<rparr>"
    have missing: ?thesis
      if adv: "advanceCanonicalCursor h (absPath R) seg ?st = Inr st1"
        and rest: "traverseSegments io h mode params (absPath R) final (idx + 1) (st1\<lparr>tvMissingDepth := length y + 1\<rparr>) segs u = (Inr st', t)"
        and gone: "y = [] \<longrightarrow> T (E @ [seg]) = None" for st1 u
      using more [OF missing_step [OF h R Cons.prems(1) down(1) sl adv gone] _ rest] by (auto simp: leads_def)
    have depth: "tvMissingDepth st = length y" using Cons.prems(1) by (auto simp: arrived_def split: if_splits)
    show ?thesis
    proof (cases "y = []")
      case False
      then obtain st1 where "advanceCanonicalCursor h (absPath R) seg ?st = Inr st1"
        "traverseSegments io h mode params (absPath R) final (idx + 1) (st1\<lparr>tvMissingDepth := tvMissingDepth st1 + 1\<rparr>) segs s = (Inr st', t)"
        using Cons.prems(4) down(2,3) depth by (auto simp: bindS_ok Let_def)
      moreover have "tvMissingDepth st1 = length y" using calculation(1) depth
        by (auto simp: advanceCanonicalCursor_def bindE_Inr_iff)
      ultimately show ?thesis using missing False by simp
    next
      case True
      obtain L where L: "tvLexical st = absPath L" "wfSegs L" "alongside R0 R L E"
        using Cons.prems(1) True unfolding arrived_def by auto
      have E: "wfSegs E" "T E = Some Dir" using Cons.prems(1) True by (auto simp: arrived_def)
      obtain k where k: "resolves T k [] L (E, [])" using alongside_resolves [OF base L(3) E(1)] E(2) by blast
      have j: "posixJoin [tvLexical st, seg] = absPath (L @ [seg])" and wf: "wfSegs (L @ [seg])"
        using join_child [of L "[]" seg] L(1,2) down(1) sl by auto
      obtain r u where r: "ioLstat io (absPath (L @ [seg])) s = (r, u)" by (metis surj_pair)
      note run = Cons.prems(4) [unfolded traverseSegments.simps Let_def j]
      show ?thesis
      proof (cases r)
        case (Inl e)
        then have nf: "isNotFoundPathError e" using run down(2,3) depth True r
          by (auto simp: tryS_def split: if_splits)
        then obtain st1 v where "advanceCanonicalCursor h (absPath R) seg ?st = Inr st1"
          "traverseSegments io h mode params (absPath R) final (idx + 1) (st1\<lparr>tvMissingDepth := 1\<rparr>) segs v = (Inr st', t)"
          using run down(2,3) depth True r Inl by (auto simp: tryS_def bindS_ok j)
        then show ?thesis using missing view_missing [OF view wf k E(2), of s e u] r Inl nf True by simp
      next
        case (Inr stat)
        obtain node where node: "T (E @ [seg]) = Some node" "bsKind stat = kindOf node"
          using view_lstat [OF view wf k E(2), of s stat u] r Inr by blast
        obtain st1 goOn v where e: "entryStep io h mode params (absPath R) (final = Some idx) (segs = []) seg stat ?st u = (Inr (st1, goOn), v)"
          and rest: "(if goOn then traverseSegments io h mode params (absPath R) final (idx + 1) st1 segs else returnS st1) v = (Inr st', t)"
          using run down(2,3) depth True r Inr by (auto simp: tryS_def bindS_ok j)
        have "goOn \<and> (\<exists>E'. arrived T R0 R segs st1 E' [] \<and> leads T (rqRejectSymlinks params) [seg] E [] E' [])"
          using entry_step [OF h view base _ down(1) sl pol node e] Cons.prems(1) True by blast
        then show ?thesis using more True rest by auto
      qed
    qed
  qed
qed


subsection \<open>The walk from the root\<close>

lemma splitTraversal_clean: "clean (splitTraversalSegments p)" "[] \<notin> set (splitTraversalSegments p)"
  by (auto simp: splitTraversalSegments_def clean_def dest: splitOn_no_sep)

lemma arrived_start:
  assumes "rootAt T R0 R"
  shows "arrived T R0 R segs
    \<lparr>tvCanonical = absPath R, tvLexical = absPath R0, tvPreserveFinal = False, tvMissingDepth = 0\<rparr> R []"
  using assms by (auto simp: arrived_def rootAt_def alongside_def)

text \<open>A component that is missing has no metadata.\<close>

lemma arrived_stat:
  assumes "kernelView T io" "rootAt T R0 R" "arrived T R0 R [] st E y"
    and "ioStat io (tvCanonical st) s = (Inr stat, t)"
  shows "y = [] \<and> (\<exists>node. T E = Some node \<and> node \<in> {Dir, File} \<and> bsKind stat = kindOf node)"
proof -
  have E: "tvCanonical st = absPath (E @ y)" "wfSegs (E @ y)" "wfSegs E" "T E = Some Dir \<or> T E = Some File"
    "y \<noteq> [] \<Longrightarrow> T E = Some Dir \<and> T (E @ [hd y]) = None"
    using assms(3) by (auto simp: arrived_def wfSegs_def split: if_splits)
  have wf: "wfTree T" using assms(2) by (simp add: rootAt_def)
  obtain n x node where x: "resolves T n [] (E @ y) (x, [])" "T x = Some node" "bsKind stat = kindOf node"
    using view_stat [OF assms(1) E(2)] assms(4) E(1) by metis
  have here: "resolves T 0 [] E (E, [])" using resolves_real [OF wf, of "[]" E] E(3,4) by simp
  have y: "y = []"
  proof (rule ccontr)
    assume ne: "y \<noteq> []"
    obtain m where m: "resolves T m E y (x, [])" using resolves_split [OF here _ x(1)] E(5) [OF ne] by blast
    have "plainSeg (hd y)" using E(2) ne by (cases y) (auto simp: wfSegs_def)
    then show False using m E(5) [OF ne] ne by (cases y) (auto elim: resolves_ConsE)
  qed
  then show ?thesis using x resolves_deterministic [OF here, of n "(x, [])"] E(4) by auto
qed

text \<open>Two lists of components that name the same steps, and agree on whether a directory is asked for at
  the end.\<close>

definition similar :: "jstr list \<Rightarrow> jstr list \<Rightarrow> bool" where
  "similar ys segs \<longleftrightarrow> filter keptSeg ys = filter keptSeg segs \<and> (ys = [] \<longrightarrow> segs = []) \<and>
     (ys \<noteq> [] \<and> keptSeg (last ys) \<longrightarrow> segs \<noteq> [] \<and> keptSeg (last segs))"

lemma resolves_idle: "filter keptSeg b = [] \<Longrightarrow> resolves T n dir segs r \<Longrightarrow> resolves T n dir (b @ segs) r"
  by (induction b) (auto simp: keptSeg_def intro: resolves.blank resolves.dot split: if_splits)

lemma similar_kept:
  assumes "similar (x # ys) segs" "keptSeg x"
  obtains b rest where "segs = b @ x # rest" "filter keptSeg b = []" "similar ys rest"
proof -
  have "filter keptSeg segs = x # filter keptSeg ys" using assms by (simp add: similar_def)
  then obtain b rest where b: "segs = b @ x # rest" "\<forall>s \<in> set b. \<not> keptSeg s" "filter keptSeg rest = filter keptSeg ys"
    by (auto simp: filter_eq_Cons_iff)
  have "rest = []" if "ys = []"
  proof (rule ccontr)
    assume ne: "rest \<noteq> []"
    then have "keptSeg (last rest)" using assms that b(1) by (simp add: similar_def)
    then have "last rest \<in> set (filter keptSeg rest)" using ne by simp
    then show False using b(3) that by simp
  qed
  moreover have "keptSeg (last rest) \<and> rest \<noteq> []" if "ys \<noteq> []" "keptSeg (last ys)"
  proof -
    have "last ys \<in> set (filter keptSeg ys)" using that by simp
    then have "rest \<noteq> []" using b(3) by (metis empty_iff empty_set filter.simps(1))
    then show ?thesis using assms that b(1) by (simp add: similar_def)
  qed
  ultimately have "similar ys rest" using b(3) by (auto simp: similar_def)
  moreover have "filter keptSeg b = []" using b(2) by simp
  ultimately show thesis using that b(1) by blast
qed

lemma similar_idle: "similar (x # y # ys) segs \<Longrightarrow> \<not> keptSeg x \<Longrightarrow> similar (y # ys) segs"
  by (simp add: similar_def)

lemma resolves_similar_idle:
  assumes ih: "\<And>pre ys segs. xs = pre @ ys \<Longrightarrow> similar ys segs \<Longrightarrow> resolves T n dir (pre @ segs) (x, [])"
    and run: "resolves T n dir xs (x, [])" and idle: "\<not> keptSeg s"
    and eq: "s # xs = pre @ ys" "similar ys segs"
  shows "resolves T n dir (pre @ segs) (x, [])"
proof (cases pre)
  case (Cons p pre')
  then have "resolves T n dir (pre' @ segs) (x, [])" using ih [of pre' ys segs] eq by simp
  then show ?thesis using resolves_idle [of "[s]"] idle Cons eq(1) by simp
next
  case Nil
  show ?thesis
  proof (cases xs)
    case Nil2: Nil
    then have "ys = [s]" using eq(1) Nil by simp
    then have "filter keptSeg segs = []" using eq(2) idle by (simp add: similar_def)
    then show ?thesis using resolves_idle [of segs T n dir "[]"] run Nil Nil2 by simp
  next
    case (Cons z zs)
    then show ?thesis using ih [of "[]" xs segs] eq Nil idle similar_idle [of s z zs segs] by simp
  qed
qed

lemma resolves_similar:
  "resolves T n dir xs (x, []) \<Longrightarrow> xs = pre @ ys \<Longrightarrow> similar ys segs \<Longrightarrow> resolves T n dir (pre @ segs) (x, [])"
proof (induction dir xs "(x, [] :: jstr list)" arbitrary: pre ys segs rule: resolves.induct)
  case finished
  then show ?case by (auto simp: similar_def intro: resolves.finished)
next
  case (blank n dir xs)
  then show ?case using resolves_similar_idle [of xs T n dir x "[]" pre ys segs] by (simp add: keptSeg_def)
next
  case (dot n dir xs)
  then show ?case using resolves_similar_idle [of xs T n dir x "[DOT]" pre ys segs] by (simp add: keptSeg_def)
next
  case (parent n dir xs)
  show ?case
  proof (cases pre)
    case (Cons p pre')
    then show ?thesis using parent by (auto intro: resolves.parent)
  next
    case Nil
    then have "similar (dotdot # xs) segs" using parent.prems by simp
    then obtain b rest where b: "segs = b @ dotdot # rest" "filter keptSeg b = []" "similar xs rest"
      using similar_kept [of dotdot xs segs] by (auto simp: keptSeg_def)
    then show ?thesis using Nil parent.hyps(2) [of "[]" xs rest] by (auto intro: resolves_idle resolves.parent)
  qed
next
  case (child seg dir n xs)
  show ?case
  proof (cases pre)
    case (Cons p pre')
    then show ?thesis using child by (auto intro: resolves.child)
  next
    case Nil
    then have "similar (seg # xs) segs" using child.prems by simp
    then obtain b rest where b: "segs = b @ seg # rest" "filter keptSeg b = []" "similar xs rest"
      using similar_kept [of seg xs segs] child.hyps(1) by (auto simp: keptSeg_def plainSeg_def)
    then show ?thesis using Nil child.hyps child.hyps(4) [of "[]" xs rest] by (auto intro: resolves_idle resolves.child)
  qed
next
  case (leaf seg dir)
  show ?case
  proof (cases pre)
    case (Cons p pre')
    then have "segs = []" using leaf by (auto simp: similar_def)
    then show ?thesis using leaf.hyps leaf.prems Cons by (auto intro: resolves.leaf)
  next
    case Nil
    then have "similar [seg] segs" using leaf.prems by simp
    then obtain b rest where b: "segs = b @ seg # rest" "filter keptSeg b = []" "similar [] rest"
      using similar_kept [of seg "[]" segs] leaf.hyps(1) by (auto simp: keptSeg_def plainSeg_def)
    then show ?thesis using Nil leaf.hyps by (auto simp: similar_def intro!: resolves_idle resolves.leaf)
  qed
next
  case (link seg dir target n xs)
  show ?case
  proof (cases pre)
    case (Cons p pre')
    then show ?thesis using link.hyps link.prems link.hyps(4) [of "targetSegments target @ pre'" ys segs]
      by (auto intro!: resolves.link)
  next
    case Nil
    then have "similar (seg # xs) segs" using link.prems by simp
    then obtain b rest where b: "segs = b @ seg # rest" "filter keptSeg b = []" "similar xs rest"
      using similar_kept [of seg xs segs] link.hyps(1) by (auto simp: keptSeg_def plainSeg_def)
    then show ?thesis using Nil link.hyps link.hyps(4) [of "targetSegments target" xs rest]
      by (simp add: resolves_idle resolves.link b(1,2,3))
  qed
qed

text \<open>The components that are walked are those of the relative path.\<close>

lemma splitTraversal_similar:
  assumes "rel \<noteq> []"
  shows "similar (splitTraversalSegments rel) (splitOn SLASH rel)"
proof (cases "endsWith rel [SLASH]")
  case True
  have "filter keptSeg (filter (\<lambda>s. s \<noteq> []) (splitOn SLASH rel)) = filter keptSeg (splitOn SLASH rel)"
    unfolding filter_filter by (rule filter_cong) (auto simp: keptSeg_def)
  then show ?thesis using True by (simp add: similar_def splitTraversalSegments_def keptSeg_def)
next
  case False
  obtain init z where z: "splitOn SLASH rel = init @ [z]" by (cases "splitOn SLASH rel" rule: rev_cases) auto
  have "z \<noteq> []"
  proof
    assume "z = []"
    then have "rel = joinOn SLASH (init @ [[]])" using z joinOn_splitOn [of SLASH rel] by simp
    then have "init \<noteq> []" "rel = joinOn SLASH init @ [SLASH]" using assms by (cases "init = []"; simp add: joinOn_append)+
    then show False using False by (simp add: endsWith_def)
  qed
  moreover have "filter keptSeg (filter (\<lambda>s. s \<noteq> []) segs) = filter keptSeg segs" for segs
    unfolding filter_filter by (rule filter_cong) (auto simp: keptSeg_def)
  ultimately show ?thesis using False z by (simp add: similar_def splitTraversalSegments_def)
qed


lemma walk_physical:
  assumes h: "posixHost h" and view: "kernelView T io" and base: "rootAt T R0 R" and pol: "followsReal params"
    and run: "walkFromRoot io h mode params (absPath R0) (absPath R) a raw s = (Inr r, t)" and there: "rrExists r"
    and adm: "admitRawPathInsideRoot (absPath R0) raw = Some admitted"
  shows "\<exists>q. rrCanonicalPath r = absPath q \<and> prefix R q \<and>
    (T q = Some Dir \<and> rrKind r = Kind_directory \<or> T q = Some File \<and> rrKind r = Kind_file) \<and>
    (dotdot \<notin> set (splitOn SLASH (apRelative admitted)) \<longrightarrow>
       (\<exists>n. resolves T n R (splitOn SLASH (apRelative admitted)) (q, []) \<and> (rqRejectSymlinks params \<longrightarrow> n = 0)))"
  using run
proof (rule walkFromRoot_ok)
  fix admitted' :: admitted_path and st kind u v
  let ?rel = "apRelative admitted'" and ?st0 = "\<lparr>tvCanonical = absPath R, tvLexical = absPath R0, tvPreserveFinal = False, tvMissingDepth = 0\<rparr>"
  assume w: "admitRawPathInsideRoot (absPath R0) raw = Some admitted'"
    "traverseSegments io h mode params (absPath R) (findLastIndex (\<lambda>segment. segment \<noteq> [DOT]) (splitTraversalSegments ?rel)) 0
       ?st0 (splitTraversalSegments ?rel) s = (Inr st, u)"
    "getPathKind io (tvCanonical st) (tvPreserveFinal st) u = (Inr kind, v)"
    "finalizeLexicalResolution h a (absPath R0) (absPath R) st kind = Inr r"
  obtain E y where e: "arrived T R0 R [] st E y" "leads T (rqRejectSymlinks params) (splitTraversalSegments ?rel) R [] E y"
    using traverse_physical [OF h view base pol arrived_start [OF base] splitTraversal_clean w(2)] by blast
  have R: "wfTree T" "wfSegs R" "wfSegs E" using base e(1) by (auto simp: rootAt_def arrived_def wfSegs_def)
  have kind: "kind = rrKind r" "kind \<noteq> Kind_missing"
    using w(4) there by (auto simp: finalizeLexicalResolution_def bindE_Inr_iff)
  then obtain stat where look: "ioStat io (tvCanonical st) u = (Inr stat, v)" and stat: "kind = toResolvedKind stat"
    using w(3) e(1) by (auto simp: getPathKind_def tryS_def arrived_def split: prod.splits sum.splits if_splits)
  then have y: "y = []" and node: "T E = Some Dir \<and> kind = Kind_directory \<or> T E = Some File \<and> kind = Kind_file"
    using arrived_stat [OF view base e(1) look] stat by (auto simp: toResolvedKind_def)
  have canonical: "rrCanonicalPath r = absPath E \<and> prefix R E"
    using w(4) e(1) y boundary_segs [OF h R(2,3)]
    by (auto simp: finalizeLexicalResolution_def bindE_Inr_iff arrived_def)
  have "\<exists>n. resolves T n R (splitOn SLASH ?rel) (E, []) \<and> (rqRejectSymlinks params \<longrightarrow> n = 0)"
    if plain: "dotdot \<notin> set (splitOn SLASH ?rel)"
  proof -
    have "dotdot \<notin> set (splitTraversalSegments ?rel)" using plain by (auto simp: splitTraversalSegments_def)
    then obtain n where n: "resolves T n R (splitTraversalSegments ?rel) (E, [])" "rqRejectSymlinks params \<longrightarrow> n = 0"
      using e(2) y by (auto simp: leads_def)
    have "resolves T n R (splitOn SLASH ?rel) (E, [])"
    proof (cases "?rel = []")
      case True
      then show ?thesis using n(1) by (auto simp: splitTraversalSegments_def endsWith_def intro: resolves.blank)
    next
      case False
      then show ?thesis using resolves_similar [OF n(1), of "[]"] splitTraversal_similar by simp
    qed
    then show ?thesis using n(2) by blast
  qed
  then show ?thesis using canonical node kind(1) w(1) adm by auto
qed



subsection \<open>A file reached through a link\<close>

definition linkTree :: tree where
  "linkTree = map_of [([], Dir), ([js ''r''], Dir), ([js ''r'', js ''d''], Dir),
     ([js ''r'', js ''d'', js ''f''], File), ([js ''r'', js ''l''], Link (js ''d''))]"

text \<open>Calls that answer for the paths the walk asks about and fail elsewhere.\<close>

definition linkIo :: "unit root_io" where
  "linkIo =
     (let deny = Inl (NodeErr ''EACCES'');
          stat = (\<lambda>kind. Inr \<lparr>bsDev = 1, bsIno = 1, bsKind = kind\<rparr>)
      in \<lparr>ioLstat = (\<lambda>p s. (if p = js ''/r/l'' then stat Symbolic_link
                            else if p = js ''/r/d/f'' then stat Regular_file else deny, s)),
          ioReadlink = (\<lambda>p s. (Inl (NodeErr ''EACCES''), s)),
          ioRealpath = (\<lambda>p s. (if p = js ''/r/l'' then Inr (js ''/r/d'') else Inl (NodeErr ''EACCES''), s)),
          ioAccess = (\<lambda>p s. (Inl (NodeErr ''EACCES''), s)),
          ioStat = (\<lambda>p s. (if p = js ''/r/d'' then stat Directory
                           else if p = js ''/r/d/f'' then stat Regular_file else deny, s)),
          ioExists = (\<lambda>p s. (False, s))\<rparr>)"

definition linkParams :: root_params where
  "linkParams = \<lparr>rqAbsolutePath = js ''/r/l/f'', rqRootPath = js ''/r'', rqRootCanonicalPath = Some (js ''/r''),
     rqAllowFinalSymlink = False, rqRejectSymlinks = False, rqRejectFinalSymlink = False, rqRejectUnresolved = True\<rparr>"

lemma linkTree_wf: "wfTree linkTree"
proof -
  have dom: "p \<in> {[], [js ''r''], [js ''r'', js ''d''], [js ''r'', js ''d'', js ''f''], [js ''r'', js ''l'']}"
    if "linkTree p \<noteq> None" for p
    using that by (auto simp: linkTree_def split: if_splits)
  show ?thesis
    unfolding wfTree_def
  proof (intro conjI allI impI)
    fix dir seg
    assume "linkTree (dir @ [seg]) \<noteq> None"
    then have "dir \<in> {[], [js ''r''], [js ''r'', js ''d'']}"
      using dom [of "dir @ [seg]"] by (auto simp: append_eq_Cons_conv)
    then show "linkTree dir = Some Dir" by (auto simp: linkTree_def)
  qed (simp add: linkTree_def)
qed

lemma linkTree_resolves:
  "resolves linkTree 0 [] [js ''r''] ([js ''r''], [])"
  "resolves linkTree 0 [] [js ''r'', js ''d''] ([js ''r'', js ''d''], [])"
  "resolves linkTree 0 [] [js ''r'', js ''d'', js ''f''] ([js ''r'', js ''d'', js ''f''], [])"
  "resolves linkTree 1 [] [js ''r'', js ''l''] ([js ''r'', js ''d''], [])"
  by (auto simp: resolves_simps linkTree_def plainSeg_def targetSegments_def posixIsAbsolute_def)


lemma linkTree_paths:
  assumes "wfSegs ps"
  shows "absPath ps = js ''/r/l'' \<longleftrightarrow> ps = [js ''r'', js ''l'']" "absPath ps = js ''/r/d'' \<longleftrightarrow> ps = [js ''r'', js ''d'']"
    "absPath ps = js ''/r/d/f'' \<longleftrightarrow> ps = [js ''r'', js ''d'', js ''f'']"
proof -
  have "js ''/r/l'' = absPath [js ''r'', js ''l'']" "js ''/r/d'' = absPath [js ''r'', js ''d'']"
    "js ''/r/d/f'' = absPath [js ''r'', js ''d'', js ''f'']" by code_simp+
  moreover have "wfSegs [js ''r'', js ''l'']" "wfSegs [js ''r'', js ''d'']" "wfSegs [js ''r'', js ''d'', js ''f'']"
    by code_simp+
  ultimately show "absPath ps = js ''/r/l'' \<longleftrightarrow> ps = [js ''r'', js ''l'']" "absPath ps = js ''/r/d'' \<longleftrightarrow> ps = [js ''r'', js ''d'']"
    "absPath ps = js ''/r/d/f'' \<longleftrightarrow> ps = [js ''r'', js ''d'', js ''f'']"
    using absPath_inject [OF assms] by metis+
qed

lemma linkTree_nodes:
  "linkTree [js ''r'', js ''d''] = Some Dir" "linkTree [js ''r'', js ''d'', js ''f''] = Some File"
  "linkTree [js ''r'', js ''l''] = Some (Link (js ''d''))" "linkTree [js ''r''] = Some Dir"
  by code_simp+

lemma linkIo_realpath: "wfSegs ps \<Longrightarrow> ioRealpath linkIo (absPath ps) s = (Inr q, t) \<Longrightarrow>
    ps = [js ''r'', js ''l''] \<and> q = js ''/r/d''"
  by (simp add: linkIo_def Let_def linkTree_paths del: js_Cons js_Nil split: if_splits)

lemma linkIo_stat: "wfSegs ps \<Longrightarrow> ioStat linkIo (absPath ps) s = (Inr st, t) \<Longrightarrow>
    ps = [js ''r'', js ''d''] \<and> bsKind st = Directory \<or> ps = [js ''r'', js ''d'', js ''f''] \<and> bsKind st = Regular_file"
  by (auto simp: linkIo_def Let_def linkTree_paths simp del: js_Cons js_Nil split: if_splits)

lemma linkIo_lstat: "wfSegs (ps @ [y]) \<Longrightarrow> ioLstat linkIo (absPath (ps @ [y])) s = (r, t) \<Longrightarrow>
    (\<exists>st. r = Inr st \<and> (ps = [js ''r''] \<and> y = js ''l'' \<and> bsKind st = Symbolic_link \<or>
       ps = [js ''r'', js ''d''] \<and> y = js ''f'' \<and> bsKind st = Regular_file)) \<or> r = Inl (NodeErr ''EACCES'')"
  using linkTree_paths [of "ps @ [y]"]
  by (auto simp: linkIo_def Let_def simp del: js_Cons js_Nil split: if_splits)

lemma linkIo_view: "kernelView linkTree linkIo"
  unfolding kernelView_def
proof (intro conjI allI impI)
  fix ps :: "jstr list" and s q t
  assume "wfSegs ps \<and> ioRealpath linkIo (absPath ps) s = (Inr q, t)"
  then have "ps = [js ''r'', js ''l'']" "q = js ''/r/d''" using linkIo_realpath by blast+
  moreover have "js ''/r/d'' = absPath [js ''r'', js ''d'']" by code_simp
  ultimately show "\<exists>n x. resolves linkTree n [] ps (x, []) \<and> q = absPath x" using linkTree_resolves(4) by metis
next
  fix ps :: "jstr list" and s st t
  assume "wfSegs ps \<and> ioStat linkIo (absPath ps) s = (Inr st, t)"
  then consider "ps = [js ''r'', js ''d'']" "bsKind st = kindOf Dir" | "ps = [js ''r'', js ''d'', js ''f'']" "bsKind st = kindOf File"
    using linkIo_stat by fastforce
  then show "\<exists>n x node. resolves linkTree n [] ps (x, []) \<and> linkTree x = Some node \<and> bsKind st = kindOf node"
    using linkTree_resolves(2,3) linkTree_nodes(1,2) by cases metis+
next
  fix ps :: "jstr list" and n x y s
  assume a: "wfSegs (ps @ [y]) \<and> resolves linkTree n [] ps (x, []) \<and> linkTree x = Some Dir"
  obtain r t where r: "ioLstat linkIo (absPath (ps @ [y])) s = (r, t)" by (metis surj_pair)
  have x: "x = ps" if "ps = [js ''r''] \<or> ps = [js ''r'', js ''d'']"
    using that a resolves_deterministic linkTree_resolves(1,2) by blast
  have "case r of Inr st \<Rightarrow> \<exists>node. linkTree (x @ [y]) = Some node \<and> bsKind st = kindOf node
      | Inl e \<Rightarrow> isNotFoundPathError e \<longrightarrow> linkTree (x @ [y]) = None"
  proof -
    have denied: "\<not> isNotFoundPathError (NodeErr ''EACCES'')" by code_simp
    have app: "[js ''r''] @ [js ''l''] = [js ''r'', js ''l'']" "[js ''r'', js ''d''] @ [js ''f''] = [js ''r'', js ''d'', js ''f'']"
      by simp_all
    have s3: "\<exists>node. linkTree [js ''r'', js ''l''] = Some node \<and> Symbolic_link = kindOf node"
      "\<exists>node. linkTree [js ''r'', js ''d'', js ''f''] = Some node \<and> Regular_file = kindOf node"
      using linkTree_nodes(2,3) by (metis kindOf.simps)+
    have "wfSegs (ps @ [y])" using a by blast
    from linkIo_lstat [OF this r] consider
        (l) st where "r = Inr st" "ps = [js ''r'']" "y = js ''l''" "bsKind st = Symbolic_link"
      | (f) st where "r = Inr st" "ps = [js ''r'', js ''d'']" "y = js ''f''" "bsKind st = Regular_file"
      | (no) "r = Inl (NodeErr ''EACCES'')" by blast
    then show ?thesis
    proof cases
      case l
      then have "x @ [y] = [js ''r'', js ''l'']" using x app(1) by metis
      then show ?thesis unfolding l(1) sum.case l(4) using s3(1) by metis
    next
      case f
      then have "x @ [y] = [js ''r'', js ''d'', js ''f'']" using x app(2) by metis
      then show ?thesis unfolding f(1) sum.case f(4) using s3(2) by metis
    next
      case no
      then show ?thesis using denied by simp
    qed
  qed
  then show "case ioLstat linkIo (absPath (ps @ [y])) s of
      (Inl e, _) \<Rightarrow> isNotFoundPathError e \<longrightarrow> linkTree (x @ [y]) = None
    | (Inr st, _) \<Rightarrow> \<exists>node. linkTree (x @ [y]) = Some node \<and> bsKind st = kindOf node"
    unfolding r prod.case by (simp split: sum.splits)
qed

text \<open>The run, one piece at a time.\<close>

abbreviation linkStart :: traversal where
  "linkStart \<equiv> \<lparr>tvCanonical = js ''/r'', tvLexical = js ''/r'', tvPreserveFinal = False, tvMissingDepth = 0\<rparr>"

lemma link_hop: "resolveSymlinkHopPath linkIo demoHost Native True 64 (js ''/r/l'') () = (Inr (js ''/r/d''), ())"
proof -
  have "ioRealpath linkIo (js ''/r/l'') () = (Inr (js ''/r/d''), ())" "pathResolve demoHost [js ''/r/d''] = js ''/r/d''"
    by code_simp+
  then show ?thesis by (simp add: resolveSymlinkHopPath.simps [of _ _ _ _ 64] tryS_def returnS_def del: js_Cons js_Nil)
qed

lemma link_first: "linkStep linkIo demoHost Native linkParams (js ''/r'') False
    (linkStart\<lparr>tvLexical := js ''/r/l''\<rparr>) () =
  (Inr (linkStart\<lparr>tvLexical := js ''/r/d'', tvCanonical := js ''/r/d''\<rparr>, True), ())"
proof -
  have "applyResolvedSymlinkHop demoHost (js ''/r'') (js ''/r/d'') (linkStart\<lparr>tvLexical := js ''/r/l''\<rparr>) =
      Inr (linkStart\<lparr>tvLexical := js ''/r/d'', tvCanonical := js ''/r/d''\<rparr>)"
    "assertResolvedLinkDirectory linkIo (js ''/r/d'') False () = (Inr (), ())" by code_simp+
  then show ?thesis
    by (simp add: linkStep_def bindS_def link_hop liftS_def returnS_def linkParams_def del: js_Cons js_Nil)
qed

lemma link_entry: "entryStep linkIo demoHost Native linkParams (js ''/r'') False False (js ''l'')
    \<lparr>bsDev = 1, bsIno = 1, bsKind = Symbolic_link\<rparr> (linkStart\<lparr>tvLexical := js ''/r/l''\<rparr>) () =
  (Inr (linkStart\<lparr>tvLexical := js ''/r/d'', tvCanonical := js ''/r/d''\<rparr>, True), ())"
  using link_first by (simp add: entryStep_def Let_def bindS_def liftS_def linkParams_def del: js_Cons js_Nil)

lemma link_rest: "traverseSegments linkIo demoHost Native linkParams (js ''/r'') (Some 1) 1
    (linkStart\<lparr>tvLexical := js ''/r/d'', tvCanonical := js ''/r/d''\<rparr>) [js ''f''] () =
  (Inr (linkStart\<lparr>tvLexical := js ''/r/d/f'', tvCanonical := js ''/r/d/f''\<rparr>), ())"
proof -
  have "posixJoin [js ''/r/d'', js ''f''] = js ''/r/d/f''" "js ''f'' \<noteq> [DOT]" "js ''f'' \<noteq> dotdot"
    "ioLstat linkIo (js ''/r/d/f'') () = (Inr \<lparr>bsDev = 1, bsIno = 1, bsKind = Regular_file\<rparr>, ())"
    "advanceCanonicalCursor demoHost (js ''/r'') (js ''f'')
       (linkStart\<lparr>tvLexical := js ''/r/d/f'', tvCanonical := js ''/r/d''\<rparr>) =
     Inr (linkStart\<lparr>tvLexical := js ''/r/d/f'', tvCanonical := js ''/r/d/f''\<rparr>)" by code_simp+
  then show ?thesis
    by (simp add: Let_def tryS_def entryStep_def assertDirectoryBeforeMoreSegments_def throwIf_def bindS_def liftS_def
        returnS_def del: js_Cons js_Nil)
qed

lemma link_walk: "traverseSegments linkIo demoHost Native linkParams (js ''/r'') (Some 1) 0 linkStart [js ''l'', js ''f''] () =
  (Inr (linkStart\<lparr>tvLexical := js ''/r/d/f'', tvCanonical := js ''/r/d/f''\<rparr>), ())"
proof -
  have "posixJoin [js ''/r'', js ''l''] = js ''/r/l''" "js ''l'' \<noteq> [DOT]" "js ''l'' \<noteq> dotdot"
    "ioLstat linkIo (js ''/r/l'') () = (Inr \<lparr>bsDev = 1, bsIno = 1, bsKind = Symbolic_link\<rparr>, ())" by code_simp+
  then show ?thesis
    using link_entry link_rest
    by (simp add: traverseSegments.simps(2) [of _ _ _ _ _ _ 0] Let_def tryS_def bindS_def
        del: traverseSegments.simps js_Cons js_Nil)
qed

definition linkResult :: resolved_root_path where
  "linkResult = \<lparr>rrAbsolutePath = js ''/r/l/f'', rrCanonicalPath = js ''/r/d/f'', rrRootPath = js ''/r'',
     rrRootCanonicalPath = js ''/r'', rrRelativePath = js ''d/f'', rrExists = True, rrKind = Kind_file\<rparr>"

lemma link_run: "resolveRootPath linkIo asciiUnicode demoHost Native linkParams () = (Inr linkResult, ())"
proof -
  have "captureValidRootPathInputs linkParams = Inr linkParams" "givenCanonicalRoot linkParams = Some (js ''/r'')"
    "absolutePathWithRawSegments (cwd demoHost) (rqAbsolutePath linkParams) = js ''/r/l/f''"
    "pathResolve demoHost [rqRootPath linkParams] = js ''/r''" "pathResolve demoHost [js ''/r''] = js ''/r''"
    "pathResolve demoHost [js ''/r/l/f''] = js ''/r/l/f''"
    "admitRawPathInsideRoot (js ''/r'') (js ''/r/l/f'') = Some \<lparr>apPath = js ''/r/l/f'', apRelative = js ''l/f''\<rparr>"
    "splitTraversalSegments (js ''l/f'') = [js ''l'', js ''f'']"
    "findLastIndex (\<lambda>segment. segment \<noteq> [DOT]) [js ''l'', js ''f''] = Some 1"
    "getPathKind linkIo (js ''/r/d/f'') False () = (Inr Kind_file, ())"
    "finalizeLexicalResolution demoHost (js ''/r/l/f'') (js ''/r'') (js ''/r'')
       (linkStart\<lparr>tvLexical := js ''/r/d/f'', tvCanonical := js ''/r/d/f''\<rparr>) Kind_file = Inr linkResult"
    by code_simp+
  then show ?thesis
    using link_walk
    by (simp add: resolveRootPath_def walkFromRoot_def prepareRootTraversal_def Let_def bindS_def liftS_def returnS_def
        del: traverseSegments.simps js_Cons js_Nil)
qed

theorem resolved_root_path_inside_witness:
  "prefix (hostSegs demoHost (js ''/r'')) (hostSegs demoHost (js ''/r/d/f'')) \<and>
   hostSegs demoHost (hostResolve demoHost (js ''/r'') (js ''d/f'')) = hostSegs demoHost (js ''/r/d/f'')"
  using resolved_root_path_inside [OF posixHost_demo link_run] unfolding linkResult_def resolved_root_path.simps by blast


end
