(* ===== verification/DurableQueue.thy ===== *)
theory DurableQueue
  imports PathPrefix FileIdentity
begin

text \<open>
  The durable JSON queue (\<open>src/json-durable-queue-ownership.ts\<close>, with \<open>src/hardlink-fallback.ts\<close>): how an
  entry is claimed, acknowledged, moved to the failed directory, and how an interrupted transfer is
  recovered. An entry is a file with up to five names; a generation is the inode a producer publishes
  under the pending name. Producers replace the pending name before any system call, without a lock;
  the other operations on one entry exclude each other by a lock. Every system call may fail, before or
  after its effect: a crash is a failure whose code nobody catches.
\<close>

subsection \<open>The names of an entry\<close>

text \<open>\<open>Retired\<close> is \<open>entry\<close> in the entry's record directory below \<open>.fs-safe-retirements\<close>.\<close>

datatype queue_name = Pending | Processing | Delivered | Failed_entry | Retired

record queue_stat =
  qsKind :: file_kind
  qsLinks :: nat
  qsIdentity :: file_identity

text \<open>The retirement root and the record directory, if they exist, and what else the record holds.\<close>

record queue_fs =
  qfName :: "queue_name \<Rightarrow> nat option"
  qfRoot :: "file_kind option"
  qfRecord :: "file_kind option"
  qfForeign :: "jstr list"

text \<open>\<open>qwNext\<close> is the next inode; the last three fields are a history: the generation published last, the
  generations that were claimed, and those acknowledged or moved to the failed directory.\<close>

record queue_world =
  qwFs :: queue_fs
  qwStep :: nat
  qwNext :: nat
  qwLatest :: "nat option"
  qwClaimed :: "nat list"
  qwSettled :: "nat list"

text \<open>How many times producers publish before a step, whether another queue takes the failed name, which
  calls fail and whether after their effect, what the inodes are, and how many links they have under other
  names.\<close>

record queue_env =
  qePlatform :: platform
  qeShareParent :: bool
  qeEnqueues :: "nat \<Rightarrow> nat"
  qeTakesFailed :: "nat \<Rightarrow> bool"
  qeFault :: "nat \<Rightarrow> (bool \<times> string) option"
  qeKind :: "nat \<Rightarrow> file_kind"
  qeIdentity :: "nat \<Rightarrow> file_identity"
  qeOtherLinks :: "nat \<Rightarrow> nat \<Rightarrow> nat"
  qeParentThere :: "nat \<Rightarrow> bool"

type_synonym 'a queue_op = "(queue_world, error, 'a) op"
type_synonym 'a queue_call = "queue_world \<Rightarrow> (error + 'a) \<times> queue_world"

definition inodeAt :: "queue_name \<Rightarrow> queue_world \<Rightarrow> nat option" where
  "inodeAt name w = qfName (qwFs w) name"

definition setName :: "queue_name \<Rightarrow> nat option \<Rightarrow> queue_world \<Rightarrow> queue_world" where
  "setName name i w = w\<lparr>qwFs := (qwFs w)\<lparr>qfName := (qfName (qwFs w))(name := i)\<rparr>\<rparr>"

subsection \<open>The others\<close>

definition publish :: "queue_world \<Rightarrow> queue_world" where
  "publish w = setName Pending (Some (qwNext w)) (w\<lparr>qwNext := Suc (qwNext w), qwLatest := Some (qwNext w)\<rparr>)"

definition takeFailed :: "queue_world \<Rightarrow> queue_world" where
  "takeFailed w =
     (if inodeAt Failed_entry w = None
      then setName Failed_entry (Some (qwNext w)) (w\<lparr>qwNext := Suc (qwNext w)\<rparr>) else w)"

definition others :: "queue_env \<Rightarrow> queue_world \<Rightarrow> queue_world" where
  "others env w =
     (let n = qwStep w; w' = (publish ^^ qeEnqueues env n) (w\<lparr>qwStep := Suc n\<rparr>)
      in if qeTakesFailed env n then takeFailed w' else w')"

definition sysQ :: "queue_env \<Rightarrow> 'a queue_call \<Rightarrow> 'a queue_op" where
  "sysQ env call = (\<lambda>w. let w' = others env w in
     case qeFault env (qwStep w) of
       None \<Rightarrow> call w'
     | Some (applied, code) \<Rightarrow> (Inl (NodeErr code), if applied then snd (call w') else w'))"

subsection \<open>System calls\<close>

definition nodeFail :: "string \<Rightarrow> 'a queue_call" where
  "nodeFail code = (\<lambda>w. (Inl (NodeErr code), w))"

definition linkCount :: "queue_env \<Rightarrow> queue_world \<Rightarrow> nat \<Rightarrow> nat" where
  "linkCount env w i =
     qeOtherLinks env (qwStep w) i +
     length (filter (\<lambda>name. inodeAt name w = Some i) [Pending, Processing, Delivered, Failed_entry, Retired])"

definition lstatName :: "queue_env \<Rightarrow> queue_name \<Rightarrow> queue_stat queue_call" where
  "lstatName env name w =
     (case inodeAt name w of
        None \<Rightarrow> nodeFail ''ENOENT'' w
      | Some i \<Rightarrow> (Inr \<lparr>qsKind = qeKind env i, qsLinks = linkCount env w i, qsIdentity = qeIdentity env i\<rparr>, w))"

text \<open>A link creates its name or fails. A generation that gets the processing name is claimed.\<close>

definition linkName :: "queue_name \<Rightarrow> queue_name \<Rightarrow> unit queue_call" where
  "linkName source target w =
     (case inodeAt source w of
        None \<Rightarrow> nodeFail ''ENOENT'' w
      | Some i \<Rightarrow>
          if inodeAt target w \<noteq> None then nodeFail ''EEXIST'' w
          else (Inr (), setName target (Some i)
                  (if target = Processing then w\<lparr>qwClaimed := i # qwClaimed w\<rparr> else w)))"

text \<open>A rename replaces its target, except that between two names of one file it does nothing. A claim
  that gets the delivered name is settled.\<close>

definition renameName :: "queue_name \<Rightarrow> queue_name \<Rightarrow> unit queue_call" where
  "renameName source target w =
     (case inodeAt source w of
        None \<Rightarrow> nodeFail ''ENOENT'' w
      | Some i \<Rightarrow>
          if target = Retired \<and> qfRecord (qwFs w) \<noteq> Some Directory then nodeFail ''ENOENT'' w
          else if inodeAt target w = Some i then (Inr (), w)
          else (Inr (), setName source None (setName target (Some i)
                  (if target = Delivered then w\<lparr>qwSettled := i # qwSettled w\<rparr> else w))))"

text \<open>A claim that loses its processing name while it has the failed name is settled.\<close>

definition unlinkName :: "queue_name \<Rightarrow> unit queue_call" where
  "unlinkName name w =
     (case inodeAt name w of
        None \<Rightarrow> nodeFail ''ENOENT'' w
      | Some i \<Rightarrow> (Inr (), setName name None
          (if name = Processing \<and> inodeAt Failed_entry w = Some i then w\<lparr>qwSettled := i # qwSettled w\<rparr> else w)))"

definition syncCall :: "unit queue_call" where
  "syncCall w = (Inr (), w)"

definition statDirectory :: "(queue_fs \<Rightarrow> file_kind option) \<Rightarrow> file_kind queue_call" where
  "statDirectory field w =
     (case field (qwFs w) of None \<Rightarrow> nodeFail ''ENOENT'' w | Some kind \<Rightarrow> (Inr kind, w))"

definition mkdirRoot :: "unit queue_call" where
  "mkdirRoot w =
     (if qfRoot (qwFs w) \<noteq> None then nodeFail ''EEXIST'' w
      else (Inr (), w\<lparr>qwFs := (qwFs w)\<lparr>qfRoot := Some Directory\<rparr>\<rparr>))"

definition mkdirRecord :: "unit queue_call" where
  "mkdirRecord w =
     (if qfRoot (qwFs w) \<noteq> Some Directory then nodeFail ''ENOENT'' w
      else if qfRecord (qwFs w) \<noteq> None then nodeFail ''EEXIST'' w
      else (Inr (), w\<lparr>qwFs := (qwFs w)\<lparr>qfRecord := Some Directory\<rparr>\<rparr>))"

definition rmdirRecord :: "unit queue_call" where
  "rmdirRecord w =
     (case qfRecord (qwFs w) of
        None \<Rightarrow> nodeFail ''ENOENT'' w
      | Some kind \<Rightarrow>
          if kind \<noteq> Directory then nodeFail ''ENOTDIR'' w
          else if inodeAt Retired w \<noteq> None \<or> qfForeign (qwFs w) \<noteq> [] then nodeFail ''ENOTEMPTY'' w
          else (Inr (), w\<lparr>qwFs := (qwFs w)\<lparr>qfRecord := None\<rparr>\<rparr>))"

definition RETIREMENT_ENTRY_NAME :: jstr where
  "RETIREMENT_ENTRY_NAME = js ''entry''"

definition readRecord :: "jstr list queue_call" where
  "readRecord w =
     (if qfRecord (qwFs w) \<noteq> Some Directory then nodeFail ''ENOENT'' w
      else (Inr (qfForeign (qwFs w) @ (if inodeAt Retired w = None then [] else [RETIREMENT_ENTRY_NAME])), w))"

definition syncDirectoryQ :: "queue_env \<Rightarrow> unit queue_op" where
  "syncDirectoryQ env = sysQ env syncCall"

subsection \<open>Looking at names\<close>

definition orNull :: "'a queue_op \<Rightarrow> 'a option queue_op" where
  "orNull m = tryS m (\<lambda>e. if hasNodeErrorCode e ''ENOENT'' then returnS None else throwS e) (\<lambda>x. returnS (Some x))"

definition lstatOrNull :: "queue_env \<Rightarrow> queue_name \<Rightarrow> queue_stat option queue_op" where
  "lstatOrNull env name = orNull (sysQ env (lstatName env name))"

datatype queue_subject = Entry_subject | Retirement_subject

definition notRegular :: "queue_subject \<Rightarrow> error" where
  "notRegular subject =
     (case subject of
        Retirement_subject \<Rightarrow> throwFs Path_mismatch ''queue retirement path is not a regular file''
      | Entry_subject \<Rightarrow> PlainErr ''queue entry is not a regular file'')"

definition regularQueueFileIdentity :: "queue_env \<Rightarrow> queue_subject \<Rightarrow> queue_name \<Rightarrow> queue_stat option queue_op" where
  "regularQueueFileIdentity env subject name =
     bindS (lstatOrNull env name) (\<lambda>identity.
       case identity of
         None \<Rightarrow> returnS None
       | Some stat \<Rightarrow> if qsKind stat \<noteq> Regular_file then throwS (notRegular subject) else returnS (Some stat))"

definition sameFile :: "queue_env \<Rightarrow> queue_stat \<Rightarrow> queue_stat \<Rightarrow> bool" where
  "sameFile env a b = sameFileIdentityForCleanup (qePlatform env) (qsIdentity a) (qsIdentity b)"

definition HARDLINK_FALLBACK_CODES :: "string list" where
  "HARDLINK_FALLBACK_CODES = [''EACCES'', ''EPERM'', ''EXDEV'', ''ENOTSUP'', ''EOPNOTSUPP'', ''ENOSYS'']"

definition isHardlinkFallbackError :: "error \<Rightarrow> bool" where
  "isHardlinkFallbackError e = (case e of NodeErr c \<Rightarrow> c \<in> set HARDLINK_FALLBACK_CODES | _ \<Rightarrow> False)"

definition linkQueueGeneration :: "queue_env \<Rightarrow> queue_name \<Rightarrow> queue_name \<Rightarrow> unit queue_op" where
  "linkQueueGeneration env source target =
     tryS (sysQ env (linkName source target))
       (\<lambda>e. if isHardlinkFallbackError e
            then throwS (throwFs Helper_unavailable ''durable queue ownership requires hardlink support'')
            else throwS e)
       returnS"

subsection \<open>Retirement\<close>

definition ownedDirectory :: "file_kind \<Rightarrow> string \<Rightarrow> unit queue_op" where
  "ownedDirectory kind message = liftS (throwIf (kind \<noteq> Directory) (throwFs Path_mismatch message))"

definition ensureRetirementRoot :: "queue_env \<Rightarrow> unit queue_op" where
  "ensureRetirementRoot env =
     bindS (tryS (sysQ env mkdirRoot) (\<lambda>e. if hasNodeErrorCode e ''EEXIST'' then returnS () else throwS e) returnS) (\<lambda>_.
     bindS (sysQ env (statDirectory qfRoot)) (\<lambda>kind.
     bindS (ownedDirectory kind ''queue retirement root is not an owned directory'') (\<lambda>_.
       syncDirectoryQ env)))"

definition removeRetirementRecord :: "queue_env \<Rightarrow> unit queue_op" where
  "removeRetirementRecord env =
     bindS (tryS (sysQ env rmdirRecord) (\<lambda>e. if hasNodeErrorCode e ''ENOENT'' then returnS () else throwS e) returnS) (\<lambda>_.
       syncDirectoryQ env)"

text \<open>The entry of a record that is not the claim goes back to the pending name, unless a newer
  generation has it.\<close>

definition restoreReplaced :: "queue_env \<Rightarrow> queue_stat \<Rightarrow> unit queue_op" where
  "restoreReplaced env entry =
     bindS (regularQueueFileIdentity env Retirement_subject Pending) (\<lambda>pending.
       case pending of
         None \<Rightarrow> bindS (linkQueueGeneration env Retired Pending) (\<lambda>_. syncDirectoryQ env)
       | Some p \<Rightarrow>
           if sameFile env p entry then syncDirectoryQ env
           else throwWhen (\<lambda>_. qsLinks p > 1) (throwFs Path_mismatch ''queue replacement identity is ambiguous''))"

definition settleRecord :: "queue_env \<Rightarrow> unit queue_op" where
  "settleRecord env =
     bindS (regularQueueFileIdentity env Retirement_subject Retired) (\<lambda>entry.
     bindS (regularQueueFileIdentity env Retirement_subject Processing) (\<lambda>processing.
       case (entry, processing) of
         (Some e, Some p) \<Rightarrow>
           bindS (if sameFile env e p then returnS () else restoreReplaced env e) (\<lambda>_.
           bindS (sysQ env (unlinkName Retired)) (\<lambda>_.
           bindS (syncDirectoryQ env) (\<lambda>_. removeRetirementRecord env)))
       | _ \<Rightarrow> throwS (throwFs Path_mismatch ''queue retirement ownership is incomplete'')))"

definition recoverDurableQueueRetirement :: "queue_env \<Rightarrow> unit queue_op" where
  "recoverDurableQueueRetirement env =
     bindS (orNull (sysQ env (statDirectory qfRoot))) (\<lambda>root.
       case root of
         None \<Rightarrow> returnS ()
       | Some rootKind \<Rightarrow>
           bindS (ownedDirectory rootKind ''queue retirement root is not an owned directory'') (\<lambda>_.
           bindS (orNull (sysQ env (statDirectory qfRecord))) (\<lambda>dir.
             case dir of
               None \<Rightarrow> returnS ()
             | Some dirKind \<Rightarrow>
                 bindS (ownedDirectory dirKind ''queue retirement record is not an owned directory'') (\<lambda>_.
                 bindS (sysQ env readRecord) (\<lambda>names.
                   if names = [] then removeRetirementRecord env
                   else if names \<noteq> [RETIREMENT_ENTRY_NAME]
                   then throwS (throwFs Path_mismatch ''queue retirement record is ambiguous'')
                   else settleRecord env)))))"

definition retireDurableQueueSource :: "queue_env \<Rightarrow> unit queue_op" where
  "retireDurableQueueSource env =
     bindS (recoverDurableQueueRetirement env) (\<lambda>_.
     bindS (ensureRetirementRoot env) (\<lambda>_.
     bindS (sysQ env mkdirRecord) (\<lambda>_.
     bindS (syncDirectoryQ env) (\<lambda>_.
       tryS (sysQ env (renameName Pending Retired))
         (\<lambda>e. if \<not> hasNodeErrorCode e ''ENOENT'' then throwS e else removeRetirementRecord env)
         (\<lambda>_. bindS (syncDirectoryQ env) (\<lambda>_. bindS (syncDirectoryQ env) (\<lambda>_. recoverDurableQueueRetirement env)))))))"

subsection \<open>Operations\<close>

text \<open>\<open>True\<close> stands for the processing path, \<open>False\<close> for null.\<close>

definition claimPending :: "queue_env \<Rightarrow> bool queue_op" where
  "claimPending env =
     tryS (linkQueueGeneration env Pending Processing)
       (\<lambda>e. if hasNodeErrorCode e ''EEXIST''
            then bindS (regularQueueFileIdentity env Entry_subject Processing) (\<lambda>p.
                   case p of None \<Rightarrow> returnS False
                   | Some _ \<Rightarrow> bindS (syncDirectoryQ env) (\<lambda>_. returnS True))
            else if hasNodeErrorCode e ''ENOENT'' then returnS False else throwS e)
       (\<lambda>_. bindS (syncDirectoryQ env) (\<lambda>_.
            bindS (regularQueueFileIdentity env Entry_subject Processing) (\<lambda>claimed.
              case claimed of
                None \<Rightarrow> throwS (throwFs Path_mismatch ''queue claim is not an owned regular file'')
              | Some c \<Rightarrow>
                  if qsLinks c > 2 then throwS (throwFs Path_mismatch ''queue claim is not an owned regular file'')
                  else bindS (retireDurableQueueSource env) (\<lambda>_. returnS True))))"

definition claimDurableQueueEntryUnlocked :: "queue_env \<Rightarrow> bool \<Rightarrow> bool queue_op" where
  "claimDurableQueueEntryUnlocked env skipUnowned =
     bindS (recoverDurableQueueRetirement env) (\<lambda>_.
     bindS (regularQueueFileIdentity env Entry_subject Processing) (\<lambda>existingProcessing.
     bindS (lstatOrNull env Pending) (\<lambda>pending.
       case existingProcessing of
         Some claim \<Rightarrow>
           (let retiresPending = (case pending of None \<Rightarrow> False
                                  | Some p \<Rightarrow> qsKind p = Regular_file \<and> sameFile env p claim)
            in bindS (if \<not> retiresPending \<or> \<not> qeShareParent env then syncDirectoryQ env else returnS ()) (\<lambda>_.
               bindS (if retiresPending then retireDurableQueueSource env else returnS ()) (\<lambda>_. returnS True)))
       | None \<Rightarrow>
           (case pending of
              None \<Rightarrow> returnS False
            | Some p \<Rightarrow>
                if qsKind p \<noteq> Regular_file then returnS False
                else if qsLinks p > 1 \<or> \<not> sameFile env p p
                then (if skipUnowned then returnS False
                      else throwS (throwFs Path_mismatch ''queue entry is not exclusively owned''))
                else claimPending env))))"

text \<open>The transfer lock: taking it and giving it back are file system work that may fail.\<close>

definition withQueueEntryLock :: "queue_env \<Rightarrow> 'a queue_op \<Rightarrow> 'a queue_op" where
  "withQueueEntryLock env run = bindS (sysQ env syncCall) (\<lambda>_. finallyS run (sysQ env syncCall))"

definition statParent :: "queue_env \<Rightarrow> unit queue_call" where
  "statParent env w = (if qeParentThere env (qwStep w) then (Inr (), w) else nodeFail ''ENOENT'' w)"

definition parentThere :: "queue_env \<Rightarrow> bool queue_op" where
  "parentThere env = bindS (orNull (sysQ env (statParent env))) (\<lambda>stat. returnS (stat \<noteq> None))"

definition claimDurableQueueEntry :: "queue_env \<Rightarrow> bool \<Rightarrow> bool queue_op" where
  "claimDurableQueueEntry env skipUnowned =
     bindS (parentThere env) (\<lambda>there.
       if \<not> there then returnS False
       else withQueueEntryLock env (claimDurableQueueEntryUnlocked env skipUnowned))"

definition completeDeliveredQueueEntry :: "queue_env \<Rightarrow> bool queue_op" where
  "completeDeliveredQueueEntry env =
     bindS (parentThere env) (\<lambda>there.
       if \<not> there then returnS False
       else withQueueEntryLock env
         (bindS (regularQueueFileIdentity env Entry_subject Delivered) (\<lambda>delivered.
            case delivered of
              None \<Rightarrow> returnS False
            | Some _ \<Rightarrow>
                bindS (regularQueueFileIdentity env Entry_subject Processing) (\<lambda>processing.
                bindS (sysQ env (unlinkName Delivered)) (\<lambda>_.
                bindS (syncDirectoryQ env) (\<lambda>_. returnS (processing = None)))))))"

definition acknowledgeDurableQueueEntry :: "queue_env \<Rightarrow> unit queue_op" where
  "acknowledgeDurableQueueEntry env =
     bindS (parentThere env) (\<lambda>there.
       if \<not> there then returnS ()
       else withQueueEntryLock env
         (bindS (regularQueueFileIdentity env Entry_subject Processing) (\<lambda>processing.
          bindS (regularQueueFileIdentity env Entry_subject Delivered) (\<lambda>delivered.
          bindS (if delivered \<noteq> None then sysQ env (unlinkName Delivered) else returnS ()) (\<lambda>_.
            if processing = None
            then bindS (syncDirectoryQ env) (\<lambda>_.
                 bindS (regularQueueFileIdentity env Entry_subject Pending) (\<lambda>pending.
                   if pending \<noteq> None
                   then throwS (throwFs Path_mismatch ''queue acknowledgement requires a processing claim'')
                   else returnS ()))
            else bindS (sysQ env (renameName Processing Delivered)) (\<lambda>_.
                 bindS (syncDirectoryQ env) (\<lambda>_.
                 bindS (sysQ env (unlinkName Delivered)) (\<lambda>_. syncDirectoryQ env))))))))"

definition moveSource :: "queue_env \<Rightarrow> unit queue_op" where
  "moveSource env =
     bindS (regularQueueFileIdentity env Entry_subject Processing) (\<lambda>source.
     bindS (regularQueueFileIdentity env Entry_subject Failed_entry) (\<lambda>failed.
     bindS (case failed of
              None \<Rightarrow> linkQueueGeneration env Processing Failed_entry
            | Some f \<Rightarrow>
                (case source of
                   Some s \<Rightarrow> throwWhen (\<lambda>_. \<not> sameFile env s f)
                               (throwFs Already_exists ''failed queue destination already exists'')
                 | None \<Rightarrow> throwS (throwFs Already_exists ''failed queue destination already exists''))) (\<lambda>_.
     bindS (syncDirectoryQ env) (\<lambda>_.
     bindS (sysQ env (unlinkName Processing)) (\<lambda>_. syncDirectoryQ env)))))"

definition moveDurableQueueEntryToFailed :: "queue_env \<Rightarrow> unit queue_op" where
  "moveDurableQueueEntryToFailed env =
     withQueueEntryLock env
       (bindS (regularQueueFileIdentity env Entry_subject Processing) (\<lambda>processing.
        bindS (regularQueueFileIdentity env Entry_subject Failed_entry) (\<lambda>existingFailed.
          case (processing, existingFailed) of
            (None, Some before) \<Rightarrow>
              bindS (syncDirectoryQ env) (\<lambda>_. bindS (syncDirectoryQ env) (\<lambda>_.
              bindS (regularQueueFileIdentity env Entry_subject Failed_entry) (\<lambda>recoveredFailed.
                if (case recoveredFailed of None \<Rightarrow> True | Some after \<Rightarrow> \<not> sameFile env before after)
                then throwS (throwFs Path_mismatch ''failed queue destination changed during recovery'')
                else bindS (regularQueueFileIdentity env Entry_subject Pending) (\<lambda>pending.
                  if pending \<noteq> None
                  then throwS (throwFs Already_exists ''failed queue destination already exists'')
                  else returnS ()))))
          | _ \<Rightarrow>
              bindS (if processing \<noteq> None then returnS True else claimDurableQueueEntryUnlocked env False) (\<lambda>claimed.
                if \<not> claimed then throwS (NodeErr ''ENOENT'') else moveSource env))))"

subsection \<open>Requests one after another\<close>

text \<open>The lock lets one operation on the entry run at a time; whether it succeeded does not matter to the
  next. The world changes between two requests as it does between two system calls.\<close>

datatype queue_request = Claim bool | Complete | Acknowledge | Quarantine

definition serve :: "queue_env \<Rightarrow> queue_request \<Rightarrow> queue_world \<Rightarrow> queue_world" where
  "serve env request w =
     (case request of
        Claim skipUnowned \<Rightarrow> snd (claimDurableQueueEntry env skipUnowned w)
      | Complete \<Rightarrow> snd (completeDeliveredQueueEntry env w)
      | Acknowledge \<Rightarrow> snd (acknowledgeDurableQueueEntry env w)
      | Quarantine \<Rightarrow> snd (moveDurableQueueEntryToFailed env w))"

definition emptyQueue :: queue_world where
  "emptyQueue =
     \<lparr>qwFs = \<lparr>qfName = (\<lambda>_. None), qfRoot = None, qfRecord = None, qfForeign = []\<rparr>,
      qwStep = 0, qwNext = 0, qwLatest = None, qwClaimed = [], qwSettled = []\<rparr>"

end
