(* ===== verification/QueueDelivery.thy ===== *)
theory QueueDelivery
  imports QueueSafety
begin

text \<open>
  A claim that was returned and acknowledged is not delivered again. Here a failed call is a crash: its
  code is none of the two that the operations catch; and a file has the same identity as itself.
\<close>

subsection \<open>Failures that nobody catches\<close>

definition crashes :: "queue_env \<Rightarrow> bool" where
  "crashes env \<longleftrightarrow> (\<forall>n applied code. qeFault env n = Some (applied, code) \<longrightarrow> code \<noteq> ''ENOENT'' \<and> code \<noteq> ''EEXIST'')"

definition knownFiles :: "queue_env \<Rightarrow> bool" where
  "knownFiles env \<longleftrightarrow> (\<forall>i. sameFileIdentityForCleanup (qePlatform env) (qeIdentity env i) (qeIdentity env i))"

definition caught :: "(error \<Rightarrow> queue_world \<Rightarrow> bool) \<Rightarrow> error \<Rightarrow> queue_world \<Rightarrow> bool" where
  "caught C e w \<longleftrightarrow> (e = NodeErr ''ENOENT'' \<or> e = NodeErr ''EEXIST'' \<longrightarrow> C e w)"

abbreviation anything :: "error \<Rightarrow> queue_world \<Rightarrow> bool" where
  "anything \<equiv> \<lambda>_ _. True"

lemma triple_clean:
  assumes "crashes env" "lasting env A" "\<And>w. together A w \<Longrightarrow> accounted (snd (call w))"
    and "\<And>w x t. together A w \<Longrightarrow> call w = (Inr x, t) \<Longrightarrow> B x t"
    and "\<And>w e t. together A w \<Longrightarrow> call w = (Inl e, t) \<Longrightarrow> C e t"
  shows "triple (together A) (sysQ env call) (\<lambda>x. together (B x)) (caught (\<lambda>e. together (C e)))"
proof (rule triple_sys)
  show "together A w \<Longrightarrow> together A (others env w)" for w by (rule together_others [OF assms(2)])
  fix w r t
  assume a: "together A w" "call w = (r, t)"
  then have "accounted t" using assms(3) [of w] by simp
  then show "case r of Inl e \<Rightarrow> caught (\<lambda>e. together (C e)) e t | Inr x \<Rightarrow> together (B x) t"
    using a assms(4,5) by (auto simp: together_def caught_def split: sum.splits)
next
  fix w code n applied
  assume "qeFault env n = Some (applied, code)"
  then show "caught (\<lambda>e. together (C e)) (NodeErr code) w \<and> caught (\<lambda>e. together (C e)) (NodeErr code) (snd (call w))"
    using assms(1) by (auto simp: caught_def crashes_def)
qed

lemma triple_anything: "triple P m Q E \<Longrightarrow> triple P m Q anything"
  by (erule triple_weaken) simp_all

lemma triple_bind_any: "triple P m R E \<Longrightarrow> (\<And>x. triple (R x) (f x) Q anything) \<Longrightarrow> triple P (bindS m f) Q anything"
  by (rule triple_bind [OF triple_anything])

lemma triple_throw_any: "triple P (throwS e) Q anything"
  by (simp add: triple_def throwS_def liftS_def)

text \<open>A look at a name that finds nothing means that it names nothing.\<close>

definition looked :: "queue_env \<Rightarrow> queue_name \<Rightarrow> queue_stat option \<Rightarrow> queue_world \<Rightarrow> bool" where
  "looked env name r w \<longleftrightarrow> (case r of None \<Rightarrow> inodeAt name w = None | Some st \<Rightarrow> seen env name st w)"

lemma look_clean:
  assumes "crashes env" "lasting env A"
  shows "triple (together A) (lstatOrNull env name) (\<lambda>r. together (\<lambda>w. A w \<and> looked env name r w)) anything"
proof -
  have "triple (together A) (sysQ env (lstatName env name)) (\<lambda>st. together (\<lambda>w. A w \<and> seen env name st w))
      (caught (\<lambda>_. together (\<lambda>w. A w \<and> inodeAt name w = None)))"
    by (rule triple_clean [OF assms])
       (auto simp: lstatName_def nodeFail_def together_def seen_def split: option.splits)
  then show ?thesis
    unfolding lstatOrNull_def orNull_def
    by (rule triple_try)
       (auto simp: triple_def returnS_def throwS_def liftS_def caught_def hasNodeErrorCode_def looked_def together_def
         split: error.splits)
qed

lemma regular_clean:
  assumes "crashes env" "lasting env A"
  shows "triple (together A) (regularQueueFileIdentity env subject name)
    (\<lambda>r. together (\<lambda>w. A w \<and> looked env name r w \<and> (\<forall>st. r = Some st \<longrightarrow> qsKind st = Regular_file))) anything"
  unfolding regularQueueFileIdentity_def
  by (rule triple_bind_any [OF look_clean [OF assms]])
     (auto simp: triple_def returnS_def throwS_def liftS_def together_def split: option.splits)

lemma there_clean:
  assumes "crashes env" "\<And>n. qeParentThere env n" "lasting env A"
  shows "triple (together A) (parentThere env) (\<lambda>there w. there \<and> together A w) anything"
proof -
  have "triple (together A) (sysQ env (statParent env)) (\<lambda>_. together A) (caught (\<lambda>_. together (\<lambda>_. False)))"
    by (rule triple_clean [OF assms(1,3)]) (use assms(2) in \<open>auto simp: statParent_def together_def\<close>)
  then have "triple (together A) (orNull (sysQ env (statParent env))) (\<lambda>r w. r \<noteq> None \<and> together A w) anything"
    unfolding orNull_def
    by (rule triple_try)
       (auto simp: triple_def returnS_def throwS_def liftS_def caught_def hasNodeErrorCode_def together_def
         split: error.splits)
  then show ?thesis
    unfolding parentThere_def by (rule triple_bind) (simp add: triple_def returnS_def)
qed

lemma sync_clean: "lasting env A \<Longrightarrow> triple (together A) (syncDirectoryQ env) (\<lambda>_. together A) anything"
  by (rule triple_anything [OF triple_sync])

subsection \<open>Frames\<close>

text \<open>The processing name is there, and the pending name names another file.\<close>

definition apart :: "bool \<Rightarrow> bool \<Rightarrow> queue_world \<Rightarrow> bool" where
  "apart there other w \<longleftrightarrow> (there \<longrightarrow> inodeAt Processing w \<noteq> None) \<and>
     (other \<longrightarrow> (\<forall>p. inodeAt Processing w = Some p \<longrightarrow> inodeAt Pending w \<noteq> Some p))"

definition bare :: "queue_world \<Rightarrow> bool" where
  "bare w \<longleftrightarrow> inodeAt Retired w = None"

lemma others_fresh:
  assumes "p < qwNext w" "inodeAt Pending w \<noteq> Some p"
  shows "inodeAt Pending (others env w) \<noteq> Some p \<and> p < qwNext (others env w)"
  by (rule others_keeps [where P = "\<lambda>w. inodeAt Pending w \<noteq> Some p \<and> p < qwNext w"])
     (use assms in \<open>auto simp: publish_def takeFailed_def\<close>)

lemma lasting_apart: "lasting env (apart there other)"
proof -
  have "apart there other (others env w)" if "accounted w" "apart there other w" for w
    using that others_fresh [of _ w env] numbered_at [OF accountedD(3) [OF that(1)]]
    by (auto simp: apart_def others_inert)
  then show ?thesis by (simp add: lasting_def)
qed

lemma lasting_bare: "lasting env bare"
  by (simp add: lasting_def bare_def others_inert)

lemma lasting_looked: "name \<in> {Processing, Retired, Delivered} \<Longrightarrow> lasting env (looked env name r)"
  by (auto simp: lasting_def looked_def seen_def others_inert split: option.splits)

lemma lasting_record: "lasting env (\<lambda>w. qfRecord (qwFs w) = k)"
  by (simp add: lasting_def others_inert)

lemmas lastings = lasting_rules lasting_apart lasting_bare lasting_looked lasting_record

text \<open>Calls that touch neither the names nor the record.\<close>

lemma removeRecord_clean:
  assumes "crashes env" "lasting env A" "\<And>w. A w \<Longrightarrow> A (w\<lparr>qwFs := (qwFs w)\<lparr>qfRecord := None\<rparr>\<rparr>)"
  shows "triple (together A) (removeRetirementRecord env) (\<lambda>_. together A) anything"
proof -
  have "triple (together A) (sysQ env rmdirRecord) (\<lambda>_. together A) (caught (\<lambda>_. together A))"
  proof (rule triple_clean [OF assms(1,2)])
    show "together A w \<Longrightarrow> accounted (snd (rmdirRecord w))" for w
      by (auto simp: rmdirRecord_def nodeFail_def together_def accounted_def ordered_def numbered_def split: option.split)
  qed (use assms(3) in \<open>auto simp: rmdirRecord_def nodeFail_def together_def split: option.splits if_splits\<close>)
  then show ?thesis
    unfolding removeRetirementRecord_def
  proof (intro triple_bind [OF _ sync_clean [OF assms(2)]], elim triple_try)
    fix e
    show "triple (caught (\<lambda>_. together A) e) (if hasNodeErrorCode e ''ENOENT'' then returnS () else throwS e)
        (\<lambda>_. together A) anything"
      by (auto simp: triple_def returnS_def throwS_def liftS_def caught_def hasNodeErrorCode_def split: error.splits)
  qed (rule triple_return)
qed

lemma restore_clean:
  assumes "crashes env" "knownFiles env"
  shows "triple (together (\<lambda>w. apart there other w \<and> inodeAt Retired w \<noteq> None \<and> inodeAt Retired w \<noteq> inodeAt Processing w))
    (restoreReplaced env e) (\<lambda>_. together (\<lambda>w. apart there other w \<and> inodeAt Pending w \<noteq> None)) anything"
  (is "triple (together ?A) _ _ _")
  unfolding restoreReplaced_def
proof (rule triple_bind_any [OF regular_clean [OF assms(1)]])
  show l: "lasting env ?A" using lasting_apart [of env there other] by (auto simp: lasting_def others_inert)
  let ?B = "\<lambda>w. apart there other w \<and> inodeAt Pending w \<noteq> None"
  have lb: "lasting env ?B" by (intro lastings)
  fix r
  have link: "triple (together ?A) (linkQueueGeneration env Retired Pending) (\<lambda>_. together ?B) anything"
  proof (rule triple_anything, rule triple_link, rule triple_effect [OF l])
    show "together ?A w \<Longrightarrow> accounted (snd (linkName Retired Pending w))" for w
      by (simp add: together_def link_accounted)
  qed (auto simp: linkName_def nodeFail_def together_def apart_def split: option.splits if_splits)
  let ?P = "together (\<lambda>w. ?A w \<and> looked env Pending r w \<and> (\<forall>st. r = Some st \<longrightarrow> qsKind st = Regular_file))"
  show "triple ?P (case r of None \<Rightarrow> bindS (linkQueueGeneration env Retired Pending) (\<lambda>_. syncDirectoryQ env)
       | Some p \<Rightarrow> if sameFile env p e then syncDirectoryQ env
           else throwWhen (\<lambda>_. qsLinks p > 1) (throwFs Path_mismatch ''queue replacement identity is ambiguous''))
      (\<lambda>_. together ?B) anything"
  proof (cases r)
    case None
    have "triple ?P (bindS (linkQueueGeneration env Retired Pending) (\<lambda>_. syncDirectoryQ env)) (\<lambda>_. together ?B) anything"
      by (rule triple_bind_any [OF triple_weaken [OF link] sync_clean [OF lb]]) (auto simp: together_def)
    then show ?thesis using None by simp
  next
    case (Some p)
    have w: "?P w \<Longrightarrow> together ?B w" for w using Some by (auto simp: together_def looked_def seen_def)
    show ?thesis
    proof (cases "sameFile env p e")
      case True
      then show ?thesis using Some triple_weaken [OF sync_clean [OF lb] w] by simp
    next
      case False
      have "triple (together ?B) (throwWhen (\<lambda>_. qsLinks p > 1) x) (\<lambda>_. together ?B) anything" for x
        by (rule triple_throwWhen) simp_all
      from triple_weaken [OF this w] show ?thesis using Some False by simp
    qed
  qed
qed


lemma retired_drop_clean:
  assumes "crashes env"
  shows "triple (together (\<lambda>w. apart there other w \<and> (inodeAt Pending w \<noteq> None \<or> inodeAt Retired w = inodeAt Processing w)))
    (sysQ env (unlinkName Retired)) (\<lambda>_. together (\<lambda>w. apart there other w \<and> bare w)) anything"
proof (rule triple_anything, rule triple_clean [OF assms(1), where C = "\<lambda>_ _. True"])
  show "lasting env (\<lambda>w. apart there other w \<and> (inodeAt Pending w \<noteq> None \<or> inodeAt Retired w = inodeAt Processing w))"
    by (intro lastings)
  fix w :: queue_world and x t
  assume w: "together (\<lambda>w. apart there other w \<and> (inodeAt Pending w \<noteq> None \<or> inodeAt Retired w = inodeAt Processing w)) w"
  then show "accounted (snd (unlinkName Retired w))" by (intro retired_accounted) (auto simp: together_def)
  show "unlinkName Retired w = (Inr x, t) \<Longrightarrow> apart there other t \<and> bare t"
    using w by (auto simp: unlinkName_def nodeFail_def together_def apart_def bare_def split: option.splits)
qed simp

lemma settle_clean:
  assumes "crashes env" "knownFiles env" "distinctFiles env"
  shows "triple (together (apart there other)) (settleRecord env) (\<lambda>_. together (\<lambda>w. apart there other w \<and> bare w)) anything"
  unfolding settleRecord_def
proof (rule triple_bind_any [OF regular_clean [OF assms(1) lasting_apart]])
  let ?Q = "\<lambda>_ :: unit. together (\<lambda>w. apart there other w \<and> bare w)"
  let ?M = "\<lambda>w. apart there other w \<and> (inodeAt Pending w \<noteq> None \<or> inodeAt Retired w = inodeAt Processing w)"
  fix entry
  let ?A = "\<lambda>w. apart there other w \<and> looked env Retired entry w \<and> (\<forall>st. entry = Some st \<longrightarrow> qsKind st = Regular_file)"
  have l: "lasting env ?A" using lasting_apart [of env there other] lasting_looked [of Retired env entry]
    by (simp add: lasting_def)
  have lq: "lasting env (\<lambda>w. apart there other w \<and> bare w)" by (intro lastings)
  have drop: "triple (together ?M) (bindS (sysQ env (unlinkName Retired)) (\<lambda>_. bindS (syncDirectoryQ env) (\<lambda>_.
      removeRetirementRecord env))) ?Q anything"
    by (rule triple_bind_any [OF retired_drop_clean [OF assms(1)]], rule triple_bind_any [OF sync_clean [OF lq]],
        rule removeRecord_clean [OF assms(1) lq]) (simp add: apart_def bare_def)
  show "triple (together ?A) (bindS (regularQueueFileIdentity env Retirement_subject Processing) (\<lambda>processing.
       case (entry, processing) of
         (Some e, Some p) \<Rightarrow>
           bindS (if sameFile env e p then returnS () else restoreReplaced env e) (\<lambda>_.
           bindS (sysQ env (unlinkName Retired)) (\<lambda>_. bindS (syncDirectoryQ env) (\<lambda>_. removeRetirementRecord env)))
       | _ \<Rightarrow> throwS (throwFs Path_mismatch ''queue retirement ownership is incomplete''))) ?Q anything"
  proof (rule triple_bind_any [OF regular_clean [OF assms(1) l]])
    fix processing
    let ?P = "together (\<lambda>w. ?A w \<and> looked env Processing processing w \<and> (\<forall>st. processing = Some st \<longrightarrow> qsKind st = Regular_file))"
    have settle: "triple ?P (bindS (if sameFile env e p then returnS () else restoreReplaced env e) (\<lambda>_.
        bindS (sysQ env (unlinkName Retired)) (\<lambda>_. bindS (syncDirectoryQ env) (\<lambda>_. removeRetirementRecord env)))) ?Q anything"
      if ep: "entry = Some e" "processing = Some p" for e p
    proof (rule triple_bind [OF _ drop])
      show "triple ?P (if sameFile env e p then returnS () else restoreReplaced env e) (\<lambda>_. together ?M) anything"
      proof (cases "sameFile env e p")
        case True
        have "together ?M w" if w: "?P w" for w
        proof -
          have "seen env Retired e w" "seen env Processing p w" "together (apart there other) w"
            using w ep by (auto simp: together_def looked_def)
          then show ?thesis using seen_same [OF assms(3) _ _ True] by (auto simp: together_def)
        qed
        then show ?thesis using True by (simp add: triple_return)
      next
        case False
        have "together (\<lambda>w. apart there other w \<and> inodeAt Retired w \<noteq> None \<and> inodeAt Retired w \<noteq> inodeAt Processing w) w"
          if w: "?P w" for w
          using w ep False assms(2) by (auto simp: together_def looked_def seen_def sameFile_def knownFiles_def)
        then have "triple ?P (restoreReplaced env e) (\<lambda>_. together ?M) anything"
          by (intro triple_weaken [OF restore_clean [OF assms(1,2)]]) (auto simp: together_def)
        then show ?thesis using False by simp
      qed
    qed
    show "triple ?P (case (entry, processing) of
         (Some e, Some p) \<Rightarrow>
           bindS (if sameFile env e p then returnS () else restoreReplaced env e) (\<lambda>_.
           bindS (sysQ env (unlinkName Retired)) (\<lambda>_. bindS (syncDirectoryQ env) (\<lambda>_. removeRetirementRecord env)))
       | _ \<Rightarrow> throwS (throwFs Path_mismatch ''queue retirement ownership is incomplete'')) ?Q anything"
      using settle triple_throw_any by (auto split: option.split)
  qed
qed

lemma statDirectory_clean:
  assumes "crashes env" "lasting env A"
    and "\<And>w. accounted w \<Longrightarrow> field (qwFs w) = None \<Longrightarrow> bare w"
  shows "triple (together A) (orNull (sysQ env (statDirectory field)))
    (\<lambda>r. together (\<lambda>w. A w \<and> (r = None \<longrightarrow> bare w))) anything"
proof -
  have "triple (together A) (sysQ env (statDirectory field)) (\<lambda>_. together A) (caught (\<lambda>_. together (\<lambda>w. A w \<and> bare w)))"
    by (rule triple_clean [OF assms(1,2)])
       (use assms(3) in \<open>auto simp: statDirectory_def nodeFail_def together_def split: option.splits\<close>)
  then show ?thesis
    unfolding orNull_def
    by (rule triple_try)
       (auto simp: triple_def returnS_def throwS_def liftS_def caught_def hasNodeErrorCode_def together_def
         split: error.splits)
qed

lemma recover_clean:
  assumes "crashes env" "knownFiles env" "distinctFiles env"
  shows "triple (together (apart there other)) (recoverDurableQueueRetirement env)
    (\<lambda>_. together (\<lambda>w. apart there other w \<and> bare w)) anything"
proof -
  let ?F = "apart there other" and ?Q = "\<lambda>_ :: unit. together (\<lambda>w. apart there other w \<and> bare w)"
  have lq: "lasting env (\<lambda>w. ?F w \<and> bare w)" by (intro lastings)
  have names: "triple (together ?F) (bindS (sysQ env readRecord) (\<lambda>names.
      if names = [] then removeRetirementRecord env
      else if names \<noteq> [RETIREMENT_ENTRY_NAME]
      then throwS (throwFs Path_mismatch ''queue retirement record is ambiguous'')
      else settleRecord env)) ?Q anything"
  proof (rule triple_bind_any)
    show "triple (together ?F) (sysQ env readRecord) (\<lambda>names. together (\<lambda>w. ?F w \<and> (names = [] \<longrightarrow> bare w))) (\<lambda>_. together ?F)"
      by (rule triple_unchanged [OF lasting_apart])
         (auto simp: readRecord_def nodeFail_def bare_def split: if_splits)
    fix names :: "jstr list"
    have "triple (together (\<lambda>w. ?F w \<and> bare w)) (removeRetirementRecord env) ?Q anything"
      by (rule removeRecord_clean [OF assms(1) lq]) (simp add: apart_def bare_def)
    moreover have "triple (together (\<lambda>w. ?F w \<and> (names = [] \<longrightarrow> bare w))) (settleRecord env) ?Q anything"
      by (rule triple_weaken [OF settle_clean [OF assms]]) (simp_all add: together_def)
    ultimately show "triple (together (\<lambda>w. ?F w \<and> (names = [] \<longrightarrow> bare w)))
      (if names = [] then removeRetirementRecord env
       else if names \<noteq> [RETIREMENT_ENTRY_NAME]
       then throwS (throwFs Path_mismatch ''queue retirement record is ambiguous'')
       else settleRecord env) ?Q anything"
      by (auto simp: triple_throw_any)
  qed
  have owned: "triple (together ?F) (bindS (ownedDirectory kind message) (\<lambda>_. m)) ?Q anything"
    if "triple (together ?F) m ?Q anything" for kind message and m :: "unit queue_op"
    by (rule triple_bind [OF _ that]) (auto simp: ownedDirectory_def triple_def liftS_def split: sum.splits)
  have dir: "triple (together ?F) (bindS (orNull (sysQ env (statDirectory qfRecord))) (\<lambda>dir.
      case dir of
        None \<Rightarrow> returnS ()
      | Some dirKind \<Rightarrow>
          bindS (ownedDirectory dirKind ''queue retirement record is not an owned directory'') (\<lambda>_.
          bindS (sysQ env readRecord) (\<lambda>names.
            if names = [] then removeRetirementRecord env
            else if names \<noteq> [RETIREMENT_ENTRY_NAME]
            then throwS (throwFs Path_mismatch ''queue retirement record is ambiguous'')
            else settleRecord env)))) ?Q anything"
  proof (rule triple_bind [OF statDirectory_clean [OF assms(1) lasting_apart]])
    show "accounted w \<Longrightarrow> qfRecord (qwFs w) = None \<Longrightarrow> bare w" for w
      by (auto simp: accounted_def ordered_def bare_def)
    fix dir
    show "triple (together (\<lambda>w. ?F w \<and> (dir = None \<longrightarrow> bare w))) (case dir of
        None \<Rightarrow> returnS ()
      | Some dirKind \<Rightarrow>
          bindS (ownedDirectory dirKind ''queue retirement record is not an owned directory'') (\<lambda>_.
          bindS (sysQ env readRecord) (\<lambda>names.
            if names = [] then removeRetirementRecord env
            else if names \<noteq> [RETIREMENT_ENTRY_NAME]
            then throwS (throwFs Path_mismatch ''queue retirement record is ambiguous'')
            else settleRecord env))) ?Q anything"
      using owned [OF names] by (cases dir) (simp_all add: triple_return)
  qed
  show ?thesis
    unfolding recoverDurableQueueRetirement_def
  proof (rule triple_bind [OF statDirectory_clean [OF assms(1) lasting_apart]])
    show "accounted w \<Longrightarrow> qfRoot (qwFs w) = None \<Longrightarrow> bare w" for w
      by (auto simp: accounted_def ordered_def bare_def)
    fix top :: "file_kind option"
    show "triple (together (\<lambda>w. ?F w \<and> (top = None \<longrightarrow> bare w))) (case top of
        None \<Rightarrow> returnS ()
      | Some rootKind \<Rightarrow>
          bindS (ownedDirectory rootKind ''queue retirement root is not an owned directory'') (\<lambda>_.
          bindS (orNull (sysQ env (statDirectory qfRecord))) (\<lambda>dir.
            case dir of
              None \<Rightarrow> returnS ()
            | Some dirKind \<Rightarrow>
                bindS (ownedDirectory dirKind ''queue retirement record is not an owned directory'') (\<lambda>_.
                bindS (sysQ env readRecord) (\<lambda>names.
                  if names = [] then removeRetirementRecord env
                  else if names \<noteq> [RETIREMENT_ENTRY_NAME]
                  then throwS (throwFs Path_mismatch ''queue retirement record is ambiguous'')
                  else settleRecord env))))) ?Q anything"
      using owned [OF dir] by (cases top) (simp_all add: triple_return)
  qed
qed


lemma ensureRoot_clean:
  assumes "crashes env" "lasting env A" "\<And>w. A w \<Longrightarrow> A (w\<lparr>qwFs := (qwFs w)\<lparr>qfRoot := Some Directory\<rparr>\<rparr>)"
  shows "triple (together A) (ensureRetirementRoot env) (\<lambda>_. together A) anything"
proof -
  have make: "triple (together A) (sysQ env mkdirRoot) (\<lambda>_. together A) (caught (\<lambda>_. together A))"
  proof (rule triple_clean [OF assms(1,2)])
    show "together A w \<Longrightarrow> accounted (snd (mkdirRoot w))" for w
      by (auto simp: mkdirRoot_def nodeFail_def together_def accounted_def ordered_def numbered_def)
  qed (use assms(3) in \<open>auto simp: mkdirRoot_def nodeFail_def together_def split: if_splits\<close>)
  have made: "triple (together A) (tryS (sysQ env mkdirRoot)
      (\<lambda>e. if hasNodeErrorCode e ''EEXIST'' then returnS () else throwS e) returnS) (\<lambda>_. together A) anything"
  proof (rule triple_try [OF make])
    fix e
    show "triple (caught (\<lambda>_. together A) e) (if hasNodeErrorCode e ''EEXIST'' then returnS () else throwS e)
        (\<lambda>_. together A) anything"
      by (auto simp: triple_def returnS_def throwS_def liftS_def caught_def hasNodeErrorCode_def split: error.splits)
  qed (rule triple_return)
  have stat: "triple (together A) (sysQ env (statDirectory qfRoot)) (\<lambda>_. together A) anything"
    by (rule triple_weaken [OF triple_unchanged [OF assms(2), where B = "\<lambda>_ _. True"]])
       (auto simp: statDirectory_def nodeFail_def together_def split: option.split)
  have owned: "triple (together A) (ownedDirectory kind message) (\<lambda>_. together A) anything" for kind message
    by (auto simp: ownedDirectory_def triple_def liftS_def split: sum.splits)
  show ?thesis
    unfolding ensureRetirementRoot_def
    by (rule triple_bind [OF made], rule triple_bind [OF stat], rule triple_bind [OF owned], rule sync_clean [OF assms(2)])
qed

lemma retire_clean:
  assumes "crashes env" "knownFiles env" "distinctFiles env"
  shows "triple (together (apart True False)) (retireDurableQueueSource env)
    (\<lambda>_. together (\<lambda>w. apart True True w \<and> bare w)) anything"
proof -
  let ?R = "\<lambda>w. apart True False w \<and> bare w \<and> qfRecord (qwFs w) = Some Directory"
  let ?S = "\<lambda>w. apart True True w \<and> bare w"
  let ?Q = "\<lambda>_ :: unit. together ?S"
  have lr: "lasting env ?R" and ls: "lasting env ?S" by (intro lastings)+
  have lp: "lasting env (\<lambda>w. apart True False w \<and> bare w)" by (intro lastings)
  have start: "triple (together (apart True False)) (recoverDurableQueueRetirement env)
      (\<lambda>_. together (\<lambda>w. apart True False w \<and> bare w)) anything"
    by (rule recover_clean [OF assms])
  have root: "triple (together (\<lambda>w. apart True False w \<and> bare w)) (ensureRetirementRoot env)
      (\<lambda>_. together (\<lambda>w. apart True False w \<and> bare w)) anything"
    by (rule ensureRoot_clean [OF assms(1) lp]) (simp add: apart_def bare_def)
  have record_made: "triple (together (\<lambda>w. apart True False w \<and> bare w)) (sysQ env mkdirRecord) (\<lambda>_. together ?R) anything"
  proof (rule triple_anything, rule triple_effect [OF lp])
    show "together (\<lambda>w. apart True False w \<and> bare w) w \<Longrightarrow> accounted (snd (mkdirRecord w))" for w
      by (auto simp: mkdirRecord_def nodeFail_def together_def accounted_def ordered_def numbered_def)
  qed (auto simp: mkdirRecord_def nodeFail_def together_def apart_def bare_def split: if_splits)
  have move: "triple (together ?R) (sysQ env (renameName Pending Retired)) (\<lambda>_. together (apart True True))
      (caught (\<lambda>_. together ?S))"
  proof (rule triple_clean [OF assms(1) lr])
    show "together ?R w \<Longrightarrow> accounted (snd (renameName Pending Retired w))" for w
      using renamed_accounted by (simp add: together_def bare_def)
  qed (auto simp: renameName_def nodeFail_def together_def apart_def bare_def split: option.splits if_splits)
  have last: "triple (together (apart True True)) (bindS (syncDirectoryQ env) (\<lambda>_. bindS (syncDirectoryQ env) (\<lambda>_.
      recoverDurableQueueRetirement env))) ?Q anything"
    by (rule triple_bind [OF sync_clean [OF lasting_apart]], rule triple_bind [OF sync_clean [OF lasting_apart]],
        rule recover_clean [OF assms])
  have empty: "triple (together ?S) (removeRetirementRecord env) ?Q anything"
    by (rule removeRecord_clean [OF assms(1) ls]) (simp add: apart_def bare_def)
  have moved: "triple (together ?R) (tryS (sysQ env (renameName Pending Retired))
      (\<lambda>e. if \<not> hasNodeErrorCode e ''ENOENT'' then throwS e else removeRetirementRecord env)
      (\<lambda>_. bindS (syncDirectoryQ env) (\<lambda>_. bindS (syncDirectoryQ env) (\<lambda>_. recoverDurableQueueRetirement env)))) ?Q anything"
  proof (rule triple_try [OF move _ last])
    fix e
    show "triple (caught (\<lambda>_. together ?S) e)
        (if \<not> hasNodeErrorCode e ''ENOENT'' then throwS e else removeRetirementRecord env) ?Q anything"
    proof (cases "hasNodeErrorCode e ''ENOENT''")
      case True
      then have "caught (\<lambda>_. together ?S) e w \<Longrightarrow> together ?S w" for w
        by (auto simp: caught_def hasNodeErrorCode_def split: error.splits)
      then show ?thesis using True triple_weaken [OF empty] by simp
    qed (simp add: triple_throw_any)
  qed
  show ?thesis
    unfolding retireDurableQueueSource_def
    by (rule triple_bind [OF start], rule triple_bind [OF root], rule triple_bind [OF record_made],
        rule triple_bind [OF sync_clean [OF lr]], rule moved)
qed

text \<open>What a claim that answers the processing path leaves.\<close>

abbreviation claimedOnly :: "bool \<Rightarrow> queue_world \<Rightarrow> bool" where
  "claimedOnly answer w \<equiv> answer \<longrightarrow> apart True True w \<and> bare w"

lemma claimPending_clean:
  assumes "crashes env" "knownFiles env" "distinctFiles env"
  shows "triple (together (\<lambda>w. bare w \<and> inodeAt Processing w = None)) (claimPending env)
    (\<lambda>answer. together (claimedOnly answer)) anything"
proof -
  let ?A = "\<lambda>w. bare w \<and> inodeAt Processing w = None"
  have l: "lasting env ?A" by (intro lastings) simp
  have link: "triple (together ?A) (sysQ env (linkName Pending Processing)) (\<lambda>_. together (apart True False))
      (caught (\<lambda>e. together (\<lambda>w. e \<noteq> NodeErr ''EEXIST'')))"
  proof (rule triple_clean [OF assms(1) l])
    show "together ?A w \<Longrightarrow> accounted (snd (linkName Pending Processing w))" for w
      by (simp add: together_def link_accounted)
  qed (auto simp: linkName_def nodeFail_def together_def apart_def split: option.splits if_splits)
  have linked: "triple (together ?A) (linkQueueGeneration env Pending Processing) (\<lambda>_. together (apart True False))
      (caught (\<lambda>e. together (\<lambda>w. e \<noteq> NodeErr ''EEXIST'')))"
    unfolding linkQueueGeneration_def
  proof (rule triple_try [OF link])
    fix e
    show "triple (caught (\<lambda>e. together (\<lambda>w. e \<noteq> NodeErr ''EEXIST'')) e)
        (if isHardlinkFallbackError e
         then throwS (throwFs Helper_unavailable ''durable queue ownership requires hardlink support'') else throwS e)
        (\<lambda>_. together (apart True False)) (caught (\<lambda>e. together (\<lambda>w. e \<noteq> NodeErr ''EEXIST'')))"
      by (auto simp: triple_def throwS_def liftS_def caught_def)
  qed (rule triple_return)
  have got: "triple (together (apart True False)) (bindS (syncDirectoryQ env) (\<lambda>_.
      bindS (regularQueueFileIdentity env Entry_subject Processing) (\<lambda>claimed.
        case claimed of
          None \<Rightarrow> throwS (throwFs Path_mismatch ''queue claim is not an owned regular file'')
        | Some c \<Rightarrow>
            if qsLinks c > 2 then throwS (throwFs Path_mismatch ''queue claim is not an owned regular file'')
            else bindS (retireDurableQueueSource env) (\<lambda>_. returnS True))))
      (\<lambda>answer. together (claimedOnly answer)) anything"
  proof (rule triple_bind [OF sync_clean [OF lasting_apart]], rule triple_bind [OF regular_clean [OF assms(1) lasting_apart]])
    fix claimed :: "queue_stat option"
    let ?P = "together (\<lambda>w. apart True False w \<and> looked env Processing claimed w \<and> (\<forall>st. claimed = Some st \<longrightarrow> qsKind st = Regular_file))"
    have "triple ?P (retireDurableQueueSource env) (\<lambda>_. together (claimedOnly True)) anything"
      by (rule triple_weaken [OF retire_clean [OF assms]]) (simp_all add: together_def)
    then have "triple ?P (bindS (retireDurableQueueSource env) (\<lambda>_. returnS True)) (\<lambda>answer. together (claimedOnly answer)) anything"
      by (rule triple_bind) (rule triple_return)
    then show "triple ?P (case claimed of
          None \<Rightarrow> throwS (throwFs Path_mismatch ''queue claim is not an owned regular file'')
        | Some c \<Rightarrow>
            if qsLinks c > 2 then throwS (throwFs Path_mismatch ''queue claim is not an owned regular file'')
            else bindS (retireDurableQueueSource env) (\<lambda>_. returnS True)) (\<lambda>answer. together (claimedOnly answer)) anything"
      by (auto simp: triple_throw_any split: option.split)
  qed
  show ?thesis
    unfolding claimPending_def
  proof (rule triple_try [OF linked _ got])
    fix e
    let ?C = "caught (\<lambda>e. together (\<lambda>w. e \<noteq> NodeErr ''EEXIST'')) e"
    have "\<not> hasNodeErrorCode e ''EEXIST'' \<or> (\<forall>w. \<not> ?C w)"
      by (auto simp: caught_def hasNodeErrorCode_def together_def split: error.splits)
    moreover have "triple ?C (if hasNodeErrorCode e ''ENOENT'' then returnS False else throwS e)
        (\<lambda>answer. together (claimedOnly answer)) anything"
      by (auto simp: triple_def returnS_def throwS_def liftS_def caught_def hasNodeErrorCode_def together_def split: error.splits)
    ultimately show "triple ?C
        (if hasNodeErrorCode e ''EEXIST''
         then bindS (regularQueueFileIdentity env Entry_subject Processing) (\<lambda>p.
                case p of None \<Rightarrow> returnS False | Some _ \<Rightarrow> bindS (syncDirectoryQ env) (\<lambda>_. returnS True))
         else if hasNodeErrorCode e ''ENOENT'' then returnS False else throwS e)
        (\<lambda>answer. together (claimedOnly answer)) anything"
      by (auto simp: triple_def)
  qed
qed


lemma claimUnlocked_clean:
  assumes "crashes env" "knownFiles env" "distinctFiles env"
  shows "triple accounted (claimDurableQueueEntryUnlocked env skipUnowned) (\<lambda>answer. together (claimedOnly answer)) anything"
proof -
  let ?Q = "\<lambda>answer. together (claimedOnly answer)"
  have recover: "triple accounted (recoverDurableQueueRetirement env) (\<lambda>_. together bare) anything"
    by (rule triple_weaken [OF recover_clean [OF assms, of False False]]) (simp_all add: together_def apart_def)
  show ?thesis
    unfolding claimDurableQueueEntryUnlocked_def
  proof (rule triple_bind [OF recover], rule triple_bind [OF regular_clean [OF assms(1) lasting_bare]])
    fix existing :: "queue_stat option"
    let ?A = "\<lambda>w. bare w \<and> looked env Processing existing w \<and> (\<forall>st. existing = Some st \<longrightarrow> qsKind st = Regular_file)"
    have l: "lasting env ?A" using lasting_bare [of env] lasting_looked [of Processing env existing]
      by (simp add: lasting_def)
    show "triple (together ?A) (bindS (lstatOrNull env Pending) (\<lambda>pending.
       case existing of
         Some claim \<Rightarrow>
           (let retiresPending = (case pending of None \<Rightarrow> False
                                  | Some p \<Rightarrow> qsKind p = Regular_file \<and> sameFile env p claim)
            in bindS (if \<not> retiresPending \<or> \<not> qeShareParent env then syncDirectoryQ env else returnS ()) (\<lambda>_.
               bindS (if retiresPending then retireDurableQueueSource env else returnS ()) (\<lambda>_. returnS True)))
       | None \<Rightarrow>
           (case pending of
              None \<Rightarrow> returnS False
            | Some p \<Rightarrow>
                if qsKind p \<noteq> Regular_file then returnS False
                else if qsLinks p > 1 \<or> \<not> sameFile env p p
                then (if skipUnowned then returnS False
                      else throwS (throwFs Path_mismatch ''queue entry is not exclusively owned''))
                else claimPending env))) ?Q anything"
    proof (rule triple_bind [OF look_clean [OF assms(1) l]])
      fix pending
      let ?P = "together (\<lambda>w. ?A w \<and> looked env Pending pending w)"
      have quiet: "triple ?P (returnS False) ?Q anything" by (rule triple_return) (simp add: together_def)
      show "triple ?P (case existing of
         Some claim \<Rightarrow>
           (let retiresPending = (case pending of None \<Rightarrow> False
                                  | Some p \<Rightarrow> qsKind p = Regular_file \<and> sameFile env p claim)
            in bindS (if \<not> retiresPending \<or> \<not> qeShareParent env then syncDirectoryQ env else returnS ()) (\<lambda>_.
               bindS (if retiresPending then retireDurableQueueSource env else returnS ()) (\<lambda>_. returnS True)))
       | None \<Rightarrow>
           (case pending of
              None \<Rightarrow> returnS False
            | Some p \<Rightarrow>
                if qsKind p \<noteq> Regular_file then returnS False
                else if qsLinks p > 1 \<or> \<not> sameFile env p p
                then (if skipUnowned then returnS False
                      else throwS (throwFs Path_mismatch ''queue entry is not exclusively owned''))
                else claimPending env)) ?Q anything"
      proof (cases existing)
        case None
        have "triple ?P (claimPending env) ?Q anything"
          by (rule triple_weaken [OF claimPending_clean [OF assms]]) (use None in \<open>simp_all add: together_def looked_def\<close>)
        then show ?thesis using None quiet by (cases pending) (auto simp: triple_throw_any)
      next
        case (Some claim)
        define retires where "retires = (case pending of None \<Rightarrow> False
          | Some p \<Rightarrow> qsKind p = Regular_file \<and> sameFile env p claim)"
        let ?S = "\<lambda>w. apart True (\<not> retires) w \<and> bare w"
        have ls: "lasting env ?S" by (intro lastings)
        have "together ?S w" if w: "?P w" for w
        proof -
          have c: "looked env Processing existing w" "looked env Pending pending w" "bare w" "accounted w" "qsKind claim = Regular_file"
            using w Some by (auto simp: together_def)
          obtain i where i: "inodeAt Processing w = Some i" "qsIdentity claim = qeIdentity env i" "qsKind claim = qeKind env i"
            using c(1) Some by (auto simp: looked_def seen_def)
          have "inodeAt Pending w \<noteq> Some i" if "\<not> retires"
          proof
            assume "inodeAt Pending w = Some i"
            then obtain p where "pending = Some p" "qsIdentity p = qeIdentity env i" "qsKind p = qeKind env i"
              using c(2) by (auto simp: looked_def seen_def split: option.splits)
            then have retires using assms(2) i c(5) by (simp add: retires_def sameFile_def knownFiles_def)
            then show False using that by simp
          qed
          then show ?thesis using i(1) c(3,4) by (simp add: together_def apart_def)
        qed
        then have sync: "triple ?P (if \<not> retires \<or> \<not> qeShareParent env then syncDirectoryQ env else returnS ())
            (\<lambda>_. together ?S) anything"
          using triple_weaken [OF sync_clean [OF ls]] triple_return [of ?P "\<lambda>_. together ?S"] by auto
        have retire: "triple (together ?S) (if retires then retireDurableQueueSource env else returnS ())
            (\<lambda>_. together (claimedOnly True)) anything"
        proof (cases retires)
          case True
          then show ?thesis
            using triple_weaken [OF retire_clean [OF assms], of "together ?S"] by (simp add: together_def)
        qed (simp add: triple_return)
        have "triple ?P (bindS (if \<not> retires \<or> \<not> qeShareParent env then syncDirectoryQ env else returnS ()) (\<lambda>_.
            bindS (if retires then retireDurableQueueSource env else returnS ()) (\<lambda>_. returnS True))) ?Q anything"
          by (rule triple_bind [OF sync], rule triple_bind [OF retire], rule triple_return)
        then show ?thesis using Some by (simp add: Let_def retires_def)
      qed
    qed
  qed
qed

text \<open>The lock around an operation.\<close>

lemma lock_clean:
  assumes "\<And>x. lasting env (B x)" "triple accounted m (\<lambda>x. together (B x)) anything"
  shows "triple accounted (withQueueEntryLock env m) (\<lambda>x. together (B x)) anything"
proof -
  have taken: "triple accounted (sysQ env syncCall) (\<lambda>_. accounted) anything"
    using sync_keeps [of env] by (auto simp: keeps_def intro: triple_anything)
  have given: "triple (together (B x)) (sysQ env syncCall) (\<lambda>_. together (B x)) anything" for x
    using sync_clean [OF assms(1)] by (simp add: syncDirectoryQ_def)
  show ?thesis
    unfolding withQueueEntryLock_def
    by (rule triple_bind [OF taken], rule triple_finally [OF assms(2)], rule given) (simp add: triple_def split: prod.split sum.split)
qed

lemma claim_clean:
  assumes "crashes env" "knownFiles env" "distinctFiles env"
  shows "triple accounted (claimDurableQueueEntry env skipUnowned) (\<lambda>answer. together (claimedOnly answer)) anything"
  unfolding claimDurableQueueEntry_def
proof (rule triple_bind)
  show "triple accounted (parentThere env) (\<lambda>_. accounted) anything"
    using parentThere_keeps [of env] by (auto simp: keeps_def intro: triple_anything)
  fix there
  have "lasting env (claimedOnly answer)" for answer
    using lasting_apart [of env True True] lasting_bare [of env] by (simp add: lasting_def)
  then have "triple accounted (withQueueEntryLock env (claimDurableQueueEntryUnlocked env skipUnowned))
      (\<lambda>answer. together (claimedOnly answer)) anything"
    by (rule lock_clean [OF _ claimUnlocked_clean [OF assms]])
  then show "triple accounted (if \<not> there then returnS False
      else withQueueEntryLock env (claimDurableQueueEntryUnlocked env skipUnowned)) (\<lambda>answer. together (claimedOnly answer)) anything"
    by (simp add: triple_return together_def)
qed


subsection \<open>Acknowledging\<close>

definition mine :: "nat \<Rightarrow> queue_world \<Rightarrow> bool" where
  "mine p w \<longleftrightarrow> inodeAt Processing w = Some p \<and> inodeAt Pending w \<noteq> Some p \<and> bare w"

text \<open>None of the names an entry is found by.\<close>

definition absent :: "nat \<Rightarrow> queue_world \<Rightarrow> bool" where
  "absent p w \<longleftrightarrow> p < qwNext w \<and> inodeAt Pending w \<noteq> Some p \<and> inodeAt Processing w \<noteq> Some p \<and> inodeAt Retired w \<noteq> Some p"

lemma lasting_mine: "lasting env (mine p)"
proof -
  have "mine p (others env w)" if "accounted w" "mine p w" for w
    using that others_fresh [of p w env] numbered_at [OF accountedD(3) [OF that(1)], of Processing p]
    by (auto simp: mine_def bare_def others_inert)
  then show ?thesis by (simp add: lasting_def)
qed

lemma absent_others: "absent p w \<Longrightarrow> absent p (others env w)"
  by (rule others_keeps) (auto simp: absent_def publish_def takeFailed_def)

lemma lasting_absent: "lasting env (absent p)"
  by (simp add: lasting_def absent_others)

definition settledAt :: "nat \<Rightarrow> queue_world \<Rightarrow> bool" where
  "settledAt p w \<longleftrightarrow> p \<in> set (qwSettled w)"

lemma lasting_settled: "lasting env (settledAt p)"
  by (simp add: lasting_def settledAt_def others_inert)

lemma acknowledge_clean:
  assumes "crashes env" "\<And>n. qeParentThere env n"
  shows "triple (together (mine p)) (acknowledgeDurableQueueEntry env)
    (\<lambda>_. together (\<lambda>w. (settledAt p w \<and> absent p w) \<and> inodeAt Delivered w = None)) anything"
proof -
  let ?D = "\<lambda>w. mine p w \<and> inodeAt Delivered w = None"
  let ?G = "\<lambda>w. settledAt p w \<and> absent p w"
  let ?H = "\<lambda>w. ?G w \<and> inodeAt Delivered w = None"
  have ld: "lasting env ?D" by (intro lastings lasting_mine) simp
  have lg: "lasting env ?G" by (intro lastings lasting_settled lasting_absent)
  have lh: "lasting env ?H"
    using lg lasting_rules(4) [of Delivered env None] by (simp add: lasting_def)
  have drop: "triple (together A) (sysQ env (unlinkName Delivered)) (\<lambda>_. together (\<lambda>w. A w \<and> inodeAt Delivered w = None)) anything"
    if "lasting env A" "\<And>w. A w \<Longrightarrow> A (setName Delivered None w)" for A
  proof (rule triple_anything, rule triple_effect [OF that(1)])
    show "together A w \<Longrightarrow> accounted (snd (unlinkName Delivered w))" for w
      using delivered_accounted by (simp add: together_def)
  qed (use that(2) in \<open>auto simp: unlinkName_def nodeFail_def together_def split: option.splits\<close>)
  have move: "triple (together ?D) (sysQ env (renameName Processing Delivered)) (\<lambda>_. together ?G) anything"
  proof (rule triple_anything, rule triple_effect [OF ld])
    show "together ?D w \<Longrightarrow> accounted (snd (renameName Processing Delivered w))" for w
      using settled_accounted by (simp add: together_def)
    fix w :: queue_world and x t
    assume w: "together ?D w" "renameName Processing Delivered w = (Inr x, t)"
    then have "p < qwNext w" using numbered_at [OF accountedD(3), of w Processing p] by (simp add: together_def mine_def)
    then show "?G t" using w by (auto simp: renameName_def together_def mine_def settledAt_def absent_def bare_def)
  qed
  have rest: "triple (together ?D) (bindS (sysQ env (renameName Processing Delivered)) (\<lambda>_.
      bindS (syncDirectoryQ env) (\<lambda>_. bindS (sysQ env (unlinkName Delivered)) (\<lambda>_. syncDirectoryQ env))))
      (\<lambda>_. together ?H) anything"
  proof (rule triple_bind [OF move], rule triple_bind [OF sync_clean [OF lg]], rule triple_bind [OF drop [OF lg] sync_clean [OF lh]])
    show "?G w \<Longrightarrow> ?G (setName Delivered None w)" for w by (simp add: settledAt_def absent_def)
  qed
  let ?body = "bindS (regularQueueFileIdentity env Entry_subject Processing) (\<lambda>processing.
       bindS (regularQueueFileIdentity env Entry_subject Delivered) (\<lambda>delivered.
       bindS (if delivered \<noteq> None then sysQ env (unlinkName Delivered) else returnS ()) (\<lambda>_.
         if processing = None
         then bindS (syncDirectoryQ env) (\<lambda>_.
              bindS (regularQueueFileIdentity env Entry_subject Pending) (\<lambda>pending.
                if pending \<noteq> None
                then throwS (throwFs Path_mismatch ''queue acknowledgement requires a processing claim'')
                else returnS ()))
         else bindS (sysQ env (renameName Processing Delivered)) (\<lambda>_.
              bindS (syncDirectoryQ env) (\<lambda>_.
              bindS (sysQ env (unlinkName Delivered)) (\<lambda>_. syncDirectoryQ env))))))"
  have body: "triple (together (mine p)) ?body
      (\<lambda>_. together ?H) anything"
  proof (rule triple_bind [OF regular_clean [OF assms(1) lasting_mine]])
    fix processing :: "queue_stat option"
    let ?A = "\<lambda>w. mine p w \<and> looked env Processing processing w \<and> (\<forall>st. processing = Some st \<longrightarrow> qsKind st = Regular_file)"
    show "triple (together ?A) (bindS (regularQueueFileIdentity env Entry_subject Delivered) (\<lambda>delivered.
       bindS (if delivered \<noteq> None then sysQ env (unlinkName Delivered) else returnS ()) (\<lambda>_.
         if processing = None
         then bindS (syncDirectoryQ env) (\<lambda>_.
              bindS (regularQueueFileIdentity env Entry_subject Pending) (\<lambda>pending.
                if pending \<noteq> None
                then throwS (throwFs Path_mismatch ''queue acknowledgement requires a processing claim'')
                else returnS ()))
         else bindS (sysQ env (renameName Processing Delivered)) (\<lambda>_.
              bindS (syncDirectoryQ env) (\<lambda>_.
              bindS (sysQ env (unlinkName Delivered)) (\<lambda>_. syncDirectoryQ env))))))
      (\<lambda>_. together ?H) anything"
    proof (cases processing)
      case None
      then have "\<not> together ?A w" for w by (simp add: together_def mine_def looked_def)
      then show ?thesis by (simp add: triple_def)
    next
      case (Some st)
      have l: "lasting env ?A" using lasting_mine [of env p] lasting_looked [of Processing env processing]
        by (simp add: lasting_def)
      have "triple (together ?A) (bindS (regularQueueFileIdentity env Entry_subject Delivered) (\<lambda>delivered.
          bindS (if delivered \<noteq> None then sysQ env (unlinkName Delivered) else returnS ()) (\<lambda>_.
            bindS (sysQ env (renameName Processing Delivered)) (\<lambda>_.
            bindS (syncDirectoryQ env) (\<lambda>_. bindS (sysQ env (unlinkName Delivered)) (\<lambda>_. syncDirectoryQ env))))))
          (\<lambda>_. together ?H) anything"
      proof (rule triple_bind [OF regular_clean [OF assms(1) l]], rule triple_bind [OF _ rest])
        fix delivered :: "queue_stat option"
        let ?B = "together (\<lambda>w. ?A w \<and> looked env Delivered delivered w \<and> (\<forall>st. delivered = Some st \<longrightarrow> qsKind st = Regular_file))"
        have "triple (together (mine p)) (sysQ env (unlinkName Delivered)) (\<lambda>_. together ?D) anything"
          by (rule drop [OF lasting_mine]) (simp add: mine_def bare_def)
        then have "triple ?B (sysQ env (unlinkName Delivered)) (\<lambda>_. together ?D) anything"
          by (rule triple_weaken) (simp_all add: together_def)
        moreover have "delivered = None \<Longrightarrow> triple ?B (returnS ()) (\<lambda>_. together ?D) anything"
          by (rule triple_return) (simp add: together_def looked_def)
        ultimately show "triple ?B (if delivered \<noteq> None then sysQ env (unlinkName Delivered) else returnS ()) (\<lambda>_. together ?D) anything"
          by simp
      qed
      then show ?thesis using Some by simp
    qed
  qed
  have taken: "triple (together (mine p)) (sysQ env syncCall) (\<lambda>_. together (mine p)) anything"
    using sync_clean [OF lasting_mine] by (simp add: syncDirectoryQ_def)
  have given: "triple (together ?H) (sysQ env syncCall) (\<lambda>_. together ?H) anything"
    using sync_clean [OF lh] by (simp add: syncDirectoryQ_def)
  have locked: "triple (together (mine p)) (withQueueEntryLock env m) (\<lambda>_. together ?H) anything"
    if "triple (together (mine p)) m (\<lambda>_ :: unit. together ?H) anything" for m
    unfolding withQueueEntryLock_def
    by (rule triple_bind [OF taken], rule triple_finally [OF that], rule given) (simp add: triple_def split: prod.split sum.split)
  have there: "triple (together (mine p)) (parentThere env) (\<lambda>there w. there \<and> together (mine p) w) anything"
    by (rule there_clean [OF assms(1,2) lasting_mine])
  show ?thesis
    unfolding acknowledgeDurableQueueEntry_def
  proof (rule triple_bind [OF there])
    fix t
    show "triple (\<lambda>w. t \<and> together (mine p) w) (if \<not> t then returnS () else withQueueEntryLock env ?body)
        (\<lambda>_. together ?H) anything"
      using locked [OF body] by (cases t) (simp_all add: triple_def)
  qed
qed


subsection \<open>What no operation undoes\<close>

text \<open>A fact about the world that every system call of the operations and the others keep is kept by
  every request.\<close>

locale steadfast =
  fixes env :: queue_env
    and I :: "queue_world \<Rightarrow> bool"
  assumes fact_others: "I w \<Longrightarrow> I (others env w)"
    and fact_link: "I w \<Longrightarrow> source \<in> {Pending, Processing, Retired} \<Longrightarrow> I (snd (linkName source target w))"
    and fact_rename: "I w \<Longrightarrow> source \<in> {Pending, Processing, Retired} \<Longrightarrow> I (snd (renameName source target w))"
    and fact_unlink: "I w \<Longrightarrow> I (snd (unlinkName name w))"
    and fact_record: "I (w\<lparr>qwFs := (qwFs w)\<lparr>qfRecord := k\<rparr>\<rparr>) = I w"
    and fact_root: "I (w\<lparr>qwFs := (qwFs w)\<lparr>qfRoot := k\<rparr>\<rparr>) = I w"
begin

lemma steady_sys:
  assumes "\<And>w. I w \<Longrightarrow> I (snd (call w))"
  shows "keeps I (sysQ env call)"
proof -
  have "I t" if "I w" "call w = (r, t)" for w r t using assms [OF that(1)] that(2) by simp
  then show ?thesis
    unfolding keeps_def using assms by (intro triple_sys) (auto intro: fact_others split: sum.splits)
qed

lemma steady_looks [keeping]:
  "keeps I (sysQ env syncCall)" "keeps I (sysQ env (lstatName env name))"
  "keeps I (sysQ env (statDirectory field))" "keeps I (sysQ env readRecord)"
  by (rule steady_sys;
      simp add: syncCall_def lstatName_def statDirectory_def readRecord_def nodeFail_def split: option.split)+

lemma steady_directories [keeping]:
  "keeps I (sysQ env mkdirRoot)" "keeps I (sysQ env mkdirRecord)" "keeps I (sysQ env rmdirRecord)"
  by (rule steady_sys;
      simp add: mkdirRoot_def mkdirRecord_def rmdirRecord_def nodeFail_def fact_record fact_root split: option.split)+

lemma steady_names [keeping]:
  "keeps I (sysQ env (linkName Pending target))" "keeps I (sysQ env (linkName Processing target))"
  "keeps I (sysQ env (linkName Retired target))" "keeps I (sysQ env (renameName Pending target))"
  "keeps I (sysQ env (renameName Processing target))" "keeps I (sysQ env (unlinkName name))"
  by (rule steady_sys; simp add: fact_link fact_rename fact_unlink)+

lemma steady_sync [keeping]: "keeps I (syncDirectoryQ env)"
  unfolding syncDirectoryQ_def by (intro keeping)

lemma steady_lstat [keeping]: "keeps I (lstatOrNull env name)"
  unfolding lstatOrNull_def orNull_def by (intro keeping)

lemma steady_regular [keeping]: "keeps I (regularQueueFileIdentity env subject name)"
  unfolding regularQueueFileIdentity_def by (intro keeping)

lemma steady_owned [keeping]: "keeps I (ownedDirectory kind message)"
  unfolding ownedDirectory_def by (intro keeping)

lemma steady_removeRecord [keeping]: "keeps I (removeRetirementRecord env)"
  unfolding removeRetirementRecord_def by (intro keeping)

lemma steady_generation [keeping]: "keeps I (sysQ env (linkName a b)) \<Longrightarrow> keeps I (linkQueueGeneration env a b)"
  unfolding linkQueueGeneration_def by (intro keeping)

lemma steady_settle [keeping]: "keeps I (settleRecord env)"
  unfolding settleRecord_def restoreReplaced_def prod.case by (intro keeping)

lemma steady_recover [keeping]: "keeps I (recoverDurableQueueRetirement env)"
  unfolding recoverDurableQueueRetirement_def orNull_def by (intro keeping)

lemma steady_retire [keeping]: "keeps I (retireDurableQueueSource env)"
  unfolding retireDurableQueueSource_def ensureRetirementRoot_def by (intro keeping)

lemma steady_claim [keeping]: "keeps I (claimDurableQueueEntryUnlocked env skipUnowned)"
  unfolding claimDurableQueueEntryUnlocked_def claimPending_def Let_def by (intro keeping)

lemma steady_lock [keeping]: "keeps I m \<Longrightarrow> keeps I (withQueueEntryLock env m)"
  unfolding withQueueEntryLock_def by (intro keeping)

lemma steady_there [keeping]: "keeps I (parentThere env)"
proof -
  have "keeps I (sysQ env (statParent env))" by (rule steady_sys) (simp add: statParent_def nodeFail_def)
  then show ?thesis unfolding parentThere_def orNull_def by (intro keeping)
qed

lemma steady_requests:
  "keeps I (claimDurableQueueEntry env skipUnowned)" "keeps I (completeDeliveredQueueEntry env)"
  "keeps I (acknowledgeDurableQueueEntry env)"
  unfolding claimDurableQueueEntry_def completeDeliveredQueueEntry_def acknowledgeDurableQueueEntry_def
  by (intro keeping)+

lemma steady_moveSource [keeping]: "keeps I (moveSource env)"
  unfolding moveSource_def by (intro keeping)

lemma steady_quarantine: "keeps I (moveDurableQueueEntryToFailed env)"
  unfolding moveDurableQueueEntryToFailed_def prod.case by (intro keeping)

lemma steady_serve: "I w \<Longrightarrow> I (serve env request w)"
  using keeps_run [OF steady_requests(1)] keeps_run [OF steady_requests(2)] keeps_run [OF steady_requests(3)]
    keeps_run [OF steady_quarantine]
  by (cases request) (simp_all add: serve_def)

lemma steady_fold: "I w \<Longrightarrow> I (fold (serve env) requests w)"
  by (induction requests arbitrary: w) (simp_all add: steady_serve)

end

interpretation gone: steadfast env "absent p" for env p
  by unfold_locales
     (rule absent_others, auto simp: linkName_def renameName_def unlinkName_def nodeFail_def absent_def split: option.split)

interpretation history: steadfast env "settledAt p" for env p
  by unfold_locales
     (auto simp: settledAt_def others_inert linkName_def renameName_def unlinkName_def nodeFail_def split: option.split)


text \<open>C21: a claim that was returned and acknowledged is not delivered again. Whatever happened before, when
  a claim answers with the processing path and its acknowledgement returns, the generation that was
  claimed is settled, it has none of the names an entry is found by and the delivered name is free; and
  after any later requests, however interrupted, none of those names has it again. The hypotheses are that
  device and inode number identify a file, that the parent directory is there, and that an interruption is
  not a code that the operations expect.\<close>

theorem acknowledged_generation_gone:
  assumes "distinctFiles env" "knownFiles env" "crashes env" "\<And>n. qeParentThere env n"
    and "claimDurableQueueEntry env skipUnowned (fold (serve env) earlier emptyQueue) = (Inr True, w)"
    and "acknowledgeDurableQueueEntry env w = (Inr (), v)"
  shows "\<exists>p. inodeAt Processing w = Some p \<and> inodeAt Delivered v = None \<and>
    (\<forall>later. p \<in> set (qwSettled (fold (serve env) later v)) \<and>
       (\<forall>name \<in> {Pending, Processing, Retired}. inodeAt name (fold (serve env) later v) \<noteq> Some p))"
proof -
  have "together (claimedOnly True) w"
    using triple_run [OF claim_clean [OF assms(3,2,1)] requests_accounted [OF assms(1) empty_accounted] assms(5)] by simp
  then obtain p where p: "inodeAt Processing w = Some p" "together (mine p) w"
    by (auto simp: together_def apart_def mine_def)
  then have "settledAt p v" "absent p v" "inodeAt Delivered v = None"
    using triple_run [OF acknowledge_clean [OF assms(3,4)] p(2) assms(6)] by (simp_all add: together_def)
  then show ?thesis
    using p(1) gone.steady_fold [of p v] history.steady_fold [of p v] by (auto simp: absent_def settledAt_def)
qed

subsection \<open>A run\<close>

text \<open>A queue in which producers publish before the first system call and again just before the retirement
  renames the pending name, so that the record holds a generation that is not the claim.\<close>

definition busyQueue :: queue_env where
  "busyQueue =
     \<lparr>qePlatform = Posix, qeShareParent = True, qeEnqueues = (\<lambda>n. if n = 0 \<or> n = 14 then 1 else 0),
      qeTakesFailed = (\<lambda>_. False), qeFault = (\<lambda>_. None), qeKind = (\<lambda>_. Regular_file),
      qeIdentity = (\<lambda>i. \<lparr>fiDev = Big 1, fiIno = Big (int i + 1)\<rparr>), qeOtherLinks = (\<lambda>_ _. 0),
      qeParentThere = (\<lambda>_. True)\<rparr>"

text \<open>The same queue, interrupted after that rename.\<close>

definition crashedQueue :: queue_env where
  "crashedQueue = busyQueue\<lparr>qeFault := (\<lambda>n. if n = 14 then Some (True, ''EIO'') else None)\<rparr>"

lemma busy_files: "distinctFiles busyQueue" "distinctFiles crashedQueue" "knownFiles busyQueue" "crashes busyQueue"
  by (simp_all add: distinctFiles_def knownFiles_def crashes_def crashedQueue_def busyQueue_def
      sameFileIdentityForCleanup_def sameCleanupStatValue_def isExactStatValue_def sameStatValue_def)

theorem queue_generations_accounted_witness:
  "let w = fold (serve crashedQueue) [Claim False] emptyQueue in
     inodeAt Processing w = Some 0 \<and> inodeAt Pending w = None \<and> inodeAt Retired w = Some 1 \<and> qwLatest w = Some 1 \<and>
     (\<forall>i. qwLatest w = Some i \<longrightarrow>
        i \<in> set (qwSettled w) \<or> (\<exists>name \<in> {Pending, Processing, Retired}. inodeAt name w = Some i))"
proof -
  have "let w = fold (serve crashedQueue) [Claim False] emptyQueue in
     inodeAt Processing w = Some 0 \<and> inodeAt Pending w = None \<and> inodeAt Retired w = Some 1 \<and> qwLatest w = Some 1"
    by code_simp
  then show ?thesis
    using queue_generations_accounted [OF busy_files(2), of "[Claim False]"] by (simp add: Let_def)
qed

theorem acknowledged_generation_gone_witness:
  "let w = snd (claimDurableQueueEntry busyQueue False emptyQueue); v = snd (acknowledgeDurableQueueEntry busyQueue w) in
     inodeAt Processing w = Some 0 \<and> inodeAt Pending v = Some 1 \<and> 0 \<in> set (qwSettled (serve busyQueue (Claim False) v)) \<and>
     inodeAt Processing (serve busyQueue (Claim False) v) \<noteq> Some 0"
proof -
  define w where "w = snd (claimDurableQueueEntry busyQueue False emptyQueue)"
  define v where "v = snd (acknowledgeDurableQueueEntry busyQueue w)"
  have run: "fst (claimDurableQueueEntry busyQueue False emptyQueue) = Inr True"
    "fst (acknowledgeDurableQueueEntry busyQueue w) = Inr ()" "inodeAt Processing w = Some 0" "inodeAt Pending v = Some 1"
    unfolding v_def w_def by code_simp+
  then have "claimDurableQueueEntry busyQueue False (fold (serve busyQueue) [] emptyQueue) = (Inr True, w)"
    "acknowledgeDurableQueueEntry busyQueue w = (Inr (), v)"
    by (simp_all add: w_def v_def prod_eq_iff)
  from acknowledged_generation_gone [OF busy_files(1,3,4) _ this]
  obtain p where "inodeAt Processing w = Some p"
    "\<forall>later. p \<in> set (qwSettled (fold (serve busyQueue) later v)) \<and>
       (\<forall>name \<in> {Pending, Processing, Retired}. inodeAt name (fold (serve busyQueue) later v) \<noteq> Some p)"
    by (auto simp: busyQueue_def)
  then have "0 \<in> set (qwSettled (fold (serve busyQueue) [Claim False] v)) \<and>
      inodeAt Processing (fold (serve busyQueue) [Claim False] v) \<noteq> Some 0"
    using run(3) by (metis insertCI option.inject)
  then show ?thesis using run by (simp add: Let_def w_def [symmetric] v_def [symmetric])
qed

end
