(* ===== verification/DirectoryWalk.thy ===== *)
theory DirectoryWalk
  imports PathPrefix WindowsPath
begin

text \<open>
  The directory walk (\<open>src/walk.ts\<close>) on a POSIX host: which entries below a root are reported, under which
  budget, and which directories could not be read. The file system calls and the caller's callbacks are
  operations on a world of their own and may answer anything at any time. The asynchronous walk makes the
  same calls in the same order as the synchronous one; where it waits, the world is free to change, as it
  is at every call. An endless tree keeps an unbounded walk from ending, so the walk is a partial
  function.
\<close>

subsection \<open>Options and results\<close>

datatype walk_symlinks = Skip_links | Follow_links | Include_links

text \<open>A \<open>Dirent\<close> is a name and a kind. \<open>'h\<close> is the type of open directories.\<close>

record dirent =
  deName :: jstr
  deKind :: file_kind

record walk_entry =
  weName :: jstr
  wePath :: jstr
  weRelative :: jstr
  weDepth :: nat
  weKind :: file_kind

record walk_failure =
  wfPath :: jstr
  wfRelative :: jstr
  wfDepth :: int
  wfError :: error

record ('s, 'h) walk_io =
  wiIsLink :: "jstr \<Rightarrow> ('s, error, bool) op"
  wiRealpath :: "jstr \<Rightarrow> ('s, error, jstr) op"
  wiReaddir :: "jstr \<Rightarrow> ('s, error, dirent list) op"
  wiOpendir :: "jstr \<Rightarrow> ('s, error, 'h) op"
  wiRead :: "'h \<Rightarrow> ('s, error, dirent option) op"
  wiClose :: "'h \<Rightarrow> ('s, error, unit) op"
  wiStat :: "jstr \<Rightarrow> ('s, error, file_kind) op"

text \<open>A callback that is missing, or that answers null or undefined, answers true.\<close>

record 's walk_options =
  woMaxDepth :: "jsnum option"
  woMaxEntries :: "jsnum option"
  woSymlinks :: "jstr option"
  woInclude :: "walk_entry \<Rightarrow> ('s, error, bool option) op"
  woDescend :: "walk_entry \<Rightarrow> ('s, error, bool option) op"

text \<open>The result under construction, the directories visited, and the world.\<close>

record 's walk_state =
  wsEntries :: "walk_entry list"
  wsScanned :: nat
  wsTruncated :: bool
  wsFailed :: "walk_failure list"
  wsVisited :: "jstr set"
  wsWorld :: 's

type_synonym ('s, 'a) walk_op = "('s walk_state, error, 'a) op"

definition onWorld :: "('s, error, 'a) op \<Rightarrow> ('s, 'a) walk_op" where
  "onWorld = zoomS wsWorld (\<lambda>s st. st\<lparr>wsWorld := s\<rparr>)"

subsection \<open>Validation\<close>

definition validateWalkBudget :: "jsnum option \<Rightarrow> error + unit" where
  "validateWalkBudget value_of =
     (case value_of of
        None \<Rightarrow> Inr ()
      | Some v \<Rightarrow> throwIf (\<not> isSafeInteger v \<or> floorNum v < 0) (RangeErr ''must be a non-negative safe integer''))"

definition walkSymlinks :: "jstr option \<Rightarrow> walk_symlinks option" where
  "walkSymlinks given =
     (case given of
        None \<Rightarrow> Some Skip_links
      | Some s \<Rightarrow>
          if s = js ''skip'' then Some Skip_links
          else if s = js ''follow'' then Some Follow_links
          else if s = js ''include'' then Some Include_links
          else None)"

definition validateWalkOptions :: "'s walk_options \<Rightarrow> error + walk_symlinks" where
  "validateWalkOptions options =
     bindE (validateWalkBudget (woMaxDepth options)) (\<lambda>_.
     bindE (validateWalkBudget (woMaxEntries options)) (\<lambda>_.
       case walkSymlinks (woSymlinks options) of
         None \<Rightarrow> Inl (PlainErr ''invalid walk symlink policy'')
       | Some policy \<Rightarrow> Inr policy))"

text \<open>A validated budget as a natural number.\<close>

definition budgetOf :: "jsnum option \<Rightarrow> nat option" where
  "budgetOf = map_option (\<lambda>v. nat (floorNum v))"

record 's walk_plan =
  wpMaxDepth :: "nat option"
  wpMaxEntries :: "nat option"
  wpSymlinks :: walk_symlinks
  wpInclude :: "walk_entry \<Rightarrow> ('s, error, bool option) op"
  wpDescend :: "walk_entry \<Rightarrow> ('s, error, bool option) op"
  wpRoot :: jstr

subsection \<open>One directory\<close>

definition shouldStop :: "'s walk_plan \<Rightarrow> 's walk_state \<Rightarrow> bool" where
  "shouldStop wp st = (case wpMaxEntries wp of None \<Rightarrow> False | Some m \<Rightarrow> wsScanned st \<ge> m)"

definition recordFailedDir :: "host \<Rightarrow> 's walk_plan \<Rightarrow> jstr \<Rightarrow> nat \<Rightarrow> error \<Rightarrow> ('s, unit) walk_op" where
  "recordFailedDir h wp dir depth e =
     (let relativePath = pathRelative h (wpRoot wp) dir
      in updateS (\<lambda>st. st\<lparr>wsFailed := wsFailed st @
           [\<lparr>wfPath = dir, wfRelative = relativePath,
             wfDepth = (if relativePath = [] then 0 else int depth - 1), wfError = e\<rparr>]\<rparr>))"

definition resolveKind :: "('s, 'h) walk_io \<Rightarrow> jstr \<Rightarrow> dirent \<Rightarrow> walk_symlinks \<Rightarrow> ('s, file_kind option) walk_op" where
  "resolveKind io fullPath d symlinks =
     (if deKind d \<noteq> Symbolic_link then returnS (Some (deKind d))
      else case symlinks of
             Skip_links \<Rightarrow> returnS None
           | Include_links \<Rightarrow> returnS (Some Symbolic_link)
           | Follow_links \<Rightarrow>
               tryS (onWorld (wiStat io fullPath)) (\<lambda>_. returnS None)
                 (\<lambda>kind. returnS (Some (if kind = Directory then Directory
                                         else if kind = Regular_file then Regular_file else Other_kind))))"

text \<open>What is left of a directory: the rest of a list, or an open directory.\<close>

datatype 'h listing = Listed "dirent list" | Opened 'h

record 'h walk_frame =
  wdDir :: jstr
  wdRelative :: jstr
  wdDepth :: nat
  wdListing :: "'h listing"

text \<open>\<open>visit\<close> until the loop: the depth, the link test, the real path and the listing.\<close>

definition visitedBefore :: "jstr \<Rightarrow> ('s, bool) walk_op" where
  "visitedBefore realDir = (\<lambda>st. (Inr (realDir \<in> wsVisited st), st\<lparr>wsVisited := insert realDir (wsVisited st)\<rparr>))"

definition openListing :: "('s, 'h) walk_io \<Rightarrow> 's walk_plan \<Rightarrow> jstr \<Rightarrow> ('s, 'h listing) walk_op" where
  "openListing io wp dir =
     (if wpMaxEntries wp = None
      then bindS (onWorld (wiReaddir io dir)) (\<lambda>entries. returnS (Listed entries))
      else bindS (onWorld (wiOpendir io dir)) (\<lambda>handle. returnS (Opened handle)))"

definition realDirectory :: "('s, 'h) walk_io \<Rightarrow> 's walk_plan \<Rightarrow> jstr \<Rightarrow> nat \<Rightarrow> ('s, jstr option) walk_op" where
  "realDirectory io wp dir depth =
     bindS (if depth > 1 \<and> wpSymlinks wp \<noteq> Follow_links then onWorld (wiIsLink io dir) else returnS False) (\<lambda>isLink.
       if isLink then returnS None
       else bindS (onWorld (wiRealpath io dir)) (\<lambda>realDir. returnS (Some realDir)))"

definition enterDirectory ::
    "('s, 'h) walk_io \<Rightarrow> host \<Rightarrow> 's walk_plan \<Rightarrow> jstr \<Rightarrow> jstr \<Rightarrow> nat \<Rightarrow> ('s, 'h walk_frame option) walk_op" where
  "enterDirectory io h wp dir relativeDir depth =
     (if (case wpMaxDepth wp of None \<Rightarrow> False | Some m \<Rightarrow> depth > m) then returnS None
      else
        let failed = (\<lambda>e. bindS (recordFailedDir h wp dir depth e) (\<lambda>_. returnS None))
        in tryS (realDirectory io wp dir depth) failed (\<lambda>realDir.
             case realDir of
               None \<Rightarrow> returnS None
             | Some resolved \<Rightarrow>
                 bindS (visitedBefore resolved) (\<lambda>seen.
                   if seen then returnS None
                   else tryS (openListing io wp dir) failed (\<lambda>listing.
                          returnS (Some \<lparr>wdDir = dir, wdRelative = relativeDir, wdDepth = depth, wdListing = listing\<rparr>)))))"

definition nextDirent :: "('s, 'h) walk_io \<Rightarrow> 'h listing \<Rightarrow> ('s, (dirent \<times> 'h listing) option) walk_op" where
  "nextDirent io listing =
     (case listing of
        Listed [] \<Rightarrow> returnS None
      | Listed (d # ds) \<Rightarrow> returnS (Some (d, Listed ds))
      | Opened handle \<Rightarrow>
          bindS (onWorld (wiRead io handle)) (\<lambda>d. returnS (map_option (\<lambda>d. (d, Opened handle)) d)))"

definition closeFrame :: "('s, 'h) walk_io \<Rightarrow> host \<Rightarrow> 's walk_plan \<Rightarrow> 'h walk_frame \<Rightarrow> ('s, unit) walk_op" where
  "closeFrame io h wp frame =
     (case wdListing frame of
        Listed _ \<Rightarrow> returnS ()
      | Opened handle \<Rightarrow>
          tryS (onWorld (wiClose io handle)) (\<lambda>e. recordFailedDir h wp (wdDir frame) (wdDepth frame) e) returnS)"

subsection \<open>One entry\<close>

definition childPath :: "jstr \<Rightarrow> jstr \<Rightarrow> jstr" where
  "childPath dir name = (if endsWith dir [SLASH] then dir else dir @ [SLASH]) @ name"

definition childRelative :: "jstr \<Rightarrow> jstr \<Rightarrow> jstr" where
  "childRelative relativeDir name = (if relativeDir \<noteq> [] then relativeDir @ [SLASH] @ name else name)"

definition answered :: "bool option \<Rightarrow> bool" where
  "answered r = (case r of None \<Rightarrow> True | Some b \<Rightarrow> b)"

text \<open>The body of the loop for one entry, up to the descent: the directory to descend to, if any.\<close>

definition admitEntry ::
    "('s, 'h) walk_io \<Rightarrow> 's walk_plan \<Rightarrow> 'h walk_frame \<Rightarrow> dirent \<Rightarrow> ('s, walk_entry option) walk_op" where
  "admitEntry io wp frame d =
     bindS (updateS (\<lambda>st. st\<lparr>wsScanned := wsScanned st + 1\<rparr>)) (\<lambda>_.
     bindS (resolveKind io (childPath (wdDir frame) (deName d)) d (wpSymlinks wp)) (\<lambda>kind.
       case kind of
         None \<Rightarrow> returnS None
       | Some k \<Rightarrow>
           let entry = \<lparr>weName = deName d, wePath = childPath (wdDir frame) (deName d),
                 weRelative = childRelative (wdRelative frame) (deName d), weDepth = wdDepth frame, weKind = k\<rparr>
           in bindS (onWorld (wpInclude wp entry)) (\<lambda>included.
              bindS (if answered included then updateS (\<lambda>st. st\<lparr>wsEntries := wsEntries st @ [entry]\<rparr>) else returnS ()) (\<lambda>_.
                if k = Directory \<and> (case wpMaxDepth wp of None \<Rightarrow> True | Some m \<Rightarrow> wdDepth frame < m)
                then bindS (onWorld (wpDescend wp entry)) (\<lambda>descended.
                       returnS (if answered descended then Some entry else None))
                else returnS None))))"

subsection \<open>The walk\<close>

text \<open>One turn of the loop of \<open>visit\<close>: it leaves the directory, goes on with the rest of it, or visits a
  directory first. Every way out of the loop closes the directory.\<close>

datatype ('s, 'h) walk_step =
  Leave "(error + unit) \<times> 's walk_state"
| Again "'h walk_frame" "'s walk_state"
| Descend "'h walk_frame" "'h walk_frame" "'s walk_state"

definition walkStep ::
    "('s, 'h) walk_io \<Rightarrow> host \<Rightarrow> 's walk_plan \<Rightarrow> 'h walk_frame \<Rightarrow> 's walk_state \<Rightarrow> ('s, 'h) walk_step" where
  "walkStep io h wp frame st =
     (case nextDirent io (wdListing frame) st of
        (Inl e, st1) \<Rightarrow>
          Leave (finallyS (recordFailedDir h wp (wdDir frame) (wdDepth frame) e) (closeFrame io h wp frame) st1)
      | (Inr None, st1) \<Rightarrow> Leave (closeFrame io h wp frame st1)
      | (Inr (Some (d, rest)), st1) \<Rightarrow>
          if shouldStop wp st1
          then Leave (finallyS (updateS (\<lambda>st. st\<lparr>wsTruncated := True\<rparr>)) (closeFrame io h wp frame) st1)
          else
            (case admitEntry io wp frame d st1 of
               (Inl e, st2) \<Rightarrow> Leave (finallyS (throwS e) (closeFrame io h wp frame) st2)
             | (Inr None, st2) \<Rightarrow> Again (frame\<lparr>wdListing := rest\<rparr>) st2
             | (Inr (Some child), st2) \<Rightarrow>
                 (case enterDirectory io h wp (wePath child) (weRelative child) (wdDepth frame + 1) st2 of
                    (Inl e, st3) \<Rightarrow> Leave (finallyS (throwS e) (closeFrame io h wp frame) st3)
                  | (Inr None, st3) \<Rightarrow> Again (frame\<lparr>wdListing := rest\<rparr>) st3
                  | (Inr (Some inner), st3) \<Rightarrow> Descend inner (frame\<lparr>wdListing := rest\<rparr>) st3)))"

text \<open>\<open>None\<close> is a walk that does not end.\<close>

partial_function (option) scanDirectory ::
    "('s, 'h) walk_io \<Rightarrow> host \<Rightarrow> 's walk_plan \<Rightarrow> 'h walk_frame \<Rightarrow> 's walk_state \<Rightarrow>
     ((error + unit) \<times> 's walk_state) option" where
  "scanDirectory io h wp frame st =
     (case walkStep io h wp frame st of
        Leave result \<Rightarrow> Some result
      | Again rest t \<Rightarrow> scanDirectory io h wp rest t
      | Descend inner rest t \<Rightarrow>
          Option.bind (scanDirectory io h wp inner t) (\<lambda>result.
            case result of
              (Inl e, u) \<Rightarrow> Some (finallyS (throwS e) (closeFrame io h wp frame) u)
            | (Inr _, u) \<Rightarrow>
                if wsTruncated u then Some (closeFrame io h wp frame u)
                else scanDirectory io h wp rest u))"

definition emptyWalk :: "'s \<Rightarrow> 's walk_state" where
  "emptyWalk s = \<lparr>wsEntries = [], wsScanned = 0, wsTruncated = False, wsFailed = [], wsVisited = {}, wsWorld = s\<rparr>"

definition walkPlan :: "'s walk_options \<Rightarrow> walk_symlinks \<Rightarrow> jstr \<Rightarrow> 's walk_plan" where
  "walkPlan options policy root_dir =
     \<lparr>wpMaxDepth = budgetOf (woMaxDepth options), wpMaxEntries = budgetOf (woMaxEntries options),
      wpSymlinks = policy, wpInclude = woInclude options, wpDescend = woDescend options, wpRoot = root_dir\<rparr>"

definition walkDirectory ::
    "('s, 'h) walk_io \<Rightarrow> host \<Rightarrow> 's walk_options \<Rightarrow> jstr \<Rightarrow> 's \<Rightarrow> ((error + unit) \<times> 's walk_state) option" where
  "walkDirectory io h options startDir s =
     (case validateWalkOptions options of
        Inl e \<Rightarrow> Some (Inl e, emptyWalk s)
      | Inr policy \<Rightarrow>
          let root_dir = resolvePathPreservingWindowsRoot h startDir; wp = walkPlan options policy root_dir
          in case enterDirectory io h wp root_dir [] 1 (emptyWalk s) of
               (Inl e, st) \<Rightarrow> Some (Inl e, st)
             | (Inr None, st) \<Rightarrow> Some (Inr (), st)
             | (Inr (Some frame), st) \<Rightarrow> scanDirectory io h wp frame st)"

text \<open>The synchronous walk has the same body.\<close>

definition walkDirectorySync ::
    "('s, 'h) walk_io \<Rightarrow> host \<Rightarrow> 's walk_options \<Rightarrow> jstr \<Rightarrow> 's \<Rightarrow> ((error + unit) \<times> 's walk_state) option" where
  "walkDirectorySync = walkDirectory"

end
