(* ===== verification/WalkSafety.thy ===== *)
theory WalkSafety
  imports DirectoryWalk Containment
begin

text \<open>
  What every run of the walk keeps to, whatever the file system and the callbacks answer: the entry
  budget, the depth, and the places of the entries below the root; and when it ends. A locale collects
  what the steps of one directory must keep for the whole walk to keep it.
\<close>

subsection \<open>Invariants of the walk\<close>

locale walk_invariant =
  fixes io :: "('s, 'h) walk_io"
    and h :: host
    and wp :: "'s walk_plan"
    and I :: "'s walk_state \<Rightarrow> bool"
    and J :: "'h walk_frame \<Rightarrow> bool"
  assumes inv_close: "I st \<Longrightarrow> I (snd (closeFrame io h wp frame st))"
    and inv_leave: "J frame \<Longrightarrow> I st \<Longrightarrow> walkStep io h wp frame st = Leave result \<Longrightarrow> I (snd result)"
    and inv_again: "J frame \<Longrightarrow> I st \<Longrightarrow> walkStep io h wp frame st = Again rest t \<Longrightarrow> J rest \<and> I t"
    and inv_descend: "J frame \<Longrightarrow> I st \<Longrightarrow> walkStep io h wp frame st = Descend inner rest t \<Longrightarrow>
      J inner \<and> J rest \<and> I t"
begin

lemma inv_throw: "I st \<Longrightarrow> I (snd (finallyS (throwS e) (closeFrame io h wp frame) st))"
  using inv_close [of st frame] by (auto simp: finallyS_def throwS_def liftS_def split: prod.split sum.split)

lemma inv_scan:
  assumes "scanDirectory io h wp frame st = Some result" "J frame" "I st"
  shows "I (snd result)"
proof -
  have "io = io \<longrightarrow> h = h \<longrightarrow> wp = wp \<longrightarrow> J frame \<longrightarrow> I st \<longrightarrow> I (snd result)"
  proof (rule scanDirectory.raw_induct [where P = "\<lambda>io' h' wp' frame st result.
      io' = io \<longrightarrow> h' = h \<longrightarrow> wp' = wp \<longrightarrow> J frame \<longrightarrow> I st \<longrightarrow> I (snd result)", OF _ assms(1)], intro impI)
    fix scan io' h' wp' frame st result
    assume IH: "\<And>io' h' wp' frame st result. scan io' h' wp' frame st = Some result \<Longrightarrow>
        io' = io \<longrightarrow> h' = h \<longrightarrow> wp' = wp \<longrightarrow> J frame \<longrightarrow> I st \<longrightarrow> I (snd result)"
      and eq: "(case walkStep io' h' wp' frame st of Leave result \<Rightarrow> Some result
        | Again rest t \<Rightarrow> scan io' h' wp' rest t
        | Descend inner rest t \<Rightarrow> Option.bind (scan io' h' wp' inner t) (\<lambda>result.
            case result of (Inl e, u) \<Rightarrow> Some (finallyS (throwS e) (closeFrame io' h' wp' frame) u)
            | (Inr _, u) \<Rightarrow> if wsTruncated u then Some (closeFrame io' h' wp' frame u) else scan io' h' wp' rest u)) = Some result"
      and same: "io' = io" "h' = h" "wp' = wp" and j: "J frame" and i: "I st"
    have IH': "scan io h wp f s = Some x \<Longrightarrow> J f \<Longrightarrow> I s \<Longrightarrow> I (snd x)" for f s x using IH by blast
    show "I (snd result)"
    proof (cases "walkStep io h wp frame st")
      case (Leave x)
      then show ?thesis using eq same inv_leave [OF j i] by simp
    next
      case (Again rest t)
      then show ?thesis using eq same inv_again [OF j i Again] IH' by simp
    next
      case (Descend inner rest t)
      then obtain x u where run: "scan io h wp inner t = Some (x, u)"
        using eq same by (cases "scan io h wp inner t") auto
      have u: "I u" using IH' [OF run] inv_descend [OF j i Descend] by simp
      show ?thesis
      proof (cases x)
        case (Inl e)
        then show ?thesis using eq same Descend run inv_throw [OF u] by auto
      next
        case (Inr y)
        then show ?thesis
          using eq same Descend run inv_close [OF u] IH' [OF _ _ u] inv_descend [OF j i Descend] by (auto split: if_splits)
      qed
    qed
  qed
  then show ?thesis using assms by simp
qed

end


text \<open>What a turn of the loop is made of.\<close>

lemma walkStep_leave:
  assumes "walkStep io h wp frame st = Leave result"
  obtains e st1 where "nextDirent io (wdListing frame) st = (Inl e, st1)"
      "result = finallyS (recordFailedDir h wp (wdDir frame) (wdDepth frame) e) (closeFrame io h wp frame) st1"
  | st1 where "nextDirent io (wdListing frame) st = (Inr None, st1)" "result = closeFrame io h wp frame st1"
  | d rest st1 where "nextDirent io (wdListing frame) st = (Inr (Some (d, rest)), st1)" "shouldStop wp st1"
      "result = finallyS (updateS (\<lambda>st. st\<lparr>wsTruncated := True\<rparr>)) (closeFrame io h wp frame) st1"
  | d rest st1 e st2 where "nextDirent io (wdListing frame) st = (Inr (Some (d, rest)), st1)" "\<not> shouldStop wp st1"
      "admitEntry io wp frame d st1 = (Inl e, st2)" "result = finallyS (throwS e) (closeFrame io h wp frame) st2"
  | d rest st1 child st2 e st3 where "nextDirent io (wdListing frame) st = (Inr (Some (d, rest)), st1)" "\<not> shouldStop wp st1"
      "admitEntry io wp frame d st1 = (Inr (Some child), st2)"
      "enterDirectory io h wp (wePath child) (weRelative child) (wdDepth frame + 1) st2 = (Inl e, st3)"
      "result = finallyS (throwS e) (closeFrame io h wp frame) st3"
  using assms unfolding walkStep_def
  by (auto split: prod.splits sum.splits option.splits if_splits)

lemma walkStep_again:
  assumes "walkStep io h wp frame st = Again f t"
  obtains d rest st1 where "nextDirent io (wdListing frame) st = (Inr (Some (d, rest)), st1)" "\<not> shouldStop wp st1"
      "admitEntry io wp frame d st1 = (Inr None, t)" "f = frame\<lparr>wdListing := rest\<rparr>"
  | d rest st1 child st2 where "nextDirent io (wdListing frame) st = (Inr (Some (d, rest)), st1)" "\<not> shouldStop wp st1"
      "admitEntry io wp frame d st1 = (Inr (Some child), st2)"
      "enterDirectory io h wp (wePath child) (weRelative child) (wdDepth frame + 1) st2 = (Inr None, t)"
      "f = frame\<lparr>wdListing := rest\<rparr>"
  using assms unfolding walkStep_def
  by (auto split: prod.splits sum.splits option.splits if_splits)

lemma walkStep_descend:
  assumes "walkStep io h wp frame st = Descend inner f t"
  obtains d rest st1 child st2 where "nextDirent io (wdListing frame) st = (Inr (Some (d, rest)), st1)" "\<not> shouldStop wp st1"
      "admitEntry io wp frame d st1 = (Inr (Some child), st2)"
      "enterDirectory io h wp (wePath child) (weRelative child) (wdDepth frame + 1) st2 = (Inr (Some inner), t)"
      "f = frame\<lparr>wdListing := rest\<rparr>"
  using assms unfolding walkStep_def
  by (auto split: prod.splits sum.splits option.splits if_splits)

lemma invariant_from_parts:
  fixes io :: "('s, 'h) walk_io"
  assumes failed: "\<And>dir depth e st. I st \<Longrightarrow> I (snd (recordFailedDir h wp dir depth e st))"
    and close: "\<And>frame st. I st \<Longrightarrow> I (snd (closeFrame io h wp frame st))"
    and stop: "\<And>st. I st \<Longrightarrow> shouldStop wp st \<Longrightarrow> I (st\<lparr>wsTruncated := True\<rparr>)"
    and follow: "\<And>frame st r t. J frame \<Longrightarrow> I st \<Longrightarrow> nextDirent io (wdListing frame) st = (r, t) \<Longrightarrow>
      I t \<and> (\<forall>d l. r = Inr (Some (d, l)) \<longrightarrow> D d \<and> J (frame\<lparr>wdListing := l\<rparr>))"
    and admit: "\<And>frame d st r t. J frame \<Longrightarrow> D d \<Longrightarrow> I st \<Longrightarrow> \<not> shouldStop wp st \<Longrightarrow> admitEntry io wp frame d st = (r, t) \<Longrightarrow> I t"
    and enter: "\<And>frame d st child st2 r t. J frame \<Longrightarrow> D d \<Longrightarrow> admitEntry io wp frame d st = (Inr (Some child), st2) \<Longrightarrow> I st2 \<Longrightarrow>
      enterDirectory io h wp (wePath child) (weRelative child) (wdDepth frame + 1) st2 = (r, t) \<Longrightarrow>
      I t \<and> (\<forall>inner. r = Inr (Some inner) \<longrightarrow> J inner)"
  shows "walk_invariant io h wp I J"
proof
  show c: "I st \<Longrightarrow> I (snd (closeFrame io h wp frame st))" for st and frame :: "'h walk_frame" by (rule close)
  have fin: "I (snd (m st)) \<Longrightarrow> I (snd (finallyS m (closeFrame io h wp frame) st))"
    for m :: "('s, unit) walk_op" and st and frame :: "'h walk_frame"
    using close [of "snd (m st)" frame] by (auto simp: finallyS_def split: prod.split sum.split)
  have throw: "I st \<Longrightarrow> I (snd (throwS e st))" for e st by (simp add: throwS_def liftS_def)
  fix frame :: "'h walk_frame" and st
  assume j: "J frame" and i: "I st"
  show "I (snd result)" if "walkStep io h wp frame st = Leave result" for result
    using that
  proof (cases rule: walkStep_leave)
    case (1 e st1)
    then show ?thesis using fin failed follow [OF j i] by simp
  next
    case (2 st1)
    then show ?thesis using close follow [OF j i] by simp
  next
    case (3 d rest st1)
    then show ?thesis using fin [of "updateS (\<lambda>st. st\<lparr>wsTruncated := True\<rparr>)"] stop follow [OF j i 3(1)] by (simp add: updateS_def)
  next
    case (4 d rest st1 e st2)
    then show ?thesis using fin [OF throw] admit [OF j _ _ 4(2,3)] follow [OF j i 4(1)] by simp
  next
    case (5 d rest st1 child st2 e st3)
    then show ?thesis
      using fin [OF throw] admit [OF j _ _ 5(2,3)] follow [OF j i 5(1)] enter [OF j _ 5(3) _ 5(4)] by simp
  qed
  show "J rest \<and> I t" if "walkStep io h wp frame st = Again rest t" for rest t
    using that
  proof (cases rule: walkStep_again)
    case (1 d rest st1)
    then show ?thesis using admit [OF j _ _ 1(2,3)] follow [OF j i 1(1)] by simp
  next
    case (2 d rest st1 child st2)
    then show ?thesis using admit [OF j _ _ 2(2,3)] follow [OF j i 2(1)] enter [OF j _ 2(3) _ 2(4)] by simp
  qed
  show "J inner \<and> J rest \<and> I t" if "walkStep io h wp frame st = Descend inner rest t" for inner rest t
    using that
  proof (cases rule: walkStep_descend)
    case (1 d rest st1 child st2)
    then show ?thesis using admit [OF j _ _ 1(2,3)] follow [OF j i 1(1)] enter [OF j _ 1(3) _ 1(4)] by simp
  qed
qed


subsection \<open>What the steps change\<close>

definition sameCore :: "'s walk_state \<Rightarrow> 's walk_state \<Rightarrow> bool" where
  "sameCore st t \<longleftrightarrow> wsEntries t = wsEntries st \<and> wsScanned t = wsScanned st \<and> wsTruncated t = wsTruncated st"

lemma sameCore_refl [simp]: "sameCore st st"
  by (simp add: sameCore_def)

lemma sameCore_trans: "sameCore st t \<Longrightarrow> sameCore t u \<Longrightarrow> sameCore st u"
  by (simp add: sameCore_def)

lemma world_effect: "onWorld call st = (r, t) \<Longrightarrow> sameCore st t \<and> wsVisited t = wsVisited st \<and> wsFailed t = wsFailed st"
  by (auto simp: onWorld_def zoomS_def sameCore_def split: prod.splits)

lemma world_only: "onWorld call st = (r, t) \<Longrightarrow> \<exists>s. t = st\<lparr>wsWorld := s\<rparr>"
  by (auto simp: onWorld_def zoomS_def split: prod.splits)

lemma failed_effect: "recordFailedDir h wp dir depth e st = (r, t) \<Longrightarrow> r = Inr () \<and> sameCore st t \<and> wsVisited t = wsVisited st"
  by (auto simp: recordFailedDir_def Let_def updateS_def sameCore_def)

lemma try_effect:
  assumes "tryS m f k st = (r, t)"
  obtains x u where "m st = (Inr x, u)" "k x u = (r, t)" | e u where "m st = (Inl e, u)" "f e u = (r, t)"
  using assms by (auto simp: tryS_def split: prod.splits sum.splits)

lemma bind_effect:
  assumes "bindS m k st = (r, t)"
  obtains x u where "m st = (Inr x, u)" "k x u = (r, t)" | e where "m st = (Inl e, t)" "r = Inl e"
  using assms by (auto simp: bindS_def split: prod.splits sum.splits)

lemma close_effect:
  assumes "closeFrame io h wp frame st = (r, t)"
  shows "r = Inr () \<and> sameCore st t \<and> wsVisited t = wsVisited st"
proof (cases "wdListing frame")
  case (Listed ds)
  then show ?thesis using assms by (simp add: closeFrame_def returnS_def)
next
  case (Opened handle)
  then have "tryS (onWorld (wiClose io handle)) (\<lambda>e. recordFailedDir h wp (wdDir frame) (wdDepth frame) e) returnS st = (r, t)"
    using assms by (simp add: closeFrame_def)
  then show ?thesis
    by (cases rule: try_effect)
       (auto dest!: world_effect failed_effect simp: returnS_def sameCore_def)
qed

lemma next_effect: "nextDirent io listing st = (r, t) \<Longrightarrow> sameCore st t \<and> wsVisited t = wsVisited st"
  unfolding nextDirent_def
  by (auto simp: returnS_def dest!: world_effect elim!: bind_effect split: listing.splits list.splits)

lemma real_effect: "realDirectory io wp dir depth st = (r, t) \<Longrightarrow> sameCore st t \<and> wsVisited t = wsVisited st"
  unfolding realDirectory_def
  by (auto simp: returnS_def sameCore_def dest!: world_only elim!: bind_effect split: if_splits)

lemma open_effect: "openListing io wp dir st = (r, t) \<Longrightarrow> sameCore st t \<and> wsVisited t = wsVisited st"
  unfolding openListing_def
  by (auto simp: returnS_def dest!: world_effect elim!: bind_effect split: if_splits)

text \<open>Entering a directory reports nothing and adds at most its real path to those visited.\<close>

definition entered ::
    "'s walk_plan \<Rightarrow> jstr \<Rightarrow> jstr \<Rightarrow> nat \<Rightarrow> 's walk_state \<Rightarrow> error + 'h walk_frame option \<Rightarrow> 's walk_state \<Rightarrow> bool" where
  "entered wp dir rel depth st r t \<longleftrightarrow>
     sameCore st t \<and> wsVisited st \<subseteq> wsVisited t \<and>
     (\<forall>inner. r = Inr (Some inner) \<longrightarrow>
        wdDir inner = dir \<and> wdRelative inner = rel \<and> wdDepth inner = depth \<and>
        (\<forall>m. wpMaxDepth wp = Some m \<longrightarrow> depth \<le> m) \<and>
        (wpMaxEntries wp = None \<longrightarrow> (\<exists>ds. wdListing inner = Listed ds)))"

lemma failing_entered:
  assumes "bindS (recordFailedDir h wp dir depth e) (\<lambda>_. returnS None) u = (r, t)" "sameCore st u" "wsVisited st \<subseteq> wsVisited u"
  shows "entered wp dir rel depth st (r :: error + 'h walk_frame option) t"
  using assms(1)
proof (cases rule: bind_effect)
  case (1 x v)
  then show ?thesis
    using assms(2,3) failed_effect [OF 1(1)] sameCore_trans [of st u v] by (auto simp: entered_def returnS_def)
next
  case (2 e)
  then show ?thesis using failed_effect [OF 2(1)] by simp
qed

lemma opening_entered:
  assumes "tryS (openListing io wp dir) (\<lambda>e. bindS (recordFailedDir h wp dir depth e) (\<lambda>_. returnS None))
      (\<lambda>listing. returnS (Some \<lparr>wdDir = dir, wdRelative = rel, wdDepth = depth, wdListing = listing\<rparr>)) u = (r, t)"
    and "sameCore st u" "wsVisited st \<subseteq> wsVisited u" "\<And>m. wpMaxDepth wp = Some m \<Longrightarrow> depth \<le> m"
  shows "entered wp dir rel depth st (r :: error + 'h walk_frame option) t"
  using assms(1)
proof (cases rule: try_effect)
  case (1 listing v)
  then have "wpMaxEntries wp = None \<Longrightarrow> \<exists>ds. listing = Listed ds"
    by (auto simp: openListing_def returnS_def elim!: bind_effect)
  then show ?thesis
    using 1 assms(2-4) open_effect [OF 1(1)] sameCore_trans [of st u v] by (auto simp: entered_def returnS_def)
next
  case (2 e v)
  then show ?thesis
    using failing_entered [OF 2(2), of st rel] assms(2,3) open_effect [OF 2(1)] sameCore_trans [of st u v] by auto
qed

lemma enter_effect:
  assumes "enterDirectory io h wp dir rel depth st = (r, t)"
  shows "entered wp dir rel depth st r t"
proof (cases "case wpMaxDepth wp of None \<Rightarrow> False | Some m \<Rightarrow> depth > m")
  case True
  then show ?thesis using assms by (auto simp: enterDirectory_def returnS_def entered_def)
next
  case False
  then have depth: "wpMaxDepth wp = Some m \<Longrightarrow> depth \<le> m" for m by auto
  let ?failed = "\<lambda>e. bindS (recordFailedDir h wp dir depth e) (\<lambda>_. returnS None)"
  let ?open = "tryS (openListing io wp dir) ?failed
      (\<lambda>listing. returnS (Some \<lparr>wdDir = dir, wdRelative = rel, wdDepth = depth, wdListing = listing\<rparr>))"
  from assms False have "tryS (realDirectory io wp dir depth) ?failed (\<lambda>realDir. case realDir of None \<Rightarrow> returnS None
      | Some resolved \<Rightarrow> bindS (visitedBefore resolved) (\<lambda>seen. if seen then returnS None else ?open)) st = (r, t)"
    by (simp add: enterDirectory_def Let_def)
  then show ?thesis
  proof (cases rule: try_effect)
    case (1 realDir u)
    note u = real_effect [OF 1(1)]
    show ?thesis
    proof (cases realDir)
      case None
      then show ?thesis using 1 u by (auto simp: returnS_def entered_def)
    next
      case (Some resolved)
      let ?v = "u\<lparr>wsVisited := insert resolved (wsVisited u)\<rparr>"
      have v: "sameCore st ?v" "wsVisited st \<subseteq> wsVisited ?v" using u by (auto simp: sameCore_def)
      have "(if resolved \<in> wsVisited u then returnS None else ?open) ?v = (r, t)"
        using 1(2) Some by (simp add: visitedBefore_def bindS_def)
      then have "resolved \<notin> wsVisited u \<Longrightarrow> ?open ?v = (r, t)" "resolved \<in> wsVisited u \<Longrightarrow> r = Inr None \<and> t = ?v"
        by (simp_all add: returnS_def)
      then show ?thesis
        using opening_entered [OF _ v depth] v by (cases "resolved \<in> wsVisited u") (simp add: entered_def, blast)
    qed
  next
    case (2 e u)
    then show ?thesis using failing_entered [OF 2(2), of st rel] real_effect [OF 2(1)] by simp
  qed
qed


lemma enter_fresh:
  assumes "enterDirectory io h wp dir rel depth st = (Inr (Some inner), t)"
  shows "\<exists>x s s'. wiRealpath io dir s = (Inr x, s') \<and> x \<notin> wsVisited st \<and> x \<in> wsVisited t"
proof -
  have no: "bindS (recordFailedDir h wp dir depth e) (\<lambda>_. returnS None) u \<noteq> (Inr (Some inner), t)" for e u
    by (auto simp: returnS_def elim!: bind_effect)
  let ?open = "tryS (openListing io wp dir) (\<lambda>e. bindS (recordFailedDir h wp dir depth e) (\<lambda>_. returnS None))
      (\<lambda>listing. returnS (Some \<lparr>wdDir = dir, wdRelative = rel, wdDepth = depth, wdListing = listing\<rparr>))"
  let ?rest = "\<lambda>realDir. case realDir of None \<Rightarrow> returnS None
      | Some resolved \<Rightarrow> bindS (visitedBefore resolved) (\<lambda>seen. if seen then returnS None else ?open)"
  have "tryS (realDirectory io wp dir depth) (\<lambda>e. bindS (recordFailedDir h wp dir depth e) (\<lambda>_. returnS None)) ?rest st =
      (Inr (Some inner), t)"
    using assms by (auto simp: enterDirectory_def Let_def returnS_ok split: if_splits)
  then obtain realDir u where 1: "realDirectory io wp dir depth st = (Inr realDir, u)" "?rest realDir u = (Inr (Some inner), t)"
    by (cases rule: try_effect) (use no in blast)+
  then obtain resolved where 2: "realDir = Some resolved" "resolved \<notin> wsVisited u"
    "tryS (openListing io wp dir) (\<lambda>e. bindS (recordFailedDir h wp dir depth e) (\<lambda>_. returnS None))
      (\<lambda>listing. returnS (Some \<lparr>wdDir = dir, wdRelative = rel, wdDepth = depth, wdListing = listing\<rparr>))
      (u\<lparr>wsVisited := insert resolved (wsVisited u)\<rparr>) = (Inr (Some inner), t)"
    by (auto simp: returnS_def visitedBefore_def bindS_def split: option.splits if_splits)
  from 2(3) have "resolved \<in> wsVisited t"
    by (cases rule: try_effect) (use no open_effect in \<open>fastforce simp: returnS_def\<close>)+
  moreover have "\<exists>s s'. wiRealpath io dir s = (Inr resolved, s')"
    using 1(1) 2(1) by (auto simp: realDirectory_def returnS_def onWorld_def zoomS_def elim!: bind_effect split: if_splits prod.splits) blast+
  ultimately show ?thesis using 2(2) real_effect [OF 1(1)] by auto
qed

text \<open>What an entry that is admitted adds.\<close>

definition entryOf :: "'h walk_frame \<Rightarrow> dirent \<Rightarrow> file_kind \<Rightarrow> walk_entry" where
  "entryOf frame d k =
     \<lparr>weName = deName d, wePath = childPath (wdDir frame) (deName d),
      weRelative = childRelative (wdRelative frame) (deName d), weDepth = wdDepth frame, weKind = k\<rparr>"

lemma kind_effect: "resolveKind io p d policy st = (r, t) \<Longrightarrow> (\<exists>k. r = Inr k) \<and> sameCore st t \<and> wsVisited t = wsVisited st"
  unfolding resolveKind_def
  by (auto simp: returnS_def dest!: world_effect elim!: try_effect split: if_splits walk_symlinks.splits)

lemma admit_effect:
  assumes "admitEntry io wp frame d st = (r, t)"
  shows "wsScanned t = wsScanned st + 1" "wsTruncated t = wsTruncated st" "wsVisited t = wsVisited st"
    "wsEntries t = wsEntries st \<or> (\<exists>k. wsEntries t = wsEntries st @ [entryOf frame d k])"
    "r = Inr (Some child) \<Longrightarrow> child = entryOf frame d Directory \<and> (\<forall>m. wpMaxDepth wp = Some m \<longrightarrow> wdDepth frame < m)"
proof -
  have "wsScanned t = wsScanned st + 1 \<and> wsTruncated t = wsTruncated st \<and> wsVisited t = wsVisited st \<and>
    (wsEntries t = wsEntries st \<or> (\<exists>k. wsEntries t = wsEntries st @ [entryOf frame d k])) \<and>
    (r = Inr (Some child) \<longrightarrow> child = entryOf frame d Directory \<and> (\<forall>m. wpMaxDepth wp = Some m \<longrightarrow> wdDepth frame < m))"
    using assms unfolding admitEntry_def entryOf_def
    by (auto simp: returnS_def updateS_def Let_def sameCore_def dest!: kind_effect world_effect
        elim!: bind_effect split: option.splits if_splits)
  then show "wsScanned t = wsScanned st + 1" "wsTruncated t = wsTruncated st" "wsVisited t = wsVisited st"
    "wsEntries t = wsEntries st \<or> (\<exists>k. wsEntries t = wsEntries st @ [entryOf frame d k])"
    "r = Inr (Some child) \<Longrightarrow> child = entryOf frame d Directory \<and> (\<forall>m. wpMaxDepth wp = Some m \<longrightarrow> wdDepth frame < m)"
    by auto
qed


subsection \<open>Growth\<close>

definition grown :: "'s walk_state \<Rightarrow> 's walk_state \<Rightarrow> bool" where
  "grown st t \<longleftrightarrow> wsScanned st \<le> wsScanned t \<and> wsVisited st \<subseteq> wsVisited t"

lemma grown_core: "grown st0 st \<Longrightarrow> sameCore st t \<Longrightarrow> wsVisited st \<subseteq> wsVisited t \<Longrightarrow> grown st0 t"
  by (auto simp: grown_def sameCore_def)

lemma grown_trans: "grown st t \<Longrightarrow> grown t u \<Longrightarrow> grown st u"
  by (auto simp: grown_def)

lemma enter_grown: "enterDirectory io h wp dir rel depth st = (r, t) \<Longrightarrow> grown st t"
  by (drule enter_effect) (auto simp: entered_def grown_def sameCore_def)

lemma admit_grown: "admitEntry io wp frame d st = (r, t) \<Longrightarrow> grown st t"
  using admit_effect(1,3) by (fastforce simp: grown_def)

lemma growing:
  fixes io :: "('s, 'h) walk_io"
  shows "walk_invariant io h wp (grown st0) (\<lambda>_. True)"
proof (rule invariant_from_parts [where D = "\<lambda>_. True"])
  show "grown st0 st \<Longrightarrow> grown st0 (snd (recordFailedDir h wp dir depth e st))" for dir depth e st
    using failed_effect [of h wp dir depth e st] by (cases "recordFailedDir h wp dir depth e st") (auto intro: grown_core)
  show "grown st0 st \<Longrightarrow> grown st0 (snd (closeFrame io h wp frame st))" for frame st
    using close_effect [of io h wp frame st] by (cases "closeFrame io h wp frame st") (auto intro: grown_core)
  show "grown st0 t \<and> (\<forall>d l. r = Inr (Some (d, l)) \<longrightarrow> True \<and> True)"
    if "grown st0 st" "nextDirent io (wdListing frame) st = (r, t)" for frame :: "'h walk_frame" and st r t
    using grown_core [OF that(1), of t] next_effect [OF that(2)] by simp
  show "grown st0 t" if "grown st0 st" "admitEntry io wp frame d st = (r, t)" for frame :: "'h walk_frame" and d st r t
    using grown_trans [OF that(1) admit_grown [OF that(2)]] .
  show "grown st0 t \<and> (\<forall>inner. r = Inr (Some inner) \<longrightarrow> True)"
    if "grown st0 st2" "enterDirectory io h wp (wePath child) (weRelative child) (wdDepth frame + 1) st2 = (r, t)"
    for frame :: "'h walk_frame" and child st2 r t
    using grown_trans [OF that(1) enter_grown [OF that(2)]] by simp
qed (simp add: grown_def)

interpretation growth: walk_invariant io h wp "grown st0" "\<lambda>_. True" for io h wp st0
  by (rule growing)

lemma scan_grown: "scanDirectory io h wp frame st = Some result \<Longrightarrow> grown st (snd result)"
  by (erule growth.inv_scan) (simp_all add: grown_def)

subsection \<open>Bounds and places\<close>

definition plainName :: "jstr \<Rightarrow> bool" where
  "plainName name \<longleftrightarrow> plainSeg name \<and> SLASH \<notin> set name"

text \<open>The names that a directory may hold.\<close>

definition wellNamed :: "('s, 'h) walk_io \<Rightarrow> bool" where
  "wellNamed io \<longleftrightarrow>
     (\<forall>p s ds t. wiReaddir io p s = (Inr ds, t) \<longrightarrow> (\<forall>d \<in> set ds. plainName (deName d))) \<and>
     (\<forall>handle s d t. wiRead io handle s = (Inr (Some d), t) \<longrightarrow> plainName (deName d))"

definition namedListing :: "'h listing \<Rightarrow> bool" where
  "namedListing l = (case l of Listed ds \<Rightarrow> \<forall>d \<in> set ds. plainName (deName d) | Opened _ \<Rightarrow> True)"

definition inDepth :: "'s walk_plan \<Rightarrow> nat \<Rightarrow> bool" where
  "inDepth wp depth \<longleftrightarrow> (case wpMaxDepth wp of None \<Rightarrow> True | Some m \<Rightarrow> depth \<le> m)"

lemma inDepth_iff: "inDepth wp depth \<longleftrightarrow> (\<forall>m. wpMaxDepth wp = Some m \<longrightarrow> depth \<le> m)"
  by (simp add: inDepth_def split: option.split)

definition placed :: "'s walk_plan \<Rightarrow> jstr list \<Rightarrow> walk_entry \<Rightarrow> bool" where
  "placed wp base e \<longleftrightarrow>
     (\<exists>segs. wfSegs segs \<and> segs \<noteq> [] \<and> wePath e = absPath (base @ segs) \<and> weRelative e = joinOn SLASH segs \<and>
        weDepth e = length segs \<and> weName e = last segs \<and> inDepth wp (length segs))"

definition inBudget :: "'s walk_plan \<Rightarrow> jstr list \<Rightarrow> 's walk_state \<Rightarrow> bool" where
  "inBudget wp base st \<longleftrightarrow>
     (\<forall>m. wpMaxEntries wp = Some m \<longrightarrow> wsScanned st \<le> m) \<and>
     (wsTruncated st \<longrightarrow> wpMaxEntries wp = Some (wsScanned st)) \<and>
     length (wsEntries st) \<le> wsScanned st \<and> (\<forall>e \<in> set (wsEntries st). placed wp base e)"

definition placedDir :: "'s walk_plan \<Rightarrow> jstr list \<Rightarrow> 'h walk_frame \<Rightarrow> bool" where
  "placedDir wp base frame \<longleftrightarrow>
     (\<exists>segs. wfSegs segs \<and> wdDir frame = absPath (base @ segs) \<and> wdRelative frame = joinOn SLASH segs \<and>
        wdDepth frame = length segs + 1 \<and> inDepth wp (length segs + 1)) \<and> namedListing (wdListing frame)"

lemma joinOn_snoc: "xs \<noteq> [] \<Longrightarrow> joinOn c (xs @ [x]) = joinOn c xs @ c # x"
  by (induction c xs rule: joinOn.induct) auto

lemma joinOn_last:
  assumes "xs \<noteq> []" "last xs \<noteq> []"
  shows "joinOn c xs \<noteq> [] \<and> last (joinOn c xs) = last (last xs)"
proof (cases xs rule: rev_cases)
  case (snoc ys y)
  then show ?thesis using assms by (cases "ys = []") (simp_all add: joinOn_snoc)
qed (use assms in simp)

lemma wfSegs_last: "wfSegs segs \<Longrightarrow> segs \<noteq> [] \<Longrightarrow> last segs \<noteq> [] \<and> last (last segs) \<noteq> SLASH"
  by (metis last_in_set plainSeg_def wfSegs_def)

lemma wfSegs_child: "wfSegs segs \<Longrightarrow> plainName name \<Longrightarrow> wfSegs (segs @ [name])"
  by (auto simp: wfSegs_def plainName_def)

lemma childPath_absPath: "wfSegs segs \<Longrightarrow> childPath (absPath segs) name = absPath (segs @ [name])"
  using wfSegs_last [of segs] joinOn_last [of segs SLASH]
  by (cases "segs = []") (auto simp: childPath_def absPath_def endsWith_single joinOn_snoc)

lemma childRelative_join: "wfSegs segs \<Longrightarrow> childRelative (joinOn SLASH segs) name = joinOn SLASH (segs @ [name])"
  using wfSegs_last [of segs] joinOn_last [of segs SLASH]
  by (cases "segs = []") (auto simp: childRelative_def joinOn_snoc)

lemma inBudget_core: "inBudget wp base st \<Longrightarrow> sameCore st t \<Longrightarrow> inBudget wp base t"
  by (simp add: inBudget_def sameCore_def)

lemma placed_entry:
  assumes "placedDir wp base frame" "wfSegs base" "plainName (deName d)"
  shows "placed wp base (entryOf frame d k)"
proof -
  obtain segs where s: "wfSegs segs" "wdDir frame = absPath (base @ segs)" "wdRelative frame = joinOn SLASH segs"
    "wdDepth frame = length segs + 1" "inDepth wp (length segs + 1)"
    using assms(1) by (auto simp: placedDir_def)
  have "wfSegs (base @ segs)" using s(1) assms(2) by (auto simp: wfSegs_def)
  then have "wePath (entryOf frame d k) = absPath (base @ (segs @ [deName d]))"
    "weRelative (entryOf frame d k) = joinOn SLASH (segs @ [deName d])"
    using childPath_absPath [of "base @ segs"] childRelative_join [OF s(1)] s(2,3) by (simp_all add: entryOf_def)
  then show ?thesis
    unfolding placed_def using wfSegs_child [OF s(1) assms(3)] s(4,5)
    by (intro exI [of _ "segs @ [deName d]"]) (simp add: entryOf_def)
qed

lemma inBudget_admit:
  assumes "inBudget wp base st" "\<not> shouldStop wp st" "placedDir wp base frame" "wfSegs base" "plainName (deName d)"
    and "admitEntry io wp frame d st = (r, t)"
  shows "inBudget wp base t"
proof -
  note e = admit_effect [OF assms(6)]
  have "\<not> wsTruncated st" using assms(1,2) by (auto simp: inBudget_def shouldStop_def)
  then show ?thesis
    using assms(1,2) e(1,2,4) placed_entry [OF assms(3-5)] by (auto simp: inBudget_def shouldStop_def)
qed

lemma enter_named:
  assumes "wellNamed io" "enterDirectory io h wp dir rel depth st = (Inr (Some inner), t)"
  shows "namedListing (wdListing inner)"
  using assms
  by (auto simp: enterDirectory_def Let_def visitedBefore_def returnS_def openListing_def namedListing_def wellNamed_def
      onWorld_def zoomS_def elim!: try_effect bind_effect split: if_splits option.splits prod.splits) blast+

lemma next_named:
  assumes "wellNamed io" "namedListing listing" "nextDirent io listing st = (Inr (Some (d, l)), t)"
  shows "plainName (deName d) \<and> namedListing l"
  using assms
  by (auto simp: nextDirent_def returnS_def namedListing_def wellNamed_def onWorld_def zoomS_def
      elim!: bind_effect split: listing.splits list.splits prod.splits) blast+


lemma bounded:
  fixes io :: "('s, 'h) walk_io"
  assumes "wellNamed io" "wfSegs base"
  shows "walk_invariant io h wp (inBudget wp base) (placedDir wp base)"
proof (rule invariant_from_parts [where D = "\<lambda>d. plainName (deName d)"])
  show "inBudget wp base st \<Longrightarrow> inBudget wp base (snd (recordFailedDir h wp dir depth e st))" for dir depth e st
    using failed_effect [of h wp dir depth e st] by (cases "recordFailedDir h wp dir depth e st") (auto intro: inBudget_core)
  show "inBudget wp base st \<Longrightarrow> inBudget wp base (snd (closeFrame io h wp frame st))" for frame st
    using close_effect [of io h wp frame st] by (cases "closeFrame io h wp frame st") (auto intro: inBudget_core)
  show "inBudget wp base st \<Longrightarrow> shouldStop wp st \<Longrightarrow> inBudget wp base (st\<lparr>wsTruncated := True\<rparr>)" for st
    by (auto simp: inBudget_def shouldStop_def split: option.splits)
  show "inBudget wp base t \<and> (\<forall>d l. r = Inr (Some (d, l)) \<longrightarrow> plainName (deName d) \<and> placedDir wp base (frame\<lparr>wdListing := l\<rparr>))"
    if "placedDir wp base frame" "inBudget wp base st" "nextDirent io (wdListing frame) st = (r, t)"
    for frame :: "'h walk_frame" and st r t
  proof -
    note turn = that
    have "plainName (deName d) \<and> namedListing l" if "r = Inr (Some (d, l))" for d l
      using next_named [OF assms(1), of "wdListing frame"] turn(1,3) that by (auto simp: placedDir_def)
    then show ?thesis
      using inBudget_core [OF turn(2), of t] next_effect [OF turn(3)] turn(1) by (auto simp: placedDir_def)
  qed
  show "inBudget wp base t"
    if "placedDir wp base frame" "plainName (deName d)" "inBudget wp base st" "\<not> shouldStop wp st"
      "admitEntry io wp frame d st = (r, t)" for frame :: "'h walk_frame" and d st r t
    using inBudget_admit [OF that(3,4,1) assms(2) that(2,5)] .
  show "inBudget wp base t \<and> (\<forall>inner. r = Inr (Some inner) \<longrightarrow> placedDir wp base inner)"
    if "placedDir wp base frame" "plainName (deName d)" "admitEntry io wp frame d st = (Inr (Some child), st2)"
      "inBudget wp base st2" "enterDirectory io h wp (wePath child) (weRelative child) (wdDepth frame + 1) st2 = (r, t)"
    for frame :: "'h walk_frame" and d st child st2 r t
  proof (intro conjI allI impI)
    have e: "entered wp (wePath child) (weRelative child) (wdDepth frame + 1) st2 r t" by (rule enter_effect [OF that(5)])
    then show "inBudget wp base t" using inBudget_core [OF that(4)] by (simp add: entered_def)
    fix inner
    assume i: "r = Inr (Some inner)"
    have child: "child = entryOf frame d Directory" using admit_effect(5) [OF that(3)] by simp
    have "placed wp base child" using placed_entry [OF that(1) assms(2) that(2)] child by simp
    then obtain segs where s: "wfSegs segs" "segs \<noteq> []" "wePath child = absPath (base @ segs)" "weRelative child = joinOn SLASH segs"
        "weDepth child = length segs"
      by (auto simp: placed_def)
    have "wdDepth frame = length segs" using s(5) child by (simp add: entryOf_def)
    then show "placedDir wp base inner"
      unfolding placedDir_def using e i s enter_named [OF assms(1)] that(5)
      by (auto simp: entered_def inDepth_iff intro!: exI [of _ segs])
  qed
qed

lemma walkPlan_fields [simp]:
  "wpMaxDepth (walkPlan options policy p) = budgetOf (woMaxDepth options)"
  "wpMaxEntries (walkPlan options policy p) = budgetOf (woMaxEntries options)"
  "wpSymlinks (walkPlan options policy p) = policy" "wpInclude (walkPlan options policy p) = woInclude options"
  "wpDescend (walkPlan options policy p) = woDescend options" "wpRoot (walkPlan options policy p) = p"
  by (simp_all add: walkPlan_def)

lemma walk_in_budget:
  assumes "posixHost h" "wellNamed io" "walkDirectory io h options startDir s = Some (r, st)"
    and "validateWalkOptions options = Inr policy"
  shows "inBudget (walkPlan options policy (posixResolve (cwd h) [startDir])) (hostSegs h startDir) st"
proof -
  let ?root = "posixResolve (cwd h) [startDir]"
  let ?wp = "walkPlan options policy ?root"
  let ?base = "hostSegs h startDir"
  have root: "resolvePathPreservingWindowsRoot h startDir = ?root" "?root = absPath ?base" "wfSegs ?base"
    using assms(1) by (simp_all add: resolvePathPreserving_posix posixResolve_resolvedSegs posixHost_def hostSegs_def)
  have start: "inBudget ?wp ?base (emptyWalk s)" by (simp add: inBudget_def emptyWalk_def)
  obtain r1 st1 where e: "enterDirectory io h ?wp ?root [] 1 (emptyWalk s) = (r1, st1)" by fastforce
  note eff = enter_effect [OF e]
  have st1: "inBudget ?wp ?base st1" using inBudget_core [OF start] eff by (simp add: entered_def)
  show ?thesis
  proof (cases "\<exists>inner. r1 = Inr (Some inner)")
    case True
    then obtain inner where i: "r1 = Inr (Some inner)" by blast
    then have "placedDir ?wp ?base inner"
      unfolding placedDir_def using eff root(2) enter_named [OF assms(2)] e
      by (auto simp: entered_def inDepth_iff wfSegs_def intro!: exI [of _ "[]"])
    moreover have "scanDirectory io h ?wp inner st1 = Some (r, st)"
      using assms(3,4) root(1) e i by (simp add: walkDirectory_def Let_def)
    ultimately show ?thesis
      using walk_invariant.inv_scan [OF bounded [OF assms(2) root(3)]] st1 by fastforce
  next
    case False
    then have "st = st1"
      using assms(3,4) root(1) e by (auto simp: walkDirectory_def Let_def split: sum.splits option.splits)
    then show ?thesis using st1 by simp
  qed
qed

text \<open>C24: whatever the file system and the callbacks answer, at every call, a walk keeps to its budgets and
  to its root: it scans at most \<open>maxEntries\<close> entries and calls itself truncated only at that count, it reports
  at most those it scanned, and each of them lies below the root by as many plain segments as its depth
  says, which is at most \<open>maxDepth\<close>; its relative path is these segments. The hypothesis on the file system
  is that a directory holds no empty name, no \<open>.\<close> and \<open>..\<close>, and no name with a slash.\<close>

theorem walk_keeps_to_budget_and_root:
  assumes "posixHost h" "wellNamed io" "walkDirectory io h options startDir s = Some (r, st)"
  shows "(\<forall>m. budgetOf (woMaxEntries options) = Some m \<longrightarrow> wsScanned st \<le> m) \<and>
    (wsTruncated st \<longrightarrow> budgetOf (woMaxEntries options) = Some (wsScanned st)) \<and>
    length (wsEntries st) \<le> wsScanned st \<and>
    (\<forall>e \<in> set (wsEntries st). \<exists>segs. hostSegs h (wePath e) = hostSegs h startDir @ segs \<and>
       weRelative e = joinOn SLASH segs \<and> weDepth e = length segs \<and> segs \<noteq> [] \<and>
       (\<forall>m. budgetOf (woMaxDepth options) = Some m \<longrightarrow> weDepth e \<le> m))"
proof (cases "validateWalkOptions options")
  case (Inl e)
  then have "st = emptyWalk s" using assms(3) by (simp add: walkDirectory_def)
  then show ?thesis by (simp add: emptyWalk_def)
next
  case (Inr policy)
  have wf: "wfSegs (hostSegs h startDir)" by (simp add: hostSegs_def)
  have "\<exists>segs. hostSegs h (wePath e) = hostSegs h startDir @ segs \<and> weRelative e = joinOn SLASH segs \<and>
      weDepth e = length segs \<and> segs \<noteq> [] \<and> (\<forall>m. budgetOf (woMaxDepth options) = Some m \<longrightarrow> weDepth e \<le> m)"
    if p: "placed (walkPlan options policy root_dir) (hostSegs h startDir) e" for e root_dir
  proof -
    obtain segs where s: "wfSegs segs" "segs \<noteq> []" "wePath e = absPath (hostSegs h startDir @ segs)"
        "weRelative e = joinOn SLASH segs" "weDepth e = length segs"
        "inDepth (walkPlan options policy root_dir) (length segs)"
      using p by (auto simp: placed_def)
    have "wfSegs (hostSegs h startDir @ segs)" using wf s(1) by (auto simp: wfSegs_def)
    then have "hostSegs h (wePath e) = hostSegs h startDir @ segs" using s(3) by (simp add: hostSegs_def)
    then show ?thesis using s by (auto simp: inDepth_iff)
  qed
  then show ?thesis using walk_in_budget [OF assms Inr] by (simp add: inBudget_def) blast
qed


subsection \<open>The end of a walk\<close>

text \<open>A rank that every turn of the loop lowers, for the rest of the directory and for the one below it.\<close>

lemma scan_ends:
  fixes io :: "('s, 'h) walk_io" and rank :: "'s walk_state \<Rightarrow> 'h walk_frame \<Rightarrow> nat \<times> nat"
  assumes again: "\<And>frame st rest t u. J frame \<Longrightarrow> walkStep io h wp frame st = Again rest t \<or>
      (\<exists>inner. walkStep io h wp frame st = Descend inner rest t) \<Longrightarrow> grown t u \<Longrightarrow>
      J rest \<and> (rank u rest, rank st frame) \<in> less_than <*lex*> less_than"
    and descend: "\<And>frame st inner rest t. J frame \<Longrightarrow> walkStep io h wp frame st = Descend inner rest t \<Longrightarrow>
      J inner \<and> (rank t inner, rank st frame) \<in> less_than <*lex*> less_than"
    and "J frame"
  shows "\<exists>result. scanDirectory io h wp frame st = Some result"
proof -
  have "wf (inv_image (less_than <*lex*> less_than) (\<lambda>(st, frame). rank st frame))" by auto
  then have "J (snd p) \<longrightarrow> (\<exists>result. scanDirectory io h wp (snd p) (fst p) = Some result)" for p
  proof (induction p rule: wf_induct_rule)
    case (less p)
    obtain st frame where p: "p = (st, frame)" by fastforce
    have IH: "\<exists>result. scanDirectory io h wp f u = Some result"
      if "J f" "(rank u f, rank st frame) \<in> less_than <*lex*> less_than" for u f
      using less.IH [of "(u, f)"] that p by simp
    show ?case
    proof (intro impI)
      assume "J (snd p)"
      then have j: "J frame" using p by simp
      have "\<exists>result. scanDirectory io h wp frame st = Some result"
      proof (cases "walkStep io h wp frame st")
        case (Leave x)
        then show ?thesis by (simp add: scanDirectory.simps)
      next
        case (Again rest t)
        have "J rest \<and> (rank t rest, rank st frame) \<in> less_than <*lex*> less_than"
          using again [OF j, of st rest t t] Again by (simp add: grown_def)
        then show ?thesis using Again IH [of rest t] by (simp add: scanDirectory.simps)
      next
        case (Descend inner rest t)
        obtain x u where run: "scanDirectory io h wp inner t = Some (x, u)"
          using IH [of inner t] descend [OF j Descend] by fastforce
        have "J rest \<and> (rank u rest, rank st frame) \<in> less_than <*lex*> less_than"
          using again [OF j, of st rest t u] Descend scan_grown [OF run] by auto
        then obtain y where "scanDirectory io h wp rest u = Some y" using IH by blast
        then show ?thesis using Descend run by (subst scanDirectory.simps) (cases x; simp)
      qed
      then show "\<exists>result. scanDirectory io h wp (snd p) (fst p) = Some result" using p by simp
    qed
  qed
  from this [of "(st, frame)"] show ?thesis using assms(3) by simp
qed

definition listingLength :: "'h walk_frame \<Rightarrow> nat" where
  "listingLength frame = (case wdListing frame of Listed ds \<Rightarrow> length ds | Opened _ \<Rightarrow> 0)"

definition listedFrame :: "'h walk_frame \<Rightarrow> bool" where
  "listedFrame frame \<longleftrightarrow> (\<exists>ds. wdListing frame = Listed ds)"

text \<open>A turn that goes on scans one entry, and the rest of a list is shorter.\<close>

lemma step_scans:
  assumes "walkStep io h wp frame st = Again rest t \<or> (\<exists>inner. walkStep io h wp frame st = Descend inner rest t)"
  shows "\<not> shouldStop wp st \<and> wsScanned t = wsScanned st + 1 \<and> wdDepth rest = wdDepth frame \<and> grown st t \<and>
    (listedFrame frame \<longrightarrow> listedFrame rest \<and> listingLength rest < listingLength frame)"
proof -
  have one: "\<not> shouldStop wp st \<and> wsScanned t = wsScanned st + 1 \<and> grown st t \<and>
      (listedFrame frame \<longrightarrow> listedFrame (frame\<lparr>wdListing := l\<rparr>) \<and> listingLength (frame\<lparr>wdListing := l\<rparr>) < listingLength frame)"
    if "nextDirent io (wdListing frame) st = (Inr (Some (d, l)), st1)" "\<not> shouldStop wp st1"
      "admitEntry io wp frame d st1 = (r, st2)" "st2 = t \<or> (\<exists>dir rel depth r. enterDirectory io h wp dir rel depth st2 = (r, t))"
    for d l st1 r st2
  proof -
    have n: "wsScanned st1 = wsScanned st" "wsVisited st1 = wsVisited st"
      using next_effect [OF that(1)] by (simp_all add: sameCore_def)
    have e: "wsScanned t = wsScanned st2 \<and> wsVisited st2 \<subseteq> wsVisited t"
      using that(4) by (auto dest!: enter_effect simp: entered_def sameCore_def)
    have "\<not> shouldStop wp st" using that(2) n(1) by (cases "wpMaxEntries wp") (simp_all add: shouldStop_def)
    moreover have "listedFrame frame \<longrightarrow> listedFrame (frame\<lparr>wdListing := l\<rparr>) \<and> listingLength (frame\<lparr>wdListing := l\<rparr>) < listingLength frame"
      using that(1) by (auto simp: listedFrame_def listingLength_def nextDirent_def returnS_def split: list.splits)
    ultimately show ?thesis using n e admit_effect(1,3) [OF that(3)] by (simp add: grown_def)
  qed
  from assms show ?thesis
  proof
    assume "walkStep io h wp frame st = Again rest t"
    then show ?thesis
    proof (cases rule: walkStep_again)
      case (1 d l st1)
      then show ?thesis using one [OF 1(1-3)] by simp
    next
      case (2 d l st1 child st2)
      then show ?thesis using one [OF 2(1-3) disjI2] by auto
    qed
  next
    assume "\<exists>inner. walkStep io h wp frame st = Descend inner rest t"
    then obtain inner where "walkStep io h wp frame st = Descend inner rest t" by blast
    then show ?thesis
    proof (cases rule: walkStep_descend)
      case (1 d l st1 child st2)
      then show ?thesis using one [OF 1(1-3) disjI2] by auto
    qed
  qed
qed

lemma step_enters:
  assumes "walkStep io h wp frame st = Descend inner rest t"
  shows "inDepth wp (wdDepth inner) \<and> wdDepth inner = wdDepth frame + 1 \<and> (wpMaxEntries wp = None \<longrightarrow> listedFrame inner) \<and>
    (\<exists>x p s s'. wiRealpath io p s = (Inr x, s') \<and> x \<notin> wsVisited st \<and> x \<in> wsVisited t)"
  using assms
proof (cases rule: walkStep_descend)
  case (1 d l st1 child st2)
  have "wsVisited st \<subseteq> wsVisited st2" using next_effect [OF 1(1)] admit_effect(3) [OF 1(3)] by simp
  then show ?thesis
    using enter_effect [OF 1(4)] enter_fresh [OF 1(4)] by (auto simp: entered_def inDepth_iff listedFrame_def)
qed


lemma bounded_entries_end: "wpMaxEntries wp = Some m \<Longrightarrow> \<exists>result. scanDirectory io h wp frame st = Some result"
proof (rule scan_ends [where J = "\<lambda>_. True" and rank = "\<lambda>st _. (m - wsScanned st, 0)"])
  assume m: "wpMaxEntries wp = Some m"
  show "True \<and> ((m - wsScanned u, 0), (m - wsScanned st, 0)) \<in> less_than <*lex*> less_than"
    if s: "walkStep io h wp frame st = Again rest t \<or> (\<exists>inner. walkStep io h wp frame st = Descend inner rest t)"
      and g: "grown t u" for frame rest :: "'b walk_frame" and st t u
    using step_scans [OF s] g m by (auto simp: shouldStop_def grown_def)
  show "True \<and> ((m - wsScanned t, 0), (m - wsScanned st, 0)) \<in> less_than <*lex*> less_than"
    if s: "walkStep io h wp frame st = Descend inner rest t" for frame inner rest :: "'b walk_frame" and st t
    using step_scans [of io h wp frame st rest t] s m by (auto simp: shouldStop_def)
qed simp

lemma bounded_depth_end:
  assumes "wpMaxEntries wp = None" "wpMaxDepth wp = Some m" "listedFrame frame"
  shows "\<exists>result. scanDirectory io h wp frame st = Some result"
proof (rule scan_ends [where J = listedFrame and rank = "\<lambda>_ frame. (m + 1 - wdDepth frame, listingLength frame)"])
  show "listedFrame rest \<and> ((m + 1 - wdDepth rest, listingLength rest), (m + 1 - wdDepth frame, listingLength frame)) \<in> less_than <*lex*> less_than"
    if j: "listedFrame frame" and s: "walkStep io h wp frame st = Again rest t \<or> (\<exists>inner. walkStep io h wp frame st = Descend inner rest t)"
    for frame rest :: "'b walk_frame" and st t
    using step_scans [OF s] j by auto
  show "listedFrame inner \<and> ((m + 1 - wdDepth inner, listingLength inner), (m + 1 - wdDepth frame, listingLength frame)) \<in> less_than <*lex*> less_than"
    if s: "walkStep io h wp frame st = Descend inner rest t" for frame inner rest :: "'b walk_frame" and st t
    using step_enters [OF s] assms(1,2) by (auto simp: inDepth_iff)
qed (rule assms(3))

lemma finite_tree_end:
  assumes "wpMaxEntries wp = None" "listedFrame frame"
    and "finite dirs" "\<And>p s x s'. wiRealpath io p s = (Inr x, s') \<Longrightarrow> x \<in> dirs"
  shows "\<exists>result. scanDirectory io h wp frame st = Some result"
proof (rule scan_ends [where J = listedFrame and rank = "\<lambda>st frame. (card (dirs - wsVisited st), listingLength frame)"])
  have le: "card (dirs - wsVisited u) \<le> card (dirs - wsVisited st)" if "grown st u" for st u :: "'a walk_state"
    using that assms(3) by (intro card_mono) (auto simp: grown_def)
  show "listedFrame rest \<and> ((card (dirs - wsVisited u), listingLength rest), (card (dirs - wsVisited st), listingLength frame))
      \<in> less_than <*lex*> less_than"
    if j: "listedFrame frame" and s: "walkStep io h wp frame st = Again rest t \<or> (\<exists>inner. walkStep io h wp frame st = Descend inner rest t)"
      and g: "grown t u" for frame rest :: "'b walk_frame" and st t u
  proof -
    have "card (dirs - wsVisited u) \<le> card (dirs - wsVisited st)" using step_scans [OF s] le grown_trans [OF _ g] by blast
    then show ?thesis using step_scans [OF s] j by auto
  qed
  show "listedFrame inner \<and> ((card (dirs - wsVisited t), listingLength inner), (card (dirs - wsVisited st), listingLength frame))
      \<in> less_than <*lex*> less_than"
    if s: "walkStep io h wp frame st = Descend inner rest t" for frame inner rest :: "'b walk_frame" and st t
  proof -
    obtain x where x: "x \<in> dirs" "x \<notin> wsVisited st" "x \<in> wsVisited t" using step_enters [OF s] assms(4) by blast
    have "dirs - wsVisited t \<subset> dirs - wsVisited st" using x step_scans [of io h wp frame st rest t] s by (auto simp: grown_def)
    then have "card (dirs - wsVisited t) < card (dirs - wsVisited st)" using assms(3) by (simp add: psubset_card_mono)
    then show ?thesis using step_enters [OF s] assms(1) by simp
  qed
qed (rule assms(2))

text \<open>C23: a walk ends. With a budget of entries or of depth it ends whatever the file system answers, even
  if it makes up directories as the walk goes; without one it ends when the directories that exist have
  finitely many real paths, since none is visited twice, however links and mounts form cycles.\<close>

theorem walk_ends:
  assumes "woMaxEntries options \<noteq> None \<or> woMaxDepth options \<noteq> None \<or>
    (\<exists>dirs. finite dirs \<and> (\<forall>p s x t. wiRealpath io p s = (Inr x, t) \<longrightarrow> x \<in> dirs))"
  shows "\<exists>result. walkDirectory io h options startDir s = Some result"
proof (cases "validateWalkOptions options")
  case (Inr policy)
  define wp where "wp = walkPlan options policy (resolvePathPreservingWindowsRoot h startDir)"
  obtain r st where e: "enterDirectory io h wp (wpRoot wp) [] 1 (emptyWalk s) = (r, st)" by fastforce
  have "\<exists>result. scanDirectory io h wp frame st = Some result" if f: "r = Inr (Some frame)" for frame
  proof (cases "wpMaxEntries wp")
    case (Some m)
    then show ?thesis by (rule bounded_entries_end)
  next
    case None
    have l: "listedFrame frame" using enter_effect [OF e] f None by (simp add: entered_def listedFrame_def)
    show ?thesis
    proof (cases "wpMaxDepth wp")
      case (Some m)
      then show ?thesis by (rule bounded_depth_end [OF None _ l])
    next
      case none: None
      then obtain dirs where "finite dirs" "\<And>p s x t. wiRealpath io p s = (Inr x, t) \<Longrightarrow> x \<in> dirs"
        using assms None none by (simp add: wp_def budgetOf_def) blast
      then show ?thesis by (rule finite_tree_end [OF None l])
    qed
  qed
  then show ?thesis
    using Inr e by (auto simp: walkDirectory_def Let_def wp_def split: sum.split option.split prod.split)
qed (simp add: walkDirectory_def)

end
