(* ===== verification/WalkOrder.thy ===== *)
theory WalkOrder
  imports WalkSafety
begin

text \<open>
  What the walk reports of a tree that is at rest: the entries in preorder, each once, as far as the
  depth limit, the callbacks and the policy for links let it go, cut at the budget of entries. The tree
  is a data structure; the file system is only asked to serve it.
\<close>

subsection \<open>Trees and their preorder\<close>

datatype dir_tree = Leaf file_kind | Folder "(jstr \<times> dir_tree) list"

type_synonym dir_content = "(jstr \<times> dir_tree) list"

definition treeKind :: "dir_tree \<Rightarrow> file_kind" where
  "treeKind t = (case t of Leaf k \<Rightarrow> k | Folder _ \<Rightarrow> Directory)"

definition direntOf :: "jstr \<times> dir_tree \<Rightarrow> dirent" where
  "direntOf c = \<lparr>deName = fst c, deKind = treeKind (snd c)\<rparr>"

definition treeEntry :: "jstr \<Rightarrow> jstr \<Rightarrow> nat \<Rightarrow> jstr \<Rightarrow> file_kind \<Rightarrow> walk_entry" where
  "treeEntry dir rel depth name kind =
     \<lparr>weName = name, wePath = childPath dir name, weRelative = childRelative rel name, weDepth = depth, weKind = kind\<rparr>"

lemma treeEntry_fields [simp]:
  "wePath (treeEntry dir rel depth name kind) = childPath dir name"
  "weRelative (treeEntry dir rel depth name kind) = childRelative rel name"
  by (simp_all add: treeEntry_def)

text \<open>The entries that are scanned, in order; \<open>None\<close> stands for a link that is passed over.\<close>

fun preorder :: "'s walk_plan \<Rightarrow> (walk_entry \<Rightarrow> bool) \<Rightarrow> jstr \<Rightarrow> jstr \<Rightarrow> nat \<Rightarrow> dir_content \<Rightarrow> walk_entry option list" where
  "preorder wp descend dir rel depth [] = []"
| "preorder wp descend dir rel depth ((name, Leaf kind) # cs) =
     (if kind = Symbolic_link \<and> wpSymlinks wp = Skip_links then None else Some (treeEntry dir rel depth name kind)) #
     preorder wp descend dir rel depth cs"
| "preorder wp descend dir rel depth ((name, Folder inner) # cs) =
     Some (treeEntry dir rel depth name Directory) #
     (if inDepth wp (depth + 1) \<and> descend (treeEntry dir rel depth name Directory)
      then preorder wp descend (childPath dir name) (childRelative rel name) (depth + 1) inner else []) @
     preorder wp descend dir rel depth cs"

fun folderPaths :: "jstr \<Rightarrow> dir_content \<Rightarrow> jstr list" where
  "folderPaths dir [] = []"
| "folderPaths dir ((name, Leaf kind) # cs) = folderPaths dir cs"
| "folderPaths dir ((name, Folder inner) # cs) =
     childPath dir name # folderPaths (childPath dir name) inner @ folderPaths dir cs"

subsection \<open>A file system that serves a tree\<close>

text \<open>\<open>rem\<close> is what the open directories of a world still have to say, \<open>canon\<close> the real path.\<close>

definition servesDirectory ::
    "('s, 'h) walk_io \<Rightarrow> ('s \<Rightarrow> 'h \<Rightarrow> dirent list option) \<Rightarrow> (jstr \<Rightarrow> jstr) \<Rightarrow> jstr \<Rightarrow> dirent list \<Rightarrow> bool" where
  "servesDirectory io rem canon p ds \<longleftrightarrow> (\<forall>s.
     (\<exists>t. wiIsLink io p s = (Inr False, t) \<and> rem t = rem s) \<and>
     (\<exists>t. wiRealpath io p s = (Inr (canon p), t) \<and> rem t = rem s) \<and>
     (\<exists>t. wiReaddir io p s = (Inr ds, t) \<and> rem t = rem s) \<and>
     (\<exists>handle t. wiOpendir io p s = (Inr handle, t) \<and> rem s handle = None \<and> rem t = (rem s)(handle \<mapsto> ds)))"

definition servesHandles :: "('s, 'h) walk_io \<Rightarrow> ('s \<Rightarrow> 'h \<Rightarrow> dirent list option) \<Rightarrow> bool" where
  "servesHandles io rem \<longleftrightarrow> (\<forall>s handle.
     (rem s handle = Some [] \<longrightarrow> (\<exists>t. wiRead io handle s = (Inr None, t) \<and> rem t = rem s)) \<and>
     (\<forall>d ds. rem s handle = Some (d # ds) \<longrightarrow> (\<exists>t. wiRead io handle s = (Inr (Some d), t) \<and> rem t = (rem s)(handle \<mapsto> ds))) \<and>
     (rem s handle \<noteq> None \<longrightarrow> (\<exists>t. wiClose io handle s = (Inr (), t) \<and> rem t = (rem s)(handle := None))))"

fun servesBelow ::
    "('s, 'h) walk_io \<Rightarrow> ('s \<Rightarrow> 'h \<Rightarrow> dirent list option) \<Rightarrow> (jstr \<Rightarrow> jstr) \<Rightarrow> jstr \<Rightarrow> dir_content \<Rightarrow> bool" where
  "servesBelow io rem canon dir [] \<longleftrightarrow> True"
| "servesBelow io rem canon dir ((name, Leaf kind) # cs) \<longleftrightarrow> kind \<noteq> Directory \<and> servesBelow io rem canon dir cs"
| "servesBelow io rem canon dir ((name, Folder inner) # cs) \<longleftrightarrow>
     servesDirectory io rem canon (childPath dir name) (map direntOf inner) \<and>
     servesBelow io rem canon (childPath dir name) inner \<and> servesBelow io rem canon dir cs"

text \<open>Callbacks that only look at the entry.\<close>

definition answers ::
    "('s \<Rightarrow> 'h \<Rightarrow> dirent list option) \<Rightarrow> (walk_entry \<Rightarrow> ('s, error, bool option) op) \<Rightarrow> (walk_entry \<Rightarrow> bool) \<Rightarrow> bool" where
  "answers rem callback f \<longleftrightarrow> (\<forall>e s. \<exists>x t. callback e s = (Inr x, t) \<and> answered x = f e \<and> rem t = rem s)"

subsection \<open>Progress\<close>

definition cut :: "nat option \<Rightarrow> nat \<Rightarrow> 'a list \<Rightarrow> 'a list" where
  "cut budget scanned xs = (case budget of None \<Rightarrow> xs | Some m \<Rightarrow> take (m - scanned) xs)"

definition reported :: "(walk_entry \<Rightarrow> bool) \<Rightarrow> walk_entry option list \<Rightarrow> walk_entry list" where
  "reported included its = filter included (List.map_filter id its)"

definition advanced ::
    "'s walk_plan \<Rightarrow> (walk_entry \<Rightarrow> bool) \<Rightarrow> 's walk_state \<Rightarrow> walk_entry option list \<Rightarrow> 's walk_state \<Rightarrow> bool" where
  "advanced wp included st its t \<longleftrightarrow>
     (let done_its = cut (wpMaxEntries wp) (wsScanned st) its in
        wsScanned t = wsScanned st + length done_its \<and>
        wsEntries t = wsEntries st @ reported included done_its \<and>
        (wsTruncated t \<longleftrightarrow> length done_its < length its) \<and> wsFailed t = wsFailed st)"

lemma reported_append [simp]: "reported included (xs @ ys) = reported included xs @ reported included ys"
  by (simp add: reported_def List.map_filter_def)

lemma advanced_nil: "\<not> wsTruncated st \<Longrightarrow> advanced wp included st [] st"
  by (simp add: advanced_def cut_def reported_def List.map_filter_def split: option.split)

lemma advanced_append:
  assumes "advanced wp included st xs t" "\<not> wsTruncated t" "advanced wp included t ys u"
  shows "advanced wp included st (xs @ ys) u"
proof (cases "wpMaxEntries wp")
  case (Some m)
  have "\<not> length (take (m - wsScanned st) xs) < length xs" using assms(1,2) Some by (simp add: advanced_def Let_def cut_def)
  then have "length xs \<le> m - wsScanned st" by simp
  then show ?thesis using assms Some by (auto simp: advanced_def Let_def cut_def)
qed (use assms in \<open>simp add: advanced_def cut_def\<close>)

lemma advanced_stop:
  assumes "advanced wp included st xs t" "wsTruncated t"
  shows "advanced wp included st (xs @ ys) t"
proof (cases "wpMaxEntries wp")
  case (Some m)
  then have "m - wsScanned st < length xs" using assms by (auto simp: advanced_def Let_def cut_def min_def split: if_splits)
  then show ?thesis using assms Some by (auto simp: advanced_def Let_def cut_def)
qed (use assms in \<open>simp add: advanced_def cut_def\<close>)

lemma advanced_full:
  assumes "shouldStop wp st" "its \<noteq> []"
  shows "advanced wp included st its (st\<lparr>wsTruncated := True\<rparr>)"
  using assms by (auto simp: advanced_def Let_def cut_def shouldStop_def reported_def List.map_filter_def split: option.splits)

lemma advanced_world [simp]: "advanced wp included st its (t\<lparr>wsWorld := w\<rparr>) = advanced wp included st its t"
  by (simp add: advanced_def)

lemma advanced_from_world [simp]: "advanced wp included (st\<lparr>wsWorld := w\<rparr>) its t = advanced wp included st its t"
  by (simp add: advanced_def)

lemma advanced_from_visited [simp]: "advanced wp included (st\<lparr>wsVisited := v\<rparr>) its t = advanced wp included st its t"
  by (simp add: advanced_def)


subsection \<open>One directory of the tree\<close>

text \<open>What is left of a directory: a list, or an open directory beside those of \<open>R\<close>.\<close>

definition left_of ::
    "('s \<Rightarrow> 'h \<Rightarrow> dirent list option) \<Rightarrow> 'h listing \<Rightarrow> dirent list \<Rightarrow> ('h \<Rightarrow> dirent list option) \<Rightarrow> 's \<Rightarrow> bool" where
  "left_of rem l ds R w \<longleftrightarrow>
     (case l of Listed xs \<Rightarrow> xs = ds \<and> rem w = R | Opened handle \<Rightarrow> R handle = None \<and> rem w = R(handle \<mapsto> ds))"

lemma left_of_same: "left_of rem l ds R w \<Longrightarrow> rem v = rem w \<Longrightarrow> left_of rem l ds R v"
  by (simp add: left_of_def split: listing.splits)

lemma handles_served:
  assumes "servesHandles io rem"
  shows "rem s handle = Some [] \<Longrightarrow> \<exists>t. wiRead io handle s = (Inr None, t) \<and> rem t = rem s"
    and "rem s handle = Some (d # ds) \<Longrightarrow> \<exists>t. wiRead io handle s = (Inr (Some d), t) \<and> rem t = (rem s)(handle \<mapsto> ds)"
    and "rem s handle = Some xs \<Longrightarrow> \<exists>t. wiClose io handle s = (Inr (), t) \<and> rem t = (rem s)(handle := None)"
  using assms unfolding servesHandles_def by blast+

lemma directory_served:
  assumes "servesDirectory io rem canon p ds"
  shows "\<exists>t. wiIsLink io p s = (Inr False, t) \<and> rem t = rem s" "\<exists>t. wiRealpath io p s = (Inr (canon p), t) \<and> rem t = rem s"
    "\<exists>t. wiReaddir io p s = (Inr ds, t) \<and> rem t = rem s"
    "\<exists>handle t. wiOpendir io p s = (Inr handle, t) \<and> rem s handle = None \<and> rem t = (rem s)(handle \<mapsto> ds)"
  using assms unfolding servesDirectory_def by blast+

lemmas on_world = onWorld_def zoomS_def

lemma bind_run: "m st = (Inr x, t) \<Longrightarrow> bindS m f st = f x t"
  by (simp add: bindS_def)

lemma bind_update: "bindS (updateS f) g st = g () (f st)"
  by (simp add: bindS_def updateS_def)

lemma try_run: "m st = (Inr x, t) \<Longrightarrow> tryS m h k st = k x t"
  by (simp add: tryS_def)

lemma next_left:
  assumes "servesHandles io rem" "left_of rem l (d # ds) R (wsWorld st)"
  shows "\<exists>l' w. nextDirent io l st = (Inr (Some (d, l')), st\<lparr>wsWorld := w\<rparr>) \<and> left_of rem l' ds R w \<and>
    closeFrame io h wp (frame\<lparr>wdListing := l'\<rparr>) = closeFrame io h wp (frame\<lparr>wdListing := l\<rparr>)"
proof (cases l)
  case (Listed xs)
  then show ?thesis
    using assms(2) by (intro exI [of _ "Listed ds"] exI [of _ "wsWorld st"]) (simp add: left_of_def nextDirent_def returnS_def closeFrame_def)
next
  case (Opened handle)
  then have "rem (wsWorld st) handle = Some (d # ds)" using assms(2) by (simp add: left_of_def)
  then obtain w where w: "wiRead io handle (wsWorld st) = (Inr (Some d), w)" "rem w = (rem (wsWorld st))(handle \<mapsto> ds)"
    using handles_served(2) [OF assms(1)] by blast
  then show ?thesis
    using assms(2) Opened
    by (intro exI [of _ "Opened handle"] exI [of _ w]) (simp add: left_of_def nextDirent_def returnS_def bindS_def on_world)
qed

lemma next_none:
  assumes "servesHandles io rem" "left_of rem l [] R (wsWorld st)"
  shows "\<exists>w. nextDirent io l st = (Inr None, st\<lparr>wsWorld := w\<rparr>) \<and> left_of rem l [] R w"
proof (cases l)
  case (Listed xs)
  then show ?thesis using assms(2) by (intro exI [of _ "wsWorld st"]) (simp add: left_of_def nextDirent_def returnS_def)
next
  case (Opened handle)
  then have "rem (wsWorld st) handle = Some []" using assms(2) by (simp add: left_of_def)
  then obtain w where w: "wiRead io handle (wsWorld st) = (Inr None, w)" "rem w = rem (wsWorld st)"
    using handles_served(1) [OF assms(1)] by blast
  then show ?thesis
    using assms(2) Opened
    by (intro exI [of _ w]) (simp add: left_of_def nextDirent_def returnS_def bindS_def on_world)
qed

lemma close_left:
  assumes "servesHandles io rem" "left_of rem l ds R (wsWorld st)"
  shows "\<exists>w. closeFrame io h wp (frame\<lparr>wdListing := l\<rparr>) st = (Inr (), st\<lparr>wsWorld := w\<rparr>) \<and> rem w = R"
proof (cases l)
  case (Listed xs)
  then show ?thesis using assms(2) by (intro exI [of _ "wsWorld st"]) (simp add: left_of_def closeFrame_def returnS_def)
next
  case (Opened handle)
  then have "rem (wsWorld st) handle = Some ds" using assms(2) by (simp add: left_of_def)
  then obtain w where w: "wiClose io handle (wsWorld st) = (Inr (), w)" "rem w = (rem (wsWorld st))(handle := None)"
    using handles_served(3) [OF assms(1)] by blast
  moreover have "R(handle := None) = R" using assms(2) Opened by (auto simp: left_of_def)
  ultimately show ?thesis
    using assms(2) Opened by (intro exI [of _ w]) (simp add: left_of_def closeFrame_def returnS_def tryS_def on_world)
qed

lemma enter_served:
  assumes "servesDirectory io rem canon p ds" "canon p \<notin> wsVisited st" "inDepth wp depth"
  shows "\<exists>l w. enterDirectory io h wp p rel depth st =
      (Inr (Some \<lparr>wdDir = p, wdRelative = rel, wdDepth = depth, wdListing = l\<rparr>),
       st\<lparr>wsVisited := insert (canon p) (wsVisited st), wsWorld := w\<rparr>) \<and>
    left_of rem l ds (rem (wsWorld st)) w"
proof -
  have d: "\<not> (case wpMaxDepth wp of None \<Rightarrow> False | Some m \<Rightarrow> depth > m)" using assms(3) by (auto simp: inDepth_iff split: option.split)
  obtain w1 where 1: "realDirectory io wp p depth st = (Inr (Some (canon p)), st\<lparr>wsWorld := w1\<rparr>)" "rem w1 = rem (wsWorld st)"
  proof -
    obtain v where v: "wiIsLink io p (wsWorld st) = (Inr False, v)" "rem v = rem (wsWorld st)"
      using directory_served(1) [OF assms(1)] by blast
    obtain u where u: "wiRealpath io p v = (Inr (canon p), u)" "rem u = rem v"
      using directory_served(2) [OF assms(1)] by blast
    obtain u' where u': "wiRealpath io p (wsWorld st) = (Inr (canon p), u')" "rem u' = rem (wsWorld st)"
      using directory_served(2) [OF assms(1)] by blast
    show ?thesis
    proof (cases "depth > 1 \<and> wpSymlinks wp \<noteq> Follow_links")
      case True
      then show ?thesis using v u by (intro that [of u]) (simp_all add: realDirectory_def bindS_def on_world returnS_def)
    next
      case False
      have "realDirectory io wp p depth st = (Inr (Some (canon p)), st\<lparr>wsWorld := u'\<rparr>)"
        unfolding realDirectory_def if_not_P [OF False] using u' by (simp add: bindS_def on_world returnS_def)
      then show ?thesis using u' that by blast
    qed
  qed
  let ?v = "st\<lparr>wsVisited := insert (canon p) (wsVisited st), wsWorld := w1\<rparr>"
  have 2: "visitedBefore (canon p) (st\<lparr>wsWorld := w1\<rparr>) = (Inr False, ?v)" using assms(2) by (simp add: visitedBefore_def)
  obtain l w2 where 3: "openListing io wp p ?v = (Inr l, ?v\<lparr>wsWorld := w2\<rparr>)" "left_of rem l ds (rem w1) w2"
  proof (cases "wpMaxEntries wp = None")
    case True
    obtain w2 where "wiReaddir io p w1 = (Inr ds, w2)" "rem w2 = rem w1"
      using directory_served(3) [OF assms(1)] by blast
    then show ?thesis
      using True by (intro that [of "Listed ds" w2]) (simp_all add: openListing_def bindS_def on_world returnS_def left_of_def)
  next
    case False
    obtain handle w2 where "wiOpendir io p w1 = (Inr handle, w2)" "rem w1 handle = None" "rem w2 = (rem w1)(handle \<mapsto> ds)"
      using directory_served(4) [OF assms(1)] by blast
    moreover from this have "openListing io wp p ?v = (Inr (Opened handle), ?v\<lparr>wsWorld := w2\<rparr>)"
      unfolding openListing_def if_not_P [OF False] by (simp add: bindS_def on_world returnS_def)
    ultimately show ?thesis by (intro that [of "Opened handle" w2]) (simp_all add: left_of_def)
  qed
  show ?thesis
    unfolding enterDirectory_def Let_def if_not_P [OF d]
    using 1 2 3 by (intro exI [of _ l] exI [of _ w2]) (simp add: tryS_def bindS_def returnS_def)
qed


definition itemOf :: "'s walk_plan \<Rightarrow> jstr \<Rightarrow> jstr \<Rightarrow> nat \<Rightarrow> jstr \<times> dir_tree \<Rightarrow> walk_entry option" where
  "itemOf wp dir rel depth c =
     (if treeKind (snd c) = Symbolic_link \<and> wpSymlinks wp = Skip_links then None
      else Some (treeEntry dir rel depth (fst c) (treeKind (snd c))))"

lemma admit_served:
  fixes c :: "jstr \<times> dir_tree"
  assumes "answers rem (wpInclude wp) included" "answers rem (wpDescend wp) descend" "wpSymlinks wp \<noteq> Follow_links"
    and "wdDir frame = dir" "wdRelative frame = rel" "wdDepth frame = depth"
  defines "e \<equiv> treeEntry dir rel depth (fst c) (treeKind (snd c))"
  shows "\<exists>w. admitEntry io wp frame (direntOf c) st =
      (Inr (if treeKind (snd c) = Directory \<and> inDepth wp (depth + 1) \<and> descend e then Some e else None),
       st\<lparr>wsScanned := wsScanned st + 1, wsEntries := wsEntries st @ reported included [itemOf wp dir rel depth c], wsWorld := w\<rparr>) \<and>
    rem w = rem (wsWorld st)"
proof -
  let ?k = "treeKind (snd c)"
  let ?s = "st\<lparr>wsScanned := wsScanned st + 1\<rparr>"
  have kind: "resolveKind io (childPath dir (fst c)) (direntOf c) (wpSymlinks wp) ?s =
      (Inr (map_option weKind (itemOf wp dir rel depth c)), ?s)"
    using assms(3) by (auto simp: resolveKind_def itemOf_def direntOf_def returnS_def treeEntry_def split: walk_symlinks.split)
  obtain x w1 where x: "wpInclude wp e (wsWorld st) = (Inr x, w1)" "answered x = included e" "rem w1 = rem (wsWorld st)"
    using assms(1) unfolding answers_def by blast
  obtain y w2 where y: "wpDescend wp e w1 = (Inr y, w2)" "answered y = descend e" "rem w2 = rem w1"
    using assms(2) unfolding answers_def by blast
  have depth: "(case wpMaxDepth wp of None \<Rightarrow> True | Some m \<Rightarrow> depth < m) \<longleftrightarrow> inDepth wp (depth + 1)"
    by (auto simp: inDepth_iff split: option.split)
  have dirent: "deName (direntOf c) = fst c" by (simp add: direntOf_def)
  let ?after = "\<lambda>kind. case kind of None \<Rightarrow> returnS None
    | Some k \<Rightarrow>
        let entry = \<lparr>weName = fst c, wePath = childPath dir (fst c), weRelative = childRelative rel (fst c), weDepth = depth, weKind = k\<rparr>
        in bindS (onWorld (wpInclude wp entry)) (\<lambda>included.
           bindS (if answered included then updateS (\<lambda>st. st\<lparr>wsEntries := wsEntries st @ [entry]\<rparr>) else returnS ()) (\<lambda>_.
             if k = Directory \<and> inDepth wp (depth + 1)
             then bindS (onWorld (wpDescend wp entry)) (\<lambda>descended. returnS (if answered descended then Some entry else None))
             else returnS None))"
  have start: "admitEntry io wp frame (direntOf c) st = ?after (map_option weKind (itemOf wp dir rel depth c)) ?s"
    unfolding admitEntry_def assms(4-6) dirent depth bind_update
      bind_run [where m = "resolveKind io (childPath dir (fst c)) (direntOf c) (wpSymlinks wp)", OF kind] ..
  show ?thesis
  proof (cases "itemOf wp dir rel depth c")
    case None
    moreover have "?k \<noteq> Directory" using None by (auto simp: itemOf_def split: if_splits)
    ultimately show ?thesis
      unfolding start by (intro exI [of _ "wsWorld st"]) (simp add: returnS_def reported_def List.map_filter_def)
  next
    case (Some item)
    then have k: "map_option weKind (itemOf wp dir rel depth c) = Some ?k" by (auto simp: itemOf_def treeEntry_def split: if_splits)
    have e: "\<lparr>weName = fst c, wePath = childPath dir (fst c), weRelative = childRelative rel (fst c), weDepth = depth, weKind = ?k\<rparr> = e"
      by (simp add: e_def treeEntry_def)
    have item: "itemOf wp dir rel depth c = Some e" using Some by (auto simp: itemOf_def e_def split: if_splits)
    define b where "b \<longleftrightarrow> ?k = Directory \<and> inDepth wp (depth + 1)"
    show ?thesis
      unfolding start k unfolding option.case Let_def e item b_def [symmetric]
      using x y by (cases b; intro exI [of _ "if b then w2 else w1"])
        (auto simp: b_def bindS_def on_world updateS_def returnS_def reported_def List.map_filter_def)
  qed
qed


lemma shouldStop_world [simp]: "shouldStop wp (st\<lparr>wsWorld := w\<rparr>) = shouldStop wp st"
  by (cases "wpMaxEntries wp") (simp_all add: shouldStop_def)

definition scannedOne ::
    "'s walk_plan \<Rightarrow> (walk_entry \<Rightarrow> bool) \<Rightarrow> jstr \<Rightarrow> jstr \<Rightarrow> nat \<Rightarrow> jstr \<times> dir_tree \<Rightarrow> 's walk_state \<Rightarrow> 's \<Rightarrow> 's walk_state" where
  "scannedOne wp included dir rel depth c st w =
     st\<lparr>wsScanned := wsScanned st + 1, wsEntries := wsEntries st @ reported included [itemOf wp dir rel depth c], wsWorld := w\<rparr>"

lemma scannedOne_fields [simp]:
  "wsTruncated (scannedOne wp included dir rel depth c st w) = wsTruncated st"
  "wsVisited (scannedOne wp included dir rel depth c st w) = wsVisited st"
  "wsWorld (scannedOne wp included dir rel depth c st w) = w"
  by (simp_all add: scannedOne_def)

lemma scannedOne_advanced:
  "\<not> wsTruncated st \<Longrightarrow> \<not> shouldStop wp st \<Longrightarrow>
   advanced wp included st [itemOf wp dir rel depth c] (scannedOne wp included dir rel depth c st w)"
  by (auto simp: advanced_def Let_def cut_def shouldStop_def scannedOne_def split: option.split)

lemma stop_run:
  assumes "servesHandles io rem" "left_of rem (wdListing frame) (d # ds) R (wsWorld st)" "shouldStop wp st"
  shows "\<exists>w. scanDirectory io h wp frame st = Some (Inr (), st\<lparr>wsTruncated := True, wsWorld := w\<rparr>) \<and> rem w = R"
proof -
  obtain l w where l: "nextDirent io (wdListing frame) st = (Inr (Some (d, l)), st\<lparr>wsWorld := w\<rparr>)" "left_of rem l ds R w"
    "closeFrame io h wp (frame\<lparr>wdListing := l\<rparr>) = closeFrame io h wp (frame\<lparr>wdListing := wdListing frame\<rparr>)"
    using next_left [OF assms(1,2)] by blast
  have "left_of rem l ds R (wsWorld (st\<lparr>wsWorld := w, wsTruncated := True\<rparr>))" using l(2) by simp
  from close_left [OF assms(1) this, of h wp frame] obtain v where
    v: "closeFrame io h wp frame (st\<lparr>wsWorld := w, wsTruncated := True\<rparr>) = (Inr (), st\<lparr>wsWorld := w, wsTruncated := True, wsWorld := v\<rparr>)"
      "rem v = R"
    using l(3) by auto
  have "walkStep io h wp frame st = Leave (Inr (), st\<lparr>wsTruncated := True, wsWorld := v\<rparr>)"
    using l(1) v(1) assms(3) by (simp add: walkStep_def finallyS_def updateS_def)
  then show ?thesis using v(2) by (auto simp: scanDirectory.simps)
qed

lemma end_run:
  assumes "servesHandles io rem" "left_of rem (wdListing frame) [] R (wsWorld st)"
  shows "\<exists>w. scanDirectory io h wp frame st = Some (Inr (), st\<lparr>wsWorld := w\<rparr>) \<and> rem w = R"
proof -
  obtain w where w: "nextDirent io (wdListing frame) st = (Inr None, st\<lparr>wsWorld := w\<rparr>)" "left_of rem (wdListing frame) [] R w"
    using next_none [OF assms] by blast
  have "left_of rem (wdListing frame) [] R (wsWorld (st\<lparr>wsWorld := w\<rparr>))" using w(2) by simp
  from close_left [OF assms(1) this, of h wp frame] obtain v where
    "closeFrame io h wp frame (st\<lparr>wsWorld := w\<rparr>) = (Inr (), st\<lparr>wsWorld := v\<rparr>)" "rem v = R" by auto
  then show ?thesis using w(1) by (auto simp: scanDirectory.simps walkStep_def)
qed

text \<open>An entry that is admitted, and what comes after it.\<close>

lemma entry_run:
  assumes "servesHandles io rem" "answers rem (wpInclude wp) included" "answers rem (wpDescend wp) descend" "wpSymlinks wp \<noteq> Follow_links"
    and "wdDir frame = dir" "wdRelative frame = rel" "wdDepth frame = depth"
    and "left_of rem (wdListing frame) (map direntOf (c # cs)) R (wsWorld st)" "\<not> shouldStop wp st"
  shows "\<exists>l w. left_of rem l (map direntOf cs) R w \<and>
    closeFrame io h wp (frame\<lparr>wdListing := l\<rparr>) = closeFrame io h wp frame \<and>
    walkStep io h wp frame st =
      (if treeKind (snd c) = Directory \<and> inDepth wp (depth + 1) \<and> descend (treeEntry dir rel depth (fst c) (treeKind (snd c)))
       then (case enterDirectory io h wp (childPath dir (fst c)) (childRelative rel (fst c)) (depth + 1)
                    (scannedOne wp included dir rel depth c st w) of
               (Inl e, t) \<Rightarrow> Leave (finallyS (throwS e) (closeFrame io h wp frame) t)
             | (Inr None, t) \<Rightarrow> Again (frame\<lparr>wdListing := l\<rparr>) t
             | (Inr (Some inner), t) \<Rightarrow> Descend inner (frame\<lparr>wdListing := l\<rparr>) t)
       else Again (frame\<lparr>wdListing := l\<rparr>) (scannedOne wp included dir rel depth c st w))"
proof -
  have l0: "left_of rem (wdListing frame) (direntOf c # map direntOf cs) R (wsWorld st)" using assms(8) by simp
  obtain l w where l: "nextDirent io (wdListing frame) st = (Inr (Some (direntOf c, l)), st\<lparr>wsWorld := w\<rparr>)"
    "left_of rem l (map direntOf cs) R w"
    "closeFrame io h wp (frame\<lparr>wdListing := l\<rparr>) = closeFrame io h wp (frame\<lparr>wdListing := wdListing frame\<rparr>)"
    using next_left [OF assms(1) l0] by blast
  define e where "e = treeEntry dir rel depth (fst c) (treeKind (snd c))"
  define b where "b \<longleftrightarrow> treeKind (snd c) = Directory \<and> inDepth wp (depth + 1) \<and> descend e"
  obtain v where v: "admitEntry io wp frame (direntOf c) (st\<lparr>wsWorld := w\<rparr>) =
      (Inr (if b then Some e else None), scannedOne wp included dir rel depth c st v)" "rem v = rem w"
    using admit_served [OF assms(2-7), of io c "st\<lparr>wsWorld := w\<rparr>"] unfolding e_def b_def by (auto simp: scannedOne_def)
  have e: "wePath e = childPath dir (fst c)" "weRelative e = childRelative rel (fst c)" by (simp_all add: e_def)
  show ?thesis
    unfolding e_def [symmetric] b_def [symmetric]
    using l(1,3) v left_of_same [OF l(2) v(2)] assms(7,9) e
    by (intro exI [of _ l] exI [of _ v]) (cases b; simp add: walkStep_def)
qed


subsection \<open>The whole tree\<close>

text \<open>The outcome of scanning the rest of a directory.\<close>

definition walked ::
    "('s, 'h) walk_io \<Rightarrow> host \<Rightarrow> 's walk_plan \<Rightarrow> ('s \<Rightarrow> 'h \<Rightarrow> dirent list option) \<Rightarrow> (walk_entry \<Rightarrow> bool) \<Rightarrow> 'h walk_frame \<Rightarrow>
     's walk_state \<Rightarrow> walk_entry option list \<Rightarrow> jstr set \<Rightarrow> ('h \<Rightarrow> dirent list option) \<Rightarrow> bool" where
  "walked io h wp rem included frame st its dirs R \<longleftrightarrow>
     (\<exists>t. scanDirectory io h wp frame st = Some (Inr (), t) \<and> advanced wp included st its t \<and>
        rem (wsWorld t) = R \<and> wsVisited t \<subseteq> wsVisited st \<union> dirs)"

lemma walked_again:
  assumes "walkStep io h wp frame st = Again rest u" "advanced wp included st [x] u" "\<not> wsTruncated u"
    and "wsVisited u = wsVisited st" "walked io h wp rem included rest u its dirs R"
  shows "walked io h wp rem included frame st (x # its) dirs R"
  using assms advanced_append [OF assms(2,3)]
  by (auto simp: walked_def scanDirectory.simps [of io h wp frame])

lemma walked_descend:
  assumes step: "walkStep io h wp frame st = Descend inner rest v" and one: "advanced wp included st [x] u" "\<not> wsTruncated u"
    and v: "wsVisited v \<subseteq> wsVisited st \<union> dirs" "\<And>its t. advanced wp included v its t \<Longrightarrow> advanced wp included u its t"
    and sub: "walked io h wp rem included inner v its1 dirs1 R1"
    and rest: "\<And>t. advanced wp included u its1 t \<Longrightarrow> \<not> wsTruncated t \<Longrightarrow> rem (wsWorld t) = R1 \<Longrightarrow>
        wsVisited t \<subseteq> wsVisited st \<union> dirs \<union> dirs1 \<Longrightarrow> walked io h wp rem included rest t its2 dirs2 R"
    and close: "\<And>t. rem (wsWorld t) = R1 \<Longrightarrow> \<exists>w. closeFrame io h wp frame t = (Inr (), t\<lparr>wsWorld := w\<rparr>) \<and> rem w = R"
  shows "walked io h wp rem included frame st (x # its1 @ its2) (dirs \<union> dirs1 \<union> dirs2) R"
proof -
  obtain t where t: "scanDirectory io h wp inner v = Some (Inr (), t)" "advanced wp included v its1 t" "rem (wsWorld t) = R1"
    "wsVisited t \<subseteq> wsVisited v \<union> dirs1"
    using sub by (auto simp: walked_def)
  have a: "advanced wp included st ([x] @ its1) t" by (rule advanced_append [OF one v(2) [OF t(2)]])
  have vis: "wsVisited t \<subseteq> wsVisited st \<union> dirs \<union> dirs1" using t(4) v(1) by blast
  show ?thesis
  proof (cases "wsTruncated t")
    case True
    obtain w where w: "closeFrame io h wp frame t = (Inr (), t\<lparr>wsWorld := w\<rparr>)" "rem w = R" using close [OF t(3)] by blast
    have "advanced wp included st (x # its1 @ its2) (t\<lparr>wsWorld := w\<rparr>)" using advanced_stop [OF a True, of its2] by simp
    moreover have "scanDirectory io h wp frame st = Some (Inr (), t\<lparr>wsWorld := w\<rparr>)"
      using step t(1) True w(1) by (simp add: scanDirectory.simps [of io h wp frame])
    ultimately show ?thesis unfolding walked_def using w(2) vis by auto
  next
    case False
    obtain t' where t': "scanDirectory io h wp rest t = Some (Inr (), t')" "advanced wp included t its2 t'" "rem (wsWorld t') = R"
      "wsVisited t' \<subseteq> wsVisited t \<union> dirs2"
      using rest [OF v(2) [OF t(2)] False t(3) vis] by (auto simp: walked_def)
    have "advanced wp included st (x # its1 @ its2) t'" using advanced_append [OF a False t'(2)] by simp
    moreover have "scanDirectory io h wp frame st = Some (Inr (), t')"
      using step t(1) False t'(1) by (simp add: scanDirectory.simps [of io h wp frame])
    ultimately show ?thesis unfolding walked_def using t'(3,4) vis by blast
  qed
qed


lemma walked_stop:
  assumes "servesHandles io rem" "left_of rem (wdListing frame) (d # ds) R (wsWorld st)" "shouldStop wp st" "its \<noteq> []"
  shows "walked io h wp rem included frame st its dirs R"
  using stop_run [OF assms(1-3)] advanced_full [OF assms(3,4)] by (fastforce simp: walked_def)

lemma walked_mono: "walked io h wp rem included frame st its dirs R \<Longrightarrow> dirs \<subseteq> dirs' \<Longrightarrow> walked io h wp rem included frame st its dirs' R"
  by (fastforce simp: walked_def)

lemma disjoint_grown: "T \<subseteq> V \<union> {x} \<union> B \<Longrightarrow> A \<inter> V = {} \<Longrightarrow> x \<notin> A \<Longrightarrow> B \<inter> A = {} \<Longrightarrow> A \<inter> T = {}"
  by blast

lemma scan_items:
  assumes "servesHandles io rem" "answers rem (wpInclude wp) included" "answers rem (wpDescend wp) descend" "wpSymlinks wp \<noteq> Follow_links"
  shows "servesBelow io rem canon dir cs \<Longrightarrow> inj_on canon (set (folderPaths dir cs)) \<Longrightarrow> distinct (folderPaths dir cs) \<Longrightarrow>
    canon ` set (folderPaths dir cs) \<inter> wsVisited st = {} \<Longrightarrow> \<not> wsTruncated st \<Longrightarrow>
    wdDir frame = dir \<Longrightarrow> wdRelative frame = rel \<Longrightarrow> wdDepth frame = depth \<Longrightarrow>
    left_of rem (wdListing frame) (map direntOf cs) R (wsWorld st) \<Longrightarrow>
    walked io h wp rem included frame st (preorder wp descend dir rel depth cs) (canon ` set (folderPaths dir cs)) R"
proof (induction dir cs arbitrary: rel depth frame st R rule: folderPaths.induct)
  case (1 dir)
  have l: "left_of rem (wdListing frame) [] R (wsWorld st)" using 1 by simp
  obtain w where w: "scanDirectory io h wp frame st = Some (Inr (), st\<lparr>wsWorld := w\<rparr>)" "rem w = R"
    using end_run [OF assms(1) l, of h wp] by blast
  then show ?case using advanced_nil [of st] 1 by (auto simp: walked_def)
next
  case (2 dir name kind cs)
  show ?case
  proof (cases "shouldStop wp st")
    case True
    then show ?thesis using 2 walked_stop [OF assms(1)] by simp
  next
    case False
    let ?c = "(name, Leaf kind)"
    obtain l w where l: "left_of rem l (map direntOf cs) R w"
      "walkStep io h wp frame st = Again (frame\<lparr>wdListing := l\<rparr>) (scannedOne wp included dir rel depth ?c st w)"
      using entry_run [OF assms 2(7,8,9) 2(10) False, of h] 2(2) by (simp add: treeKind_def) blast
    have "preorder wp descend dir rel depth (?c # cs) = itemOf wp dir rel depth ?c # preorder wp descend dir rel depth cs"
      by (simp add: itemOf_def treeKind_def)
    moreover have "walked io h wp rem included (frame\<lparr>wdListing := l\<rparr>) (scannedOne wp included dir rel depth ?c st w)
        (preorder wp descend dir rel depth cs) (canon ` set (folderPaths dir cs)) R"
      using 2 l(1) by (intro "2.IH") simp_all
    ultimately show ?thesis
      using walked_again [OF l(2) scannedOne_advanced [OF _ False]] 2(6) by simp
  qed
next
  case (3 dir name inner cs)
  show ?case
  proof (cases "shouldStop wp st")
    case True
    then show ?thesis using 3 walked_stop [OF assms(1)] by simp
  next
    case False
    let ?c = "(name, Folder inner)"
    let ?e = "treeEntry dir rel depth name Directory"
    let ?p = "childPath dir name"
    obtain l w where l: "left_of rem l (map direntOf cs) R w"
      "closeFrame io h wp (frame\<lparr>wdListing := l\<rparr>) = closeFrame io h wp frame"
      "walkStep io h wp frame st = (if inDepth wp (depth + 1) \<and> descend ?e
         then (case enterDirectory io h wp ?p (childRelative rel name) (depth + 1) (scannedOne wp included dir rel depth ?c st w) of
               (Inl e, t) \<Rightarrow> Leave (finallyS (throwS e) (closeFrame io h wp frame) t)
             | (Inr None, t) \<Rightarrow> Again (frame\<lparr>wdListing := l\<rparr>) t
             | (Inr (Some inner), t) \<Rightarrow> Descend inner (frame\<lparr>wdListing := l\<rparr>) t)
         else Again (frame\<lparr>wdListing := l\<rparr>) (scannedOne wp included dir rel depth ?c st w))"
      using entry_run [OF assms 3(8,9,10) 3(11) False, of h]
      unfolding treeKind_def fst_conv snd_conv dir_tree.case by simp blast
    have item: "itemOf wp dir rel depth ?c = Some ?e" by (simp add: itemOf_def treeKind_def)
    let ?u = "scannedOne wp included dir rel depth ?c st w"
    have one: "advanced wp included st [Some ?e] ?u" using scannedOne_advanced [OF 3(7) False] item by metis
    have rest: "walked io h wp rem included (frame\<lparr>wdListing := l\<rparr>) t (preorder wp descend dir rel depth cs)
        (canon ` set (folderPaths dir cs)) R"
      if "\<not> wsTruncated t" "left_of rem l (map direntOf cs) R (wsWorld t)" "canon ` set (folderPaths dir cs) \<inter> wsVisited t = {}" for t
      using 3 that by (intro "3.IH") (simp_all add: inj_on_Un)
    show ?thesis
    proof (cases "inDepth wp (depth + 1) \<and> descend ?e")
      case False
      have step: "walkStep io h wp frame st = Again (frame\<lparr>wdListing := l\<rparr>) ?u" using l(3) by (simp only: if_not_P [OF False])
      have "canon ` set (folderPaths dir cs) \<inter> wsVisited ?u = {}" using 3(6) by auto
      then have "walked io h wp rem included (frame\<lparr>wdListing := l\<rparr>) ?u (preorder wp descend dir rel depth cs)
          (canon ` set (folderPaths dir cs)) R"
        using 3(7) l(1) by (intro rest) simp_all
      then have "walked io h wp rem included frame st (Some ?e # preorder wp descend dir rel depth cs) (canon ` set (folderPaths dir cs)) R"
        using walked_again [OF step one] 3(7) by simp
      then show ?thesis using False by (auto intro: walked_mono)
    next
      case True
      have serves: "servesDirectory io rem canon ?p (map direntOf inner)" using 3(3) by simp
      have new: "canon ?p \<notin> wsVisited ?u" using 3(6) by simp
      obtain l1 w1 where e: "enterDirectory io h wp ?p (childRelative rel name) (depth + 1) ?u =
          (Inr (Some \<lparr>wdDir = ?p, wdRelative = childRelative rel name, wdDepth = depth + 1, wdListing = l1\<rparr>),
           ?u\<lparr>wsVisited := insert (canon ?p) (wsVisited ?u), wsWorld := w1\<rparr>)"
        "left_of rem l1 (map direntOf inner) (rem w) w1"
        using enter_served [OF serves new, of wp "depth + 1" h "childRelative rel name"] True by (simp only: scannedOne_fields) blast
      let ?f = "\<lparr>wdDir = ?p, wdRelative = childRelative rel name, wdDepth = depth + 1, wdListing = l1\<rparr>"
      let ?v = "?u\<lparr>wsVisited := insert (canon ?p) (wsVisited ?u), wsWorld := w1\<rparr>"
      have apart: "canon ?p \<notin> canon ` set (folderPaths ?p inner)" "canon ?p \<notin> canon ` set (folderPaths dir cs)"
        "canon ` set (folderPaths ?p inner) \<inter> canon ` set (folderPaths dir cs) = {}"
        using 3(4,5) by (auto simp: inj_on_def)
      have sub: "walked io h wp rem included ?f ?v (preorder wp descend ?p (childRelative rel name) (depth + 1) inner)
          (canon ` set (folderPaths ?p inner)) (rem w)"
      proof (rule "3.IH")
        show "canon ` set (folderPaths ?p inner) \<inter> wsVisited ?v = {}" using 3(6) apart(1) by auto
        show "left_of rem (wdListing ?f) (map direntOf inner) (rem w) (wsWorld ?v)" using e(2) by simp
        show "inj_on canon (set (folderPaths ?p inner))" using 3(4) by (auto simp: inj_on_def)
      qed (use 3 True in simp_all)
      have "walked io h wp rem included frame st
          (Some ?e # preorder wp descend ?p (childRelative rel name) (depth + 1) inner @ preorder wp descend dir rel depth cs)
          ({canon ?p} \<union> canon ` set (folderPaths ?p inner) \<union> canon ` set (folderPaths dir cs)) R"
      proof (rule walked_descend [OF _ one _ _ _ sub])
        show "walkStep io h wp frame st = Descend ?f (frame\<lparr>wdListing := l\<rparr>) ?v" using l(3) True e(1) by simp
        show "\<not> wsTruncated ?u" using 3(7) by simp
        show "wsVisited ?v \<subseteq> wsVisited st \<union> {canon ?p}" by auto
        show "advanced wp included ?v its t \<Longrightarrow> advanced wp included ?u its t" for its t by simp
        show "walked io h wp rem included (frame\<lparr>wdListing := l\<rparr>) t (preorder wp descend dir rel depth cs)
            (canon ` set (folderPaths dir cs)) R"
          if "\<not> wsTruncated t" "rem (wsWorld t) = rem w"
            "wsVisited t \<subseteq> wsVisited st \<union> {canon ?p} \<union> canon ` set (folderPaths ?p inner)" for t
        proof (rule rest [OF that(1) left_of_same [OF l(1) that(2)]])
          have "canon ` set (folderPaths dir cs) \<inter> wsVisited st = {}" using 3(6) by auto
          from disjoint_grown [OF that(3) this apart(2,3)]
          show "canon ` set (folderPaths dir cs) \<inter> wsVisited t = {}" .
        qed
        show "\<exists>w'. closeFrame io h wp frame t = (Inr (), t\<lparr>wsWorld := w'\<rparr>) \<and> rem w' = R" if "rem (wsWorld t) = rem w" for t
          using close_left [OF assms(1) left_of_same [OF l(1) that], of h wp frame] l(2) by simp
      qed
      then show ?thesis using True by (auto intro: walked_mono)
    qed
  qed
qed


text \<open>C22: over a tree at rest the walk reports exactly the preorder. Where the links are not followed and the
  callbacks only look at the entry, the scanned entries are the preorder of the tree as far as the depth
  and the descend callback let it go, up to the budget of entries; those reported are the ones the include
  callback takes, each link left out or taken as the policy says; the walk is truncated exactly when there
  was more, and no directory failed, whether directories are listed at once or read one entry at a time.
  The hypotheses are that the file system serves the tree and that no two of its directories are one.\<close>

theorem walk_reports_preorder:
  assumes "posixHost h" and ok: "validateWalkOptions options = Inr policy" and "policy \<noteq> Follow_links"
    and "answers rem (woInclude options) included" "answers rem (woDescend options) descend"
    and "servesHandles io rem"
    and "servesDirectory io rem canon (posixResolve (cwd h) [startDir]) (map direntOf content)"
    and "servesBelow io rem canon (posixResolve (cwd h) [startDir]) content"
    and "distinct (map canon (posixResolve (cwd h) [startDir] # folderPaths (posixResolve (cwd h) [startDir]) content))"
  defines "wp \<equiv> walkPlan options policy (posixResolve (cwd h) [startDir])"
  defines "all \<equiv> (if inDepth wp 1 then preorder wp descend (posixResolve (cwd h) [startDir]) [] 1 content else [])"
  defines "scanned \<equiv> cut (budgetOf (woMaxEntries options)) 0 all"
  shows "\<exists>st. walkDirectory io h options startDir s = Some (Inr (), st) \<and> wsScanned st = length scanned \<and>
    wsEntries st = reported included scanned \<and> (wsTruncated st \<longleftrightarrow> length scanned < length all) \<and> wsFailed st = []"
proof -
  let ?root = "posixResolve (cwd h) [startDir]"
  have root: "resolvePathPreservingWindowsRoot h startDir = ?root" using assms(1) by (rule resolvePathPreserving_posix)
  have wp: "answers rem (wpInclude wp) included" "answers rem (wpDescend wp) descend" "wpSymlinks wp \<noteq> Follow_links"
    using assms(3-5) by (simp_all add: wp_def)
  show ?thesis
  proof (cases "inDepth wp 1")
    case True
    obtain l w where e: "enterDirectory io h wp ?root [] 1 (emptyWalk s) =
        (Inr (Some \<lparr>wdDir = ?root, wdRelative = [], wdDepth = 1, wdListing = l\<rparr>),
         (emptyWalk s)\<lparr>wsVisited := insert (canon ?root) (wsVisited (emptyWalk s)), wsWorld := w\<rparr>)"
      "left_of rem l (map direntOf content) (rem (wsWorld (emptyWalk s))) w"
      using enter_served [OF assms(7), of "emptyWalk s" wp 1 h "[]"] True by (auto simp: emptyWalk_def)
    let ?st = "(emptyWalk s)\<lparr>wsVisited := insert (canon ?root) (wsVisited (emptyWalk s)), wsWorld := w\<rparr>"
    have "walked io h wp rem included \<lparr>wdDir = ?root, wdRelative = [], wdDepth = 1, wdListing = l\<rparr> ?st
        (preorder wp descend ?root [] 1 content) (canon ` set (folderPaths ?root content)) (rem (wsWorld (emptyWalk s)))"
      using e(2) assms(9)
      by (intro scan_items [OF assms(6) wp assms(8)]) (auto simp: emptyWalk_def distinct_map)
    then obtain st where st: "scanDirectory io h wp \<lparr>wdDir = ?root, wdRelative = [], wdDepth = 1, wdListing = l\<rparr> ?st = Some (Inr (), st)"
      "advanced wp included ?st (preorder wp descend ?root [] 1 content) st" by (auto simp: walked_def)
    have "walkDirectory io h options startDir s = Some (Inr (), st)"
      using ok root e(1) st(1) by (simp add: walkDirectory_def wp_def)
    moreover have "advanced wp included (emptyWalk s) all st" using st(2) True by (simp add: all_def)
    ultimately show ?thesis by (auto simp: advanced_def Let_def emptyWalk_def scanned_def wp_def)
  next
    case False
    then have "enterDirectory io h wp ?root [] 1 (emptyWalk s) = (Inr None, emptyWalk s)"
      by (auto simp: enterDirectory_def inDepth_iff returnS_def split: option.split)
    then have "walkDirectory io h options startDir s = Some (Inr (), emptyWalk s)"
      using ok root by (simp add: walkDirectory_def wp_def)
    then show ?thesis using False
      by (simp add: scanned_def all_def cut_def emptyWalk_def reported_def List.map_filter_def split: option.split)
  qed
qed


subsection \<open>Disks to run on\<close>

text \<open>The contents of a small tree by path. Open directories are numbered; a world maps them to what is left.\<close>

definition demoContent :: dir_content where
  "demoContent =
     [(js ''a'', Leaf Regular_file), (js ''d'', Folder [(js ''l'', Leaf Symbolic_link), (js ''y'', Leaf Regular_file)]),
      (js ''z'', Leaf Regular_file)]"

definition demoListing :: "jstr \<Rightarrow> dirent list option" where
  "demoListing p =
     (if p = js ''/srv'' then Some (map direntOf demoContent)
      else if p = js ''/srv/d'' then Some (map direntOf [(js ''l'', Leaf Symbolic_link), (js ''y'', Leaf Regular_file)])
      else None)"

type_synonym demo_world = "(nat \<Rightarrow> dirent list option) \<times> nat"

definition demoLeft :: "demo_world \<Rightarrow> nat \<Rightarrow> dirent list option" where
  "demoLeft s = (\<lambda>handle. if handle < snd s then fst s handle else None)"

definition demoDisk :: "(demo_world, nat) walk_io" where
  "demoDisk =
     \<lparr>wiIsLink = (\<lambda>p s. (Inr False, s)), wiRealpath = (\<lambda>p s. (Inr p, s)),
      wiReaddir = (\<lambda>p s. (case demoListing p of None \<Rightarrow> Inl (NodeErr ''ENOENT'') | Some ds \<Rightarrow> Inr ds, s)),
      wiOpendir = (\<lambda>p s. case demoListing p of None \<Rightarrow> (Inl (NodeErr ''ENOENT''), s)
                         | Some ds \<Rightarrow> (Inr (snd s), ((fst s)(snd s \<mapsto> ds), snd s + 1))),
      wiRead = (\<lambda>handle s. case demoLeft s handle of Some (d # ds) \<Rightarrow> (Inr (Some d), ((fst s)(handle \<mapsto> ds), snd s)) | _ \<Rightarrow> (Inr None, s)),
      wiClose = (\<lambda>handle s. (Inr (), ((fst s)(handle := None), snd s))),
      wiStat = (\<lambda>p s. (Inr Regular_file, s))\<rparr>"

definition demoOptions :: "nat option \<Rightarrow> nat option \<Rightarrow> 's walk_options" where
  "demoOptions depth entries =
     \<lparr>woMaxDepth = map_option (\<lambda>n. Finite (of_nat n)) depth, woMaxEntries = map_option (\<lambda>n. Finite (of_nat n)) entries,
      woSymlinks = None, woInclude = (\<lambda>_ s. (Inr None, s)), woDescend = (\<lambda>_ s. (Inr None, s))\<rparr>"

lemma demo_served:
  "servesHandles demoDisk demoLeft" "servesDirectory demoDisk demoLeft id (js ''/srv'') (map direntOf demoContent)"
  "servesBelow demoDisk demoLeft id (js ''/srv'') demoContent"
  "answers demoLeft (woInclude (demoOptions m n)) (\<lambda>_. True)" "answers demoLeft (woDescend (demoOptions m n)) (\<lambda>_. True)"
proof -
  have serves: "servesDirectory demoDisk demoLeft id p ds" if "demoListing p = Some ds" for p ds
    using that by (auto simp: servesDirectory_def demoDisk_def demoLeft_def fun_eq_iff)
  show "servesHandles demoDisk demoLeft"
    by (auto simp: servesHandles_def demoDisk_def demoLeft_def fun_eq_iff split: if_splits)
  show "servesDirectory demoDisk demoLeft id (js ''/srv'') (map direntOf demoContent)"
    by (rule serves) (simp add: demoListing_def)
  have path: "childPath (js ''/srv'') (js ''d'') = js ''/srv/d''" "js ''/srv/d'' \<noteq> js ''/srv''" by code_simp+
  have "servesDirectory demoDisk demoLeft id (js ''/srv/d'') (map direntOf [(js ''l'', Leaf Symbolic_link), (js ''y'', Leaf Regular_file)])"
    by (rule serves) (simp only: demoListing_def path if_False if_True simp_thms)
  then show "servesBelow demoDisk demoLeft id (js ''/srv'') demoContent"
    by (simp only: demoContent_def servesBelow.simps path file_kind.distinct simp_thms)
  show "answers demoLeft (woInclude (demoOptions m n)) (\<lambda>_. True)" "answers demoLeft (woDescend (demoOptions m n)) (\<lambda>_. True)"
    by (auto simp: answers_def demoOptions_def answered_def)
qed

text \<open>A budget of four entries: the file, the directory, the link and the file below it; the last entry of
  the root is not scanned.\<close>

theorem walk_reports_preorder_witness:
  "\<exists>st. walkDirectory demoDisk demoHost (demoOptions None (Some 4)) (js ''/srv'') (\<lambda>_. None, 0) = Some (Inr (), st) \<and>
     wsScanned st = 4 \<and> map weRelative (wsEntries st) = [js ''a'', js ''d'', js ''d/y''] \<and> wsTruncated st \<and> wsFailed st = []"
proof -
  let ?options = "demoOptions None (Some 4) :: demo_world walk_options"
  let ?wp = "walkPlan ?options Skip_links (js ''/srv'')"
  have h: "posixHost demoHost" by code_simp
  have root: "posixResolve (cwd demoHost) [js ''/srv''] = js ''/srv''" by code_simp
  have ok: "validateWalkOptions ?options = Inr Skip_links" by code_simp
  have dirs: "distinct (map id (js ''/srv'' # folderPaths (js ''/srv'') demoContent))" by code_simp
  have run: "inDepth ?wp 1" "budgetOf (woMaxEntries ?options) = Some 4"
    by (simp_all add: inDepth_iff demoOptions_def budgetOf_def floorNum_def)
  define all where "all = preorder ?wp (\<lambda>_. True) (js ''/srv'') [] 1 demoContent"
  have "length (cut (Some 4) 0 all) = 4" "length all = 5"
    "map weRelative (reported (\<lambda>_. True) (cut (Some 4) 0 all)) = [js ''a'', js ''d'', js ''d/y'']"
    unfolding all_def by code_simp+
  note sizes = this
  let ?root = "posixResolve (cwd demoHost) [js ''/srv'']"
  have tree: "servesDirectory demoDisk demoLeft id ?root (map direntOf demoContent)" "servesBelow demoDisk demoLeft id ?root demoContent"
    "distinct (map id (?root # folderPaths ?root demoContent))"
    unfolding root by (rule demo_served(2) demo_served(3) dirs)+
  from walk_reports_preorder [OF h ok _ demo_served(4,5,1) tree, where s = "(\<lambda>_. None, 0)"]
  show ?thesis
    unfolding root if_P [OF run(1)] run(2) all_def [symmetric] using sizes by auto
qed


text \<open>A disk that makes up a directory inside every directory, for ever.\<close>

definition endlessDisk :: "(unit, nat) walk_io" where
  "endlessDisk =
     \<lparr>wiIsLink = (\<lambda>p s. (Inr False, s)), wiRealpath = (\<lambda>p s. (Inr p, s)),
      wiReaddir = (\<lambda>p s. (Inr [\<lparr>deName = js ''d'', deKind = Directory\<rparr>], s)), wiOpendir = (\<lambda>p s. (Inr 0, s)),
      wiRead = (\<lambda>handle s. (Inr (Some \<lparr>deName = js ''d'', deKind = Directory\<rparr>), s)), wiClose = (\<lambda>handle s. (Inr (), s)),
      wiStat = (\<lambda>p s. (Inr Directory, s))\<rparr>"

theorem walk_ends_witness:
  "(\<exists>result. walkDirectory endlessDisk demoHost (demoOptions None (Some 7)) (js ''/srv'') () = Some result) \<and>
   (\<exists>result. walkDirectory endlessDisk demoHost (demoOptions (Some 3) None) (js ''/srv'') () = Some result)"
  by (intro conjI walk_ends) (simp_all add: demoOptions_def)

theorem walk_keeps_to_budget_and_root_witness:
  "\<exists>r st. walkDirectory endlessDisk demoHost (demoOptions (Some 5) (Some 3)) (js ''/srv'') () = Some (r, st) \<and>
     wsScanned st \<le> 3 \<and> length (wsEntries st) \<le> 3 \<and>
     (\<forall>e \<in> set (wsEntries st). \<exists>segs. hostSegs demoHost (wePath e) = js ''srv'' # segs)"
proof -
  let ?options = "demoOptions (Some 5) (Some 3) :: unit walk_options"
  obtain r st where run: "walkDirectory endlessDisk demoHost ?options (js ''/srv'') () = Some (r, st)"
    using walk_ends [of ?options endlessDisk demoHost "js ''/srv''" "()"] by (auto simp: demoOptions_def)
  have "plainName (js ''d'')" by code_simp
  then have "wellNamed endlessDisk" by (auto simp: wellNamed_def endlessDisk_def)
  note kept = walk_keeps_to_budget_and_root [OF posixHost_demo this run]
  have "budgetOf (woMaxEntries ?options) = Some 3" "hostSegs demoHost (js ''/srv'') = [js ''srv'']"
    by (simp add: demoOptions_def budgetOf_def floorNum_def, code_simp)
  then show ?thesis using kept run by (intro exI [of _ r] exI [of _ st]) fastforce
qed

end
