(* ===== verification/StrictIdentity.thy ===== *)
theory StrictIdentity
  imports FileIdentity Errors
begin

text \<open>
  Strict file identity (\<open>src/strict-file-identity.ts\<close>): an observation is taken only when its device and
  inode are bigints, known, and those expected. An observation on Windows may not know a component, which
  is then zero; it is made once more, and what the first one knew must not be contradicted by the second.
  The code has a checker closure for the asynchronous callers and an inlined loop for the synchronous
  ones; both are modelled and agree. What is observed is of any type, with a function to its identity.
\<close>

definition fileIdentityMismatchError :: error where
  "fileIdentityMismatchError = throwFs Path_mismatch ''file identity changed or could not be verified''"

subsection \<open>The checker closure\<close>

text \<open>The components known so far. A check answers whether the observation was complete.\<close>

record known_identity =
  knownDev :: "int option"
  knownIno :: "int option"

definition nothingKnown :: known_identity where
  "nothingKnown = \<lparr>knownDev = None, knownIno = None\<rparr>"

definition checkField :: "platform \<Rightarrow> int option \<Rightarrow> stat_value \<Rightarrow> error + (int option \<times> bool)" where
  "checkField p known v =
     (case v of
        Num _ \<Rightarrow> Inl fileIdentityMismatchError
      | Big n \<Rightarrow>
          if p = Win32 \<and> n = 0 then Inr (known, False)
          else if known \<noteq> None \<and> known \<noteq> Some n then Inl fileIdentityMismatchError
          else Inr (Some n, True))"

definition identityCheckStep :: "platform \<Rightarrow> file_identity \<Rightarrow> known_identity \<Rightarrow> error + (known_identity \<times> bool)" where
  "identityCheckStep p i known =
     bindE (checkField p (knownDev known) (fiDev i)) (\<lambda>(dev, devComplete).
     bindE (checkField p (knownIno known) (fiIno i)) (\<lambda>(ino, inoComplete).
       Inr (\<lparr>knownDev = dev, knownIno = ino\<rparr>, devComplete \<and> inoComplete)))"

definition identityCheck :: "platform \<Rightarrow> file_identity option \<Rightarrow> error + known_identity" where
  "identityCheck p expected =
     (case expected of
        None \<Rightarrow> Inr nothingKnown
      | Some e \<Rightarrow> bindE (identityCheckStep p e nothingKnown) (\<lambda>(known, complete).
          if complete then Inr known else Inl fileIdentityMismatchError))"

fun inspectChecked ::
    "nat \<Rightarrow> platform \<Rightarrow> ('a \<Rightarrow> file_identity) \<Rightarrow> ('s, error, 'a) op \<Rightarrow> known_identity \<Rightarrow> ('s, error, 'a) op" where
  "inspectChecked 0 p idOf inspect known = throwS fileIdentityMismatchError"
| "inspectChecked (Suc n) p idOf inspect known =
     bindS inspect (\<lambda>stat.
     bindS (liftS (identityCheckStep p (idOf stat) known)) (\<lambda>(known', complete).
       if complete then returnS stat else inspectChecked n p idOf inspect known'))"

definition inspectFileIdentity ::
    "platform \<Rightarrow> ('a \<Rightarrow> file_identity) \<Rightarrow> ('s, error, 'a) op \<Rightarrow> file_identity option \<Rightarrow> ('s, error, 'a) op" where
  "inspectFileIdentity p idOf inspect expected =
     bindS (liftS (identityCheck p expected)) (inspectChecked 2 p idOf inspect)"

subsection \<open>The inlined loop\<close>

definition expectedKnown :: "platform \<Rightarrow> error \<Rightarrow> file_identity option \<Rightarrow> error + (int option \<times> int option)" where
  "expectedKnown p mismatch expected =
     (case expected of
        None \<Rightarrow> Inr (None, None)
      | Some e \<Rightarrow>
          (case fiDev e of
             Num _ \<Rightarrow> Inl mismatch
           | Big dev \<Rightarrow>
               (case fiIno e of
                  Num _ \<Rightarrow> Inl mismatch
                | Big ino \<Rightarrow>
                    if p = Win32 \<and> (dev = 0 \<or> ino = 0) then Inl mismatch else Inr (Some dev, Some ino))))"

fun inspectInlined ::
    "nat \<Rightarrow> platform \<Rightarrow> error \<Rightarrow> ('a \<Rightarrow> file_identity) \<Rightarrow> ('s, error, 'a) op \<Rightarrow> int option \<Rightarrow> int option \<Rightarrow>
     ('s, error, 'a) op" where
  "inspectInlined 0 p mismatch idOf inspect kd ki = throwS mismatch"
| "inspectInlined (Suc n) p mismatch idOf inspect kd ki =
     bindS inspect (\<lambda>stat.
       case fiDev (idOf stat) of
         Num _ \<Rightarrow> throwS mismatch
       | Big dev \<Rightarrow>
           if \<not> (p = Win32 \<and> dev = 0) \<and> kd \<noteq> None \<and> kd \<noteq> Some dev then throwS mismatch
           else (case fiIno (idOf stat) of
             Num _ \<Rightarrow> throwS mismatch
           | Big ino \<Rightarrow>
               if \<not> (p = Win32 \<and> ino = 0) \<and> ki \<noteq> None \<and> ki \<noteq> Some ino then throwS mismatch
               else if p = Win32 \<and> (dev = 0 \<or> ino = 0)
               then inspectInlined n p mismatch idOf inspect
                      (if dev = 0 then kd else Some dev) (if ino = 0 then ki else Some ino)
               else returnS stat))"

definition inspectFileIdentitySync ::
    "platform \<Rightarrow> error \<Rightarrow> ('a \<Rightarrow> file_identity) \<Rightarrow> ('s, error, 'a) op \<Rightarrow> file_identity option \<Rightarrow> ('s, error, 'a) op" where
  "inspectFileIdentitySync p mismatch idOf inspect expected =
     bindS (liftS (expectedKnown p mismatch expected))
       (\<lambda>(kd, ki). inspectInlined 2 p mismatch idOf inspect kd ki)"

subsection \<open>The two agree\<close>

lemma bindS_throw [simp]: "bindS (throwS e) f = throwS e"
  by (simp add: bindS_def throwS_def liftS_def)

lemma bindS_lift [simp]: "bindS (liftS (Inr x)) f = f x" "bindS (liftS (Inl e)) f = throwS e"
  by (auto simp: bindS_def throwS_def liftS_def)

lemma bindS_cong: "(\<And>x. f x = g x) \<Longrightarrow> bindS m f = bindS m g"
  by presburger

lemma inspect_step_agrees:
  "inspectChecked n p idOf inspect \<lparr>knownDev = kd, knownIno = ki\<rparr> =
   inspectInlined n p fileIdentityMismatchError idOf inspect kd ki"
proof (induction n arbitrary: p kd ki)
  case (Suc n)
  show ?case
    unfolding inspectChecked.simps inspectInlined.simps
  proof (rule bindS_cong)
    fix stat
    show "bindS (liftS (identityCheckStep p (idOf stat) \<lparr>knownDev = kd, knownIno = ki\<rparr>))
        (\<lambda>(known', complete). if complete then returnS stat else inspectChecked n p idOf inspect known') =
      (case fiDev (idOf stat) of
         Num _ \<Rightarrow> throwS fileIdentityMismatchError
       | Big dev \<Rightarrow>
           if \<not> (p = Win32 \<and> dev = 0) \<and> kd \<noteq> None \<and> kd \<noteq> Some dev then throwS fileIdentityMismatchError
           else (case fiIno (idOf stat) of
             Num _ \<Rightarrow> throwS fileIdentityMismatchError
           | Big ino \<Rightarrow>
               if \<not> (p = Win32 \<and> ino = 0) \<and> ki \<noteq> None \<and> ki \<noteq> Some ino then throwS fileIdentityMismatchError
               else if p = Win32 \<and> (dev = 0 \<or> ino = 0)
               then inspectInlined n p fileIdentityMismatchError idOf inspect
                      (if dev = 0 then kd else Some dev) (if ino = 0 then ki else Some ino)
               else returnS stat))"
      by (cases "fiDev (idOf stat)"; cases "fiIno (idOf stat)")
        (auto simp: identityCheckStep_def checkField_def Suc.IH)
  qed
qed simp

lemma expected_agrees:
  "identityCheck p expected =
   (case expectedKnown p fileIdentityMismatchError expected of
      Inl e \<Rightarrow> Inl e | Inr (kd, ki) \<Rightarrow> Inr \<lparr>knownDev = kd, knownIno = ki\<rparr>)"
  by (auto simp: identityCheck_def expectedKnown_def identityCheckStep_def checkField_def nothingKnown_def
      split: option.split stat_value.split)

text \<open>The inlined loop of the synchronous callers is the checker closure of the asynchronous ones.\<close>

theorem inspect_sync_agrees:
  "inspectFileIdentitySync p fileIdentityMismatchError idOf inspect expected = inspectFileIdentity p idOf inspect expected"
  by (cases "expectedKnown p fileIdentityMismatchError expected")
    (auto simp: inspectFileIdentitySync_def inspectFileIdentity_def expected_agrees inspect_step_agrees)

subsection \<open>What is learnt\<close>

definition settled :: "platform \<Rightarrow> file_identity \<Rightarrow> bool" where
  "settled p i \<longleftrightarrow> (\<exists>dev ino. i = \<lparr>fiDev = Big dev, fiIno = Big ino\<rparr> \<and> \<not> (p = Win32 \<and> (dev = 0 \<or> ino = 0)))"

lemma settled_same: "settled p i \<Longrightarrow> sameFileIdentityForCleanup p i i"
  by (auto simp: settled_def cleanup_identity_iff hasSafeFileIdentity_def isExactStatValue_def statNumber_def)

lemma inspectInlined_sound:
  "inspectInlined n p mismatch idOf inspect kd ki s = (Inr stat, t) \<Longrightarrow>
   \<exists>dev ino. idOf stat = \<lparr>fiDev = Big dev, fiIno = Big ino\<rparr> \<and> \<not> (p = Win32 \<and> (dev = 0 \<or> ino = 0)) \<and>
     (kd \<noteq> None \<longrightarrow> kd = Some dev) \<and> (ki \<noteq> None \<longrightarrow> ki = Some ino) \<and> (\<exists>r. inspect r = (Inr stat, t))"
proof (induction n arbitrary: kd ki s)
  case (Suc n)
  then obtain x r where x: "inspect s = (Inr x, r)" by (auto simp: bindS_ok)
  obtain dev ino where d: "fiDev (idOf x) = Big dev" "fiIno (idOf x) = Big ino"
    using Suc.prems x by (auto simp: bindS_ok split: stat_value.splits if_splits)
  show ?case
  proof (cases "p = Win32 \<and> (dev = 0 \<or> ino = 0)")
    case True
    then have "inspectInlined n p mismatch idOf inspect (if dev = 0 then kd else Some dev)
        (if ino = 0 then ki else Some ino) r = (Inr stat, t)"
      and k: "dev = 0 \<or> kd = None \<or> kd = Some dev" "ino = 0 \<or> ki = None \<or> ki = Some ino"
      using Suc.prems x d by (auto simp: bindS_ok split: if_splits)
    from Suc.IH [OF this(1)] k show ?thesis by (auto split: if_splits)
  next
    case False
    then have "stat = x" "t = r" "kd = None \<or> kd = Some dev" "ki = None \<or> ki = Some ino"
      using Suc.prems x d by (auto simp: bindS_ok split: if_splits)
    moreover have "idOf x = \<lparr>fiDev = Big dev, fiIno = Big ino\<rparr>" using d by (cases "idOf x") simp
    ultimately show ?thesis using False x by auto
  qed
qed simp

text \<open>Whatever is observed, and however it changes: an identity that is returned is known in full, and is
  the one expected.\<close>

lemma inspect_sound:
  assumes "inspectFileIdentitySync p mismatch idOf inspect expected s = (Inr stat, t)"
  shows "settled p (idOf stat) \<and> (\<forall>e. expected = Some e \<longrightarrow> idOf stat = e) \<and> (\<exists>r. inspect r = (Inr stat, t))"
proof -
  obtain kd ki where k: "expectedKnown p mismatch expected = Inr (kd, ki)"
    "inspectInlined 2 p mismatch idOf inspect kd ki s = (Inr stat, t)"
    using assms by (auto simp: inspectFileIdentitySync_def bindS_ok)
  from inspectInlined_sound [OF k(2)] obtain dev ino where i: "idOf stat = \<lparr>fiDev = Big dev, fiIno = Big ino\<rparr>"
    "\<not> (p = Win32 \<and> (dev = 0 \<or> ino = 0))" "kd \<noteq> None \<longrightarrow> kd = Some dev" "ki \<noteq> None \<longrightarrow> ki = Some ino"
    "\<exists>r. inspect r = (Inr stat, t)" by blast
  have "idOf stat = e" if "expected = Some e" for e
    using k(1) i(1,3,4) that
    by (cases e) (auto simp: expectedKnown_def split: stat_value.splits if_splits)
  then show ?thesis using i by (auto simp: settled_def)
qed

text \<open>On POSIX a single observation decides.\<close>

definition big :: "int \<Rightarrow> int \<Rightarrow> file_identity" where
  "big dev ino = \<lparr>fiDev = Big dev, fiIno = Big ino\<rparr>"

lemma inspect_posix:
  assumes "idOf = (\<lambda>x. big (d x) (i x))"
  shows "inspectFileIdentitySync Posix mismatch idOf inspect None = inspect"
    and "inspectFileIdentitySync Posix mismatch idOf inspect (Some (big dev ino)) =
      bindS inspect (\<lambda>x. if d x = dev \<and> i x = ino then returnS x else throwS mismatch)"
proof -
  have r: "bindS inspect (\<lambda>x. returnS x) = inspect"
    by (rule ext) (auto simp: bindS_def returnS_def split: prod.split sum.split)
  show "inspectFileIdentitySync Posix mismatch idOf inspect None = inspect"
    using r by (simp add: inspectFileIdentitySync_def expectedKnown_def numeral_2_eq_2 assms big_def)
  show "inspectFileIdentitySync Posix mismatch idOf inspect (Some (big dev ino)) =
      bindS inspect (\<lambda>x. if d x = dev \<and> i x = ino then returnS x else throwS mismatch)"
    by (auto simp: inspectFileIdentitySync_def expectedKnown_def numeral_2_eq_2 assms big_def intro!: bindS_cong)
qed

lemma inspect_keeps: "keeps I inspect \<Longrightarrow> keeps I (inspectFileIdentitySync p mismatch idOf inspect expected)"
proof -
  assume k: "keeps I inspect"
  have loop: "keeps I (inspectInlined n p mismatch idOf inspect kd ki)" for n kd ki
    by (induction n arbitrary: kd ki) (auto intro!: k keeps_bind split: stat_value.split)
  show ?thesis by (auto simp: inspectFileIdentitySync_def intro!: keeps_bind loop)
qed

end
