(* ===== verification/PathCase.thy ===== *)
theory PathCase
  imports RootPath StrictIdentity
begin

text \<open>
  Observing whether a directory tells ASCII case apart (\<open>src/path-case.ts\<close>, with the directory identities
  of \<open>src/directory-guard.ts\<close> and \<open>src/directory-entry-path.ts\<close>), on a POSIX host. Only the observation
  that writes nothing is modelled, the one the mutation policy makes: \<open>allowTemporaryProbe\<close> is false. The
  calls of the file system are a parameter and may answer anything at any time.
\<close>

record 's case_io = "'s root_io" +
  ioReaddir :: "jstr \<Rightarrow> ('s, error, jstr list) op"

subsection \<open>Identities of entries and directories\<close>

definition statIdentity :: "big_stat \<Rightarrow> file_identity" where
  "statIdentity stat = big (bsDev stat) (bsIno stat)"

definition exactLstat ::
    "('s, 'z) case_io_scheme \<Rightarrow> jstr \<Rightarrow> file_identity option \<Rightarrow> ('s, error, big_stat) op" where
  "exactLstat io pathname expected =
     inspectFileIdentitySync Posix fileIdentityMismatchError statIdentity (ioLstat io pathname) expected"

definition directoryEntryPath :: "jstr \<Rightarrow> jstr" where
  "directoryEntryPath dir =
     (if dir = [] \<or> last dir \<noteq> SLASH then dir
      else let rootLength = length (rawRoot dir);
               end = max rootLength (length (dropEndWhile (\<lambda>c. c = SLASH) dir))
           in if end = rootLength \<or> end = length dir then dir else take end dir)"

definition notDirectoryError :: error where
  "notDirectoryError = throwFs Not_file ''directory component must be a directory''"

definition inspectDirectoryIdentitySync ::
    "('s, 'z) case_io_scheme \<Rightarrow> jstr \<Rightarrow> file_identity option \<Rightarrow> ('s, error, big_stat) op" where
  "inspectDirectoryIdentitySync io dir expected =
     inspectFileIdentitySync Posix fileIdentityMismatchError statIdentity
       (bindS (ioLstat io (directoryEntryPath dir)) (\<lambda>stat.
          if bsKind stat \<noteq> Directory then throwS notDirectoryError else returnS stat)) expected"

definition assertDirectoryIdentitySync ::
    "('s, 'z) case_io_scheme \<Rightarrow> jstr \<Rightarrow> file_identity \<Rightarrow> jstr option \<Rightarrow> ('s, error, unit) op" where
  "assertDirectoryIdentitySync io observedPath expected expectedRealPath =
     bindS (inspectDirectoryIdentitySync io observedPath (Some expected)) (\<lambda>_.
       case expectedRealPath of
         None \<Rightarrow> returnS ()
       | Some wanted \<Rightarrow>
           bindS (ioRealpath io (directoryEntryPath observedPath)) (\<lambda>realPath.
             if realPath \<noteq> wanted then throwS (throwFs Path_mismatch ''directory changed during operation'')
             else returnS ()))"

subsection \<open>One entry\<close>

definition swapAsciiCase :: "jstr \<Rightarrow> jstr" where
  "swapAsciiCase name =
     map (\<lambda>c. if isAsciiLetter c then (if c = asciiLower c then asciiUpper c else asciiLower c) else c) name"

text \<open>What the entry of the other case says, when the first one is there.\<close>

definition probeAlternate ::
    "('s, 'z) case_io_scheme \<Rightarrow> jstr \<Rightarrow> jstr \<Rightarrow> bool \<Rightarrow> big_stat \<Rightarrow> ('s, error, bool option) op" where
  "probeAlternate io directory name bothListed original =
     tryS (bindS (exactLstat io (posixJoin [directory, swapAsciiCase name]) None) (\<lambda>other.
             let sameIdentity = sameFileIdentityForCleanup Posix (statIdentity original) (statIdentity other)
             in if sameIdentity \<or> bothListed
                then bindS (ioReaddir io directory) (\<lambda>currentNames.
                       let bothCurrent = (name \<in> set currentNames \<and> swapAsciiCase name \<in> set currentNames)
                       in returnS (if bothListed \<and> \<not> bothCurrent then None else Some (sameIdentity \<and> \<not> bothCurrent)))
                else returnS (Some False)))
       (\<lambda>e. returnS (if bothListed \<or> \<not> isNotFoundPathError e then None else Some False)) returnS"

definition probeEntry ::
    "('s, 'z) case_io_scheme \<Rightarrow> jstr \<Rightarrow> jstr list \<Rightarrow> jstr \<Rightarrow> ('s, error, bool option) op" where
  "probeEntry io directory names name =
     (let alternate = swapAsciiCase name; bothListed = (name \<in> set names \<and> alternate \<in> set names)
      in if alternate = name then returnS None
         else tryS (exactLstat io (posixJoin [directory, name]) None)
                (\<lambda>_. returnS None)
                (\<lambda>original.
                   bindS (probeAlternate io directory name bothListed original) (\<lambda>observed.
                     case observed of
                       None \<Rightarrow> returnS None
                     | Some b \<Rightarrow>
                         bindS (exactLstat io (posixJoin [directory, name]) (Some (statIdentity original)))
                           (\<lambda>_. returnS (Some b)))))"

subsection \<open>A directory\<close>

text \<open>The names are a set, walked in the order of its insertions.\<close>

fun probeNames ::
    "('s, 'z) case_io_scheme \<Rightarrow> jstr \<Rightarrow> jstr list \<Rightarrow> jstr list \<Rightarrow> bool option \<Rightarrow> ('s, error, bool option) op" where
  "probeNames io canonical names [] observed = returnS observed"
| "probeNames io canonical names (name # rest) observed =
     (if observed \<noteq> None then returnS observed
      else bindS (probeEntry io canonical names name) (probeNames io canonical names rest))"

definition probeDirectory ::
    "('s, 'z) case_io_scheme \<Rightarrow> jstr \<Rightarrow> jstr option \<Rightarrow> ('s, error, bool option) op" where
  "probeDirectory io directory preferredName =
     bindS (ioRealpath io directory) (\<lambda>canonical.
     bindS (inspectDirectoryIdentitySync io canonical None) (\<lambda>identity.
     bindS (ioReaddir io canonical) (\<lambda>listed.
       let names = rev (remdups (rev listed))
       in bindS (case preferredName of None \<Rightarrow> returnS None | Some name \<Rightarrow> probeEntry io canonical names name) (\<lambda>observed.
          bindS (probeNames io canonical names names observed) (\<lambda>observed.
          bindS (assertDirectoryIdentitySync io canonical (statIdentity identity) None) (\<lambda>_.
          bindS (ioRealpath io directory) (\<lambda>again.
            returnS (if again = canonical then observed else None))))))))"

subsection \<open>The probe of a path\<close>

text \<open>The nearest ancestor that is a directory; an ancestor that cannot be read is passed over.\<close>

function nearestDirectory :: "('s, 'z) case_io_scheme \<Rightarrow> jstr \<Rightarrow> 's \<Rightarrow> jstr option \<times> 's" where
  "nearestDirectory io directory s =
     (case tryS (ioStat io directory) (\<lambda>_. returnS False) (\<lambda>stat. returnS (bsKind stat = Directory)) s of
        (Inr True, t) \<Rightarrow> (Some directory, t)
      | (_, t) \<Rightarrow>
          if posixDirname directory = directory then (None, t)
          else nearestDirectory io (posixDirname directory) t)"
  by pat_completeness auto
termination
  by (relation "measure (\<lambda>(_, directory, _). dirnameMeasure directory)") (auto intro: posixDirname_measure)

declare nearestDirectory.simps [simp del]

definition probeOrUnknown ::
    "('s, 'z) case_io_scheme \<Rightarrow> jstr \<Rightarrow> jstr option \<Rightarrow> ('s, error, bool option) op" where
  "probeOrUnknown io directory preferredName =
     tryS (probeDirectory io directory preferredName) (\<lambda>_. returnS None) returnS"

definition probePathCaseInsensitiveSync ::
    "('s, 'z) case_io_scheme \<Rightarrow> host \<Rightarrow> jstr \<Rightarrow> ('s, error, bool option) op" where
  "probePathCaseInsensitiveSync io h targetPath =
     (let resolved = pathResolve h [targetPath]
      in bindS (tryS (ioLstat io resolved)
                  (\<lambda>e. returnS (if \<not> isNotFoundPathError e then None else Some False)) (\<lambda>_. returnS (Some True)))
           (\<lambda>targetExists.
              case targetExists of
                None \<Rightarrow> returnS None
              | Some True \<Rightarrow> probeOrUnknown io (posixDirname resolved) (Some (posixBasename resolved))
              | Some False \<Rightarrow>
                  (\<lambda>s. case nearestDirectory io (posixDirname resolved) s of
                         (None, t) \<Rightarrow> (Inr None, t)
                       | (Some directory, t) \<Rightarrow> probeOrUnknown io directory None t)))"

subsection \<open>The probe at rest\<close>

text \<open>In a state at rest no call of the probe changes anything.\<close>

definition atRest :: "('s, 'z) case_io_scheme \<Rightarrow> 's \<Rightarrow> bool" where
  "atRest io s \<longleftrightarrow>
     (\<forall>p. snd (ioLstat io p s) = s) \<and> (\<forall>p. snd (ioStat io p s) = s) \<and>
     (\<forall>p. snd (ioRealpath io p s) = s) \<and> (\<forall>p. snd (ioReaddir io p s) = s)"

abbreviation still :: "'s \<Rightarrow> ('s, error, 'a) op \<Rightarrow> bool" where
  "still s \<equiv> keeps (\<lambda>t. t = s)"

lemma still_iff: "still s m \<longleftrightarrow> snd (m s) = s"
  by (auto simp: keeps_def triple_def split: prod.splits sum.splits)

lemma still_run: "still s m \<Longrightarrow> m s = (r, t) \<Longrightarrow> t = s"
  by (simp add: still_iff)

lemma atRest_calls [keeping]:
  assumes "atRest io s"
  shows "still s (ioLstat io p)" "still s (ioStat io p)" "still s (ioRealpath io p)" "still s (ioReaddir io p)"
  using assms by (simp_all add: atRest_def still_iff)

lemma exactLstat_posix:
  "exactLstat io p None = ioLstat io p"
  "exactLstat io p (Some (statIdentity st)) =
     bindS (ioLstat io p) (\<lambda>x. if bsDev x = bsDev st \<and> bsIno x = bsIno st then returnS x else throwS fileIdentityMismatchError)"
proof -
  have id: "statIdentity = (\<lambda>x. big (bsDev x) (bsIno x))" by (simp add: fun_eq_iff statIdentity_def)
  show "exactLstat io p None = ioLstat io p"
    "exactLstat io p (Some (statIdentity st)) =
       bindS (ioLstat io p) (\<lambda>x. if bsDev x = bsDev st \<and> bsIno x = bsIno st then returnS x else throwS fileIdentityMismatchError)"
    unfolding exactLstat_def statIdentity_def [of st] by (rule inspect_posix [OF id])+
qed

lemma still_exactLstat [keeping]: "atRest io s \<Longrightarrow> still s (exactLstat io p expected)"
  by (simp add: exactLstat_def inspect_keeps keeping)

lemma still_directory [keeping]: "atRest io s \<Longrightarrow> still s (inspectDirectoryIdentitySync io p expected)"
  by (auto simp: inspectDirectoryIdentitySync_def intro!: inspect_keeps keeping)

lemma still_assertDirectory [keeping]: "atRest io s \<Longrightarrow> still s (assertDirectoryIdentitySync io p expected wanted)"
  by (auto simp: assertDirectoryIdentitySync_def split: option.split intro!: keeping)

lemma still_probeAlternate [keeping]: "atRest io s \<Longrightarrow> still s (probeAlternate io directory name b st)"
  by (auto simp: probeAlternate_def Let_def intro!: keeping)

lemma still_probeEntry [keeping]: "atRest io s \<Longrightarrow> still s (probeEntry io directory names name)"
  by (auto simp: probeEntry_def Let_def split: option.split intro!: keeping)

lemma still_probeNames [keeping]: "atRest io s \<Longrightarrow> still s (probeNames io directory names rest observed)"
  by (induction rest arbitrary: observed) (auto intro!: keeping)

lemma still_probeDirectory [keeping]: "atRest io s \<Longrightarrow> still s (probeDirectory io directory preferred)"
  by (auto simp: probeDirectory_def Let_def split: option.split intro!: keeping)

lemma still_probeOrUnknown [keeping]: "atRest io s \<Longrightarrow> still s (probeOrUnknown io directory preferred)"
  by (auto simp: probeOrUnknown_def intro!: keeping)

text \<open>A directory that takes names of either ASCII case as one, and lists one of them; and a directory that
  has no entry but those it lists.\<close>

definition foldsAscii :: "('s, 'z) case_io_scheme \<Rightarrow> 's \<Rightarrow> jstr \<Rightarrow> bool" where
  "foldsAscii io s dir \<longleftrightarrow>
     (\<forall>n. SLASH \<notin> set n \<longrightarrow>
        fst (ioLstat io (posixJoin [dir, swapAsciiCase n]) s) = fst (ioLstat io (posixJoin [dir, n]) s)) \<and>
     (\<forall>ns. fst (ioReaddir io dir s) = Inr ns \<longrightarrow>
        (\<forall>n \<in> set ns. SLASH \<notin> set n \<and> (swapAsciiCase n \<noteq> n \<longrightarrow> swapAsciiCase n \<notin> set ns)))"

definition listsAll :: "('s, 'z) case_io_scheme \<Rightarrow> 's \<Rightarrow> jstr \<Rightarrow> bool" where
  "listsAll io s dir \<longleftrightarrow>
     (\<forall>ns. fst (ioReaddir io dir s) = Inr ns \<longrightarrow>
        (\<forall>n \<in> set ns. SLASH \<notin> set n) \<and>
        (\<forall>n st. SLASH \<notin> set n \<and> swapAsciiCase n \<noteq> n \<and> fst (ioLstat io (posixJoin [dir, n]) s) = Inr st \<longrightarrow>
           n \<in> set ns))"

lemma swap_char:
  "isAsciiLetter c \<Longrightarrow> asciiUpper (asciiLower c) = c \<or> asciiLower (asciiUpper c) = c"
  by (auto simp: isAsciiLetter_def asciiUpper_def asciiLower_def)

lemma swap_swap [simp]: "swapAsciiCase (swapAsciiCase n) = n"
  unfolding swapAsciiCase_def map_map
  by (rule map_idI) (auto simp: isAsciiLetter_def asciiUpper_def asciiLower_def)

lemma swap_slash [simp]: "SLASH \<in> set (swapAsciiCase n) \<longleftrightarrow> SLASH \<in> set n"
proof -
  have "(if isAsciiLetter c then (if c = asciiLower c then asciiUpper c else asciiLower c) else c) = SLASH \<longleftrightarrow> c = SLASH" for c
    by (auto simp: isAsciiLetter_def asciiUpper_def asciiLower_def)
  then show ?thesis unfolding swapAsciiCase_def set_map image_iff by metis
qed

lemma statIdentity_same [simp]: "sameFileIdentityForCleanup Posix (statIdentity st) (statIdentity st)"
  by (rule settled_same) (simp add: settled_def statIdentity_def big_def)

lemma atRest_run:
  assumes "atRest io s"
  shows "ioLstat io p s = (fst (ioLstat io p s), s)" "ioReaddir io p s = (fst (ioReaddir io p s), s)"
    "ioRealpath io p s = (fst (ioRealpath io p s), s)" "ioStat io p s = (fst (ioStat io p s), s)"
  using assms by (simp_all add: atRest_def prod_eq_iff)

text \<open>What an entry that answers has seen.\<close>

lemma probeEntry_seen:
  assumes rest: "atRest io s" and run: "probeEntry io dir names name s = (Inr (Some b), t)"
  obtains st where "swapAsciiCase name \<noteq> name" "fst (ioLstat io (posixJoin [dir, name]) s) = Inr st"
    "probeAlternate io dir name (name \<in> set names \<and> swapAsciiCase name \<in> set names) st s = (Inr (Some b), s)"
proof -
  have ne: "swapAsciiCase name \<noteq> name" using run by (auto simp: probeEntry_def Let_def)
  then obtain st where st: "ioLstat io (posixJoin [dir, name]) s = (Inr st, s)"
    using run atRest_run(1) [OF rest, of "posixJoin [dir, name]"]
    by (cases "fst (ioLstat io (posixJoin [dir, name]) s)")
      (auto simp: probeEntry_def Let_def tryS_def exactLstat_posix)
  have "probeAlternate io dir name (name \<in> set names \<and> swapAsciiCase name \<in> set names) st s = (Inr (Some b), s)"
    using run ne st still_run [OF still_probeAlternate [OF rest]]
    by (auto simp: probeEntry_def Let_def tryS_def exactLstat_posix bindS_ok split: option.splits)
  then show ?thesis using that ne st by simp
qed

lemma alternate_folds:
  assumes rest: "atRest io s" and folds: "foldsAscii io s dir" and listed: "fst (ioReaddir io dir s) = Inr listed"
    and "fst (ioLstat io (posixJoin [dir, name]) s) = Inr st" "SLASH \<notin> set name" "swapAsciiCase name \<noteq> name"
  shows "probeAlternate io dir name (name \<in> set listed \<and> swapAsciiCase name \<in> set listed) st s = (Inr (Some True), s)"
proof -
  have "\<not> (name \<in> set listed \<and> swapAsciiCase name \<in> set listed)"
    using folds listed assms(6) unfolding foldsAscii_def by blast
  moreover have "ioLstat io (posixJoin [dir, swapAsciiCase name]) s = (Inr st, s)"
    using folds assms(4,5) atRest_run(1) [OF rest, of "posixJoin [dir, swapAsciiCase name]"] by (simp add: foldsAscii_def)
  moreover have "ioReaddir io dir s = (Inr listed, s)" using listed atRest_run(2) [OF rest, of dir] by simp
  ultimately show ?thesis
    by (auto simp: probeAlternate_def tryS_def bindS_def exactLstat_posix Let_def returnS_def)
qed

lemma alternate_lists:
  assumes rest: "atRest io s" and all: "listsAll io s dir" and listed: "fst (ioReaddir io dir s) = Inr listed"
    and "fst (ioLstat io (posixJoin [dir, name]) s) = Inr st" "SLASH \<notin> set name" "swapAsciiCase name \<noteq> name"
  shows "probeAlternate io dir name both st s \<noteq> (Inr (Some True), t)"
proof
  assume a: "probeAlternate io dir name both st s = (Inr (Some True), t)"
  have l: "ioReaddir io dir s = (Inr listed, s)" using listed atRest_run(2) [OF rest, of dir] by simp
  obtain other where o: "fst (ioLstat io (posixJoin [dir, swapAsciiCase name]) s) = Inr other"
    and no: "\<not> (name \<in> set listed \<and> swapAsciiCase name \<in> set listed)"
    using a l atRest_run(1) [OF rest, of "posixJoin [dir, swapAsciiCase name]"]
    by (cases "fst (ioLstat io (posixJoin [dir, swapAsciiCase name]) s)")
      (auto simp: probeAlternate_def tryS_def bindS_def exactLstat_posix Let_def returnS_def split: if_splits)
  have "name \<in> set listed" using all listed assms(4-6) unfolding listsAll_def by blast
  moreover have "swapAsciiCase name \<in> set listed"
    using all listed o assms(5,6) unfolding listsAll_def by (metis swap_slash swap_swap)
  ultimately show False using no by blast
qed

text \<open>An answer agrees with how the directory treats case.\<close>

definition truthful :: "('s, 'z) case_io_scheme \<Rightarrow> 's \<Rightarrow> jstr \<Rightarrow> bool option \<Rightarrow> bool" where
  "truthful io s dir observed \<longleftrightarrow>
     (foldsAscii io s dir \<longrightarrow> observed \<noteq> Some False) \<and> (listsAll io s dir \<longrightarrow> observed \<noteq> Some True)"

lemma truthful_None [simp]: "truthful io s dir None"
  by (simp add: truthful_def)

lemma probeEntry_truthful:
  assumes "atRest io s" "fst (ioReaddir io dir s) = Inr listed" "set names = set listed" "SLASH \<notin> set name"
    and "probeEntry io dir names name s = (Inr observed, t)"
  shows "truthful io s dir observed"
proof (cases observed)
  case (Some b)
  from probeEntry_seen [OF assms(1) assms(5) [unfolded Some]] obtain st
    where st: "swapAsciiCase name \<noteq> name" "fst (ioLstat io (posixJoin [dir, name]) s) = Inr st"
      "probeAlternate io dir name (name \<in> set listed \<and> swapAsciiCase name \<in> set listed) st s = (Inr (Some b), s)"
    unfolding assms(3) .
  show ?thesis
    unfolding truthful_def Some
    using alternate_folds [OF assms(1) _ assms(2) st(2) assms(4) st(1)]
      alternate_lists [OF assms(1) _ assms(2) st(2) assms(4) st(1)] st(3) by (cases b) auto
qed simp

lemma probeNames_truthful:
  assumes "atRest io s" "fst (ioReaddir io dir s) = Inr listed" "set names = set listed"
  shows "probeNames io dir names rest observed s = (Inr result, t) \<Longrightarrow> \<forall>n \<in> set rest. SLASH \<notin> set n \<Longrightarrow>
    truthful io s dir observed \<Longrightarrow> truthful io s dir result"
proof (induction rest arbitrary: observed)
  case (Cons name rest)
  show ?case
  proof (cases observed)
    case None
    then obtain next_one u where n: "probeEntry io dir names name s = (Inr next_one, u)"
      "probeNames io dir names rest next_one u = (Inr result, t)"
      using Cons.prems(1) by (auto simp: bindS_ok)
    have "u = s" using still_run [OF still_probeEntry [OF assms(1)] n(1)] .
    moreover have "truthful io s dir next_one" using probeEntry_truthful [OF assms _ n(1)] Cons.prems(2) by simp
    ultimately show ?thesis using Cons.IH n(2) Cons.prems(2) by simp
  next
    case (Some b)
    then show ?thesis using Cons.prems by simp
  qed
qed simp

lemma probeDirectory_truthful:
  assumes "atRest io s" "probeDirectory io directory preferred s = (Inr observed, t)"
    and "\<forall>n. preferred = Some n \<longrightarrow> SLASH \<notin> set n"
  shows "\<exists>dir. fst (ioRealpath io directory s) = Inr dir \<and> (foldsAscii io s dir \<or> listsAll io s dir \<longrightarrow> truthful io s dir observed)"
proof -
  note calls = still_run [OF atRest_calls(3) [OF assms(1)]] still_run [OF atRest_calls(4) [OF assms(1)]]
    still_run [OF still_directory [OF assms(1)]]
  obtain dir u1 where r: "ioRealpath io directory s = (Inr dir, u1)" "u1 = s"
    using assms(2) calls by (auto simp: probeDirectory_def bindS_ok)
  obtain identity u2 where i: "inspectDirectoryIdentitySync io dir None s = (Inr identity, u2)" "u2 = s"
    using assms(2) r calls by (auto simp: probeDirectory_def bindS_ok)
  obtain listed u3 where l: "ioReaddir io dir s = (Inr listed, u3)" "u3 = s"
    using assms(2) r i calls by (auto simp: probeDirectory_def bindS_ok)
  define names where "names = rev (remdups (rev listed))"
  have names: "set names = set listed" by (simp add: names_def)
  have "\<exists>first u4. (case preferred of None \<Rightarrow> returnS None | Some name \<Rightarrow> probeEntry io dir names name) s = (Inr first, u4) \<and>
      (\<exists>result u5. probeNames io dir names names first u4 = (Inr result, u5) \<and> (observed = result \<or> observed = None))"
    using assms(2) r i l unfolding probeDirectory_def names_def
    by (simp only: bindS_ok Let_def prod.inject sum.inject) (auto simp: bindS_ok split: if_splits)
  then obtain first u4 where f: "(case preferred of None \<Rightarrow> returnS None | Some name \<Rightarrow> probeEntry io dir names name) s = (Inr first, u4)"
    and g: "\<exists>result u5. probeNames io dir names names first u4 = (Inr result, u5) \<and> (observed = result \<or> observed = None)"
    by blast
  have u4: "u4 = s" using f still_run [OF still_probeEntry [OF assms(1)]] by (cases preferred) auto
  have "truthful io s dir observed" if ok: "foldsAscii io s dir \<or> listsAll io s dir"
  proof -
    have slash: "\<forall>n \<in> set names. SLASH \<notin> set n"
      using ok l names by (auto simp: foldsAscii_def listsAll_def)
    have "truthful io s dir first"
      using f probeEntry_truthful [OF assms(1) _ names] assms(3) l by (cases preferred) auto
    then show ?thesis using g probeNames_truthful [OF assms(1) _ names] slash l u4 by auto
  qed
  then show ?thesis using r by auto
qed

subsection \<open>The directory that is asked\<close>

lemma posixBasename_slash: "SLASH \<notin> set (posixBasename p)"
  unfolding posixBasename_def lastPart_def by (auto dest: set_takeWhileD)

lemma nearestDirectory_rest:
  assumes "atRest io s"
  shows "nearestDirectory io p s =
    (if \<exists>st. fst (ioStat io p s) = Inr st \<and> bsKind st = Directory then (Some p, s)
     else if posixDirname p = p then (None, s) else nearestDirectory io (posixDirname p) s)"
proof (cases "fst (ioStat io p s)")
  case (Inl e)
  then have "ioStat io p s = (Inl e, s)" using atRest_run(4) [OF assms, of p] by simp
  then show ?thesis by (subst nearestDirectory.simps) (simp add: tryS_def returnS_def)
next
  case (Inr st)
  then have "ioStat io p s = (Inr st, s)" using atRest_run(4) [OF assms, of p] by simp
  then show ?thesis by (subst nearestDirectory.simps) (simp add: tryS_def returnS_def)
qed

lemma posixDirname_root [simp]: "posixDirname (absPath []) = absPath []"
  by (simp add: absPath_Nil posixDirname_def dropEndWhile_def)

lemma nearestDirectory_above:
  assumes "atRest io s"
  shows "wfSegs segs \<Longrightarrow> nearestDirectory io (absPath segs) s = (found, t) \<Longrightarrow>
    t = s \<and> (\<forall>p. found = Some p \<longrightarrow> (\<exists>k. p = absPath (take k segs)))"
proof (induction segs rule: rev_induct)
  case Nil
  then show ?case using nearestDirectory_rest [OF assms, of "absPath []"] by (auto split: if_splits)
next
  case (snoc seg segs)
  have up: "posixDirname (absPath (segs @ [seg])) = absPath segs" "wfSegs segs"
    using posixDirname_absPath [of "segs @ [seg]"] snoc.prems(1) by simp_all
  have here: "\<exists>k. absPath (segs @ [seg]) = absPath (take k (segs @ [seg]))"
    by (rule exI [of _ "length segs + 1"]) simp
  have upper: "\<exists>k. absPath (take j segs) = absPath (take k (segs @ [seg]))" for j
    by (cases "j \<le> length segs") (auto intro: exI [of _ "min j (length segs)"])
  have "found = Some (absPath (segs @ [seg])) \<and> t = s \<or> found = None \<and> t = s \<or>
      nearestDirectory io (absPath segs) s = (found, t)"
    using snoc.prems(2) nearestDirectory_rest [OF assms, of "absPath (segs @ [seg])"] up(1)
    by (auto split: if_splits)
  then show ?case using snoc.IH [OF up(2)] here upper by fastforce
qed

text \<open>An answer is true of the directory that the path asked about leads to.\<close>

definition answersFor :: "('s, 'z) case_io_scheme \<Rightarrow> 's \<Rightarrow> jstr \<Rightarrow> bool option \<Rightarrow> bool" where
  "answersFor io s directory observed \<longleftrightarrow>
     observed = None \<or>
     (\<exists>dir. fst (ioRealpath io directory s) = Inr dir \<and>
        (foldsAscii io s dir \<longrightarrow> observed = Some True) \<and> (listsAll io s dir \<longrightarrow> observed = Some False))"

lemma probeOrUnknown_answers:
  assumes rest: "atRest io s" and plain: "\<forall>n. preferred = Some n \<longrightarrow> SLASH \<notin> set n"
  shows "\<exists>observed. probeOrUnknown io directory preferred s = (Inr observed, s) \<and> answersFor io s directory observed"
proof (cases "probeDirectory io directory preferred s")
  case (Pair r t)
  have t: "t = s" using still_run [OF still_probeDirectory [OF rest] Pair] .
  show ?thesis
  proof (cases r)
    case (Inl e)
    then show ?thesis using Pair t by (simp add: probeOrUnknown_def tryS_def returnS_def answersFor_def)
  next
    case (Inr observed)
    then have "probeOrUnknown io directory preferred s = (Inr observed, s)"
      using Pair t by (simp add: probeOrUnknown_def tryS_def returnS_def)
    moreover obtain dir where "fst (ioRealpath io directory s) = Inr dir"
      "foldsAscii io s dir \<or> listsAll io s dir \<longrightarrow> truthful io s dir observed"
      using probeDirectory_truthful [OF rest Pair [unfolded Inr] plain] by blast
    ultimately show ?thesis by (cases observed) (auto simp: truthful_def answersFor_def)
  qed
qed

text \<open>The probe asks about the parent of a path that exists, and otherwise about the nearest directory.\<close>

lemma probe_asks:
  assumes "atRest io s" "pathResolve h [targetPath] = absPath segs" "wfSegs segs"
  shows "\<exists>observed. probePathCaseInsensitiveSync io h targetPath s = (Inr observed, s) \<and>
    (observed = None \<or> answersFor io s (absPath (butlast segs)) observed \<or>
     (\<exists>k. nearestDirectory io (absPath (butlast segs)) s = (Some (absPath (take k segs)), s) \<and>
        answersFor io s (absPath (take k segs)) observed))"
proof -
  have up: "posixDirname (absPath segs) = absPath (butlast segs)"
    using posixDirname_absPath [OF assms(3)] by (cases "segs = []") simp_all
  show ?thesis
  proof (cases "fst (ioLstat io (absPath segs) s)")
    case (Inl e)
    then have l: "ioLstat io (absPath segs) s = (Inl e, s)" using atRest_run(1) [OF assms(1), of "absPath segs"] by simp
    obtain found t where n: "nearestDirectory io (absPath (butlast segs)) s = (found, t)" by fastforce
    have f: "t = s" "\<forall>p. found = Some p \<longrightarrow> (\<exists>k. p = absPath (take k (butlast segs)))"
      using nearestDirectory_above [OF assms(1) wfSegs_butlast [OF assms(3)] n] by auto
    show ?thesis
    proof (cases "isNotFoundPathError e \<and> found \<noteq> None")
      case True
      then obtain k where "found = Some (absPath (take k (butlast segs)))" using f(2) by blast
      then obtain j where k: "found = Some (absPath (take j segs))" by (auto simp: butlast_conv_take)
      obtain observed where o: "probeOrUnknown io (absPath (take j segs)) None s = (Inr observed, s)"
        "answersFor io s (absPath (take j segs)) observed"
        using probeOrUnknown_answers [OF assms(1), of None] by auto
      have "probePathCaseInsensitiveSync io h targetPath s = (Inr observed, s)"
        using l n f(1) True assms(2) up k o(1)
        by (simp add: probePathCaseInsensitiveSync_def Let_def bindS_def tryS_def returnS_def)
      then show ?thesis using n k f(1) o(2) by blast
    next
      case False
      then show ?thesis
        using l n f(1) assms(2) up by (auto simp: probePathCaseInsensitiveSync_def Let_def bindS_def tryS_def returnS_def)
    qed
  next
    case (Inr st)
    then have l: "ioLstat io (absPath segs) s = (Inr st, s)" using atRest_run(1) [OF assms(1), of "absPath segs"] by simp
    obtain observed where "probeOrUnknown io (absPath (butlast segs)) (Some (posixBasename (absPath segs))) s = (Inr observed, s)"
      "answersFor io s (absPath (butlast segs)) observed"
      using probeOrUnknown_answers [OF assms(1), of "Some (posixBasename (absPath segs))"] posixBasename_slash by auto
    then show ?thesis using l assms(2) up by (auto simp: probePathCaseInsensitiveSync_def Let_def bindS_def tryS_def returnS_def)
  qed
qed

text \<open>Asked about a name in a directory, it answers about that directory.\<close>

lemma probe_child:
  assumes "atRest io s" "posixHost h" "wfSegs (dir @ [name])"
    and "fst (ioStat io (absPath dir) s) = Inr st" "bsKind st = Directory"
  shows "\<exists>observed. probePathCaseInsensitiveSync io h (posixJoin [absPath dir, name]) s = (Inr observed, s) \<and>
    answersFor io s (absPath dir) observed"
proof -
  have "pathResolve h [posixJoin [absPath dir, name]] = absPath (dir @ [name])"
    using assms(2) posixResolve_resolvedSegs [of "cwd h"] assms(3)
    by (simp add: posixJoin_child [OF assms(3)] pathResolve_posix posixHost_def del: wfSegs_snoc)
  moreover have "nearestDirectory io (absPath dir) s = (Some (absPath dir), s)"
    using nearestDirectory_rest [OF assms(1), of "absPath dir"] assms(4,5) by simp
  ultimately show ?thesis
    using probe_asks [OF assms(1) _ assms(3)] by (fastforce simp: answersFor_def)
qed


subsection \<open>A directory that takes either case\<close>

definition demoStat :: "jstr \<Rightarrow> error + big_stat" where
  "demoStat p =
     (if p = [SLASH] then Inr \<lparr>bsDev = 1, bsIno = 1, bsKind = Directory\<rparr>
      else if map asciiLower p = js ''/docs'' then Inr \<lparr>bsDev = 1, bsIno = 2, bsKind = Directory\<rparr>
      else Inl (NodeErr ''ENOENT''))"

definition caseDemo :: "unit case_io" where
  "caseDemo =
     \<lparr>ioLstat = (\<lambda>p. liftS (demoStat p)), ioReadlink = (\<lambda>p. throwS (NodeErr ''EINVAL'')),
      ioRealpath = (\<lambda>p. liftS (case demoStat p of Inl e \<Rightarrow> Inl e
        | Inr st \<Rightarrow> Inr (if p = [SLASH] then p else js ''/Docs''))),
      ioAccess = (\<lambda>p. returnS ()), ioStat = (\<lambda>p. liftS (demoStat p)),
      ioExists = (\<lambda>p s. (isOk (demoStat p), s)),
      ioReaddir = (\<lambda>p. liftS (if p = [SLASH] then Inr [js ''Docs''] else Inr []))\<rparr>"

lemma caseDemo_rest [simp]: "atRest caseDemo ()"
  by (simp add: atRest_def)

lemma lower_swap: "map asciiLower (swapAsciiCase n) = map asciiLower n"
  by (auto simp: swapAsciiCase_def asciiLower_def asciiUpper_def isAsciiLetter_def)

lemma swap_plain: "plainSeg n \<Longrightarrow> plainSeg (swapAsciiCase n)"
proof -
  have "swapAsciiCase [] = []" "swapAsciiCase [DOT] = [DOT]" "swapAsciiCase dotdot = dotdot" by code_simp+
  then show "plainSeg n \<Longrightarrow> plainSeg (swapAsciiCase n)" unfolding plainSeg_def by (metis swap_swap)
qed

lemma caseDemo_folds: "foldsAscii caseDemo () [SLASH]"
proof -
  have j: "posixJoin [[SLASH], n] = SLASH # n" if "plainSeg n" "SLASH \<notin> set n" for n
    using posixJoin_child [of "[]" n] that by (simp add: absPath_def wfSegs_def)
  have "demoStat (posixJoin [[SLASH], swapAsciiCase n]) = demoStat (posixJoin [[SLASH], n])" if n: "SLASH \<notin> set n" for n
  proof (cases "plainSeg n")
    case True
    then have "n \<noteq> []" "swapAsciiCase n \<noteq> []" using swap_plain [OF True] by auto
    then show ?thesis using j n True swap_plain [OF True] by (simp add: demoStat_def lower_swap)
  next
    case False
    then have "n = [] \<or> n = [DOT] \<or> n = dotdot" using plainSeg_cases by blast
    then have "swapAsciiCase n = n" by (elim disjE) (simp_all add: swapAsciiCase_def isAsciiLetter_def)
    then show ?thesis by simp
  qed
  moreover have "swapAsciiCase (js ''Docs'') \<noteq> js ''Docs''" "SLASH \<notin> set (js ''Docs'')" by code_simp+
  ultimately show ?thesis by (auto simp: foldsAscii_def caseDemo_def liftS_def)
qed


end
