(* ===== verification/MutationObservation.thy ===== *)
theory MutationObservation
  imports PathCase
begin

unbundle bit_operations_syntax

text \<open>
  Observations of a path that is about to be changed (\<open>src/pinned-mutation-observation.ts\<close>) on a POSIX
  host: the nearest ancestor that exists, where it really is, who it is, and the segments that are still
  missing below it. An observation is checked again before it is used, alone or together with others that
  share an ancestor, and it is advanced when a missing directory has been made. The calls of the file
  system are a parameter and may answer anything at any time.
\<close>

record mutation_identity =
  miDev :: int
  miIno :: int
  miMode :: int
  miNlink :: int

text \<open>\<open>ioEntry\<close> is \<open>lstat\<close> with bigints.\<close>

record 's mutation_io = "'s case_io" +
  ioEntry :: "jstr \<Rightarrow> ('s, error, mutation_identity) op"

record mutation_observation =
  moPath :: jstr
  moAncestor :: jstr
  moCanonicalAncestor :: jstr
  moCanonicalPath :: jstr
  moEntry :: mutation_identity
  moIdentity :: mutation_identity
  moMissing :: "jstr list"
  moOffset :: nat

text \<open>A directory whose identity was just checked carries a brand and may carry an observer that looks at it
  again.\<close>

record 's directory_observation =
  doPath :: jstr
  doCanonicalPath :: jstr
  doIdentity :: mutation_identity
  doChecked :: bool
  doObserver :: "('s, error, (jstr \<times> mutation_identity) option) op option"

subsection \<open>Identities\<close>

definition sameIdentity :: "mutation_identity \<Rightarrow> mutation_identity \<Rightarrow> bool \<Rightarrow> bool" where
  "sameIdentity left right directory \<longleftrightarrow>
     miDev left = miDev right \<and> miIno left = miIno right \<and> miMode left = miMode right \<and>
     (directory \<or> miNlink left = miNlink right)"

definition directoryMode :: "int \<Rightarrow> bool" where
  "directoryMode mode \<longleftrightarrow> mode AND 0xf000 = 0x4000"

definition linkMode :: "int \<Rightarrow> bool" where
  "linkMode mode \<longleftrightarrow> mode AND 0xf000 = 0xa000"

definition entryIdentity :: "mutation_identity \<Rightarrow> file_identity" where
  "entryIdentity e = big (miDev e) (miIno e)"

definition exactEntry :: "('s, 'z) mutation_io_scheme \<Rightarrow> jstr \<Rightarrow> ('s, error, mutation_identity) op" where
  "exactEntry io pathname =
     inspectFileIdentitySync Posix fileIdentityMismatchError entryIdentity (ioEntry io pathname) None"

text \<open>With \<open>throwIfNoEntry: false\<close> a missing entry is no exception; where it is one after all, only
  \<open>ENOENT\<close> says that the entry is missing.\<close>

definition absent :: "('s, 'z) mutation_io_scheme \<Rightarrow> jstr \<Rightarrow> ('s, error, bool) op" where
  "absent io pathname =
     tryS (ioEntry io pathname) (\<lambda>e. returnS (isNotFoundPathError e \<and> hasNodeErrorCode e ''ENOENT'')) (\<lambda>_. returnS False)"

definition missingMutationSegments :: "mutation_observation \<Rightarrow> nat" where
  "missingMutationSegments ob = length (moMissing ob) - moOffset ob"

definition nextMissingMutationPath :: "mutation_observation \<Rightarrow> jstr option" where
  "nextMissingMutationPath ob =
     (if moOffset ob < length (moMissing ob) then Some (posixJoin [moAncestor ob, moMissing ob ! moOffset ob]) else None)"

definition checkedMutationDirectory ::
    "jstr \<Rightarrow> jstr \<Rightarrow> mutation_identity \<Rightarrow> ('s, error, (jstr \<times> mutation_identity) option) op option \<Rightarrow>
     error + 's directory_observation" where
  "checkedMutationDirectory pathname canonicalPath stat observeCurrent =
     (if \<not> directoryMode (miMode stat)
      then Inl (PlainErr ''mutation directory evidence must describe a real directory'')
      else Inr \<lparr>doPath = pathname, doCanonicalPath = canonicalPath, doIdentity = stat, doChecked = True,
        doObserver = observeCurrent\<rparr>)"

definition checkedDirectory :: "'s directory_observation \<Rightarrow> bool" where
  "checkedDirectory d \<longleftrightarrow>
     doChecked d \<and> posixIsAbsolute (doPath d) \<and> posixIsAbsolute (doCanonicalPath d) \<and> directoryMode (miMode (doIdentity d))"

definition mutationObservationUsesDirectory :: "mutation_observation \<Rightarrow> 's directory_observation \<Rightarrow> bool" where
  "mutationObservationUsesDirectory ob d \<longleftrightarrow>
     checkedDirectory d \<and> moAncestor ob = doPath d \<and> moCanonicalAncestor ob = doCanonicalPath d \<and>
     sameIdentity (moEntry ob) (doIdentity d) False \<and> sameIdentity (moIdentity ob) (doIdentity d) False"

subsection \<open>Observing\<close>

text \<open>The nearest entry that is not missing, and the segments passed over.\<close>

function presentAncestor ::
    "('s, 'z) mutation_io_scheme \<Rightarrow> jstr \<Rightarrow> jstr list \<Rightarrow> 's \<Rightarrow> (jstr \<times> jstr list) option \<times> 's" where
  "presentAncestor io ancestor missing s =
     (case absent io ancestor s of
        (Inr True, t) \<Rightarrow>
          if posixDirname ancestor = ancestor then (None, t)
          else presentAncestor io (posixDirname ancestor) (posixBasename ancestor # missing) t
      | (_, t) \<Rightarrow> (Some (ancestor, missing), t))"
  by pat_completeness auto
termination
  by (relation "measure (\<lambda>(_, ancestor, _, _). dirnameMeasure ancestor)") (auto intro: posixDirname_measure)

declare presentAncestor.simps [simp del]

definition canonicalEntry ::
    "('s, 'z) mutation_io_scheme \<Rightarrow> jstr \<Rightarrow> jstr \<Rightarrow> mutation_identity \<Rightarrow> ('s, error, mutation_identity) op" where
  "canonicalEntry io ancestor canonicalAncestor entry =
     (if canonicalAncestor = ancestor then returnS entry else exactEntry io canonicalAncestor)"

text \<open>What of an observation must hold now, inside its \<open>try\<close>.\<close>

definition observationHolds :: "('s, 'z) mutation_io_scheme \<Rightarrow> mutation_observation \<Rightarrow> ('s, error, bool) op" where
  "observationHolds io ob =
     bindS (exactEntry io (moAncestor ob)) (\<lambda>entry.
       if \<not> sameIdentity (moEntry ob) entry (directoryMode (miMode entry)) then returnS False
       else bindS (ioRealpath io (moAncestor ob)) (\<lambda>real_path.
         if real_path \<noteq> moCanonicalAncestor ob then returnS False
         else bindS (canonicalEntry io (moAncestor ob) (moCanonicalAncestor ob) entry) (\<lambda>stat.
           if \<not> sameIdentity (moIdentity ob) stat (directoryMode (miMode stat)) then returnS False
           else case nextMissingMutationPath ob of
                  None \<Rightarrow> returnS True
                | Some next_path \<Rightarrow> if directoryMode (miMode stat) then absent io next_path else returnS False)))"

definition mutationObservationCurrent :: "('s, 'z) mutation_io_scheme \<Rightarrow> mutation_observation \<Rightarrow> ('s, error, bool) op" where
  "mutationObservationCurrent io ob = tryS (observationHolds io ob) (\<lambda>_. returnS False) returnS"

definition observeAncestor ::
    "('s, 'z) mutation_io_scheme \<Rightarrow> jstr \<Rightarrow> jstr \<Rightarrow> jstr list \<Rightarrow> ('s, error, mutation_observation option) op" where
  "observeAncestor io pathname ancestor missing =
     bindS (exactEntry io ancestor) (\<lambda>entry.
     bindS (ioRealpath io ancestor) (\<lambda>canonicalAncestor.
     bindS (canonicalEntry io ancestor canonicalAncestor entry) (\<lambda>stat.
       if linkMode (miMode stat) \<or> (missing \<noteq> [] \<and> \<not> directoryMode (miMode stat)) then returnS None
       else let ob = \<lparr>moPath = pathname, moAncestor = ancestor, moCanonicalAncestor = canonicalAncestor,
                  moCanonicalPath = posixJoin (canonicalAncestor # missing), moEntry = entry, moIdentity = stat,
                  moMissing = missing, moOffset = 0\<rparr>
            in bindS (mutationObservationCurrent io ob) (\<lambda>current. returnS (if current then Some ob else None)))))"

definition observeMutationPath :: "('s, 'z) mutation_io_scheme \<Rightarrow> jstr \<Rightarrow> ('s, error, mutation_observation option) op" where
  "observeMutationPath io pathname = (\<lambda>s.
     case presentAncestor io pathname [] s of
       (None, t) \<Rightarrow> (Inr None, t)
     | (Some (ancestor, missing), t) \<Rightarrow>
         tryS (observeAncestor io pathname ancestor missing) (\<lambda>_. returnS None) returnS t)"

subsection \<open>Checking many\<close>

record 's observation_group =
  ogObservations :: "mutation_observation list"
  ogDirectories :: "'s directory_observation list"

text \<open>A map that keeps the order in which its keys were added.\<close>

fun updateGroup ::
    "jstr \<Rightarrow> ('s observation_group \<Rightarrow> 's observation_group) \<Rightarrow> (jstr \<times> 's observation_group) list \<Rightarrow>
     (jstr \<times> 's observation_group) list" where
  "updateGroup pathname f [] = [(pathname, f \<lparr>ogObservations = [], ogDirectories = []\<rparr>)]"
| "updateGroup pathname f ((key, g) # groups) =
     (if key = pathname then (key, f g) # groups else (key, g) # updateGroup pathname f groups)"

text \<open>\<open>every\<close> over a test that looks at the file system.\<close>

fun everyS :: "('x \<Rightarrow> ('s, error, bool) op) \<Rightarrow> 'x list \<Rightarrow> ('s, error, bool) op" where
  "everyS test [] = returnS True"
| "everyS test (x # xs) = bindS (test x) (\<lambda>b. if b then everyS test xs else returnS False)"

text \<open>Observations through an alias are checked at once, the others are put in groups.\<close>

fun groupObservations ::
    "('s, 'z) mutation_io_scheme \<Rightarrow> mutation_observation list \<Rightarrow> (jstr \<times> 's observation_group) list \<Rightarrow>
     ('s, error, (jstr \<times> 's observation_group) list option) op" where
  "groupObservations io [] groups = returnS (Some groups)"
| "groupObservations io (ob # obs) groups =
     (if moAncestor ob \<noteq> moCanonicalAncestor ob
      then bindS (mutationObservationCurrent io ob) (\<lambda>current.
             if \<not> current then returnS None else groupObservations io obs groups)
      else groupObservations io obs
             (updateGroup (moAncestor ob) (\<lambda>g. g\<lparr>ogObservations := ogObservations g @ [ob]\<rparr>) groups))"

fun groupDirectories ::
    "'s directory_observation list \<Rightarrow> (jstr \<times> 's observation_group) list \<Rightarrow> (jstr \<times> 's observation_group) list option" where
  "groupDirectories [] groups = Some groups"
| "groupDirectories (d # ds) groups =
     (if \<not> checkedDirectory d then None
      else groupDirectories ds (updateGroup (doPath d) (\<lambda>g. g\<lparr>ogDirectories := ogDirectories g @ [d]\<rparr>) groups))"

definition missingOf :: "'s observation_group \<Rightarrow> jstr list" where
  "missingOf g = rev (remdups (rev (List.map_filter nextMissingMutationPath (ogObservations g))))"

definition observeGroup ::
    "('s, 'z) mutation_io_scheme \<Rightarrow> jstr \<Rightarrow> 's observation_group \<Rightarrow> ('s, error, jstr \<times> mutation_identity) op" where
  "observeGroup io pathname g =
     bindS (case ogDirectories g of
              [] \<Rightarrow> returnS None
            | d # _ \<Rightarrow> (case doObserver d of None \<Rightarrow> returnS None | Some look \<Rightarrow> look)) (\<lambda>observed.
       case observed of
         Some seen \<Rightarrow> returnS seen
       | None \<Rightarrow> bindS (exactEntry io pathname) (\<lambda>stat. bindS (ioRealpath io pathname) (\<lambda>canonical. returnS (canonical, stat))))"

definition observationAgrees :: "jstr \<Rightarrow> mutation_identity \<Rightarrow> mutation_observation \<Rightarrow> bool" where
  "observationAgrees canonical stat ob \<longleftrightarrow>
     canonical = moCanonicalAncestor ob \<and> sameIdentity (moEntry ob) stat (directoryMode (miMode stat)) \<and>
     sameIdentity (moIdentity ob) stat (directoryMode (miMode stat)) \<and>
     (missingMutationSegments ob = 0 \<or> directoryMode (miMode stat))"

definition directoryAgrees :: "jstr \<Rightarrow> mutation_identity \<Rightarrow> 's directory_observation \<Rightarrow> bool" where
  "directoryAgrees canonical stat d \<longleftrightarrow>
     directoryMode (miMode stat) \<and> sameIdentity (doIdentity d) stat False \<and> canonical = doCanonicalPath d"

definition groupCurrent ::
    "('s, 'z) mutation_io_scheme \<Rightarrow> jstr \<Rightarrow> 's observation_group \<Rightarrow> ('s, error, bool) op" where
  "groupCurrent io pathname g =
     bindS (if ogDirectories g \<noteq> [] then everyS (absent io) (missingOf g) else returnS True) (\<lambda>ready.
       if \<not> ready then returnS False
       else bindS (observeGroup io pathname g) (\<lambda>(canonical, stat).
         if \<not> list_all (observationAgrees canonical stat) (ogObservations g) then returnS False
         else if \<not> list_all (directoryAgrees canonical stat) (ogDirectories g) then returnS False
         else if ogDirectories g \<noteq> [] then returnS True
         else everyS (absent io) (missingOf g)))"

text \<open>The directories are checked in the order they were given, each path once.\<close>

fun directoriesCurrent ::
    "('s, 'z) mutation_io_scheme \<Rightarrow> (jstr \<times> 's observation_group) list \<Rightarrow> jstr list \<Rightarrow> 's directory_observation list \<Rightarrow>
     ('s, error, bool) op" where
  "directoriesCurrent io groups checked [] = returnS True"
| "directoriesCurrent io groups checked (d # ds) =
     (if doPath d \<in> set checked then directoriesCurrent io groups checked ds
      else case map_of groups (doPath d) of
             None \<Rightarrow> returnS False
           | Some g \<Rightarrow> bindS (groupCurrent io (doPath d) g) (\<lambda>current.
               if \<not> current then returnS False else directoriesCurrent io groups (doPath d # checked) ds))"

definition mutationObservationsCurrent ::
    "('s, 'z) mutation_io_scheme \<Rightarrow> mutation_observation list \<Rightarrow> 's directory_observation list \<Rightarrow> ('s, error, bool) op" where
  "mutationObservationsCurrent io observations directories =
     tryS (bindS (groupObservations io observations []) (\<lambda>grouped.
             case grouped of
               None \<Rightarrow> returnS False
             | Some groups \<Rightarrow>
                 (case groupDirectories directories groups of
                    None \<Rightarrow> returnS False
                  | Some groups \<Rightarrow>
                      bindS (everyS (\<lambda>(pathname, g). if ogDirectories g = [] then groupCurrent io pathname g else returnS True) groups)
                        (\<lambda>b. if b then directoriesCurrent io groups [] directories else returnS False))))
       (\<lambda>_. returnS False) returnS"

subsection \<open>Advancing\<close>

definition advanceMutationObservation ::
    "mutation_observation \<Rightarrow> 's directory_observation \<Rightarrow> 's directory_observation \<Rightarrow> mutation_observation option" where
  "advanceMutationObservation ob parent child =
     (if nextMissingMutationPath ob = None \<or> nextMissingMutationPath ob \<noteq> Some (doPath child) then Some ob
      else if \<not> checkedDirectory parent \<or> \<not> checkedDirectory child \<or>
        moAncestor ob \<noteq> doPath parent \<or> moCanonicalAncestor ob \<noteq> doCanonicalPath parent \<or>
        \<not> sameIdentity (moEntry ob) (doIdentity parent) True \<or>
        \<not> sameIdentity (moIdentity ob) (doIdentity parent) True \<or>
        doPath parent \<noteq> doCanonicalPath parent \<or> doPath child \<noteq> doCanonicalPath child \<or>
        posixDirname (doPath child) \<noteq> doPath parent
      then None
      else Some (ob\<lparr>moAncestor := doPath child, moCanonicalAncestor := doCanonicalPath child,
             moEntry := doIdentity child, moIdentity := doIdentity child, moOffset := moOffset ob + 1\<rparr>))"

subsection \<open>At rest\<close>

definition mutationRest :: "('s, 'z) mutation_io_scheme \<Rightarrow> 's \<Rightarrow> bool" where
  "mutationRest io s \<longleftrightarrow> atRest io s \<and> (\<forall>p. snd (ioEntry io p s) = s)"

definition isAbsent :: "('s, 'z) mutation_io_scheme \<Rightarrow> 's \<Rightarrow> jstr \<Rightarrow> bool" where
  "isAbsent io s p \<longleftrightarrow> fst (ioEntry io p s) = Inl (NodeErr ''ENOENT'')"

lemma exactEntry_posix [simp]: "exactEntry io p = ioEntry io p"
proof -
  have id: "entryIdentity = (\<lambda>x. big (miDev x) (miIno x))" by (simp add: fun_eq_iff entryIdentity_def)
  show ?thesis unfolding exactEntry_def by (rule inspect_posix [OF id])
qed

lemma rest_calls [keeping]:
  assumes "mutationRest io s"
  shows "still s (ioEntry io p)" "still s (ioRealpath io p)"
  using assms by (simp_all add: mutationRest_def still_iff atRest_def)

lemma rest_entry: "mutationRest io s \<Longrightarrow> ioEntry io p s = (fst (ioEntry io p s), s)"
  by (simp add: mutationRest_def prod_eq_iff)

lemma rest_realpath: "mutationRest io s \<Longrightarrow> ioRealpath io p s = (fst (ioRealpath io p s), s)"
  by (simp add: mutationRest_def atRest_def prod_eq_iff)

lemma hasNodeErrorCode_iff: "hasNodeErrorCode e code \<longleftrightarrow> e = NodeErr code"
  by (auto simp: hasNodeErrorCode_def split: error.split)

lemma absent_rest:
  assumes "mutationRest io s"
  shows "absent io p s = (Inr (isAbsent io s p), s)"
proof (cases "fst (ioEntry io p s)")
  case (Inl e)
  then have "ioEntry io p s = (Inl e, s)" using rest_entry [OF assms, of p] by simp
  then show ?thesis
    by (auto simp: absent_def tryS_def returnS_def isAbsent_def hasNodeErrorCode_iff isNotFoundPathError_def NOT_FOUND_CODES_def)
next
  case (Inr e)
  then have "ioEntry io p s = (Inr e, s)" using rest_entry [OF assms, of p] by simp
  then show ?thesis by (simp add: absent_def tryS_def returnS_def isAbsent_def)
qed

lemma still_absent [keeping]: "mutationRest io s \<Longrightarrow> still s (absent io p)"
  by (simp add: absent_rest still_iff)

lemma still_canonicalEntry [keeping]: "mutationRest io s \<Longrightarrow> still s (canonicalEntry io a c e)"
  by (auto simp: canonicalEntry_def intro!: keeping)

lemma still_observationHolds [keeping]: "mutationRest io s \<Longrightarrow> still s (observationHolds io ob)"
  by (auto simp: observationHolds_def split: option.split intro!: keeping)

lemma still_current [keeping]: "mutationRest io s \<Longrightarrow> still s (mutationObservationCurrent io ob)"
  by (auto simp: mutationObservationCurrent_def intro!: keeping)

lemma still_observeAncestor [keeping]: "mutationRest io s \<Longrightarrow> still s (observeAncestor io p a ms)"
  by (auto simp: observeAncestor_def Let_def intro!: keeping)

text \<open>The check of an observation never throws; at rest it is a predicate.\<close>

definition currentNow :: "('s, 'z) mutation_io_scheme \<Rightarrow> 's \<Rightarrow> mutation_observation \<Rightarrow> bool" where
  "currentNow io s ob \<longleftrightarrow> mutationObservationCurrent io ob s = (Inr True, s)"

lemma current_rest: "mutationRest io s \<Longrightarrow> mutationObservationCurrent io ob s = (Inr (currentNow io s ob), s)"
proof -
  assume rest: "mutationRest io s"
  obtain r t where r: "mutationObservationCurrent io ob s = (r, t)" by fastforce
  moreover have "t = s" using still_run [OF still_current [OF rest] r] .
  moreover have "\<exists>b. r = Inr b"
    using r by (auto simp: mutationObservationCurrent_def tryS_def returnS_def split: prod.splits sum.splits)
  ultimately show ?thesis by (auto simp: currentNow_def)
qed

lemma current_ordinary:
  assumes rest: "mutationRest io s" and "moAncestor ob = moCanonicalAncestor ob"
  shows "currentNow io s ob \<longleftrightarrow>
    (\<exists>stat canonical. fst (ioEntry io (moAncestor ob) s) = Inr stat \<and> fst (ioRealpath io (moAncestor ob) s) = Inr canonical \<and>
       observationAgrees canonical stat ob \<and> (\<forall>p. nextMissingMutationPath ob = Some p \<longrightarrow> isAbsent io s p))"
proof -
  let ?a = "moAncestor ob"
  note defs = currentNow_def mutationObservationCurrent_def observationHolds_def tryS_def bindS_def returnS_def
  show ?thesis
  proof (cases "fst (ioEntry io ?a s)")
    case (Inl e)
    then have "ioEntry io ?a s = (Inl e, s)" using rest_entry [OF rest, of ?a] by simp
    then show ?thesis by (simp add: defs)
  next
    case (Inr stat)
    then have stat: "ioEntry io ?a s = (Inr stat, s)" using rest_entry [OF rest, of ?a] by simp
    show ?thesis
    proof (cases "fst (ioRealpath io ?a s)")
      case (Inl e)
      then have "ioRealpath io ?a s = (Inl e, s)" using rest_realpath [OF rest, of ?a] by simp
      then show ?thesis using stat by (simp add: defs)
    next
      case (Inr canonical)
      then have "ioRealpath io ?a s = (Inr canonical, s)" using rest_realpath [OF rest, of ?a] by simp
      then show ?thesis
        using stat assms(2)
        by (auto simp: defs canonicalEntry_def observationAgrees_def missingMutationSegments_def
            nextMissingMutationPath_def absent_rest [OF rest])
    qed
  qed
qed

subsection \<open>Checking together is checking one by one\<close>

lemma everyS_rest:
  "(\<And>x. x \<in> set xs \<Longrightarrow> still s (test x)) \<Longrightarrow>
   everyS test xs s = (Inr True, s) \<longleftrightarrow> (\<forall>x \<in> set xs. test x s = (Inr True, s))"
proof (induction xs)
  case (Cons x xs)
  have "snd (test x s) = s" using Cons.prems [of x] by (simp add: still_iff)
  then show ?case using Cons
    by (cases "test x s"; cases "fst (test x s)") (auto simp: bindS_def returnS_def)
qed (simp add: returnS_def)

lemma still_everyS [keeping]: "(\<And>x. x \<in> set xs \<Longrightarrow> still s (test x)) \<Longrightarrow> still s (everyS test xs)"
  by (induction xs) (auto intro!: keeping)

definition membersOf :: "(jstr \<times> 's observation_group) list \<Rightarrow> mutation_observation set" where
  "membersOf groups = (\<Union>(p, g) \<in> set groups. set (ogObservations g))"

definition wfGroups :: "(jstr \<times> 's observation_group) list \<Rightarrow> bool" where
  "wfGroups groups \<longleftrightarrow>
     (\<forall>(p, g) \<in> set groups. ogDirectories g = [] \<and> ogObservations g \<noteq> [] \<and>
        (\<forall>ob \<in> set (ogObservations g). moAncestor ob = p \<and> moCanonicalAncestor ob = p))"

abbreviation withObservation :: "mutation_observation \<Rightarrow> 's observation_group \<Rightarrow> 's observation_group" where
  "withObservation ob \<equiv> (\<lambda>g. g\<lparr>ogObservations := ogObservations g @ [ob]\<rparr>)"

lemma membersOf_simps [simp]:
  "membersOf [] = {}" "membersOf ((p, g) # groups) = set (ogObservations g) \<union> membersOf groups"
  by (simp_all add: membersOf_def)

lemma wfGroups_simps [simp]:
  "wfGroups []"
  "wfGroups ((p, g) # groups) \<longleftrightarrow> ogDirectories g = [] \<and> ogObservations g \<noteq> [] \<and>
     (\<forall>ob \<in> set (ogObservations g). moAncestor ob = p \<and> moCanonicalAncestor ob = p) \<and> wfGroups groups"
  by (simp_all add: wfGroups_def)

lemma updateGroup_members: "membersOf (updateGroup p (withObservation ob) groups) = insert ob (membersOf groups)"
  by (induction groups) (auto split: if_splits)

lemma updateGroup_wf:
  "wfGroups groups \<Longrightarrow> moAncestor ob = p \<Longrightarrow> moCanonicalAncestor ob = p \<Longrightarrow>
   wfGroups (updateGroup p (withObservation ob) groups)"
  by (induction groups) auto

lemma groupObservations_rest:
  assumes "mutationRest io s"
  shows "wfGroups groups \<Longrightarrow> \<exists>grouped. groupObservations io obs groups s = (Inr grouped, s) \<and>
    (grouped = None \<longleftrightarrow> (\<exists>ob \<in> set obs. moAncestor ob \<noteq> moCanonicalAncestor ob \<and> \<not> currentNow io s ob)) \<and>
    (\<forall>gs. grouped = Some gs \<longrightarrow> wfGroups gs \<and>
       membersOf gs = membersOf groups \<union> {ob \<in> set obs. moAncestor ob = moCanonicalAncestor ob})"
proof (induction obs arbitrary: groups)
  case (Cons ob obs)
  show ?case
  proof (cases "moAncestor ob = moCanonicalAncestor ob")
    case True
    then show ?thesis
      using Cons.IH [OF updateGroup_wf [OF Cons.prems refl True [symmetric]]] by (auto simp: updateGroup_members)
  next
    case False
    then show ?thesis using Cons.IH [OF Cons.prems] current_rest [OF assms, of ob]
      by (auto simp: bindS_def returnS_def)
  qed
qed (simp add: returnS_def)

lemma set_missingOf: "set (missingOf g) = {p. \<exists>ob \<in> set (ogObservations g). nextMissingMutationPath ob = Some p}"
  unfolding missingOf_def by (force simp: map_filter_def image_iff)

lemma groupCurrent_rest:
  assumes rest: "mutationRest io s" and "ogDirectories g = []" "ogObservations g \<noteq> []"
    and "\<forall>ob \<in> set (ogObservations g). moAncestor ob = p \<and> moCanonicalAncestor ob = p"
  shows "groupCurrent io p g s = (Inr True, s) \<longleftrightarrow> (\<forall>ob \<in> set (ogObservations g). currentNow io s ob)"
proof -
  have one: "currentNow io s ob \<longleftrightarrow>
      (\<exists>stat canonical. fst (ioEntry io p s) = Inr stat \<and> fst (ioRealpath io p s) = Inr canonical \<and>
       observationAgrees canonical stat ob \<and> (\<forall>q. nextMissingMutationPath ob = Some q \<longrightarrow> isAbsent io s q))"
    if "ob \<in> set (ogObservations g)" for ob
    using current_ordinary [OF rest, of ob] assms(4) that by simp
  have every: "everyS (absent io) (missingOf g) s = (Inr True, s) \<longleftrightarrow> (\<forall>q \<in> set (missingOf g). isAbsent io s q)"
    using everyS_rest [of "missingOf g" s "absent io", OF still_absent [OF rest]] by (simp add: absent_rest [OF rest])
  note look = rest_entry [OF rest, of p] rest_realpath [OF rest, of p]
  show ?thesis
  proof (cases "\<exists>stat canonical. fst (ioEntry io p s) = Inr stat \<and> fst (ioRealpath io p s) = Inr canonical")
    case True
    then obtain stat canonical where sc: "ioEntry io p s = (Inr stat, s)" "ioRealpath io p s = (Inr canonical, s)"
      using look by force
    have "groupCurrent io p g s = (Inr True, s) \<longleftrightarrow>
        list_all (observationAgrees canonical stat) (ogObservations g) \<and> (\<forall>q \<in> set (missingOf g). isAbsent io s q)"
      using sc assms(2) every by (auto simp: groupCurrent_def observeGroup_def bindS_def returnS_def)
    then show ?thesis using one sc by (auto simp: set_missingOf list_all_iff)
  next
    case False
    then have "\<not> currentNow io s ob" if "ob \<in> set (ogObservations g)" for ob using one that by blast
    moreover have "groupCurrent io p g s \<noteq> (Inr True, s)"
      using False look assms(2)
      by (cases "fst (ioEntry io p s)"; cases "fst (ioRealpath io p s)")
        (auto simp: groupCurrent_def observeGroup_def bindS_def returnS_def)
    moreover obtain ob where "ob \<in> set (ogObservations g)" using assms(3) by (cases "ogObservations g") auto
    ultimately show ?thesis by blast
  qed
qed

lemma still_groupCurrent:
  assumes rest: "mutationRest io s" and "ogDirectories g = []"
  shows "still s (groupCurrent io p g)"
  using assms(2) by (auto simp: groupCurrent_def observeGroup_def intro!: keeping rest_calls [OF rest] still_absent [OF rest])


subsection \<open>What an observation says\<close>

lemma posixBasename_absPath:
  assumes "wfSegs (dir @ [seg])"
  shows "posixBasename (absPath (dir @ [seg])) = seg"
proof -
  have seg: "seg \<noteq> []" "SLASH \<notin> set seg" using assms by (auto simp: plainSeg_def)
  have "dropEndWhile (\<lambda>c. c = SLASH) (absPath (dir @ [seg])) = absPath (dir @ [seg])"
    using last_absPath [OF assms] by (intro dropEndWhile_fixed) simp
  moreover have "takeWhile (\<lambda>c. c \<noteq> SLASH) (rev seg @ SLASH # r) = rev seg" for r
    using seg(2) by (subst takeWhile_append2) auto
  ultimately show ?thesis
    by (cases "dir = []") (simp_all add: posixBasename_def lastPart_def absPath_snoc, simp add: absPath_def)
qed

lemma posixJoin_absPath:
  assumes "wfSegs (dir @ segs)"
  shows "posixJoin (absPath dir # segs) = absPath (dir @ segs)"
proof -
  have wf: "wfSegs dir" "wfSegs segs" using assms by (simp_all add: wfSegs_def)
  have ne: "[] \<notin> set segs" using wf(2) by (auto simp: wfSegs_def plainSeg_def)
  then have keep: "filter (\<lambda>p. p \<noteq> []) (absPath dir # segs) = absPath dir # segs"
    by (auto simp: absPath_def filter_id_conv)
  let ?p = "joinOn SLASH (absPath dir # segs)"
  have split: "splitOn SLASH ?p = splitOn SLASH (absPath dir) @ segs"
  proof (cases segs)
    case (Cons x xs)
    then have "splitOn SLASH (joinOn SLASH segs) = segs" using wf(2) by (intro splitOn_joinOn) (auto simp: wfSegs_def)
    then show ?thesis using Cons splitOn_sep [of SLASH "absPath dir" "joinOn SLASH segs"] by simp
  qed simp
  have abs: "posixIsAbsolute ?p" by (cases segs) (simp_all add: posixIsAbsolute_def absPath_def)
  have plain: "\<forall>x \<in> set (splitOn SLASH (absPath dir) @ segs). x \<noteq> dotdot"
    using wf splitOn_absPath [OF wf(1)] by (auto simp: wfSegs_def split: if_splits)
  have kept: "filter keptSeg (splitOn SLASH (absPath dir) @ segs) = dir @ segs"
    using wf splitOn_absPath [OF wf(1)] by (auto simp: keptSeg_def plainSeg_def wfSegs_def filter_id_conv)
  have norm: "normSegs False [] (splitOn SLASH (absPath dir) @ segs) = dir @ segs"
    using normSegs_plain [OF plain, of False "[]"] kept by simp
  show ?thesis
  proof (cases "dir @ segs = []")
    case True
    then show ?thesis by (simp add: posixJoin_def absPath_def) code_simp
  next
    case False
    have "\<not> endsWith ?p [SLASH]"
    proof
      assume end_slash: "endsWith ?p [SLASH]"
      then obtain r where "?p = r @ SLASH # []" by (metis append_butlast_last_id endsWith_single)
      then have "last (splitOn SLASH ?p) = []" using splitOn_sep [of SLASH r "[]"] by simp
      then show False
        using end_slash ne False split endsWith_absPath [OF wf(1)] by (cases segs rule: rev_cases) auto
    qed
    moreover have "joinOn SLASH (dir @ segs) \<noteq> []" using joinOn_eq_Nil [OF assms] False by simp
    ultimately show ?thesis
      using abs split norm keep by (simp add: posixJoin_def posixNormalize_def normalizeString_def absPath_def Let_def)
  qed
qed

text \<open>The ancestor and the missing segments below it spell the path; below the real place of the ancestor
  they spell the canonical path.\<close>

definition spells :: "mutation_observation \<Rightarrow> jstr list \<Rightarrow> jstr list \<Rightarrow> jstr list \<Rightarrow> bool" where
  "spells ob dir canonical missing \<longleftrightarrow>
     wfSegs (dir @ missing) \<and> wfSegs (canonical @ missing) \<and> missing = drop (moOffset ob) (moMissing ob) \<and>
     moOffset ob \<le> length (moMissing ob) \<and>
     moAncestor ob = absPath dir \<and> moPath ob = absPath (dir @ missing) \<and>
     moCanonicalAncestor ob = absPath canonical \<and> moCanonicalPath ob = absPath (canonical @ missing)"

lemma drop_Cons_nth: "drop n xs = y # ys \<Longrightarrow> n < length xs \<and> xs ! n = y \<and> drop (n + 1) xs = ys"
  by (metis Cons_nth_drop_Suc Suc_eq_plus1 drop_all leI list.inject list.distinct(1))

lemma spells_next:
  assumes "spells ob dir canonical missing"
  shows "nextMissingMutationPath ob = (case missing of [] \<Rightarrow> None | seg # _ \<Rightarrow> Some (absPath (dir @ [seg])))"
proof (cases missing)
  case Nil
  then show ?thesis using assms by (simp add: spells_def nextMissingMutationPath_def)
next
  case (Cons seg rest)
  then have "moOffset ob < length (moMissing ob)" "moMissing ob ! moOffset ob = seg"
    using assms drop_Cons_nth [of "moOffset ob" "moMissing ob" seg rest] by (simp_all add: spells_def)
  moreover have "wfSegs (dir @ [seg])" using assms Cons by (auto simp: spells_def wfSegs_def)
  moreover have "moAncestor ob = absPath dir" using assms by (simp add: spells_def)
  ultimately show ?thesis using posixJoin_child [of dir seg] by (simp add: Cons nextMissingMutationPath_def)
qed


lemma presentAncestor_rest:
  assumes rest: "mutationRest io s"
  shows "wfSegs (dir @ segs) \<Longrightarrow> (\<forall>k. 0 < k \<and> k \<le> length segs \<longrightarrow> isAbsent io s (absPath (dir @ take k segs))) \<Longrightarrow>
    \<not> isAbsent io s (absPath dir) \<Longrightarrow> presentAncestor io (absPath (dir @ segs)) tail s = (Some (absPath dir, segs @ tail), s)"
proof (induction segs arbitrary: tail rule: rev_induct)
  case Nil
  then show ?case using absent_rest [OF rest] by (subst presentAncestor.simps) simp
next
  case (snoc seg segs)
  have wf: "wfSegs ((dir @ segs) @ [seg])" using snoc.prems(1) by simp
  have "isAbsent io s (absPath (dir @ segs @ [seg]))" using snoc.prems(2) [rule_format, of "length segs + 1"] by simp
  moreover have "posixDirname (absPath (dir @ segs @ [seg])) = absPath (dir @ segs)"
    using posixDirname_absPath [OF wf] by (simp add: butlast_append)
  moreover have "posixBasename (absPath (dir @ segs @ [seg])) = seg" using posixBasename_absPath [OF wf] by simp
  moreover have "absPath (dir @ segs) \<noteq> absPath (dir @ segs @ [seg])"
    using absPath_inject [of "dir @ segs" "dir @ segs @ [seg]"] wf by (simp add: wfSegs_def)
  moreover have "presentAncestor io (absPath (dir @ segs)) (seg # tail) s = (Some (absPath dir, segs @ seg # tail), s)"
    using snoc.prems by (intro snoc.IH) (auto simp: wfSegs_def dest: spec [of _ "_ :: nat"])
  ultimately show ?case
    using absent_rest [OF rest, of "absPath (dir @ segs @ [seg])"] by (subst presentAncestor.simps) simp
qed

text \<open>A path that is missing below a real place is observed as such, or not at all.\<close>

lemma observe_missing:
  assumes rest: "mutationRest io s" and "wfSegs (dir @ segs)" "\<not> isAbsent io s (absPath dir)"
    and "\<forall>k. 0 < k \<and> k \<le> length segs \<longrightarrow> isAbsent io s (absPath (dir @ take k segs))"
    and "\<forall>q. fst (ioRealpath io (absPath dir) s) = Inr q \<longrightarrow> q = absPath dir"
  shows "\<exists>seen. observeMutationPath io (absPath (dir @ segs)) s = (Inr seen, s) \<and>
    (\<forall>ob. seen = Some ob \<longrightarrow> moCanonicalAncestor ob = absPath dir \<and> moMissing ob = segs)"
proof -
  have p: "presentAncestor io (absPath (dir @ segs)) [] s = (Some (absPath dir, segs), s)"
    using presentAncestor_rest [OF rest assms(2,4,3), of "[]"] by simp
  obtain r t where r: "observeAncestor io (absPath (dir @ segs)) (absPath dir) segs s = (r, t)" by fastforce
  have t: "t = s" using still_run [OF still_observeAncestor [OF rest] r] .
  have "moCanonicalAncestor ob = absPath dir \<and> moMissing ob = segs" if some: "r = Inr (Some ob)" for ob
  proof -
    obtain entry u q v where e: "ioEntry io (absPath dir) s = (Inr entry, u)" "ioRealpath io (absPath dir) u = (Inr q, v)"
      using r some by (auto simp: observeAncestor_def bindS_ok)
    have "u = s" using still_run [OF rest_calls(1) [OF rest] e(1)] .
    then have q: "q = absPath dir" using e(2) assms(5) by (metis fst_conv)
    show ?thesis using r some e by (auto simp: observeAncestor_def bindS_ok Let_def q split: if_splits)
  qed
  then show ?thesis using p r t by (cases r) (auto simp: observeMutationPath_def tryS_def returnS_def)
qed

subsection \<open>What every observation says\<close>

definition normalRealpaths :: "('s, 'z) mutation_io_scheme \<Rightarrow> bool" where
  "normalRealpaths io \<longleftrightarrow> (\<forall>p s q t. ioRealpath io p s = (Inr q, t) \<longrightarrow> (\<exists>segs. wfSegs segs \<and> q = absPath segs))"

lemma presentAncestor_state: "mutationRest io s \<Longrightarrow> snd (presentAncestor io ancestor missing s) = s"
proof (induction io ancestor missing s rule: presentAncestor.induct)
  case (1 io ancestor missing s)
  show ?case
    by (subst presentAncestor.simps) (simp add: absent_rest [OF 1(2)] "1.IH" [OF absent_rest [OF 1(2), symmetric]] 1(2) split: bool.split)
qed

lemma presentAncestor_shape:
  "wfSegs segs \<Longrightarrow> presentAncestor io (absPath segs) tail s = (Some (ancestor, missing), t) \<Longrightarrow>
   \<exists>k. ancestor = absPath (take k segs) \<and> missing = drop k segs @ tail"
proof (induction segs arbitrary: tail s rule: rev_induct)
  case Nil
  then show ?case by (subst (asm) presentAncestor.simps) (auto split: prod.splits sum.splits bool.splits if_splits)
next
  case (snoc seg segs)
  have wf: "wfSegs segs" using snoc.prems(1) by simp
  have up: "posixDirname (absPath (segs @ [seg])) = absPath segs" "posixBasename (absPath (segs @ [seg])) = seg"
    using posixDirname_absPath [OF snoc.prems(1)] posixBasename_absPath [OF snoc.prems(1)] by (simp_all add: butlast_append)
  obtain r u where a: "absent io (absPath (segs @ [seg])) s = (r, u)" by fastforce
  have "ancestor = absPath (segs @ [seg]) \<and> missing = tail \<or>
      presentAncestor io (absPath segs) (seg # tail) u = (Some (ancestor, missing), t)"
    using snoc.prems(2) a up
    by (subst (asm) presentAncestor.simps) (auto split: sum.splits bool.splits if_splits)
  then show ?case
  proof
    assume "ancestor = absPath (segs @ [seg]) \<and> missing = tail"
    then show ?thesis by (intro exI [of _ "length segs + 1"]) simp
  next
    assume "presentAncestor io (absPath segs) (seg # tail) u = (Some (ancestor, missing), t)"
    from snoc.IH [OF wf this] obtain k where "ancestor = absPath (take k segs)" "missing = drop k segs @ seg # tail" by blast
    then show ?thesis by (intro exI [of _ "min k (length segs)"]) (auto simp: min_def)
  qed
qed

lemma observe_total:
  assumes "mutationRest io s"
  shows "\<exists>seen. observeMutationPath io p s = (Inr seen, s)"
proof -
  obtain found where f: "presentAncestor io p [] s = (found, s)"
    using presentAncestor_state [OF assms, of p "[]"] by (metis prod.collapse)
  show ?thesis
  proof (cases found)
    case None
    then show ?thesis using f by (simp add: observeMutationPath_def)
  next
    case (Some am)
    obtain r t where r: "observeAncestor io p (fst am) (snd am) s = (r, t)" by fastforce
    have "t = s" using still_run [OF still_observeAncestor [OF assms] r] .
    then show ?thesis using f Some r
      by (cases am; cases r) (auto simp: observeMutationPath_def tryS_def returnS_def)
  qed
qed

lemma observe_shape:
  assumes "normalRealpaths io" "wfSegs segs" "observeMutationPath io (absPath segs) s = (Inr (Some ob), t)"
  shows "\<exists>canonical k. wfSegs canonical \<and> moCanonicalAncestor ob = absPath canonical \<and> moMissing ob = drop k segs"
proof -
  obtain ancestor missing u where a: "presentAncestor io (absPath segs) [] s = (Some (ancestor, missing), u)"
    "observeAncestor io (absPath segs) ancestor missing u = (Inr (Some ob), t)"
    using assms(3)
    by (auto simp: observeMutationPath_def tryS_def returnS_def split: prod.splits option.splits sum.splits)
  obtain k where "missing = drop k segs" using presentAncestor_shape [OF assms(2) a(1)] by auto
  moreover obtain v q w where "ioRealpath io ancestor v = (Inr q, w)" "moCanonicalAncestor ob = q" "moMissing ob = missing"
    using a(2) by (auto simp: observeAncestor_def bindS_ok Let_def split: if_splits)
  ultimately show ?thesis using assms(1) unfolding normalRealpaths_def by blast
qed

subsection \<open>A small file system\<close>

definition demoEntries :: "(jstr \<times> mutation_identity) list" where
  "demoEntries =
     [(js ''/'', \<lparr>miDev = 1, miIno = 1, miMode = 0x41ed, miNlink = 3\<rparr>),
      (js ''/w'', \<lparr>miDev = 1, miIno = 2, miMode = 0x41ed, miNlink = 2\<rparr>),
      (js ''/w/Notes'', \<lparr>miDev = 1, miIno = 3, miMode = 0x81a4, miNlink = 1\<rparr>)]"

definition demoEntry :: "jstr \<Rightarrow> error + mutation_identity" where
  "demoEntry p = (case map_of demoEntries p of None \<Rightarrow> Inl (NodeErr ''ENOENT'') | Some e \<Rightarrow> Inr e)"

definition demoLook :: "jstr \<Rightarrow> error + big_stat" where
  "demoLook p = bindE (demoEntry p) (\<lambda>e. Inr \<lparr>bsDev = miDev e, bsIno = miIno e,
     bsKind = (if directoryMode (miMode e) then Directory else Regular_file)\<rparr>)"

definition demoIo :: "unit mutation_io" where
  "demoIo =
     \<lparr>ioLstat = (\<lambda>p. liftS (demoLook p)), ioReadlink = (\<lambda>p. throwS (NodeErr ''EINVAL'')),
      ioRealpath = (\<lambda>p. liftS (bindE (demoEntry p) (\<lambda>_. Inr p))), ioAccess = (\<lambda>p. returnS ()),
      ioStat = (\<lambda>p. liftS (demoLook p)), ioExists = (\<lambda>p s. (isOk (demoEntry p), s)),
      ioReaddir = (\<lambda>p. liftS (Inr (if p = js ''/'' then [js ''w''] else if p = js ''/w'' then [js ''Notes''] else []))),
      ioEntry = (\<lambda>p. liftS (demoEntry p))\<rparr>"

lemma demoIo_rest [simp]: "mutationRest demoIo ()"
  by (simp add: mutationRest_def atRest_def)


definition demoObservation :: mutation_observation where
  "demoObservation =
     \<lparr>moPath = js ''/w/new/deep'', moAncestor = js ''/w'', moCanonicalAncestor = js ''/w'',
      moCanonicalPath = js ''/w/new/deep'', moEntry = \<lparr>miDev = 1, miIno = 2, miMode = 0x41ed, miNlink = 2\<rparr>,
      moIdentity = \<lparr>miDev = 1, miIno = 2, miMode = 0x41ed, miNlink = 2\<rparr>,
      moMissing = [js ''new'', js ''deep''], moOffset = 0\<rparr>"

definition demoDirectory :: "string \<Rightarrow> int \<Rightarrow> unit directory_observation" where
  "demoDirectory name ino =
     \<lparr>doPath = js name, doCanonicalPath = js name, doIdentity = \<lparr>miDev = 1, miIno = ino, miMode = 0x41ed, miNlink = 2\<rparr>,
      doChecked = True, doObserver = None\<rparr>"


end
