(* ===== verification/DenyMutations.thy ===== *)
theory DenyMutations
  imports MutationObservation
begin

text \<open>
  The policy of paths that must not be changed (\<open>src/deny-mutations.ts\<close>, \<open>src/deny-mutation-match.ts\<close>) on a
  POSIX host. A target and the entries of the policy are compared as spelled and as the file system
  resolves them; two names that only differ in case or normalisation are taken for one where neither
  exists yet and no observation has shown the directory to tell them apart. On POSIX the checks of Windows
  aliases do nothing.
\<close>

subsection \<open>Names that a file system may take for one\<close>

definition DOTLESS_I :: jchar where
  "DOTLESS_I = 0x131"

text \<open>The parts between the letters \<open>U+0131\<close> are folded, the letters kept.\<close>

definition foldedName :: "unicode \<Rightarrow> jstr \<Rightarrow> jstr" where
  "foldedName u name =
     nfc u (joinOn DOTLESS_I (map
       (\<lambda>part. if part = [] then [] else toLowerCase u (toUpperCase u (toLowerCase u part)))
       (splitOn DOTLESS_I (nfd u name))))"

definition asciiCasePair :: "unicode \<Rightarrow> jstr \<Rightarrow> jstr \<Rightarrow> bool" where
  "asciiCasePair u left right \<longleftrightarrow> isAscii left \<and> isAscii right \<and> toLowerCase u left = toLowerCase u right"

definition sameFolded :: "unicode \<Rightarrow> jstr list \<Rightarrow> jstr list \<Rightarrow> bool" where
  "sameFolded u left right = list_all2 (\<lambda>a b. foldedName u a = foldedName u b) left right"

subsection \<open>The matcher\<close>

text \<open>The caches of one matcher, and the world.\<close>

record 's matcher =
  mtObservations :: "jstr \<Rightarrow> mutation_observation option option"
  mtCases :: "jstr \<Rightarrow> bool option option"
  mtWorld :: 's

definition newMatcher :: "'s \<Rightarrow> 's matcher" where
  "newMatcher s = \<lparr>mtObservations = Map.empty, mtCases = Map.empty, mtWorld = s\<rparr>"

definition onWorld :: "('s, error, 'a) op \<Rightarrow> ('s matcher, error, 'a) op" where
  "onWorld = zoomS mtWorld (\<lambda>s m. m\<lparr>mtWorld := s\<rparr>)"

definition observe :: "('s, 'z) mutation_io_scheme \<Rightarrow> jstr \<Rightarrow> ('s matcher, error, mutation_observation option) op" where
  "observe io pathname = (\<lambda>m.
     case mtObservations m pathname of
       Some seen \<Rightarrow> (Inr seen, m)
     | None \<Rightarrow>
         bindS (onWorld (observeMutationPath io pathname)) (\<lambda>seen.
         bindS (updateS (\<lambda>m. m\<lparr>mtObservations := (mtObservations m)(pathname \<mapsto> seen)\<rparr>)) (\<lambda>_. returnS seen)) m)"

definition caseAt ::
    "('s, 'z) mutation_io_scheme \<Rightarrow> host \<Rightarrow> jstr \<Rightarrow> jstr \<Rightarrow> ('s matcher, error, bool option) op" where
  "caseAt io h ancestor name = (\<lambda>m.
     case mtCases m ancestor of
       Some answer \<Rightarrow> (Inr answer, m)
     | None \<Rightarrow>
         bindS (onWorld (probePathCaseInsensitiveSync io h (posixJoin [ancestor, name]))) (\<lambda>answer.
         bindS (updateS (\<lambda>m. m\<lparr>mtCases := (mtCases m)(ancestor \<mapsto> answer)\<rparr>)) (\<lambda>_. returnS answer)) m)"

fun firstDifference :: "('a \<Rightarrow> 'b \<Rightarrow> bool) \<Rightarrow> 'a list \<Rightarrow> 'b list \<Rightarrow> nat option" where
  "firstDifference P (x # xs) (y # ys) = (if P x y then Some 0 else map_option Suc (firstDifference P xs ys))"
| "firstDifference P _ _ = None"

text \<open>What two observations of a parent and of the path beside it say.\<close>

definition compareObservations ::
    "('s, 'z) mutation_io_scheme \<Rightarrow> unicode \<Rightarrow> host \<Rightarrow> mutation_observation \<Rightarrow> mutation_observation \<Rightarrow>
     ('s matcher, error, bool) op" where
  "compareObservations io u h a b =
     (if moCanonicalAncestor a \<noteq> moCanonicalAncestor b \<or> moMissing a = [] \<or>
         length (moMissing a) \<noteq> length (moMissing b)
      then returnS False
      else if \<not> sameFolded u (moMissing a) (moMissing b) then returnS False
      else case firstDifference (\<noteq>) (moMissing a) (moMissing b) of
             None \<Rightarrow> returnS True
           | Some difference \<Rightarrow>
               if difference = 0 \<and> asciiCasePair u (hd (moMissing a)) (hd (moMissing b))
               then bindS (caseAt io h (moCanonicalAncestor a) (hd (moMissing a))) (\<lambda>answer. returnS (answer \<noteq> Some False))
               else returnS True)"

definition prospectiveInside ::
    "('s, 'z) mutation_io_scheme \<Rightarrow> unicode \<Rightarrow> host \<Rightarrow> jstr \<Rightarrow> jstr \<Rightarrow> ('s matcher, error, bool) op" where
  "prospectiveInside io u h parent child =
     (if rawRoot parent \<noteq> rawRoot child then returnS False
      else let root = rawRoot parent;
               left = splitOn SLASH (drop (length root) parent);
               right = take (length left) (splitOn SLASH (drop (length root) child))
           in if length left \<noteq> length right \<or> \<not> sameFolded u left right then returnS False
              else if left = right then returnS False
              else bindS (observe io parent) (\<lambda>a.
                   bindS (observe io (posixJoin (root # right))) (\<lambda>b.
                     case (a, b) of
                       (Some a, Some b) \<Rightarrow> compareObservations io u h a b
                     | _ \<Rightarrow> returnS True)))"

definition matches ::
    "('s, 'z) mutation_io_scheme \<Rightarrow> unicode \<Rightarrow> host \<Rightarrow> jstr \<Rightarrow> jstr \<Rightarrow> bool \<Rightarrow> bool \<Rightarrow> ('s matcher, error, bool) op" where
  "matches io u h target denied asPrefix protectAncestors =
     (if (isPathInside u h denied target \<and> (asPrefix \<or> isPathInside u h target denied)) \<or>
         (protectAncestors \<and> isPathInside u h target denied)
      then returnS True
      else bindS (if asPrefix \<or> length (splitOn SLASH target) = length (splitOn SLASH denied)
                  then prospectiveInside io u h denied target else returnS False) (\<lambda>b.
             if b then returnS True
             else if protectAncestors then prospectiveInside io u h target denied else returnS False))"

subsection \<open>The policy\<close>

text \<open>The two spellings of a path that are compared; a set, in the order of its insertions.\<close>

definition resolveMutationComparablePaths ::
    "('s, 'z) mutation_io_scheme \<Rightarrow> host \<Rightarrow> jstr \<Rightarrow> ('s, error, jstr list) op" where
  "resolveMutationComparablePaths io h rawPath =
     bindS (liftS (assertNoNulPathInput rawPath ''path contains a NUL byte'')) (\<lambda>_.
       let resolved = resolvePathPreservingWindowsRoot h rawPath
       in bindS (resolveExistingAncestor io h Native False 64 resolved) (\<lambda>canonical.
            returnS (if canonical = resolved then [resolved] else [resolved, canonical])))"

definition strictMutationComparablePaths ::
    "('s, 'z) mutation_io_scheme \<Rightarrow> host \<Rightarrow> jstr \<Rightarrow> ('s, error, jstr list) op" where
  "strictMutationComparablePaths io h pathname =
     (let resolved = resolvePathPreservingWindowsRoot h pathname
      in bindS (existingCursor (pathExists io) resolved) (\<lambda>cursor.
         bindS (ioRealpath io cursor) (\<lambda>canonicalAncestor.
           let canonical = (if cursor = resolved then canonicalAncestor
                            else pathResolve h [canonicalAncestor, [DOT, SLASH] @ drop (length cursor) resolved])
           in returnS (if pathRelative h (pathResolve h [resolved]) (pathResolve h [canonical]) = []
                       then [resolved] else [resolved, canonical]))))"

record deny_policy =
  dpPaths :: "jstr list option"
  dpPrefixes :: "jstr list option"

datatype check_mode = Root_mode | Sync_root_lock

definition comparablePaths ::
    "('s, 'z) mutation_io_scheme \<Rightarrow> host \<Rightarrow> check_mode \<Rightarrow> jstr \<Rightarrow> ('s, error, jstr list) op" where
  "comparablePaths io h mode =
     (case mode of Sync_root_lock \<Rightarrow> strictMutationComparablePaths io h | Root_mode \<Rightarrow> resolveMutationComparablePaths io h)"

definition policyEntry :: "host \<Rightarrow> bool \<Rightarrow> jstr \<Rightarrow> error + jstr" where
  "policyEntry h strict entry =
     bindE (throwIf (strict \<and> (entry = [] \<or> \<not> posixIsAbsolute entry))
              (throwFs Invalid_path ''deny mutation paths must be non-empty absolute paths'')) (\<lambda>_.
     bindE (throwIf (entry = []) (throwFs Invalid_path ''deny mutation paths must be non-empty'')) (\<lambda>_.
     bindE (assertNoNulPathInput entry ''deny mutation path contains a NUL byte'') (\<lambda>_.
     bindE (throwIf (\<not> strict \<and> \<not> posixIsAbsolute entry)
              (throwFs Invalid_path ''deny mutation paths must be absolute'')) (\<lambda>_.
       Inr (if strict then resolvePathPreservingWindowsRoot h entry else entry)))))"

definition listed :: "jstr list option \<Rightarrow> jstr list" where
  "listed entries = (case entries of None \<Rightarrow> [] | Some es \<Rightarrow> es)"

definition policyPathEntries :: "host \<Rightarrow> bool \<Rightarrow> jstr list option \<Rightarrow> error + jstr list" where
  "policyPathEntries h strict entries = mapE (policyEntry h strict) (listed entries)"

definition deniedError :: error where
  "deniedError = throwFs Denied_path ''path is denied by denyMutations policy''"

text \<open>The loops over the entries, the targets and the spellings of an entry.\<close>

fun eachS :: "('x \<Rightarrow> ('s, error, unit) op) \<Rightarrow> 'x list \<Rightarrow> ('s, error, unit) op" where
  "eachS f [] = returnS ()"
| "eachS f (x # xs) = bindS (f x) (\<lambda>_. eachS f xs)"

definition assertEntry ::
    "('s, 'z) mutation_io_scheme \<Rightarrow> unicode \<Rightarrow> host \<Rightarrow> check_mode \<Rightarrow> bool \<Rightarrow> bool \<Rightarrow> jstr list \<Rightarrow> jstr \<Rightarrow>
     ('s matcher, error, unit) op" where
  "assertEntry io u h mode protectAncestors asPrefix targets entry =
     bindS (onWorld (comparablePaths io h mode entry)) (\<lambda>deniedPaths.
       eachS (\<lambda>target. eachS (\<lambda>denied.
         bindS (matches io u h target denied asPrefix protectAncestors) (\<lambda>hit.
           if hit then throwS deniedError else returnS ())) deniedPaths) targets)"

definition assertPhase ::
    "('s, 'z) mutation_io_scheme \<Rightarrow> unicode \<Rightarrow> host \<Rightarrow> check_mode \<Rightarrow> bool \<Rightarrow> jstr list \<Rightarrow> bool \<Rightarrow> jstr list option \<Rightarrow>
     ('s matcher, error, unit) op" where
  "assertPhase io u h mode protectAncestors targets asPrefix entries =
     bindS (liftS (policyPathEntries h (mode = Sync_root_lock) entries)) (\<lambda>checked.
       eachS (assertEntry io u h mode protectAncestors asPrefix targets) checked)"

text \<open>A new matcher, for this policy check only.\<close>

definition withMatcher :: "('s matcher, error, 'a) op \<Rightarrow> ('s, error, 'a) op" where
  "withMatcher check = (\<lambda>s. case check (newMatcher s) of (r, m) \<Rightarrow> (r, mtWorld m))"

lemma withMatcher_ok [simp, guards]:
  "withMatcher check s = (Inr x, t) \<longleftrightarrow> (\<exists>m. check (newMatcher s) = (Inr x, m) \<and> t = mtWorld m)"
  by (auto simp: withMatcher_def split: prod.splits)

definition assertMutationNotDenied ::
    "('s, 'z) mutation_io_scheme \<Rightarrow> unicode \<Rightarrow> host \<Rightarrow> jstr \<Rightarrow> deny_policy option \<Rightarrow> bool \<Rightarrow> check_mode \<Rightarrow> ('s, error, unit) op" where
  "assertMutationNotDenied io u h filePath policy protectAncestors mode =
     (case policy of
        None \<Rightarrow> returnS ()
      | Some p \<Rightarrow>
          if listed (dpPaths p) = [] \<and> listed (dpPrefixes p) = [] then returnS ()
          else bindS (comparablePaths io h mode filePath) (\<lambda>targets.
            withMatcher
              (bindS (assertPhase io u h mode protectAncestors targets False (dpPaths p))
                 (\<lambda>_. assertPhase io u h mode protectAncestors targets True (dpPrefixes p)))))"

definition mergeDenyMutationPolicies :: "deny_policy option \<Rightarrow> deny_policy option \<Rightarrow> deny_policy option" where
  "mergeDenyMutationPolicies defaultPolicy callPolicy =
     (case defaultPolicy of
        None \<Rightarrow> callPolicy
      | Some d \<Rightarrow>
          (case callPolicy of
             None \<Rightarrow> Some d
           | Some c \<Rightarrow> Some \<lparr>dpPaths = Some (listed (dpPaths d) @ listed (dpPaths c)),
               dpPrefixes = Some (listed (dpPrefixes d) @ listed (dpPrefixes c))\<rparr>))"

end
