(* ===== verification/DenySafety.thy ===== *)
theory DenySafety
  imports DenyMutations
begin

text \<open>
  What the mutation policy promises. A target that is not denied is not a denied path nor below a denied
  prefix, in any of the spellings that are compared and whatever the file system answers; over a file
  system at rest this holds of where the paths really are, and of names that exist nowhere yet but that the
  file system may take for a denied one. A merged policy denies what either part denies.
\<close>

subsection \<open>What passed\<close>

lemma eachS_passed:
  "eachS f xs m = (Inr v, t) \<Longrightarrow> I m \<Longrightarrow> (\<And>x m w m'. x \<in> set xs \<Longrightarrow> I m \<Longrightarrow> f x m = (Inr w, m') \<Longrightarrow> I m') \<Longrightarrow>
   I t \<and> (\<forall>x \<in> set xs. \<exists>m1 m2. I m1 \<and> f x m1 = (Inr (), m2))"
proof (induction xs arbitrary: m)
  case (Cons x xs)
  obtain m' where m: "f x m = (Inr (), m')" "eachS f xs m' = (Inr v, t)" using Cons.prems(1) by (auto simp: bindS_ok)
  have "I m'" using Cons.prems(2,3) m(1) by (meson list.set_intros(1))
  from Cons.IH [OF m(2) this] Cons.prems(2,3) m(1) show ?case by (metis list.set_intros(2) set_ConsD)
qed simp

lemma mapE_images: "mapE f xs = Inr ys \<Longrightarrow> x \<in> set xs \<Longrightarrow> \<exists>y \<in> set ys. f x = Inr y"
  by (induction xs arbitrary: ys) (auto simp: bindE_Inr_iff)

text \<open>The entries of a policy of one kind.\<close>

definition entriesOf :: "deny_policy \<Rightarrow> bool \<Rightarrow> jstr list" where
  "entriesOf policy asPrefix = listed (if asPrefix then dpPrefixes policy else dpPaths policy)"

text \<open>No pair of a target and a spelling of the entry matched.\<close>

definition passedAll ::
    "('s matcher \<Rightarrow> bool) \<Rightarrow> ('s, 'z) mutation_io_scheme \<Rightarrow> unicode \<Rightarrow> host \<Rightarrow> check_mode \<Rightarrow> bool \<Rightarrow> bool \<Rightarrow> jstr list \<Rightarrow>
     jstr \<Rightarrow> bool" where
  "passedAll I io u h mode protectAncestors asPrefix targets entry \<longleftrightarrow>
     (\<exists>deniedPaths m0 m0'. I m0 \<and> onWorld (comparablePaths io h mode entry) m0 = (Inr deniedPaths, m0') \<and>
        (\<forall>target \<in> set targets. \<forall>denied \<in> set deniedPaths.
           \<exists>m1 m2. I m1 \<and> matches io u h target denied asPrefix protectAncestors m1 = (Inr False, m2)))"

text \<open>What holds of the matcher and of the paths compared throughout a check.\<close>

locale check_invariant =
  fixes io :: "('s, 'z) mutation_io_scheme" and u :: unicode and h :: host and mode :: check_mode
    and I :: "'s matcher \<Rightarrow> bool" and N :: "jstr \<Rightarrow> bool"
  assumes comparable_keeps: "I m \<Longrightarrow> onWorld (comparablePaths io h mode p) m = (Inr ps, m') \<Longrightarrow> I m' \<and> (\<forall>x \<in> set ps. N x)"
    and matches_keeps: "I m \<Longrightarrow> N target \<Longrightarrow> N denied \<Longrightarrow>
      matches io u h target denied asPrefix protectAncestors m = (Inr b, m') \<Longrightarrow> I m'"
begin

lemma pair_keeps:
  assumes "I m" "N target" "N denied"
    and "bindS (matches io u h target denied asPrefix protectAncestors) (\<lambda>hit. if hit then throwS deniedError else returnS ()) m = (Inr v, m')"
  shows "matches io u h target denied asPrefix protectAncestors m = (Inr False, m') \<and> I m'"
  using assms(4) matches_keeps [OF assms(1-3)] by (auto simp: bindS_ok split: if_splits)

lemma assertEntry_passed:
  assumes "I m" "\<forall>target \<in> set targets. N target"
    and "assertEntry io u h mode protectAncestors asPrefix targets entry m = (Inr v, t)"
  shows "I t \<and> passedAll I io u h mode protectAncestors asPrefix targets entry"
proof -
  let ?pair = "\<lambda>target denied. bindS (matches io u h target denied asPrefix protectAncestors) (\<lambda>hit.
      if hit then throwS deniedError else returnS ())"
  obtain deniedPaths w where d: "onWorld (comparablePaths io h mode entry) m = (Inr deniedPaths, w)"
    "eachS (\<lambda>target. eachS (?pair target) deniedPaths) targets w = (Inr v, t)"
    using assms(3) unfolding assertEntry_def bindS_ok by blast
  have w: "I w" "\<forall>x \<in> set deniedPaths. N x" using comparable_keeps [OF assms(1) d(1)] by blast+
  have inner: "I m2 \<and> (\<forall>denied \<in> set deniedPaths. \<exists>m3 m4. I m3 \<and> ?pair target denied m3 = (Inr (), m4))"
    if t: "target \<in> set targets" "I m1" and run: "eachS (?pair target) deniedPaths m1 = (Inr x, m2)" for target m1 m2 x
    using pair_keeps assms(2) w(2) t(1) by (intro eachS_passed [where I = I, OF run t(2)]) blast
  have all: "I t \<and> (\<forall>target \<in> set targets. \<exists>m1 m2. I m1 \<and> eachS (?pair target) deniedPaths m1 = (Inr (), m2))"
    using inner by (intro eachS_passed [where I = I, OF d(2) w(1)]) blast
  have "\<exists>m1 m2. I m1 \<and> matches io u h target denied asPrefix protectAncestors m1 = (Inr False, m2)"
    if td: "target \<in> set targets" "denied \<in> set deniedPaths" for target denied
  proof -
    obtain m3 m4 where "I m3" "?pair target denied m3 = (Inr (), m4)" using all inner td by blast
    then show ?thesis using pair_keeps [of m3 target denied] assms(2) w(2) td by blast
  qed
  then show ?thesis using all assms(1) d(1) unfolding passedAll_def by blast
qed

lemma assertPhase_passed:
  assumes "I m" "\<forall>target \<in> set targets. N target"
    and "assertPhase io u h mode protectAncestors targets asPrefix entries m = (Inr v, t)"
  shows "I t \<and> (\<forall>entry \<in> set (listed entries). \<exists>checked.
    policyEntry h (mode = Sync_root_lock) entry = Inr checked \<and> passedAll I io u h mode protectAncestors asPrefix targets checked)"
proof -
  obtain all where a: "policyPathEntries h (mode = Sync_root_lock) entries = Inr all"
    "eachS (assertEntry io u h mode protectAncestors asPrefix targets) all m = (Inr v, t)"
    using assms(3) by (auto simp: assertPhase_def bindS_ok)
  have e: "I t \<and> (\<forall>checked \<in> set all. \<exists>m1 m2. I m1 \<and> assertEntry io u h mode protectAncestors asPrefix targets checked m1 = (Inr (), m2))"
    using assertEntry_passed [OF _ assms(2)] by (intro eachS_passed [where I = I, OF a(2) assms(1)]) blast
  have "\<exists>checked. policyEntry h (mode = Sync_root_lock) entry = Inr checked \<and> passedAll I io u h mode protectAncestors asPrefix targets checked"
    if l: "entry \<in> set (listed entries)" for entry
  proof -
    obtain checked where "checked \<in> set all" "policyEntry h (mode = Sync_root_lock) entry = Inr checked"
      using mapE_images [OF a(1) [unfolded policyPathEntries_def] l] by blast
    then show ?thesis using e assertEntry_passed [OF _ assms(2)] by blast
  qed
  then show ?thesis using e by blast
qed

lemma allowed_passed:
  assumes "assertMutationNotDenied io u h filePath (Some policy) protectAncestors mode s = (Inr v, t)"
    and entry: "entry \<in> set (entriesOf policy asPrefix)"
    and start: "\<And>targets s1. comparablePaths io h mode filePath s = (Inr targets, s1) \<Longrightarrow>
      I (newMatcher s1) \<and> (\<forall>target \<in> set targets. N target)"
  shows "\<exists>targets s1 checked. comparablePaths io h mode filePath s = (Inr targets, s1) \<and>
    policyEntry h (mode = Sync_root_lock) entry = Inr checked \<and> passedAll I io u h mode protectAncestors asPrefix targets checked"
proof -
  have "\<not> (listed (dpPaths policy) = [] \<and> listed (dpPrefixes policy) = [])"
    using entry by (auto simp: entriesOf_def split: if_splits)
  then obtain targets s1 m m' where c: "comparablePaths io h mode filePath s = (Inr targets, s1)"
    "assertPhase io u h mode protectAncestors targets False (dpPaths policy) (newMatcher s1) = (Inr (), m)"
    "assertPhase io u h mode protectAncestors targets True (dpPrefixes policy) m = (Inr v, m')"
    using assms(1) by (auto simp: assertMutationNotDenied_def bindS_ok split: if_splits)
  note n = start [OF c(1)]
  have first: "I m \<and> (\<forall>entry \<in> set (listed (dpPaths policy)). \<exists>checked.
      policyEntry h (mode = Sync_root_lock) entry = Inr checked \<and> passedAll I io u h mode protectAncestors False targets checked)"
    using n by (intro assertPhase_passed [OF _ _ c(2)]) blast+
  have "\<forall>entry \<in> set (listed (dpPrefixes policy)). \<exists>checked.
      policyEntry h (mode = Sync_root_lock) entry = Inr checked \<and> passedAll I io u h mode protectAncestors True targets checked"
    using assertPhase_passed [OF _ _ c(3)] first n by blast
  then show ?thesis using first entry c(1) by (cases asPrefix) (auto simp: entriesOf_def)
qed

end

interpretation anything: check_invariant io u h mode "\<lambda>_. True" "\<lambda>_. True" for io u h mode
  by unfold_locales simp_all

lemma matches_apart:
  assumes "matches io u h target denied asPrefix protectAncestors m = (Inr False, t)"
  shows "\<not> (isPathInside u h denied target \<and> (asPrefix \<or> isPathInside u h target denied)) \<and>
    \<not> (protectAncestors \<and> isPathInside u h target denied)"
  using assms by (auto simp: matches_def split: if_splits)

lemma resolved_segs: "posixHost h \<Longrightarrow> resolvePathPreservingWindowsRoot h p = absPath (hostSegs h p)"
  using posixResolve_resolvedSegs by (simp add: resolvePathPreserving_posix posixHost_def hostSegs_def)

lemma comparable_resolved:
  assumes "posixHost h" "comparablePaths io h mode p s = (Inr ps, t)"
  shows "absPath (hostSegs h p) \<in> set ps"
  using assms(2) resolved_segs [OF assms(1), of p]
  by (cases mode)
    (auto simp: comparablePaths_def resolveMutationComparablePaths_def strictMutationComparablePaths_def Let_def
      bindS_ok split: if_splits)

lemma hostSegs_absPath: "wfSegs segs \<Longrightarrow> hostSegs h (absPath segs) = segs"
  by (simp add: hostSegs_def)

lemma hostSegs_wf [simp]: "wfSegs (hostSegs h p)"
  by (simp add: hostSegs_def)

lemma policyEntry_ok:
  assumes "posixHost h" "policyEntry h strict entry = Inr checked"
  shows "posixIsAbsolute entry \<and> 0 \<notin> set entry \<and> hostSegs h checked = hostSegs h entry"
  using assms resolved_segs [OF assms(1), of entry]
  by (auto simp: policyEntry_def bindE_Inr_iff assertNoNulPathInput_def hasChar_def hostSegs_absPath split: if_splits)

text \<open>What it means that a target keeps clear of an entry.\<close>

definition clearOf :: "bool \<Rightarrow> bool \<Rightarrow> jstr list \<Rightarrow> jstr list \<Rightarrow> bool" where
  "clearOf asPrefix protectAncestors denied target \<longleftrightarrow>
     (if asPrefix then \<not> prefix denied target else denied \<noteq> target) \<and> (protectAncestors \<longrightarrow> \<not> prefix target denied)"

lemma matches_clear:
  assumes "posixHost h" "matches io u h target denied asPrefix protectAncestors m = (Inr False, t)"
  shows "clearOf asPrefix protectAncestors (hostSegs h denied) (hostSegs h target)"
  using matches_apart [OF assms(2)] prefix_order.eq_iff
  by (auto simp: clearOf_def isPathInside_prefix [OF assms(1)])

text \<open>C9: whatever the file system answers, and however it changes during the check, a mutation that is
  allowed is clear of the policy: the segments of the target are not those of a denied path, do not begin
  with those of a denied prefix, and, where ancestors are protected, do not lead to a denied path; and every
  entry of the policy was an absolute path without NUL bytes.\<close>

theorem allowed_mutation_is_clear:
  assumes "posixHost h" "assertMutationNotDenied io u h filePath (Some policy) protectAncestors mode s = (Inr v, t)"
  shows "\<forall>asPrefix. \<forall>entry \<in> set (entriesOf policy asPrefix).
    posixIsAbsolute entry \<and> 0 \<notin> set entry \<and> clearOf asPrefix protectAncestors (hostSegs h entry) (hostSegs h filePath)"
proof (intro allI ballI)
  fix asPrefix entry
  assume e: "entry \<in> set (entriesOf policy asPrefix)"
  obtain targets s1 checked where a: "comparablePaths io h mode filePath s = (Inr targets, s1)"
    "policyEntry h (mode = Sync_root_lock) entry = Inr checked" "passedAll (\<lambda>_. True) io u h mode protectAncestors asPrefix targets checked"
    using anything.allowed_passed [OF assms(2) e] by blast
  obtain deniedPaths m0 m0' where d: "onWorld (comparablePaths io h mode checked) m0 = (Inr deniedPaths, m0')"
    "\<forall>target \<in> set targets. \<forall>denied \<in> set deniedPaths.
       \<exists>m1 m2. matches io u h target denied asPrefix protectAncestors m1 = (Inr False, m2)"
    using a(3) unfolding passedAll_def by blast
  obtain w where "comparablePaths io h mode checked (mtWorld m0) = (Inr deniedPaths, w)"
    using d(1) by (auto simp: onWorld_def)
  then have "absPath (hostSegs h checked) \<in> set deniedPaths" by (rule comparable_resolved [OF assms(1)])
  moreover have "absPath (hostSegs h filePath) \<in> set targets" by (rule comparable_resolved [OF assms(1) a(1)])
  ultimately obtain m3 m4 where
    "matches io u h (absPath (hostSegs h filePath)) (absPath (hostSegs h checked)) asPrefix protectAncestors m3 = (Inr False, m4)"
    using d(2) by blast
  from matches_clear [OF assms(1) this] policyEntry_ok [OF assms(1) a(2)]
  show "posixIsAbsolute entry \<and> 0 \<notin> set entry \<and> clearOf asPrefix protectAncestors (hostSegs h entry) (hostSegs h filePath)"
    by (simp add: hostSegs_absPath)
qed

subsection \<open>At rest\<close>

lemma still_existingCursor [keeping]:
  assumes "\<And>p. still s (exists p)"
  shows "still s (existingCursor exists cursor)"
proof (induction "dirnameMeasure cursor" arbitrary: cursor rule: less_induct)
  case less
  show ?case
  proof (cases "cursor = [SLASH] \<or> posixDirname cursor = cursor")
    case True
    then show ?thesis by (auto simp: still_iff existingCursor.simps)
  next
    case False
    obtain r where r: "exists cursor s = (r, s)" using assms [of cursor] by (metis still_iff prod.collapse)
    have "still s (existingCursor exists (posixDirname cursor))"
      using less [OF posixDirname_measure] False by blast
    then show ?thesis using False r by (subst still_iff, subst existingCursor.simps) (auto simp: still_iff split: sum.split)
  qed
qed

lemma still_pathExists [keeping]: "atRest io s \<Longrightarrow> still s (pathExists io p)"
  by (auto simp: pathExists_def intro!: keeping)

lemma existingAncestor_no_hop:
  "existingAncestor io h mode False hop = existingAncestor io h mode False (\<lambda>_. throwS unresolvedLink)"
  unfolding existingAncestor_def not_False_eq_True if_True by (rule refl)

lemma still_comparable:
  assumes "mutationRest io s"
  shows "still s (comparablePaths io h mode p)"
proof -
  have rest: "atRest io s" using assms by (simp add: mutationRest_def)
  have "still s (existingAncestor io h Native False hop q)" for hop q
    unfolding existingAncestor_no_hop [of io h Native hop] unfolding existingAncestor_def Let_def ancestorExists_def
    by (auto intro!: keeping rest assms split: option.split)
  then show ?thesis
    unfolding comparablePaths_def resolveMutationComparablePaths_def strictMutationComparablePaths_def
      resolveExistingAncestor_def Let_def
    by (cases mode; simp) (intro keeping rest assms; auto)+
qed

lemma pathResolve_normal: "posixHost h \<Longrightarrow> \<exists>segs. wfSegs segs \<and> pathResolve h [p] = absPath segs"
  using posixResolve_resolvedSegs [of "cwd h" p] wfSegs_resolvedSegs [of "cwd h" p]
  by (metis pathResolve_posix posixHost_def)

lemma pathResolve_below: "posixHost h \<Longrightarrow> \<exists>segs. wfSegs segs \<and> pathResolve h [a, [DOT, SLASH] @ b] = absPath segs"
  using posixResolve_pair [of "cwd h" "[DOT, SLASH] @ b" a]
    wfSegs_normSegs [OF wfSegs_resolvedSegs, of "cwd h" a "[DOT, SLASH] @ b"]
  by (simp only: pathResolve_posix posixHost_def) (force simp: posixIsAbsolute_def)

lemma comparable_normal:
  assumes "posixHost h" "normalRealpaths io" "comparablePaths io h mode p s = (Inr ps, t)" "x \<in> set ps"
  shows "\<exists>segs. wfSegs segs \<and> x = absPath segs"
proof (cases "x = absPath (hostSegs h p)")
  case True
  then show ?thesis using hostSegs_wf by blast
next
  case False
  show ?thesis
  proof (cases mode)
    case Root_mode
    then obtain q u v where "existingAncestor io h Native False q (absPath (hostSegs h p)) u = (Inr x, v)"
      using assms(3,4) False
      by (auto simp: comparablePaths_def resolveMutationComparablePaths_def Let_def resolved_segs [OF assms(1)] bindS_ok
          resolveExistingAncestor_def split: if_splits)
    then show ?thesis
      using pathResolve_normal [OF assms(1)] pathResolve_below [OF assms(1)]
      by (auto simp: existingAncestor_def Let_def bindS_ok split: if_splits option.splits)
  next
    case Sync_root_lock
    then have "\<exists>c u q v. ioRealpath io c u = (Inr q, v) \<and> (x = q \<or> (\<exists>b. x = pathResolve h [q, [DOT, SLASH] @ b]))"
      using assms(3,4) False
      by (auto simp: comparablePaths_def strictMutationComparablePaths_def Let_def resolved_segs [OF assms(1)] bindS_ok
          split: if_splits) blast+
    then show ?thesis using assms(2) pathResolve_below [OF assms(1)] unfolding normalRealpaths_def by blast
  qed
qed

subsection \<open>The matcher at rest\<close>

text \<open>A directory that is where its path says.\<close>

definition place :: "('s, 'z) mutation_io_scheme \<Rightarrow> 's \<Rightarrow> jstr list \<Rightarrow> bool" where
  "place io s dir \<longleftrightarrow> wfSegs dir \<and>
     (\<forall>q. fst (ioRealpath io (absPath dir) s) = Inr q \<longrightarrow> q = absPath dir) \<and>
     (\<exists>st. fst (ioStat io (absPath dir) s) = Inr st \<and> bsKind st = Directory)"

definition goodMatcher :: "('s, 'z) mutation_io_scheme \<Rightarrow> 's \<Rightarrow> jstr list \<Rightarrow> 's matcher \<Rightarrow> bool" where
  "goodMatcher io s dir m \<longleftrightarrow>
     mtWorld m = s \<and>
     (\<forall>p seen. mtObservations m p = Some seen \<longrightarrow> observeMutationPath io p s = (Inr seen, s)) \<and>
     (foldsAscii io s (absPath dir) \<longrightarrow> mtCases m (absPath dir) \<noteq> Some (Some False))"

lemma newMatcher_good: "goodMatcher io s dir (newMatcher s)"
  by (simp add: goodMatcher_def newMatcher_def)

lemma onWorld_run: "mtWorld m = s \<Longrightarrow> g s = (r, s) \<Longrightarrow> onWorld g m = (r, m)"
  by (cases m) (simp add: onWorld_def zoomS_def)

lemma observe_good:
  assumes "mutationRest io s" "goodMatcher io s dir m"
  shows "\<exists>seen m'. observe io p m = (Inr seen, m') \<and> observeMutationPath io p s = (Inr seen, s) \<and> goodMatcher io s dir m'"
proof (cases "mtObservations m p")
  case (Some seen)
  then show ?thesis using assms(2) by (auto simp: observe_def goodMatcher_def)
next
  case None
  obtain seen where o: "observeMutationPath io p s = (Inr seen, s)" using observe_total [OF assms(1)] by blast
  have "onWorld (observeMutationPath io p) m = (Inr seen, m)"
    using assms(2) o by (intro onWorld_run) (simp_all add: goodMatcher_def)
  then have "observe io p m = (Inr seen, m\<lparr>mtObservations := (mtObservations m)(p \<mapsto> seen)\<rparr>)"
    using None by (simp add: observe_def bindS_def updateS_def returnS_def)
  then show ?thesis using assms(2) o by (auto simp: goodMatcher_def)
qed

lemma caseAt_good:
  assumes "mutationRest io s" "posixHost h" "goodMatcher io s dir m" "place io s dir" "wfSegs (c @ [name])"
  shows "\<exists>answer m'. caseAt io h (absPath c) name m = (Inr answer, m') \<and> goodMatcher io s dir m' \<and>
    (c = dir \<and> foldsAscii io s (absPath dir) \<longrightarrow> answer \<noteq> Some False)"
proof (cases "mtCases m (absPath c)")
  case (Some answer)
  then show ?thesis using assms(3) by (auto simp: caseAt_def goodMatcher_def)
next
  case None
  have rest: "atRest io s" using assms(1) by (simp add: mutationRest_def)
  have p: "pathResolve h [posixJoin [absPath c, name]] = absPath (c @ [name])"
    using assms(2) posixResolve_resolvedSegs [of "cwd h"] assms(5)
    by (simp add: posixJoin_child [OF assms(5)] pathResolve_posix posixHost_def del: wfSegs_snoc)
  obtain answer where a: "probePathCaseInsensitiveSync io h (posixJoin [absPath c, name]) s = (Inr answer, s)"
    "c = dir \<longrightarrow> answersFor io s (absPath dir) answer"
    using probe_asks [OF rest p assms(5)] probe_child [OF rest assms(2,5)] assms(4) unfolding place_def by metis
  have honest: "c = dir \<and> foldsAscii io s (absPath dir) \<longrightarrow> answer \<noteq> Some False"
    using a(2) assms(4) by (auto simp: answersFor_def place_def)
  have "onWorld (probePathCaseInsensitiveSync io h (posixJoin [absPath c, name])) m = (Inr answer, m)"
    using assms(3) a(1) by (intro onWorld_run) (simp_all add: goodMatcher_def)
  then have run: "caseAt io h (absPath c) name m = (Inr answer, m\<lparr>mtCases := (mtCases m)(absPath c \<mapsto> answer)\<rparr>)"
    using None by (simp add: caseAt_def bindS_def updateS_def returnS_def)
  have "absPath c = absPath dir \<Longrightarrow> c = dir" using absPath_inject assms(4,5) by (simp add: place_def)
  then have "goodMatcher io s dir (m\<lparr>mtCases := (mtCases m)(absPath c \<mapsto> answer)\<rparr>)"
    using assms(3) honest by (auto simp: goodMatcher_def)
  then show ?thesis using run honest by blast
qed

lemma compare_good:
  assumes "mutationRest io s" "posixHost h" "goodMatcher io s dir m" "place io s dir"
    and "moCanonicalAncestor a = absPath c" "moMissing a \<noteq> [] \<longrightarrow> wfSegs (c @ [hd (moMissing a)])"
  shows "\<exists>r m'. compareObservations io u h a b m = (Inr r, m') \<and> goodMatcher io s dir m' \<and>
    (c = dir \<and> moCanonicalAncestor b = absPath dir \<and> moMissing a \<noteq> [] \<and> sameFolded u (moMissing a) (moMissing b) \<and>
     (hd (moMissing a) \<noteq> hd (moMissing b) \<and> asciiCasePair u (hd (moMissing a)) (hd (moMissing b)) \<longrightarrow> foldsAscii io s (absPath dir)) \<longrightarrow> r)"
proof (cases "moCanonicalAncestor a \<noteq> moCanonicalAncestor b \<or> moMissing a = [] \<or>
    length (moMissing a) \<noteq> length (moMissing b) \<or> \<not> sameFolded u (moMissing a) (moMissing b)")
  case True
  then have "compareObservations io u h a b m = (Inr False, m)" by (auto simp: compareObservations_def returnS_def)
  moreover have "sameFolded u (moMissing a) (moMissing b) \<Longrightarrow> length (moMissing a) = length (moMissing b)"
    unfolding sameFolded_def by (rule list_all2_lengthD)
  then have "\<not> (c = dir \<and> moCanonicalAncestor b = absPath dir \<and> moMissing a \<noteq> [] \<and> sameFolded u (moMissing a) (moMissing b))"
    using True assms(5) by metis
  ultimately show ?thesis using assms(3) by blast
next
  case False
  let ?d = "firstDifference (\<noteq>) (moMissing a) (moMissing b)"
  show ?thesis
  proof (cases "?d = Some 0 \<and> asciiCasePair u (hd (moMissing a)) (hd (moMissing b))")
    case True
    obtain x xs y ys where l: "moMissing a = x # xs" "moMissing b = y # ys"
      using False by (cases "moMissing a"; cases "moMissing b") auto
    have "x \<noteq> y" using True l by (auto split: if_splits)
    obtain answer m' where c: "caseAt io h (absPath c) x m = (Inr answer, m')" "goodMatcher io s dir m'"
      "c = dir \<and> foldsAscii io s (absPath dir) \<longrightarrow> answer \<noteq> Some False"
      using caseAt_good [OF assms(1-4), of c x] assms(6) l by auto
    then have "compareObservations io u h a b m = (Inr (answer \<noteq> Some False), m')"
      using False True l assms(5) by (simp add: compareObservations_def bindS_def returnS_def)
    then show ?thesis using c l True \<open>x \<noteq> y\<close> by auto
  next
    case no: False
    then have "compareObservations io u h a b m = (Inr True, m)"
      using False by (auto simp: compareObservations_def returnS_def split: option.split)
    then show ?thesis using assms(3) by auto
  qed
qed

definition segsOf :: "jstr list \<Rightarrow> jstr list" where
  "segsOf segs = (if segs = [] then [[]] else segs)"

lemma split_absPath:
  assumes "wfSegs segs"
  shows "splitOn SLASH (drop 1 (absPath segs)) = segsOf segs"
  using assms splitOn_joinOn [of segs SLASH] by (auto simp: absPath_def segsOf_def wfSegs_def)

lemma join_taken:
  assumes "wfSegs segs" "n \<noteq> 0"
  shows "posixJoin ([SLASH] # take n (segsOf segs)) = absPath (take n segs)"
proof (cases "segs = []")
  case True
  then have "take n (segsOf segs) = [[]]" using assms(2) by (cases n) (simp_all add: segsOf_def)
  then show ?thesis using True by (simp only: take_Nil) code_simp
next
  case False
  have "wfSegs ([] @ take n segs)" using assms(1) by (auto simp: wfSegs_def dest: in_set_takeD)
  then show ?thesis using posixJoin_absPath [of "[]" "take n segs"] False by (simp add: segsOf_def absPath_Nil)
qed

lemma prospective_segs:
  assumes "wfSegs p" "wfSegs q"
  shows "prospectiveInside io u h (absPath p) (absPath q) =
    (let left = segsOf p; right = take (length left) (segsOf q)
     in if length left \<noteq> length right \<or> \<not> sameFolded u left right \<or> left = right then returnS False
        else bindS (observe io (absPath p)) (\<lambda>a.
             bindS (observe io (absPath (take (length left) q))) (\<lambda>b.
               case (a, b) of (Some a, Some b) \<Rightarrow> compareObservations io u h a b | _ \<Rightarrow> returnS True)))"
proof -
  have n: "length (segsOf p) \<noteq> 0" by (simp add: segsOf_def)
  show ?thesis
    using assms split_absPath [of p] split_absPath [of q] join_taken [OF assms(2) n]
    by (simp add: prospectiveInside_def Let_def)
qed

lemma prospective_good:
  assumes "mutationRest io s" "normalRealpaths io" "posixHost h" "goodMatcher io s dir m" "place io s dir"
    and p: "wfSegs p" and q: "wfSegs q"
  shows "\<exists>r m'. prospectiveInside io u h (absPath p) (absPath q) m = (Inr r, m') \<and> goodMatcher io s dir m'"
proof -
  let ?left = "segsOf p" let ?right = "take (length ?left) (segsOf q)"
  show ?thesis
  proof (cases "length ?left \<noteq> length ?right \<or> \<not> sameFolded u ?left ?right \<or> ?left = ?right")
    case True
    then show ?thesis using assms(4) by (auto simp: prospective_segs [OF p q] Let_def returnS_def)
  next
    case False
    obtain a m1 where a: "observe io (absPath p) m = (Inr a, m1)" "observeMutationPath io (absPath p) s = (Inr a, s)"
      "goodMatcher io s dir m1" using observe_good [OF assms(1,4)] by blast
    obtain b m2 where b: "observe io (absPath (take (length ?left) q)) m1 = (Inr b, m2)" "goodMatcher io s dir m2"
      using observe_good [OF assms(1) a(3)] by blast
    have run: "prospectiveInside io u h (absPath p) (absPath q) m =
        (case (a, b) of (Some a, Some b) \<Rightarrow> compareObservations io u h a b | _ \<Rightarrow> returnS True) m2"
      using False a(1) b(1) by (auto simp: prospective_segs [OF p q] Let_def bindS_def)
    show ?thesis
    proof (cases a)
      case None
      then show ?thesis using run b(2) by (auto simp: returnS_def)
    next
      case (Some x)
      obtain c k where c: "wfSegs c" "moCanonicalAncestor x = absPath c" "moMissing x = drop k p"
        using observe_shape [OF assms(2) p] a(2) Some by blast
      have "hd (drop k p) \<in> set p" if "drop k p \<noteq> []" using hd_in_set [OF that] by (rule in_set_dropD)
      then have "wfSegs (c @ [hd (moMissing x)])" if "moMissing x \<noteq> []"
        using that c p by (auto simp: wfSegs_def)
      then have "\<exists>r m'. compareObservations io u h x y m2 = (Inr r, m') \<and> goodMatcher io s dir m'" for y
        using compare_good [OF assms(1,3) b(2) assms(5) c(2)] by blast
      then show ?thesis using run Some b(2) by (cases b) (auto simp: returnS_def)
    qed
  qed
qed

lemma matches_good:
  assumes "mutationRest io s" "normalRealpaths io" "posixHost h" "goodMatcher io s dir m" "place io s dir"
    and "wfSegs p" "wfSegs q" "matches io u h (absPath p) (absPath q) asPrefix protectAncestors m = (r, m')"
  shows "goodMatcher io s dir m'"
proof -
  obtain r1 m1 where a: "prospectiveInside io u h (absPath q) (absPath p) m = (Inr r1, m1)" "goodMatcher io s dir m1"
    using prospective_good [OF assms(1-5) assms(7,6)] by blast
  obtain r2 m2 where b: "prospectiveInside io u h (absPath p) (absPath q) m1 = (Inr r2, m2)" "goodMatcher io s dir m2"
    using prospective_good [OF assms(1-3) a(2) assms(5-7)] by blast
  obtain r3 m3 where c: "prospectiveInside io u h (absPath p) (absPath q) m = (Inr r3, m3)" "goodMatcher io s dir m3"
    using prospective_good [OF assms(1-7)] by blast
  show ?thesis
    using assms(8) a b c assms(4)
    by (auto simp: matches_def bindS_def returnS_def split: if_splits)
qed

definition normalPath :: "jstr \<Rightarrow> bool" where
  "normalPath p \<longleftrightarrow> (\<exists>segs. wfSegs segs \<and> p = absPath segs)"

definition resting ::
    "('s, 'z) mutation_io_scheme \<Rightarrow> host \<Rightarrow> 's \<Rightarrow> jstr list \<Rightarrow> 's matcher \<Rightarrow> bool" where
  "resting io h s dir m \<longleftrightarrow>
     posixHost h \<and> mutationRest io s \<and> normalRealpaths io \<and> place io s dir \<and> goodMatcher io s dir m"

interpretation quiet: check_invariant io u h mode "resting io h s dir" normalPath for io u h mode s dir
proof unfold_locales
  fix m p ps m'
  assume a: "resting io h s dir m" "onWorld (comparablePaths io h mode p) m = (Inr ps, m')"
  have r: "posixHost h" "mutationRest io s" "normalRealpaths io" "mtWorld m = s" using a(1) by (auto simp: resting_def goodMatcher_def)
  obtain t where c: "comparablePaths io h mode p s = (Inr ps, t)" "m' = m\<lparr>mtWorld := t\<rparr>"
    using a(2) r(4) by (auto simp: onWorld_def)
  have "t = s" using still_run [OF still_comparable [OF r(2)] c(1)] .
  then have "m' = m" using c(2) r(4) by simp
  moreover have "\<forall>x \<in> set ps. normalPath x"
    using comparable_normal [OF r(1,3) c(1)] unfolding normalPath_def by blast
  ultimately show "resting io h s dir m' \<and> (\<forall>x \<in> set ps. normalPath x)" using a(1) by simp
next
  fix m target denied asPrefix protectAncestors b m'
  assume a: "resting io h s dir m" "normalPath target" "normalPath denied"
    "matches io u h target denied asPrefix protectAncestors m = (Inr b, m')"
  obtain p q where "wfSegs p" "target = absPath p" "wfSegs q" "denied = absPath q"
    using a(2,3) unfolding normalPath_def by blast
  then show "resting io h s dir m'"
    using matches_good [of io s h dir m p q u asPrefix protectAncestors "Inr b" m'] a(1,4) unfolding resting_def by simp
qed

subsection \<open>Names that exist nowhere yet\<close>

text \<open>The segments are missing below a directory that is there.\<close>

definition missingBelow :: "('s, 'z) mutation_io_scheme \<Rightarrow> 's \<Rightarrow> jstr list \<Rightarrow> jstr list \<Rightarrow> bool" where
  "missingBelow io s dir segs \<longleftrightarrow>
     \<not> isAbsent io s (absPath dir) \<and> (\<forall>k. 0 < k \<and> k \<le> length segs \<longrightarrow> isAbsent io s (absPath (dir @ take k segs)))"

lemma sameFolded_length: "sameFolded u a b \<Longrightarrow> length a = length b"
  unfolding sameFolded_def by (rule list_all2_lengthD)

lemma sameFolded_prefix: "sameFolded u (dir @ a) (dir @ b) \<longleftrightarrow> sameFolded u a b"
proof -
  have "list_all2 (\<lambda>a b. foldedName u a = foldedName u b) dir dir" by (simp add: list_all2_same)
  then show ?thesis by (auto simp: sameFolded_def list_all2_append)
qed

lemma prospective_hit:
  assumes "mutationRest io s" "normalRealpaths io" "posixHost h" "goodMatcher io s dir m" "place io s dir"
    and p: "wfSegs (dir @ md)" and q: "wfSegs (dir @ mt @ deeper)"
    and folded: "sameFolded u md mt" and "md \<noteq> mt" and missing: "missingBelow io s dir md" "missingBelow io s dir mt"
    and ascii: "hd md \<noteq> hd mt \<and> asciiCasePair u (hd md) (hd mt) \<longrightarrow> foldsAscii io s (absPath dir)"
  shows "\<exists>m'. prospectiveInside io u h (absPath (dir @ md)) (absPath (dir @ mt @ deeper)) m = (Inr True, m')"
proof -
  have len: "length md = length mt" using sameFolded_length [OF folded] .
  have ne: "md \<noteq> []" "mt \<noteq> []" using len assms(9) by auto
  have left: "segsOf (dir @ md) = dir @ md" "segsOf (dir @ mt @ deeper) = dir @ mt @ deeper" using ne by (simp_all add: segsOf_def)
  have right: "take (length (dir @ md)) (dir @ mt @ deeper) = dir @ mt" using len by simp
  have real: "\<forall>r. fst (ioRealpath io (absPath dir) s) = Inr r \<longrightarrow> r = absPath dir" using assms(5) by (simp add: place_def)
  have q': "wfSegs (dir @ mt)" using q by (auto simp: wfSegs_def)
  obtain a m1 where a: "observe io (absPath (dir @ md)) m = (Inr a, m1)" "goodMatcher io s dir m1"
    "observeMutationPath io (absPath (dir @ md)) s = (Inr a, s)" using observe_good [OF assms(1,4)] by blast
  obtain b m2 where b: "observe io (absPath (dir @ mt)) m1 = (Inr b, m2)" "goodMatcher io s dir m2"
    "observeMutationPath io (absPath (dir @ mt)) s = (Inr b, s)" using observe_good [OF assms(1) a(2)] by blast
  have a': "moCanonicalAncestor x = absPath dir \<and> moMissing x = md" if "a = Some x" for x
    using observe_missing [OF assms(1) p _ _ real] missing(1) a(3) that unfolding missingBelow_def by auto
  have b': "moCanonicalAncestor x = absPath dir \<and> moMissing x = mt" if "b = Some x" for x
    using observe_missing [OF assms(1) q' _ _ real] missing(2) b(3) that unfolding missingBelow_def by auto
  have run: "prospectiveInside io u h (absPath (dir @ md)) (absPath (dir @ mt @ deeper)) m =
      (case (a, b) of (Some a, Some b) \<Rightarrow> compareObservations io u h a b | _ \<Rightarrow> returnS True) m2"
    using a(1) b(1) folded assms(9) len
    unfolding prospective_segs [OF p q] Let_def left right
    by (simp add: sameFolded_prefix bindS_def)
  have "wfSegs (dir @ [hd md])" using p ne by (cases md) (auto simp: wfSegs_def)
  then have "\<exists>m'. compareObservations io u h x y m2 = (Inr True, m')" if some: "a = Some x" "b = Some y" for x y
  proof -
    have x: "moCanonicalAncestor x = absPath dir" "moMissing x = md" using a' [OF some(1)] by blast+
    have y: "moCanonicalAncestor y = absPath dir" "moMissing y = mt" using b' [OF some(2)] by blast+
    from compare_good [OF assms(1,3) b(2) assms(5) x(1), of u y, unfolded x(2) y]
    show ?thesis using ne(1) folded ascii \<open>wfSegs (dir @ [hd md])\<close> by metis
  qed
  then show ?thesis using run by (cases a; cases b) (auto simp: returnS_def)
qed

lemma comparable_checked:
  assumes "posixHost h" "policyEntry h (mode = Sync_root_lock) entry = Inr checked"
  shows "comparablePaths io h mode checked = comparablePaths io h mode entry"
proof (cases mode)
  case Root_mode
  then show ?thesis using assms(2) by (auto simp: policyEntry_def bindE_Inr_iff)
next
  case Sync_root_lock
  have "resolvePathPreservingWindowsRoot h checked = resolvePathPreservingWindowsRoot h entry"
    using policyEntry_ok [OF assms] by (simp add: resolved_segs [OF assms(1)])
  then show ?thesis using Sync_root_lock by (simp add: comparablePaths_def strictMutationComparablePaths_def)
qed

lemma clearOf_equal: "clearOf asPrefix protectAncestors d (d @ deeper) \<Longrightarrow> asPrefix \<or> deeper = [] \<Longrightarrow> False"
  by (auto simp: clearOf_def split: if_splits)


subsection \<open>A policy at work\<close>

text \<open>The directory \<open>/w\<close> lists \<open>Notes\<close> and does not find \<open>nOTES\<close>, so it tells case apart: \<open>/w/secret\<close> may be
  made although \<open>/w/Secret\<close> is denied. \<open>/v\<close> does not exist and nothing is known of it.\<close>

definition demoPolicy :: "string \<Rightarrow> deny_policy" where
  "demoPolicy name = \<lparr>dpPaths = None, dpPrefixes = Some [js name]\<rparr>"

lemma demo_allowed:
  "assertMutationNotDenied demoIo asciiUnicode demoHost (js ''/w/secret'') (Some (demoPolicy ''/w/Secret'')) False Root_mode () =
     (Inr (), ())"
  by code_simp

lemma demo_denied:
  "fst (assertMutationNotDenied demoIo asciiUnicode demoHost (js ''/w/Secret/x'') (Some (demoPolicy ''/w/Secret'')) False Root_mode ()) =
     Inl deniedError"
  "fst (assertMutationNotDenied demoIo asciiUnicode demoHost (js ''/v/secret'') (Some (demoPolicy ''/v/Secret'')) False Root_mode ()) =
     Inl deniedError"
  by code_simp+

lemma demo_realpaths: "normalRealpaths demoIo"
proof -
  have "\<exists>segs. wfSegs segs \<and> q = absPath segs" if q: "demoEntry q = Inr e" for q e
  proof -
    have "q \<in> fst ` set demoEntries"
      using q by (auto simp: demoEntry_def split: option.splits dest: map_of_SomeD intro: rev_image_eqI)
    then have "q = absPath [] \<or> q = absPath [js ''w''] \<or> q = absPath [js ''w'', js ''Notes'']"
      by (auto simp: demoEntries_def absPath_def)
    moreover have "wfSegs []" "wfSegs [js ''w'']" "wfSegs [js ''w'', js ''Notes'']" by code_simp+
    ultimately show ?thesis by blast
  qed
  then show ?thesis by (auto simp: normalRealpaths_def demoIo_def liftS_def bindE_Inr_iff)
qed

theorem allowed_mutation_is_clear_witness:
  "clearOf True False (hostSegs demoHost (js ''/w/Secret'')) (hostSegs demoHost (js ''/w/secret''))"
  using allowed_mutation_is_clear [OF posixHost_demo demo_allowed, rule_format, of "js ''/w/Secret''" True]
  by (simp add: entriesOf_def demoPolicy_def listed_def)


end
