(* ===== verification/SymlinkParents.thy ===== *)
theory SymlinkParents
  imports RootPhysical
begin

text \<open>
  The check that no directory on the way to a target is a symbolic link (\<open>src/symlink-parents.ts\<close>) on a
  POSIX host. The walk follows the raw segments of the target, as the kernel will, and takes \<open>..\<close> back only
  over a directory it has looked at. The calls of the file system are a parameter. Over a tree at rest the
  kernel's resolution of a path that passed follows no link and stays below the root.
\<close>

subsection \<open>The check\<close>

text \<open>The options: \<open>allowMissing\<close> holds unless it is \<open>false\<close>, the others only where they are set.\<close>

record no_symlink_parents =
  nsRootDir :: jstr
  nsTargetPath :: jstr
  nsAllowMissing :: bool
  nsAllowOutsideRoot :: bool
  nsAllowRootChildSymlink :: bool
  nsRequireDirectories :: bool

definition outsideRootError :: error where
  "outsideRootError = PlainErr ''must stay under the root''"

definition unsafePathError :: error where
  "unsafePathError = PlainErr ''must not traverse symlinked directory''"

definition pathSegments :: "jstr \<Rightarrow> jstr list" where
  "pathSegments v = filter (\<lambda>segment. segment \<noteq> [] \<and> segment \<noteq> [DOT]) (splitOn SLASH v)"

text \<open>Only the root or the current directory is resolved, never the caller's dotdot segments.\<close>

definition absoluteTarget :: "host \<Rightarrow> jstr \<Rightarrow> jstr" where
  "absoluteTarget h targetPath =
     (let targetRoot = rawRoot targetPath
      in resolvePathPreservingWindowsRoot h (if targetRoot = [] then [DOT] else targetRoot) @ [SLASH] @
         drop (length targetRoot) targetPath)"

definition rawTargetSegments :: "host \<Rightarrow> jstr \<Rightarrow> jstr \<Rightarrow> jstr list option" where
  "rawTargetSegments h rootPath targetPath =
     (let rootSegments = pathSegments rootPath;
          targetSegments = pathSegments (absoluteTarget h targetPath)
      in if \<exists>i \<in> set [0..<length rootSegments].
              rootSegments ! i \<noteq> (if i < length targetSegments then targetSegments ! i else [])
         then None else Some (drop (length rootSegments) targetSegments))"

definition resolvePathWalk :: "host \<Rightarrow> no_symlink_parents \<Rightarrow> error + (jstr \<times> jstr list) option" where
  "resolvePathWalk h params =
     bindE (assertNoWindowsPathAlias (nsRootDir params) Filesystem
              ''root dir uses a Windows filesystem namespace alias'' (platform h)) (\<lambda>_.
     bindE (assertNoWindowsPathAlias (nsTargetPath params) Filesystem
              ''target path uses a Windows filesystem namespace alias'' (platform h)) (\<lambda>_.
       let rootPath = resolvePathPreservingWindowsRoot h (nsRootDir params);
           lexicalTarget = resolvePathPreservingWindowsRoot h (nsTargetPath params)
       in if isPathRelativeEscape h (pathRelative h rootPath lexicalTarget)
          then if nsAllowOutsideRoot params then Inr None else Inl outsideRootError
          else case rawTargetSegments h rootPath (nsTargetPath params) of
                 None \<Rightarrow> Inl outsideRootError
               | Some segments \<Rightarrow> Inr (Some (rootPath, segments))))"

datatype walked_kind = Walked_dir | Walked_link

definition isFilesystemRoot :: "jstr \<Rightarrow> bool" where
  "isFilesystemRoot rootPath \<longleftrightarrow> rootPath = rawRoot rootPath"

text \<open>The components walked are a stack, the last one first.\<close>

fun walkParents ::
    "('s, 'z) root_io_scheme \<Rightarrow> no_symlink_parents \<Rightarrow> jstr \<Rightarrow> (jstr \<times> walked_kind) list \<Rightarrow> jstr \<Rightarrow> jstr list \<Rightarrow>
     ('s, error, unit) op" where
  "walkParents io params rootPath walked current [] = returnS ()"
| "walkParents io params rootPath walked current (segment # segments) =
     (if segment = dotdot
      then (case walked of
              (_, Walked_dir) # below_top \<Rightarrow>
                walkParents io params rootPath below_top (case below_top of [] \<Rightarrow> rootPath | (p, _) # _ \<Rightarrow> p) segments
            | (_, Walked_link) # _ \<Rightarrow> throwS unsafePathError
            | [] \<Rightarrow>
                if \<not> isFilesystemRoot rootPath then throwS outsideRootError
                else walkParents io params rootPath [] current segments)
      else let here = posixJoin [current, segment]
           in tryS (ioLstat io here)
                (\<lambda>e. if hasNodeErrorCode e ''ENOENT'' \<and> nsAllowMissing params then returnS () else throwS e)
                (\<lambda>stat.
                   if bsKind stat = Symbolic_link
                   then if nsAllowRootChildSymlink params \<and> posixDirname here = rootPath
                        then walkParents io params rootPath ((here, Walked_link) # walked) here segments
                        else throwS unsafePathError
                   else if (nsRequireDirectories params \<or> segments \<noteq> []) \<and> bsKind stat \<noteq> Directory
                   then throwS (throwFs Not_file ''must traverse directories'')
                   else walkParents io params rootPath
                          (if bsKind stat = Directory then (here, Walked_dir) # walked else walked) here segments))"

declare walkParents.simps(2) [simp del]

definition assertNoSymlinkParentsSync ::
    "('s, 'z) root_io_scheme \<Rightarrow> host \<Rightarrow> no_symlink_parents \<Rightarrow> ('s, error, unit) op" where
  "assertNoSymlinkParentsSync io h params =
     bindS (liftS (resolvePathWalk h params)) (\<lambda>walk.
       case walk of
         None \<Rightarrow> returnS ()
       | Some (rootPath, segments) \<Rightarrow> walkParents io params rootPath [] rootPath segments)"

definition assertNoSymlinkParents ::
    "('s, 'z) root_io_scheme \<Rightarrow> host \<Rightarrow> no_symlink_parents \<Rightarrow> ('s, error, unit) op" where
  "assertNoSymlinkParents = assertNoSymlinkParentsSync"

subsection \<open>Over a tree\<close>

text \<open>What has been walked: the directories from the root down.\<close>

definition walkedDown :: "jstr list \<Rightarrow> jstr list \<Rightarrow> (jstr \<times> walked_kind) list" where
  "walkedDown base y = map (\<lambda>p. (absPath (base @ p), Walked_dir)) (rev (tl (prefixes y)))"

lemma walkedDown_Nil [simp]: "walkedDown base [] = []"
  by (simp add: walkedDown_def)

lemma walkedDown_snoc: "walkedDown base (y @ [z]) = (absPath (base @ y @ [z]), Walked_dir) # walkedDown base y"
proof -
  have "tl (prefixes y @ [y @ [z]]) = tl (prefixes y) @ [y @ [z]]" by (cases y) simp_all
  then show ?thesis by (simp add: walkedDown_def prefixes_snoc)
qed

lemma walkedDown_top: "(case walkedDown base y of [] \<Rightarrow> absPath base | (p, _) # _ \<Rightarrow> p) = absPath (base @ y)"
  by (cases y rule: rev_cases) (simp_all add: walkedDown_snoc)

text \<open>Where the kernel ends: below the root without a link, at a component that is missing only if that is
  allowed, and at a directory if that is required.\<close>

definition landsBelow :: "tree \<Rightarrow> no_symlink_parents \<Rightarrow> jstr list \<Rightarrow> jstr list \<Rightarrow> jstr list \<Rightarrow> bool" where
  "landsBelow T params base dir segs \<longleftrightarrow>
     (\<exists>x rest. resolves T 0 dir segs (x, rest) \<and> prefix base x \<and> (rest \<noteq> [] \<longrightarrow> nsAllowMissing params) \<and>
        (rest = [] \<and> nsRequireDirectories params \<longrightarrow> T x = Some Dir))"

lemma landsBelow_steps:
  "landsBelow T params base (butlast dir) segs \<Longrightarrow> landsBelow T params base dir (dotdot # segs)"
  "plainSeg seg \<Longrightarrow> T (dir @ [seg]) = Some Dir \<Longrightarrow> landsBelow T params base (dir @ [seg]) segs \<Longrightarrow>
     landsBelow T params base dir (seg # segs)"
  unfolding landsBelow_def by (blast intro: resolves.parent resolves.child)+

lemma landsBelow_Nil: "T dir = Some Dir \<Longrightarrow> prefix base dir \<Longrightarrow> landsBelow T params base dir []"
  unfolding landsBelow_def by (intro exI conjI, rule resolves.finished) auto

lemma landsBelow_missing:
  "plainSeg seg \<Longrightarrow> T (dir @ [seg]) = None \<Longrightarrow> nsAllowMissing params \<Longrightarrow> prefix base dir \<Longrightarrow>
   landsBelow T params base dir (seg # segs)"
  unfolding landsBelow_def by (intro exI conjI, rule resolves.missing) auto

lemma landsBelow_leaf:
  "plainSeg seg \<Longrightarrow> T (dir @ [seg]) = Some File \<Longrightarrow> \<not> nsRequireDirectories params \<Longrightarrow> prefix base dir \<Longrightarrow>
   landsBelow T params base dir [seg]"
  unfolding landsBelow_def by (intro exI conjI, rule resolves.leaf) auto

lemma walkParents_lands:
  assumes view: "kernelView T io" and base: "rootAt T R0 R" and strict: "\<not> nsAllowRootChildSymlink params"
  shows "walkParents io params (absPath R0) (walkedDown R0 y) (absPath (R0 @ y)) segs s = (Inr (), t) \<Longrightarrow>
    T (R @ y) = Some Dir \<Longrightarrow> wfSegs (R0 @ y) \<Longrightarrow> clean segs \<Longrightarrow> [] \<notin> set segs \<Longrightarrow> [DOT] \<notin> set segs \<Longrightarrow>
    landsBelow T params R (R @ y) segs"
proof (induction segs arbitrary: y s)
  case Nil
  then show ?case by (simp add: landsBelow_Nil)
next
  case (Cons seg segs)
  note run = Cons.prems(1) [unfolded walkParents.simps(2)]
  show ?case
  proof (cases "seg = dotdot")
    case True
    show ?thesis
    proof (cases y rule: rev_cases)
      case Nil
      then have "isFilesystemRoot (absPath R0)" "walkParents io params (absPath R0) [] (absPath R0) segs s = (Inr (), t)"
        using run True by (auto split: if_splits)
      have "R0 = []" using \<open>isFilesystemRoot (absPath R0)\<close> absPath_root base by (auto simp: isFilesystemRoot_def rootAt_def)
      then have "R = []" using base by (auto simp: rootAt_def elim: resolves_NilE)
      have "landsBelow T params R (R @ y) segs"
        using Cons.IH [of "[]"] Cons.prems Nil \<open>walkParents io params (absPath R0) [] (absPath R0) segs s = (Inr (), t)\<close> by simp
      then show ?thesis using Nil \<open>R = []\<close> True landsBelow_steps(1) [of T params "[]" "[]" segs] by simp
    next
      case (snoc y' z)
      have "walkParents io params (absPath R0) (walkedDown R0 y') (absPath (R0 @ y')) segs s = (Inr (), t)"
        using run True by (simp add: snoc walkedDown_snoc walkedDown_top)
      moreover have "T (R @ y') = Some Dir" using wfTree_prefix [of T "R @ y'" "[z]"] base Cons.prems(2) snoc by (simp add: rootAt_def)
      ultimately have "landsBelow T params R (R @ y') segs"
        using Cons.IH [of y'] Cons.prems snoc by (auto simp: wfSegs_def)
      then show ?thesis using True snoc landsBelow_steps(1) [of T params R "R @ y"] by (simp add: butlast_append)
    qed
  next
    case False
    have seg: "plainSeg seg" "SLASH \<notin> set seg" using Cons.prems(4-6) False plainSeg_cases [of seg] by auto
    then have wf: "wfSegs ((R0 @ y) @ [seg])" using Cons.prems(3) by (simp del: append_assoc)
    have here: "posixJoin [absPath (R0 @ y), seg] = absPath ((R0 @ y) @ [seg])" using posixJoin_child [OF wf] .
    obtain k where k: "resolves T k [] (R0 @ y) (R @ y, [])"
    proof -
      obtain k where k: "resolves T k [] R0 (R, [])" using base by (auto simp: rootAt_def)
      have "resolves T 0 R y (R @ y, [])"
        using resolves_existing [of T y R] base Cons.prems(2,3) by (auto simp: rootAt_def wfSegs_def)
      then show ?thesis using that resolves_append [OF k _ \<open>resolves T 0 R y (R @ y, [])\<close>] base by (simp add: rootAt_def)
    qed
    obtain r u where l: "ioLstat io (absPath ((R0 @ y) @ [seg])) s = (r, u)" by fastforce
    show ?thesis
    proof (cases r)
      case (Inl e)
      then have e: "hasNodeErrorCode e ''ENOENT''" "nsAllowMissing params"
        using run False l by (auto simp: Let_def here tryS_def split: if_splits)
      have "isNotFoundPathError e" using e(1) by (auto simp: hasNodeErrorCode_def isNotFoundPathError_def NOT_FOUND_CODES_def split: error.splits)
      then have "T ((R @ y) @ [seg]) = None" using view_missing [OF view wf k Cons.prems(2)] l Inl by blast
      then show ?thesis using landsBelow_missing [OF seg(1)] e(2) by simp
    next
      case (Inr st)
      obtain node where node: "T ((R @ y) @ [seg]) = Some node" "bsKind st = kindOf node"
        using view_lstat [OF view wf k Cons.prems(2)] l Inr by blast
      show ?thesis
      proof (cases node)
        case Dir
        then have "walkParents io params (absPath R0) (walkedDown R0 (y @ [seg])) (absPath (R0 @ y @ [seg])) segs u = (Inr (), t)"
          using run False l Inr node by (simp add: Let_def here tryS_def walkedDown_snoc)
        then have "landsBelow T params R (R @ y @ [seg]) segs"
          using Cons.IH [of "y @ [seg]"] Cons.prems(4-6) wf node(1) Dir by simp
        then show ?thesis using landsBelow_steps(2) [OF seg(1), of T "R @ y"] node(1) Dir by simp
      next
        case File
        then have "segs = []" "\<not> nsRequireDirectories params"
          using run False l Inr node by (auto simp: Let_def here tryS_def split: if_splits)
        then show ?thesis using landsBelow_leaf [OF seg(1)] node(1) File by simp
      next
        case (Link target)
        then show ?thesis using run False l Inr node strict by (simp add: Let_def here tryS_def)
      qed
    qed
  qed
qed

lemma pathSegments_absPath: "wfSegs segs \<Longrightarrow> pathSegments (absPath segs) = segs"
  using splitOn_absPath [of segs] by (auto simp: pathSegments_def wfSegs_def plainSeg_def filter_id_conv)

lemma pathSegments_clean: "clean (pathSegments p)" "[] \<notin> set (pathSegments p)" "[DOT] \<notin> set (pathSegments p)"
  by (auto simp: pathSegments_def clean_def dest: splitOn_no_sep)

lemma rawTargetSegments_below:
  assumes "wfSegs R0" "rawTargetSegments h (absPath R0) target = Some segs"
  shows "pathSegments (absoluteTarget h target) = R0 @ segs"
proof -
  let ?t = "pathSegments (absoluteTarget h target)"
  have ok: "\<forall>i < length R0. R0 ! i = (if i < length ?t then ?t ! i else [])" "segs = drop (length R0) ?t"
    using assms by (auto simp: rawTargetSegments_def pathSegments_absPath Let_def split: if_splits)
  have "R0 ! i \<noteq> []" if "i < length R0" for i using assms(1) nth_mem [OF that] by (auto simp: wfSegs_def)
  then have at_i: "i < length ?t \<and> R0 ! i = ?t ! i" if "i < length R0" for i using ok(1) that by (metis (full_types))
  then have "length R0 \<le> length ?t" by (meson leI less_irrefl)
  then have "take (length R0) ?t = R0" using at_i by (intro nth_equalityI) auto
  then show ?thesis using ok(2) by (metis append_take_drop_id)
qed

text \<open>A lexical target below the root is never taken for an escape.\<close>

lemma escapes_plain: "list_all plainSeg ss \<Longrightarrow> \<not> escapes n ss"
  by (induction ss arbitrary: n) (auto simp: plainSeg_def)

lemma below_no_escape:
  assumes h: "posixHost h" and d: "prefix (hostSegs h rootPath) (hostSegs h target)"
  shows "\<not> isPathRelativeEscape h (pathRelative h (posixResolve (cwd h) [rootPath]) (posixResolve (cwd h) [target]))"
proof -
  let ?f = "hostSegs h rootPath" and ?t = "hostSegs h target"
  let ?d = "drop (length ?f) ?t"
  have wd: "posixIsAbsolute (cwd h)" using h by (simp add: posixHost_def)
  have rel: "pathRelative h (posixResolve (cwd h) [rootPath]) (posixResolve (cwd h) [target]) = joinOn SLASH ?d"
    using posixRelative_inside [OF wd, of "posixResolve (cwd h) [rootPath]" "posixResolve (cwd h) [target]"] d h wd
    by (simp add: pathRelative_def posixHost_def hostSegs_def posixResolve_resolvedSegs)
  have wf: "wfSegs ?d"
    using wfSegs_resolvedSegs [of "cwd h" target] set_drop_subset [of "length ?f" ?t] by (auto simp: wfSegs_def hostSegs_def)
  show ?thesis
  proof (cases ?d)
    case Nil
    then show ?thesis using h by (simp add: rel isPathRelativeEscape_posix posixIsAbsolute_def)
  next
    case (Cons z zs)
    have "splitOn SLASH (joinOn SLASH ?d) = ?d" using wf Cons by (intro splitOn_joinOn) (auto simp: wfSegs_def)
    moreover have "\<not> posixIsAbsolute (joinOn SLASH ?d)" using wf hd_joinOn Cons by (simp add: posixIsAbsolute_def)
    ultimately show ?thesis
      using h wf escapes_plain [of ?d] by (simp add: rel isPathRelativeEscape_posix wfSegs_def list_all_iff)
  qed
qed

lemma resolvePathWalk_outside:
  assumes h: "posixHost h" and w: "resolvePathWalk h params = Inr None"
  shows "nsAllowOutsideRoot params \<and> \<not> prefix (hostSegs h (nsRootDir params)) (hostSegs h (nsTargetPath params))"
proof -
  have "nsAllowOutsideRoot params"
    "isPathRelativeEscape h (pathRelative h (posixResolve (cwd h) [nsRootDir params]) (posixResolve (cwd h) [nsTargetPath params]))"
    using w h by (auto simp: resolvePathWalk_def Let_def bindE_Inr_iff resolvePathPreserving_posix split: if_splits option.splits)
  then show ?thesis using below_no_escape [OF h] by blast
qed


text \<open>The tree of \<open>RootPhysical\<close>, from the directory that holds the file, by a path that climbs back to it.\<close>

definition nsDemo :: no_symlink_parents where
  "nsDemo = \<lparr>nsRootDir = js ''/r/d'', nsTargetPath = js ''/r/d/./f'', nsAllowMissing = False, nsAllowOutsideRoot = False,
     nsAllowRootChildSymlink = False, nsRequireDirectories = False\<rparr>"

lemma nsDemo_run: "assertNoSymlinkParentsSync linkIo demoHost nsDemo () = (Inr (), ())"
  by code_simp


end
