(* ===== verification/DirectoryReplace.thy ===== *)
theory DirectoryReplace
  imports PathCase
begin

text \<open>
  Replacing a directory (\<open>src/replace-directory.ts\<close>, \<open>src/retained-directory-replacement.ts\<close>, with the guards
  of \<open>src/directory-guard.ts\<close> and \<open>src/native-rename-outcome.ts\<close>), on a POSIX host: the target is moved aside
  to a backup name, the staged directory is moved in, the backup is removed, and a failure moves the backup
  back where that is safe. The error says what was done. The file system and the native binding are a
  parameter: any call may give any answer at any time, so a theorem covers every interference. A ghost list
  records the moves that took place and the descriptors that were opened and closed. The queue of
  \<open>src/write-queue.ts\<close> that serializes writers of one path within the process is left out.
\<close>

subsection \<open>The file system and the native binding\<close>

text \<open>The native rename never replaces its target. Its failure may follow a rename that took place
  (\<open>Rename_lost\<close>), such as one whose reply was lost; so may that of the removal of a tree, and a tree may be
  removed in part.\<close>

datatype rename_answer = Rename_done | Rename_refused error | Rename_lost error

datatype removal_outcome = Outcome_removed | Outcome_preserved | Outcome_other

record removal_result =
  nrOutcome :: removal_outcome
  nrErrorCode :: "string option"

record 's replace_io = "'s case_io" +
  ioMkdirRecursive :: "jstr \<Rightarrow> ('s, error, unit) op"
  ioOpenDirectory :: "jstr \<Rightarrow> ('s, error, nat) op"
  ioFstat :: "nat \<Rightarrow> ('s, error, big_stat) op"
  ioClose :: "nat \<Rightarrow> ('s, error, unit) op"
  ioSupportsRename :: bool
  ioSupportsCleanup :: bool
  ioRemovalAvailable :: "nat \<Rightarrow> ('s, error, bool) op"
  ioRenameNoReplace :: "nat \<Rightarrow> jstr \<Rightarrow> nat \<Rightarrow> jstr \<Rightarrow> file_identity \<Rightarrow> 's \<Rightarrow> rename_answer \<times> 's"
  ioRemoveOwnedTree :: "nat \<Rightarrow> jstr \<Rightarrow> nat \<Rightarrow> 's \<Rightarrow> (bool \<times> (error + removal_result)) \<times> 's"

subsection \<open>Reports and state\<close>

datatype replace_phase = Phase_backup | Phase_publish | Phase_rollback | Phase_cleanup
datatype publication_status = Not_published | Published | Publication_indeterminate
datatype recovery_status =
    Restored | Restored_unverified | Backup_path_preserved | Cleanup_incomplete | Recovery_indeterminate | No_recovery
datatype rename_transition = Not_renamed | Was_renamed | Rename_indeterminate

record replacement_details =
  rdPhase :: replace_phase
  rdPublication :: publication_status
  rdRecovery :: recovery_status
  rdBackupPath :: "jstr option"

text \<open>An error and the details attached to it.\<close>

type_synonym replace_failure = "error \<times> replacement_details option"

datatype retained_parent = Staged_parent | Target_parent

datatype dir_move =
    Dir_moved retained_parent jstr jstr file_identity
  | Tree_removed jstr

text \<open>The local variables of the operation and of the rollback, the flags of the retained object, and the ghosts.\<close>

record 's replacing =
  rgWorld :: 's
  rgBackup :: "file_identity option"
  rgTransition :: rename_transition
  rgRollback :: rename_transition
  rgPublication :: publication_status
  rgDetails :: replacement_details
  rgCleanupUsed :: bool
  rgClosed :: bool
  rgMoves :: "dir_move list"
  rgOpened :: "nat list"
  rgReleased :: "nat list"

type_synonym ('s, 'a) replace_op = "('s replacing, replace_failure, 'a) op"

definition throwR :: "error \<Rightarrow> ('s, 'a) replace_op" where
  "throwR e = throwS (e, None)"

definition onFs :: "('s, error, 'a) op \<Rightarrow> ('s, 'a) replace_op" where
  "onFs m = (\<lambda>g. case m (rgWorld g) of
     (Inl e, s) \<Rightarrow> (Inl (e, None), g\<lparr>rgWorld := s\<rparr>)
   | (Inr x, s) \<Rightarrow> (Inr x, g\<lparr>rgWorld := s\<rparr>))"

definition readG :: "('s replacing \<Rightarrow> 'a) \<Rightarrow> ('s, 'a) replace_op" where
  "readG f = (\<lambda>g. (Inr (f g), g))"

subsection \<open>Guards of directories\<close>

record dir_guard =
  dgDir :: jstr
  dgRealPath :: jstr
  dgIdentity :: file_identity

definition createAsyncDirectoryGuard :: "('s, 'z) case_io_scheme \<Rightarrow> jstr \<Rightarrow> ('s, error, dir_guard) op" where
  "createAsyncDirectoryGuard io dir =
     bindS (inspectDirectoryIdentitySync io dir None) (\<lambda>stat.
     bindS (ioRealpath io (directoryEntryPath dir)) (\<lambda>realPath.
       returnS \<lparr>dgDir = dir, dgRealPath = realPath, dgIdentity = statIdentity stat\<rparr>))"

definition directoryChangedError :: error where
  "directoryChangedError = throwFs Path_mismatch ''directory changed during operation''"

definition assertSyncDirectoryGuard :: "('s, 'z) case_io_scheme \<Rightarrow> dir_guard \<Rightarrow> ('s, error, unit) op" where
  "assertSyncDirectoryGuard io guard =
     bindS (inspectDirectoryIdentitySync io (dgDir guard) (Some (dgIdentity guard))) (\<lambda>stat.
     bindS (ioRealpath io (directoryEntryPath (dgDir guard))) (\<lambda>realPath.
       if \<not> sameFileIdentity Posix (Identity_stat (statIdentity stat)) (Identity_stat (dgIdentity guard)) \<or>
          realPath \<noteq> dgRealPath guard
       then throwS directoryChangedError else returnS ()))"

text \<open>With a first observation that was already made; on POSIX there is no second.\<close>

definition inspectObservedDirectory :: "big_stat \<Rightarrow> file_identity option \<Rightarrow> ('s, error, big_stat) op" where
  "inspectObservedDirectory initial expected =
     inspectFileIdentitySync Posix fileIdentityMismatchError statIdentity
       (if bsKind initial \<noteq> Directory then throwS notDirectoryError else returnS initial) expected"

definition observeOptionalDirectory :: "('s, 'z) case_io_scheme \<Rightarrow> jstr \<Rightarrow> ('s, error, big_stat option) op" where
  "observeOptionalDirectory io pathname =
     tryS (ioLstat io pathname)
       (\<lambda>e. if hasNodeErrorCode e ''ENOENT'' then returnS None else throwS e)
       (\<lambda>initial. bindS (inspectObservedDirectory initial None) (\<lambda>stat. returnS (Some stat)))"

definition distinctGuards :: "dir_guard \<Rightarrow> dir_guard \<Rightarrow> dir_guard list" where
  "distinctGuards source target = (if source = target then [source] else [source, target])"

fun assertGuardsCurrent :: "('s, 'z) case_io_scheme \<Rightarrow> dir_guard list \<Rightarrow> ('s, error, unit) op" where
  "assertGuardsCurrent io [] = returnS ()"
| "assertGuardsCurrent io (guard # guards) = bindS (assertSyncDirectoryGuard io guard) (\<lambda>_. assertGuardsCurrent io guards)"

subsection \<open>What a failed rename means\<close>

definition NATIVE_RENAME_SOURCE_IDENTITY_MISMATCH :: string where
  "NATIVE_RENAME_SOURCE_IDENTITY_MISMATCH = ''FS_SAFE_INTERNAL_RENAME_SOURCE_IDENTITY_MISMATCH''"

definition NATIVE_NOREPLACE_UNSUPPORTED :: string where
  "NATIVE_NOREPLACE_UNSUPPORTED = ''FS_SAFE_INTERNAL_RENAME_NOREPLACE_UNSUPPORTED''"

datatype native_rename_failure = Uncommitted | Indeterminate

definition classifyNativeRenameFailure :: "error \<Rightarrow> native_rename_failure" where
  "classifyNativeRenameFailure e =
     (if hasNodeErrorCode e NATIVE_RENAME_SOURCE_IDENTITY_MISMATCH \<or> hasNodeErrorCode e NATIVE_NOREPLACE_UNSUPPORTED
      then Uncommitted else Indeterminate)"

definition noReplaceUnavailable :: "error \<Rightarrow> bool \<Rightarrow> error option" where
  "noReplaceUnavailable e syscallOnly =
     (if hasNodeErrorCode e NATIVE_NOREPLACE_UNSUPPORTED \<or>
         syscallOnly \<and> list_ex (hasNodeErrorCode e) [''EINVAL'', ''ENOSYS'', ''ENOTSUP'', ''EOPNOTSUPP'']
      then Some (FsSafe (newFsSafeError Helper_unavailable ''native no-replace is unsupported on this filesystem''
                   [(''capability'', ''rename-noreplace'')]))
      else None)"

definition normalizeNativeRenameFailure :: "error \<Rightarrow> error" where
  "normalizeNativeRenameFailure e =
     (case noReplaceUnavailable e True of
        Some unavailable \<Rightarrow> unavailable
      | None \<Rightarrow>
          if hasNodeErrorCode e NATIVE_RENAME_SOURCE_IDENTITY_MISMATCH
          then throwFs Path_mismatch ''directory replacement source identity changed before native rename'' else e)"

subsection \<open>Descriptors\<close>

definition helperUnavailable :: "string \<Rightarrow> error" where
  "helperUnavailable message = throwFs Helper_unavailable message"

text \<open>The code of the first error is kept, if it has one.\<close>

definition primaryWithCloseFailure :: "error \<Rightarrow> string \<Rightarrow> error" where
  "primaryWithCloseFailure e message =
     (case e of
        FsSafe f \<Rightarrow> FsSafe (newFsSafeError (err_code f) message (err_details f))
      | NodeErr code \<Rightarrow> NodeErr code
      | _ \<Rightarrow> PlainErr message)"

definition openDirectoryFd :: "('s, 'z) replace_io_scheme \<Rightarrow> jstr \<Rightarrow> ('s, nat) replace_op" where
  "openDirectoryFd io dir =
     bindS (onFs (ioOpenDirectory io dir)) (\<lambda>fd.
     bindS (updateS (\<lambda>g. g\<lparr>rgOpened := fd # rgOpened g\<rparr>)) (\<lambda>_. returnS fd))"

definition closeFd :: "('s, 'z) replace_io_scheme \<Rightarrow> nat \<Rightarrow> ('s, unit) replace_op" where
  "closeFd io fd = bindS (updateS (\<lambda>g. g\<lparr>rgReleased := fd # rgReleased g\<rparr>)) (\<lambda>_. onFs (ioClose io fd))"

fun closeEach ::
    "('s, 'z) replace_io_scheme \<Rightarrow> nat option list \<Rightarrow> nat list \<Rightarrow> replace_failure list \<Rightarrow> ('s, replace_failure list) replace_op" where
  "closeEach io [] seen errors = returnS errors"
| "closeEach io (fd # fds) seen errors =
     (case fd of
        None \<Rightarrow> closeEach io fds seen errors
      | Some n \<Rightarrow>
          if n \<in> set seen then closeEach io fds seen errors
          else tryS (closeFd io n)
                 (\<lambda>e. closeEach io fds (n # seen) (errors @ [e]))
                 (\<lambda>_. closeEach io fds (n # seen) errors))"

definition closeDescriptors :: "('s, 'z) replace_io_scheme \<Rightarrow> nat option list \<Rightarrow> ('s, unit) replace_op" where
  "closeDescriptors io fds =
     bindS (closeEach io fds [] []) (\<lambda>errors.
       case errors of
         [] \<Rightarrow> returnS ()
       | [e] \<Rightarrow> throwS e
       | _ \<Rightarrow> throwR (PlainErr ''retained directory replacement descriptors failed to close''))"

record expected_directory =
  xdPath :: jstr
  xdRealPath :: "jstr option"
  xdIdentity :: file_identity

definition admitDescriptor ::
    "('s, 'z) replace_io_scheme \<Rightarrow> expected_directory \<Rightarrow> nat \<Rightarrow> ('s, unit) replace_op" where
  "admitDescriptor io expected fd =
     bindS (onFs (ioFstat io fd)) (\<lambda>descriptor.
       if bsKind descriptor \<noteq> Directory then throwR (throwFs Not_file ''directory replacement must be a directory'')
       else if statIdentity descriptor \<noteq> xdIdentity expected
       then throwR (throwFs Path_mismatch ''directory replacement changed during admission'')
       else onFs (assertDirectoryIdentitySync io (xdPath expected) (xdIdentity expected) (xdRealPath expected)))"

definition openRetainedDirectory ::
    "('s, 'z) replace_io_scheme \<Rightarrow> expected_directory \<Rightarrow> ('s, nat) replace_op" where
  "openRetainedDirectory io expected =
     tryS (openDirectoryFd io (xdPath expected))
       (\<lambda>(e, d). if hasNodeErrorCode e ''EACCES'' \<or> hasNodeErrorCode e ''EPERM''
                 then throwR (helperUnavailable ''atomic directory replacement cannot retain it'') else throwS (e, d))
       (\<lambda>fd.
          tryS (admitDescriptor io expected fd)
            (\<lambda>e. tryS (closeFd io fd)
                   (\<lambda>_. throwR (primaryWithCloseFailure (fst e) ''directory replacement admission and close failed''))
                   (\<lambda>_. throwS e))
            (\<lambda>_. returnS fd))"

subsection \<open>The retained object\<close>

record retained_fds =
  rtOriginal :: "nat option"
  rtStaged :: nat
  rtTarget :: nat

definition releaseAfter ::
    "('s, 'z) replace_io_scheme \<Rightarrow> nat option list \<Rightarrow> replace_failure \<Rightarrow> ('s, 'a) replace_op" where
  "releaseAfter io fds e =
     tryS (closeDescriptors io fds)
       (\<lambda>_. throwR (primaryWithCloseFailure (fst e)
              ''retained directory replacement admission and descriptor close failed''))
       (\<lambda>_. throwS e)"

definition retainOriginal ::
    "('s, 'z) replace_io_scheme \<Rightarrow> nat \<Rightarrow> expected_directory \<Rightarrow> ('s, nat) replace_op" where
  "retainOriginal io targetFd original =
     (if \<not> ioSupportsCleanup io
      then throwR (helperUnavailable ''replacing an existing directory requires native bounded owned-tree cleanup'')
      else tryS (onFs (ioRemovalAvailable io targetFd))
             (\<lambda>_. throwR (helperUnavailable ''native owned-tree cleanup capability probe failed''))
             (\<lambda>available.
                if \<not> available
                then throwR (helperUnavailable ''native owned-tree cleanup is unavailable for the target parent'')
                else openRetainedDirectory io original))"

definition retain ::
    "('s, 'z) replace_io_scheme \<Rightarrow> expected_directory \<Rightarrow> expected_directory \<Rightarrow> expected_directory option \<Rightarrow>
     ('s, retained_fds) replace_op" where
  "retain io targetParent stagedParent originalTarget =
     tryS (openRetainedDirectory io targetParent)
       (releaseAfter io [None, None, None])
       (\<lambda>targetFd.
          tryS (if xdPath stagedParent = xdPath targetParent then returnS targetFd
                else openRetainedDirectory io stagedParent)
            (releaseAfter io [None, None, Some targetFd])
            (\<lambda>stagedFd.
               case originalTarget of
                 None \<Rightarrow> returnS \<lparr>rtOriginal = None, rtStaged = stagedFd, rtTarget = targetFd\<rparr>
               | Some original \<Rightarrow>
                   tryS (retainOriginal io targetFd original)
                     (releaseAfter io [None, Some stagedFd, Some targetFd])
                     (\<lambda>originalFd.
                        returnS \<lparr>rtOriginal = Some originalFd, rtStaged = stagedFd, rtTarget = targetFd\<rparr>)))"

definition renameNoReplace ::
    "('s, 'z) replace_io_scheme \<Rightarrow> retained_fds \<Rightarrow> retained_parent \<Rightarrow> jstr \<Rightarrow> jstr \<Rightarrow> file_identity \<Rightarrow>
     ('s, unit) replace_op" where
  "renameNoReplace io fds sourceParent sourceBasename targetBasename expectedSource = (\<lambda>g.
     if rgClosed g
     then throwR (throwFs Path_mismatch ''retained directory rename authority is unavailable'') g
     else
       let sourceFd = (case sourceParent of Staged_parent \<Rightarrow> rtStaged fds | Target_parent \<Rightarrow> rtTarget fds);
           moved = Dir_moved sourceParent sourceBasename targetBasename expectedSource
       in case ioRenameNoReplace io sourceFd sourceBasename (rtTarget fds) targetBasename expectedSource (rgWorld g) of
            (Rename_done, s) \<Rightarrow> (Inr (), g\<lparr>rgWorld := s, rgMoves := rgMoves g @ [moved]\<rparr>)
          | (Rename_refused e, s) \<Rightarrow> (Inl (e, None), g\<lparr>rgWorld := s\<rparr>)
          | (Rename_lost e, s) \<Rightarrow> (Inl (e, None), g\<lparr>rgWorld := s, rgMoves := rgMoves g @ [moved]\<rparr>))"

definition removeOwnedTree ::
    "('s, 'z) replace_io_scheme \<Rightarrow> retained_fds \<Rightarrow> jstr \<Rightarrow> nat \<Rightarrow> ('s, removal_result) replace_op" where
  "removeOwnedTree io fds backupBasename originalFd = (\<lambda>g.
     case ioRemoveOwnedTree io (rtTarget fds) backupBasename originalFd (rgWorld g) of
       ((gone, r), s) \<Rightarrow>
         let g' = g\<lparr>rgWorld := s, rgMoves := rgMoves g @ (if gone then [Tree_removed backupBasename] else [])\<rparr>
         in (case r of Inl e \<Rightarrow> (Inl (e, None), g') | Inr result \<Rightarrow> (Inr result, g')))"

definition removeOriginal ::
    "('s, 'z) replace_io_scheme \<Rightarrow> retained_fds \<Rightarrow> jstr \<Rightarrow> ('s, removal_outcome) replace_op" where
  "removeOriginal io fds backupBasename =
     bindS (readG (\<lambda>g. rgClosed g \<or> rgCleanupUsed g)) (\<lambda>spent.
       case rtOriginal fds of
         Some originalFd \<Rightarrow>
           if spent \<or> \<not> ioSupportsCleanup io
           then throwR (throwFs Path_mismatch ''retained owned-tree cleanup authority is unavailable'')
           else
             bindS (updateS (\<lambda>g. g\<lparr>rgCleanupUsed := True\<rparr>)) (\<lambda>_.
             bindS (removeOwnedTree io fds backupBasename originalFd) (\<lambda>result.
               case nrErrorCode result of
                 Some code \<Rightarrow>
                   if code = ''path-mismatch''
                   then throwR (throwFs Path_mismatch ''native owned-tree cleanup lost retained identity'')
                   else throwR (NodeErr code)
               | None \<Rightarrow>
                   if nrOutcome result = Outcome_other
                   then throwR (helperUnavailable ''native owned-tree cleanup returned an invalid result'')
                   else returnS (nrOutcome result)))
       | None \<Rightarrow> throwR (throwFs Path_mismatch ''retained owned-tree cleanup authority is unavailable''))"

definition closeRetained :: "('s, 'z) replace_io_scheme \<Rightarrow> retained_fds \<Rightarrow> ('s, unit) replace_op" where
  "closeRetained io fds =
     bindS (readG rgClosed) (\<lambda>already.
       if already then returnS ()
       else bindS (updateS (\<lambda>g. g\<lparr>rgClosed := True\<rparr>)) (\<lambda>_.
              closeDescriptors io [rtOriginal fds, Some (rtStaged fds), Some (rtTarget fds)]))"

subsection \<open>A fenced rename\<close>

definition renameRetainedDirectory ::
    "('s, 'z) replace_io_scheme \<Rightarrow> jstr \<Rightarrow> jstr \<Rightarrow> dir_guard \<Rightarrow> dir_guard \<Rightarrow> file_identity \<Rightarrow>
     (file_identity \<Rightarrow> ('s, unit) replace_op) \<Rightarrow> ('s replacing \<Rightarrow> 's replacing) \<Rightarrow>
     (file_identity \<Rightarrow> 's replacing \<Rightarrow> 's replacing) \<Rightarrow> ('s, file_identity) replace_op" where
  "renameRetainedDirectory io source dest sourceParent targetParent expectedSource rename onIndeterminate onRenamed =
     (let guards = distinctGuards sourceParent targetParent
      in bindS (onFs (assertGuardsCurrent io guards)) (\<lambda>_.
         bindS (onFs (ioLstat io source)) (\<lambda>initial.
         bindS (onFs (inspectObservedDirectory initial (Some expectedSource))) (\<lambda>stat.
           let identity = statIdentity stat
           in tryS (rename identity)
                (\<lambda>(e, _). bindS (if classifyNativeRenameFailure e = Indeterminate then updateS onIndeterminate else returnS ())
                            (\<lambda>_. throwR (normalizeNativeRenameFailure e)))
                (\<lambda>_. bindS (updateS (onRenamed identity)) (\<lambda>_.
                     bindS (onFs (inspectDirectoryIdentitySync io dest (Some identity))) (\<lambda>_.
                     bindS (onFs (assertGuardsCurrent io guards)) (\<lambda>_. returnS identity))))))))"

subsection \<open>The operation\<close>

text \<open>\<open>details\<close> also remembers what it returns.\<close>

definition currentDetails :: "jstr \<Rightarrow> replace_phase \<Rightarrow> recovery_status \<Rightarrow> 's replacing \<Rightarrow> replacement_details" where
  "currentDetails backupDir phase recovery g =
     \<lparr>rdPhase = phase, rdPublication = rgPublication g, rdRecovery = recovery,
      rdBackupPath = (if rgTransition g = Not_renamed then None else Some backupDir)\<rparr>"

definition detailsS :: "jstr \<Rightarrow> replace_phase \<Rightarrow> recovery_status \<Rightarrow> ('s, replacement_details) replace_op" where
  "detailsS backupDir phase recovery = (\<lambda>g.
     let d = currentDetails backupDir phase recovery g in (Inr d, g\<lparr>rgDetails := d\<rparr>))"

definition replacementFailure :: "error \<Rightarrow> string \<Rightarrow> replacement_details \<Rightarrow> replace_failure" where
  "replacementFailure e message details =
     (case e of
        FsSafe f \<Rightarrow> FsSafe (newFsSafeError (err_code f)
          (if err_code f = Helper_unavailable then message @ '': '' @ err_message f else message) [])
      | NodeErr code \<Rightarrow> NodeErr code
      | _ \<Rightarrow> PlainErr message, Some details)"

text \<open>An aggregate differs only in its cause.\<close>

definition replacementAggregate :: "error \<Rightarrow> error \<Rightarrow> string \<Rightarrow> replacement_details \<Rightarrow> replace_failure" where
  "replacementAggregate e recoveryError message details = replacementFailure e message details"

definition failReplacement ::
    "jstr \<Rightarrow> error \<Rightarrow> string \<Rightarrow> replace_phase \<Rightarrow> recovery_status \<Rightarrow> ('s, 'a) replace_op" where
  "failReplacement backupDir e message phase recovery =
     bindS (detailsS backupDir phase recovery) (\<lambda>d. throwS (replacementFailure e message d))"

text \<open>What the operation has found out before it touches anything.\<close>

record replacement_plan =
  rpStagedDir :: jstr
  rpTargetDir :: jstr
  rpBackupDir :: jstr
  rpStagedParent :: dir_guard
  rpTargetParent :: dir_guard
  rpStagedIdentity :: file_identity
  rpTargetIdentity :: "file_identity option"
  rpFds :: retained_fds

definition rollback ::
    "('s, 'z) replace_io_scheme \<Rightarrow> replacement_plan \<Rightarrow> error \<Rightarrow> replace_phase \<Rightarrow> file_identity \<Rightarrow> ('s, 'a) replace_op" where
  "rollback io p e failedPhase identity =
     bindS (updateS (\<lambda>g. g\<lparr>rgRollback := Not_renamed\<rparr>)) (\<lambda>_.
       tryS (renameRetainedDirectory io (rpBackupDir p) (rpTargetDir p) (rpTargetParent p) (rpTargetParent p) identity
               (renameNoReplace io (rpFds p) Target_parent (posixBasename (rpBackupDir p)) (posixBasename (rpTargetDir p)))
               (\<lambda>g. g\<lparr>rgRollback := Rename_indeterminate, rgTransition := Rename_indeterminate\<rparr>)
               (\<lambda>_ g. g\<lparr>rgRollback := Was_renamed, rgTransition := Not_renamed\<rparr>))
         (\<lambda>(rollbackError, _).
            bindS (readG rgRollback) (\<lambda>transition.
            bindS (detailsS (rpBackupDir p) Phase_rollback
                     (case transition of
                        Was_renamed \<Rightarrow> Restored_unverified
                      | Rename_indeterminate \<Rightarrow> Recovery_indeterminate
                      | Not_renamed \<Rightarrow> Backup_path_preserved)) (\<lambda>d.
              throwS (replacementAggregate e rollbackError ''directory phase and rollback failed'' d))))
         (\<lambda>_. failReplacement (rpBackupDir p) e ''directory phase failed after restoring the original target''
                failedPhase Restored))"

definition backupPhase :: "('s, 'z) replace_io_scheme \<Rightarrow> replacement_plan \<Rightarrow> ('s, unit) replace_op" where
  "backupPhase io p =
     (case rpTargetIdentity p of
        None \<Rightarrow> returnS ()
      | Some targetIdentity \<Rightarrow>
          tryS (renameRetainedDirectory io (rpTargetDir p) (rpBackupDir p) (rpTargetParent p) (rpTargetParent p) targetIdentity
                  (renameNoReplace io (rpFds p) Target_parent (posixBasename (rpTargetDir p)) (posixBasename (rpBackupDir p)))
                  (\<lambda>g. g\<lparr>rgTransition := Rename_indeterminate\<rparr>)
                  (\<lambda>identity g. g\<lparr>rgBackup := Some identity, rgTransition := Was_renamed\<rparr>))
            (\<lambda>(e, _). bindS (readG (\<lambda>g. (rgTransition g, rgBackup g))) (\<lambda>(transition, backup).
               case (transition, backup) of
                 (Was_renamed, Some identity) \<Rightarrow> rollback io p e Phase_backup identity
               | _ \<Rightarrow> failReplacement (rpBackupDir p) e ''directory backup failed before publication'' Phase_backup
                        (if transition = Rename_indeterminate then Recovery_indeterminate else No_recovery)))
            (\<lambda>identity. updateS (\<lambda>g. g\<lparr>rgBackup := Some identity\<rparr>)))"

definition backupLeft :: "rename_transition \<Rightarrow> recovery_status" where
  "backupLeft transition = (if transition = Was_renamed then Backup_path_preserved else No_recovery)"

definition publishPhase :: "('s, 'z) replace_io_scheme \<Rightarrow> replacement_plan \<Rightarrow> ('s, unit) replace_op" where
  "publishPhase io p =
     tryS (renameRetainedDirectory io (rpStagedDir p) (rpTargetDir p) (rpStagedParent p) (rpTargetParent p) (rpStagedIdentity p)
             (renameNoReplace io (rpFds p) Staged_parent (posixBasename (rpStagedDir p)) (posixBasename (rpTargetDir p)))
             (\<lambda>g. g\<lparr>rgPublication := Publication_indeterminate\<rparr>)
             (\<lambda>_ g. g\<lparr>rgPublication := Published\<rparr>))
       (\<lambda>(e, _). bindS (readG (\<lambda>g. (rgPublication g, rgTransition g, rgBackup g))) (\<lambda>(publication, transition, backup).
          case publication of
            Published \<Rightarrow>
              failReplacement (rpBackupDir p) e ''published directory failed retained identity verification'' Phase_publish
                (backupLeft transition)
          | Publication_indeterminate \<Rightarrow>
              failReplacement (rpBackupDir p) e ''directory publication outcome is indeterminate'' Phase_publish
                (backupLeft transition)
          | Not_published \<Rightarrow>
              (case (transition, backup) of
                 (Was_renamed, Some identity) \<Rightarrow> rollback io p e Phase_publish identity
               | _ \<Rightarrow> failReplacement (rpBackupDir p) e ''directory publication failed before commit'' Phase_publish
                        No_recovery)))
       (\<lambda>_. returnS ())"

definition cleanupPhase :: "('s, 'z) replace_io_scheme \<Rightarrow> replacement_plan \<Rightarrow> ('s, unit) replace_op" where
  "cleanupPhase io p =
     bindS (readG (\<lambda>g. (rgTransition g, rgBackup g))) (\<lambda>(transition, backup).
       case (transition, backup) of
         (Was_renamed, Some identity) \<Rightarrow>
           (let failed = (\<lambda>recovery (e, _). failReplacement (rpBackupDir p) e
                            ''published directory but retained backup cleanup failed'' Phase_cleanup recovery)
            in tryS (bindS (onFs (assertSyncDirectoryGuard io (rpTargetParent p))) (\<lambda>_.
                       onFs (inspectDirectoryIdentitySync io (rpBackupDir p) (Some identity))))
                 (failed Backup_path_preserved)
                 (\<lambda>_. tryS (bindS (removeOriginal io (rpFds p) (posixBasename (rpBackupDir p))) (\<lambda>outcome.
                              if outcome \<noteq> Outcome_removed
                              then throwR (throwFs Path_mismatch ''retained backup changed before bounded cleanup'')
                              else bindS (updateS (\<lambda>g. g\<lparr>rgTransition := Not_renamed\<rparr>)) (\<lambda>_.
                                   bindS (detailsS (rpBackupDir p) Phase_cleanup No_recovery) (\<lambda>_. returnS ()))))
                        (failed Cleanup_incomplete) returnS))
       | _ \<Rightarrow> returnS ())"

definition replacePhases :: "('s, 'z) replace_io_scheme \<Rightarrow> replacement_plan \<Rightarrow> ('s, unit) replace_op" where
  "replacePhases io p =
     bindS (backupPhase io p) (\<lambda>_.
     bindS (publishPhase io p) (\<lambda>_.
     bindS (readG (\<lambda>g. backupLeft (rgTransition g))) (\<lambda>left.
     bindS (detailsS (rpBackupDir p) Phase_publish left) (\<lambda>_. cleanupPhase io p))))"

text \<open>The descriptors are closed in any case. If that fails, the last details are attached.\<close>

definition closingRetained ::
    "('s, 'z) replace_io_scheme \<Rightarrow> retained_fds \<Rightarrow> ('s, unit) replace_op \<Rightarrow> ('s, unit) replace_op" where
  "closingRetained io fds body = (\<lambda>g. case body g of (r, g1) \<Rightarrow>
     (case closeRetained io fds g1 of
        (Inr _, g2) \<Rightarrow> (r, g2)
      | (Inl (closeError, _), g2) \<Rightarrow>
          (Inl (case r of
                  Inl (e, _) \<Rightarrow> replacementAggregate e closeError
                    ''directory replacement and retained descriptor close failed'' (rgDetails g2)
                | Inr _ \<Rightarrow> replacementFailure closeError
                    ''directory replacement retained descriptor close failed'' (rgDetails g2)), g2)))"

definition planReplacement ::
    "('s, 'z) replace_io_scheme \<Rightarrow> jstr \<Rightarrow> jstr \<Rightarrow> jstr \<Rightarrow> ('s, replacement_plan) replace_op" where
  "planReplacement io stagedDir targetDir backupDir =
     (let parentDir = posixDirname targetDir; stagedParentDir = posixDirname stagedDir
      in if \<not> ioSupportsRename io
         then throwR (helperUnavailable ''atomic directory replacement requires native identity-fenced no-replace rename support'')
         else
           bindS (onFs (ioMkdirRecursive io parentDir)) (\<lambda>_.
           bindS (onFs (createAsyncDirectoryGuard io parentDir)) (\<lambda>targetParent.
           bindS (if stagedParentDir = parentDir then returnS targetParent
                  else onFs (createAsyncDirectoryGuard io stagedParentDir)) (\<lambda>stagedParent.
           bindS (onFs (inspectDirectoryIdentitySync io stagedDir None)) (\<lambda>staged.
           bindS (onFs (observeOptionalDirectory io targetDir)) (\<lambda>target.
           bindS (retain io
                    \<lparr>xdPath = parentDir, xdRealPath = Some (dgRealPath targetParent), xdIdentity = dgIdentity targetParent\<rparr>
                    \<lparr>xdPath = stagedParentDir, xdRealPath = Some (dgRealPath stagedParent), xdIdentity = dgIdentity stagedParent\<rparr>
                    (map_option (\<lambda>t. \<lparr>xdPath = targetDir, xdRealPath = None, xdIdentity = statIdentity t\<rparr>) target)) (\<lambda>fds.
             returnS \<lparr>rpStagedDir = stagedDir, rpTargetDir = targetDir, rpBackupDir = backupDir,
               rpStagedParent = stagedParent, rpTargetParent = targetParent, rpStagedIdentity = statIdentity staged,
               rpTargetIdentity = map_option statIdentity target, rpFds = fds\<rparr>)))))))"

text \<open>\<open>uniqueName\<close> is the process id and a fresh UUID.\<close>

definition startReplacing :: "'s \<Rightarrow> 's replacing" where
  "startReplacing s =
     \<lparr>rgWorld = s, rgBackup = None, rgTransition = Not_renamed, rgRollback = Not_renamed, rgPublication = Not_published,
      rgDetails = \<lparr>rdPhase = Phase_backup, rdPublication = Not_published, rdRecovery = No_recovery, rdBackupPath = None\<rparr>,
      rgCleanupUsed = False, rgClosed = False, rgMoves = [], rgOpened = [], rgReleased = []\<rparr>"

definition liftR :: "error + 'a \<Rightarrow> ('s, 'a) replace_op" where
  "liftR r = (case r of Inl e \<Rightarrow> throwR e | Inr x \<Rightarrow> returnS x)"

definition replaceDirectoryAtomicUnserialized ::
    "('s, 'z) replace_io_scheme \<Rightarrow> unicode \<Rightarrow> jstr \<Rightarrow> jstr \<Rightarrow> jstr \<Rightarrow> jstr option \<Rightarrow> ('s, unit) replace_op" where
  "replaceDirectoryAtomicUnserialized io u uniqueName stagedDir targetDir backupPrefixInput =
     bindS (liftR (assertSafePathPrefix u
              (case backupPrefixInput of None \<Rightarrow> js ''.fs-safe-dir-backup-'' | Some x \<Rightarrow> x) None)) (\<lambda>backupPrefix.
     bindS (planReplacement io stagedDir targetDir (posixJoin [posixDirname targetDir, backupPrefix @ uniqueName])) (\<lambda>p.
       closingRetained io (rpFds p) (replacePhases io p)))"

record replace_directory_options =
  roStagedDir :: jstr
  roTargetDir :: jstr
  roBackupPrefix :: "jstr option"

definition replaceDirectoryAtomic ::
    "('s, 'z) replace_io_scheme \<Rightarrow> unicode \<Rightarrow> host \<Rightarrow> jstr \<Rightarrow> replace_directory_options \<Rightarrow> 's \<Rightarrow>
     (replace_failure + unit) \<times> 's replacing" where
  "replaceDirectoryAtomic io u h uniqueName options s =
     bindS (liftR (admitStandalonePublicationPath h (roStagedDir options)
              ''staged directory uses a Windows filesystem namespace alias'')) (\<lambda>stagedInput.
     bindS (liftR (admitStandalonePublicationPath h (roTargetDir options)
              ''target directory uses a Windows filesystem namespace alias'')) (\<lambda>targetInput.
       let stagedDir = pathResolve h [stagedInput]; targetDir = pathResolve h [targetInput]
       in bindS (liftR (assertNoWindowsPathAlias stagedDir Filesystem
                   ''staged directory uses a Windows filesystem namespace alias'' (platform h))) (\<lambda>_.
          bindS (liftR (assertNoWindowsPathAlias targetDir Filesystem
                   ''target directory uses a Windows filesystem namespace alias'' (platform h))) (\<lambda>_.
            replaceDirectoryAtomicUnserialized io u uniqueName stagedDir targetDir (roBackupPrefix options))))) (startReplacing s)"

end
