(* ===== verification/ReplaceSafety.thy ===== *)
theory ReplaceSafety
  imports DirectoryReplace "HOL-Library.Multiset"
begin

text \<open>
  What the report of a directory replacement means. Whatever the file system answers and others do, the
  moves that took place are among those the report allows; a success has moved the original aside, the
  staged directory in and removed the original.
\<close>

subsection \<open>The binding\<close>

text \<open>What the native binding documents: a failure with one of the two codes of its own is one of a rename that
  did not take place, and a tree is gone when it is said to be removed.\<close>

definition honestBinding :: "('s, 'z) replace_io_scheme \<Rightarrow> bool" where
  "honestBinding io \<longleftrightarrow>
     (\<forall>fd a fd' b i s e t. ioRenameNoReplace io fd a fd' b i s = (Rename_lost e, t) \<longrightarrow>
        classifyNativeRenameFailure e = Indeterminate) \<and>
     (\<forall>fd a fd' s gone r t. ioRemoveOwnedTree io fd a fd' s = ((gone, Inr r), t) \<longrightarrow>
        nrErrorCode r = None \<longrightarrow> nrOutcome r = Outcome_removed \<longrightarrow> gone)"

subsection \<open>What a call can change\<close>

definition view :: "'s replacing \<Rightarrow> file_identity option \<times> rename_transition \<times> rename_transition \<times> publication_status \<times>
    replacement_details \<times> dir_move list" where
  "view g = (rgBackup g, rgTransition g, rgRollback g, rgPublication g, rgDetails g, rgMoves g)"

lemma onFs_view: "onFs m g = (r, g') \<Longrightarrow> view g' = view g \<and> (\<forall>e d. r = Inl (e, d) \<longrightarrow> d = None)"
  by (auto simp: onFs_def view_def split: prod.splits sum.splits)

lemma renameNoReplace_cases:
  assumes "honestBinding io" "renameNoReplace io fds parent a b want g = (r, g')"
  shows "(r = Inr () \<and> view g' = view (g\<lparr>rgMoves := rgMoves g @ [Dir_moved parent a b want]\<rparr>)) \<or>
    (\<exists>e. r = Inl (e, None) \<and> (view g' = view g \<or>
       classifyNativeRenameFailure e = Indeterminate \<and>
         view g' = view (g\<lparr>rgMoves := rgMoves g @ [Dir_moved parent a b want]\<rparr>)))"
proof -
  have lost: "classifyNativeRenameFailure e = Indeterminate"
    if "ioRenameNoReplace io fd a fd' b i s = (Rename_lost e, t)" for fd fd' i s e t
    using assms(1) that unfolding honestBinding_def by blast
  show ?thesis
    using assms(2) lost
    by (auto simp: renameNoReplace_def throwR_def throwS_def liftS_def Let_def view_def
        split: if_splits prod.splits rename_answer.splits)
qed

lemma observed_identity: "inspectObservedDirectory st (Some want) s = (Inr stat, t) \<Longrightarrow> statIdentity stat = want"
  unfolding inspectObservedDirectory_def by (drule inspect_sound) auto

text \<open>A fenced rename is not made, or made, or made or not with the caller told so; and it moves nothing but the
  directory that was to be moved.\<close>

lemma renameRetained_cases:
  assumes honest: "honestBinding io"
    and run: "renameRetainedDirectory io source dest sp tp want (renameNoReplace io fds parent a b) onI onR g = (r, g')"
  shows "(\<exists>e. r = Inl (e, None) \<and> view g' = view g) \<or>
    (\<exists>e g1. r = Inl (e, None) \<and> view g' = view (onI g1) \<and>
       (view g1 = view g \<or> view g1 = view (g\<lparr>rgMoves := rgMoves g @ [Dir_moved parent a b want]\<rparr>))) \<or>
    (\<exists>g1. (r = Inr want \<or> (\<exists>e. r = Inl (e, None))) \<and> view g' = view (onR want g1) \<and>
       view g1 = view (g\<lparr>rgMoves := rgMoves g @ [Dir_moved parent a b want]\<rparr>))"
proof -
  let ?guards = "distinctGuards sp tp"
  let ?moved = "\<lambda>g. g\<lparr>rgMoves := rgMoves g @ [Dir_moved parent a b want]\<rparr>"
  obtain r1 g1 where c1: "onFs (assertGuardsCurrent io ?guards) g = (r1, g1)" by (metis surj_pair)
  show ?thesis
  proof (cases r1)
    case (Inl e)
    then show ?thesis using run c1 onFs_view [OF c1]
      by (intro disjI1) (cases e, auto simp: renameRetainedDirectory_def Let_def bindS_def)
  next
    case Inr1: (Inr x1)
    obtain r2 g2 where c2: "onFs (ioLstat io source) g1 = (r2, g2)" by (metis surj_pair)
    show ?thesis
    proof (cases r2)
      case (Inl e)
      then show ?thesis using run c1 c2 Inr1 onFs_view [OF c1] onFs_view [OF c2]
        by (intro disjI1) (cases e, auto simp: renameRetainedDirectory_def Let_def bindS_def)
    next
      case Inr2: (Inr initial)
      obtain r3 g3 where c3: "onFs (inspectObservedDirectory initial (Some want)) g2 = (r3, g3)" by (metis surj_pair)
      have v3: "view g3 = view g" using onFs_view [OF c1] onFs_view [OF c2] onFs_view [OF c3] by simp
      show ?thesis
      proof (cases r3)
        case (Inl e)
        then show ?thesis using run c1 c2 c3 Inr1 Inr2 v3 onFs_view [OF c3]
          by (intro disjI1) (cases e, auto simp: renameRetainedDirectory_def Let_def bindS_def)
      next
        case Inr3: (Inr stat)
        then have want: "statIdentity stat = want"
          using c3 observed_identity by (fastforce simp: onFs_def split: prod.splits sum.splits)
        obtain r4 g4 where c4: "renameNoReplace io fds parent a b want g3 = (r4, g4)" by (metis surj_pair)
        have m3: "view (?moved g3) = view (?moved g)" using v3 by (simp add: view_def)
        have rest: "(case r4 of
              Inl (e, _) \<Rightarrow> (Inl (normalizeNativeRenameFailure e, None),
                 if classifyNativeRenameFailure e = Indeterminate then onI g4 else g4)
            | Inr _ \<Rightarrow> bindS (onFs (inspectDirectoryIdentitySync io dest (Some want))) (\<lambda>_.
                 bindS (onFs (assertGuardsCurrent io ?guards)) (\<lambda>_. returnS want)) (onR want g4)) = (r, g')"
          using run c1 c2 c3 c4 Inr1 Inr2 Inr3 want
          by (auto simp: renameRetainedDirectory_def Let_def bindS_def tryS_def updateS_def returnS_def throwR_def throwS_def
              liftS_def split: sum.splits prod.splits if_splits)
        show ?thesis
        proof (cases r4)
          case (Inl ed)
          then show ?thesis
            using renameNoReplace_cases [OF honest c4] rest v3 m3 by (cases ed) (auto split: if_splits)
        next
          case (Inr u)
          then have g4: "view g4 = view (?moved g)" using renameNoReplace_cases [OF honest c4] m3 by auto
          have "view g' = view (onR want g4) \<and> (r = Inr want \<or> (\<exists>e. r = Inl (e, None)))"
            using rest Inr
            by (auto simp: bindS_def returnS_def dest!: onFs_view split: prod.splits sum.splits)
          then show ?thesis using g4 by blast
        qed
      qed
    qed
  qed
qed

subsection \<open>What a report allows\<close>

definition asideMove :: "replacement_plan \<Rightarrow> file_identity \<Rightarrow> dir_move" where
  "asideMove p i = Dir_moved Target_parent (posixBasename (rpTargetDir p)) (posixBasename (rpBackupDir p)) i"

definition backMove :: "replacement_plan \<Rightarrow> file_identity \<Rightarrow> dir_move" where
  "backMove p i = Dir_moved Target_parent (posixBasename (rpBackupDir p)) (posixBasename (rpTargetDir p)) i"

definition inMove :: "replacement_plan \<Rightarrow> dir_move" where
  "inMove p = Dir_moved Staged_parent (posixBasename (rpStagedDir p)) (posixBasename (rpTargetDir p)) (rpStagedIdentity p)"

definition goneMove :: "replacement_plan \<Rightarrow> dir_move" where
  "goneMove p = Tree_removed (posixBasename (rpBackupDir p))"

text \<open>The moves that took place, if there was a target directory before and if there was none.\<close>

definition movesWithTarget :: "replacement_plan \<Rightarrow> file_identity \<Rightarrow> replacement_details \<Rightarrow> dir_move list set" where
  "movesWithTarget p i d =
     (let aside = asideMove p i; back = backMove p i; inside = inMove p; gone = goneMove p
      in case rdRecovery d of
           No_recovery \<Rightarrow>
             (case rdPublication d of
                Not_published \<Rightarrow> {[]}
              | Published \<Rightarrow> {[aside, inside, gone]}
              | Publication_indeterminate \<Rightarrow> {})
         | Restored \<Rightarrow> if rdPublication d = Not_published then {[aside, back]} else {}
         | Restored_unverified \<Rightarrow> if rdPublication d = Not_published then {[aside, back]} else {}
         | Recovery_indeterminate \<Rightarrow>
             if rdPublication d \<noteq> Not_published then {}
             else if rdPhase d = Phase_rollback then {[aside], [aside, back]} else {[], [aside]}
         | Backup_path_preserved \<Rightarrow>
             (case rdPublication d of
                Not_published \<Rightarrow> {[aside]}
              | Published \<Rightarrow> {[aside, inside]}
              | Publication_indeterminate \<Rightarrow> {[aside], [aside, inside]})
         | Cleanup_incomplete \<Rightarrow>
             if rdPublication d = Published then {[aside, inside], [aside, inside, gone]} else {})"

definition movesWithout :: "replacement_plan \<Rightarrow> replacement_details \<Rightarrow> dir_move list set" where
  "movesWithout p d =
     (if rdRecovery d \<noteq> No_recovery then {}
      else case rdPublication d of
             Not_published \<Rightarrow> {[]}
           | Published \<Rightarrow> {[inMove p]}
           | Publication_indeterminate \<Rightarrow> {[], [inMove p]})"

text \<open>The backup path is reported where something may still be there.\<close>

definition trueReport :: "replacement_plan \<Rightarrow> replacement_details \<Rightarrow> dir_move list \<Rightarrow> bool" where
  "trueReport p d ms \<longleftrightarrow>
     ms \<in> (case rpTargetIdentity p of None \<Rightarrow> movesWithout p d | Some i \<Rightarrow> movesWithTarget p i d) \<and>
     (rdBackupPath d =
        (if rdRecovery d \<in> {No_recovery, Restored, Restored_unverified} then None else Some (rpBackupDir p)))"

definition reported :: "replacement_plan \<Rightarrow> (replace_failure + 'a) \<times> 's replacing \<Rightarrow> bool" where
  "reported p run \<longleftrightarrow> (\<exists>e g. run = (Inl (e, Some (rgDetails g)), g) \<and> trueReport p (rgDetails g) (rgMoves g))"

lemma failReplacement_run:
  "failReplacement backup e message phase recovery g =
     (let d = currentDetails backup phase recovery g
      in (Inl (replacementFailure e message d), g\<lparr>rgDetails := d\<rparr>))"
  by (simp add: failReplacement_def detailsS_def bindS_def throwS_def liftS_def Let_def)

lemma reported_fail:
  "trueReport p (currentDetails (rpBackupDir p) phase recovery g) (rgMoves g) \<Longrightarrow>
   reported p (failReplacement (rpBackupDir p) e message phase recovery g)"
  by (auto simp: reported_def failReplacement_run Let_def replacementFailure_def)

lemma reported_aggregate:
  "trueReport p d (rgMoves g) \<Longrightarrow> reported p (Inl (replacementAggregate e re message d), g\<lparr>rgDetails := d\<rparr>)"
  by (auto simp: reported_def replacementAggregate_def replacementFailure_def)

subsection \<open>The phases\<close>

lemma bind_readG: "bindS (readG f) k g = k (f g) g"
  by (simp add: bindS_def readG_def)

lemma bind_updateS: "bindS (updateS f) k g = k () (f g)"
  by (simp add: bindS_def updateS_def)

lemma rollback_reported:
  assumes "honestBinding io" "rpTargetIdentity p = Some i" "rgTransition g = Was_renamed" "rgPublication g = Not_published"
    and "rgMoves g = [asideMove p i]" "phase \<noteq> Phase_rollback"
  shows "reported p (rollback io p e phase i g)"
proof -
  let ?g = "g\<lparr>rgRollback := Not_renamed\<rparr>"
  obtain r g' where run: "renameRetainedDirectory io (rpBackupDir p) (rpTargetDir p) (rpTargetParent p) (rpTargetParent p) i
      (renameNoReplace io (rpFds p) Target_parent (posixBasename (rpBackupDir p)) (posixBasename (rpTargetDir p)))
      (\<lambda>g. g\<lparr>rgRollback := Rename_indeterminate, rgTransition := Rename_indeterminate\<rparr>)
      (\<lambda>_ g. g\<lparr>rgRollback := Was_renamed, rgTransition := Not_renamed\<rparr>) ?g = (r, g')" by (metis surj_pair)
  have start: "rollback io p e phase i g =
      (case r of
         Inl (re, _) \<Rightarrow>
           (let d = currentDetails (rpBackupDir p) Phase_rollback
                      (case rgRollback g' of Was_renamed \<Rightarrow> Restored_unverified | Rename_indeterminate \<Rightarrow> Recovery_indeterminate
                         | Not_renamed \<Rightarrow> Backup_path_preserved) g'
            in (Inl (replacementAggregate e re ''directory phase and rollback failed'' d), g'\<lparr>rgDetails := d\<rparr>))
       | Inr _ \<Rightarrow> failReplacement (rpBackupDir p) e ''directory phase failed after restoring the original target'' phase Restored g')"
    using run
    by (auto simp: rollback_def bindS_def updateS_def tryS_def readG_def detailsS_def Let_def throwS_def liftS_def
        split: sum.splits prod.splits)
  note restored = renameRetained_cases [OF assms(1) run]
  show ?thesis
  proof (cases r)
    case (Inl ed)
    then show ?thesis
      unfolding start Let_def using restored assms(2-5)
      by (cases ed) (auto intro!: reported_aggregate simp: trueReport_def currentDetails_def movesWithTarget_def backMove_def
          Let_def view_def)
  next
    case (Inr x)
    then have "rgTransition g' = Not_renamed" "rgPublication g' = Not_published" "rgMoves g' = [asideMove p i, backMove p i]"
      using restored assms(3-5) by (auto simp: view_def backMove_def)
    then show ?thesis
      unfolding start Inr sum.case using assms(2,6)
      by (auto intro!: reported_fail simp: trueReport_def currentDetails_def movesWithTarget_def Let_def)
  qed
qed

lemma fresh_fields: "view g = (b, t, rb, pub, d, ms) \<longleftrightarrow>
    rgBackup g = b \<and> rgTransition g = t \<and> rgRollback g = rb \<and> rgPublication g = pub \<and> rgDetails g = d \<and> rgMoves g = ms"
  by (auto simp: view_def)

text \<open>Where the phases are: nothing done, the original aside, the staged directory in.\<close>

definition untouched :: "'s replacing \<Rightarrow> bool" where
  "untouched g \<longleftrightarrow> rgBackup g = None \<and> rgTransition g = Not_renamed \<and> rgPublication g = Not_published \<and> rgMoves g = []"

definition movedAside :: "replacement_plan \<Rightarrow> 's replacing \<Rightarrow> bool" where
  "movedAside p g \<longleftrightarrow> rgPublication g = Not_published \<and>
     (case rpTargetIdentity p of
        None \<Rightarrow> rgBackup g = None \<and> rgTransition g = Not_renamed \<and> rgMoves g = []
      | Some i \<Rightarrow> rgBackup g = Some i \<and> rgTransition g = Was_renamed \<and> rgMoves g = [asideMove p i])"

definition movedIn :: "replacement_plan \<Rightarrow> 's replacing \<Rightarrow> bool" where
  "movedIn p g \<longleftrightarrow> rgPublication g = Published \<and>
     (case rpTargetIdentity p of
        None \<Rightarrow> rgBackup g = None \<and> rgTransition g = Not_renamed \<and> rgMoves g = [inMove p]
      | Some i \<Rightarrow> rgBackup g = Some i \<and> rgTransition g = Was_renamed \<and> rgMoves g = [asideMove p i, inMove p])"

lemma backup_reported:
  fixes g :: "'s replacing"
  assumes honest: "honestBinding io" and g: "untouched g"
  shows "(\<exists>g'. backupPhase io p g = (Inr (), g') \<and> movedAside p g') \<or> reported p (backupPhase io p g)"
proof (cases "rpTargetIdentity p")
  case None
  then show ?thesis using g by (simp add: backupPhase_def returnS_def movedAside_def untouched_def)
next
  case (Some i)
  let ?onR = "\<lambda>identity g. g\<lparr>rgBackup := Some identity, rgTransition := Was_renamed\<rparr>"
  obtain r g' where run: "renameRetainedDirectory io (rpTargetDir p) (rpBackupDir p) (rpTargetParent p) (rpTargetParent p) i
      (renameNoReplace io (rpFds p) Target_parent (posixBasename (rpTargetDir p)) (posixBasename (rpBackupDir p)))
      (\<lambda>g. g\<lparr>rgTransition := Rename_indeterminate\<rparr>) ?onR g = (r, g')" by (metis surj_pair)
  note aside = renameRetained_cases [OF honest run]
  have start: "backupPhase io p g = (case r of
        Inl (e, _) \<Rightarrow>
          (case (rgTransition g', rgBackup g') of
             (Was_renamed, Some identity) \<Rightarrow> rollback io p e Phase_backup identity
           | _ \<Rightarrow> failReplacement (rpBackupDir p) e ''directory backup failed before publication'' Phase_backup
                    (if rgTransition g' = Rename_indeterminate then Recovery_indeterminate else No_recovery)) g'
      | Inr identity \<Rightarrow> (Inr (), g'\<lparr>rgBackup := Some identity\<rparr>))"
    using run Some
    by (auto simp: backupPhase_def bindS_def updateS_def tryS_def readG_def split: sum.splits prod.splits)
  show ?thesis
  proof (cases r)
    case (Inl ed)
    then obtain e where e: "r = Inl (e, None)" using aside by auto
    from aside e consider (no) "view g' = view g"
      | (maybe) "rgTransition g' = Rename_indeterminate" "rgPublication g' = Not_published" "rgMoves g' = [] \<or> rgMoves g' = [asideMove p i]"
      | (yes) "rgBackup g' = Some i" "rgTransition g' = Was_renamed" "rgPublication g' = Not_published" "rgMoves g' = [asideMove p i]"
      using g by (auto simp: view_def asideMove_def untouched_def)
    then show ?thesis
    proof cases
      case no
      then have "reported p (failReplacement (rpBackupDir p) e ''directory backup failed before publication'' Phase_backup No_recovery g' :: (replace_failure + unit) \<times> 's replacing)"
        using Some g by (auto intro!: reported_fail simp: trueReport_def currentDetails_def movesWithTarget_def Let_def view_def untouched_def)
      then show ?thesis using start e no g by (simp add: view_def untouched_def)
    next
      case maybe
      then have "reported p (failReplacement (rpBackupDir p) e ''directory backup failed before publication'' Phase_backup Recovery_indeterminate g' :: (replace_failure + unit) \<times> 's replacing)"
        using Some g by (auto intro!: reported_fail simp: trueReport_def currentDetails_def movesWithTarget_def Let_def)
      then show ?thesis using start e maybe by (simp split: option.split)
    next
      case yes
      then have "reported p (rollback io p e Phase_backup i g' :: (replace_failure + unit) \<times> 's replacing)" by (intro rollback_reported [OF honest Some]) simp_all
      then show ?thesis using start e yes by simp
    qed
  next
    case (Inr identity)
    then have "identity = i" "rgTransition g' = Was_renamed" "rgPublication g' = Not_published" "rgMoves g' = [asideMove p i]"
      using aside g by (auto simp: view_def asideMove_def untouched_def)
    then show ?thesis using start Inr Some by (simp add: movedAside_def)
  qed
qed

lemma publish_reported:
  fixes g :: "'s replacing"
  assumes honest: "honestBinding io" and g: "movedAside p g"
  shows "(\<exists>g'. publishPhase io p g = (Inr (), g') \<and> movedIn p g') \<or> reported p (publishPhase io p g)"
proof -
  obtain r g' where run: "renameRetainedDirectory io (rpStagedDir p) (rpTargetDir p) (rpStagedParent p) (rpTargetParent p)
      (rpStagedIdentity p)
      (renameNoReplace io (rpFds p) Staged_parent (posixBasename (rpStagedDir p)) (posixBasename (rpTargetDir p)))
      (\<lambda>g. g\<lparr>rgPublication := Publication_indeterminate\<rparr>) (\<lambda>_ g. g\<lparr>rgPublication := Published\<rparr>) g = (r, g')"
    by (metis surj_pair)
  note inside = renameRetained_cases [OF honest run]
  have start: "publishPhase io p g = (case r of
        Inl (e, _) \<Rightarrow>
          (case rgPublication g' of
             Published \<Rightarrow> failReplacement (rpBackupDir p) e ''published directory failed retained identity verification''
               Phase_publish (backupLeft (rgTransition g'))
           | Publication_indeterminate \<Rightarrow> failReplacement (rpBackupDir p) e ''directory publication outcome is indeterminate''
               Phase_publish (backupLeft (rgTransition g'))
           | Not_published \<Rightarrow>
               (case (rgTransition g', rgBackup g') of
                  (Was_renamed, Some identity) \<Rightarrow> rollback io p e Phase_publish identity
                | _ \<Rightarrow> failReplacement (rpBackupDir p) e ''directory publication failed before commit'' Phase_publish
                         No_recovery)) g'
      | Inr _ \<Rightarrow> (Inr (), g'))"
    using run
    by (auto simp: publishPhase_def bindS_def updateS_def tryS_def readG_def returnS_def split: sum.splits prod.splits)
  show ?thesis
  proof (cases r)
    case (Inl ed)
    then obtain e where e: "r = Inl (e, None)" using inside by auto
    from inside e consider (no) "view g' = view g"
      | (maybe) "rgPublication g' = Publication_indeterminate" "rgTransition g' = rgTransition g"
          "rgMoves g' = rgMoves g \<or> rgMoves g' = rgMoves g @ [inMove p]"
      | (yes) "rgPublication g' = Published" "rgTransition g' = rgTransition g" "rgMoves g' = rgMoves g @ [inMove p]"
      by (auto simp: view_def inMove_def)
    then show ?thesis
    proof cases
      case no
      then have at_g: "movedAside p g'" using g by (cases "rpTargetIdentity p") (simp_all add: view_def movedAside_def)
      show ?thesis
      proof (cases "rpTargetIdentity p")
        case None
        then have "reported p (failReplacement (rpBackupDir p) e ''directory publication failed before commit'' Phase_publish No_recovery g' :: (replace_failure + unit) \<times> 's replacing)"
          using at_g by (auto intro!: reported_fail simp: trueReport_def currentDetails_def movesWithout_def movedAside_def)
        then show ?thesis using start e at_g None by (simp add: movedAside_def)
      next
        case (Some i)
        then have "reported p (rollback io p e Phase_publish i g' :: (replace_failure + unit) \<times> 's replacing)"
          using at_g Some by (intro rollback_reported [OF honest Some]) (simp_all add: movedAside_def)
        then show ?thesis using start e at_g Some by (simp add: movedAside_def)
      qed
    next
      case maybe
      then have "reported p (failReplacement (rpBackupDir p) e ''directory publication outcome is indeterminate'' Phase_publish
          (backupLeft (rgTransition g')) g' :: (replace_failure + unit) \<times> 's replacing)"
        using g by (auto intro!: reported_fail simp: trueReport_def currentDetails_def movesWithout_def movesWithTarget_def Let_def
            movedAside_def backupLeft_def split: option.splits)
      then show ?thesis using start e maybe by simp
    next
      case yes
      then have "reported p (failReplacement (rpBackupDir p) e ''published directory failed retained identity verification'' Phase_publish
          (backupLeft (rgTransition g')) g' :: (replace_failure + unit) \<times> 's replacing)"
        using g by (auto intro!: reported_fail simp: trueReport_def currentDetails_def movesWithout_def movesWithTarget_def Let_def
            movedAside_def backupLeft_def split: option.splits)
      then show ?thesis using start e yes by simp
    qed
  next
    case (Inr identity)
    then have "movedIn p g'"
      using inside g by (auto simp: view_def inMove_def movedIn_def movedAside_def split: option.splits)
    then show ?thesis using start Inr by simp
  qed
qed

lemma removeOriginal_cases:
  assumes "honestBinding io" "removeOriginal io fds name g = (r, g')"
  shows "view g' = view g \<and> r \<noteq> Inr Outcome_removed \<or> view g' = view (g\<lparr>rgMoves := rgMoves g @ [Tree_removed name]\<rparr>)"
proof -
  have gone: "gone" if "ioRemoveOwnedTree io fd a fd' s = ((gone, Inr res), t)" "nrErrorCode res = None"
    "nrOutcome res = Outcome_removed" for fd a fd' s gone res t
    using assms(1) that unfolding honestBinding_def by blast
  show ?thesis
    using assms(2)
    by (auto simp: removeOriginal_def readG_def bindS_def updateS_def throwR_def throwS_def liftS_def removeOwnedTree_def Let_def
        returnS_def view_def dest: gone split: option.splits if_splits prod.splits sum.splits)
qed

text \<open>A finished replacement.\<close>

definition replaced :: "replacement_plan \<Rightarrow> 's replacing \<Rightarrow> bool" where
  "replaced p g \<longleftrightarrow>
     rgMoves g = (case rpTargetIdentity p of None \<Rightarrow> [inMove p] | Some i \<Rightarrow> [asideMove p i, inMove p, goneMove p]) \<and>
     trueReport p (rgDetails g) (rgMoves g)"

lemma cleanup_reported:
  fixes g :: "'s replacing"
  assumes honest: "honestBinding io" and g: "movedIn p g"
    and d: "rgDetails g = currentDetails (rpBackupDir p) Phase_publish (backupLeft (rgTransition g)) g"
  shows "(\<exists>g'. cleanupPhase io p g = (Inr (), g') \<and> replaced p g') \<or> reported p (cleanupPhase io p g)"
proof (cases "rpTargetIdentity p")
  case None
  then have "replaced p g"
    using g d by (simp add: replaced_def movedIn_def trueReport_def movesWithout_def currentDetails_def backupLeft_def)
  then show ?thesis using g None by (simp add: cleanupPhase_def readG_def bindS_def movedIn_def returnS_def)
next
  case (Some i)
  have f: "rgBackup g = Some i" "rgTransition g = Was_renamed" "rgPublication g = Published" "rgMoves g = [asideMove p i, inMove p]"
    using g Some by (auto simp: movedIn_def)
  let ?fail = "\<lambda>recovery e g'. failReplacement (rpBackupDir p) e ''published directory but retained backup cleanup failed''
    Phase_cleanup recovery g' :: (replace_failure + unit) \<times> 's replacing"
  obtain r1 g1 where c1: "bindS (onFs (assertSyncDirectoryGuard io (rpTargetParent p))) (\<lambda>_.
      onFs (inspectDirectoryIdentitySync io (rpBackupDir p) (Some i))) g = (r1, g1)" by (metis surj_pair)
  have v1: "view g1 = view g" using c1 by (auto simp: bindS_def dest!: onFs_view split: prod.splits sum.splits)
  show ?thesis
  proof (cases r1)
    case (Inl ed)
    then have "cleanupPhase io p g = ?fail Backup_path_preserved (fst ed) g1"
      using c1 f by (cases ed) (simp add: cleanupPhase_def bind_readG Let_def tryS_def)
    moreover have "reported p (?fail Backup_path_preserved (fst ed) g1)"
      using v1 f Some by (auto intro!: reported_fail simp: trueReport_def currentDetails_def movesWithTarget_def Let_def view_def)
    ultimately show ?thesis by simp
  next
    case Inr1: (Inr st)
    obtain r2 g2 where c2: "removeOriginal io (rpFds p) (posixBasename (rpBackupDir p)) g1 = (r2, g2)" by (metis surj_pair)
    note gone = removeOriginal_cases [OF honest c2]
    have start: "cleanupPhase io p g = (case r2 of
          Inl (e, _) \<Rightarrow> ?fail Cleanup_incomplete e g2
        | Inr outcome \<Rightarrow>
            if outcome \<noteq> Outcome_removed
            then ?fail Cleanup_incomplete (throwFs Path_mismatch ''retained backup changed before bounded cleanup'') g2
            else (let g3 = g2\<lparr>rgTransition := Not_renamed\<rparr>
                  in (Inr (), g3\<lparr>rgDetails := currentDetails (rpBackupDir p) Phase_cleanup No_recovery g3\<rparr>)))"
      using c1 c2 f Inr1
      by (auto simp: cleanupPhase_def readG_def bindS_def Let_def tryS_def throwR_def throwS_def liftS_def updateS_def detailsS_def
          returnS_def split: sum.splits prod.splits)
    have "reported p (?fail Cleanup_incomplete e g2)" for e
      using gone v1 f Some by (auto intro!: reported_fail simp: trueReport_def currentDetails_def movesWithTarget_def Let_def view_def goneMove_def)
    moreover have "replaced p (g3\<lparr>rgDetails := currentDetails (rpBackupDir p) Phase_cleanup No_recovery g3\<rparr>)"
      if "r2 = Inr Outcome_removed" "g3 = g2\<lparr>rgTransition := Not_renamed\<rparr>" for g3
      using gone v1 f Some that
      by (auto simp: replaced_def trueReport_def currentDetails_def movesWithTarget_def Let_def view_def goneMove_def)
    ultimately show ?thesis unfolding start by (auto simp: Let_def split: sum.split)
  qed
qed

lemma phases_reported:
  fixes g :: "'s replacing"
  assumes "honestBinding io" "untouched g"
  shows "(\<exists>g'. replacePhases io p g = (Inr (), g') \<and> replaced p g') \<or> reported p (replacePhases io p g)"
proof -
  consider (bad) "reported p (backupPhase io p g)" | (good) g1 where "backupPhase io p g = (Inr (), g1)" "movedAside p g1"
    using backup_reported [OF assms] by blast
  then show ?thesis
  proof cases
    case bad
    then show ?thesis by (auto simp: reported_def replacePhases_def bindS_def)
  next
    case good
    consider (bad) "reported p (publishPhase io p g1)" | (fine) g2 where "publishPhase io p g1 = (Inr (), g2)" "movedIn p g2"
      using publish_reported [OF assms(1) good(2)] by blast
    then show ?thesis
    proof cases
      case bad
      then show ?thesis using good by (auto simp: reported_def replacePhases_def bindS_def)
    next
      case fine
      let ?g = "g2\<lparr>rgDetails := currentDetails (rpBackupDir p) Phase_publish (backupLeft (rgTransition g2)) g2\<rparr>"
      have "movedIn p ?g" "rgDetails ?g = currentDetails (rpBackupDir p) Phase_publish (backupLeft (rgTransition ?g)) ?g"
        using fine(2) by (cases "rpTargetIdentity p"; simp add: movedIn_def currentDetails_def)+
      moreover have "replacePhases io p g = cleanupPhase io p ?g"
        using good fine by (simp add: replacePhases_def bindS_def readG_def detailsS_def Let_def)
      ultimately show ?thesis using cleanup_reported [OF assms(1)] by metis
    qed
  qed
qed

subsection \<open>Operations that leave something alone\<close>

definition unaffected :: "('s replacing \<Rightarrow> 'v) \<Rightarrow> ('s, 'a) replace_op \<Rightarrow> bool" where
  "unaffected V m \<longleftrightarrow> (\<forall>g r g'. m g = (r, g') \<longrightarrow> V g' = V g)"

named_theorems unaffecting \<open>what leaves a part of the state alone\<close>

lemma unaffected_bind [unaffecting]: "unaffected V m \<Longrightarrow> (\<And>x. unaffected V (f x)) \<Longrightarrow> unaffected V (bindS m f)"
  by (fastforce simp: unaffected_def bindS_def split: prod.splits sum.splits)

lemma unaffected_try [unaffecting]:
  "unaffected V m \<Longrightarrow> (\<And>e. unaffected V (h e)) \<Longrightarrow> (\<And>x. unaffected V (k x)) \<Longrightarrow> unaffected V (tryS m h k)"
  by (fastforce simp: unaffected_def tryS_def split: prod.splits sum.splits)

lemma unaffected_basic [unaffecting]:
  "unaffected V (returnS x)" "unaffected V (throwS e)" "unaffected V (throwR e1)" "unaffected V (liftR v)" "unaffected V (readG f)"
  by (auto simp: unaffected_def returnS_def throwS_def throwR_def liftS_def liftR_def readG_def split: sum.splits)

lemma unaffected_if [unaffecting]: "unaffected V m \<Longrightarrow> unaffected V n \<Longrightarrow> unaffected V (if b then m else n)"
  by simp

lemma unaffected_option [unaffecting]:
  "unaffected V m \<Longrightarrow> (\<And>x. unaffected V (f x)) \<Longrightarrow> unaffected V (case v of None \<Rightarrow> m | Some x \<Rightarrow> f x)"
  by (cases v) auto

lemma unaffected_pair [unaffecting]: "(\<And>x y. unaffected V (f x y)) \<Longrightarrow> unaffected V (case v of (x, y) \<Rightarrow> f x y)"
  by (cases v) auto

lemma unaffected_list [unaffecting]:
  "unaffected V m \<Longrightarrow> (\<And>x xs. unaffected V (f x xs)) \<Longrightarrow> unaffected V (case v of [] \<Rightarrow> m | x # xs \<Rightarrow> f x xs)"
  by (cases v) auto

lemma unaffected_update: "(\<And>g. V (f g) = V g) \<Longrightarrow> unaffected V (updateS f)"
  by (simp add: unaffected_def updateS_def)

lemma unaffected_onFs: "(\<And>g s. V (g\<lparr>rgWorld := s\<rparr>) = V g) \<Longrightarrow> unaffected V (onFs m)"
  by (auto simp: unaffected_def onFs_def split: prod.splits sum.splits)

lemma closeEach_unaffected:
  assumes "\<And>g s. V (g\<lparr>rgWorld := s\<rparr>) = V g" "\<And>g fds. V (g\<lparr>rgReleased := fds\<rparr>) = V g"
  shows "unaffected V (closeEach io fds seen errors)"
  by (induction io fds seen errors rule: closeEach.induct)
    (auto simp: closeFd_def assms intro!: unaffecting unaffected_update unaffected_onFs split: option.split)

subsection \<open>Before the first move\<close>

text \<open>Nothing of the view changes, and an error has no details.\<close>

definition quiet :: "('s, 'a) replace_op \<Rightarrow> bool" where
  "quiet m \<longleftrightarrow> (\<forall>g r g'. m g = (r, g') \<longrightarrow> view g' = view g \<and> (\<forall>e d. r = Inl (e, d) \<longrightarrow> d = None))"

lemma quiet_bind: "quiet m \<Longrightarrow> (\<And>x. quiet (f x)) \<Longrightarrow> quiet (bindS m f)"
  by (fastforce simp: quiet_def bindS_def split: prod.splits sum.splits)

lemma quiet_try:
  "quiet m \<Longrightarrow> (\<And>e. quiet (h (e, None))) \<Longrightarrow> (\<And>x. quiet (k x)) \<Longrightarrow> quiet (tryS m h k)"
  by (fastforce simp: quiet_def tryS_def split: prod.splits sum.splits)

lemma quiet_try_any:
  "unaffected view m \<Longrightarrow> (\<And>e. quiet (h e)) \<Longrightarrow> (\<And>x. quiet (k x)) \<Longrightarrow> quiet (tryS m h k)"
  by (fastforce simp: quiet_def unaffected_def tryS_def split: prod.splits sum.splits)

lemma quiet_basic: "quiet (returnS x)" "quiet (throwR e)" "quiet (throwS (e, None))" "quiet (liftR v)" "quiet (onFs m)"
  using onFs_view by (fastforce simp: quiet_def returnS_def throwS_def throwR_def liftS_def liftR_def split: sum.splits)+

lemma quiet_update: "(\<And>g. view (f g) = view g) \<Longrightarrow> quiet (updateS f)"
  by (simp add: quiet_def updateS_def)

lemma quiet_open: "quiet (openRetainedDirectory io expected)"
  unfolding openRetainedDirectory_def openDirectoryFd_def closeFd_def admitDescriptor_def
  by (intro quiet_try quiet_bind quiet_basic quiet_update)
    (auto simp: view_def intro!: quiet_basic quiet_try_any unaffecting unaffected_update unaffected_onFs quiet_bind)

lemma quiet_releaseAfter: "quiet (releaseAfter io fds (e, None))"
  unfolding releaseAfter_def closeDescriptors_def
  by (intro quiet_try_any quiet_basic unaffecting closeEach_unaffected) (simp_all add: view_def)

lemma quiet_retain: "quiet (retain io target staged original)"
  unfolding retain_def retainOriginal_def
  by (auto intro!: quiet_try quiet_open quiet_releaseAfter quiet_basic split: option.split)

lemma quiet_plan: "quiet (planReplacement io staged target backup)"
  unfolding planReplacement_def Let_def
  by (auto intro!: quiet_bind quiet_retain quiet_basic)

subsection \<open>The whole operation\<close>

lemma plan_paths:
  "planReplacement io staged target backup g = (Inr p, g') \<Longrightarrow>
   rpStagedDir p = staged \<and> rpTargetDir p = target \<and> rpBackupDir p = backup"
  by (auto simp: planReplacement_def Let_def throwR_def bindS_ok split: if_splits)

lemma untouched_view: "view g' = view g \<Longrightarrow> untouched g \<Longrightarrow> untouched g'"
  by (simp add: view_def untouched_def)

lemma untouched_start: "untouched (startReplacing s)"
  by (simp add: untouched_def startReplacing_def)

lemma closing_reported:
  assumes honest: "honestBinding io" and g: "untouched g" and run: "closingRetained io fds (replacePhases io p) g = (r, g')"
  shows "(r = Inr () \<and> replaced p g') \<or> (\<exists>e d. r = Inl (e, Some d) \<and> trueReport p d (rgMoves g'))"
proof -
  obtain r1 g1 where c1: "replacePhases io p g = (r1, g1)" by (metis surj_pair)
  obtain r2 g2 where c2: "closeRetained io fds g1 = (r2, g2)" by (metis surj_pair)
  have "unaffected view (closeRetained io fds)"
    unfolding closeRetained_def closeDescriptors_def
    by (intro unaffecting unaffected_update closeEach_unaffected) (simp_all add: view_def)
  then have v: "view g2 = view g1" using c2 by (simp add: unaffected_def)
  have "trueReport p (rgDetails g1) (rgMoves g1)" "r1 = Inr () \<and> replaced p g1 \<or> (\<exists>e. r1 = Inl (e, Some (rgDetails g1)))"
    using phases_reported [OF honest g, of p] c1 by (auto simp: reported_def replaced_def)
  then show ?thesis
    using run c1 c2 v
    by (auto simp: closingRetained_def view_def replaced_def replacementAggregate_def replacementFailure_def split: sum.splits)
qed

definition planned :: "host \<Rightarrow> jstr \<Rightarrow> replace_directory_options \<Rightarrow> replacement_plan \<Rightarrow> bool" where
  "planned h uniqueName options p \<longleftrightarrow>
     rpStagedDir p = pathResolve h [roStagedDir options] \<and> rpTargetDir p = pathResolve h [roTargetDir options] \<and>
     (\<exists>prefix. rpBackupDir p = posixJoin [posixDirname (rpTargetDir p), prefix @ uniqueName])"

lemma posix_admission:
  assumes "posixHost h"
  shows "admitStandalonePublicationPath h v m = Inr v" "assertNoWindowsPathAlias v k m (platform h) = Inr ()"
proof -
  have "platform h \<noteq> Win32" using assms by (simp add: posixHost_def)
  then show "assertNoWindowsPathAlias v k m (platform h) = Inr ()" for v k
    by (simp add: assertNoWindowsPathAlias_def hasWindowsPathAlias_def throwIf_def)
  then show "admitStandalonePublicationPath h v m = Inr v"
    using \<open>platform h \<noteq> Win32\<close> by (simp add: admitStandalonePublicationPath_def anchorWindowsDriveRelativePath_def)
qed

lemma bind_liftR: "bindS (liftR (Inr x)) f = f x" "bindS (liftR (Inl e)) f = throwR e"
  by (auto simp: liftR_def bindS_def returnS_def throwR_def throwS_def liftS_def)

lemma replace_moves:
  assumes honest: "honestBinding io" and h: "posixHost h"
    and run: "replaceDirectoryAtomic io u h uniqueName options s = (r, t)"
  shows "(\<exists>e. r = Inl (e, None) \<and> rgMoves t = []) \<or>
    (\<exists>p. planned h uniqueName options p \<and>
       (r = Inr () \<and> replaced p t \<or> (\<exists>e d. r = Inl (e, Some d) \<and> trueReport p d (rgMoves t))))"
proof -
  let ?staged = "pathResolve h [roStagedDir options]" and ?target = "pathResolve h [roTargetDir options]"
  have inner: "replaceDirectoryAtomicUnserialized io u uniqueName ?staged ?target (roBackupPrefix options) (startReplacing s) = (r, t)"
    using run by (simp add: replaceDirectoryAtomic_def posix_admission [OF h] bind_liftR Let_def)
  show ?thesis
  proof (cases "assertSafePathPrefix u (case roBackupPrefix options of None \<Rightarrow> js ''.fs-safe-dir-backup-'' | Some x \<Rightarrow> x) None")
    case (Inl e)
    then show ?thesis
      using inner by (auto simp: replaceDirectoryAtomicUnserialized_def bind_liftR throwR_def throwS_def liftS_def startReplacing_def)
  next
    case (Inr prefix)
    let ?backup = "posixJoin [posixDirname ?target, prefix @ uniqueName]"
    have steps: "bindS (planReplacement io ?staged ?target ?backup) (\<lambda>p. closingRetained io (rpFds p) (replacePhases io p))
        (startReplacing s) = (r, t)"
      using inner unfolding replaceDirectoryAtomicUnserialized_def Inr bind_liftR .
    obtain r1 g1 where c1: "planReplacement io ?staged ?target ?backup (startReplacing s) = (r1, g1)" by (metis surj_pair)
    have v: "view g1 = view (startReplacing s)" "\<forall>e d. r1 = Inl (e, d) \<longrightarrow> d = None"
      using quiet_plan c1 unfolding quiet_def by blast+
    show ?thesis
    proof (cases r1)
      case (Inl ed)
      then show ?thesis
        using steps c1 v by (cases ed) (auto simp: bindS_def view_def startReplacing_def)
    next
      case Inr1: (Inr p)
      then have "closingRetained io (rpFds p) (replacePhases io p) g1 = (r, t)"
        using steps c1 by (simp add: bindS_def)
      moreover have "planned h uniqueName options p" using plan_paths [of io ?staged ?target ?backup] c1 Inr1 by (auto simp: planned_def)
      ultimately show ?thesis
        using closing_reported [OF honest untouched_view [OF v(1) untouched_start]] by blast
    qed
  qed
qed


subsection \<open>Descriptors\<close>

text \<open>The descriptors opened and those closed.\<close>

definition fds :: "'s replacing \<Rightarrow> nat list \<times> nat list" where
  "fds g = (rgOpened g, rgReleased g)"

lemma closeEach_fds:
  "closeEach io ns seen errors g = (r, g') \<Longrightarrow>
   rgOpened g' = rgOpened g \<and> (\<exists>c. rgReleased g' = c @ rgReleased g \<and> distinct c \<and> set c = {n. Some n \<in> set ns} - set seen)"
proof (induction ns arbitrary: seen errors g)
  case Nil
  then show ?case by (simp add: returnS_def)
next
  case (Cons n ns)
  show ?case
  proof (cases n)
    case None
    then show ?thesis using Cons by auto
  next
    case (Some k)
    show ?thesis
    proof (cases "k \<in> set seen")
      case True
      then have "closeEach io ns seen errors g = (r, g')" using Cons.prems Some by simp
      moreover have "{m. Some m \<in> set (n # ns)} - set seen = {m. Some m \<in> set ns} - set seen" using True Some by auto
      ultimately show ?thesis using Cons.IH by simp
    next
      case False
      obtain r1 g1 where c1: "closeFd io k g = (r1, g1)" by (metis surj_pair)
      have f: "rgOpened g1 = rgOpened g" "rgReleased g1 = k # rgReleased g"
        using c1 by (auto simp: closeFd_def bindS_def updateS_def onFs_def split: prod.splits sum.splits)
      obtain errs where "closeEach io ns (k # seen) errs g1 = (r, g')"
        using Cons.prems Some False c1 by (auto simp: tryS_def split: sum.splits)
      then obtain c where c: "rgOpened g' = rgOpened g1" "rgReleased g' = c @ rgReleased g1" "distinct c"
        "set c = {n. Some n \<in> set ns} - set (k # seen)" using Cons.IH by blast
      then show ?thesis
        using f Some False by (intro conjI exI [of _ "c @ [k]"]) auto
    qed
  qed
qed

lemma closeDescriptors_fds:
  assumes "closeDescriptors io ns g = (r, g')"
  shows "rgOpened g' = rgOpened g \<and> (\<exists>c. rgReleased g' = c @ rgReleased g \<and> distinct c \<and> set c = {n. Some n \<in> set ns})"
proof -
  obtain r1 g1 where c1: "closeEach io ns [] [] g = (r1, g1)" by (metis surj_pair)
  have "g' = g1"
    using assms c1
    by (auto simp: closeDescriptors_def bindS_def returnS_def throwS_def throwR_def liftS_def split: sum.splits list.splits)
  then show ?thesis using closeEach_fds [OF c1] by simp
qed

text \<open>Every descriptor opened has been closed, and none more often than it was opened.\<close>

definition balanced :: "'s replacing \<Rightarrow> bool" where
  "balanced g \<longleftrightarrow> set (rgReleased g) = set (rgOpened g) \<and> mset (rgReleased g) \<subseteq># mset (rgOpened g)"

lemma distinct_msubset: "distinct c \<Longrightarrow> set c \<subseteq> set xs \<Longrightarrow> mset c \<subseteq># mset xs"
  by (simp add: subseteq_mset_def distinct_count_atmost_1 count_mset_0_iff) (metis Suc_leI count_mset_0_iff not_gr_zero subsetD
      le_zero_eq nat_le_linear)

lemma balanced_closed:
  assumes "distinct c" "set c = set opened" "rgReleased g = c @ extra" "rgOpened g = extra @ opened"
  shows "balanced g"
  using assms distinct_msubset [of c opened] by (auto simp: balanced_def)

lemma openRetained_fds:
  assumes "openRetainedDirectory io expected g = (r, g')"
  shows "(\<exists>fd. r = Inr fd \<and> fds g' = (fd # rgOpened g, rgReleased g)) \<or>
    (\<exists>e extra. r = Inl e \<and> fds g' = (extra @ rgOpened g, extra @ rgReleased g))"
proof -
  obtain r1 g1 where c1: "openDirectoryFd io (xdPath expected) g = (r1, g1)" by (metis surj_pair)
  have f1: "fds g1 = (case r1 of Inl _ \<Rightarrow> fds g | Inr fd \<Rightarrow> (fd # rgOpened g, rgReleased g))"
    using c1 by (auto simp: openDirectoryFd_def bindS_def onFs_def updateS_def returnS_def fds_def split: prod.splits sum.splits)
  show ?thesis
  proof (cases r1)
    case (Inl ed)
    then have "fds g' = fds g" "\<exists>e. r = Inl e"
      using assms c1 f1 by (auto simp: openRetainedDirectory_def tryS_def throwR_def throwS_def liftS_def split: prod.splits if_splits)
    then show ?thesis by (auto simp: fds_def intro: exI [of _ "[]"])
  next
    case (Inr fd)
    obtain r2 g2 where c2: "admitDescriptor io expected fd g1 = (r2, g2)" by (metis surj_pair)
    have "unaffected fds (admitDescriptor io expected fd)"
      unfolding admitDescriptor_def by (auto simp: fds_def intro!: unaffecting unaffected_onFs)
    then have f2: "fds g2 = (fd # rgOpened g, rgReleased g)" using c2 f1 Inr by (simp add: unaffected_def)
    show ?thesis
    proof (cases r2)
      case Inr2: (Inr v)
      then show ?thesis using assms c1 c2 f2 Inr by (simp add: openRetainedDirectory_def tryS_def returnS_def)
    next
      case Inl2: (Inl ed)
      obtain r3 g3 where c3: "closeFd io fd g2 = (r3, g3)" by (metis surj_pair)
      have "fds g3 = (fd # rgOpened g, fd # rgReleased g)"
        using c3 f2 by (auto simp: closeFd_def bindS_def updateS_def onFs_def fds_def split: prod.splits sum.splits)
      moreover have "g' = g3" "\<exists>e. r = Inl e"
        using assms c1 c2 c3 Inr Inl2
        by (auto simp: openRetainedDirectory_def tryS_def throwR_def throwS_def liftS_def split: sum.splits)
      ultimately show ?thesis by (auto intro: exI [of _ "[fd]"])
    qed
  qed
qed

lemma releaseAfter_fds:
  assumes "releaseAfter io ns e g = (r, g')"
  shows "(\<exists>e. r = Inl e) \<and> rgOpened g' = rgOpened g \<and>
    (\<exists>c. rgReleased g' = c @ rgReleased g \<and> distinct c \<and> set c = {n. Some n \<in> set ns})"
proof -
  obtain r1 g1 where c1: "closeDescriptors io ns g = (r1, g1)" by (metis surj_pair)
  have "g' = g1" "\<exists>e. r = Inl e"
    using assms c1 by (auto simp: releaseAfter_def tryS_def throwR_def throwS_def liftS_def split: sum.splits)
  then show ?thesis using closeDescriptors_fds [OF c1] by simp
qed

lemma retainOriginal_fds:
  assumes "retainOriginal io targetFd original g = (r, g')"
  shows "(\<exists>fd. r = Inr fd \<and> fds g' = (fd # rgOpened g, rgReleased g)) \<or>
    (\<exists>e extra. r = Inl e \<and> fds g' = (extra @ rgOpened g, extra @ rgReleased g))"
proof -
  have early: ?thesis if "\<exists>e. r = Inl e" "fds g' = fds g"
    using that by (auto simp: fds_def intro: exI [of _ "[]"])
  obtain r1 g1 where c1: "onFs (ioRemovalAvailable io targetFd) g = (r1, g1)" by (metis surj_pair)
  then have f1: "fds g1 = fds g" by (auto simp: onFs_def fds_def split: prod.splits sum.splits)
  show ?thesis
  proof (cases "ioSupportsCleanup io \<and> r1 = Inr True")
    case True
    then have "openRetainedDirectory io original g1 = (r, g')" using assms c1 by (simp add: retainOriginal_def tryS_def)
    then show ?thesis using openRetained_fds f1 by (fastforce simp: fds_def)
  next
    case False
    then show ?thesis using assms c1 f1
      by (intro early) (auto simp: retainOriginal_def tryS_def throwR_def throwS_def liftS_def split: if_splits sum.splits)
  qed
qed

definition heldFds :: "retained_fds \<Rightarrow> nat set" where
  "heldFds f = {n. Some n \<in> {rtOriginal f, Some (rtStaged f), Some (rtTarget f)}}"

lemma retain_fds:
  assumes run: "retain io targetParent stagedParent original g = (r, g')" and g: "rgOpened g = []" "rgReleased g = []"
  shows "(\<exists>f. r = Inr f \<and> set (rgOpened g') = heldFds f \<and> rgReleased g' = []) \<or> ((\<exists>e. r = Inl e) \<and> balanced g')"
proof -
  obtain r1 g1 where c1: "openRetainedDirectory io targetParent g = (r1, g1)" by (metis surj_pair)
  show ?thesis
  proof (cases r1)
    case (Inl e1)
    then obtain extra where x: "rgOpened g1 = extra" "rgReleased g1 = extra" using openRetained_fds [OF c1] g by (auto simp: fds_def)
    have "releaseAfter io [None, None, None] e1 g1 = (r, g')" using run c1 Inl by (simp add: retain_def tryS_def)
    from releaseAfter_fds [OF this] x show ?thesis by (auto simp: balanced_def)
  next
    case Inr1: (Inr targetFd)
    then have f1: "rgOpened g1 = [targetFd]" "rgReleased g1 = []" using openRetained_fds [OF c1] g by (auto simp: fds_def)
    let ?second = "if xdPath stagedParent = xdPath targetParent then returnS targetFd else openRetainedDirectory io stagedParent"
    obtain r2 g2 where c2: "?second g1 = (r2, g2)" by (metis surj_pair)
    have f2: "(\<exists>fd. r2 = Inr fd \<and> set (rgOpened g2) = {fd, targetFd} \<and> rgReleased g2 = []) \<or>
        (\<exists>e extra. r2 = Inl e \<and> rgOpened g2 = extra @ [targetFd] \<and> rgReleased g2 = extra)"
      using c2 f1 openRetained_fds [of io stagedParent g1 r2 g2] by (auto simp: returnS_def fds_def split: if_splits)
    show ?thesis
    proof (cases r2)
      case (Inl e2)
      then have "releaseAfter io [None, None, Some targetFd] e2 g2 = (r, g')"
        using run c1 c2 Inr1 by (simp add: retain_def tryS_def)
      from releaseAfter_fds [OF this] obtain c where
        c: "\<exists>e. r = Inl e" "rgOpened g' = rgOpened g2" "rgReleased g' = c @ rgReleased g2" "distinct c" "set c = {targetFd}" by auto
      obtain extra where "rgOpened g2 = extra @ [targetFd]" "rgReleased g2 = extra" using f2 Inl by auto
      then show ?thesis using c balanced_closed [of c "[targetFd]" g' extra] by simp
    next
      case Inr2: (Inr stagedFd)
      then have f2': "set (rgOpened g2) = {stagedFd, targetFd}" "rgReleased g2 = []" using f2 by auto
      show ?thesis
      proof (cases original)
        case None
        then have "r = Inr \<lparr>rtOriginal = None, rtStaged = stagedFd, rtTarget = targetFd\<rparr>" "g' = g2"
          using run c1 c2 Inr1 Inr2 by (simp_all add: retain_def tryS_def returnS_def)
        then show ?thesis using f2' by (auto simp: heldFds_def)
      next
        case (Some want)
        obtain r3 g3 where c3: "retainOriginal io targetFd want g2 = (r3, g3)" by (metis surj_pair)
        show ?thesis
        proof (cases r3)
          case (Inl e3)
          then obtain extra where x: "rgOpened g3 = extra @ rgOpened g2" "rgReleased g3 = extra"
            using retainOriginal_fds [OF c3] f2' by (auto simp: fds_def)
          have "releaseAfter io [None, Some stagedFd, Some targetFd] e3 g3 = (r, g')"
            using run c1 c2 c3 Inr1 Inr2 Inl Some by (simp add: retain_def tryS_def)
          from releaseAfter_fds [OF this] obtain c where
            "\<exists>e. r = Inl e" "rgOpened g' = rgOpened g3" "rgReleased g' = c @ rgReleased g3" "distinct c" "set c = {stagedFd, targetFd}"
            by auto
          then show ?thesis using x f2' balanced_closed [of c "rgOpened g2" g' extra] by simp
        next
          case (Inr originalFd)
          then have "r = Inr \<lparr>rtOriginal = Some originalFd, rtStaged = stagedFd, rtTarget = targetFd\<rparr>" "g' = g3"
            using run c1 c2 c3 Inr1 Inr2 Some by (simp_all add: retain_def tryS_def returnS_def)
          then show ?thesis using retainOriginal_fds [OF c3] f2' Inr by (auto simp: heldFds_def fds_def)
        qed
      qed
    qed
  qed
qed

text \<open>The phases open and close nothing.\<close>

definition held :: "'s replacing \<Rightarrow> (nat list \<times> nat list) \<times> bool" where
  "held g = (fds g, rgClosed g)"

lemma held_fields:
  "held (g\<lparr>rgWorld := s\<rparr>) = held g" "held (g\<lparr>rgDetails := d\<rparr>) = held g" "held (g\<lparr>rgTransition := t\<rparr>) = held g"
  "held (g\<lparr>rgRollback := t\<rparr>) = held g" "held (g\<lparr>rgPublication := pub\<rparr>) = held g" "held (g\<lparr>rgBackup := b\<rparr>) = held g"
  "held (g\<lparr>rgMoves := ms\<rparr>) = held g" "held (g\<lparr>rgCleanupUsed := c\<rparr>) = held g"
  by (simp_all add: held_def fds_def)

lemma rename_held: "unaffected held (renameNoReplace io f parent a b want)"
  by (auto simp: unaffected_def renameNoReplace_def Let_def throwR_def throwS_def liftS_def held_def fds_def
      split: prod.splits rename_answer.splits)

lemma details_held: "unaffected held (detailsS backup phase recovery)"
  by (simp add: unaffected_def detailsS_def Let_def held_def fds_def)

lemma remove_held: "unaffected held (removeOriginal io f name)"
proof -
  have "unaffected held (removeOwnedTree io f name fd)" for fd
    by (auto simp: unaffected_def removeOwnedTree_def Let_def held_def fds_def split: prod.splits sum.splits)
  then show ?thesis
    unfolding removeOriginal_def by (auto intro!: unaffecting unaffected_update simp: held_fields)
qed

lemma renameRetained_held:
  "(\<And>g. held (onI g) = held g) \<Longrightarrow> (\<And>i g. held (onR i g) = held g) \<Longrightarrow>
   unaffected held (renameRetainedDirectory io a b sp tp want (renameNoReplace io f parent x y) onI onR)"
  unfolding renameRetainedDirectory_def Let_def
  by (intro unaffecting rename_held unaffected_update unaffected_onFs; simp add: held_fields)

lemma phases_held: "unaffected held (replacePhases io p)"
proof -
  note simple = unaffecting renameRetained_held details_held unaffected_update unaffected_onFs remove_held
  have fail: "unaffected held (failReplacement backup e m phase recovery)" for backup e m phase recovery
    unfolding failReplacement_def by (intro simple)
  have roll: "unaffected held (rollback io p e phase i)" for e phase i
    unfolding rollback_def by (intro simple fail; simp add: held_fields)
  show ?thesis
    unfolding replacePhases_def backupPhase_def publishPhase_def cleanupPhase_def Let_def
    by (auto intro!: simple fail roll simp: held_fields split: option.split rename_transition.split publication_status.split)
qed

lemma closeFd_open: "unaffected rgClosed (closeFd io n)"
  unfolding closeFd_def by (auto intro!: unaffecting unaffected_update unaffected_onFs)

lemma retain_open: "unaffected rgClosed (retain io targetParent stagedParent original)"
  unfolding retain_def releaseAfter_def retainOriginal_def closeDescriptors_def openRetainedDirectory_def openDirectoryFd_def
    admitDescriptor_def
  by (auto intro!: unaffecting unaffected_update unaffected_onFs closeEach_unaffected closeFd_open)

definition bare :: "'s replacing \<Rightarrow> bool" where
  "bare g \<longleftrightarrow> rgOpened g = [] \<and> rgReleased g = [] \<and> \<not> rgClosed g"

definition holding :: "retained_fds \<Rightarrow> 's replacing \<Rightarrow> bool" where
  "holding f g \<longleftrightarrow> set (rgOpened g) = heldFds f \<and> rgReleased g = [] \<and> \<not> rgClosed g"

lemma bare_balanced: "bare g \<Longrightarrow> balanced g"
  by (simp add: bare_def balanced_def)

lemma bare_onFs: "triple bare (onFs m) (\<lambda>_. bare) (\<lambda>_. balanced)"
  by (auto simp: triple_def onFs_def bare_def balanced_def split: prod.splits sum.splits)

lemma bare_basic: "triple bare (returnS x) (\<lambda>_. bare) (\<lambda>_. balanced)" "triple bare (throwR e) Q (\<lambda>_. balanced)"
  using bare_balanced by (auto simp: throwR_def intro: triple_return triple_throw)

lemma retain_holding: "triple bare (retain io targetParent stagedParent original) holding (\<lambda>_. balanced)"
  unfolding triple_def
proof (intro allI impI)
  fix g :: "'a replacing"
  assume g: "bare g"
  obtain r g' where run: "retain io targetParent stagedParent original g = (r, g')" by (metis surj_pair)
  have "rgClosed g' = rgClosed g" using retain_open run unfolding unaffected_def by blast
  then show "case retain io targetParent stagedParent original g of (Inl e, t) \<Rightarrow> balanced t | (Inr x, t) \<Rightarrow> holding x t"
    using retain_fds [OF run] g run by (auto simp: bare_def holding_def)
qed

lemma plan_holding: "triple bare (planReplacement io staged target backup) (\<lambda>p. holding (rpFds p)) (\<lambda>_. balanced)"
proof -
  have then_plan: "triple bare (bindS (retain io a b c) (\<lambda>f. returnS (mk f))) (\<lambda>p. holding (rpFds p)) (\<lambda>_. balanced)"
    if "\<And>f. rpFds (mk f) = f" for a b c and mk :: "retained_fds \<Rightarrow> replacement_plan"
    using that by (intro triple_bind [OF retain_holding] triple_return) simp
  have guard: "triple bare (if b then returnS x else onFs m) (\<lambda>_. bare) (\<lambda>_. balanced)" for b x m
    using bare_onFs bare_basic(1) by auto
  show ?thesis
    unfolding planReplacement_def Let_def
    by (cases "ioSupportsRename io")
      (auto intro!: triple_bind [OF bare_onFs] triple_bind [OF guard] then_plan bare_basic)
qed

lemma closing_balanced: "triple (holding f) (closingRetained io f (replacePhases io p)) (\<lambda>_. balanced) (\<lambda>_. balanced)"
  unfolding triple_def
proof (intro allI impI)
  fix g :: "'a replacing"
  assume g: "holding f g"
  obtain r1 g1 where c1: "replacePhases io p g = (r1, g1)" by (metis surj_pair)
  have h: "held g1 = held g" using phases_held c1 unfolding unaffected_def by blast
  obtain r2 g2 where c2: "closeRetained io f g1 = (r2, g2)" by (metis surj_pair)
  have "closeDescriptors io [rtOriginal f, Some (rtStaged f), Some (rtTarget f)] (g1\<lparr>rgClosed := True\<rparr>) = (r2, g2)"
    using c2 h g by (simp add: closeRetained_def bind_readG bind_updateS held_def holding_def)
  from closeDescriptors_fds [OF this] have "balanced g2"
    using h g distinct_msubset by (fastforce simp: held_def fds_def holding_def balanced_def heldFds_def)
  moreover have "snd (closingRetained io f (replacePhases io p) g) = g2"
    using c1 c2 by (auto simp: closingRetained_def split: sum.splits)
  ultimately show "case closingRetained io f (replacePhases io p) g of (Inl e, t) \<Rightarrow> balanced t | (Inr x, t) \<Rightarrow> balanced t"
    by (auto split: prod.splits sum.splits)
qed

lemma replace_balanced: "triple bare (replaceDirectoryAtomicUnserialized io u name staged target backupPrefix) (\<lambda>_. balanced) (\<lambda>_. balanced)"
proof -
  have "triple bare (liftR v) (\<lambda>_. bare) (\<lambda>_. balanced)" for v :: "error + jstr"
    using bare_basic by (cases v) (auto simp: liftR_def)
  then show ?thesis
    unfolding replaceDirectoryAtomicUnserialized_def
    by (rule triple_bind) (rule triple_bind [OF plan_holding closing_balanced])
qed

text \<open>C7: whatever fails and wherever, when a replacement returns or throws, every descriptor it opened has been
  handed to close, and none has been closed more often than it was opened.\<close>

theorem replacement_closes_descriptors:
  assumes "posixHost h" "replaceDirectoryAtomic io u h uniqueName options s = (r, t)"
  shows "set (rgReleased t) = set (rgOpened t) \<and> mset (rgReleased t) \<subseteq># mset (rgOpened t)"
proof -
  let ?staged = "pathResolve h [roStagedDir options]" and ?target = "pathResolve h [roTargetDir options]"
  have inner: "replaceDirectoryAtomicUnserialized io u uniqueName ?staged ?target (roBackupPrefix options) (startReplacing s) = (r, t)"
    using assms by (simp add: replaceDirectoryAtomic_def posix_admission bind_liftR Let_def)
  have "bare (startReplacing s)" by (simp add: bare_def startReplacing_def)
  from triple_run [OF replace_balanced this inner] show ?thesis by (auto simp: balanced_def split: sum.splits)
qed

subsection \<open>A replacement\<close>

text \<open>Directories by path, with their inodes; the parent is \<open>/w\<close>.\<close>

type_synonym demo_dirs = "(jstr \<times> int) list"

definition demoDirectory :: "jstr \<Rightarrow> (demo_dirs, error, big_stat) op" where
  "demoDirectory p s =
     (case map_of s p of
        None \<Rightarrow> Inl (NodeErr ''ENOENT'')
      | Some i \<Rightarrow> Inr \<lparr>bsDev = 1, bsIno = i, bsKind = Directory\<rparr>, s)"

definition replaceDemo :: "demo_dirs replace_io" where
  "replaceDemo =
     (let child = (\<lambda>name. js ''/w/'' @ name)
      in \<lparr>ioLstat = demoDirectory, ioReadlink = (\<lambda>p s. (Inl (NodeErr ''EINVAL''), s)), ioRealpath = (\<lambda>p s. (Inr p, s)),
          ioAccess = (\<lambda>p s. (Inr (), s)), ioStat = demoDirectory, ioExists = (\<lambda>p s. (map_of s p \<noteq> None, s)),
          ioReaddir = (\<lambda>p s. (Inr [], s)), ioMkdirRecursive = (\<lambda>p s. (Inr (), s)),
          ioOpenDirectory = (\<lambda>p s. (case map_of s p of None \<Rightarrow> Inl (NodeErr ''ENOENT'') | Some i \<Rightarrow> Inr (nat i), s)),
          ioFstat = (\<lambda>fd s. (Inr \<lparr>bsDev = 1, bsIno = int fd, bsKind = Directory\<rparr>, s)), ioClose = (\<lambda>fd s. (Inr (), s)),
          ioSupportsRename = True, ioSupportsCleanup = True, ioRemovalAvailable = (\<lambda>fd s. (Inr True, s)),
          ioRenameNoReplace = (\<lambda>fd a fd' b i s.
            if map_of s (child b) \<noteq> None then (Rename_refused (NodeErr ''EEXIST''), s)
            else case map_of s (child a) of
                   None \<Rightarrow> (Rename_refused (NodeErr ''ENOENT''), s)
                 | Some n \<Rightarrow> (Rename_done, (child b, n) # filter (\<lambda>(p, _). p \<noteq> child a) s)),
          ioRemoveOwnedTree = (\<lambda>fd name fd' s.
            ((True, Inr \<lparr>nrOutcome = Outcome_removed, nrErrorCode = None\<rparr>), filter (\<lambda>(p, _). p \<noteq> child name) s))\<rparr>)"

lemma replaceDemo_honest: "honestBinding replaceDemo"
  by (auto simp: honestBinding_def replaceDemo_def Let_def split: if_splits option.splits)

definition replaceDemoRun :: "(replace_failure + unit) \<times> demo_dirs replacing" where
  "replaceDemoRun = replaceDirectoryAtomic replaceDemo asciiUnicode demoHost (js ''1'')
     \<lparr>roStagedDir = js ''/w/new'', roTargetDir = js ''/w/old'', roBackupPrefix = None\<rparr>
     [(js ''/w'', 2), (js ''/w/new'', 5), (js ''/w/old'', 7)]"

lemma replaceDemo_result: "fst replaceDemoRun = Inr ()"
  by code_simp

lemma replaceDemo_moves: "rgMoves (snd replaceDemoRun) \<noteq> []" "length (rgOpened (snd replaceDemoRun)) = 2"
  by code_simp+

lemma replaceDemo_run:
  "replaceDirectoryAtomic replaceDemo asciiUnicode demoHost (js ''1'')
     \<lparr>roStagedDir = js ''/w/new'', roTargetDir = js ''/w/old'', roBackupPrefix = None\<rparr>
     [(js ''/w'', 2), (js ''/w/new'', 5), (js ''/w/old'', 7)] = (Inr (), snd replaceDemoRun)"
  using replaceDemo_result by (simp add: replaceDemoRun_def prod_eq_iff)


theorem replacement_closes_descriptors_witness:
  "set (rgReleased (snd replaceDemoRun)) = set (rgOpened (snd replaceDemoRun))"
  using replacement_closes_descriptors [OF posixHost_demo replaceDemo_run] by blast

end
