(* ===== verification/Spec2Isabelle.thy ===== *)
theory Spec2Isabelle
  imports FileName ZipLoader ZipCount BoundedRead Permissions PathPrefix SidecarOutcome RootPhysical QueueDelivery WalkOrder DenySafety SymlinkParents ReplaceSafety
begin

text \<open>
  fs-safe is a TypeScript library of file system operations that stay inside a root: untrusted names and
  paths are admitted lexically, resolved physically and checked again; archives are admitted before
  anything is extracted; locks, queues and permission reports rest on the same checks. This development
  models the logic of the library (files below \<open>src/\<close>) and proves what makes it correct. It covers the
  code that decides; the system calls and third-party packages that it decides about are parameters.

  \<^bold>\<open>Conventions.\<close> A string is the list of its UTF-16 code units (\<open>jstr\<close>), so lengths and indices are those of
  JavaScript; a buffer is a list of bytes. Numbers are \<open>int\<close> or \<open>nat\<close> where the code checked them to be
  safe integers, words where it uses bit operations (checksums, access masks), and \<open>jsnum\<close> where a caller
  may pass any number. A function that throws returns \<open>error + 'a\<close>; one that also keeps state is a
  \<open>('s, error, 'a) op\<close>, composed with \<open>bindS\<close>, \<open>tryS\<close> and \<open>finallyS\<close>, which are \<open>await\<close> and sequencing,
  \<open>try ... catch\<close> and \<open>try ... finally\<close>. Definitions keep the names of the source. \<open>triple\<close> and
  \<open>keeps\<close> (Effects) are the total-correctness assertions that the proofs over such operations use.

  \<^bold>\<open>Foundations.\<close>
  \<^item> Prelude: strings, splitting and joining, safe integers, the error monad.
  \<^item> NodePath: what the sources use of Node's \<open>path\<close>; \<open>host\<close> is the platform, the current directory and
    the \<open>win32\<close> functions that depend on the process.
  \<^item> Errors: \<open>errors.ts\<close>, \<open>archive-errors.ts\<close>, \<open>error-detail.ts\<close>. Effects: operations with state, and the
    locale \<open>tracker\<close> for the closures that admit one item after another. Bytes: buffers, UTF-8, generators.

  \<^bold>\<open>Names and lexical paths.\<close> WindowsPath (\<open>windows-path-syntax.ts\<close>, \<open>windows-path-alias.ts\<close>), UnicodePath
  (\<open>unicode-path.ts\<close>), DevicePath (\<open>device-path.ts\<close>, \<open>local-file-access.ts\<close>), SafeSegment
  (\<open>safe-path-segment.ts\<close>), FileName (\<open>filename.ts\<close>), PathLexical (\<open>path.ts\<close>, \<open>path-scope-lexical.ts\<close>,
  \<open>root-paths-lexical.ts\<close>, \<open>path-segment-route.ts\<close>). Containment says what they are for: a path denotes
  the segments it resolves to, \<open>isPathInside\<close> decides the prefix order on them by either of its routes, and
  the locale \<open>containment\<close>, interpreted on the code's test, carries the scoped resolvers.

  \<^bold>\<open>Physical paths.\<close> PathPrefix (\<open>path-prefix.ts\<close>) walks a path link by link over file system calls that are a
  parameter; it refines an abstract resolution over a tree. RootPath (\<open>root-path.ts\<close>,
  \<open>root-path-existing.ts\<close>, \<open>root-boundary.ts\<close>, \<open>root-path-errors.ts\<close>) is the resolution under a root that
  every operation of a root handle begins with, built on PathLexical and PathPrefix. RootSafety shows that
  a result is inside the root whatever the file system answers and whenever; RootPhysical shows that over
  a tree at rest the canonical path has no link on it and is where the kernel's resolution leads. Bounds:
  64 link hops, as in the code; the walks recur over the components left and the hops left.
  SymlinkParents (\<open>symlink-parents.ts\<close>) is the check that no directory on the way to a target is a link:
  the kernel's resolution of a target that passed follows no link below the root and does not leave it.

  \<^bold>\<open>Archives.\<close> ArchiveLimits, ArchiveEntry, ArchivePlan (\<open>archive-limits.ts\<close>, \<open>archive-entry.ts\<close>,
  \<open>archive-plan.ts\<close>, \<open>archive-kind.ts\<close>) decide which entries are extracted, where, and within which budget; the
  locale \<open>tracker\<close> is interpreted on the budget, the collision tracker, the planner and the name set.
  ZipNames, ZipDirectory, ZipAdmission, ZipLoader, ZipCount and Crc32 model the admission of a ZIP file before
  and beside JSZip: all readings of a name agree, the records tile the file without overlap, the two
  drivers of the scan agree, and what a decoder hands out is tied to the admitted record and verified. The
  scan's fuel is the length of the directory, each entry of which takes at least 46 bytes; a lemma shows
  that more fuel changes nothing. JSZip is a parameter: the calls it makes and the objects it leaves.

  \<^bold>\<open>Reads.\<close> BoundedRead (\<open>bounded-read.ts\<close>, \<open>byte-budget.ts\<close>): the read loop over any source of chunks
  (locale \<open>byte_source\<close>, interpreted on handles and descriptors) is a partial function, proved to end under
  a finite budget for any source.

  \<^bold>\<open>Walking.\<close> DirectoryWalk (\<open>walk.ts\<close>): the walk over a stack of directories, with its budgets on entries
  and depth, its symlink policies and its record of directories already visited. The file system and the
  caller's callbacks are parameters that may change between two calls. The loop is a partial function:
  WalkSafety proves that it ends within every budget and, from the locale \<open>walk_invariant\<close>, that no path
  outside the root is reported and no budget exceeded; WalkOrder proves that over a tree at rest the
  reports are exactly the depth-first preorder of the tree, a reference definition by structural recursion.

  \<^bold>\<open>Mutation policy.\<close> DenyMutations (\<open>deny-mutations.ts\<close>, \<open>deny-mutation-match.ts\<close>) refuses to change what
  a list of denied paths and prefixes covers. It compares the target with every entry in several spellings
  (lexical, resolved, and with the missing tail folded), observed through MutationObservation
  (\<open>pinned-mutation-observation.ts\<close>), StrictIdentity (\<open>strict-file-identity.ts\<close>) and the case probe of PathCase
  (\<open>path-case.ts\<close>). DenySafety proves, in the locale \<open>check_invariant\<close> that both contracts of a check share,
  that an allowed mutation is clear of the policy whatever the file system answers, and that over a file
  system at rest it is clear in the resolved spellings and for names that exist nowhere yet too.
  MutationObservation proves that the grouped recheck agrees with rechecking one by one.

  \<^bold>\<open>Permissions.\<close> WindowsAcl (\<open>permissions-windows.ts\<close>, \<open>windows-owner.ts\<close>, \<open>windows-security-facts.ts\<close>)
  folds access control entries to effective rights, compared with the access check of Windows;
  Permissions (\<open>permissions.ts\<close>, \<open>windows-command.ts\<close>) reports them and prints commands, which a model of
  the shell reads back. FileIdentity (\<open>file-identity.ts\<close>) is when two stats name one file.

  \<^bold>\<open>Concurrency.\<close> A world is the part of the file system that matters, with what others do before every
  system call given by a function of the step number, so that a theorem over all such functions covers
  every interleaving.
  \<^item> SidecarRecord, SidecarWorld, SidecarReclaim (\<open>sidecar-lock-policy.ts\<close>, \<open>sidecar-lock-reclaim.ts\<close>,
    \<open>sidecar-lock-stale-admission.ts\<close>): an attempt on a lock file that exists. SidecarSafety: nothing is removed
    that was not judged, guarded and found unchanged; SidecarOutcome: how it may fail. The locale \<open>ambient\<close>
    collects the assertions that no interference invalidates.
  \<^item> DurableQueue (\<open>json-durable-queue-ownership.ts\<close>): the names of a queue entry. Every system call may
    fail, before or after its effect, which is how a crash is modelled. QueueSafety: no generation is lost;
    QueueDelivery: an acknowledged one is never claimed again. The locale \<open>steadfast\<close> lifts what every call
    keeps to every request.

  \<^bold>\<open>Not modelled.\<close> The Windows branches of the physical walks and the branches of the lock that reach the
  file system through a root handle; the operations over descriptors that publish, copy, move and remove
  (they are sequences of system calls around the modelled checks, with native helpers in another language);
  streams, timers and the WebAssembly TAR parser; external commands; scripts, tests and packaging. The
  manifest lists them file by file. The text of a message that is computed from a path, and the modes and
  times of files, are left out of the models.
\<close>

end
